(* ===== verification/C_Prelude.thy ===== *)
theory C_Prelude
  imports Main "HOL-Library.Word"
begin

text \<open>
  Shared vocabulary of the development: names for the C integer types, bytes and
  byte strings, little-endian loads and stores, and the generic facts about words,
  lists and options that the component theories use.
\<close>

unbundle bit_operations_syntax

type_synonym u8 = "8 word"
type_synonym u16 = "16 word"
type_synonym u32 = "32 word"
type_synonym u64 = "64 word"
type_synonym bytes = "u8 list"

named_theorems inj_word \<open>injective word operations\<close>

subsection \<open>Bits of words\<close>

lemma bit_word_beyond [simp]: "LENGTH('a::len) \<le> n \<Longrightarrow> \<not> bit (w :: 'a word) n"
  by (meson bit_imp_le_length linorder_not_less)

lemma xor_cancel_left [simp]: "(a :: 'a::len word) XOR (a XOR b) = b"
  by (simp flip: xor.assoc)

lemma xor_cancel_right_iff [simp]: "(a XOR c = b XOR c) = (a = (b :: 'a::len word))"
  by (metis xor.commute xor_cancel_left)

lemma xor_cancel_left_iff [simp]: "(c XOR a = c XOR b) = (a = (b :: 'a::len word))"
  by (metis xor_cancel_left)

lemma unat_u8_less: "unat (w :: u8) < 256"
  using unsigned_less [of w, where 'a = nat] by simp

lemma unat_u16_less: "unat (w :: u16) < 65536"
  using unsigned_less [of w, where 'a = nat] by simp

lemma unat_u32_less: "unat (w :: u32) < 4294967296"
  using unsigned_less [of w, where 'a = nat] by simp

subsection \<open>Invertible word operations\<close>

text \<open>Each rule peels one operation off a function composed of them.\<close>

lemma inj_xor_const [inj_word]: "inj f \<Longrightarrow> inj (\<lambda>x. f x XOR c :: 'a::len word)"
  by (simp add: inj_def)

lemma inj_const_xor [inj_word]: "inj f \<Longrightarrow> inj (\<lambda>x. c XOR f x :: 'a::len word)"
  by (simp add: inj_def)

lemma inj_plus_const [inj_word]: "inj f \<Longrightarrow> inj (\<lambda>x. f x + c :: 'a::len word)"
  by (simp add: inj_def)

lemma inj_mult_unit:
  fixes c :: "'a::len word"
  assumes "c * d = 1" and "inj f"
  shows "inj (\<lambda>x. f x * c)"
proof (rule injI)
  fix x y
  assume "f x * c = f y * c"
  then have "f x * c * d = f y * c * d" by simp
  then have "f x = f y" by (simp add: mult.assoc assms(1))
  then show "x = y" by (rule injD [OF assms(2)])
qed

text \<open>Shifting right and xoring with the original loses nothing: the high bits are kept,
  and each lower bit can be recovered from a higher one.\<close>

lemma xorshift_cancel:
  fixes x y :: "'a::len word"
  assumes "0 < n" and eq: "x XOR drop_bit n x = y XOR drop_bit n y"
  shows "x = y"
proof -
  have "bit x i = bit y i" for i
  proof (induction "LENGTH('a) - i" arbitrary: i rule: less_induct)
    case less
    show ?case
    proof (cases "i < LENGTH('a)")
      case True
      have "bit (x XOR drop_bit n x) i = bit (y XOR drop_bit n y) i" using eq by simp
      moreover have "bit x (n + i) = bit y (n + i)"
        using less.hyps [of "n + i"] assms True by simp
      ultimately show ?thesis by (simp add: bit_simps) metis
    next
      case False
      then show ?thesis by simp
    qed
  qed
  then show "x = y" by (simp add: bit_eq_iff)
qed

lemma inj_xorshift [inj_word]:
  "0 < n \<Longrightarrow> inj f \<Longrightarrow> inj (\<lambda>x. f x XOR drop_bit n (f x) :: 'a::len word)"
  by (rule injI) (blast dest: xorshift_cancel injD)

lemma bij_of_inj_word: "inj (f :: 'a::len word \<Rightarrow> 'a word) \<Longrightarrow> bij f"
  by (simp add: bij_def finite_UNIV_inj_surj)

subsection \<open>Little-endian stores\<close>

definition bytes_of_u16 :: "u16 \<Rightarrow> bytes" where
  "bytes_of_u16 w = [ucast w, ucast (drop_bit 8 w)]"

definition bytes_of_u32 :: "u32 \<Rightarrow> bytes" where
  "bytes_of_u32 w =
     [ucast w, ucast (drop_bit 8 w), ucast (drop_bit 16 w), ucast (drop_bit 24 w)]"

text \<open>A little-endian load of the bytes \<open>bs\<close>: the byte at offset \<open>i\<close> is
  worth \<open>256 ^ i\<close>.\<close>

fun load_le :: "bytes \<Rightarrow> 'a::len word" where
  "load_le [] = 0"
| "load_le (b # bs) = ucast b OR push_bit 8 (load_le bs)"

lemma length_bytes_of_u16 [simp]: "length (bytes_of_u16 w) = 2"
  by (simp add: bytes_of_u16_def)

lemma length_bytes_of_u32 [simp]: "length (bytes_of_u32 w) = 4"
  by (simp add: bytes_of_u32_def)

lemma load_le_bytes_of_u16 [simp]: "load_le (bytes_of_u16 w) = w"
proof (rule bit_word_eqI)
  fix n assume "n < LENGTH(16)"
  then show "bit (load_le (bytes_of_u16 w) :: u16) n = bit w n"
    by (auto simp: bytes_of_u16_def bit_simps)
qed

lemma load_le_bytes_of_u32 [simp]: "load_le (bytes_of_u32 w) = w"
proof (rule bit_word_eqI)
  fix n assume n: "n < LENGTH(32)"
  then have "n < 8 \<or> n \<ge> 8 \<and> n < 16 \<or> n \<ge> 16 \<and> n < 24 \<or> n \<ge> 24" by arith
  then show "bit (load_le (bytes_of_u32 w) :: u32) n = bit w n"
    using n by (elim disjE) (auto simp: bytes_of_u32_def bit_simps)
qed

lemma load_le_Cons_xor: "load_le (b # bs) = ucast b XOR push_bit 8 (load_le bs)"
proof (rule bit_word_eqI)
  fix n assume "n < LENGTH('a)"
  then show "bit (load_le (b # bs) :: 'a word) n
      = bit (ucast b XOR push_bit 8 (load_le bs) :: 'a word) n"
    by (cases "n < 8") (auto simp: bit_simps)
qed

lemma load_le_zeros [simp]: "load_le (replicate n 0) = 0"
  by (induction n) simp_all

subsection \<open>Arrays and flags\<close>

text \<open>An access outside an array is \<open>None\<close>.\<close>

definition nth_opt :: "'a list \<Rightarrow> nat \<Rightarrow> 'a option" where
  "nth_opt xs i = (if i < length xs then Some (xs ! i) else None)"

definition nth_int :: "'a list \<Rightarrow> int \<Rightarrow> 'a option" where
  "nth_int xs i = (if 0 \<le> i then nth_opt xs (nat i) else None)"

definition bits_set :: "'a::len word \<Rightarrow> 'a word \<Rightarrow> bool" where
  "bits_set w m \<longleftrightarrow> w AND m \<noteq> 0"

subsection \<open>Counting loops\<close>

text \<open>\<open>for (y = 1; y <= n; y++)\<close> is a fold over \<open>[1..<Suc n]\<close>.\<close>

lemma fold_from_1_0: "fold f [1..<Suc 0] s = s"
  by simp

lemma fold_from_1_Suc: "fold f [1..<Suc (Suc n)] s = f (Suc n) (fold f [1..<Suc n] s)"
  by simp

lemmas fold_from_1 = fold_from_1_0 fold_from_1_Suc

lemma fold_upt_Suc: "a \<le> n \<Longrightarrow> fold f [a..<Suc n] s = f n (fold f [a..<n] s)"
  by simp

lemma map_upt_eq_iff:
  "(map f [0..<n] = map g [0..<n]) = (\<forall>i<n. f i = g i)"
  by auto

lemma list_update_map_upt:
  "k < n \<Longrightarrow> (map f [0..<n])[k := v] = map (f(k := v)) [0..<n]"
  by (auto simp: list_eq_iff_nth_eq nth_list_update)

end
