(* ===== verification/Murmur3.thy ===== *)
theory Murmur3
  imports C_Prelude
begin

text \<open>
  The MurmurHash3 family of \<open>pcov-patched/murmur3.h\<close>, which hashes file names,
  line numbers, array keys and compared strings into coverage feedback. The key is a
  byte list (the \<open>len\<close> bytes at \<open>key\<close>); block reads are little-endian, as on
  the x86 guests the agent runs on. The lemmas show that the finalisers are bijections,
  that hashing a 32-bit integer is injective, and that the fall-through tail of the
  128-bit hash is a zero-padded little-endian load.
\<close>

subsection \<open>Rotations, block reads and finalisers\<close>

definition rotl32 :: "u32 \<Rightarrow> nat \<Rightarrow> u32" where
  "rotl32 x r = push_bit r x OR drop_bit (32 - r) x"

definition rotl64 :: "u64 \<Rightarrow> nat \<Rightarrow> u64" where
  "rotl64 x r = push_bit r x OR drop_bit (64 - r) x"

text \<open>\<open>getblock(p, i)\<close> is \<open>p[i]\<close>: the \<open>i\<close>-th 4-byte (8-byte) word from byte offset
  \<open>base\<close> of the key.\<close>

definition getblock32 :: "bytes \<Rightarrow> nat \<Rightarrow> u32" where
  "getblock32 data i = load_le (take 4 (drop (4 * i) data))"

definition getblock64 :: "bytes \<Rightarrow> nat \<Rightarrow> u64" where
  "getblock64 data i = load_le (take 8 (drop (8 * i) data))"

definition fmix32 :: "u32 \<Rightarrow> u32" where
  "fmix32 h =
     (let h = h XOR drop_bit 16 h;
          h = h * 0x85ebca6b;
          h = h XOR drop_bit 13 h;
          h = h * 0xc2b2ae35
      in h XOR drop_bit 16 h)"

definition fmix64 :: "u64 \<Rightarrow> u64" where
  "fmix64 k =
     (let k = k XOR drop_bit 33 k;
          k = k * 0xff51afd7ed558ccd;
          k = k XOR drop_bit 33 k;
          k = k * 0xc4ceb9fe1a85ec53
      in k XOR drop_bit 33 k)"

text \<open>One \<open>case i + 1:\<close> label of the tail switch on \<open>n = len & (blocksize - 1)\<close>:
  it runs for every \<open>n > i\<close>, because the cases fall through.\<close>

definition tail_byte :: "bytes \<Rightarrow> nat \<Rightarrow> nat \<Rightarrow> nat \<Rightarrow> 'a::len word" where
  "tail_byte tail n i s = (if i < n then push_bit s (ucast (tail ! i)) else 0)"

subsection \<open>The x86 32-bit hash\<close>

definition mix32_k1 :: "u32 \<Rightarrow> u32" where
  "mix32_k1 k1 = rotl32 (k1 * 0xcc9e2d51) 15 * 0x1b873593"

definition murmur32_step :: "bytes \<Rightarrow> nat \<Rightarrow> u32 \<Rightarrow> u32" where
  "murmur32_step data i h1 =
     rotl32 (h1 XOR mix32_k1 (getblock32 data i)) 13 * 5 + 0xe6546b64"

definition murmur32_tail :: "bytes \<Rightarrow> nat \<Rightarrow> u32" where
  "murmur32_tail tail n = tail_byte tail n 2 16 XOR tail_byte tail n 1 8 XOR tail_byte tail n 0 0"

definition MurmurHash3_x86_32 :: "bytes \<Rightarrow> u32 \<Rightarrow> u32" where
  "MurmurHash3_x86_32 key seed =
     (let len = length key;
          nblocks = len div 4;
          h1 = fold (murmur32_step key) [0..<nblocks] seed;
          tail = drop (nblocks * 4) key;
          n = len mod 4;
          h1 = (if 1 \<le> n then h1 XOR mix32_k1 (murmur32_tail tail n) else h1);
          h1 = h1 XOR word_of_nat len
      in fmix32 h1)"

subsection \<open>The x86 128-bit hash\<close>

text \<open>The state is \<open>(h1, h2, h3, h4)\<close>; \<open>mix128\<close> is the three-step mix of one key
  word with its two constants and its rotation.\<close>

definition mix128 :: "u32 \<Rightarrow> nat \<Rightarrow> u32 \<Rightarrow> u32 \<Rightarrow> u32" where
  "mix128 ca r cb k = rotl32 (k * ca) r * cb"

abbreviation c1_128 :: u32 where "c1_128 \<equiv> 0x239b961b"
abbreviation c2_128 :: u32 where "c2_128 \<equiv> 0xab0e9789"
abbreviation c3_128 :: u32 where "c3_128 \<equiv> 0x38b34ae5"
abbreviation c4_128 :: u32 where "c4_128 \<equiv> 0xa1e38b93"

definition murmur128_step ::
  "bytes \<Rightarrow> nat \<Rightarrow> u32 \<times> u32 \<times> u32 \<times> u32 \<Rightarrow> u32 \<times> u32 \<times> u32 \<times> u32" where
  "murmur128_step data i h =
     (let (h1, h2, h3, h4) = h;
          h1 = h1 XOR mix128 c1_128 15 c2_128 (getblock32 data (i * 4 + 0));
          h1 = (rotl32 h1 19 + h2) * 5 + 0x561ccd1b;
          h2 = h2 XOR mix128 c2_128 16 c3_128 (getblock32 data (i * 4 + 1));
          h2 = (rotl32 h2 17 + h3) * 5 + 0x0bcaa747;
          h3 = h3 XOR mix128 c3_128 17 c4_128 (getblock32 data (i * 4 + 2));
          h3 = (rotl32 h3 15 + h4) * 5 + 0x96cd1c35;
          h4 = h4 XOR mix128 c4_128 18 c1_128 (getblock32 data (i * 4 + 3));
          h4 = (rotl32 h4 13 + h1) * 5 + 0x32ac3b17
      in (h1, h2, h3, h4))"

definition murmur128_tail ::
  "bytes \<Rightarrow> nat \<Rightarrow> u32 \<times> u32 \<times> u32 \<times> u32 \<Rightarrow> u32 \<times> u32 \<times> u32 \<times> u32" where
  "murmur128_tail tail n h =
     (let (h1, h2, h3, h4) = h;
          k4 = tail_byte tail n 14 16 XOR tail_byte tail n 13 8 XOR tail_byte tail n 12 0;
          h4 = (if 13 \<le> n then h4 XOR mix128 c4_128 18 c1_128 k4 else h4);
          k3 = tail_byte tail n 11 24 XOR tail_byte tail n 10 16 XOR
               tail_byte tail n 9 8 XOR tail_byte tail n 8 0;
          h3 = (if 9 \<le> n then h3 XOR mix128 c3_128 17 c4_128 k3 else h3);
          k2 = tail_byte tail n 7 24 XOR tail_byte tail n 6 16 XOR
               tail_byte tail n 5 8 XOR tail_byte tail n 4 0;
          h2 = (if 5 \<le> n then h2 XOR mix128 c2_128 16 c3_128 k2 else h2);
          k1 = tail_byte tail n 3 24 XOR tail_byte tail n 2 16 XOR
               tail_byte tail n 1 8 XOR tail_byte tail n 0 0;
          h1 = (if 1 \<le> n then h1 XOR mix128 c1_128 15 c2_128 k1 else h1)
      in (h1, h2, h3, h4))"

definition murmur128_cross ::
  "u32 \<times> u32 \<times> u32 \<times> u32 \<Rightarrow> u32 \<times> u32 \<times> u32 \<times> u32" where
  "murmur128_cross h =
     (let (h1, h2, h3, h4) = h;
          h1 = h1 + h2; h1 = h1 + h3; h1 = h1 + h4
      in (h1, h2 + h1, h3 + h1, h4 + h1))"

definition MurmurHash3_x86_128 :: "bytes \<Rightarrow> u32 \<Rightarrow> u32 \<times> u32 \<times> u32 \<times> u32" where
  "MurmurHash3_x86_128 key seed =
     (let len = length key;
          nblocks = len div 16;
          h = fold (murmur128_step key) [0..<nblocks] (seed, seed, seed, seed);
          (h1, h2, h3, h4) = murmur128_tail (drop (nblocks * 16) key) (len mod 16) h;
          l = word_of_nat len;
          (h1, h2, h3, h4) = murmur128_cross (h1 XOR l, h2 XOR l, h3 XOR l, h4 XOR l)
      in murmur128_cross (fmix32 h1, fmix32 h2, fmix32 h3, fmix32 h4))"

subsection \<open>The x64 128-bit hash\<close>

definition mix64_k1 :: "u64 \<Rightarrow> u64" where
  "mix64_k1 k1 = rotl64 (k1 * 0x87c37b91114253d5) 31 * 0x4cf5ad432745937f"

definition mix64_k2 :: "u64 \<Rightarrow> u64" where
  "mix64_k2 k2 = rotl64 (k2 * 0x4cf5ad432745937f) 33 * 0x87c37b91114253d5"

definition murmur64_step :: "bytes \<Rightarrow> nat \<Rightarrow> u64 \<times> u64 \<Rightarrow> u64 \<times> u64" where
  "murmur64_step data i h =
     (let (h1, h2) = h;
          h1 = h1 XOR mix64_k1 (getblock64 data (i * 2 + 0));
          h1 = (rotl64 h1 27 + h2) * 5 + 0x52dce729;
          h2 = h2 XOR mix64_k2 (getblock64 data (i * 2 + 1));
          h2 = (rotl64 h2 31 + h1) * 5 + 0x38495ab5
      in (h1, h2))"

definition murmur64_tail_k2 :: "bytes \<Rightarrow> nat \<Rightarrow> u64" where
  "murmur64_tail_k2 tail n =
     tail_byte tail n 14 48 XOR tail_byte tail n 13 40 XOR tail_byte tail n 12 32 XOR
     tail_byte tail n 11 24 XOR tail_byte tail n 10 16 XOR tail_byte tail n 9 8 XOR
     tail_byte tail n 8 0"

definition murmur64_tail_k1 :: "bytes \<Rightarrow> nat \<Rightarrow> u64" where
  "murmur64_tail_k1 tail n =
     tail_byte tail n 7 56 XOR tail_byte tail n 6 48 XOR tail_byte tail n 5 40 XOR
     tail_byte tail n 4 32 XOR tail_byte tail n 3 24 XOR tail_byte tail n 2 16 XOR
     tail_byte tail n 1 8 XOR tail_byte tail n 0 0"

definition murmur64_tail :: "bytes \<Rightarrow> nat \<Rightarrow> u64 \<times> u64 \<Rightarrow> u64 \<times> u64" where
  "murmur64_tail tail n h =
     (let (h1, h2) = h;
          h2 = (if 9 \<le> n then h2 XOR mix64_k2 (murmur64_tail_k2 tail n) else h2);
          h1 = (if 1 \<le> n then h1 XOR mix64_k1 (murmur64_tail_k1 tail n) else h1)
      in (h1, h2))"

definition MurmurHash3_x64_128 :: "bytes \<Rightarrow> u32 \<Rightarrow> u64 \<times> u64" where
  "MurmurHash3_x64_128 key seed =
     (let len = length key;
          nblocks = len div 16;
          h = fold (murmur64_step key) [0..<nblocks] (ucast seed, ucast seed);
          (h1, h2) = murmur64_tail (drop (nblocks * 16) key) (len mod 16) h;
          h1 = h1 XOR word_of_nat len; h2 = h2 XOR word_of_nat len;
          h1 = h1 + h2; h2 = h2 + h1;
          h1 = fmix64 h1; h2 = fmix64 h2;
          h1 = h1 + h2; h2 = h2 + h1
      in (h1, h2))"

subsection \<open>Known answers\<close>

text \<open>Reference values of the published algorithm (SMHasher's verification code uses the
  same parameters): they pin the constants and the byte order of the translation.\<close>

lemma murmur32_empty: "MurmurHash3_x86_32 [] 0 = 0"
  by (simp add: MurmurHash3_x86_32_def fmix32_def)

lemma murmur32_four_zero_bytes: "MurmurHash3_x86_32 [0, 0, 0, 0] 0 = 0x2362F9DE"
  by (simp add: MurmurHash3_x86_32_def murmur32_step_def mix32_k1_def getblock32_def
      rotl32_def fmix32_def)

subsection \<open>The steps are invertible\<close>

lemma rotl32_eq_word_rotl:
  assumes "0 < r" "r < 32"
  shows "rotl32 x r = word_rotl r x"
proof (rule bit_word_eqI)
  fix n assume n: "n < LENGTH(32)"
  show "bit (rotl32 x r) n = bit (word_rotl r x) n"
  proof (cases "r \<le> n")
    case True
    have "(n + (32 - r)) mod 32 = n - r"
      using True n assms by (simp add: mod_if)
    then show ?thesis using True n assms by (auto simp: rotl32_def bit_simps)
  next
    case False
    then have "n + (32 - r) < 32" using assms by arith
    then have "bit (word_rotl r x) n = bit x (n + (32 - r))"
      using n assms by (simp add: bit_word_rotl_iff)
    moreover have "bit (rotl32 x r) n = bit x (n + (32 - r))"
      using False n by (simp add: rotl32_def bit_simps add.commute [of n])
    ultimately show ?thesis by simp
  qed
qed

lemma inj_rotl32 [inj_word]: "0 < r \<Longrightarrow> r < 32 \<Longrightarrow> inj f \<Longrightarrow> inj (\<lambda>x. rotl32 (f x) r)"
  by (rule injI) (metis rotl32_eq_word_rotl word_rot_lr injD)

lemma inj_fmix32: "inj fmix32"
  unfolding fmix32_def Let_def
  by (rule inj_xorshift inj_mult_unit [of "0xc2b2ae35" "0x7ed1b41d"]
      inj_mult_unit [of "0x85ebca6b" "0xa5cb9243"] inj_on_id2 | simp)+

lemma inj_fmix64: "inj fmix64"
  unfolding fmix64_def Let_def
  by (rule inj_xorshift inj_mult_unit [of "0xff51afd7ed558ccd" "0x4f74430c22a54005"]
      inj_mult_unit [of "0xc4ceb9fe1a85ec53" "0x9cb4b2f8129337db"] inj_on_id2 | simp)+

lemma inj_mix32_k1: "inj mix32_k1"
  unfolding mix32_k1_def
  by (rule inj_rotl32 inj_mult_unit [of "0xcc9e2d51" "0xdee13bb1"]
      inj_mult_unit [of "0x1b873593" "0x56ed309b"] inj_on_id2 | simp)+

subsection \<open>Hashing a 32-bit integer\<close>

text \<open>The agent hashes line numbers and small integers through their four bytes.\<close>

lemma murmur32_of_u32:
  "MurmurHash3_x86_32 (bytes_of_u32 x) seed =
     fmix32 ((rotl32 (seed XOR mix32_k1 x) 13 * 5 + 0xe6546b64) XOR 4)"
proof -
  have "getblock32 (bytes_of_u32 x) 0 = x"
    by (simp add: getblock32_def)
  then show ?thesis
    by (simp add: MurmurHash3_x86_32_def murmur32_step_def)
qed

lemma inj_murmur32_chain: "inj (\<lambda>a. fmix32 ((rotl32 a 13 * 5 + 0xe6546b64) XOR 4))"
proof -
  have "inj (\<lambda>a. (rotl32 a 13 * 5 + 0xe6546b64) XOR 4)"
    by (rule inj_word inj_mult_unit [of "5" "0xcccccccd"] inj_on_id2 | simp)+
  then show ?thesis by (auto simp: inj_def dest: injD [OF inj_fmix32])
qed

lemmas murmur32_chain_cancel = injD [OF inj_murmur32_chain]

text \<open>\<open>MurmurHash3_x86_32\<close> of a 4-byte integer loses nothing: for a fixed seed it is
  a bijection of the integer, and for a fixed integer a bijection of the seed. So two line
  numbers never collide under one file, and a chain of line hashes is decided by its start.\<close>

theorem murmur32_u32_bij:
  "bij (\<lambda>x. MurmurHash3_x86_32 (bytes_of_u32 x) seed) \<and>
   bij (\<lambda>s. MurmurHash3_x86_32 (bytes_of_u32 y) s)"
proof (intro conjI bij_of_inj_word injI)
  fix a b
  assume "MurmurHash3_x86_32 (bytes_of_u32 a) seed = MurmurHash3_x86_32 (bytes_of_u32 b) seed"
  then have "seed XOR mix32_k1 a = seed XOR mix32_k1 b"
    unfolding murmur32_of_u32 by (rule murmur32_chain_cancel)
  then show "a = b" by (simp add: injD [OF inj_mix32_k1])
next
  fix s t
  assume "MurmurHash3_x86_32 (bytes_of_u32 y) s = MurmurHash3_x86_32 (bytes_of_u32 y) t"
  then have "s XOR mix32_k1 y = t XOR mix32_k1 y"
    unfolding murmur32_of_u32 by (rule murmur32_chain_cancel)
  then show "s = t" by simp
qed

subsection \<open>The tail switch is a zero-padded load\<close>

definition pad16 :: "bytes \<Rightarrow> bytes" where
  "pad16 tail = tail @ replicate (16 - length tail) 0"

lemma length_pad16 [simp]: "length tail \<le> 16 \<Longrightarrow> length (pad16 tail) = 16"
  by (simp add: pad16_def)

lemma tail_byte_pad:
  "i < 16 \<Longrightarrow> tail_byte tail (length tail) i s = push_bit s (ucast (pad16 tail ! i))"
  by (simp add: tail_byte_def pad16_def nth_append)

lemma load_le_8:
  "(load_le [b0, b1, b2, b3, b4, b5, b6, b7] :: u64) =
     push_bit 56 (ucast b7) XOR push_bit 48 (ucast b6) XOR push_bit 40 (ucast b5) XOR
     push_bit 32 (ucast b4) XOR push_bit 24 (ucast b3) XOR push_bit 16 (ucast b2) XOR
     push_bit 8 (ucast b1) XOR push_bit 0 (ucast b0)"
  by (simp only: load_le_Cons_xor load_le.simps(1) push_bit_xor push_bit_push_bit push_bit_of_0
      xor.right_neutral) (simp add: ac_simps)

lemma take_8_nth:
  "length xs = 16 \<Longrightarrow> take 8 xs = [xs ! 0, xs ! 1, xs ! 2, xs ! 3, xs ! 4, xs ! 5, xs ! 6, xs ! 7]"
  by (simp add: list_eq_iff_nth_eq less_Suc_eq numeral_eq_Suc all_conj_distrib)

lemma drop_8_nth:
  "length xs = 16 \<Longrightarrow> drop 8 xs =
     [xs ! 8, xs ! 9, xs ! 10, xs ! 11, xs ! 12, xs ! 13, xs ! 14, xs ! 15]"
  by (simp add: list_eq_iff_nth_eq less_Suc_eq numeral_eq_Suc all_conj_distrib)

lemma murmur64_tail_k1_pad:
  assumes "length tail \<le> 16"
  shows "murmur64_tail_k1 tail (length tail) = getblock64 (pad16 tail) 0"
  using assms
  by (simp add: murmur64_tail_k1_def getblock64_def tail_byte_pad take_8_nth load_le_8
      del: load_le.simps)

lemma murmur64_tail_k2_pad:
  assumes "length tail < 16"
  shows "murmur64_tail_k2 tail (length tail) = getblock64 (pad16 tail) 1"
proof -
  have "pad16 tail ! 15 = 0"
    using assms by (simp add: pad16_def nth_append)
  then show ?thesis
    using assms
    by (simp add: murmur64_tail_k2_def getblock64_def tail_byte_pad drop_8_nth
        load_le_8 del: load_le.simps)
qed

lemma getblock64_pad_short: "length tail \<le> 8 \<Longrightarrow> getblock64 (pad16 tail) 1 = 0"
  by (simp add: getblock64_def pad16_def take_replicate)

lemma mix64_0 [simp]: "mix64_k1 0 = 0" "mix64_k2 0 = 0"
  by (simp_all add: mix64_k1_def mix64_k2_def rotl64_def)

text \<open>The 15-case fall-through switch at the end of \<open>MurmurHash3_x64_128\<close> pads the
  remaining bytes with zeros to a 16-byte block and mixes its two little-endian words into
  \<open>h1\<close> and \<open>h2\<close>, for every tail length.\<close>

theorem murmur64_tail_is_padded_block:
  "length tail < 16 \<Longrightarrow>
   murmur64_tail tail (length tail) (h1, h2) =
     (h1 XOR mix64_k1 (getblock64 (pad16 tail) 0), h2 XOR mix64_k2 (getblock64 (pad16 tail) 1))"
  by (cases "tail = []"; cases "length tail < 9")
     (auto simp: murmur64_tail_def murmur64_tail_k1_pad murmur64_tail_k2_pad Suc_le_eq
        getblock64_pad_short not_less getblock64_def pad16_def)

theorem murmur64_tail_is_padded_block_witness:
  "murmur64_tail [1, 2, 3] 3 (0, 0) = (mix64_k1 0x030201, mix64_k2 0)"
proof -
  have "getblock64 (pad16 [1, 2, 3]) 0 = 0x030201" "getblock64 (pad16 [1, 2, 3]) 1 = 0"
    by code_simp+
  then show ?thesis using murmur64_tail_is_padded_block [of "[1, 2, 3]" 0 0]
    by (simp add: eval_nat_numeral)
qed

end
