(* ===== verification/Edit_Distance.thy ===== *)
theory Edit_Distance
  imports C_Prelude
begin

text \<open>
  \<open>levenshtein\<close> of \<open>pcov.c\<close>: the edit distance of two C strings, computed in one
  column of \<open>unsigned int\<close>s. It is proved to return the least cost of turning one string
  into the other by insertions, deletions and replacements, with no wrap-around.
\<close>

subsection \<open>The code\<close>

definition MIN3 :: "u32 \<Rightarrow> u32 \<Rightarrow> u32 \<Rightarrow> u32" where
  "MIN3 a b c = (if a < b then (if a < c then a else c) else (if b < c then b else c))"

text \<open>The body of the inner loop, on the column and \<open>lastdiag\<close>.\<close>

definition lev_cell :: "bytes \<Rightarrow> u8 \<Rightarrow> nat \<Rightarrow> u32 list \<times> u32 \<Rightarrow> u32 list \<times> u32" where
  "lev_cell s1 ch y st =
     (let (column, lastdiag) = st;
          olddiag = column ! y
      in (column[y := MIN3 (column ! y + 1) (column ! (y - 1) + 1)
                       (lastdiag + (if s1 ! (y - 1) = ch then 0 else 1))],
          olddiag))"

definition lev_row :: "bytes \<Rightarrow> bytes \<Rightarrow> nat \<Rightarrow> u32 list \<Rightarrow> u32 list" where
  "lev_row s1 s2 x column =
     fst (fold (lev_cell s1 (s2 ! (x - 1))) [1..<Suc (length s1)]
           (column[0 := word_of_nat x], word_of_nat x - 1))"

definition levenshtein :: "bytes \<Rightarrow> bytes \<Rightarrow> u32" where
  "levenshtein s1 s2 =
     (let column = replicate (Suc (length s1)) 0;
          column = fold (\<lambda>y c. c[y := word_of_nat y]) [1..<Suc (length s1)] column
      in fold (lev_row s1 s2) [1..<Suc (length s2)] column ! length s1)"

subsection \<open>The reference: least cost of an alignment\<close>

text \<open>\<open>edits xs ys n\<close>: \<open>ys\<close> can be made from \<open>xs\<close> at cost \<open>n\<close>.\<close>

inductive edits :: "'a list \<Rightarrow> 'a list \<Rightarrow> nat \<Rightarrow> bool" where
  edits_nil: "edits [] [] 0"
| edits_copy: "edits xs ys n \<Longrightarrow> edits (xs @ [c]) (ys @ [c]) n"
| edits_replace: "edits xs ys n \<Longrightarrow> edits (xs @ [a]) (ys @ [b]) (Suc n)"
| edits_delete: "edits xs ys n \<Longrightarrow> edits (xs @ [a]) ys (Suc n)"
| edits_insert: "edits xs ys n \<Longrightarrow> edits xs (ys @ [b]) (Suc n)"

text \<open>The same by recursion on the prefixes \<open>take i s1\<close> and \<open>take j s2\<close>.\<close>

fun prefix_ed :: "'a list \<Rightarrow> 'a list \<Rightarrow> nat \<Rightarrow> nat \<Rightarrow> nat" where
  "prefix_ed s1 s2 0 j = j"
| "prefix_ed s1 s2 (Suc i) 0 = Suc i"
| "prefix_ed s1 s2 (Suc i) (Suc j) =
     min (prefix_ed s1 s2 i (Suc j) + 1)
       (min (prefix_ed s1 s2 (Suc i) j + 1)
          (prefix_ed s1 s2 i j + (if s1 ! i = s2 ! j then 0 else 1)))"

lemma prefix_ed_0_right [simp]: "prefix_ed s1 s2 i 0 = i"
  by (cases i) simp_all

lemma prefix_ed_le: "prefix_ed s1 s2 i j \<le> max i j"
  by (induction s1 s2 i j rule: prefix_ed.induct) auto

lemma edits_take_nil: "j \<le> length s2 \<Longrightarrow> edits [] (take j s2) j"
proof (induction j)
  case 0
  show ?case by (simp add: edits_nil)
next
  case (Suc j)
  then show ?case by (simp add: take_Suc_conv_app_nth edits_insert)
qed

lemma edits_nil_take: "i \<le> length s1 \<Longrightarrow> edits (take i s1) [] i"
proof (induction i)
  case 0
  show ?case by (simp add: edits_nil)
next
  case (Suc i)
  then show ?case by (simp add: take_Suc_conv_app_nth edits_delete)
qed

lemma prefix_ed_edits:
  "i \<le> length s1 \<Longrightarrow> j \<le> length s2 \<Longrightarrow> edits (take i s1) (take j s2) (prefix_ed s1 s2 i j)"
proof (induction s1 s2 i j rule: prefix_ed.induct)
  case (1 s1 s2 j)
  then show ?case by (simp add: edits_take_nil)
next
  case (2 s1 s2 i)
  then show ?case by (simp add: edits_nil_take)
next
  case (3 s1 s2 i j)
  let ?a = "prefix_ed s1 s2 i (Suc j)" and ?b = "prefix_ed s1 s2 (Suc i) j"
    and ?c = "prefix_ed s1 s2 i j"
  have ti: "take (Suc i) s1 = take i s1 @ [s1 ! i]" and tj: "take (Suc j) s2 = take j s2 @ [s2 ! j]"
    using "3.prems" by (simp_all add: take_Suc_conv_app_nth)
  have "edits (take (Suc i) s1) (take (Suc j) s2) (Suc ?a)"
    using "3.IH"(1) "3.prems" by (simp add: ti edits_delete)
  moreover have "edits (take (Suc i) s1) (take (Suc j) s2) (Suc ?b)"
    using "3.IH"(2) "3.prems" by (simp add: tj edits_insert)
  moreover have "edits (take (Suc i) s1) (take (Suc j) s2) (?c + (if s1 ! i = s2 ! j then 0 else 1))"
    using "3.IH"(3) "3.prems" by (simp add: ti tj edits_copy edits_replace)
  ultimately show ?case by (simp add: min_def)
qed

lemma prefix_ed_append_left:
  "i \<le> length xs \<Longrightarrow> prefix_ed (xs @ zs) ys i j = prefix_ed xs ys i j"
  by (induction xs ys i j rule: prefix_ed.induct) (simp_all add: nth_append)

lemma prefix_ed_append_right:
  "j \<le> length ys \<Longrightarrow> prefix_ed xs (ys @ zs) i j = prefix_ed xs ys i j"
  by (induction xs ys i j rule: prefix_ed.induct) (simp_all add: nth_append)

lemmas prefix_ed_append = prefix_ed_append_left prefix_ed_append_right

lemma prefix_ed_delete: "prefix_ed xs ys (Suc i) j \<le> Suc (prefix_ed xs ys i j)"
  by (cases j) simp_all

lemma prefix_ed_insert: "prefix_ed xs ys i (Suc j) \<le> Suc (prefix_ed xs ys i j)"
  by (cases i) simp_all

lemma prefix_ed_replace: "prefix_ed xs ys (Suc i) (Suc j) \<le> Suc (prefix_ed xs ys i j)"
  by (simp add: min_le_iff_disj)

lemma prefix_ed_least: "edits xs ys n \<Longrightarrow> prefix_ed xs ys (length xs) (length ys) \<le> n"
proof (induction rule: edits.induct)
  case edits_nil
  show ?case by simp
next
  case (edits_copy xs ys n c)
  then show ?case by (simp add: prefix_ed_append nth_append)
next
  case (edits_replace xs ys n a b)
  have "prefix_ed (xs @ [a]) (ys @ [b]) (Suc (length xs)) (Suc (length ys))
      \<le> Suc (prefix_ed (xs @ [a]) (ys @ [b]) (length xs) (length ys))"
    by (rule prefix_ed_replace)
  with edits_replace show ?case by (simp add: prefix_ed_append del: prefix_ed.simps)
next
  case (edits_delete xs ys n a)
  have "prefix_ed (xs @ [a]) ys (Suc (length xs)) (length ys)
      \<le> Suc (prefix_ed (xs @ [a]) ys (length xs) (length ys))"
    by (rule prefix_ed_delete)
  with edits_delete show ?case by (simp add: prefix_ed_append)
next
  case (edits_insert xs ys n b)
  have "prefix_ed xs (ys @ [b]) (length xs) (Suc (length ys))
      \<le> Suc (prefix_ed xs (ys @ [b]) (length xs) (length ys))"
    by (rule prefix_ed_insert)
  with edits_insert show ?case by (simp add: prefix_ed_append)
qed

subsection \<open>The column holds the reference distances\<close>

lemma MIN3_min: "MIN3 a b c = min a (min b c)"
  by (auto simp: MIN3_def min_def)

lemma word_of_nat_min:
  assumes "a < 2 ^ 32" and "b < 2 ^ 32"
  shows "min (word_of_nat a) (word_of_nat b :: u32) = word_of_nat (min a b)"
proof -
  have "unat (word_of_nat a :: u32) = a" "unat (word_of_nat b :: u32) = b"
    using assms by (simp_all add: unsigned_of_nat take_bit_nat_eq_self)
  then have "(word_of_nat a \<le> (word_of_nat b :: u32)) = (a \<le> b)"
    by (simp add: word_le_nat_alt)
  then show ?thesis by (simp add: min_def)
qed

definition col_of :: "bytes \<Rightarrow> bytes \<Rightarrow> nat \<Rightarrow> nat \<Rightarrow> u32" where
  "col_of s1 s2 x k = word_of_nat (prefix_ed s1 s2 k x)"

lemma initial_column:
  "n \<le> m \<Longrightarrow>
   fold (\<lambda>y c. c[y := word_of_nat y]) [1..<Suc n] (replicate (Suc m) 0) =
     map (\<lambda>k. if k \<le> n then word_of_nat k else 0 :: u32) [0..<Suc m]"
proof (induction n)
  case 0
  show ?case
    by (simp only: fold_from_1) (auto simp: list_eq_iff_nth_eq simp del: upt_Suc replicate_Suc)
next
  case (Suc n)
  then show ?case
    by (simp only: fold_from_1 Suc_leD list_update_map_upt less_Suc_eq_le map_upt_eq_iff) auto
qed

lemma MIN3_cell:
  assumes "Suc i < 2 ^ 32 - 1" and "Suc j < 2 ^ 32 - 1"
  shows "MIN3 (col_of s1 s2 j (Suc i) + 1) (col_of s1 s2 (Suc j) i + 1)
           (col_of s1 s2 j i + (if s1 ! i = s2 ! j then 0 else 1))
         = col_of s1 s2 (Suc j) (Suc i)"
proof -
  let ?a = "prefix_ed s1 s2 (Suc i) j" and ?b = "prefix_ed s1 s2 i (Suc j)"
    and ?c = "prefix_ed s1 s2 i j" and ?d = "if s1 ! i = s2 ! j then 0 else 1 :: nat"
  have bounds: "?a + 1 < 2 ^ 32" "?b + 1 < 2 ^ 32" "?c + ?d < 2 ^ 32"
    using prefix_ed_le [of s1 s2 "Suc i" j] prefix_ed_le [of s1 s2 i "Suc j"]
      prefix_ed_le [of s1 s2 i j] assms by auto
  have "col_of s1 s2 j (Suc i) + 1 = word_of_nat (?a + 1)"
    and "col_of s1 s2 (Suc j) i + 1 = word_of_nat (?b + 1)"
    and "col_of s1 s2 j i + (if s1 ! i = s2 ! j then 0 else 1) = word_of_nat (?c + ?d)"
    by (simp_all add: col_of_def)
  then have "MIN3 (col_of s1 s2 j (Suc i) + 1) (col_of s1 s2 (Suc j) i + 1)
      (col_of s1 s2 j i + (if s1 ! i = s2 ! j then 0 else 1))
    = word_of_nat (min (?a + 1) (min (?b + 1) (?c + ?d)))"
    using bounds by (simp only: MIN3_min word_of_nat_min min_less_iff_disj simp_thms)
  also have "min (?a + 1) (min (?b + 1) (?c + ?d)) = prefix_ed s1 s2 (Suc i) (Suc j)"
    by simp
  finally show ?thesis by (simp only: col_of_def)
qed

definition mixed_column :: "bytes \<Rightarrow> bytes \<Rightarrow> nat \<Rightarrow> nat \<Rightarrow> u32 list" where
  "mixed_column s1 s2 j t =
     map (\<lambda>k. if k \<le> t then col_of s1 s2 (Suc j) k else col_of s1 s2 j k) [0..<Suc (length s1)]"

lemma mixed_column_update:
  "t < length s1 \<Longrightarrow>
   (mixed_column s1 s2 j t)[Suc t := col_of s1 s2 (Suc j) (Suc t)] = mixed_column s1 s2 j (Suc t)"
  by (auto simp: mixed_column_def list_eq_iff_nth_eq nth_list_update simp del: upt_Suc)

lemma nth_mixed_column:
  "k \<le> length s1 \<Longrightarrow>
   mixed_column s1 s2 j t ! k = (if k \<le> t then col_of s1 s2 (Suc j) k else col_of s1 s2 j k)"
  by (simp add: mixed_column_def less_Suc_eq_le del: upt_Suc)

lemma lev_cells:
  assumes "length s1 < 2 ^ 32 - 1" and "Suc j < 2 ^ 32 - 1"
  shows "t \<le> length s1 \<Longrightarrow>
    fold (lev_cell s1 (s2 ! j)) [1..<Suc t] (mixed_column s1 s2 j 0, col_of s1 s2 j 0) =
      (mixed_column s1 s2 j t, col_of s1 s2 j t)"
proof (induction t)
  case 0
  show ?case by simp
next
  case (Suc t)
  have "MIN3 (col_of s1 s2 j (Suc t) + 1) (col_of s1 s2 (Suc j) t + 1)
      (col_of s1 s2 j t + (if s1 ! t = s2 ! j then 0 else 1)) = col_of s1 s2 (Suc j) (Suc t)"
    using Suc.prems assms by (intro MIN3_cell) simp_all
  then have "lev_cell s1 (s2 ! j) (Suc t) (mixed_column s1 s2 j t, col_of s1 s2 j t)
      = (mixed_column s1 s2 j (Suc t), col_of s1 s2 j (Suc t))"
    using Suc.prems by (simp add: lev_cell_def nth_mixed_column mixed_column_update)
  with Suc show ?case by simp
qed

lemma lev_row_columns:
  assumes "length s1 < 2 ^ 32 - 1" and "Suc j < 2 ^ 32 - 1"
  shows "lev_row s1 s2 (Suc j) (map (col_of s1 s2 j) [0..<Suc (length s1)])
       = map (col_of s1 s2 (Suc j)) [0..<Suc (length s1)]"
proof -
  have "(map (col_of s1 s2 j) [0..<Suc (length s1)])[0 := word_of_nat (Suc j)] = mixed_column s1 s2 j 0"
    by (auto simp: mixed_column_def list_eq_iff_nth_eq nth_list_update col_of_def simp del: upt_Suc)
  moreover have "word_of_nat (Suc j) - 1 = col_of s1 s2 j 0"
    by (simp add: col_of_def)
  moreover have "mixed_column s1 s2 j (length s1) = map (col_of s1 s2 (Suc j)) [0..<Suc (length s1)]"
    by (simp add: mixed_column_def)
  ultimately show ?thesis
    using lev_cells [OF assms, of "length s1" s2] by (simp add: lev_row_def del: upt_Suc of_nat_Suc)
qed

lemma lev_rows:
  assumes "length s1 < 2 ^ 32 - 1"
  shows "j < 2 ^ 32 - 1 \<Longrightarrow>
    fold (lev_row s1 s2) [1..<Suc j] (map (col_of s1 s2 0) [0..<Suc (length s1)])
      = map (col_of s1 s2 j) [0..<Suc (length s1)]"
  by (induction j) (simp_all only: fold_from_1 lev_row_columns [OF assms] Suc_lessD)

lemma levenshtein_eq_prefix_ed:
  assumes "length s1 < 2 ^ 32 - 1" and "length s2 < 2 ^ 32 - 1"
  shows "unat (levenshtein s1 s2) = prefix_ed s1 s2 (length s1) (length s2)"
proof -
  have "fold (\<lambda>y c. c[y := word_of_nat y]) [1..<Suc (length s1)] (replicate (Suc (length s1)) 0)
      = map (col_of s1 s2 0) [0..<Suc (length s1)]"
    by (simp only: initial_column order_refl map_upt_eq_iff) (simp add: col_of_def)
  then have "levenshtein s1 s2 = col_of s1 s2 (length s2) (length s1)"
    using lev_rows [OF assms] by (simp add: levenshtein_def Let_def del: upt_Suc replicate_Suc)
  moreover have "prefix_ed s1 s2 (length s1) (length s2) < 2 ^ 32"
    using prefix_ed_le [of s1 s2 "length s1" "length s2"] assms by simp
  ultimately show ?thesis
    by (simp add: col_of_def unsigned_of_nat take_bit_nat_eq_self)
qed

text \<open>C26: \<open>levenshtein\<close> returns the least number of insertions, deletions and replacements
  that turn \<open>s1\<close> into \<open>s2\<close>: that cost is achieved, and no alignment is cheaper.\<close>

theorem levenshtein_least_edits:
  assumes "length s1 < 2 ^ 32 - 1" and "length s2 < 2 ^ 32 - 1"
  shows "edits s1 s2 (unat (levenshtein s1 s2)) \<and>
         (\<forall>n. edits s1 s2 n \<longrightarrow> unat (levenshtein s1 s2) \<le> n)"
  using prefix_ed_edits [of "length s1" s1 "length s2" s2] prefix_ed_least [of s1 s2]
  by (simp add: levenshtein_eq_prefix_ed [OF assms])

text \<open>Witness: "ab" to "axb" costs one insertion.\<close>

theorem levenshtein_least_edits_witness:
  "levenshtein [97, 98] [97, 120, 98] = 1 \<and> edits [97, 98 :: u8] [97, 120, 98] 1"
proof -
  have d: "levenshtein [97, 98] [97, 120, 98] = 1"
    by code_simp
  then show ?thesis using levenshtein_least_edits [of "[97, 98]" "[97, 120, 98]"] by simp
qed

end
