(* ===== verification/Hashmap.thy ===== *)
theory Hashmap
  imports C_Prelude "HOL-Library.Monad_Syntax"
begin

text \<open>
  The open-addressing hash map of \<open>pcov-patched/hashmap.h\<close>, which the agent keeps
  for red-queen payloads, coverage lines and strings. Keys are slices \<open>(pointer, length)\<close> of
  memory that the map does not copy, so memory is an explicit argument. Every operation
  returns \<open>None\<close> where the C code would divide by zero or index outside the table, so
  that a \<open>Some\<close> result is also a memory-safety statement.
\<close>

type_synonym ptr = u64
type_synonym mem = "ptr \<Rightarrow> u8"

definition bytes_at :: "mem \<Rightarrow> ptr \<Rightarrow> u32 \<Rightarrow> bytes" where
  "bytes_at mem p len = map (\<lambda>i. mem (p + word_of_nat i)) [0..<unat len]"

lemma length_bytes_at [simp]: "length (bytes_at mem p len) = unat len"
  by (simp add: bytes_at_def)

subsection \<open>Data\<close>

record hashmap_element_s =
  key :: ptr
  key_len :: u32
  in_use :: int
  el_data :: ptr

record hashmap_s =
  table_size :: u32
  msize :: u32
  mdata :: "hashmap_element_s list"

definition HASHMAP_MAX_CHAIN_LENGTH :: nat where
  "HASHMAP_MAX_CHAIN_LENGTH = 8"

text \<open>An element whose bytes are all zero, as \<open>calloc\<close> and \<open>memset\<close> leave it.\<close>

definition zero_element :: hashmap_element_s where
  "zero_element = \<lparr>key = 0, key_len = 0, in_use = 0, el_data = 0\<rparr>"

text \<open>\<open>m->data[i]\<close>, and \<open>(cur + 1) % m->table_size\<close>.\<close>

definition elem_at :: "hashmap_s \<Rightarrow> u32 \<Rightarrow> hashmap_element_s option" where
  "elem_at m i = (if unat i < length (mdata m) then Some (mdata m ! unat i) else None)"

definition set_elem :: "hashmap_s \<Rightarrow> u32 \<Rightarrow> hashmap_element_s \<Rightarrow> hashmap_s" where
  "set_elem m i e = m\<lparr>mdata := (mdata m)[unat i := e]\<rparr>"

definition next_slot :: "hashmap_s \<Rightarrow> u32 \<Rightarrow> u32 option" where
  "next_slot m cur = (if table_size m = 0 then None else Some ((cur + 1) mod table_size m))"

subsection \<open>Creation, destruction, size\<close>

text \<open>\<open>calloc_ok n\<close> says whether \<open>calloc\<close> of \<open>n\<close> elements succeeds. When creation fails the
  \<open>data\<close> pointer is unset or null: the empty list, every access of which is out of bounds.\<close>

definition hashmap_create :: "(u32 \<Rightarrow> bool) \<Rightarrow> u32 \<Rightarrow> int \<times> hashmap_s" where
  "hashmap_create calloc_ok initial_size =
     (let out = \<lparr>table_size = initial_size, msize = 0, mdata = []\<rparr>
      in if initial_size = 0 \<or> initial_size AND (initial_size - 1) \<noteq> 0 then (1, out)
         else if \<not> calloc_ok initial_size then (1, out)
         else (0, out\<lparr>mdata := replicate (unat initial_size) zero_element\<rparr>))"

definition hashmap_destroy :: "hashmap_s \<Rightarrow> hashmap_s" where
  "hashmap_destroy m = \<lparr>table_size = 0, msize = 0, mdata = []\<rparr>"

definition hashmap_num_entries :: "hashmap_s \<Rightarrow> u32" where
  "hashmap_num_entries m = msize m"

subsection \<open>Hashing and matching\<close>

definition crc32_tab :: "u32 list" where
  "crc32_tab =
     [0x00000000, 0xF26B8303, 0xE13B70F7, 0x1350F3F4, 0xC79A971F, 0x35F1141C,
      0x26A1E7E8, 0xD4CA64EB, 0x8AD958CF, 0x78B2DBCC, 0x6BE22838, 0x9989AB3B,
      0x4D43CFD0, 0xBF284CD3, 0xAC78BF27, 0x5E133C24, 0x105EC76F, 0xE235446C,
      0xF165B798, 0x030E349B, 0xD7C45070, 0x25AFD373, 0x36FF2087, 0xC494A384,
      0x9A879FA0, 0x68EC1CA3, 0x7BBCEF57, 0x89D76C54, 0x5D1D08BF, 0xAF768BBC,
      0xBC267848, 0x4E4DFB4B, 0x20BD8EDE, 0xD2D60DDD, 0xC186FE29, 0x33ED7D2A,
      0xE72719C1, 0x154C9AC2, 0x061C6936, 0xF477EA35, 0xAA64D611, 0x580F5512,
      0x4B5FA6E6, 0xB93425E5, 0x6DFE410E, 0x9F95C20D, 0x8CC531F9, 0x7EAEB2FA,
      0x30E349B1, 0xC288CAB2, 0xD1D83946, 0x23B3BA45, 0xF779DEAE, 0x05125DAD,
      0x1642AE59, 0xE4292D5A, 0xBA3A117E, 0x4851927D, 0x5B016189, 0xA96AE28A,
      0x7DA08661, 0x8FCB0562, 0x9C9BF696, 0x6EF07595, 0x417B1DBC, 0xB3109EBF,
      0xA0406D4B, 0x522BEE48, 0x86E18AA3, 0x748A09A0, 0x67DAFA54, 0x95B17957,
      0xCBA24573, 0x39C9C670, 0x2A993584, 0xD8F2B687, 0x0C38D26C, 0xFE53516F,
      0xED03A29B, 0x1F682198, 0x5125DAD3, 0xA34E59D0, 0xB01EAA24, 0x42752927,
      0x96BF4DCC, 0x64D4CECF, 0x77843D3B, 0x85EFBE38, 0xDBFC821C, 0x2997011F,
      0x3AC7F2EB, 0xC8AC71E8, 0x1C661503, 0xEE0D9600, 0xFD5D65F4, 0x0F36E6F7,
      0x61C69362, 0x93AD1061, 0x80FDE395, 0x72966096, 0xA65C047D, 0x5437877E,
      0x4767748A, 0xB50CF789, 0xEB1FCBAD, 0x197448AE, 0x0A24BB5A, 0xF84F3859,
      0x2C855CB2, 0xDEEEDFB1, 0xCDBE2C45, 0x3FD5AF46, 0x7198540D, 0x83F3D70E,
      0x90A324FA, 0x62C8A7F9, 0xB602C312, 0x44694011, 0x5739B3E5, 0xA55230E6,
      0xFB410CC2, 0x092A8FC1, 0x1A7A7C35, 0xE811FF36, 0x3CDB9BDD, 0xCEB018DE,
      0xDDE0EB2A, 0x2F8B6829, 0x82F63B78, 0x709DB87B, 0x63CD4B8F, 0x91A6C88C,
      0x456CAC67, 0xB7072F64, 0xA457DC90, 0x563C5F93, 0x082F63B7, 0xFA44E0B4,
      0xE9141340, 0x1B7F9043, 0xCFB5F4A8, 0x3DDE77AB, 0x2E8E845F, 0xDCE5075C,
      0x92A8FC17, 0x60C37F14, 0x73938CE0, 0x81F80FE3, 0x55326B08, 0xA759E80B,
      0xB4091BFF, 0x466298FC, 0x1871A4D8, 0xEA1A27DB, 0xF94AD42F, 0x0B21572C,
      0xDFEB33C7, 0x2D80B0C4, 0x3ED04330, 0xCCBBC033, 0xA24BB5A6, 0x502036A5,
      0x4370C551, 0xB11B4652, 0x65D122B9, 0x97BAA1BA, 0x84EA524E, 0x7681D14D,
      0x2892ED69, 0xDAF96E6A, 0xC9A99D9E, 0x3BC21E9D, 0xEF087A76, 0x1D63F975,
      0x0E330A81, 0xFC588982, 0xB21572C9, 0x407EF1CA, 0x532E023E, 0xA145813D,
      0x758FE5D6, 0x87E466D5, 0x94B49521, 0x66DF1622, 0x38CC2A06, 0xCAA7A905,
      0xD9F75AF1, 0x2B9CD9F2, 0xFF56BD19, 0x0D3D3E1A, 0x1E6DCDEE, 0xEC064EED,
      0xC38D26C4, 0x31E6A5C7, 0x22B65633, 0xD0DDD530, 0x0417B1DB, 0xF67C32D8,
      0xE52CC12C, 0x1747422F, 0x49547E0B, 0xBB3FFD08, 0xA86F0EFC, 0x5A048DFF,
      0x8ECEE914, 0x7CA56A17, 0x6FF599E3, 0x9D9E1AE0, 0xD3D3E1AB, 0x21B862A8,
      0x32E8915C, 0xC083125F, 0x144976B4, 0xE622F5B7, 0xF5720643, 0x07198540,
      0x590AB964, 0xAB613A67, 0xB831C993, 0x4A5A4A90, 0x9E902E7B, 0x6CFBAD78,
      0x7FAB5E8C, 0x8DC0DD8F, 0xE330A81A, 0x115B2B19, 0x020BD8ED, 0xF0605BEE,
      0x24AA3F05, 0xD6C1BC06, 0xC5914FF2, 0x37FACCF1, 0x69E9F0D5, 0x9B8273D6,
      0x88D28022, 0x7AB90321, 0xAE7367CA, 0x5C18E4C9, 0x4F48173D, 0xBD23943E,
      0xF36E6F75, 0x0105EC76, 0x12551F82, 0xE03E9C81, 0x34F4F86A, 0xC69F7B69,
      0xD5CF889D, 0x27A40B9E, 0x79B737BA, 0x8BDCB4B9, 0x988C474D, 0x6AE7C44E,
      0xBE2DA0A5, 0x4C4623A6, 0x5F16D052, 0xAD7D5351]"

definition hashmap_crc32_helper :: "bytes \<Rightarrow> u32" where
  "hashmap_crc32_helper s =
     fold (\<lambda>b crc32val. crc32_tab ! unat (ucast crc32val XOR b :: u8) XOR drop_bit 8 crc32val) s 0"

text \<open>Robert Jenkins' 32 bit mix and Knuth's multiplicative method.\<close>

definition jenkins_knuth_mix :: "u32 \<Rightarrow> u32" where
  "jenkins_knuth_mix h =
     (let h = h + push_bit 12 h;
          h = h XOR drop_bit 22 h;
          h = h + push_bit 4 h;
          h = h XOR drop_bit 9 h;
          h = h + push_bit 10 h;
          h = h XOR drop_bit 2 h;
          h = h + push_bit 7 h;
          h = h XOR drop_bit 12 h
      in drop_bit 3 h * 2654435761)"

definition hashmap_hash_helper_int_helper :: "mem \<Rightarrow> hashmap_s \<Rightarrow> ptr \<Rightarrow> u32 \<Rightarrow> u32 option" where
  "hashmap_hash_helper_int_helper mem m keystring len =
     (let k = jenkins_knuth_mix (hashmap_crc32_helper (bytes_at mem keystring len))
      in if table_size m = 0 then None else Some (k mod table_size m))"

definition hashmap_match_helper :: "mem \<Rightarrow> hashmap_element_s \<Rightarrow> ptr \<Rightarrow> u32 \<Rightarrow> bool" where
  "hashmap_match_helper mem element k len \<longleftrightarrow>
     key_len element = len \<and> bytes_at mem (key element) len = bytes_at mem k len"

text \<open>The two probe loops of \<open>hashmap_hash_helper\<close>; the first argument counts the remaining
  iterations. The first loop ends with the index of a matching element (\<open>Inl\<close>) or with the
  number of occupied slots seen (\<open>Inr\<close>).\<close>

fun probe_match :: "nat \<Rightarrow> mem \<Rightarrow> hashmap_s \<Rightarrow> ptr \<Rightarrow> u32 \<Rightarrow> u32 \<Rightarrow> int \<Rightarrow> (u32 + int) option" where
  "probe_match 0 mem m k len cur total_in_use = Some (Inr total_in_use)"
| "probe_match (Suc i) mem m k len cur total_in_use =
     do { e \<leftarrow> elem_at m cur;
          if in_use e \<noteq> 0 \<and> hashmap_match_helper mem e k len then Some (Inl cur)
          else do { cur' \<leftarrow> next_slot m cur;
                    probe_match i mem m k len cur' (total_in_use + in_use e) } }"

fun probe_free :: "nat \<Rightarrow> hashmap_s \<Rightarrow> u32 \<Rightarrow> u32 option option" where
  "probe_free 0 m cur = Some None"
| "probe_free (Suc i) m cur =
     do { e \<leftarrow> elem_at m cur;
          if in_use e = 0 then Some (Some cur)
          else do { cur' \<leftarrow> next_slot m cur; probe_free i m cur' } }"

text \<open>\<open>Some (Some index)\<close> is the C result 1 with \<open>*out_index\<close> set, \<open>Some None\<close> the result 0.\<close>

definition hashmap_hash_helper :: "mem \<Rightarrow> hashmap_s \<Rightarrow> ptr \<Rightarrow> u32 \<Rightarrow> u32 option option" where
  "hashmap_hash_helper mem m k len =
     (if table_size m \<le> msize m then Some None
      else do { start \<leftarrow> hashmap_hash_helper_int_helper mem m k len;
                r \<leftarrow> probe_match HASHMAP_MAX_CHAIN_LENGTH mem m k len start 0;
                case r of
                  Inl cur \<Rightarrow> Some (Some cur)
                | Inr total_in_use \<Rightarrow>
                    (if int HASHMAP_MAX_CHAIN_LENGTH > total_in_use
                     then probe_free HASHMAP_MAX_CHAIN_LENGTH m start
                     else Some None) })"

subsection \<open>Lookup and removal\<close>

text \<open>\<open>hashmap_get\<close>, \<open>hashmap_remove\<close> and \<open>hashmap_remove_and_return_key\<close> share one loop
  that looks for an element in use with the given key.\<close>

fun probe_key :: "nat \<Rightarrow> mem \<Rightarrow> hashmap_s \<Rightarrow> ptr \<Rightarrow> u32 \<Rightarrow> u32 \<Rightarrow> u32 option option" where
  "probe_key 0 mem m k len cur = Some None"
| "probe_key (Suc i) mem m k len cur =
     do { e \<leftarrow> elem_at m cur;
          if in_use e \<noteq> 0 \<and> hashmap_match_helper mem e k len then Some (Some cur)
          else do { cur' \<leftarrow> next_slot m cur; probe_key i mem m k len cur' } }"

definition hashmap_get :: "mem \<Rightarrow> hashmap_s \<Rightarrow> ptr \<Rightarrow> u32 \<Rightarrow> ptr option" where
  "hashmap_get mem m k len =
     do { cur \<leftarrow> hashmap_hash_helper_int_helper mem m k len;
          r \<leftarrow> probe_key HASHMAP_MAX_CHAIN_LENGTH mem m k len cur;
          case r of
            Some cur \<Rightarrow> do { e \<leftarrow> elem_at m cur; Some (el_data e) }
          | None \<Rightarrow> Some 0 }"

definition hashmap_remove :: "mem \<Rightarrow> hashmap_s \<Rightarrow> ptr \<Rightarrow> u32 \<Rightarrow> (int \<times> hashmap_s) option" where
  "hashmap_remove mem m k len =
     do { cur \<leftarrow> hashmap_hash_helper_int_helper mem m k len;
          r \<leftarrow> probe_key HASHMAP_MAX_CHAIN_LENGTH mem m k len cur;
          case r of
            Some cur \<Rightarrow> Some (0, (set_elem m cur zero_element)\<lparr>msize := msize m - 1\<rparr>)
          | None \<Rightarrow> Some (1, m) }"

definition hashmap_remove_and_return_key ::
  "mem \<Rightarrow> hashmap_s \<Rightarrow> ptr \<Rightarrow> u32 \<Rightarrow> (ptr \<times> hashmap_s) option" where
  "hashmap_remove_and_return_key mem m k len =
     do { cur \<leftarrow> hashmap_hash_helper_int_helper mem m k len;
          r \<leftarrow> probe_key HASHMAP_MAX_CHAIN_LENGTH mem m k len cur;
          case r of
            Some cur \<Rightarrow>
              do { e \<leftarrow> elem_at m cur;
                   Some (key e, (set_elem m cur (e\<lparr>in_use := 0, el_data := 0, key := 0\<rparr>))
                                  \<lparr>msize := msize m - 1\<rparr>) }
          | None \<Rightarrow> Some (0, m) }"

subsection \<open>Iteration\<close>

text \<open>A callback takes the context and an element (or its data) and returns its result and the
  new context; \<open>None\<close> is undefined behaviour inside the callback.\<close>

fun iterate_from :: "nat \<Rightarrow> nat \<Rightarrow> ('c \<Rightarrow> ptr \<Rightarrow> (int \<times> 'c) option) \<Rightarrow> 'c \<Rightarrow> hashmap_s \<Rightarrow>
    (int \<times> 'c) option" where
  "iterate_from 0 i f context m = Some (0, context)"
| "iterate_from (Suc n) i f context m =
     do { e \<leftarrow> elem_at m (word_of_nat i);
          if in_use e \<noteq> 0
          then do { (r, context') \<leftarrow> f context (el_data e);
                    if r = 0 then Some (1, context') else iterate_from n (Suc i) f context' m }
          else iterate_from n (Suc i) f context m }"

definition hashmap_iterate :: "hashmap_s \<Rightarrow> ('c \<Rightarrow> ptr \<Rightarrow> (int \<times> 'c) option) \<Rightarrow> 'c \<Rightarrow>
    (int \<times> 'c) option" where
  "hashmap_iterate m f context = iterate_from (unat (table_size m)) 0 f context m"

fun iterate_pairs_from :: "nat \<Rightarrow> nat \<Rightarrow> ('c \<Rightarrow> hashmap_element_s \<Rightarrow> (int \<times> 'c) option) \<Rightarrow> 'c \<Rightarrow>
    hashmap_s \<Rightarrow> (int \<times> 'c \<times> hashmap_s) option" where
  "iterate_pairs_from 0 i f context m = Some (0, context, m)"
| "iterate_pairs_from (Suc n) i f context m =
     do { p \<leftarrow> elem_at m (word_of_nat i);
          if in_use p \<noteq> 0
          then do { (r, context') \<leftarrow> f context p;
                    if r = -1
                    then iterate_pairs_from n (Suc i) f context'
                           ((set_elem m (word_of_nat i) zero_element)\<lparr>msize := msize m - 1\<rparr>)
                    else if r = 0 then iterate_pairs_from n (Suc i) f context' m
                    else Some (1, context', m) }
          else iterate_pairs_from n (Suc i) f context m }"

definition hashmap_iterate_pairs :: "hashmap_s \<Rightarrow>
    ('c \<Rightarrow> hashmap_element_s \<Rightarrow> (int \<times> 'c) option) \<Rightarrow> 'c \<Rightarrow> (int \<times> 'c \<times> hashmap_s) option" where
  "hashmap_iterate_pairs m f context = iterate_pairs_from (unat (table_size m)) 0 f context m"

subsection \<open>Insertion and rehashing\<close>

text \<open>\<open>hashmap_put\<close>, \<open>hashmap_rehash_helper\<close> and \<open>hashmap_rehash_iterator\<close> call each other;
  the put used inside a rehash is an argument here, and the recursion is closed below.\<close>

definition hashmap_rehash_iterator ::
  "(hashmap_s \<Rightarrow> ptr \<Rightarrow> u32 \<Rightarrow> ptr \<Rightarrow> (int \<times> hashmap_s) option) \<Rightarrow>
   hashmap_s \<Rightarrow> hashmap_element_s \<Rightarrow> (int \<times> hashmap_s) option" where
  "hashmap_rehash_iterator put new_hash e =
     do { (temp, new_hash') \<leftarrow> put new_hash (key e) (key_len e) (el_data e);
          if 0 < temp then Some (1, new_hash') else Some (-1, new_hash') }"

definition hashmap_rehash_helper ::
  "(hashmap_s \<Rightarrow> ptr \<Rightarrow> u32 \<Rightarrow> ptr \<Rightarrow> (int \<times> hashmap_s) option) \<Rightarrow> (u32 \<Rightarrow> bool) \<Rightarrow>
   hashmap_s \<Rightarrow> (int \<times> hashmap_s) option" where
  "hashmap_rehash_helper put calloc_ok m =
     (let new_size = 2 * table_size m;
          (flag, new_hash) = hashmap_create calloc_ok new_size
      in if flag \<noteq> 0 then Some (flag, m)
         else do { (flag, new_hash', m') \<leftarrow>
                     hashmap_iterate_pairs m (hashmap_rehash_iterator put) new_hash;
                   if flag \<noteq> 0 then Some (flag, m') else Some (0, new_hash') })"

text \<open>\<open>fuel\<close> bounds the depth of rehashes; each one doubles the table, so 34 is more than a
  32-bit \<open>table_size\<close> can use (see \<open>hashmap_put_total\<close> in the next theory).\<close>

fun hashmap_put_fuel :: "nat \<Rightarrow> (u32 \<Rightarrow> bool) \<Rightarrow> mem \<Rightarrow> hashmap_s \<Rightarrow> ptr \<Rightarrow> u32 \<Rightarrow> ptr \<Rightarrow>
    (int \<times> hashmap_s) option" where
  "hashmap_put_fuel 0 calloc_ok mem m k len v = None"
| "hashmap_put_fuel (Suc fuel) calloc_ok mem m k len v =
     do { r \<leftarrow> hashmap_hash_helper mem m k len;
          case r of
            Some index \<Rightarrow>
              do { e \<leftarrow> elem_at m index;
                   let m' = set_elem m index \<lparr>key = k, key_len = len, in_use = in_use e, el_data = v\<rparr>;
                   if in_use e = 0
                   then Some (0, (set_elem m index \<lparr>key = k, key_len = len, in_use = 1, el_data = v\<rparr>)
                                   \<lparr>msize := msize m + 1\<rparr>)
                   else Some (0, m') }
          | None \<Rightarrow>
              do { (flag, m') \<leftarrow> hashmap_rehash_helper (hashmap_put_fuel fuel calloc_ok mem) calloc_ok m;
                   if flag \<noteq> 0 then Some (1, m')
                   else hashmap_put_fuel fuel calloc_ok mem m' k len v } }"

definition hashmap_put :: "(u32 \<Rightarrow> bool) \<Rightarrow> mem \<Rightarrow> hashmap_s \<Rightarrow> ptr \<Rightarrow> u32 \<Rightarrow> ptr \<Rightarrow>
    (int \<times> hashmap_s) option" where
  "hashmap_put calloc_ok mem m k len v = hashmap_put_fuel 34 calloc_ok mem m k len v"

end
