(* ===== verification/Keyed_Store.thy ===== *)
theory Keyed_Store
  imports Main
begin

text \<open>
  The contract of a keyed container, as the agent and the engine use their hash maps: a
  state, an invariant, a finite-map view, an insertion that may fail and a removal. Clients
  run sequences of operations; what such a sequence does is derived here once, from the
  contract alone, and holds of every container that is shown to meet it.
\<close>

datatype ('k, 'v) store_op = Put 'k 'v | Remove 'k

text \<open>What an operation does to the finite map of key contents.\<close>

fun spec_op :: "('k \<Rightarrow> 'a) \<Rightarrow> ('k, 'v) store_op \<Rightarrow> ('a \<rightharpoonup> 'v) \<Rightarrow> ('a \<rightharpoonup> 'v)" where
  "spec_op content (Put k v) f = f(content k \<mapsto> v)"
| "spec_op content (Remove k) f = f(content k := None)"

fun run_ops :: "('k \<Rightarrow> 'v \<Rightarrow> 's \<Rightarrow> 's option) \<Rightarrow> ('k \<Rightarrow> 's \<Rightarrow> 's option) \<Rightarrow>
    ('k, 'v) store_op list \<Rightarrow> 's \<Rightarrow> 's option" where
  "run_ops put remove [] s = Some s"
| "run_ops put remove (Put k v # xs) s = Option.bind (put k v s) (run_ops put remove xs)"
| "run_ops put remove (Remove k # xs) s = Option.bind (remove k s) (run_ops put remove xs)"

fun keys_touched :: "('k \<Rightarrow> 'a) \<Rightarrow> ('k, 'v) store_op list \<Rightarrow> 'a set" where
  "keys_touched content [] = {}"
| "keys_touched content (Put k v # xs) = insert (content k) (keys_touched content xs)"
| "keys_touched content (Remove k # xs) = insert (content k) (keys_touched content xs)"

locale keyed_store =
  fixes inv :: "'s \<Rightarrow> bool"
    and view :: "'s \<Rightarrow> 'a \<rightharpoonup> 'v"
    and content :: "'k \<Rightarrow> 'a"
    and put :: "'k \<Rightarrow> 'v \<Rightarrow> 's \<Rightarrow> 's option"
    and remove :: "'k \<Rightarrow> 's \<Rightarrow> 's option"
  assumes put_inv: "inv s \<Longrightarrow> put k v s = Some s' \<Longrightarrow> inv s'"
    and put_view: "inv s \<Longrightarrow> put k v s = Some s' \<Longrightarrow> view s' = (view s)(content k \<mapsto> v)"
    and remove_ok: "inv s \<Longrightarrow>
      \<exists>s'. remove k s = Some s' \<and> inv s' \<and> view s' = (view s)(content k := None)"
begin

lemma removeE:
  assumes "inv s" and "remove k s = Some s'"
  shows "inv s'" and "view s' = (view s)(content k := None)"
  using remove_ok [OF assms(1), of k] assms(2) by auto

lemma run_ops_refines:
  "inv s \<Longrightarrow> run_ops put remove xs s = Some s' \<Longrightarrow>
   inv s' \<and> view s' = fold (spec_op content) xs (view s)"
proof (induction xs arbitrary: s)
  case (Cons x xs)
  show ?case
  proof (cases x)
    case (Put k v)
    then obtain t where t: "put k v s = Some t" "run_ops put remove xs t = Some s'"
      using Cons.prems(2) by (auto simp: bind_eq_Some_conv)
    then show ?thesis
      using Cons.IH [OF put_inv [OF Cons.prems(1) t(1)] t(2)] put_view [OF Cons.prems(1) t(1)] Put
      by (simp add: fun_upd_def)
  next
    case (Remove k)
    then obtain t where t: "remove k s = Some t" "run_ops put remove xs t = Some s'"
      using Cons.prems(2) by (auto simp: bind_eq_Some_conv)
    then show ?thesis
      using Cons.IH [OF removeE(1) [OF Cons.prems(1) t(1)] t(2)] removeE(2) [OF Cons.prems(1) t(1)]
        Remove
      by (simp add: fun_upd_def)
  qed
qed simp

lemma spec_untouched:
  "a \<notin> keys_touched content xs \<Longrightarrow> fold (spec_op content) xs f a = f a"
proof (induction xs arbitrary: f)
  case (Cons x xs)
  then show ?case by (cases x) auto
qed simp

lemma run_ops_untouched:
  "inv s \<Longrightarrow> run_ops put remove xs s = Some s' \<Longrightarrow> a \<notin> keys_touched content xs \<Longrightarrow>
   view s' a = view s a"
  by (simp add: run_ops_refines spec_untouched)

text \<open>The last write to a key wins, whatever other keys are written or removed after it.\<close>

lemma last_put_wins:
  assumes "inv s" and "run_ops put remove (xs @ Put k v # ys) s = Some s'"
    and "content k \<notin> keys_touched content ys"
  shows "view s' (content k) = Some v"
  using run_ops_refines [OF assms(1,2)] spec_untouched [OF assms(3)] by simp

end

end
