(* ===== verification/Hashmap_Correct.thy ===== *)
theory Hashmap_Correct
  imports Hashmap Keyed_Store
begin

text \<open>
  Functional correctness and memory safety of the hash map: an invariant that every operation
  keeps, a finite-map view of the table, and what each operation does to that view.
\<close>

subsection \<open>View and invariant\<close>

text \<open>The bytes a stored element was inserted under, and the map from key bytes to data.\<close>

definition key_bytes :: "mem \<Rightarrow> hashmap_element_s \<Rightarrow> bytes" where
  "key_bytes mem e = bytes_at mem (key e) (key_len e)"

definition used :: "hashmap_element_s \<Rightarrow> bool" where
  "used e \<longleftrightarrow> in_use e \<noteq> 0"

definition hm_map :: "mem \<Rightarrow> hashmap_s \<Rightarrow> bytes \<rightharpoonup> ptr" where
  "hm_map mem m b = map_option el_data (find (\<lambda>e. used e \<and> key_bytes mem e = b) (mdata m))"

definition home :: "nat \<Rightarrow> bytes \<Rightarrow> nat" where
  "home N b = unat (jenkins_knuth_mix (hashmap_crc32_helper b)) mod N"

text \<open>Elements sit at most seven slots after their home, no two of them have the same key,
  and \<open>size\<close> counts them.\<close>

definition hm_inv :: "mem \<Rightarrow> hashmap_s \<Rightarrow> bool" where
  "hm_inv mem m \<longleftrightarrow>
     (\<exists>j\<in>{0..<32}. table_size m = 2 ^ j) \<and>
     length (mdata m) = unat (table_size m) \<and>
     unat (msize m) = length (filter used (mdata m)) \<and>
     (\<forall>e\<in>set (mdata m). in_use e = 0 \<or> in_use e = 1) \<and>
     distinct (map (key_bytes mem) (filter used (mdata m))) \<and>
     (\<forall>i<length (mdata m). used (mdata m ! i) \<longrightarrow>
        (\<exists>d<HASHMAP_MAX_CHAIN_LENGTH.
           i = (home (length (mdata m)) (key_bytes mem (mdata m ! i)) + d) mod length (mdata m)))"

lemma unat_power2:
  assumes "j < 32"
  shows "unat (2 ^ j :: u32) = 2 ^ j"
proof -
  have "unat (word_of_nat (2 ^ j) :: u32) = 2 ^ j"
    using assms by (simp add: unsigned_of_nat take_bit_nat_eq_self del: of_nat_power)
  then show ?thesis by simp
qed

lemma hm_invD:
  assumes "hm_inv mem m"
  shows "length (mdata m) = unat (table_size m)" and "0 < table_size m"
    and "unat (msize m) = length (filter used (mdata m))"
    and "\<And>i. i < length (mdata m) \<Longrightarrow> in_use (mdata m ! i) = 0 \<or> in_use (mdata m ! i) = 1"
    and "distinct (map (key_bytes mem) (filter used (mdata m)))"
    and "\<And>i. i < length (mdata m) \<Longrightarrow> used (mdata m ! i) \<Longrightarrow>
        \<exists>d<HASHMAP_MAX_CHAIN_LENGTH.
           i = (home (length (mdata m)) (key_bytes mem (mdata m ! i)) + d) mod length (mdata m)"
  using assms by (auto simp: hm_inv_def word_gt_0)

lemma distinct_used_iff:
  "distinct (map f (filter P xs)) \<longleftrightarrow>
   (\<forall>i<length xs. \<forall>j<i. P (xs ! i) \<longrightarrow> P (xs ! j) \<longrightarrow> f (xs ! i) \<noteq> f (xs ! j))"
proof (induction xs rule: rev_induct)
  case (snoc x xs)
  have "f x \<notin> f ` {y \<in> set xs. P y} \<longleftrightarrow> (\<forall>j<length xs. P (xs ! j) \<longrightarrow> f x \<noteq> f (xs ! j))"
    by (auto simp: in_set_conv_nth image_iff)
  then show ?case using snoc by (auto simp: nth_append All_less_Suc)
qed simp

lemma distinct_used_nth:
  assumes "distinct (map f (filter P xs))" "i < length xs" "j < length xs" "P (xs ! i)" "P (xs ! j)"
    "f (xs ! i) = f (xs ! j)"
  shows "i = j"
  using assms unfolding distinct_used_iff by (metis linorder_neqE_nat)

lemma distinct_used_update:
  assumes "distinct (map f (filter P xs))" "c < length xs"
    and "P e \<Longrightarrow> \<forall>i<length xs. i \<noteq> c \<longrightarrow> P (xs ! i) \<longrightarrow> f (xs ! i) \<noteq> f e"
  shows "distinct (map f (filter P (xs[c := e])))"
  using assms unfolding distinct_used_iff
  by (auto simp: nth_list_update) (metis less_trans)

lemma length_filter_update:
  assumes "c < length xs"
  shows "length (filter P (xs[c := e])) + (if P (xs ! c) then 1 else 0) =
         length (filter P xs) + (if P e then 1 else 0)"
  using assms
proof (induction xs arbitrary: c)
  case (Cons x xs)
  then show ?case by (cases c) auto
qed simp

text \<open>The view in terms of slots.\<close>

lemma hm_map_None_iff:
  "hm_map mem m b = None \<longleftrightarrow>
   (\<forall>i<length (mdata m). used (mdata m ! i) \<longrightarrow> key_bytes mem (mdata m ! i) \<noteq> b)"
  by (auto simp: hm_map_def find_None_iff in_set_conv_nth)

lemma hm_map_SomeI:
  assumes "distinct (map (key_bytes mem) (filter used (mdata m)))"
    and "i < length (mdata m)" "used (mdata m ! i)" "key_bytes mem (mdata m ! i) = b"
  shows "hm_map mem m b = Some (el_data (mdata m ! i))"
proof -
  obtain e where e: "find (\<lambda>e. used e \<and> key_bytes mem e = b) (mdata m) = Some e"
    using assms hm_map_None_iff [of mem m b] by (cases "find (\<lambda>e. used e \<and> key_bytes mem e = b) (mdata m)")
      (auto simp: hm_map_def)
  then obtain i' where "i' < length (mdata m)" "used e" "key_bytes mem e = b" "e = mdata m ! i'"
    by (auto simp: find_Some_iff)
  then have "i' = i" using distinct_used_nth [OF assms(1), of i' i] assms by simp
  then show ?thesis using e \<open>e = mdata m ! i'\<close> by (simp add: hm_map_def)
qed

lemma hm_map_cases:
  assumes "distinct (map (key_bytes mem) (filter used (mdata m)))"
  obtains (absent) "hm_map mem m b = None"
      "\<And>i. i < length (mdata m) \<Longrightarrow> used (mdata m ! i) \<Longrightarrow> key_bytes mem (mdata m ! i) \<noteq> b"
    | (present) i where "i < length (mdata m)" "used (mdata m ! i)"
      "key_bytes mem (mdata m ! i) = b" "hm_map mem m b = Some (el_data (mdata m ! i))"
proof (cases "hm_map mem m b = None")
  case True
  then show thesis using absent by (simp add: hm_map_None_iff)
next
  case False
  then obtain i where "i < length (mdata m)" "used (mdata m ! i)" "key_bytes mem (mdata m ! i) = b"
    by (auto simp: hm_map_None_iff)
  then show thesis using present hm_map_SomeI [OF assms] by blast
qed

text \<open>Replacing the element of slot \<open>c\<close> by an unused one, or by a used one whose key
  is nowhere else, changes the view at the old and the new key only.\<close>

lemma hm_map_update:
  assumes d: "distinct (map (key_bytes mem) (filter used (mdata m)))"
    and c: "c < length (mdata m)"
    and fresh: "used e \<Longrightarrow> \<forall>i<length (mdata m). i \<noteq> c \<longrightarrow> used (mdata m ! i) \<longrightarrow>
          key_bytes mem (mdata m ! i) \<noteq> key_bytes mem e"
    and m': "mdata m' = (mdata m)[c := e]"
  shows "hm_map mem m' b =
     (if used e \<and> key_bytes mem e = b then Some (el_data e)
      else if used (mdata m ! c) \<and> key_bytes mem (mdata m ! c) = b then None
      else hm_map mem m b)"
proof -
  have d': "distinct (map (key_bytes mem) (filter used (mdata m')))"
    using distinct_used_update [OF d c fresh] m' by simp
  show ?thesis
  proof (rule hm_map_cases [OF d', of b], goal_cases absent present)
    case absent
    have *: "i < length (mdata m) \<Longrightarrow> i \<noteq> c \<Longrightarrow> used (mdata m ! i) \<Longrightarrow> key_bytes mem (mdata m ! i) \<noteq> b"
      for i using absent(2) [of i] m' by simp
    have "\<not> (used e \<and> key_bytes mem e = b)" using absent(2) [of c] m' c by simp
    moreover have "hm_map mem m b = None" if "\<not> (used (mdata m ! c) \<and> key_bytes mem (mdata m ! c) = b)"
      using * that by (auto simp: hm_map_None_iff)
    ultimately show ?thesis using absent(1) by simp
  next
    case (present i)
    show ?thesis
    proof (cases "i = c")
      case True
      then show ?thesis using present m' c by simp
    next
      case False
      then have i: "i < length (mdata m)" "used (mdata m ! i)" "key_bytes mem (mdata m ! i) = b"
        using present m' by simp_all
      moreover have "\<not> (used (mdata m ! c) \<and> key_bytes mem (mdata m ! c) = b)"
        using distinct_used_nth [OF d c i(1)] i False by auto
      moreover have "\<not> (used e \<and> key_bytes mem e = b)" using fresh i False by blast
      ultimately show ?thesis using hm_map_SomeI [OF d i] present(4) m' False by auto
    qed
  qed
qed

subsection \<open>The probe loops\<close>

text \<open>Slot arithmetic: a cursor below the table size stays below it.\<close>

definition slot :: "nat \<Rightarrow> nat \<Rightarrow> nat \<Rightarrow> nat" where
  "slot N c d = (c + d) mod N"

lemma slot_less [simp]: "0 < N \<Longrightarrow> slot N c d < N"
  by (simp add: slot_def)

lemma slot_0 [simp]: "c < N \<Longrightarrow> slot N c 0 = c"
  by (simp add: slot_def)

lemma slot_slot [simp]: "slot N (slot N c d) d' = slot N c (d + d')"
  by (simp add: slot_def mod_simps add.assoc)

definition table_ok :: "hashmap_s \<Rightarrow> bool" where
  "table_ok m \<longleftrightarrow> 0 < table_size m \<and> table_size m < 2 ^ 32 - 1 \<and>
     length (mdata m) = unat (table_size m)"

lemma next_slot_eq:
  assumes "table_ok m" "cur < table_size m"
  shows "\<exists>cur'. next_slot m cur = Some cur' \<and> cur' < table_size m \<and>
    unat cur' = slot (length (mdata m)) (unat cur) 1"
proof -
  have "unat cur < 2 ^ 32 - 1" using assms
    by (auto simp: table_ok_def word_less_nat_alt)
  then have "unat (cur + 1) = unat cur + 1"
    using unat_word_ariths(1) [of cur 1] by simp
  then show ?thesis using assms
    by (simp add: table_ok_def next_slot_def slot_def unat_mod word_mod_less_divisor word_gt_0)
qed

lemma elem_at_eq: "table_ok m \<Longrightarrow> cur < table_size m \<Longrightarrow> elem_at m cur = Some (mdata m ! unat cur)"
  by (simp add: elem_at_def table_ok_def word_less_nat_alt)

definition holds_key :: "mem \<Rightarrow> hashmap_s \<Rightarrow> bytes \<Rightarrow> nat \<Rightarrow> bool" where
  "holds_key mem m b i \<longleftrightarrow> used (mdata m ! i) \<and> key_bytes mem (mdata m ! i) = b"

lemma match_iff_key_bytes:
  "hashmap_match_helper mem e k len \<longleftrightarrow> key_bytes mem e = bytes_at mem k len"
proof -
  have "key_len e = len" if "key_bytes mem e = bytes_at mem k len"
    using arg_cong [OF that, of length] by (simp add: key_bytes_def word_unat_eq_iff)
  then show ?thesis by (auto simp: hashmap_match_helper_def key_bytes_def)
qed

lemma probe_key_spec:
  assumes "table_ok m"
  shows "cur < table_size m \<Longrightarrow>
    (case probe_key n mem m k len cur of
       None \<Rightarrow> False
     | Some None \<Rightarrow> \<forall>d<n. \<not> holds_key mem m (bytes_at mem k len) (slot (length (mdata m)) (unat cur) d)
     | Some (Some c) \<Rightarrow> c < table_size m \<and> holds_key mem m (bytes_at mem k len) (unat c))"
proof (induction n arbitrary: cur)
  case (Suc n)
  let ?N = "length (mdata m)" and ?e = "mdata m ! unat cur"
  obtain cur' where cur': "next_slot m cur = Some cur'" "cur' < table_size m"
    "unat cur' = slot ?N (unat cur) 1"
    using next_slot_eq [OF assms Suc.prems] by blast
  have e: "elem_at m cur = Some ?e" by (rule elem_at_eq [OF assms Suc.prems])
  have c0: "slot ?N (unat cur) 0 = unat cur"
    using Suc.prems assms by (simp add: table_ok_def word_less_nat_alt)
  show ?case
  proof (cases "in_use ?e \<noteq> 0 \<and> hashmap_match_helper mem ?e k len")
    case True
    then show ?thesis using e Suc.prems
      by (simp add: holds_key_def used_def match_iff_key_bytes)
  next
    case False
    then have r: "probe_key (Suc n) mem m k len cur = probe_key n mem m k len cur'"
      using e cur' by auto
    have "\<not> holds_key mem m (bytes_at mem k len) (slot ?N (unat cur) 0)"
      using False c0 by (auto simp: holds_key_def used_def match_iff_key_bytes)
    then show ?thesis using Suc.IH [OF cur'(2)] cur'(3)
      unfolding r by (auto split: option.splits simp: less_Suc_eq_0_disj)
  qed
qed simp

lemma probe_match_spec:
  assumes "table_ok m"
  shows "cur < table_size m \<Longrightarrow>
    (case probe_match n mem m k len cur t of
       None \<Rightarrow> False
     | Some (Inr t') \<Rightarrow> \<forall>d<n. \<not> holds_key mem m (bytes_at mem k len) (slot (length (mdata m)) (unat cur) d)
     | Some (Inl c) \<Rightarrow> c < table_size m \<and> holds_key mem m (bytes_at mem k len) (unat c))"
proof (induction n arbitrary: cur t)
  case (Suc n)
  let ?N = "length (mdata m)" and ?e = "mdata m ! unat cur"
  obtain cur' where cur': "next_slot m cur = Some cur'" "cur' < table_size m"
    "unat cur' = slot ?N (unat cur) 1"
    using next_slot_eq [OF assms Suc.prems] by blast
  have e: "elem_at m cur = Some ?e" by (rule elem_at_eq [OF assms Suc.prems])
  have c0: "slot ?N (unat cur) 0 = unat cur"
    using Suc.prems assms by (simp add: table_ok_def word_less_nat_alt)
  show ?case
  proof (cases "in_use ?e \<noteq> 0 \<and> hashmap_match_helper mem ?e k len")
    case True
    then show ?thesis using e Suc.prems
      by (simp add: holds_key_def used_def match_iff_key_bytes)
  next
    case False
    then have r: "probe_match (Suc n) mem m k len cur t
        = probe_match n mem m k len cur' (t + in_use ?e)"
      using e cur' by auto
    have "\<not> holds_key mem m (bytes_at mem k len) (slot ?N (unat cur) 0)"
      using False c0 by (auto simp: holds_key_def used_def match_iff_key_bytes)
    then show ?thesis using Suc.IH [OF cur'(2), of "t + in_use ?e"] cur'(3)
      unfolding r by (auto split: option.splits sum.splits simp: less_Suc_eq_0_disj)
  qed
qed simp

lemma probe_free_spec:
  assumes "table_ok m"
  shows "cur < table_size m \<Longrightarrow>
    (case probe_free n m cur of
       None \<Rightarrow> False
     | Some None \<Rightarrow> \<forall>d<n. used (mdata m ! slot (length (mdata m)) (unat cur) d)
     | Some (Some c) \<Rightarrow> c < table_size m \<and> \<not> used (mdata m ! unat c) \<and>
         (\<exists>d<n. unat c = slot (length (mdata m)) (unat cur) d))"
proof (induction n arbitrary: cur)
  case (Suc n)
  let ?N = "length (mdata m)" and ?e = "mdata m ! unat cur"
  obtain cur' where cur': "next_slot m cur = Some cur'" "cur' < table_size m"
    "unat cur' = slot ?N (unat cur) 1"
    using next_slot_eq [OF assms Suc.prems] by blast
  have e: "elem_at m cur = Some ?e" by (rule elem_at_eq [OF assms Suc.prems])
  have c0: "slot ?N (unat cur) 0 = unat cur"
    using Suc.prems assms by (simp add: table_ok_def word_less_nat_alt)
  show ?case
  proof (cases "in_use ?e = 0")
    case True
    then show ?thesis using e Suc.prems c0 by (auto simp: used_def)
  next
    case False
    then have r: "probe_free (Suc n) m cur = probe_free n m cur'"
      using e cur' by auto
    have "used (mdata m ! slot ?N (unat cur) 0)" using False c0 by (simp add: used_def)
    then show ?thesis using Suc.IH [OF cur'(2)] cur'(3)
      unfolding r by (auto split: option.splits simp: less_Suc_eq_0_disj)
  qed
qed simp

text \<open>What the invariant gives the probes.\<close>

lemma hm_inv_table_ok: "hm_inv mem m \<Longrightarrow> table_ok m"
proof -
  assume inv: "hm_inv mem m"
  then obtain j where j: "j < 32" "table_size m = 2 ^ j" by (auto simp: hm_inv_def)
  have "(2 :: nat) ^ j \<le> 2 ^ 31" using j(1) by (intro power_increasing) auto
  then have "unat (table_size m) < 2 ^ 32 - 1" using j by (simp add: unat_power2)
  then have "table_size m < 2 ^ 32 - 1" by (simp add: word_less_nat_alt)
  then show "table_ok m" using inv hm_invD(1,2) [OF inv] by (simp add: table_ok_def)
qed

lemma hash_int_eq:
  assumes "table_ok m"
  shows "\<exists>h. hashmap_hash_helper_int_helper mem m k len = Some h \<and> h < table_size m \<and>
     unat h = home (length (mdata m)) (bytes_at mem k len)"
  using assms
  by (simp add: hashmap_hash_helper_int_helper_def table_ok_def home_def unat_mod
      word_mod_less_divisor word_gt_0)

text \<open>A key that is not in the eight slots of its chain is not in the table.\<close>

lemma absent_of_chain:
  assumes inv: "hm_inv mem m"
    and chain: "\<forall>d<HASHMAP_MAX_CHAIN_LENGTH.
          \<not> holds_key mem m b (slot (length (mdata m)) (home (length (mdata m)) b) d)"
    and i: "i < length (mdata m)" "used (mdata m ! i)"
  shows "key_bytes mem (mdata m ! i) \<noteq> b"
proof
  assume b: "key_bytes mem (mdata m ! i) = b"
  then obtain d where "d < HASHMAP_MAX_CHAIN_LENGTH"
    "i = slot (length (mdata m)) (home (length (mdata m)) b) d"
    using hm_invD(6) [OF inv i] by (auto simp: slot_def)
  then show False using chain b i by (auto simp: holds_key_def)
qed

text \<open>The search that \<open>hashmap_get\<close> and the two removals start with.\<close>

lemma find_key:
  assumes inv: "hm_inv mem m"
  obtains (absent) h where "hashmap_hash_helper_int_helper mem m k len = Some h"
      "probe_key HASHMAP_MAX_CHAIN_LENGTH mem m k len h = Some None"
      "hm_map mem m (bytes_at mem k len) = None"
    | (present) h c where "hashmap_hash_helper_int_helper mem m k len = Some h"
      "probe_key HASHMAP_MAX_CHAIN_LENGTH mem m k len h = Some (Some c)"
      "elem_at m c = Some (mdata m ! unat c)" "unat c < length (mdata m)"
      "used (mdata m ! unat c)" "key_bytes mem (mdata m ! unat c) = bytes_at mem k len"
      "hm_map mem m (bytes_at mem k len) = Some (el_data (mdata m ! unat c))"
proof -
  have ok: "table_ok m" by (rule hm_inv_table_ok [OF inv])
  obtain h where h: "hashmap_hash_helper_int_helper mem m k len = Some h" "h < table_size m"
     "unat h = home (length (mdata m)) (bytes_at mem k len)"
    using hash_int_eq [OF ok] by blast
  note spec = probe_key_spec [OF ok h(2), of HASHMAP_MAX_CHAIN_LENGTH mem k len]
  show thesis
  proof (cases "probe_key HASHMAP_MAX_CHAIN_LENGTH mem m k len h")
    case None
    then show thesis using spec by simp
  next
    case (Some r)
    show thesis
    proof (cases r)
      case None
      then have "\<forall>d<HASHMAP_MAX_CHAIN_LENGTH. \<not> holds_key mem m (bytes_at mem k len)
          (slot (length (mdata m)) (home (length (mdata m)) (bytes_at mem k len)) d)"
        using spec Some h(3) by simp
      then have "hm_map mem m (bytes_at mem k len) = None"
        using absent_of_chain [OF inv] by (simp add: hm_map_None_iff)
      then show thesis using absent h(1) Some None by blast
    next
      case (Some c)
      then have c: "c < table_size m" "holds_key mem m (bytes_at mem k len) (unat c)"
        using spec \<open>probe_key _ mem m k len h = Some r\<close> by simp_all
      have i: "unat c < length (mdata m)"
        using c(1) ok by (simp add: table_ok_def word_less_nat_alt)
      moreover have "used (mdata m ! unat c)" "key_bytes mem (mdata m ! unat c) = bytes_at mem k len"
        using c(2) by (simp_all add: holds_key_def)
      ultimately show thesis
        using present [of h c] h(1) Some \<open>probe_key _ mem m k len h = Some r\<close>
          elem_at_eq [OF ok c(1)] hm_map_SomeI [OF hm_invD(5) [OF inv] i] by simp
    qed
  qed
qed

subsection \<open>Updating one slot\<close>

lemma hm_inv_update:
  assumes inv: "hm_inv mem m" and c: "c < length (mdata m)"
    and m': "table_size m' = table_size m" "mdata m' = (mdata m)[c := e]"
    and flag: "in_use e = 0 \<or> in_use e = 1"
    and fresh: "used e \<Longrightarrow> \<forall>i<length (mdata m). i \<noteq> c \<longrightarrow> used (mdata m ! i) \<longrightarrow>
          key_bytes mem (mdata m ! i) \<noteq> key_bytes mem e"
    and placed: "used e \<Longrightarrow> \<exists>d<HASHMAP_MAX_CHAIN_LENGTH.
          c = slot (length (mdata m)) (home (length (mdata m)) (key_bytes mem e)) d"
    and count: "unat (msize m') + (if used (mdata m ! c) then 1 else 0) =
          unat (msize m) + (if used e then 1 else 0)"
  shows "hm_inv mem m'"
  unfolding hm_inv_def
proof (intro conjI allI impI ballI)
  show "\<exists>j\<in>{0..<32}. table_size m' = 2 ^ j" using inv m' by (auto simp: hm_inv_def)
  show "length (mdata m') = unat (table_size m')" using hm_invD(1) [OF inv] m' by simp
  show "unat (msize m') = length (filter used (mdata m'))"
    using length_filter_update [OF c, of used e] count hm_invD(3) [OF inv] m'(2) by simp
  show "in_use x = 0 \<or> in_use x = 1" if "x \<in> set (mdata m')" for x
    using that flag inv m'(2) set_update_subset_insert [of "mdata m" c e] by (auto simp: hm_inv_def)
  show "distinct (map (key_bytes mem) (filter used (mdata m')))"
    using distinct_used_update [OF hm_invD(5) [OF inv] c fresh] m'(2) by simp
  show "\<exists>d<HASHMAP_MAX_CHAIN_LENGTH.
      i = (home (length (mdata m')) (key_bytes mem (mdata m' ! i)) + d) mod length (mdata m')"
    if "i < length (mdata m')" "used (mdata m' ! i)" for i
  proof (cases "i = c")
    case True
    then show ?thesis using placed that c m'(2) by (simp add: slot_def)
  next
    case False
    then show ?thesis using hm_invD(6) [OF inv, of i] that m'(2) by simp
  qed
qed

lemma hm_clear_slot:
  assumes inv: "hm_inv mem m" and c: "c < length (mdata m)" "used (mdata m ! c)"
    and m': "table_size m' = table_size m" "mdata m' = (mdata m)[c := e]" "msize m' = msize m - 1"
    and e: "\<not> used e"
  shows "hm_inv mem m'" and "hm_map mem m' = (hm_map mem m)(key_bytes mem (mdata m ! c) := None)"
proof -
  have "0 < length (filter used (mdata m))"
    using c by (force simp: length_greater_0_conv filter_empty_conv)
  then have "unat (msize m - 1) + 1 = unat (msize m)"
    using hm_invD(3) [OF inv] by (metis One_nat_def Suc_pred add.commute plus_1_eq_Suc unat_0_iff
        unat_minus_one less_irrefl)
  then show "hm_inv mem m'"
    using hm_inv_update [OF inv c(1) m'(1,2)] c(2) e m'(3) by (simp add: used_def)
  show "hm_map mem m' = (hm_map mem m)(key_bytes mem (mdata m ! c) := None)"
    using hm_map_update [OF hm_invD(5) [OF inv] c(1) _ m'(2)] c(2) e by (auto simp: fun_eq_iff)
qed

text \<open>Writing a key and its data into a slot that holds the same key already, or into a free
  slot of its chain when the key is absent.\<close>

lemma hm_write_slot:
  assumes inv: "hm_inv mem m" and c: "c < length (mdata m)"
    and m': "table_size m' = table_size m" "mdata m' = (mdata m)[c := e]"
    and e: "in_use e = 1"
    and where_ok: "used (mdata m ! c) \<and> key_bytes mem (mdata m ! c) = key_bytes mem e
                     \<and> msize m' = msize m \<or>
                   \<not> used (mdata m ! c) \<and> hm_map mem m (key_bytes mem e) = None
                     \<and> msize m' = msize m + 1 \<and> msize m < table_size m
                     \<and> (\<exists>d<HASHMAP_MAX_CHAIN_LENGTH.
                          c = slot (length (mdata m)) (home (length (mdata m)) (key_bytes mem e)) d)"
  shows "hm_inv mem m'" and "hm_map mem m' = (hm_map mem m)(key_bytes mem e \<mapsto> el_data e)"
proof -
  note d = hm_invD(5) [OF inv]
  have ue: "used e" using e by (simp add: used_def)
  have fresh: "\<forall>i<length (mdata m). i \<noteq> c \<longrightarrow> used (mdata m ! i) \<longrightarrow>
          key_bytes mem (mdata m ! i) \<noteq> key_bytes mem e"
    using where_ok distinct_used_nth [OF d c] by (metis hm_map_None_iff)
  have "unat (msize m + 1) = unat (msize m) + 1" if "msize m < table_size m"
    using that unat_word_ariths(1) [of "msize m" 1] unat_u32_less [of "table_size m"]
    by (simp add: word_less_nat_alt)
  then have count: "unat (msize m') + (if used (mdata m ! c) then 1 else 0) =
          unat (msize m) + (if used e then 1 else 0)"
    using where_ok ue by auto
  have placed: "\<exists>d<HASHMAP_MAX_CHAIN_LENGTH.
          c = slot (length (mdata m)) (home (length (mdata m)) (key_bytes mem e)) d"
    using where_ok hm_invD(6) [OF inv c] by (auto simp: slot_def)
  show "hm_inv mem m'"
    using e by (intro hm_inv_update [OF inv c m' _ fresh placed count]) simp
  show "hm_map mem m' = (hm_map mem m)(key_bytes mem e \<mapsto> el_data e)"
    using hm_map_update [OF d c fresh m'(2)] ue where_ok by (auto simp: fun_eq_iff)
qed

subsection \<open>Lookup and removal\<close>

lemma get_correct:
  assumes "hm_inv mem m"
  shows "hashmap_get mem m k len =
    Some (case hm_map mem m (bytes_at mem k len) of None \<Rightarrow> 0 | Some v \<Rightarrow> v)"
  by (rule find_key [OF assms, of k len]) (simp_all add: hashmap_get_def)

text \<open>C21: on a valid map, \<open>hashmap_get\<close> stays within the table and returns the data last stored
  under the key's bytes, or NULL when there is none.\<close>

theorem hashmap_get_correct:
  assumes "hm_inv mem m"
  shows "hashmap_get mem m k len =
    Some (case hm_map mem m (bytes_at mem k len) of None \<Rightarrow> 0 | Some v \<Rightarrow> v)"
  by (rule get_correct [OF assms])

lemma remove_correct:
  assumes "hm_inv mem m"
  shows "\<exists>r m'. hashmap_remove mem m k len = Some (r, m') \<and> hm_inv mem m' \<and>
    hm_map mem m' = (hm_map mem m)(bytes_at mem k len := None) \<and>
    (if hm_map mem m (bytes_at mem k len) = None then r = 1 \<and> m' = m
     else r = 0 \<and> msize m' = msize m - 1)"
proof (rule find_key [OF assms, of k len], goal_cases absent present)
  case (absent h)
  then show ?case using assms by (auto simp: hashmap_remove_def fun_upd_idem)
next
  case (present h c)
  let ?m' = "(set_elem m c zero_element)\<lparr>msize := msize m - 1\<rparr>"
  have "hm_inv mem ?m'" "hm_map mem ?m' = (hm_map mem m)(bytes_at mem k len := None)"
    using hm_clear_slot [OF assms present(4,5), of ?m' zero_element] present(6)
    by (simp_all add: set_elem_def used_def zero_element_def)
  then show ?case using present by (simp add: hashmap_remove_def)
qed

text \<open>C25: \<open>hashmap_remove\<close> deletes exactly the given key, keeps the map valid, and returns 0
  when the key was there and 1 (changing nothing) when it was not.\<close>

theorem hashmap_remove_correct:
  assumes "hm_inv mem m"
  shows "\<exists>r m'. hashmap_remove mem m k len = Some (r, m') \<and> hm_inv mem m' \<and>
    hm_map mem m' = (hm_map mem m)(bytes_at mem k len := None) \<and>
    (if hm_map mem m (bytes_at mem k len) = None then r = 1 \<and> m' = m
     else r = 0 \<and> msize m' = msize m - 1)"
  by (rule remove_correct [OF assms])

text \<open>\<open>hashmap_remove_and_return_key\<close> deletes exactly the given key; when the key was there
  it returns a stored pointer to the same bytes, otherwise NULL.\<close>

theorem hashmap_remove_and_return_key_correct:
  assumes "hm_inv mem m"
  shows "\<exists>p m'. hashmap_remove_and_return_key mem m k len = Some (p, m') \<and> hm_inv mem m' \<and>
    hm_map mem m' = (hm_map mem m)(bytes_at mem k len := None) \<and>
    (if hm_map mem m (bytes_at mem k len) = None then p = 0 \<and> m' = m
     else bytes_at mem p len = bytes_at mem k len \<and> msize m' = msize m - 1)"
proof (rule find_key [OF assms, of k len], goal_cases absent present)
  case (absent h)
  then show ?case using assms by (auto simp: hashmap_remove_and_return_key_def fun_upd_idem)
next
  case (present h c)
  let ?e = "(mdata m ! unat c)\<lparr>in_use := 0, el_data := 0, key := 0\<rparr>"
  let ?m' = "(set_elem m c ?e)\<lparr>msize := msize m - 1\<rparr>"
  have "hm_inv mem ?m'" "hm_map mem ?m' = (hm_map mem m)(bytes_at mem k len := None)"
    using hm_clear_slot [OF assms present(4,5), of ?m' ?e] present(6)
    by (simp_all add: set_elem_def used_def)
  moreover have "bytes_at mem (key (mdata m ! unat c)) len = bytes_at mem k len"
    using present(6) match_iff_key_bytes [of mem "mdata m ! unat c" k len]
    by (simp add: hashmap_match_helper_def key_bytes_def)
  ultimately show ?case using present by (simp add: hashmap_remove_and_return_key_def)
qed

subsection \<open>Creation\<close>

lemma power2_iff_and:
  "(n :: u32) \<noteq> 0 \<and> n AND (n - 1) = 0 \<longleftrightarrow> (\<exists>j<32. n = 2 ^ j)"
proof
  assume n: "n \<noteq> 0 \<and> n AND (n - 1) = 0"
  then have "1 \<le> unat n" by (simp add: Suc_le_eq unat_gt_0)
  then obtain j where j: "2 ^ j \<le> unat n" "unat n < 2 ^ (j + 1)"
    using ex_power_ivl1 [of 2 "unat n"] by auto
  have "(2 :: nat) ^ j < 2 ^ 32" using j(1) unat_u32_less [of n] by simp
  then have j32: "j < 32" by (rule power_less_imp_less_exp [rotated]) simp
  have "unat n = 2 ^ j"
  proof (rule ccontr)
    assume "unat n \<noteq> 2 ^ j"
    then have "2 ^ j \<le> unat n - 1" "unat n - 1 < 2 ^ (j + 1)" using j by auto
    then have "unat n div 2 ^ j = 1" "(unat n - 1) div 2 ^ j = 1"
      using j by (auto intro!: div_nat_eqI)
    then have "bit (unat n) j" "bit (unat n - 1) j"
      by (simp_all only: bit_iff_odd odd_one not_False_eq_True)
    moreover have "unat (n - 1) = unat n - 1" using n by (simp add: unat_minus_one)
    ultimately have "bit n j" "bit (n - 1) j"
      using j32 by (metis bit_unsigned_iff)+
    then have "bit (n AND (n - 1)) j" by (simp add: bit_and_iff)
    then show False using n by simp
  qed
  then show "\<exists>j<32. n = 2 ^ j" using j32 by (metis unat_power2 unsigned_word_eqI)
next
  assume "\<exists>j<32. n = 2 ^ j"
  then obtain j where j: "j < 32" "n = 2 ^ j" by blast
  then have "unat n = 2 ^ j" by (simp add: unat_power2)
  then have "n \<noteq> 0" by (metis power_not_zero unat_0 zero_neq_numeral)
  moreover have "n AND (n - 1) = 0"
    using j by (intro bit_word_eqI)
      (simp add: bit_and_iff bit_exp_iff flip: mask_eq_exp_minus_1, simp add: bit_mask_iff)
  ultimately show "n \<noteq> 0 \<and> n AND (n - 1) = 0" by blast
qed

lemma hm_inv_empty:
  assumes "j < 32" "table_size m = 2 ^ j" "msize m = 0"
    "mdata m = replicate (unat (table_size m)) zero_element"
  shows "hm_inv mem m" and "hm_map mem m = Map.empty"
  using assms by (auto simp: hm_inv_def used_def zero_element_def hm_map_None_iff fun_eq_iff)

lemma create_ok:
  assumes "j < 32" "n = 2 ^ j" "calloc_ok n"
  shows "fst (hashmap_create calloc_ok n) = 0"
    and "hm_inv mem (snd (hashmap_create calloc_ok n))"
    and "hm_map mem (snd (hashmap_create calloc_ok n)) = Map.empty"
proof -
  have "n \<noteq> 0 \<and> n AND (n - 1) = 0" using power2_iff_and [of n] assms(1,2) by blast
  then have c: "hashmap_create calloc_ok n =
      (0, \<lparr>table_size = n, msize = 0, mdata = replicate (unat n) zero_element\<rparr>)"
    using assms(3) by (simp add: hashmap_create_def)
  then show "fst (hashmap_create calloc_ok n) = 0" by simp
  show "hm_inv mem (snd (hashmap_create calloc_ok n))"
    "hm_map mem (snd (hashmap_create calloc_ok n)) = Map.empty"
    using hm_inv_empty [OF assms(1), of "snd (hashmap_create calloc_ok n)" mem] assms(2) c by simp_all
qed

lemma create_fails:
  "\<not> ((\<exists>j<32. n = 2 ^ j) \<and> calloc_ok n) \<Longrightarrow> fst (hashmap_create calloc_ok n) = 1"
  using power2_iff_and [of n] by (auto simp: hashmap_create_def Let_def)

lemma create_table_size: "table_size (snd (hashmap_create calloc_ok n)) = n"
  by (simp add: hashmap_create_def Let_def)

text \<open>Creation succeeds exactly for the powers of two for which memory is there, and then
  gives a valid empty map; in particular a doubled size that wraps around to 0 is refused.\<close>

theorem hashmap_create_correct:
  "if (\<exists>j<32. n = 2 ^ j) \<and> calloc_ok n
   then fst (hashmap_create calloc_ok n) = 0 \<and> hm_inv mem (snd (hashmap_create calloc_ok n)) \<and>
        hm_map mem (snd (hashmap_create calloc_ok n)) = Map.empty
   else fst (hashmap_create calloc_ok n) = 1"
  using create_ok [of _ n calloc_ok] create_fails [of n calloc_ok] by (auto split: if_splits)

subsection \<open>Insertion\<close>

text \<open>Where \<open>hashmap_put\<close> writes.\<close>

lemma hash_helper_cases:
  assumes inv: "hm_inv mem m"
  obtains (full) "hashmap_hash_helper mem m k len = Some None"
    | (found) c where "hashmap_hash_helper mem m k len = Some (Some c)"
      "elem_at m c = Some (mdata m ! unat c)" "unat c < length (mdata m)"
      "used (mdata m ! unat c)" "key_bytes mem (mdata m ! unat c) = bytes_at mem k len"
    | (free) c where "hashmap_hash_helper mem m k len = Some (Some c)"
      "elem_at m c = Some (mdata m ! unat c)" "unat c < length (mdata m)"
      "\<not> used (mdata m ! unat c)" "hm_map mem m (bytes_at mem k len) = None"
      "msize m < table_size m"
      "\<exists>d<HASHMAP_MAX_CHAIN_LENGTH.
         unat c = slot (length (mdata m)) (home (length (mdata m)) (bytes_at mem k len)) d"
proof (cases "table_size m \<le> msize m")
  case True
  then show thesis using full by (simp add: hashmap_hash_helper_def)
next
  case False
  have ok: "table_ok m" by (rule hm_inv_table_ok [OF inv])
  obtain h where h: "hashmap_hash_helper_int_helper mem m k len = Some h" "h < table_size m"
     "unat h = home (length (mdata m)) (bytes_at mem k len)"
    using hash_int_eq [OF ok] by blast
  note spec = probe_match_spec [OF ok h(2), where n = HASHMAP_MAX_CHAIN_LENGTH and mem = mem
      and k = k and len = len and t = 0]
  have bound: "unat c < length (mdata m)" if "c < table_size m" for c
    using that ok by (simp add: table_ok_def word_less_nat_alt)
  show thesis
  proof (cases "probe_match HASHMAP_MAX_CHAIN_LENGTH mem m k len h 0")
    case None
    then show thesis using spec by simp
  next
    case (Some r)
    show thesis
    proof (cases r)
      case (Inl c)
      then have "c < table_size m" "holds_key mem m (bytes_at mem k len) (unat c)"
        using spec Some by simp_all
      then show thesis using found [of c] Some Inl False h(1) elem_at_eq [OF ok] bound
        by (simp add: hashmap_hash_helper_def holds_key_def)
    next
      case (Inr t)
      have absent: "hm_map mem m (bytes_at mem k len) = None"
        using spec Some Inr h(3) absent_of_chain [OF inv] by (simp add: hm_map_None_iff)
      have r: "hashmap_hash_helper mem m k len = (if int HASHMAP_MAX_CHAIN_LENGTH > t
          then probe_free HASHMAP_MAX_CHAIN_LENGTH m h else Some None)"
        using False h(1) Some Inr by (simp add: hashmap_hash_helper_def)
      note fspec = probe_free_spec [OF ok h(2), where n = HASHMAP_MAX_CHAIN_LENGTH]
      show thesis
        using full free r fspec absent False h(3) elem_at_eq [OF ok] bound
        by (fastforce split: if_splits option.splits)
    qed
  qed
qed

text \<open>The contract of a put on tables of at least \<open>N\<close> slots, used for the puts that a rehash
  makes: it ends, keeps the invariant, and either adds the entry or fails keeping a sub-map.\<close>

definition put_result :: "mem \<Rightarrow> hashmap_s \<Rightarrow> ptr \<Rightarrow> u32 \<Rightarrow> ptr \<Rightarrow> (int \<times> hashmap_s) option \<Rightarrow> bool" where
  "put_result mem m k len v res \<longleftrightarrow>
     (\<exists>r m'. res = Some (r, m') \<and> hm_inv mem m' \<and> table_size m \<le> table_size m' \<and>
        (r = 0 \<and> hm_map mem m' = (hm_map mem m)(bytes_at mem k len \<mapsto> v) \<or>
         r = 1 \<and> hm_map mem m' \<subseteq>\<^sub>m hm_map mem m))"

definition put_meets where
  "put_meets mem N put \<longleftrightarrow>
     (\<forall>m k len v. hm_inv mem m \<longrightarrow> N \<le> table_size m \<longrightarrow> put_result mem m k len v (put m k len v))"

lemma put_meetsD:
  assumes "put_meets mem N put" "hm_inv mem m" "N \<le> table_size m"
  obtains r m' where "put m k len v = Some (r, m')" "hm_inv mem m'"
    "table_size m \<le> table_size m'"
    "r = 0 \<and> hm_map mem m' = (hm_map mem m)(bytes_at mem k len \<mapsto> v) \<or>
     r = 1 \<and> hm_map mem m' \<subseteq>\<^sub>m hm_map mem m"
  using assms unfolding put_meets_def put_result_def by meson

lemma elem_at_nat:
  assumes "hm_inv mem m" "i < length (mdata m)"
  shows "elem_at m (word_of_nat i) = Some (mdata m ! i)" and "unat (word_of_nat i :: u32) = i"
proof -
  have "i < 2 ^ 32" using assms(2) hm_invD(1) [OF assms(1)] unat_u32_less [of "table_size m"] by simp
  then show "unat (word_of_nat i :: u32) = i"
    by (simp add: unsigned_of_nat take_bit_nat_eq_self)
  then show "elem_at m (word_of_nat i) = Some (mdata m ! i)" using assms(2) by (simp add: elem_at_def)
qed

text \<open>The rehash loop moves the entries one by one: together, the old and the new table always
  hold the original map.\<close>

lemma rehash_loop:
  assumes put: "put_meets mem N put"
  shows "hm_inv mem m \<Longrightarrow> hm_inv mem nh \<Longrightarrow> N \<le> table_size nh \<Longrightarrow>
    i + n = length (mdata m) \<Longrightarrow> \<forall>i'<i. \<not> used (mdata m ! i') \<Longrightarrow>
    dom (hm_map mem m) \<inter> dom (hm_map mem nh) = {} \<Longrightarrow>
    \<exists>r nh' m'. iterate_pairs_from n i (hashmap_rehash_iterator put) nh m = Some (r, nh', m') \<and>
      hm_inv mem m' \<and> table_size m' = table_size m \<and>
      hm_inv mem nh' \<and> table_size nh \<le> table_size nh' \<and> hm_map mem m' \<subseteq>\<^sub>m hm_map mem m \<and>
      (r = 0 \<and> hm_map mem nh' = hm_map mem m ++ hm_map mem nh \<or> r = 1)"
proof (induction n arbitrary: i m nh)
  case 0
  then have "hm_map mem m = Map.empty" by (auto simp: hm_map_None_iff fun_eq_iff)
  then show ?case using 0 by simp
next
  case (Suc n)
  let ?e = "mdata m ! i"
  have i: "i < length (mdata m)" using Suc.prems(4) by simp
  note e = elem_at_nat [OF Suc.prems(1) i]
  show ?case
  proof (cases "used ?e")
    case False
    then have "\<forall>i'<Suc i. \<not> used (mdata m ! i')" using Suc.prems(5) by (simp add: less_Suc_eq)
    then show ?thesis using Suc.IH [OF Suc.prems(1-3) _ _ Suc.prems(6), of "Suc i"] Suc.prems(4) False e
      by (simp add: used_def)
  next
    case True
    let ?b = "key_bytes mem ?e"
    have me: "hm_map mem m ?b = Some (el_data ?e)"
      by (rule hm_map_SomeI [OF hm_invD(5) [OF Suc.prems(1)] i True refl])
    obtain r nh' where r: "put nh (key ?e) (key_len ?e) (el_data ?e) = Some (r, nh')" "hm_inv mem nh'"
      "table_size nh \<le> table_size nh'"
      "r = 0 \<and> hm_map mem nh' = (hm_map mem nh)(?b \<mapsto> el_data ?e) \<or>
       r = 1 \<and> hm_map mem nh' \<subseteq>\<^sub>m hm_map mem nh"
      by (rule put_meetsD [OF put Suc.prems(2,3), of "key ?e" "key_len ?e" "el_data ?e"])
        (simp add: key_bytes_def)
    show ?thesis
    proof (cases "r = 0")
      case False
      then have "iterate_pairs_from (Suc n) i (hashmap_rehash_iterator put) nh m = Some (1, nh', m)"
        using r(1,4) True e by (simp add: hashmap_rehash_iterator_def used_def)
      then show ?thesis using r(2,3) Suc.prems(1) by (simp add: map_le_refl)
    next
      case r0: True
      define m' where "m' = (set_elem m (word_of_nat i) zero_element)\<lparr>msize := msize m - 1\<rparr>"
      have m': "hm_inv mem m'" "hm_map mem m' = (hm_map mem m)(?b := None)"
        "table_size m' = table_size m" "mdata m' = (mdata m)[i := zero_element]"
        using hm_clear_slot [OF Suc.prems(1) i True, of m' zero_element] e
        by (simp_all add: m'_def set_elem_def used_def zero_element_def)
      have step: "iterate_pairs_from (Suc n) i (hashmap_rehash_iterator put) nh m
          = iterate_pairs_from n (Suc i) (hashmap_rehash_iterator put) nh' m'"
        using r(1) r0 True e by (simp add: hashmap_rehash_iterator_def used_def m'_def)
      have "\<forall>i'<Suc i. \<not> used (mdata m' ! i')"
        using Suc.prems(5) m'(4) i by (simp add: less_Suc_eq nth_list_update used_def zero_element_def)
      moreover have "dom (hm_map mem m') \<inter> dom (hm_map mem nh') = {}"
        using Suc.prems(6) m'(2) r(4) r0 by auto
      moreover have "N \<le> table_size nh'" using Suc.prems(3) r(3) by simp
      ultimately obtain r2 nh2 m2 where
        2: "iterate_pairs_from n (Suc i) (hashmap_rehash_iterator put) nh' m' = Some (r2, nh2, m2)"
        "hm_inv mem m2" "table_size m2 = table_size m" "hm_inv mem nh2"
        "table_size nh' \<le> table_size nh2" "hm_map mem m2 \<subseteq>\<^sub>m hm_map mem m'"
        "r2 = 0 \<and> hm_map mem nh2 = hm_map mem m' ++ hm_map mem nh' \<or> r2 = 1"
        using Suc.IH [OF m'(1) r(2), of "Suc i"] Suc.prems(4) m'(3,4) by auto
      have "hm_map mem m' ++ hm_map mem nh' = hm_map mem m ++ hm_map mem nh"
        using r(4) r0 m'(2) me Suc.prems(6) by (auto simp: map_add_def fun_eq_iff split: option.splits)
      moreover have "hm_map mem m2 \<subseteq>\<^sub>m hm_map mem m"
        using 2(6) m'(2) by (auto simp: map_le_def split: if_splits)
      ultimately show ?thesis using 2 r(3) step by auto
    qed
  qed
qed

lemma rehash_helper_spec:
  assumes put: "0 < 2 * table_size m \<Longrightarrow> put_meets mem (2 * table_size m) put" and inv: "hm_inv mem m"
  shows "\<exists>r m'. hashmap_rehash_helper put calloc_ok m = Some (r, m') \<and> hm_inv mem m' \<and>
     (r = 0 \<and> hm_map mem m' = hm_map mem m \<and> 2 * table_size m \<le> table_size m' \<and>
        0 < 2 * table_size m \<or>
      r = 1 \<and> hm_map mem m' \<subseteq>\<^sub>m hm_map mem m \<and> table_size m' = table_size m)"
proof -
  obtain flag nh where c: "hashmap_create calloc_ok (2 * table_size m) = (flag, nh)"
    by fastforce
  show ?thesis
  proof (cases "(\<exists>j<32. 2 * table_size m = 2 ^ j) \<and> calloc_ok (2 * table_size m)")
    case False
    then have "flag = 1" using create_fails [of "2 * table_size m" calloc_ok] c by simp
    then show ?thesis using c inv by (simp add: hashmap_rehash_helper_def)
  next
    case True
    then obtain j where j: "j < 32" "2 * table_size m = 2 ^ j" "calloc_ok (2 * table_size m)" by blast
    then have nh: "flag = 0" "hm_inv mem nh" "hm_map mem nh = Map.empty"
      using create_ok [of j "2 * table_size m" calloc_ok] c by simp_all
    have ts: "table_size nh = 2 * table_size m"
      using create_table_size [of calloc_ok "2 * table_size m"] c by simp
    have pos: "0 < 2 * table_size m" using hm_invD(2) [OF nh(2)] ts by simp
    have *: "0 + unat (table_size m) = length (mdata m)" using hm_invD(1) [OF inv] by simp
    obtain r nh' m' where "iterate_pairs_from (unat (table_size m)) 0 (hashmap_rehash_iterator put) nh m
          = Some (r, nh', m')" "hm_inv mem m'" "table_size m' = table_size m" "hm_inv mem nh'"
      "table_size nh \<le> table_size nh'" "hm_map mem m' \<subseteq>\<^sub>m hm_map mem m"
      "r = 0 \<and> hm_map mem nh' = hm_map mem m ++ hm_map mem nh \<or> r = 1"
      using rehash_loop [OF put [OF pos] inv nh(2) _ *] ts nh(3) by auto
    then show ?thesis using c nh ts pos
      by (auto simp: hashmap_rehash_helper_def hashmap_iterate_pairs_def)
  qed
qed

lemma put_write:
  assumes inv: "hm_inv mem m" and c: "hashmap_hash_helper mem m k len = Some (Some c)"
    and fuel: "fuel \<noteq> 0"
  shows "put_result mem m k len v (hashmap_put_fuel fuel calloc_ok mem m k len v)"
proof -
  obtain f where f: "fuel = Suc f" using fuel not0_implies_Suc by blast
  let ?e = "\<lparr>key = k, key_len = len, in_use = 1, el_data = v\<rparr>"
  have b: "key_bytes mem ?e = bytes_at mem k len" by (simp add: key_bytes_def)
  show ?thesis
  proof (rule hash_helper_cases [OF inv, of k len], goal_cases full found free)
    case full
    then show ?case using c by simp
  next
    case (found c')
    then have "in_use (mdata m ! unat c) = 1"
      using c hm_invD(4) [OF inv, of "unat c"] by (auto simp: used_def)
    then show ?case using found c f hm_write_slot [OF inv, of "unat c" "set_elem m c ?e" ?e] b
      by (auto simp: put_result_def set_elem_def)
  next
    case (free c')
    let ?m' = "(set_elem m c ?e)\<lparr>msize := msize m + 1\<rparr>"
    have "hm_inv mem ?m'" "hm_map mem ?m' = (hm_map mem m)(bytes_at mem k len \<mapsto> v)"
      using hm_write_slot [OF inv, of "unat c" ?m' ?e] free c b by (simp_all add: set_elem_def)
    then show ?case using free c f by (simp add: put_result_def used_def set_elem_def)
  qed
qed

text \<open>Each nested or repeated attempt works on a table at least twice as large, so a fuel of
  32 minus the exponent of the table size is enough.\<close>

lemma table_exponent:
  assumes "hm_inv mem m" "j < 32" "2 ^ j \<le> table_size m"
  obtains j' where "j \<le> j'" "j' < 32" "table_size m = 2 ^ j'"
proof -
  obtain j' where j': "j' < 32" "table_size m = 2 ^ j'" using assms(1) by (auto simp: hm_inv_def)
  have "(2 :: nat) ^ j \<le> 2 ^ j'"
    using assms(2,3) j' by (simp add: word_le_nat_alt unat_power2)
  then have "j \<le> j'" by simp
  then show thesis using that j' by blast
qed

lemma put_fuel_enough:
  "hm_inv mem m \<Longrightarrow> j < 32 \<Longrightarrow> 2 ^ j \<le> table_size m \<Longrightarrow> 32 \<le> fuel + j \<Longrightarrow>
   put_result mem m k len v (hashmap_put_fuel fuel calloc_ok mem m k len v)"
proof (induction fuel arbitrary: m j k len v)
  case (Suc f)
  obtain j' where j': "j \<le> j'" "j' < 32" "table_size m = 2 ^ j'"
    by (rule table_exponent [OF Suc.prems(1-3)])
  let ?put = "hashmap_put_fuel f calloc_ok mem"
  have larger: "put_result mem m' k len v (?put m' k len v)"
    if "hm_inv mem m'" "0 < 2 * table_size m" "2 * table_size m \<le> table_size m'" for m' k len v
  proof -
    have eq: "2 * table_size m = 2 ^ Suc j'" using j' by simp
    have "Suc j' < 32"
    proof (rule ccontr)
      assume "\<not> Suc j' < 32"
      then have "j' = 31" using j'(2) by simp
      then show False using that(2) eq by simp
    qed
    then show ?thesis using Suc.IH [OF that(1), of "Suc j'"] that(3) eq Suc.prems(4) j'(1) by simp
  qed
  have "put_meets mem (2 * table_size m) ?put" if "0 < 2 * table_size m"
    unfolding put_meets_def using larger that by blast
  from rehash_helper_spec [OF this Suc.prems(1), of calloc_ok]
  obtain r m' where r: "hashmap_rehash_helper ?put calloc_ok m = Some (r, m')" "hm_inv mem m'"
    "r = 0 \<and> hm_map mem m' = hm_map mem m \<and> 2 * table_size m \<le> table_size m' \<and> 0 < 2 * table_size m \<or>
     r = 1 \<and> hm_map mem m' \<subseteq>\<^sub>m hm_map mem m \<and> table_size m' = table_size m"
    by blast
  show ?case
  proof (cases "hashmap_hash_helper mem m k len = Some None")
    case False
    then obtain c where "hashmap_hash_helper mem m k len = Some (Some c)"
      by (rule_tac hash_helper_cases [OF Suc.prems(1), of k len]) auto
    then show ?thesis by (rule put_write [OF Suc.prems(1)]) simp
  next
    case full: True
    show ?thesis
    proof (cases "r = 0")
      case False
      then have "hashmap_put_fuel (Suc f) calloc_ok mem m k len v = Some (1, m')"
        using full r by simp
      then show ?thesis using r False by (simp add: put_result_def)
    next
      case True
      then have "put_result mem m' k len v (?put m' k len v)" using larger r by simp
      moreover have "hashmap_put_fuel (Suc f) calloc_ok mem m k len v = ?put m' k len v"
        using full r True by simp
      moreover have "table_size m \<le> table_size m'"
      proof -
        have "table_size m \<le> 2 * table_size m"
        proof (cases "j' = 31")
          case False
          then have "(2 :: u32) ^ Suc j' = 2 * 2 ^ j'" "Suc j' < 32" using j'(2) by simp_all
          then have "(2 ^ j' :: u32) \<le> 2 ^ Suc j'"
            using j'(2) unat_power2 [of j'] unat_power2 [of "Suc j'"] by (simp only: word_le_nat_alt) simp
          then show ?thesis using j'(3) by simp
        qed (use r True j' in simp)
        then show ?thesis using r(3) True by (auto intro: order_trans)
      qed
      ultimately show ?thesis using r True unfolding put_result_def by (auto intro: order_trans)
    qed
  qed
qed simp

lemma put_correct:
  assumes "hm_inv mem m"
  shows "put_result mem m k len v (hashmap_put calloc_ok mem m k len v)"
proof -
  have "1 \<le> table_size m" using hm_invD(2) [OF assms] by (simp add: word_le_nat_alt word_less_nat_alt)
  then show ?thesis unfolding hashmap_put_def by (intro put_fuel_enough [OF assms, of 0]) simp_all
qed

text \<open>C8: \<open>hashmap_put\<close> always returns (the chain of rehashes ends: the fuel is never used up),
  never leaves the table, and keeps the map valid. When it returns 0 the map has gained exactly
  the new entry; when it returns 1 no entry has been changed or invented, but entries may be
  lost.\<close>

theorem hashmap_put_correct:
  assumes "hm_inv mem m"
  shows "\<exists>r m'. hashmap_put calloc_ok mem m k len v = Some (r, m') \<and> hm_inv mem m' \<and>
    (r = 0 \<and> hm_map mem m' = (hm_map mem m)(bytes_at mem k len \<mapsto> v) \<or>
     r = 1 \<and> hm_map mem m' \<subseteq>\<^sub>m hm_map mem m)"
  using put_correct [OF assms, of k len v calloc_ok] unfolding put_result_def by blast

subsection \<open>Iteration\<close>

text \<open>Handing the data of a list of elements to a callback until one call returns 0.\<close>

fun visit :: "('c \<Rightarrow> ptr \<Rightarrow> int \<times> 'c) \<Rightarrow> 'c \<Rightarrow> ptr list \<Rightarrow> int \<times> 'c" where
  "visit g ctx [] = (0, ctx)"
| "visit g ctx (d # ds) =
     (let (r, ctx') = g ctx d in if r = 0 then (1, ctx') else visit g ctx' ds)"

lemma iterate_from_visit:
  assumes inv: "hm_inv mem m"
  shows "i + n = length (mdata m) \<Longrightarrow>
    iterate_from n i (\<lambda>c d. Some (g c d)) ctx m
    = Some (visit g ctx (map el_data (filter used (drop i (mdata m)))))"
proof (induction n arbitrary: i ctx)
  case (Suc n)
  then have i: "i < length (mdata m)" by simp
  have d: "drop i (mdata m) = mdata m ! i # drop (Suc i) (mdata m)"
    using i by (rule Cons_nth_drop_Suc [symmetric])
  show ?case using Suc.IH [of "Suc i"] Suc.prems elem_at_nat(1) [OF inv i]
    unfolding d by (simp add: used_def split: prod.splits)
qed simp

text \<open>\<open>hashmap_iterate\<close> calls back with the data of every entry exactly once, in slot order,
  until a call returns 0, and then returns 1; it never reads outside the table.\<close>

theorem hashmap_iterate_visits_entries:
  assumes "hm_inv mem m"
  shows "hashmap_iterate m (\<lambda>c d. Some (g c d)) ctx =
    Some (visit g ctx (map el_data (filter used (mdata m))))"
  using iterate_from_visit [OF assms, of 0 "unat (table_size m)" g ctx] hm_invD(1) [OF assms]
  by (simp add: hashmap_iterate_def)

subsection \<open>Sequences of operations\<close>

text \<open>The map meets the contract of a keyed store, with \<open>(pointer, length)\<close> pairs as keys and
  the bytes they point to as their contents.\<close>

definition hm_put :: "(u32 \<Rightarrow> bool) \<Rightarrow> mem \<Rightarrow> ptr \<times> u32 \<Rightarrow> ptr \<Rightarrow> hashmap_s \<Rightarrow> hashmap_s option" where
  "hm_put calloc_ok mem k v m =
     (case hashmap_put calloc_ok mem m (fst k) (snd k) v of
        None \<Rightarrow> None | Some (r, m') \<Rightarrow> if r = 0 then Some m' else None)"

definition hm_remove :: "mem \<Rightarrow> ptr \<times> u32 \<Rightarrow> hashmap_s \<Rightarrow> hashmap_s option" where
  "hm_remove mem k m = map_option snd (hashmap_remove mem m (fst k) (snd k))"

interpretation hm: keyed_store "hm_inv mem" "hm_map mem" "\<lambda>k. bytes_at mem (fst k) (snd k)"
    "hm_put calloc_ok mem" "hm_remove mem" for calloc_ok mem
proof
  fix k m v m'
  assume inv: "hm_inv mem m" and m': "hm_put calloc_ok mem k v m = Some m'"
  then show "hm_inv mem m'" "hm_map mem m' = (hm_map mem m)(bytes_at mem (fst k) (snd k) \<mapsto> v)"
    using put_correct [OF inv, of "fst k" "snd k" v calloc_ok]
    by (auto simp: put_result_def hm_put_def split: if_splits)
next
  fix k m
  assume "hm_inv mem m"
  then show "\<exists>m'. hm_remove mem k m = Some m' \<and> hm_inv mem m' \<and>
      hm_map mem m' = (hm_map mem m)(bytes_at mem (fst k) (snd k) := None)"
    using remove_correct [of mem m "fst k" "snd k"] by (auto simp: hm_remove_def)
qed

text \<open>After any successful sequence of insertions and removals, looking a key up gives the
  data of the last insertion under the same bytes, however often the table was rehashed.\<close>

theorem hashmap_last_put_wins:
  assumes "hm_inv mem m"
    and "run_ops (hm_put calloc_ok mem) (hm_remove mem) (xs @ Put (k, len) v # ys) m = Some m'"
    and "bytes_at mem k len \<notin> keys_touched (\<lambda>k. bytes_at mem (fst k) (snd k)) ys"
  shows "hashmap_get mem m' k len = Some v"
proof -
  have "hm_inv mem m'" using hm.run_ops_refines [OF assms(1,2)] by simp
  moreover have "hm_map mem m' (bytes_at mem k len) = Some v"
    using hm.last_put_wins [OF assms(1,2)] assms(3) by simp
  ultimately show ?thesis by (simp add: get_correct)
qed

subsection \<open>Concrete tables\<close>

text \<open>A memory in which every address holds its own low byte, and a table of 16 slots.\<close>

definition low_byte_mem :: mem where
  "low_byte_mem a = ucast a"

definition map16 :: hashmap_s where
  "map16 = snd (hashmap_create (\<lambda>n. n < 64) 16)"

lemma map16_valid: "hm_inv low_byte_mem map16"
  unfolding map16_def by (rule create_ok [of 4]) simp_all

definition small_calloc :: "u32 \<Rightarrow> bool" where
  "small_calloc n \<longleftrightarrow> n < 64"

definition put_all :: "((ptr \<times> u32) \<times> ptr) list \<Rightarrow> hashmap_s \<Rightarrow> hashmap_s option" where
  "put_all xs m = run_ops (hm_put small_calloc low_byte_mem) (hm_remove low_byte_mem)
     (map (\<lambda>(k, v). Put k v) xs) m"

definition map1 :: hashmap_s where
  "map1 = the (put_all [((7, 1), 99)] map16)"

lemma map1_put: "put_all [((7, 1), 99)] map16 = Some map1"
  by code_simp

lemma map1_valid: "hm_inv low_byte_mem map1"
  using hm.run_ops_refines [OF map16_valid map1_put [unfolded put_all_def]] by simp

lemma map1_entry: "hm_map low_byte_mem map1 (bytes_at low_byte_mem 263 1) = Some 99"
  by code_simp

text \<open>The properties at this table; address 263 holds the same byte as address 7.\<close>

theorem hashmap_get_correct_witness: "hashmap_get low_byte_mem map1 263 1 = Some 99"
  using hashmap_get_correct [OF map1_valid, of 263 1] map1_entry by simp

theorem hashmap_remove_correct_witness:
  "\<exists>m'. hashmap_remove low_byte_mem map1 263 1 = Some (0, m') \<and> hm_inv low_byte_mem m'"
  using hashmap_remove_correct [OF map1_valid, of 263 1] map1_entry by auto

theorem hashmap_remove_and_return_key_correct_witness:
  "\<exists>p m'. hashmap_remove_and_return_key low_byte_mem map1 263 1 = Some (p, m') \<and>
     low_byte_mem p = 7 \<and> hm_inv low_byte_mem m'"
  using hashmap_remove_and_return_key_correct [OF map1_valid, of 263 1] map1_entry
  by (auto simp: bytes_at_def low_byte_mem_def)

theorem hashmap_put_correct_witness:
  "\<exists>r m'. hashmap_put small_calloc low_byte_mem map1 263 1 5 = Some (r, m') \<and>
     hm_inv low_byte_mem m'"
  using hashmap_put_correct [OF map1_valid, of small_calloc 263 1 5] by blast

lemma map1_ops:
  "\<exists>m'. run_ops (hm_put small_calloc low_byte_mem) (hm_remove low_byte_mem)
     ([Put (9, 1) 3] @ Put (263, 1) 4 # [Remove (9, 1), Put (8, 2) 6]) map1 = Some m'"
proof -
  have "\<not> Option.is_none (run_ops (hm_put small_calloc low_byte_mem) (hm_remove low_byte_mem)
     ([Put (9, 1) 3] @ Put (263, 1) 4 # [Remove (9, 1), Put (8, 2) 6]) map1)"
    by code_simp
  then show ?thesis by (simp add: Option.is_none_def)
qed

theorem hashmap_last_put_wins_witness:
  "\<exists>m'. run_ops (hm_put small_calloc low_byte_mem) (hm_remove low_byte_mem)
     ([Put (9, 1) 3] @ Put (263, 1) 4 # [Remove (9, 1), Put (8, 2) 6]) map1 = Some m' \<and>
     hashmap_get low_byte_mem m' 263 1 = Some 4"
proof -
  have "bytes_at low_byte_mem 263 1 \<notin> keys_touched (\<lambda>k. bytes_at low_byte_mem (fst k) (snd k))
      [Remove (9, 1), Put (8, 2) 6]"
    by code_simp
  then show ?thesis using hashmap_last_put_wins [OF map1_valid] map1_ops by blast
qed

text \<open>Eight two-byte keys with home 8 and one with home 9 in a table of 32 slots; in a table
  of 16 slots all nine fit, and the tenth key has home 8 there.\<close>

definition crowded :: "((ptr \<times> u32) \<times> ptr) list" where
  "crowded = map (\<lambda>a. ((a, 2), 1)) [1, 33, 91, 101, 109, 158, 202, 211, 85]"

definition entry2 :: "ptr \<Rightarrow> hashmap_element_s" where
  "entry2 a = \<lparr>key = a, key_len = 2, in_use = 1, el_data = 1\<rparr>"

definition map9 :: hashmap_s where
  "map9 = \<lparr>table_size = 16, msize = 9,
     mdata = entry2 85 # replicate 7 zero_element @ map entry2 [1, 33, 91, 101, 109, 158, 202, 211]\<rparr>"

definition map9_after :: hashmap_s where
  "map9_after = \<lparr>table_size = 16, msize = 1, mdata = replicate 15 zero_element @ [entry2 211]\<rparr>"

lemma map9_reached: "put_all crowded map16 = Some map9"
  by code_simp

lemma map9_valid: "hm_inv low_byte_mem map9"
  using hm.run_ops_refines [OF map16_valid] map9_reached by (simp add: put_all_def)

theorem hashmap_iterate_visits_entries_witness:
  "hashmap_iterate map9 (\<lambda>c d. Some (if c < 2 then 1 else 0, c + 1)) (0 :: nat) = Some (1, 3)"
proof -
  have "map el_data (filter used (mdata map9)) = replicate 9 1" by code_simp
  then show ?thesis
    using hashmap_iterate_visits_entries [OF map9_valid, of "\<lambda>c d. (if c < 2 then 1 else 0, c + 1)" "0 :: nat"]
    by (simp add: numeral_eq_Suc Let_def)
qed

text \<open>A failing \<open>hashmap_put\<close> can lose entries. The rehash empties the old table while it
  fills the new one, and when the new table needs to grow again and no memory is left, it
  returns without putting the moved entries back: here eight of nine entries are gone.\<close>

theorem hashmap_put_failure_loses_entries:
  "hm_inv low_byte_mem map9 \<and> hashmap_num_entries map9 = 9 \<and>
   hashmap_put small_calloc low_byte_mem map9 24 2 1 = Some (1, map9_after) \<and>
   hashmap_num_entries map9_after = 1 \<and>
   hashmap_get low_byte_mem map9 1 2 = Some 1 \<and> hashmap_get low_byte_mem map9_after 1 2 = Some 0"
proof (intro conjI)
  show "hm_inv low_byte_mem map9" by (rule map9_valid)
  show "hashmap_num_entries map9 = 9" by code_simp
  show "hashmap_put small_calloc low_byte_mem map9 24 2 1 = Some (1, map9_after)" by code_simp
  show "hashmap_num_entries map9_after = 1" by code_simp
  show "hashmap_get low_byte_mem map9 1 2 = Some 1" by code_simp
  show "hashmap_get low_byte_mem map9_after 1 2 = Some 0" by code_simp
qed

end
