(* ===== verification/Crc32c.thy ===== *)
theory Crc32c
  imports Hashmap
begin

text \<open>
  The checksum of the hash map (\<open>hashmap_crc32_helper\<close>): the 256-entry table and its byte-wise
  loop compute the bit-by-bit CRC with the reflected Castagnoli polynomial, the function of the
  \<open>crc32\<close> instruction that the code uses instead where SSE 4.2 is there.
\<close>

definition crc32c_bit :: "u32 \<Rightarrow> u32" where
  "crc32c_bit c = (if bit c 0 then drop_bit 1 c XOR 0x82F63B78 else drop_bit 1 c)"

primrec crc32c_bits :: "nat \<Rightarrow> u32 \<Rightarrow> u32" where
  "crc32c_bits 0 c = c"
| "crc32c_bits (Suc n) c = crc32c_bits n (crc32c_bit c)"

definition crc32c_byte :: "u32 \<Rightarrow> u8 \<Rightarrow> u32" where
  "crc32c_byte c b = crc32c_bits 8 (c XOR ucast b)"

lemma crc32c_bit_xor: "crc32c_bit (a XOR b) = crc32c_bit a XOR crc32c_bit b"
proof (rule bit_word_eqI)
  fix n assume "n < LENGTH(32)"
  then show "bit (crc32c_bit (a XOR b)) n = bit (crc32c_bit a XOR crc32c_bit b) n"
    by (auto simp: crc32c_bit_def bit_simps)
qed

lemma crc32c_bits_xor: "crc32c_bits n (a XOR b) = crc32c_bits n a XOR crc32c_bits n b"
  by (induction n arbitrary: a b) (simp_all add: crc32c_bit_xor)

lemma crc32c_bits_high:
  "\<forall>i<n. \<not> bit c i \<Longrightarrow> crc32c_bits n c = drop_bit n c"
proof (induction n arbitrary: c)
  case (Suc n)
  then have "crc32c_bit c = drop_bit 1 c" by (simp add: crc32c_bit_def)
  moreover have "\<forall>i<n. \<not> bit (drop_bit 1 c) i" using Suc.prems by (simp add: bit_drop_bit_eq)
  ultimately show ?case using Suc.IH [of "drop_bit 1 c"] by simp
qed simp

lemma crc32c_bits_commute: "crc32c_bits n (crc32c_bit c) = crc32c_bit (crc32c_bits n c)"
  by (induction n arbitrary: c) simp_all

lemma inj_crc32c_bit: "crc32c_bit a = crc32c_bit b \<Longrightarrow> a = b"
proof -
  assume eq: "crc32c_bit a = crc32c_bit b"
  have top: "bit (crc32c_bit c) 31 = bit c 0" for c
    by (simp add: crc32c_bit_def bit_simps) 
  then have low: "bit a 0 = bit b 0" using eq by metis
  then have "drop_bit 1 a = drop_bit 1 b" using eq by (simp add: crc32c_bit_def split: if_splits)
  then have "bit a (Suc n) = bit b (Suc n)" for n
    by (metis bit_drop_bit_eq comp_apply plus_1_eq_Suc)
  then have "bit a n = bit b n" for n using low by (cases n) auto
  then show "a = b" by (simp add: bit_eq_iff)
qed

text \<open>The table is determined by its entries 0 and 1: one bit step leads from the entry of
  \<open>2 * j\<close> to that of \<open>j\<close>, and the entry of \<open>2 * j + 1\<close> differs from that of \<open>2 * j\<close> by the
  entry of 1.\<close>

fun halves :: "u32 list \<Rightarrow> u32 list \<Rightarrow> bool" where
  "halves (t # ts) (e # d # xs) \<longleftrightarrow>
     crc32c_bit e = t \<and> d = e XOR 0xF26B8303 \<and> halves ts xs"
| "halves _ xs \<longleftrightarrow> xs = []"

lemma halves_nth:
  "halves ts xs \<Longrightarrow> 2 * j + 1 < length xs \<Longrightarrow>
   crc32c_bit (xs ! (2 * j)) = ts ! j \<and> xs ! (2 * j + 1) = xs ! (2 * j) XOR 0xF26B8303"
proof (induction ts xs arbitrary: j rule: halves.induct)
  case (1 t ts e d xs)
  then show ?case by (cases j) auto
qed simp_all

lemma crc32_tab_halves: "halves crc32_tab crc32_tab"
  by code_simp

lemma crc32_tab_0_1: "crc32_tab ! 0 = 0" "crc32_tab ! 1 = crc32c_bits 8 1" "length crc32_tab = 256"
  "crc32c_bits 8 1 = 0xF26B8303"
  by code_simp+

lemma crc32_tab_rows: "i < 256 \<Longrightarrow> crc32_tab ! i = crc32c_bits 8 (word_of_nat i)"
proof (induction i rule: less_induct)
  case (less i)
  define j where "j = i div 2"
  have j: "2 * j + 1 < length crc32_tab" using less.prems unfolding j_def crc32_tab_0_1(3) by presburger
  note h = halves_nth [OF crc32_tab_halves j]
  have even: "crc32_tab ! (2 * j) = crc32c_bits 8 (word_of_nat (2 * j))"
  proof (cases "j = 0")
    case True
    then show ?thesis using crc32_tab_0_1(1) crc32c_bits_high [of 8 0] by simp
  next
    case False
    then have "j < i" "j < 256" using less.prems by (simp_all add: j_def)
    then have "crc32c_bit (crc32_tab ! (2 * j)) = crc32c_bits 8 (word_of_nat j)"
      using h less.IH by simp
    also have "word_of_nat j = crc32c_bit (word_of_nat (2 * j))"
    proof -
      have "\<not> bit (word_of_nat (2 * j) :: u32) 0" by (simp add: bit_0)
      moreover have "drop_bit 1 (word_of_nat (2 * j) :: u32) = word_of_nat j"
      proof (rule word_unat_eq_iff [THEN iffD2])
        have "unat (word_of_nat (2 * j) :: u32) = 2 * j"
          using \<open>j < 256\<close> by (simp add: unsigned_of_nat take_bit_nat_eq_self del: of_nat_mult)
        moreover have "unat (word_of_nat j :: u32) = j"
          using \<open>j < 256\<close> by (simp add: unsigned_of_nat take_bit_nat_eq_self)
        ultimately show "unat (drop_bit 1 (word_of_nat (2 * j) :: u32)) = unat (word_of_nat j :: u32)"
          using \<open>j < 256\<close> by (simp only: unsigned_drop_bit_eq) (simp add: drop_bit_eq_div take_bit_nat_eq_self)
      qed
      ultimately show ?thesis by (simp add: crc32c_bit_def)
    qed
    finally show ?thesis using inj_crc32c_bit by (simp add: crc32c_bits_commute)
  qed
  show ?case
  proof (cases "i = 2 * j")
    case False
    then have i: "i = 2 * j + 1" by (simp add: j_def)
    have "(word_of_nat i :: u32) = word_of_nat (2 * j) XOR 1"
      by (simp add: i xor_one_eq)
    then show ?thesis using h even crc32_tab_0_1(4) i by (simp add: crc32c_bits_xor)
  qed (use even in simp)
qed

lemma crc32_tab_byte: "crc32_tab ! unat (b :: u8) = crc32c_bits 8 (ucast b)"
  using crc32_tab_rows [of "unat b"] unat_u8_less [of b] by simp

lemma crc32c_byte_eq_table:
  "crc32_tab ! unat (ucast c XOR b :: u8) XOR drop_bit 8 c = crc32c_byte c b"
proof -
  let ?low = "ucast (ucast c XOR b :: u8) :: u32" and ?high = "push_bit 8 (drop_bit 8 c)"
  have "c XOR ucast b = ?low XOR ?high"
  proof (rule bit_word_eqI)
    fix n assume "n < LENGTH(32)"
    then show "bit (c XOR ucast b) n = bit (?low XOR ?high) n"
      by (cases "n < 8") (auto simp: bit_simps)
  qed
  moreover have "crc32c_bits 8 ?high = drop_bit 8 ?high"
    by (rule crc32c_bits_high) (auto simp: bit_simps)
  moreover have "drop_bit 8 ?high = drop_bit 8 c"
  proof (rule bit_word_eqI)
    fix n assume "n < LENGTH(32)"
    then show "bit (drop_bit 8 ?high) n = bit (drop_bit 8 c) n"
      by (auto simp: bit_simps dest: bit_imp_le_length)
  qed
  ultimately show ?thesis by (simp add: crc32c_byte_def crc32c_bits_xor crc32_tab_byte)
qed

text \<open>The table-driven checksum is the bit-by-bit CRC-32C of the key bytes.\<close>

theorem hashmap_crc32_is_crc32c:
  "hashmap_crc32_helper s = foldl crc32c_byte 0 s"
  unfolding hashmap_crc32_helper_def crc32c_byte_eq_table by (simp add: foldl_conv_fold)

end
