(* ===== verification/Zend_Cfg.thy ===== *)
theory Zend_Cfg
  imports C_Prelude "HOL-Library.Monad_Syntax"
begin

text \<open>
  The control flow graph builder of \<open>pcov-patched/cfg/704/zend_cfg.c\<close>, with which the agent
  decides what code can run at all. Arrays are lists; an access outside an array, a misaligned
  jump offset and a violated \<open>ZEND_ASSERT\<close> are undefined behaviour in C and \<open>None\<close> here.
\<close>

subsection \<open>Opcodes and flags\<close>

abbreviation (input) ZEND_JMP :: u8 where "ZEND_JMP \<equiv> 42"
abbreviation (input) ZEND_JMPZ :: u8 where "ZEND_JMPZ \<equiv> 43"
abbreviation (input) ZEND_JMPNZ :: u8 where "ZEND_JMPNZ \<equiv> 44"
abbreviation (input) ZEND_JMPZNZ :: u8 where "ZEND_JMPZNZ \<equiv> 45"
abbreviation (input) ZEND_JMPZ_EX :: u8 where "ZEND_JMPZ_EX \<equiv> 46"
abbreviation (input) ZEND_JMPNZ_EX :: u8 where "ZEND_JMPNZ_EX \<equiv> 47"
abbreviation (input) ZEND_DO_FCALL :: u8 where "ZEND_DO_FCALL \<equiv> 60"
abbreviation (input) ZEND_INIT_FCALL :: u8 where "ZEND_INIT_FCALL \<equiv> 61"
abbreviation (input) ZEND_RETURN :: u8 where "ZEND_RETURN \<equiv> 62"
abbreviation (input) ZEND_RECV :: u8 where "ZEND_RECV \<equiv> 63"
abbreviation (input) ZEND_RECV_INIT :: u8 where "ZEND_RECV_INIT \<equiv> 64"
abbreviation (input) ZEND_NEW :: u8 where "ZEND_NEW \<equiv> 68"
abbreviation (input) ZEND_INIT_NS_FCALL_BY_NAME :: u8 where "ZEND_INIT_NS_FCALL_BY_NAME \<equiv> 69"
abbreviation (input) ZEND_FREE :: u8 where "ZEND_FREE \<equiv> 70"
abbreviation (input) ZEND_INCLUDE_OR_EVAL :: u8 where "ZEND_INCLUDE_OR_EVAL \<equiv> 73"
abbreviation (input) ZEND_UNSET_VAR :: u8 where "ZEND_UNSET_VAR \<equiv> 74"
abbreviation (input) ZEND_FE_RESET_R :: u8 where "ZEND_FE_RESET_R \<equiv> 77"
abbreviation (input) ZEND_FE_FETCH_R :: u8 where "ZEND_FE_FETCH_R \<equiv> 78"
abbreviation (input) ZEND_EXIT :: u8 where "ZEND_EXIT \<equiv> 79"
abbreviation (input) ZEND_FETCH_R :: u8 where "ZEND_FETCH_R \<equiv> 80"
abbreviation (input) ZEND_FETCH_W :: u8 where "ZEND_FETCH_W \<equiv> 83"
abbreviation (input) ZEND_FETCH_RW :: u8 where "ZEND_FETCH_RW \<equiv> 86"
abbreviation (input) ZEND_FETCH_IS :: u8 where "ZEND_FETCH_IS \<equiv> 89"
abbreviation (input) ZEND_FETCH_FUNC_ARG :: u8 where "ZEND_FETCH_FUNC_ARG \<equiv> 92"
abbreviation (input) ZEND_FETCH_UNSET :: u8 where "ZEND_FETCH_UNSET \<equiv> 95"
abbreviation (input) ZEND_EXT_STMT :: u8 where "ZEND_EXT_STMT \<equiv> 101"
abbreviation (input) ZEND_EXT_FCALL_BEGIN :: u8 where "ZEND_EXT_FCALL_BEGIN \<equiv> 102"
abbreviation (input) ZEND_EXT_FCALL_END :: u8 where "ZEND_EXT_FCALL_END \<equiv> 103"
abbreviation (input) ZEND_EXT_NOP :: u8 where "ZEND_EXT_NOP \<equiv> 104"
abbreviation (input) ZEND_CATCH :: u8 where "ZEND_CATCH \<equiv> 107"
abbreviation (input) ZEND_THROW :: u8 where "ZEND_THROW \<equiv> 108"
abbreviation (input) ZEND_RETURN_BY_REF :: u8 where "ZEND_RETURN_BY_REF \<equiv> 111"
abbreviation (input) ZEND_ISSET_ISEMPTY_VAR :: u8 where "ZEND_ISSET_ISEMPTY_VAR \<equiv> 114"
abbreviation (input) ZEND_FE_RESET_RW :: u8 where "ZEND_FE_RESET_RW \<equiv> 125"
abbreviation (input) ZEND_FE_FETCH_RW :: u8 where "ZEND_FE_FETCH_RW \<equiv> 126"
abbreviation (input) ZEND_FE_FREE :: u8 where "ZEND_FE_FREE \<equiv> 127"
abbreviation (input) ZEND_DO_ICALL :: u8 where "ZEND_DO_ICALL \<equiv> 129"
abbreviation (input) ZEND_DO_UCALL :: u8 where "ZEND_DO_UCALL \<equiv> 130"
abbreviation (input) ZEND_DO_FCALL_BY_NAME :: u8 where "ZEND_DO_FCALL_BY_NAME \<equiv> 131"
abbreviation (input) ZEND_GENERATOR_CREATE :: u8 where "ZEND_GENERATOR_CREATE \<equiv> 139"
abbreviation (input) ZEND_ASSERT_CHECK :: u8 where "ZEND_ASSERT_CHECK \<equiv> 151"
abbreviation (input) ZEND_JMP_SET :: u8 where "ZEND_JMP_SET \<equiv> 152"
abbreviation (input) ZEND_YIELD :: u8 where "ZEND_YIELD \<equiv> 160"
abbreviation (input) ZEND_GENERATOR_RETURN :: u8 where "ZEND_GENERATOR_RETURN \<equiv> 161"
abbreviation (input) ZEND_FAST_CALL :: u8 where "ZEND_FAST_CALL \<equiv> 162"
abbreviation (input) ZEND_FAST_RET :: u8 where "ZEND_FAST_RET \<equiv> 163"
abbreviation (input) ZEND_YIELD_FROM :: u8 where "ZEND_YIELD_FROM \<equiv> 166"
abbreviation (input) ZEND_COALESCE :: u8 where "ZEND_COALESCE \<equiv> 169"
abbreviation (input) ZEND_FUNC_GET_ARGS :: u8 where "ZEND_FUNC_GET_ARGS \<equiv> 172"
abbreviation (input) ZEND_SWITCH_LONG :: u8 where "ZEND_SWITCH_LONG \<equiv> 187"
abbreviation (input) ZEND_SWITCH_STRING :: u8 where "ZEND_SWITCH_STRING \<equiv> 188"

abbreviation (input) ZEND_BB_START :: u32 where "ZEND_BB_START \<equiv> 0x1"
abbreviation (input) ZEND_BB_FOLLOW :: u32 where "ZEND_BB_FOLLOW \<equiv> 0x2"
abbreviation (input) ZEND_BB_TARGET :: u32 where "ZEND_BB_TARGET \<equiv> 0x4"
abbreviation (input) ZEND_BB_EXIT :: u32 where "ZEND_BB_EXIT \<equiv> 0x8"
abbreviation (input) ZEND_BB_ENTRY :: u32 where "ZEND_BB_ENTRY \<equiv> 0x10"
abbreviation (input) ZEND_BB_TRY :: u32 where "ZEND_BB_TRY \<equiv> 0x20"
abbreviation (input) ZEND_BB_CATCH :: u32 where "ZEND_BB_CATCH \<equiv> 0x40"
abbreviation (input) ZEND_BB_FINALLY :: u32 where "ZEND_BB_FINALLY \<equiv> 0x80"
abbreviation (input) ZEND_BB_FINALLY_END :: u32 where "ZEND_BB_FINALLY_END \<equiv> 0x100"
abbreviation (input) ZEND_BB_RECV_ENTRY :: u32 where "ZEND_BB_RECV_ENTRY \<equiv> 0x1000"
abbreviation (input) ZEND_BB_REACHABLE :: u32 where "ZEND_BB_REACHABLE \<equiv> 0x80000000"

abbreviation (input) ZEND_RT_CONSTANTS :: u32 where "ZEND_RT_CONSTANTS \<equiv> 0x80000000"
abbreviation (input) ZEND_CFG_STACKLESS :: u32 where "ZEND_CFG_STACKLESS \<equiv> 0x40000000"
abbreviation (input) ZEND_CFG_NO_ENTRY_PREDECESSORS :: u32 where
  "ZEND_CFG_NO_ENTRY_PREDECESSORS \<equiv> 0x2000000"
abbreviation (input) ZEND_CFG_RECV_ENTRY :: u32 where "ZEND_CFG_RECV_ENTRY \<equiv> 0x1000000"

abbreviation (input) ZEND_FUNC_INDIRECT_VAR_ACCESS :: u32 where "ZEND_FUNC_INDIRECT_VAR_ACCESS \<equiv> 0x1"
abbreviation (input) ZEND_FUNC_HAS_CALLS :: u32 where "ZEND_FUNC_HAS_CALLS \<equiv> 0x2"
abbreviation (input) ZEND_FUNC_VARARG :: u32 where "ZEND_FUNC_VARARG \<equiv> 0x4"
abbreviation (input) ZEND_FUNC_FREE_LOOP_VAR :: u32 where "ZEND_FUNC_FREE_LOOP_VAR \<equiv> 0x20"
abbreviation (input) ZEND_FUNC_HAS_EXTENDED_FCALL :: u32 where "ZEND_FUNC_HAS_EXTENDED_FCALL \<equiv> 0x400"
abbreviation (input) ZEND_FUNC_HAS_EXTENDED_STMT :: u32 where "ZEND_FUNC_HAS_EXTENDED_STMT \<equiv> 0x800"

subsection \<open>Data\<close>

record zend_op =
  opcode :: u8
  op1 :: u32
  op2 :: u32
  extended_value :: u32
  lineno :: u32

record zend_try_catch_element =
  try_op :: u32
  catch_op :: u32
  finally_op :: u32
  finally_end :: u32

text \<open>The constants that the builder looks at: function names and switch tables. A table is
  the list of its elements, each a 64-bit integer.\<close>

datatype zval_const = ConstString string | ConstArray "u64 list" | ConstOther

text \<open>\<open>literals_offset\<close> is the distance in bytes from \<open>opcodes\<close> to \<open>literals\<close>.\<close>

record zend_op_array =
  opcodes :: "zend_op list"
  literals :: "zval_const list"
  literals_offset :: int
  function_name :: "string option"
  try_catch_array :: "zend_try_catch_element list"

record zend_basic_block =
  successors :: "int list"
  flags :: u32
  start :: u32
  len :: u32
  successors_count :: int
  predecessors_count :: int
  predecessor_offset :: int
  idom :: int
  loop_header :: int
  level :: int
  children :: int
  next_child :: int

record zend_cfg =
  blocks_count :: int
  blocks :: "zend_basic_block list"
  cfg_map :: "u32 list"
  cfg_flags :: u32

text \<open>A block as \<open>zend_arena_calloc\<close> leaves it, with its storage for two successors.\<close>

definition zero_block :: zend_basic_block where
  "zero_block = \<lparr>successors = [0, 0], flags = 0, start = 0, len = 0, successors_count = 0,
     predecessors_count = 0, predecessor_offset = 0, idom = 0, loop_header = 0, level = 0,
     children = 0, next_child = 0\<rparr>"

definition initialize_block :: "zend_basic_block \<Rightarrow> zend_basic_block" where
  "initialize_block b = b\<lparr>flags := 0, successors := [0, 0], successors_count := 0,
     predecessors_count := 0, predecessor_offset := -1, idom := -1, loop_header := -1,
     level := -1, children := -1, next_child := -1\<rparr>"

subsection \<open>Jump targets and constants\<close>

text \<open>\<open>OP_JMP_ADDR(opline, node) - opcodes\<close> and \<open>ZEND_OFFSET_TO_OPLINE_NUM\<close>: a jump operand
  is a signed byte distance from the current instruction, and an instruction has 32 bytes.\<close>

definition op_jmp :: "nat \<Rightarrow> u32 \<Rightarrow> int option" where
  "op_jmp i offset = (if sint offset mod 32 = 0 then Some (int i + sint offset div 32) else None)"

text \<open>\<open>CRT_CONSTANT(opline->op2)\<close> as an index into the literals, of 16 bytes each.\<close>

definition crt_constant :: "u32 \<Rightarrow> zend_op_array \<Rightarrow> nat \<Rightarrow> u32 \<Rightarrow> int option" where
  "crt_constant build_flags oa i node =
     (if bits_set build_flags ZEND_RT_CONSTANTS
      then (let bytes = 32 * int i + sint node - literals_offset oa
            in if bytes mod 16 = 0 then Some (bytes div 16) else None)
      else Some (uint node))"

definition zend_cfg_classify_function :: "string \<Rightarrow> u32 \<Rightarrow> u32" where
  "zend_cfg_classify_function name num_args =
     (if name = ''extract'' then ZEND_FUNC_INDIRECT_VAR_ACCESS
      else if name = ''compact'' then ZEND_FUNC_INDIRECT_VAR_ACCESS
      else if name = ''parse_str'' \<and> num_args \<le> 1 then ZEND_FUNC_INDIRECT_VAR_ACCESS
      else if name = ''mb_parse_str'' \<and> num_args \<le> 1 then ZEND_FUNC_INDIRECT_VAR_ACCESS
      else if name = ''get_defined_vars'' then ZEND_FUNC_INDIRECT_VAR_ACCESS
      else if name = ''assert'' then ZEND_FUNC_INDIRECT_VAR_ACCESS
      else if name = ''db2_execute'' then ZEND_FUNC_INDIRECT_VAR_ACCESS
      else if name = ''func_num_args'' then ZEND_FUNC_VARARG
      else if name = ''func_get_arg'' then ZEND_FUNC_VARARG
      else if name = ''func_get_args'' then ZEND_FUNC_VARARG
      else 0)"

subsection \<open>Step 1: where blocks start\<close>

text \<open>\<open>BB_START(i)\<close> counts the references to an instruction; the state is the block map and
  the number of blocks.\<close>

definition BB_START :: "int \<Rightarrow> u32 list \<times> int \<Rightarrow> (u32 list \<times> int) option" where
  "BB_START i = (\<lambda>(block_map, n).
     do { c \<leftarrow> nth_int block_map i;
          Some (block_map[nat i := c + 1], if c = 0 then n + 1 else n) })"

fun bb_starts :: "int list \<Rightarrow> u32 list \<times> int \<Rightarrow> (u32 list \<times> int) option" where
  "bb_starts [] s = Some s"
| "bb_starts (i # is) s = do { s' \<leftarrow> BB_START i s; bb_starts is s' }"

text \<open>The targets of a switch instruction: its jump table, then its default.\<close>

fun jump_table_targets :: "nat \<Rightarrow> u64 list \<Rightarrow> int list option" where
  "jump_table_targets i [] = Some []"
| "jump_table_targets i (v # vs) =
     do { t \<leftarrow> op_jmp i (ucast v); ts \<leftarrow> jump_table_targets i vs; Some (t # ts) }"

definition switch_targets :: "u32 \<Rightarrow> zend_op_array \<Rightarrow> nat \<Rightarrow> zend_op \<Rightarrow> int list option" where
  "switch_targets build_flags oa i opline =
     do { k \<leftarrow> crt_constant build_flags oa i (op2 opline);
          c \<leftarrow> nth_int (literals oa) k;
          case c of
            ConstArray vs \<Rightarrow>
              do { ts \<leftarrow> jump_table_targets i vs;
                   d \<leftarrow> op_jmp i (extended_value opline);
                   Some (ts @ [d]) }
          | _ \<Rightarrow> None }"

text \<open>One pass of the switch of step 1: the function flags it sets and, in order, the
  instructions it marks with \<open>BB_START\<close>. \<open>is_internal\<close> says that the function table has an
  internal function under a name.\<close>

definition cfg_scan_op ::
  "(string \<Rightarrow> bool) \<Rightarrow> u32 \<Rightarrow> zend_op_array \<Rightarrow> nat \<Rightarrow> (u32 \<times> int list) option" where
  "cfg_scan_op is_internal build_flags oa i =
     (let opline = opcodes oa ! i;
          opc = opcode opline;
          follow = int i + 1;
          follow_if_more = (if i + 1 < length (opcodes oa) then [follow] else []);
          follow_if = (\<lambda>flag. if bits_set build_flags flag then [follow] else [])
      in if opc \<in> {ZEND_RECV, ZEND_RECV_INIT} then Some (0, follow_if ZEND_CFG_RECV_ENTRY)
         else if opc \<in> {ZEND_RETURN, ZEND_RETURN_BY_REF, ZEND_GENERATOR_RETURN, ZEND_EXIT, ZEND_THROW}
           then Some (0, follow_if_more)
         else if opc = ZEND_INCLUDE_OR_EVAL
           then Some (ZEND_FUNC_INDIRECT_VAR_ACCESS, follow_if ZEND_CFG_STACKLESS)
         else if opc \<in> {ZEND_GENERATOR_CREATE, ZEND_YIELD, ZEND_YIELD_FROM}
           then Some (0, follow_if ZEND_CFG_STACKLESS)
         else if opc \<in> {ZEND_DO_FCALL, ZEND_DO_UCALL, ZEND_DO_FCALL_BY_NAME}
           then Some (ZEND_FUNC_HAS_CALLS, follow_if ZEND_CFG_STACKLESS)
         else if opc = ZEND_DO_ICALL then Some (ZEND_FUNC_HAS_CALLS, [])
         else if opc \<in> {ZEND_INIT_FCALL, ZEND_INIT_NS_FCALL_BY_NAME}
           then do { k \<leftarrow> crt_constant build_flags oa i (op2 opline);
                     c \<leftarrow> nth_int (literals oa) (if opc = ZEND_INIT_NS_FCALL_BY_NAME then k + 2 else k);
                     case c of
                       ConstString name \<Rightarrow>
                         Some (if is_internal name
                               then zend_cfg_classify_function name (extended_value opline) else 0, [])
                     | _ \<Rightarrow> None }
         else if opc = ZEND_FAST_CALL then do { t \<leftarrow> op_jmp i (op1 opline); Some (0, [t, follow]) }
         else if opc = ZEND_FAST_RET then Some (0, follow_if_more)
         else if opc = ZEND_JMP then do { t \<leftarrow> op_jmp i (op1 opline); Some (0, t # follow_if_more) }
         else if opc = ZEND_JMPZNZ
           then do { t \<leftarrow> op_jmp i (op2 opline); u \<leftarrow> op_jmp i (extended_value opline);
                     Some (0, t # u # follow_if_more) }
         else if opc \<in> {ZEND_JMPZ, ZEND_JMPNZ, ZEND_JMPZ_EX, ZEND_JMPNZ_EX, ZEND_JMP_SET,
                         ZEND_COALESCE, ZEND_ASSERT_CHECK}
           then do { t \<leftarrow> op_jmp i (op2 opline); Some (0, [t, follow]) }
         else if opc = ZEND_CATCH
           then (if bits_set (extended_value opline) 1 then Some (0, [follow])
                 else do { t \<leftarrow> op_jmp i (op2 opline); Some (0, [t, follow]) })
         else if opc \<in> {ZEND_FE_FETCH_R, ZEND_FE_FETCH_RW}
           then do { t \<leftarrow> op_jmp i (extended_value opline); Some (0, [t, follow]) }
         else if opc \<in> {ZEND_FE_RESET_R, ZEND_FE_RESET_RW}
           then do { t \<leftarrow> op_jmp i (op2 opline); Some (0, [t, follow]) }
         else if opc \<in> {ZEND_SWITCH_LONG, ZEND_SWITCH_STRING}
           then do { ts \<leftarrow> switch_targets build_flags oa i opline; Some (0, ts @ [follow]) }
         else if opc \<in> {ZEND_FETCH_R, ZEND_FETCH_W, ZEND_FETCH_RW, ZEND_FETCH_FUNC_ARG,
                         ZEND_FETCH_IS, ZEND_FETCH_UNSET, ZEND_UNSET_VAR, ZEND_ISSET_ISEMPTY_VAR}
           then Some (if bits_set (extended_value opline) 4 then ZEND_FUNC_INDIRECT_VAR_ACCESS
                      else if bits_set (extended_value opline) 0xA \<and> function_name oa = None
                        then ZEND_FUNC_INDIRECT_VAR_ACCESS
                      else 0, [])
         else if opc = ZEND_FUNC_GET_ARGS then Some (ZEND_FUNC_VARARG, [])
         else if opc \<in> {ZEND_EXT_NOP, ZEND_EXT_STMT} then Some (ZEND_FUNC_HAS_EXTENDED_STMT, [])
         else if opc \<in> {ZEND_EXT_FCALL_BEGIN, ZEND_EXT_FCALL_END}
           then Some (ZEND_FUNC_HAS_EXTENDED_FCALL, [])
         else if opc = ZEND_FREE
           then Some (if extended_value opline = 2 then ZEND_FUNC_FREE_LOOP_VAR else 0, [])
         else if opc = ZEND_FE_FREE then Some (ZEND_FUNC_FREE_LOOP_VAR, [])
         else Some (0, []))"

text \<open>The loop over the instructions from \<open>i\<close> on, \<open>n\<close> of them left.\<close>

fun cfg_scan ::
  "nat \<Rightarrow> nat \<Rightarrow> (string \<Rightarrow> bool) \<Rightarrow> u32 \<Rightarrow> zend_op_array \<Rightarrow> u32 \<Rightarrow> u32 list \<times> int \<Rightarrow>
   (u32 \<times> u32 list \<times> int) option" where
  "cfg_scan 0 i is_internal build_flags oa fl s = Some (fl, s)"
| "cfg_scan (Suc n) i is_internal build_flags oa fl s =
     do { (f, is) \<leftarrow> cfg_scan_op is_internal build_flags oa i;
          s' \<leftarrow> bb_starts is s;
          cfg_scan n (Suc i) is_internal build_flags oa (fl OR f) s' }"

text \<open>The instructions that a try/catch element marks.\<close>

definition try_catch_starts :: "zend_try_catch_element \<Rightarrow> int list" where
  "try_catch_starts tc =
     uint (try_op tc) #
     (if catch_op tc \<noteq> 0 then [uint (catch_op tc)] else []) @
     (if finally_op tc \<noteq> 0 then [uint (finally_op tc)] else []) @
     (if finally_end tc \<noteq> 0 then [uint (finally_end tc)] else [])"

text \<open>All of step 1. The extra entry block is counted when the entry has predecessors, which
  is decided before the try/catch elements are looked at.\<close>

definition cfg_step1 :: "(string \<Rightarrow> bool) \<Rightarrow> u32 \<Rightarrow> zend_op_array \<Rightarrow>
    (u32 \<times> bool \<times> u32 list \<times> int) option" where
  "cfg_step1 is_internal build_flags oa =
     do { s \<leftarrow> BB_START 0 (replicate (length (opcodes oa)) 0, 0);
          (fl, s) \<leftarrow> cfg_scan (length (opcodes oa)) 0 is_internal build_flags oa 0 s;
          let extra = (bits_set build_flags ZEND_CFG_NO_ENTRY_PREDECESSORS \<and>
                       0 < length (opcodes oa) \<and> 1 < fst s ! 0);
          (block_map, n) \<leftarrow> bb_starts (concat (map try_catch_starts (try_catch_array oa))) s;
          Some (fl, extra, block_map, if extra then n + 1 else n) }"

subsection \<open>Step 2: the array of blocks\<close>

definition update_block :: "zend_basic_block list \<Rightarrow> int \<Rightarrow> (zend_basic_block \<Rightarrow> zend_basic_block) \<Rightarrow>
    zend_basic_block list option" where
  "update_block bs k f = do { b \<leftarrow> nth_int bs k; Some (bs[nat k := f b]) }"

text \<open>The loop that cuts the instructions into blocks; \<open>n\<close> is the current block, -1 before the
  first one. \<open>block_map[i]\<close> becomes the number of the block of instruction \<open>i\<close>.\<close>

fun cfg_cut :: "nat \<Rightarrow> nat \<Rightarrow> u32 list \<times> zend_basic_block list \<times> int \<Rightarrow>
    (u32 list \<times> zend_basic_block list \<times> int) option" where
  "cfg_cut 0 i s = Some s"
| "cfg_cut (Suc k) i (block_map, bs, n) =
     do { c \<leftarrow> nth_opt block_map i;
          (bs, n) \<leftarrow>
            (if c \<noteq> 0
             then do { bs \<leftarrow> (if 0 \<le> n then update_block bs n (\<lambda>b. b\<lparr>len := word_of_nat i - start b\<rparr>)
                             else Some bs);
                       bs \<leftarrow> update_block bs (n + 1)
                              (\<lambda>b. (initialize_block b)\<lparr>start := word_of_nat i\<rparr>);
                       Some (bs, n + 1) }
             else Some (bs, n));
          cfg_cut k (Suc i) (block_map[i := word_of_int n], bs, n) }"

definition cfg_step2 :: "zend_op_array \<Rightarrow> bool \<Rightarrow> u32 list \<Rightarrow> int \<Rightarrow>
    (u32 list \<times> zend_basic_block list \<times> int) option" where
  "cfg_step2 oa extra block_map n =
     (let last = length (opcodes oa);
          bs = replicate (nat n) zero_block
      in do { (bs, m) \<leftarrow>
                (if extra
                 then do { bs \<leftarrow> update_block bs 0 (\<lambda>b. (initialize_block b)\<lparr>start := 0, len := 0\<rparr>);
                           Some (bs, 0) }
                 else Some (bs, -1));
              (block_map, bs, m) \<leftarrow> cfg_cut last 0 (block_map, bs, m);
              bs \<leftarrow> update_block bs m (\<lambda>b. b\<lparr>len := word_of_nat last - start b\<rparr>);
              Some (block_map, bs, m + 1) })"

subsection \<open>Step 3: successors\<close>

text \<open>\<open>block_map[t]\<close> read as a block number.\<close>

definition block_at :: "u32 list \<Rightarrow> int \<Rightarrow> int option" where
  "block_at block_map t = map_option sint (nth_int block_map t)"

fun blocks_at :: "u32 list \<Rightarrow> int list \<Rightarrow> int list option" where
  "blocks_at block_map [] = Some []"
| "blocks_at block_map (t # ts) =
     do { k \<leftarrow> block_at block_map t; ks \<leftarrow> blocks_at block_map ts; Some (k # ks) }"

text \<open>Setting the first entries of the two-element successor storage.\<close>

definition set_successors :: "int list \<Rightarrow> zend_basic_block \<Rightarrow> zend_basic_block" where
  "set_successors ks b =
     b\<lparr>successors_count := int (length ks), successors := ks @ drop (length ks) (successors b)\<rparr>"

definition last_op :: "zend_op_array \<Rightarrow> zend_basic_block \<Rightarrow> nat" where
  "last_op oa b = unat (start b + len b - 1)"

definition cfg_block_successors ::
  "u32 \<Rightarrow> zend_op_array \<Rightarrow> u32 list \<Rightarrow> nat \<Rightarrow> zend_basic_block \<Rightarrow> zend_basic_block option" where
  "cfg_block_successors build_flags oa block_map j block =
     (let next = int j + 1; i = last_op oa block
      in if len block = 0 then Some (set_successors [next] block)
         else do { opline \<leftarrow> nth_opt (opcodes oa) i;
           let opc = opcode opline in
           if opc \<in> {ZEND_FAST_RET, ZEND_RETURN, ZEND_RETURN_BY_REF, ZEND_GENERATOR_RETURN,
                     ZEND_EXIT, ZEND_THROW}
           then Some block
           else if opc = ZEND_JMP
           then do { t \<leftarrow> op_jmp i (op1 opline); k \<leftarrow> block_at block_map t;
                     Some (set_successors [k] block) }
           else if opc = ZEND_JMPZNZ
           then do { t \<leftarrow> op_jmp i (op2 opline); k \<leftarrow> block_at block_map t;
                     u \<leftarrow> op_jmp i (extended_value opline); l \<leftarrow> block_at block_map u;
                     Some (set_successors [k, l] block) }
           else if opc \<in> {ZEND_JMPZ, ZEND_JMPNZ, ZEND_JMPZ_EX, ZEND_JMPNZ_EX, ZEND_JMP_SET,
                          ZEND_COALESCE, ZEND_ASSERT_CHECK}
           then do { t \<leftarrow> op_jmp i (op2 opline); k \<leftarrow> block_at block_map t;
                     Some (set_successors [k, next] block) }
           else if opc = ZEND_CATCH
           then (if bits_set (extended_value opline) 1 then Some (set_successors [next] block)
                 else do { t \<leftarrow> op_jmp i (op2 opline); k \<leftarrow> block_at block_map t;
                           Some (set_successors [k, next] block) })
           else if opc \<in> {ZEND_FE_FETCH_R, ZEND_FE_FETCH_RW}
           then do { t \<leftarrow> op_jmp i (extended_value opline); k \<leftarrow> block_at block_map t;
                     Some (set_successors [k, next] block) }
           else if opc \<in> {ZEND_FE_RESET_R, ZEND_FE_RESET_RW}
           then do { t \<leftarrow> op_jmp i (op2 opline); k \<leftarrow> block_at block_map t;
                     Some (set_successors [k, next] block) }
           else if opc = ZEND_FAST_CALL
           then do { t \<leftarrow> op_jmp i (op1 opline); k \<leftarrow> block_at block_map t;
                     Some (set_successors [k, next] block) }
           else if opc \<in> {ZEND_SWITCH_LONG, ZEND_SWITCH_STRING}
           then do { ts \<leftarrow> switch_targets build_flags oa i opline;
                     ks \<leftarrow> blocks_at block_map ts;
                     Some (block\<lparr>successors_count := int (length ks) + 1,
                                 successors := ks @ [next]\<rparr>) }
           else Some (set_successors [next] block) })"

fun cfg_link :: "nat \<Rightarrow> nat \<Rightarrow> u32 \<Rightarrow> zend_op_array \<Rightarrow> u32 list \<Rightarrow> zend_basic_block list \<Rightarrow>
    zend_basic_block list option" where
  "cfg_link 0 j build_flags oa block_map bs = Some bs"
| "cfg_link (Suc n) j build_flags oa block_map bs =
     do { b \<leftarrow> nth_opt bs j;
          b' \<leftarrow> cfg_block_successors build_flags oa block_map j b;
          cfg_link n (Suc j) build_flags oa block_map (bs[j := b']) }"

subsection \<open>Step 4: reachability\<close>

definition or_flags :: "u32 \<Rightarrow> zend_basic_block \<Rightarrow> zend_basic_block" where
  "or_flags fl b = b\<lparr>flags := flags b OR fl\<rparr>"

definition reachable_flag :: "zend_basic_block \<Rightarrow> bool" where
  "reachable_flag b \<longleftrightarrow> bits_set (flags b) ZEND_BB_REACHABLE"

text \<open>The flags that block \<open>b\<close> gives its successor number \<open>i\<close>.\<close>

definition successor_flags ::
  "zend_op list \<Rightarrow> u32 \<Rightarrow> zend_basic_block \<Rightarrow> nat \<Rightarrow> u32 option" where
  "successor_flags ops fl b i =
     (if len b \<noteq> 0
      then do { opline \<leftarrow> nth_opt ops (unat (start b + len b - 1));
        let opc = opcode opline in
        if successors_count b = 1
        then (if opc = ZEND_JMP then Some ZEND_BB_TARGET
              else Some (ZEND_BB_FOLLOW OR
                (if bits_set fl ZEND_CFG_STACKLESS \<and>
                    opc \<in> {ZEND_INCLUDE_OR_EVAL, ZEND_GENERATOR_CREATE, ZEND_YIELD, ZEND_YIELD_FROM,
                           ZEND_DO_FCALL, ZEND_DO_UCALL, ZEND_DO_FCALL_BY_NAME}
                 then ZEND_BB_ENTRY else 0) OR
                (if bits_set fl ZEND_CFG_RECV_ENTRY \<and> opc \<in> {ZEND_RECV, ZEND_RECV_INIT}
                 then ZEND_BB_RECV_ENTRY else 0)))
        else if successors_count b = 2
        then Some (if i = 0 \<or> opc = ZEND_JMPZNZ then ZEND_BB_TARGET else ZEND_BB_FOLLOW)
        else if opc = ZEND_SWITCH_LONG \<or> opc = ZEND_SWITCH_STRING
        then Some (if int i = successors_count b - 1 then ZEND_BB_FOLLOW OR ZEND_BB_TARGET
                   else ZEND_BB_TARGET)
        else None }
      else Some ZEND_BB_FOLLOW)"

text \<open>\<open>zend_mark_reachable\<close>, with a fuel for the depth of visited blocks: it returns the blocks
  with their flags. The second function is its loop over the successors from number \<open>i\<close> on, of
  which \<open>ss\<close> are left.\<close>

function (sequential) zend_mark_reachable ::
    "nat \<Rightarrow> zend_op list \<Rightarrow> u32 \<Rightarrow> int \<Rightarrow> zend_basic_block list \<Rightarrow> zend_basic_block list option"
  and mark_successors ::
    "nat \<Rightarrow> zend_op list \<Rightarrow> u32 \<Rightarrow> zend_basic_block \<Rightarrow> nat \<Rightarrow> int list \<Rightarrow> zend_basic_block list \<Rightarrow>
     zend_basic_block list option" where
  "zend_mark_reachable 0 ops fl k bs = None"
| "zend_mark_reachable (Suc fuel) ops fl k bs =
     do { bs \<leftarrow> update_block bs k (or_flags ZEND_BB_REACHABLE);
          b \<leftarrow> nth_int bs k;
          if successors_count b = 0 then update_block bs k (or_flags ZEND_BB_EXIT)
          else if successors_count b < 0 \<or> int (length (successors b)) < successors_count b then None
          else mark_successors fuel ops fl b 0 (take (nat (successors_count b)) (successors b)) bs }"
| "mark_successors fuel ops fl b i [] bs = Some bs"
| "mark_successors fuel ops fl b i (s # ss) bs =
     do { f \<leftarrow> successor_flags ops fl b i;
          bs \<leftarrow> update_block bs s (or_flags f);
          succ \<leftarrow> nth_int bs s;
          if ss = []
          then (if reachable_flag succ then Some bs else zend_mark_reachable fuel ops fl s bs)
          else do { bs \<leftarrow> (if reachable_flag succ then Some bs
                          else zend_mark_reachable fuel ops fl s bs);
                    mark_successors fuel ops fl b (Suc i) ss bs } }"
  by pat_completeness auto
termination
  by (relation "inv_image (less_than <*lex*> less_than)
       (\<lambda>x. case x of Inl (fuel, _) \<Rightarrow> (fuel, 0)
                    | Inr (fuel, _, _, _, _, ss, _) \<Rightarrow> (fuel, Suc (length ss)))")
     auto

text \<open>The search of the first reachable block from \<open>k\<close> up to, not including, \<open>e\<close>; the list
  holds the blocks from number \<open>k\<close> on.\<close>

fun first_reachable :: "zend_basic_block list \<Rightarrow> nat \<Rightarrow> nat \<Rightarrow> nat option option" where
  "first_reachable [] k e = (if k = e then Some None else None)"
| "first_reachable (b # bs) k e =
     (if k = e then Some None
      else if reachable_flag b then Some (Some k) else first_reachable bs (Suc k) e)"

text \<open>\<open>blocks + block_map[op]\<close>\<close>

definition block_of :: "u32 list \<Rightarrow> zend_basic_block list \<Rightarrow> u32 \<Rightarrow> nat option" where
  "block_of block_map bs opnum =
     do { k \<leftarrow> nth_opt block_map (unat opnum);
          if unat k < length bs then Some (unat k) else None }"

text \<open>A catch, finally or finally-end entry: its block gets \<open>fl\<close> and is marked unless it is
  reachable already. The entry 0 stands for none.\<close>

definition mark_handler :: "nat \<Rightarrow> zend_op_array \<Rightarrow> u32 \<Rightarrow> u32 list \<Rightarrow> u32 \<Rightarrow> u32 \<Rightarrow>
    bool \<times> zend_basic_block list \<Rightarrow> (bool \<times> zend_basic_block list) option" where
  "mark_handler fuel oa cflags block_map opnum fl = (\<lambda>(changed, bs).
     if opnum = 0 then Some (changed, bs)
     else do { k \<leftarrow> block_of block_map bs opnum;
               let bs = bs[k := or_flags fl (bs ! k)];
               if reachable_flag (bs ! k) then Some (changed, bs)
               else do { bs \<leftarrow> zend_mark_reachable fuel (opcodes oa) cflags (int k) bs;
                         Some (True, bs) } })"

text \<open>\<open>ZEND_ASSERT(!(blocks[block_map[op]].flags & ZEND_BB_REACHABLE))\<close>\<close>

definition assert_unreachable :: "u32 list \<Rightarrow> zend_basic_block list \<Rightarrow> u32 \<Rightarrow> unit option" where
  "assert_unreachable block_map bs opnum =
     (if opnum = 0 then Some ()
      else do { k \<leftarrow> block_of block_map bs opnum;
                if reachable_flag (bs ! k) then None else Some () })"

text \<open>The jump into the middle of a try block: its start moves to the first reachable block
  before the catch block; failing that, when there is one before the finally block, the try
  block starts at its catch block, which is marked.\<close>

definition fix_try_start :: "nat \<Rightarrow> zend_op_array \<Rightarrow> u32 \<Rightarrow> u32 list \<Rightarrow>
    bool \<times> zend_try_catch_element \<times> zend_basic_block list \<Rightarrow>
    (bool \<times> zend_try_catch_element \<times> zend_basic_block list) option" where
  "fix_try_start fuel oa cflags block_map = (\<lambda>(changed, tc, bs).
     do { k \<leftarrow> block_of block_map bs (try_op tc);
          if reachable_flag (bs ! k) then Some (changed, tc, bs)
          else do {
            tc \<leftarrow> (if catch_op tc = 0 then Some tc
                  else do { e \<leftarrow> block_of block_map bs (catch_op tc);
                            r \<leftarrow> first_reachable (drop k bs) k e;
                            case r of None \<Rightarrow> Some tc
                            | Some h \<Rightarrow> Some (tc\<lparr>try_op := start (bs ! h)\<rparr>) });
            k \<leftarrow> block_of block_map bs (try_op tc);
            if reachable_flag (bs ! k) \<or> finally_op tc = 0 then Some (changed, tc, bs)
            else do { e \<leftarrow> block_of block_map bs (finally_op tc);
                      r \<leftarrow> first_reachable (drop k bs) k e;
                      case r of None \<Rightarrow> Some (changed, tc, bs)
                      | Some _ \<Rightarrow>
                          do { let tc = tc\<lparr>try_op := catch_op tc\<rparr>;
                               k \<leftarrow> block_of block_map bs (try_op tc);
                               bs \<leftarrow> zend_mark_reachable fuel (opcodes oa) cflags (int k) bs;
                               Some (True, tc, bs) } } } })"

definition mark_try :: "nat \<Rightarrow> zend_op_array \<Rightarrow> u32 \<Rightarrow> u32 list \<Rightarrow>
    bool \<times> zend_try_catch_element \<times> zend_basic_block list \<Rightarrow>
    (bool \<times> zend_try_catch_element \<times> zend_basic_block list) option" where
  "mark_try fuel oa cflags block_map s =
     do { (changed, tc, bs) \<leftarrow> fix_try_start fuel oa cflags block_map s;
          k \<leftarrow> block_of block_map bs (try_op tc);
          if reachable_flag (bs ! k)
          then do { let bs = bs[k := or_flags ZEND_BB_TRY (bs ! k)];
                    c \<leftarrow> mark_handler fuel oa cflags block_map (catch_op tc) ZEND_BB_CATCH (changed, bs);
                    c \<leftarrow> mark_handler fuel oa cflags block_map (finally_op tc) ZEND_BB_FINALLY c;
                    c \<leftarrow> mark_handler fuel oa cflags block_map (finally_end tc) ZEND_BB_FINALLY_END c;
                    Some (fst c, tc, snd c) }
          else do { assert_unreachable block_map bs (catch_op tc);
                    assert_unreachable block_map bs (finally_op tc);
                    assert_unreachable block_map bs (finally_end tc);
                    Some (changed, tc, bs) } }"

text \<open>One pass of the loop over the try/catch elements, and the loop that repeats it while it
  changes something.\<close>

fun mark_tries :: "nat \<Rightarrow> zend_op_array \<Rightarrow> u32 \<Rightarrow> u32 list \<Rightarrow> zend_try_catch_element list \<Rightarrow>
    bool \<times> zend_basic_block list \<Rightarrow>
    (bool \<times> zend_try_catch_element list \<times> zend_basic_block list) option" where
  "mark_tries fuel oa cflags block_map [] (changed, bs) = Some (changed, [], bs)"
| "mark_tries fuel oa cflags block_map (tc # tcs) (changed, bs) =
     do { (changed, tc', bs) \<leftarrow> mark_try fuel oa cflags block_map (changed, tc, bs);
          (changed, tcs', bs) \<leftarrow> mark_tries fuel oa cflags block_map tcs (changed, bs);
          Some (changed, tc' # tcs', bs) }"

fun mark_tries_loop :: "nat \<Rightarrow> nat \<Rightarrow> zend_op_array \<Rightarrow> u32 \<Rightarrow> u32 list \<Rightarrow>
    zend_try_catch_element list \<Rightarrow> zend_basic_block list \<Rightarrow>
    (zend_try_catch_element list \<times> zend_basic_block list) option" where
  "mark_tries_loop 0 fuel oa cflags block_map tcs bs = None"
| "mark_tries_loop (Suc n) fuel oa cflags block_map tcs bs =
     do { (changed, tcs, bs) \<leftarrow> mark_tries fuel oa cflags block_map tcs (False, bs);
          if changed then mark_tries_loop n fuel oa cflags block_map tcs bs else Some (tcs, bs) }"

text \<open>\<open>zend_mark_reachable_blocks\<close>: the blocks' number bounds the depth of the search, and the
  blocks' and the try/catch elements' numbers bound the repetitions.\<close>

definition zend_mark_reachable_blocks :: "zend_op_array \<Rightarrow> zend_cfg \<Rightarrow> int \<Rightarrow>
    (zend_op_array \<times> zend_cfg) option" where
  "zend_mark_reachable_blocks oa cfg st =
     (let fuel = Suc (length (blocks cfg))
      in do { bs \<leftarrow> update_block (blocks cfg) st (\<lambda>b. b\<lparr>flags := ZEND_BB_START\<rparr>);
              bs \<leftarrow> zend_mark_reachable fuel (opcodes oa) (cfg_flags cfg) st bs;
              if try_catch_array oa = [] then Some (oa, cfg\<lparr>blocks := bs\<rparr>)
              else do { (tcs, bs) \<leftarrow>
                          mark_tries_loop (fuel + length (try_catch_array oa)) fuel oa (cfg_flags cfg)
                            (cfg_map cfg) (try_catch_array oa) bs;
                        Some (oa\<lparr>try_catch_array := tcs\<rparr>, cfg\<lparr>blocks := bs\<rparr>) } })"

fun first_reachable_or_0 :: "nat \<Rightarrow> zend_basic_block list \<Rightarrow> nat" where
  "first_reachable_or_0 i [] = 0"
| "first_reachable_or_0 i (b # bs) = (if reachable_flag b then i else first_reachable_or_0 (Suc i) bs)"

definition zend_cfg_remark_reachable_blocks :: "zend_op_array \<Rightarrow> zend_cfg \<Rightarrow>
    (zend_op_array \<times> zend_cfg) option" where
  "zend_cfg_remark_reachable_blocks oa cfg =
     (if length (blocks cfg) \<noteq> nat (blocks_count cfg) then None
      else zend_mark_reachable_blocks oa
             (cfg\<lparr>blocks := map (\<lambda>b. b\<lparr>flags := 0\<rparr>) (blocks cfg)\<rparr>)
             (int (first_reachable_or_0 0 (blocks cfg))))"

subsection \<open>The builder\<close>

definition zend_build_cfg :: "(string \<Rightarrow> bool) \<Rightarrow> u32 \<Rightarrow> zend_op_array \<Rightarrow>
    (zend_op_array \<times> zend_cfg) option" where
  "zend_build_cfg is_internal build_flags oa =
     do { (fl, extra, block_map, n) \<leftarrow> cfg_step1 is_internal build_flags oa;
          (block_map, bs, m) \<leftarrow> cfg_step2 oa extra block_map n;
          bs \<leftarrow> cfg_link (nat m) 0 build_flags oa block_map bs;
          let cfg = \<lparr>blocks_count = n, blocks = bs, cfg_map = block_map,
                     cfg_flags = (build_flags AND (ZEND_CFG_STACKLESS OR ZEND_CFG_RECV_ENTRY)) OR fl\<rparr>;
          zend_mark_reachable_blocks oa cfg 0 }"

text \<open>Two examples: a loop with an unreachable instruction, and a try/catch.\<close>

definition op_at :: "u8 \<Rightarrow> u32 \<Rightarrow> u32 \<Rightarrow> zend_op" where
  "op_at opc a b = \<lparr>opcode = opc, op1 = a, op2 = b, extended_value = 0, lineno = 0\<rparr>"

definition loop_ops :: zend_op_array where
  "loop_ops = \<lparr>opcodes = [op_at 0 0 0, op_at ZEND_JMPZ 0 96, op_at 0 0 0, op_at ZEND_JMP (- 64) 0,
       op_at ZEND_RETURN 0 0, op_at ZEND_RETURN 0 0],
     literals = [], literals_offset = 0, function_name = None, try_catch_array = []\<rparr>"

lemma loop_ops_cfg:
  "map_option (\<lambda>(oa, cfg). map (\<lambda>b. (start b, len b, reachable_flag b)) (blocks cfg))
     (zend_build_cfg (\<lambda>_. False) 0 loop_ops) =
   Some [(0, 1, True), (1, 1, True), (2, 2, True), (4, 1, True), (5, 1, False)]"
  by code_simp

end
