(* ===== verification/Zend_Cfg_Correct.thy ===== *)
theory Zend_Cfg_Correct
  imports Zend_Cfg
begin

text \<open>
  Correctness of the control flow graph builder: the marking is graph reachability and always
  ends, the blocks partition the instructions, and every step an instruction can take is an
  edge of the graph.
\<close>

subsection \<open>Arrays and flags\<close>

lemma nth_opt_eq [simp]: "i < length xs \<Longrightarrow> nth_opt xs i = Some (xs ! i)"
  by (simp add: nth_opt_def)

lemma nth_int_of_nat [simp]: "nth_int xs (int i) = nth_opt xs i"
  by (simp add: nth_int_def)

lemma nth_int_eq: "0 \<le> k \<Longrightarrow> nat k < length xs \<Longrightarrow> nth_int xs k = Some (xs ! nat k)"
  by (simp add: nth_int_def)

lemma update_block_eq:
  "0 \<le> k \<Longrightarrow> nat k < length bs \<Longrightarrow> update_block bs k f = Some (bs[nat k := f (bs ! nat k)])"
  by (simp add: update_block_def nth_int_eq)

lemma bits_set_or [simp]: "bits_set (a OR b) m \<longleftrightarrow> bits_set a m \<or> bits_set b m"
  by (simp add: bits_set_def bit.conj_disj_distrib2 or_eq_0_iff)

lemma reachable_or_flags [simp]:
  "reachable_flag (or_flags fl b) \<longleftrightarrow> reachable_flag b \<or> bits_set fl ZEND_BB_REACHABLE"
  by (simp add: reachable_flag_def or_flags_def)

subsection \<open>The graph\<close>

text \<open>What marking does not touch, the edges, and the marked blocks.\<close>

definition skeleton :: "zend_basic_block list \<Rightarrow> zend_basic_block list" where
  "skeleton bs = map (\<lambda>b. b\<lparr>flags := 0\<rparr>) bs"

definition succs :: "zend_basic_block \<Rightarrow> int list" where
  "succs b = take (nat (successors_count b)) (successors b)"

definition cfg_edges :: "zend_basic_block list \<Rightarrow> (nat \<times> nat) set" where
  "cfg_edges bs = {(k, s). k < length bs \<and> int s \<in> set (succs (bs ! k))}"

definition marked :: "zend_basic_block list \<Rightarrow> nat set" where
  "marked bs = {k. k < length bs \<and> reachable_flag (bs ! k)}"

definition wf_block :: "zend_op list \<Rightarrow> nat \<Rightarrow> zend_basic_block \<Rightarrow> bool" where
  "wf_block ops n b \<longleftrightarrow>
     0 \<le> successors_count b \<and> successors_count b \<le> int (length (successors b)) \<and>
     (\<forall>s\<in>set (succs b). 0 \<le> s \<and> s < int n) \<and>
     (len b \<noteq> 0 \<longrightarrow> unat (start b + len b - 1) < length ops \<and>
        (2 < successors_count b \<longrightarrow>
           opcode (ops ! unat (start b + len b - 1)) \<in> {ZEND_SWITCH_LONG, ZEND_SWITCH_STRING}))"

definition wf_blocks :: "zend_op list \<Rightarrow> zend_basic_block list \<Rightarrow> bool" where
  "wf_blocks ops bs \<longleftrightarrow> (\<forall>b\<in>set bs. wf_block ops (length bs) b)"

lemma skeleton_length: "skeleton bs = skeleton bs' \<Longrightarrow> length bs = length bs'"
  unfolding skeleton_def by (rule map_eq_imp_length_eq)

lemma skeleton_nth:
  assumes "skeleton bs = skeleton bs'" "k < length bs"
  shows "(bs ! k)\<lparr>flags := 0\<rparr> = (bs' ! k)\<lparr>flags := 0\<rparr>"
  using assms skeleton_length [OF assms(1)] unfolding skeleton_def by (metis nth_map)

lemma block_no_flags:
  assumes "(b :: zend_basic_block)\<lparr>flags := 0\<rparr> = b'\<lparr>flags := 0\<rparr>"
  shows "successors b = successors b'" "successors_count b = successors_count b'"
    "start b = start b'" "len b = len b'"
  using assms by (cases b; cases b'; simp)+

lemma skeleton_fields:
  assumes "skeleton bs = skeleton bs'" "k < length bs"
  shows "successors (bs ! k) = successors (bs' ! k)"
    "successors_count (bs ! k) = successors_count (bs' ! k)"
    "start (bs ! k) = start (bs' ! k)" "len (bs ! k) = len (bs' ! k)"
  using block_no_flags [OF skeleton_nth [OF assms]] by simp_all

lemma skeleton_edges:
  assumes "skeleton bs = skeleton bs'"
  shows "cfg_edges bs = cfg_edges bs'"
  using skeleton_length [OF assms] skeleton_fields [OF assms]
  by (auto simp: cfg_edges_def succs_def)

lemma skeleton_wf:
  assumes "skeleton bs = skeleton bs'"
  shows "wf_blocks ops bs = wf_blocks ops bs'"
  using skeleton_length [OF assms] skeleton_fields [OF assms]
  by (simp add: wf_blocks_def wf_block_def succs_def all_set_conv_all_nth)

lemma skeleton_update:
  "k < length bs \<Longrightarrow> f (bs ! k)\<lparr>flags := 0\<rparr> = (bs ! k)\<lparr>flags := 0\<rparr> \<Longrightarrow>
   skeleton (bs[k := f (bs ! k)]) = skeleton bs"
  by (auto simp: skeleton_def list_eq_iff_nth_eq nth_list_update)

lemma skeleton_or_flags [simp]:
  "k < length bs \<Longrightarrow> skeleton (bs[k := or_flags fl (bs ! k)]) = skeleton bs"
  by (rule skeleton_update) (simp_all add: or_flags_def)

lemma marked_or_flags:
  "k < length bs \<Longrightarrow> marked (bs[k := or_flags fl (bs ! k)]) =
     (if bits_set fl ZEND_BB_REACHABLE then insert k (marked bs) else marked bs)"
  by (auto simp: marked_def nth_list_update split: if_splits)

lemma marked_less: "marked bs \<subseteq> {..<length bs}"
  by (auto simp: marked_def)

lemma wf_blocks_nth: "wf_blocks ops bs \<Longrightarrow> k < length bs \<Longrightarrow> wf_block ops (length bs) (bs ! k)"
  by (simp add: wf_blocks_def)

subsection \<open>Marking is reachability\<close>

text \<open>What marking from the blocks \<open>S\<close> does to the set of marked blocks: it adds only blocks
  that can be reached from \<open>S\<close>, and closes what it adds under the edges.\<close>

definition mark_post :: "(nat \<times> nat) set \<Rightarrow> nat set \<Rightarrow> nat set \<Rightarrow> nat set \<Rightarrow> bool" where
  "mark_post E S R R' \<longleftrightarrow> R \<union> S \<subseteq> R' \<and> R' \<subseteq> R \<union> E\<^sup>* `` S \<and> E `` (R' - R) \<subseteq> R'"

lemma mark_post_refl: "S \<subseteq> R \<Longrightarrow> mark_post E S R R"
  by (auto simp: mark_post_def)

lemma mark_post_trans:
  "mark_post E S R R1 \<Longrightarrow> mark_post E T R1 R2 \<Longrightarrow> mark_post E (S \<union> T) R R2"
  unfolding mark_post_def by blast

lemma mark_post_closed:
  assumes "mark_post E {k} {} R"
  shows "R = E\<^sup>* `` {k}"
proof
  show "R \<subseteq> E\<^sup>* `` {k}" using assms by (simp add: mark_post_def)
  have "k \<in> R" "E `` R \<subseteq> R" using assms by (simp_all add: mark_post_def)
  have "x \<in> R" if "(k, x) \<in> E\<^sup>*" for x
    using that \<open>k \<in> R\<close> \<open>E `` R \<subseteq> R\<close> by (induction rule: rtrancl_induct) auto
  then show "E\<^sup>* `` {k} \<subseteq> R" by auto
qed

lemma mark_post_step:
  assumes "mark_post E (E `` {k}) (insert k R) R'"
  shows "mark_post E {k} R R'"
proof -
  have sub: "insert k R \<union> E `` {k} \<subseteq> R'" and out: "R' \<subseteq> insert k R \<union> E\<^sup>* `` (E `` {k})"
    and closed: "E `` (R' - insert k R) \<subseteq> R'"
    using assms by (simp_all add: mark_post_def)
  have "E\<^sup>* `` (E `` {k}) \<subseteq> E\<^sup>* `` {k}" by (auto intro: converse_rtrancl_into_rtrancl)
  then have "R' \<subseteq> R \<union> E\<^sup>* `` {k}" using out by auto
  moreover have "E `` (R' - R) \<subseteq> R'" using sub closed by blast
  ultimately show ?thesis using sub by (simp add: mark_post_def)
qed

lemma edge_flags_keep_reachable [simp]:
  "\<not> bits_set 0 ZEND_BB_REACHABLE" "\<not> bits_set ZEND_BB_FOLLOW ZEND_BB_REACHABLE"
  "\<not> bits_set ZEND_BB_TARGET ZEND_BB_REACHABLE" "\<not> bits_set ZEND_BB_ENTRY ZEND_BB_REACHABLE"
  "\<not> bits_set ZEND_BB_RECV_ENTRY ZEND_BB_REACHABLE" "bits_set ZEND_BB_REACHABLE ZEND_BB_REACHABLE"
  "\<not> bits_set ZEND_BB_EXIT ZEND_BB_REACHABLE" "\<not> bits_set ZEND_BB_TRY ZEND_BB_REACHABLE"
  "\<not> bits_set ZEND_BB_CATCH ZEND_BB_REACHABLE" "\<not> bits_set ZEND_BB_FINALLY ZEND_BB_REACHABLE"
  "\<not> bits_set ZEND_BB_FINALLY_END ZEND_BB_REACHABLE"
  "\<not> bits_set 6 ZEND_BB_REACHABLE"
  by (simp_all add: bits_set_def)

lemma bits_set_if [simp]:
  "bits_set (if P then a else b) m \<longleftrightarrow> (if P then bits_set a m else bits_set b m)"
  by simp

lemma successor_flags_ok:
  assumes "wf_block ops n b" "i < length (succs b)"
  shows "\<exists>f. successor_flags ops fl b i = Some f \<and> \<not> bits_set f ZEND_BB_REACHABLE"
proof (cases "len b = 0")
  case True
  then show ?thesis by (simp add: successor_flags_def)
next
  case False
  define opc where "opc = opcode (ops ! unat (start b + len b - 1))"
  have op: "nth_opt ops (unat (start b + len b - 1)) = Some (ops ! unat (start b + len b - 1))"
    using assms(1) False by (simp add: wf_block_def)
  have "0 < successors_count b" using assms by (auto simp: succs_def)
  then consider "successors_count b = 1" | "successors_count b = 2" | "2 < successors_count b"
    by arith
  then show ?thesis
  proof cases
    case 1
    then show ?thesis using False op
      unfolding successor_flags_def by (simp add: Let_def)
  next
    case 2
    then show ?thesis using False op
      unfolding successor_flags_def by (simp add: Let_def)
  next
    case 3
    then have "opc \<in> {ZEND_SWITCH_LONG, ZEND_SWITCH_STRING}"
      using assms(1) False by (simp add: wf_block_def opc_def)
    then show ?thesis using 3 False op
      unfolding successor_flags_def opc_def by (simp add: Let_def)
  qed
qed

lemma marked_finite [simp]: "finite (marked bs)"
  using marked_less by (rule finite_subset) simp

text \<open>The loop over the successors, given that the search itself works for its fuel.\<close>

definition search_ok :: "nat \<Rightarrow> zend_op list \<Rightarrow> u32 \<Rightarrow> bool" where
  "search_ok fuel ops fl \<longleftrightarrow>
     (\<forall>k bs. wf_blocks ops bs \<longrightarrow> k < length bs \<longrightarrow>
        card ({..<length bs} - insert k (marked bs)) < fuel \<longrightarrow>
        (\<exists>bs'. zend_mark_reachable fuel ops fl (int k) bs = Some bs' \<and> skeleton bs' = skeleton bs \<and>
           mark_post (cfg_edges bs) {k} (marked bs) (marked bs') \<and>
           cfg_edges bs `` {k} \<subseteq> marked bs'))"

lemma mark_successors_ok:
  assumes search: "search_ok fuel ops fl"
  shows "wf_blocks ops bs \<Longrightarrow> wf_block ops (length bs) b \<Longrightarrow> i + length ss = length (succs b) \<Longrightarrow>
    \<forall>s\<in>set ss. 0 \<le> s \<and> s < int (length bs) \<Longrightarrow> card ({..<length bs} - marked bs) \<le> fuel \<Longrightarrow>
    \<exists>bs'. mark_successors fuel ops fl b i ss bs = Some bs' \<and> skeleton bs' = skeleton bs \<and>
      mark_post (cfg_edges bs) (nat ` set ss) (marked bs) (marked bs')"
proof (induction ss arbitrary: i bs)
  case Nil
  then show ?case by (simp add: mark_post_refl)
next
  case (Cons s ss)
  define k where "k = nat s"
  have s: "s = int k" "k < length bs" using Cons.prems(4) by (auto simp: k_def)
  obtain f where f: "successor_flags ops fl b i = Some f" "\<not> bits_set f ZEND_BB_REACHABLE"
    using successor_flags_ok [OF Cons.prems(2), of i fl] Cons.prems(3) by auto
  define bs1 where "bs1 = bs[k := or_flags f (bs ! k)]"
  have bs1: "length bs1 = length bs" "skeleton bs1 = skeleton bs" "marked bs1 = marked bs"
    using s f(2) by (simp_all add: bs1_def marked_or_flags)
  have up: "update_block bs s (or_flags f) = Some bs1"
    using s by (simp add: update_block_eq bs1_def)
  have get: "nth_int bs1 s = Some (bs1 ! k)" using s bs1 by simp
  define next_step where "next_step = (if reachable_flag (bs1 ! k) then Some bs1
                   else zend_mark_reachable fuel ops fl s bs1)"
  have "\<exists>bs2. next_step = Some bs2 \<and> skeleton bs2 = skeleton bs \<and>
      mark_post (cfg_edges bs) {k} (marked bs) (marked bs2)"
  proof (cases "reachable_flag (bs1 ! k)")
    case True
    then have "k \<in> marked bs" using s bs1 by (auto simp: marked_def [of bs1] simp flip: bs1(3))
    then show ?thesis using True bs1 by (simp add: next_step_def mark_post_refl)
  next
    case False
    then have k: "k \<in> {..<length bs1} - marked bs1" using s bs1(1) by (simp add: marked_def)
    have "{..<length bs1} - insert k (marked bs1) = ({..<length bs1} - marked bs1) - {k}" by auto
    then have "card ({..<length bs1} - insert k (marked bs1)) < card ({..<length bs1} - marked bs1)"
      using k by (simp only:) (rule card_Diff1_less; simp)
    also have "\<dots> \<le> fuel" using Cons.prems(5) bs1 by simp
    finally have "card ({..<length bs1} - insert k (marked bs1)) < fuel" .
    moreover have "wf_blocks ops bs1" using Cons.prems(1) skeleton_wf [OF bs1(2)] by simp
    ultimately show ?thesis
      using search s bs1 False skeleton_edges [OF bs1(2)]
      unfolding search_ok_def next_step_def by (metis (no_types, lifting))
  qed
  then obtain bs2 where bs2: "next_step = Some bs2" "skeleton bs2 = skeleton bs"
      "mark_post (cfg_edges bs) {k} (marked bs) (marked bs2)"
    by blast
  have len2: "length bs2 = length bs" by (rule skeleton_length [OF bs2(2)])
  have eq: "mark_successors fuel ops fl b i (s # ss) bs =
      (if ss = [] then Some bs2 else mark_successors fuel ops fl b (Suc i) ss bs2)"
    using f(1) up get bs2(1) by (auto simp: next_step_def)
  have "marked bs \<subseteq> marked bs2" using bs2(3) by (simp add: mark_post_def)
  then have "card ({..<length bs2} - marked bs2) \<le> card ({..<length bs} - marked bs)"
    using len2 by (intro card_mono) auto
  then have "\<exists>bs'. mark_successors fuel ops fl b (Suc i) ss bs2 = Some bs' \<and>
      skeleton bs' = skeleton bs2 \<and>
      mark_post (cfg_edges bs2) (nat ` set ss) (marked bs2) (marked bs')"
    using Cons.prems len2 skeleton_wf [OF bs2(2), of ops] by (intro Cons.IH) auto
  then obtain bs3 where bs3: "mark_successors fuel ops fl b (Suc i) ss bs2 = Some bs3"
      "skeleton bs3 = skeleton bs" "mark_post (cfg_edges bs) (nat ` set ss) (marked bs2) (marked bs3)"
    using bs2(2) skeleton_edges [OF bs2(2)] by auto
  have "mark_post (cfg_edges bs) ({k} \<union> nat ` set ss) (marked bs) (marked bs3)"
    by (rule mark_post_trans [OF bs2(3) bs3(3)])
  then show ?case using eq bs2 bs3 s by (cases "ss = []") auto
qed

lemma search_ok: "search_ok fuel ops fl"
proof (induction fuel)
  case 0
  then show ?case by (simp add: search_ok_def)
next
  case (Suc fuel)
  show ?case unfolding search_ok_def
  proof (intro allI impI)
    fix k bs
    assume wf: "wf_blocks ops bs" and k: "k < length bs"
      and fuel: "card ({..<length bs} - insert k (marked bs)) < Suc fuel"
    define bs1 where "bs1 = bs[k := or_flags ZEND_BB_REACHABLE (bs ! k)]"
    have bs1: "length bs1 = length bs" "skeleton bs1 = skeleton bs" "marked bs1 = insert k (marked bs)"
      using k by (simp_all add: bs1_def marked_or_flags)
    have up: "update_block bs (int k) (or_flags ZEND_BB_REACHABLE) = Some bs1"
      using k by (simp add: update_block_eq bs1_def)
    let ?b = "bs1 ! k"
    have get: "nth_int bs1 (int k) = Some ?b" using k bs1(1) by simp
    have wfb: "wf_block ops (length bs) ?b"
      using wf wf_blocks_nth [of ops bs1 k] k bs1 skeleton_wf [OF bs1(2)] by simp
    have edges: "cfg_edges bs1 = cfg_edges bs" by (rule skeleton_edges [OF bs1(2)])
    have out: "cfg_edges bs `` {k} = nat ` set (succs ?b)"
    proof -
      have "set (succs ?b) \<subseteq> {0..}" using wfb by (auto simp: wf_block_def)
      then show ?thesis using k bs1(1) unfolding edges [symmetric]
        by (force simp: cfg_edges_def image_iff)
    qed
    show "\<exists>bs'. zend_mark_reachable (Suc fuel) ops fl (int k) bs = Some bs' \<and>
        skeleton bs' = skeleton bs \<and>
        mark_post (cfg_edges bs) {k} (marked bs) (marked bs') \<and> cfg_edges bs `` {k} \<subseteq> marked bs'"
    proof (cases "successors_count ?b = 0")
      case True
      define bs2 where "bs2 = bs1[k := or_flags ZEND_BB_EXIT (bs1 ! k)]"
      have "zend_mark_reachable (Suc fuel) ops fl (int k) bs = Some bs2"
        using up get True k bs1(1) by (simp add: update_block_eq bs2_def)
      moreover have "skeleton bs2 = skeleton bs" "marked bs2 = insert k (marked bs)"
        using k bs1 by (simp_all add: bs2_def marked_or_flags)
      moreover have "cfg_edges bs `` {k} = {}" using out True by (simp add: succs_def)
      ultimately show ?thesis by (auto simp: mark_post_def)
    next
      case False
      have "\<exists>bs'. mark_successors fuel ops fl ?b 0 (succs ?b) bs1 = Some bs' \<and>
          skeleton bs' = skeleton bs1 \<and>
          mark_post (cfg_edges bs1) (nat ` set (succs ?b)) (marked bs1) (marked bs')"
        using wf fuel wfb skeleton_wf [OF bs1(2)] bs1
        by (intro mark_successors_ok [OF Suc.IH]) (auto simp: wf_block_def)
      then obtain bs' where bs': "mark_successors fuel ops fl ?b 0 (succs ?b) bs1 = Some bs'"
          "skeleton bs' = skeleton bs"
          "mark_post (cfg_edges bs) (cfg_edges bs `` {k}) (insert k (marked bs)) (marked bs')"
        using bs1 edges out by auto
      have "\<not> (successors_count ?b < 0 \<or> int (length (successors ?b)) < successors_count ?b)"
        using wfb by (simp add: wf_block_def)
      then have "zend_mark_reachable (Suc fuel) ops fl (int k) bs = Some bs'"
        using up get False bs'(1) by (simp add: succs_def)
      moreover have "mark_post (cfg_edges bs) {k} (marked bs) (marked bs')"
        by (rule mark_post_step [OF bs'(3)])
      moreover have "cfg_edges bs `` {k} \<subseteq> marked bs'" using bs'(3) by (simp add: mark_post_def)
      ultimately show ?thesis using bs'(2) by blast
    qed
  qed
qed

text \<open>The form in which the builder uses it: more fuel than blocks is enough.\<close>

lemma mark_reachable_ok:
  assumes "wf_blocks ops bs" "k < length bs" "length bs < fuel"
  obtains bs' where "zend_mark_reachable fuel ops fl (int k) bs = Some bs'"
    "skeleton bs' = skeleton bs" "mark_post (cfg_edges bs) {k} (marked bs) (marked bs')"
    "cfg_edges bs `` {k} \<subseteq> marked bs'"
proof -
  have "card ({..<length bs} - insert k (marked bs)) \<le> length bs"
    using card_mono [of "{..<length bs}" "{..<length bs} - insert k (marked bs)"] by auto
  then show thesis
    using search_ok [of fuel ops fl] assms that unfolding search_ok_def by fastforce
qed

text \<open>C2: from an entry block, with no block marked before, \<open>zend_mark_reachable\<close> ends and sets
  the reachable flag of exactly the blocks that a path of successors leads to; it changes no
  other field of the blocks. Depth-first search with its tail call is graph reachability.\<close>

theorem mark_reachable_is_reachability:
  assumes "wf_blocks ops bs" and "k < length bs" and "marked bs = {}"
  shows "\<exists>bs'. zend_mark_reachable (Suc (length bs)) ops fl (int k) bs = Some bs' \<and>
    marked bs' = (cfg_edges bs)\<^sup>* `` {k} \<and> skeleton bs' = skeleton bs"
proof -
  obtain bs' where "zend_mark_reachable (Suc (length bs)) ops fl (int k) bs = Some bs'"
    "skeleton bs' = skeleton bs" "mark_post (cfg_edges bs) {k} (marked bs) (marked bs')"
    by (rule mark_reachable_ok [OF assms(1,2), of "Suc (length bs)" fl]) simp
  then show ?thesis using mark_post_closed [of "cfg_edges bs" k] assms(3) by auto
qed

subsection \<open>Exception paths\<close>

text \<open>What every part of the try/catch loop keeps: \<open>ch\<close> and \<open>ch'\<close> are the changed flags.\<close>

definition edge_closed :: "zend_basic_block list \<Rightarrow> bool" where
  "edge_closed bs \<longleftrightarrow> cfg_edges bs `` marked bs \<subseteq> marked bs"

definition keeps :: "bool \<times> zend_basic_block list \<Rightarrow> bool \<times> zend_basic_block list \<Rightarrow> bool" where
  "keeps s s' \<longleftrightarrow> skeleton (snd s') = skeleton (snd s) \<and> marked (snd s) \<subseteq> marked (snd s') \<and>
     (edge_closed (snd s) \<longrightarrow> edge_closed (snd s')) \<and>
     (fst s \<longrightarrow> fst s') \<and> (\<not> fst s' \<longrightarrow> marked (snd s') = marked (snd s))"

lemma keepsD:
  assumes "keeps (ch, bs) (ch', bs')"
  shows "skeleton bs' = skeleton bs" "marked bs \<subseteq> marked bs'" "edge_closed bs \<Longrightarrow> edge_closed bs'"
    "ch \<Longrightarrow> ch'" "\<not> ch' \<Longrightarrow> marked bs' = marked bs" "length bs' = length bs"
    "wf_blocks ops bs' = wf_blocks ops bs"
  using assms skeleton_length [of bs' bs] skeleton_wf [of bs' bs ops] unfolding keeps_def by auto

lemma keeps_refl: "keeps s s"
  by (simp add: keeps_def)

lemma keeps_trans:
  assumes "keeps (ch, bs) (ch', bs')" "keeps (ch', bs') (ch'', bs'')"
  shows "keeps (ch, bs) (ch'', bs'')"
  using keepsD [OF assms(1)] keepsD [OF assms(2)] unfolding keeps_def by auto

lemma keeps_mark:
  assumes "wf_blocks ops bs" "k < length bs" "length bs < fuel"
    and "zend_mark_reachable fuel ops fl (int k) bs = Some bs'"
  shows "keeps (ch, bs) (True, bs')" and "k \<in> marked bs'"
proof -
  have post: "skeleton bs' = skeleton bs" "mark_post (cfg_edges bs) {k} (marked bs) (marked bs')"
    using mark_reachable_ok [OF assms(1-3), of fl] assms(4) by auto
  then have m: "marked bs \<subseteq> marked bs'" "cfg_edges bs `` (marked bs' - marked bs) \<subseteq> marked bs'"
    "k \<in> marked bs'"
    by (simp_all add: mark_post_def)
  then show "k \<in> marked bs'" by simp
  have "edge_closed bs \<Longrightarrow> edge_closed bs'"
    using m unfolding edge_closed_def skeleton_edges [OF post(1)] by blast
  then show "keeps (ch, bs) (True, bs')" using post(1) m by (simp add: keeps_def)
qed

lemma keeps_or_flags:
  "k < length bs \<Longrightarrow> \<not> bits_set fl ZEND_BB_REACHABLE \<Longrightarrow> keeps (ch, bs) (ch, bs[k := or_flags fl (bs ! k)])"
  using skeleton_edges [OF skeleton_or_flags [of k bs fl]]
  by (simp add: keeps_def marked_or_flags edge_closed_def)

lemma block_ofD: "block_of block_map bs x = Some k \<Longrightarrow> k < length bs"
  by (auto simp: block_of_def bind_eq_Some_conv split: if_splits)

lemma block_of_length: "length bs' = length bs \<Longrightarrow> block_of block_map bs' x = block_of block_map bs x"
  by (simp add: block_of_def)

text \<open>An entry is marked when it is there.\<close>

definition entry_marked :: "u32 list \<Rightarrow> zend_basic_block list \<Rightarrow> u32 \<Rightarrow> bool" where
  "entry_marked block_map bs x \<longleftrightarrow> x = 0 \<or> (\<exists>h\<in>marked bs. block_of block_map bs x = Some h)"

lemma entry_marked_mono:
  "entry_marked block_map bs x \<Longrightarrow> keeps (ch, bs) (ch', bs') \<Longrightarrow> entry_marked block_map bs' x"
  using block_of_length [OF keepsD(6)] keepsD(2) unfolding entry_marked_def by fastforce

lemma mark_handler_keeps:
  assumes wf: "wf_blocks (opcodes oa) bs" and fuel: "length bs < fuel"
    and fl: "\<not> bits_set fl ZEND_BB_REACHABLE"
    and res: "mark_handler fuel oa cflags block_map x fl (ch, bs) = Some (ch', bs')"
  shows "keeps (ch, bs) (ch', bs')" and "entry_marked block_map bs' x"
proof -
  have "keeps (ch, bs) (ch', bs') \<and> entry_marked block_map bs' x"
  proof (cases "x = 0")
    case True
    then show ?thesis using res by (auto simp: mark_handler_def keeps_refl entry_marked_def)
  next
    case False
    then obtain k where k: "block_of block_map bs x = Some k"
      using res by (auto simp: mark_handler_def bind_eq_Some_conv)
    define bs1 where "bs1 = bs[k := or_flags fl (bs ! k)]"
    have kl: "k < length bs" by (rule block_ofD [OF k])
    have 1: "keeps (ch, bs) (ch, bs1)" unfolding bs1_def by (rule keeps_or_flags [OF kl fl])
    have len1: "length bs1 = length bs" by (rule keepsD(6) [OF 1])
    show ?thesis
    proof (cases "reachable_flag (bs1 ! k)")
      case True
      then have "ch' = ch" "bs' = bs1" using res False k
        by (auto simp: mark_handler_def bs1_def)
      then show ?thesis using 1 True k kl len1 block_of_length [OF len1]
        by (auto simp: entry_marked_def marked_def)
    next
      case unmarked: False
      then have r: "ch'" "zend_mark_reachable fuel (opcodes oa) cflags (int k) bs1 = Some bs'"
        using res False k by (auto simp: mark_handler_def bs1_def bind_eq_Some_conv)
      have wf1: "wf_blocks (opcodes oa) bs1" using keepsD(7) [OF 1] wf by blast
      have 2: "keeps (ch, bs1) (ch', bs')" "k \<in> marked bs'"
        using keeps_mark [OF wf1 _ _ r(2)] kl len1 fuel r(1) by simp_all
      have 3: "keeps (ch, bs) (ch', bs')" by (rule keeps_trans [OF 1 2(1)])
      then show ?thesis using 2(2) k block_of_length [OF keepsD(6) [OF 3]]
        by (auto simp: entry_marked_def)
    qed
  qed
  then show "keeps (ch, bs) (ch', bs')" and "entry_marked block_map bs' x" by simp_all
qed

lemma fix_try_start_keeps:
  assumes wf: "wf_blocks (opcodes oa) bs" and fuel: "length bs < fuel"
    and res: "fix_try_start fuel oa cflags block_map (ch, tc, bs) = Some (ch', tc', bs')"
  shows "keeps (ch, bs) (ch', bs')"
  using res unfolding fix_try_start_def
  by (auto simp: bind_eq_Some_conv Let_def keeps_refl split: if_splits option.splits
      dest!: block_ofD intro: keeps_mark(1) [OF wf _ fuel])

definition handlers_marked :: "u32 list \<Rightarrow> zend_basic_block list \<Rightarrow> zend_try_catch_element \<Rightarrow> bool" where
  "handlers_marked block_map bs tc \<longleftrightarrow>
     (\<forall>k\<in>marked bs. block_of block_map bs (try_op tc) = Some k \<longrightarrow>
        entry_marked block_map bs (catch_op tc) \<and> entry_marked block_map bs (finally_op tc) \<and>
        entry_marked block_map bs (finally_end tc))"

lemma handlers_marked_cong:
  assumes "keeps (ch, bs) (ch', bs')" "\<not> ch'"
  shows "handlers_marked block_map bs' tc = handlers_marked block_map bs tc"
  using keepsD(5,6) [OF assms(1)] assms(2) block_of_length [of bs' bs]
  by (simp add: handlers_marked_def entry_marked_def)

lemma mark_try_keeps:
  assumes wf: "wf_blocks (opcodes oa) bs" and fuel: "length bs < fuel"
    and res: "mark_try fuel oa cflags block_map (ch, tc, bs) = Some (ch', tc', bs')"
  shows "keeps (ch, bs) (ch', bs')" and "handlers_marked block_map bs' tc'"
proof -
  obtain c1 b1 k where 1: "fix_try_start fuel oa cflags block_map (ch, tc, bs) = Some (c1, tc', b1)"
    and k: "block_of block_map b1 (try_op tc') = Some k"
    using res unfolding mark_try_def by (auto simp: bind_eq_Some_conv Let_def split: if_splits)
  have k1: "keeps (ch, bs) (c1, b1)" by (rule fix_try_start_keeps [OF wf fuel 1])
  have "keeps (ch, bs) (ch', bs') \<and> handlers_marked block_map bs' tc'"
  proof (cases "reachable_flag (b1 ! k)")
    case False
    then have "ch' = c1" "bs' = b1" using res 1 k
      unfolding mark_try_def by (auto simp: bind_eq_Some_conv)
    moreover have "handlers_marked block_map b1 tc'"
      using False k by (auto simp: handlers_marked_def marked_def)
    ultimately show ?thesis using k1 by simp
  next
    case True
    define b2 where "b2 = b1[k := or_flags ZEND_BB_TRY (b1 ! k)]"
    obtain c3 b3 c4 b4 where
      3: "mark_handler fuel oa cflags block_map (catch_op tc') ZEND_BB_CATCH (c1, b2) = Some (c3, b3)" and
      4: "mark_handler fuel oa cflags block_map (finally_op tc') ZEND_BB_FINALLY (c3, b3) = Some (c4, b4)" and
      5: "mark_handler fuel oa cflags block_map (finally_end tc') ZEND_BB_FINALLY_END (c4, b4)
            = Some (ch', bs')"
      using res 1 k True unfolding mark_try_def by (auto simp: bind_eq_Some_conv Let_def b2_def)
    have k2: "keeps (c1, b1) (c1, b2)"
      unfolding b2_def by (rule keeps_or_flags [OF block_ofD [OF k]]) simp
    have wf2: "wf_blocks (opcodes oa) b2" and fuel2: "length b2 < fuel"
      using keepsD [OF k1] keepsD [OF k2] wf fuel by auto
    note h3 = mark_handler_keeps [OF wf2 fuel2 edge_flags_keep_reachable(9) 3]
    have wf3: "wf_blocks (opcodes oa) b3" and fuel3: "length b3 < fuel"
      using keepsD [OF h3(1)] wf2 fuel2 by auto
    note h4 = mark_handler_keeps [OF wf3 fuel3 edge_flags_keep_reachable(10) 4]
    have wf4: "wf_blocks (opcodes oa) b4" and fuel4: "length b4 < fuel"
      using keepsD [OF h4(1)] wf3 fuel3 by auto
    note h5 = mark_handler_keeps [OF wf4 fuel4 edge_flags_keep_reachable(11) 5]
    have "entry_marked block_map bs' (catch_op tc')" "entry_marked block_map bs' (finally_op tc')"
      using entry_marked_mono [OF h3(2) keeps_trans [OF h4(1) h5(1)]]
        entry_marked_mono [OF h4(2) h5(1)] by simp_all
    then have "handlers_marked block_map bs' tc'" using h5(2) by (simp add: handlers_marked_def)
    moreover have "keeps (ch, bs) (ch', bs')"
      by (rule keeps_trans [OF k1 keeps_trans [OF k2 keeps_trans [OF h3(1) keeps_trans [OF h4(1) h5(1)]]]])
    ultimately show ?thesis by simp
  qed
  then show "keeps (ch, bs) (ch', bs')" and "handlers_marked block_map bs' tc'" by simp_all
qed

lemma mark_tries_length:
  "mark_tries fuel oa cflags block_map tcs (ch, bs) = Some (ch', tcs', bs') \<Longrightarrow>
   length tcs' = length tcs"
  by (induction tcs arbitrary: ch bs tcs') (auto simp: bind_eq_Some_conv)

lemma mark_tries_keeps:
  "wf_blocks (opcodes oa) bs \<Longrightarrow> length bs < fuel \<Longrightarrow>
   mark_tries fuel oa cflags block_map tcs (ch, bs) = Some (ch', tcs', bs') \<Longrightarrow>
   keeps (ch, bs) (ch', bs') \<and> (\<not> ch' \<longrightarrow> (\<forall>tc\<in>set tcs'. handlers_marked block_map bs' tc))"
proof (induction tcs arbitrary: ch bs tcs')
  case Nil
  then show ?case by (simp add: keeps_refl)
next
  case (Cons tc tcs)
  obtain c1 tc' b1 tcs1 where
    1: "mark_try fuel oa cflags block_map (ch, tc, bs) = Some (c1, tc', b1)" and
    2: "mark_tries fuel oa cflags block_map tcs (c1, b1) = Some (ch', tcs1, bs')" and
    tcs': "tcs' = tc' # tcs1"
    using Cons.prems(3) by (auto simp: bind_eq_Some_conv)
  note k1 = mark_try_keeps [OF Cons.prems(1,2) 1]
  have "wf_blocks (opcodes oa) b1" "length b1 < fuel"
    using keepsD [OF k1(1)] Cons.prems(1,2) by auto
  note k2 = Cons.IH [OF this 2]
  have "handlers_marked block_map bs' tc'" if "\<not> ch'"
    using handlers_marked_cong [of c1 b1 ch' bs' block_map tc'] k2 k1(2) that by blast
  then show ?case using k1(1) k2 tcs' keeps_trans by auto
qed

lemma mark_tries_loop_keeps:
  "wf_blocks (opcodes oa) bs \<Longrightarrow> length bs < fuel \<Longrightarrow>
   mark_tries_loop n fuel oa cflags block_map tcs bs = Some (tcs', bs') \<Longrightarrow>
   keeps (True, bs) (True, bs') \<and> (\<forall>tc\<in>set tcs'. handlers_marked block_map bs' tc)"
proof (induction n arbitrary: tcs bs)
  case (Suc n)
  obtain ch tcs1 b1 where
    1: "mark_tries fuel oa cflags block_map tcs (False, bs) = Some (ch, tcs1, b1)"
    using Suc.prems(3) by (auto simp: bind_eq_Some_conv)
  note k1 = mark_tries_keeps [OF Suc.prems(1,2) 1]
  have k1': "keeps (True, bs) (True, b1)" using k1 by (auto simp: keeps_def)
  have wf1: "wf_blocks (opcodes oa) b1" "length b1 < fuel"
    using keepsD [OF k1'] Suc.prems(1,2) by auto
  show ?case
  proof (cases ch)
    case True
    then have "mark_tries_loop n fuel oa cflags block_map tcs1 b1 = Some (tcs', bs')"
      using Suc.prems(3) 1 by simp
    from Suc.IH [OF wf1 this] show ?thesis using k1' keeps_trans by blast
  next
    case False
    then show ?thesis using Suc.prems(3) 1 k1 k1' by simp
  qed
qed simp

text \<open>The repetitions end: a pass that changes something marks a new block or gives a try/catch
  element a reachable start, and neither is ever undone.\<close>

definition lost_try :: "u32 list \<Rightarrow> zend_basic_block list \<Rightarrow> zend_try_catch_element \<Rightarrow> nat" where
  "lost_try block_map bs tc =
     (if \<exists>k\<in>marked bs. block_of block_map bs (try_op tc) = Some k then 0 else 1)"

definition unmarked :: "zend_basic_block list \<Rightarrow> nat" where
  "unmarked bs = card ({..<length bs} - marked bs)"

lemma keeps_unmarked:
  assumes "keeps (ch, bs) (ch', bs')"
  shows "unmarked bs' \<le> unmarked bs"
    and "k \<in> marked bs' \<Longrightarrow> k \<notin> marked bs \<Longrightarrow> unmarked bs' < unmarked bs"
proof -
  note D = keepsD(2,6) [OF assms]
  show "unmarked bs' \<le> unmarked bs" using D unfolding unmarked_def by (intro card_mono) auto
  assume "k \<in> marked bs'" "k \<notin> marked bs"
  then show "unmarked bs' < unmarked bs"
    using D marked_less [of bs'] unfolding unmarked_def by (intro psubset_card_mono) auto
qed

lemma keeps_lost:
  assumes "keeps (ch, bs) (ch', bs')"
  shows "lost_try block_map bs' tc \<le> lost_try block_map bs tc"
  using keepsD(2) [OF assms] block_of_length [OF keepsD(6) [OF assms], of block_map "try_op tc"]
  by (auto simp: lost_try_def)

lemma mark_handler_progress:
  assumes wf: "wf_blocks (opcodes oa) bs" and fuel: "length bs < fuel"
    and fl: "\<not> bits_set fl ZEND_BB_REACHABLE"
    and res: "mark_handler fuel oa cflags block_map x fl (ch, bs) = Some (ch', bs')"
    and "ch'" "\<not> ch"
  shows "unmarked bs' < unmarked bs"
proof -
  obtain k where k: "x \<noteq> 0" "block_of block_map bs x = Some k"
    using res assms(5,6) by (auto simp: mark_handler_def bind_eq_Some_conv split: if_splits)
  define bs1 where "bs1 = bs[k := or_flags fl (bs ! k)]"
  have kl: "k < length bs" by (rule block_ofD [OF k(2)])
  have 1: "keeps (ch, bs) (ch, bs1)" unfolding bs1_def by (rule keeps_or_flags [OF kl fl])
  have un: "\<not> reachable_flag (bs1 ! k)"
    and m: "zend_mark_reachable fuel (opcodes oa) cflags (int k) bs1 = Some bs'"
    using res k assms(5,6)
    by (auto simp: mark_handler_def bs1_def bind_eq_Some_conv Let_def split: if_splits)
  have wf1: "wf_blocks (opcodes oa) bs1" and l1: "length bs1 = length bs"
    using keepsD(6,7) [OF 1] wf by blast+
  have "keeps (ch, bs1) (True, bs')" "k \<in> marked bs'" "k \<notin> marked bs1"
    using keeps_mark [OF wf1 _ _ m] kl l1 fuel un by (simp_all add: marked_def)
  from keeps_unmarked(2) [OF this] keeps_unmarked(1) [OF 1] show ?thesis by simp
qed

lemma fix_try_start_progress:
  assumes wf: "wf_blocks (opcodes oa) bs" and fuel: "length bs < fuel"
    and res: "fix_try_start fuel oa cflags block_map (ch, tc, bs) = Some (ch', tc', bs')"
  shows "lost_try block_map bs' tc' \<le> lost_try block_map bs tc"
    and "ch' \<Longrightarrow> \<not> ch \<Longrightarrow> lost_try block_map bs' tc' < lost_try block_map bs tc"
proof -
  obtain k where k: "block_of block_map bs (try_op tc) = Some k"
    using res by (auto simp: fix_try_start_def bind_eq_Some_conv)
  have "lost_try block_map bs' tc' \<le> lost_try block_map bs tc \<and>
    (ch' \<and> \<not> ch \<longrightarrow> lost_try block_map bs' tc' < lost_try block_map bs tc)"
  proof (cases "reachable_flag (bs ! k)")
    case True
    then show ?thesis using res k by (auto simp: fix_try_start_def)
  next
    case False
    then have one: "lost_try block_map bs tc = 1" using k by (simp add: lost_try_def marked_def)
    have "lost_try block_map bs' tc' = 0" if ch: "ch'" "\<not> ch"
    proof -
      obtain h where h: "block_of block_map bs (try_op tc') = Some h"
        and m: "zend_mark_reachable fuel (opcodes oa) cflags (int h) bs = Some bs'"
        using res k False ch unfolding fix_try_start_def
        by (auto simp: bind_eq_Some_conv Let_def split: if_splits option.splits)
      have "h < length bs" by (rule block_ofD [OF h])
      then have "keeps (ch, bs) (True, bs')" "h \<in> marked bs'"
        using keeps_mark [OF wf _ fuel m] by simp_all
      then show ?thesis using h block_of_length [OF keepsD(6)] by (force simp: lost_try_def)
    qed
    then show ?thesis using one by (auto simp: lost_try_def)
  qed
  then show "lost_try block_map bs' tc' \<le> lost_try block_map bs tc"
    and "ch' \<Longrightarrow> \<not> ch \<Longrightarrow> lost_try block_map bs' tc' < lost_try block_map bs tc" by blast+
qed

lemma mark_try_progress:
  assumes wf: "wf_blocks (opcodes oa) bs" and fuel: "length bs < fuel"
    and res: "mark_try fuel oa cflags block_map (ch, tc, bs) = Some (ch', tc', bs')"
  shows "lost_try block_map bs' tc' \<le> lost_try block_map bs tc"
    and "ch' \<Longrightarrow> \<not> ch \<Longrightarrow> unmarked bs' + lost_try block_map bs' tc' < unmarked bs + lost_try block_map bs tc"
proof -
  obtain c1 b1 k where 1: "fix_try_start fuel oa cflags block_map (ch, tc, bs) = Some (c1, tc', b1)"
    and k: "block_of block_map b1 (try_op tc') = Some k"
    using res unfolding mark_try_def by (auto simp: bind_eq_Some_conv Let_def split: if_splits)
  have k1: "keeps (ch, bs) (c1, b1)" by (rule fix_try_start_keeps [OF wf fuel 1])
  note p1 = fix_try_start_progress [OF wf fuel 1]
  note k0 = mark_try_keeps(1) [OF wf fuel res]
  have rest: "keeps (c1, b1) (ch', bs') \<and> (ch' \<and> \<not> c1 \<longrightarrow> unmarked bs' < unmarked b1)"
  proof (cases "reachable_flag (b1 ! k)")
    case False
    then have "ch' = c1" "bs' = b1" using res 1 k
      unfolding mark_try_def by (auto simp: bind_eq_Some_conv)
    then show ?thesis by (simp add: keeps_refl)
  next
    case True
    define b2 where "b2 = b1[k := or_flags ZEND_BB_TRY (b1 ! k)]"
    obtain c3 b3 c4 b4 where
      3: "mark_handler fuel oa cflags block_map (catch_op tc') ZEND_BB_CATCH (c1, b2) = Some (c3, b3)" and
      4: "mark_handler fuel oa cflags block_map (finally_op tc') ZEND_BB_FINALLY (c3, b3) = Some (c4, b4)" and
      5: "mark_handler fuel oa cflags block_map (finally_end tc') ZEND_BB_FINALLY_END (c4, b4)
            = Some (ch', bs')"
      using res 1 k True unfolding mark_try_def by (auto simp: bind_eq_Some_conv Let_def b2_def)
    have k2: "keeps (c1, b1) (c1, b2)"
      unfolding b2_def by (rule keeps_or_flags [OF block_ofD [OF k]]) simp
    have wf2: "wf_blocks (opcodes oa) b2" and fuel2: "length b2 < fuel"
      using keepsD [OF k1] keepsD [OF k2] wf fuel by auto
    note h3 = mark_handler_keeps(1) [OF wf2 fuel2 edge_flags_keep_reachable(9) 3]
    have wf3: "wf_blocks (opcodes oa) b3" and fuel3: "length b3 < fuel"
      using keepsD [OF h3] wf2 fuel2 by auto
    note h4 = mark_handler_keeps(1) [OF wf3 fuel3 edge_flags_keep_reachable(10) 4]
    have wf4: "wf_blocks (opcodes oa) b4" and fuel4: "length b4 < fuel"
      using keepsD [OF h4] wf3 fuel3 by auto
    note h5 = mark_handler_keeps(1) [OF wf4 fuel4 edge_flags_keep_reachable(11) 5]
    note p3 = mark_handler_progress [OF wf2 fuel2 edge_flags_keep_reachable(9) 3]
    note p4 = mark_handler_progress [OF wf3 fuel3 edge_flags_keep_reachable(10) 4]
    note p5 = mark_handler_progress [OF wf4 fuel4 edge_flags_keep_reachable(11) 5]
    have "unmarked b2 \<le> unmarked b1" "unmarked b3 \<le> unmarked b2" "unmarked b4 \<le> unmarked b3"
      "unmarked bs' \<le> unmarked b4"
      using keeps_unmarked(1) [OF k2] keeps_unmarked(1) [OF h3] keeps_unmarked(1) [OF h4]
        keeps_unmarked(1) [OF h5] by simp_all
    moreover have "unmarked b3 < unmarked b2 \<or> unmarked b4 < unmarked b3 \<or> unmarked bs' < unmarked b4"
      if "ch'" "\<not> c1" using p3 p4 p5 that by blast
    ultimately show ?thesis
      using keeps_trans [OF k2 keeps_trans [OF h3 keeps_trans [OF h4 h5]]] by linarith
  qed
  have lost: "lost_try block_map bs' tc' \<le> lost_try block_map b1 tc'"
    using keeps_lost rest by blast
  then show "lost_try block_map bs' tc' \<le> lost_try block_map bs tc" using p1(1) by simp
  assume "ch'" "\<not> ch"
  then show "unmarked bs' + lost_try block_map bs' tc' < unmarked bs + lost_try block_map bs tc"
    using p1 rest lost keeps_unmarked(1) [OF k1] keeps_unmarked(1) [of c1 b1 ch' bs']
    by (cases c1) linarith+
qed

definition lost_tries :: "u32 list \<Rightarrow> zend_basic_block list \<Rightarrow> zend_try_catch_element list \<Rightarrow> nat" where
  "lost_tries block_map bs tcs = sum_list (map (lost_try block_map bs) tcs)"

lemma mark_tries_progress:
  "wf_blocks (opcodes oa) bs \<Longrightarrow> length bs < fuel \<Longrightarrow>
   mark_tries fuel oa cflags block_map tcs (ch, bs) = Some (ch', tcs', bs') \<Longrightarrow>
   lost_tries block_map bs' tcs' \<le> lost_tries block_map bs tcs \<and>
   (ch' \<and> \<not> ch \<longrightarrow> unmarked bs' + lost_tries block_map bs' tcs' < unmarked bs + lost_tries block_map bs tcs)"
proof (induction tcs arbitrary: ch bs tcs')
  case Nil
  then show ?case by simp
next
  case (Cons tc tcs)
  obtain c1 tc' b1 tcs1 where
    1: "mark_try fuel oa cflags block_map (ch, tc, bs) = Some (c1, tc', b1)" and
    2: "mark_tries fuel oa cflags block_map tcs (c1, b1) = Some (ch', tcs1, bs')" and
    tcs': "tcs' = tc' # tcs1"
    using Cons.prems(3) by (auto simp: bind_eq_Some_conv)
  note k1 = mark_try_keeps(1) [OF Cons.prems(1,2) 1]
  have wf1: "wf_blocks (opcodes oa) b1" "length b1 < fuel"
    using keepsD [OF k1] Cons.prems(1,2) by auto
  note k2 = mark_tries_keeps [OF wf1 2, THEN conjunct1]
  note p1 = mark_try_progress [OF Cons.prems(1,2) 1] and p2 = Cons.IH [OF wf1 2]
  have "lost_tries block_map b1 tcs \<le> lost_tries block_map bs tcs"
    unfolding lost_tries_def by (intro sum_list_mono keeps_lost [OF k1])
  moreover have "lost_try block_map bs' tc' \<le> lost_try block_map b1 tc'" by (rule keeps_lost [OF k2])
  ultimately show ?case
    using p1 p2 tcs' keeps_unmarked(1) [OF k1] keeps_unmarked(1) [OF k2]
    by (cases c1; cases ch; cases ch'; simp add: lost_tries_def)
qed

text \<open>With enough fuel the loop fails only when a pass does, which is an access outside the
  block map or a violated assertion, never an endless repetition.\<close>

lemma mark_tries_loop_ends:
  "wf_blocks (opcodes oa) bs \<Longrightarrow> length bs < fuel \<Longrightarrow>
   unmarked bs + lost_tries block_map bs tcs < n \<Longrightarrow>
   mark_tries_loop n fuel oa cflags block_map tcs bs = None \<Longrightarrow>
   \<exists>tcs1 bs1. keeps (True, bs) (True, bs1) \<and> length tcs1 = length tcs \<and>
     mark_tries fuel oa cflags block_map tcs1 (False, bs1) = None"
proof (induction n arbitrary: tcs bs)
  case (Suc n)
  show ?case
  proof (cases "mark_tries fuel oa cflags block_map tcs (False, bs)")
    case None
    then show ?thesis using keeps_refl by blast
  next
    case (Some r)
    then obtain ch tcs1 b1 where
      1: "mark_tries fuel oa cflags block_map tcs (False, bs) = Some (ch, tcs1, b1)"
      by (cases r) auto
    have ch: "ch" and none: "mark_tries_loop n fuel oa cflags block_map tcs1 b1 = None"
      using Suc.prems(4) 1 by (auto split: if_splits)
    have k1: "keeps (True, bs) (True, b1)"
      using mark_tries_keeps [OF Suc.prems(1,2) 1] by (auto simp: keeps_def)
    have wf1: "wf_blocks (opcodes oa) b1" "length b1 < fuel"
      using keepsD [OF k1] Suc.prems(1,2) by auto
    have len: "length tcs1 = length tcs" by (rule mark_tries_length [OF 1])
    have "unmarked b1 + lost_tries block_map b1 tcs1 < n"
      using mark_tries_progress [OF Suc.prems(1,2) 1] ch Suc.prems(3) by simp
    from Suc.IH [OF wf1 this none] show ?thesis using k1 keeps_trans len by metis
  qed
qed simp

lemma mark_blocks_result:
  assumes wf: "wf_blocks (opcodes oa) (blocks cfg)" and k: "k < length (blocks cfg)"
    and none: "marked (blocks cfg) = {}"
  shows "case zend_mark_reachable_blocks oa cfg (int k) of
      Some (oa', cfg') \<Rightarrow>
        k \<in> marked (blocks cfg') \<and> edge_closed (blocks cfg') \<and>
        skeleton (blocks cfg') = skeleton (blocks cfg) \<and>
        cfg' = cfg\<lparr>blocks := blocks cfg'\<rparr> \<and> opcodes oa' = opcodes oa \<and>
        (\<forall>tc\<in>set (try_catch_array oa'). handlers_marked (cfg_map cfg) (blocks cfg') tc)
    | None \<Rightarrow> \<exists>tcs bs. skeleton bs = skeleton (blocks cfg) \<and>
        mark_tries (Suc (length (blocks cfg))) oa (cfg_flags cfg) (cfg_map cfg) tcs (False, bs) = None"
proof -
  let ?f = "Suc (length (blocks cfg))"
  define b0 where "b0 = (blocks cfg)[k := (blocks cfg ! k)\<lparr>flags := ZEND_BB_START\<rparr>]"
  have sk0: "skeleton b0 = skeleton (blocks cfg)"
    unfolding b0_def by (rule skeleton_update [OF k]) simp
  have len0: "length b0 = length (blocks cfg)" by (simp add: b0_def)
  have m0: "marked b0 = {}"
    using none k by (auto simp: b0_def marked_def nth_list_update reachable_flag_def bits_set_def)
  have wf0: "wf_blocks (opcodes oa) b0" using skeleton_wf [OF sk0] wf by blast
  have up: "update_block (blocks cfg) (int k) (\<lambda>b. b\<lparr>flags := ZEND_BB_START\<rparr>) = Some b0"
    using k by (simp add: update_block_eq b0_def)
  obtain b1 where b1: "zend_mark_reachable ?f (opcodes oa) (cfg_flags cfg) (int k) b0 = Some b1"
    "skeleton b1 = skeleton b0" "mark_post (cfg_edges b0) {k} (marked b0) (marked b1)"
    using mark_reachable_ok [OF wf0, of k ?f "cfg_flags cfg"] k len0 by auto
  have closed1: "edge_closed b1" "k \<in> marked b1"
    using b1(3) m0 skeleton_edges [OF b1(2)] by (auto simp: mark_post_def edge_closed_def)
  have sk1: "skeleton b1 = skeleton (blocks cfg)" using b1(2) sk0 by simp
  have wf1: "wf_blocks (opcodes oa) b1" using skeleton_wf [OF sk1] wf by blast
  have len1: "length b1 = length (blocks cfg)" using skeleton_length [OF sk1] .
  show ?thesis
  proof (cases "try_catch_array oa = []")
    case True
    then show ?thesis using up b1(1) sk1 closed1
      by (simp add: zend_mark_reachable_blocks_def Let_def)
  next
    case False
    let ?n = "?f + length (try_catch_array oa)"
    show ?thesis
    proof (cases "mark_tries_loop ?n ?f oa (cfg_flags cfg) (cfg_map cfg) (try_catch_array oa) b1")
      case None
      have "unmarked b1 \<le> length b1"
        unfolding unmarked_def using card_mono [of "{..<length b1}" "{..<length b1} - marked b1"] by auto
      moreover have "lost_tries (cfg_map cfg) b1 tcs \<le> length tcs" for tcs
        by (induction tcs) (auto simp: lost_tries_def lost_try_def)
      ultimately have "unmarked b1 + lost_tries (cfg_map cfg) b1 (try_catch_array oa) < ?n"
        using len1 by (metis add_Suc add_le_mono le_imp_less_Suc)
      from mark_tries_loop_ends [OF wf1 _ this None] len1
      obtain tcs bs where "keeps (True, b1) (True, bs)"
        "mark_tries ?f oa (cfg_flags cfg) (cfg_map cfg) tcs (False, bs) = None" by auto
      then have "skeleton bs = skeleton (blocks cfg)" using keepsD(1) [of True b1 True bs] sk1 by simp
      moreover have "zend_mark_reachable_blocks oa cfg (int k) = None"
        using None up b1(1) False
        by (simp add: zend_mark_reachable_blocks_def Let_def
            del: mark_tries_loop.simps zend_mark_reachable.simps)
      ultimately show ?thesis
        using \<open>mark_tries ?f oa (cfg_flags cfg) (cfg_map cfg) tcs (False, bs) = None\<close> by auto
    next
      case (Some r)
      then obtain tcs b2 where
        2: "mark_tries_loop ?n ?f oa (cfg_flags cfg) (cfg_map cfg) (try_catch_array oa) b1 = Some (tcs, b2)"
        by (cases r) auto
      have l: "length b1 < ?f" using len1 by simp
      note k2 = mark_tries_loop_keeps [OF wf1 l 2]
      note D = keepsD [OF k2 [THEN conjunct1]]
      have "zend_mark_reachable_blocks oa cfg (int k) =
          Some (oa\<lparr>try_catch_array := tcs\<rparr>, cfg\<lparr>blocks := b2\<rparr>)"
        using up b1(1) False 2
        by (simp add: zend_mark_reachable_blocks_def Let_def
            del: mark_tries_loop.simps zend_mark_reachable.simps)
      moreover have "skeleton b2 = skeleton (blocks cfg)" using D(1) sk1 by simp
      ultimately show ?thesis using D(2,3) closed1 k2 by auto
    qed
  qed
qed

text \<open>C24: marking the blocks of a graph with exception paths. When it succeeds, the marked
  blocks contain the start block, are closed under the edges, and for every try/catch element
  whose start is marked they contain its catch, finally and finally-end blocks. The repetition
  of passes always ends: when there is no result, then one single pass over the elements failed,
  by an access outside the block map or a violated assertion.\<close>

theorem mark_reachable_blocks_closed:
  assumes "wf_blocks (opcodes oa) (blocks cfg)" and "k < length (blocks cfg)"
    and "marked (blocks cfg) = {}"
  shows "case zend_mark_reachable_blocks oa cfg (int k) of
      Some (oa', cfg') \<Rightarrow>
        k \<in> marked (blocks cfg') \<and> edge_closed (blocks cfg') \<and>
        skeleton (blocks cfg') = skeleton (blocks cfg) \<and>
        (\<forall>tc\<in>set (try_catch_array oa'). handlers_marked (cfg_map cfg) (blocks cfg') tc)
    | None \<Rightarrow> \<exists>tcs bs. skeleton bs = skeleton (blocks cfg) \<and>
        mark_tries (Suc (length (blocks cfg))) oa (cfg_flags cfg) (cfg_map cfg) tcs (False, bs) = None"
  using mark_blocks_result [OF assms] by (simp split: option.splits prod.splits)

lemma mark_blocks_no_try:
  assumes "wf_blocks (opcodes oa) (blocks cfg)" "k < length (blocks cfg)" "try_catch_array oa = []"
  shows "\<exists>cfg'. zend_mark_reachable_blocks oa cfg (int k) = Some (oa, cfg')"
proof -
  let ?b0 = "(blocks cfg)[k := (blocks cfg ! k)\<lparr>flags := ZEND_BB_START\<rparr>]"
  have sk: "skeleton ?b0 = skeleton (blocks cfg)" by (rule skeleton_update [OF assms(2)]) simp
  have "wf_blocks (opcodes oa) ?b0" using skeleton_wf [OF sk] assms(1) by blast
  then obtain bs' where "zend_mark_reachable (Suc (length (blocks cfg))) (opcodes oa) (cfg_flags cfg)
      (int k) ?b0 = Some bs'"
    by (rule mark_reachable_ok [of "opcodes oa" ?b0 k "Suc (length (blocks cfg))" "cfg_flags cfg"])
      (use assms(2) in simp_all)
  then show ?thesis using assms(2,3)
    by (simp add: zend_mark_reachable_blocks_def update_block_eq Let_def
        del: zend_mark_reachable.simps)
qed

subsection \<open>Examples\<close>

text \<open>A block that goes on to a second one, and a third one that nothing leads to.\<close>

definition three_blocks :: "zend_basic_block list" where
  "three_blocks = [zero_block\<lparr>successors := [1, 0], successors_count := 1\<rparr>, zero_block, zero_block]"

lemma marked_blank: "\<forall>b\<in>set bs. flags b = 0 \<Longrightarrow> marked bs = {}"
  by (auto simp: marked_def reachable_flag_def bits_set_def)

lemma three_blocks_ok: "wf_blocks [] three_blocks" "marked three_blocks = {}"
  by (simp add: wf_blocks_def wf_block_def three_blocks_def zero_block_def succs_def)
    (rule marked_blank, simp add: three_blocks_def zero_block_def)

theorem mark_reachable_is_reachability_witness:
  "\<exists>bs'. zend_mark_reachable 4 [] 0 0 three_blocks = Some bs' \<and>
     marked bs' = (cfg_edges three_blocks)\<^sup>* `` {0}"
proof -
  have "0 < length three_blocks" "Suc (length three_blocks) = 4" by (simp_all add: three_blocks_def)
  then show ?thesis
    using mark_reachable_is_reachability [OF three_blocks_ok(1) _ three_blocks_ok(2), of 0 0] by auto
qed

definition three_cfg :: zend_cfg where
  "three_cfg = \<lparr>blocks_count = 3, blocks = three_blocks, cfg_map = [0, 1, 2], cfg_flags = 0\<rparr>"

definition three_ops :: zend_op_array where
  "three_ops = \<lparr>opcodes = [], literals = [], literals_offset = 0, function_name = None,
     try_catch_array = [\<lparr>try_op = 1, catch_op = 2, finally_op = 0, finally_end = 0\<rparr>]\<rparr>"

theorem mark_reachable_blocks_closed_witness:
  "\<exists>oa cfg. zend_mark_reachable_blocks three_ops three_cfg 0 = Some (oa, cfg) \<and>
     0 \<in> marked (blocks cfg) \<and> edge_closed (blocks cfg) \<and>
     (\<forall>tc\<in>set (try_catch_array oa). handlers_marked [0, 1, 2] (blocks cfg) tc)"
proof -
  have "\<not> Option.is_none (zend_mark_reachable_blocks three_ops three_cfg 0)" by code_simp
  then obtain oa cfg where r: "zend_mark_reachable_blocks three_ops three_cfg 0 = Some (oa, cfg)"
    by (auto simp: Option.is_none_def)
  have "wf_blocks (opcodes three_ops) (blocks three_cfg)" "0 < length (blocks three_cfg)"
    "marked (blocks three_cfg) = {}"
    using three_blocks_ok by (simp_all add: three_ops_def three_cfg_def three_blocks_def)
  from mark_reachable_blocks_closed [OF this] r show ?thesis by (simp add: three_cfg_def)
qed

end
