(* ===== verification/Zend_Cfg_Blocks.thy ===== *)
theory Zend_Cfg_Blocks
  imports Zend_Cfg_Correct
begin

text \<open>
  The blocks of a control flow graph: which instructions start a block, that the blocks cut the
  instructions into consecutive pieces, and that the successors of a block are the blocks of
  the instructions its last instruction can go on to.
\<close>

subsection \<open>Counting references\<close>

text \<open>The state of \<open>BB_START\<close> after the references \<open>ts\<close>.\<close>

definition counted :: "nat \<Rightarrow> int list \<Rightarrow> u32 list \<times> int \<Rightarrow> bool" where
  "counted N ts s \<longleftrightarrow> length (fst s) = N \<and> set ts \<subseteq> {0..<int N} \<and> length ts < 2 ^ 32 \<and>
     (\<forall>k<N. fst s ! k = word_of_nat (count_list ts (int k))) \<and> snd s = int (card (set ts))"

lemma counted_Nil: "counted N [] (replicate N 0, 0)"
  by (simp add: counted_def)

lemma count_word_0:
  assumes "length ts < 2 ^ 32"
  shows "(word_of_nat (count_list ts x) :: u32) = 0 \<longleftrightarrow> x \<notin> set ts"
proof -
  have "count_list ts x < 2 ^ 32"
    using assms count_le_length [of ts x] by (rule le_less_trans [rotated])
  then have "unat (word_of_nat (count_list ts x) :: u32) = count_list ts x"
    by (simp add: unsigned_of_nat take_bit_nat_eq_self)
  then have "(word_of_nat (count_list ts x) :: u32) = 0 \<longleftrightarrow> count_list ts x = 0"
    by (metis unat_eq_0)
  then show ?thesis by (simp add: count_list_0_iff)
qed

lemma counted_nonzero:
  "counted N ts s \<Longrightarrow> k < N \<Longrightarrow> fst s ! k \<noteq> 0 \<longleftrightarrow> int k \<in> set ts"
  using count_word_0 [of ts "int k"] by (simp add: counted_def)

lemma BB_START_counted:
  assumes "counted N ts s" "0 \<le> t" "t < int N" "Suc (length ts) < 2 ^ 32"
  shows "\<exists>s'. BB_START t s = Some s' \<and> counted N (ts @ [t]) s'"
proof -
  obtain block_map n where s: "s = (block_map, n)" by (cases s)
  obtain j where t: "t = int j" "j < N" using assms(2,3) by (metis nonneg_int_cases of_nat_less_iff)
  have len: "length block_map = N" using assms(1) s by (simp add: counted_def)
  have "block_map ! j = 0 \<longleftrightarrow> t \<notin> set ts" using counted_nonzero [OF assms(1) t(2)] s t(1) by auto
  then have card: "(if block_map ! j = 0 then n + 1 else n) = int (card (set (ts @ [t])))"
    using assms(1) s by (auto simp: counted_def insert_absorb)
  have "counted N (ts @ [t]) (block_map[j := block_map ! j + 1], int (card (set (ts @ [t]))))"
    using assms(1,4) s t by (auto simp: counted_def nth_list_update)
  then show ?thesis using len card s t by (simp add: BB_START_def)
qed

lemma bb_starts_counted:
  "counted N ts s \<Longrightarrow> set us \<subseteq> {0..<int N} \<Longrightarrow> length ts + length us < 2 ^ 32 \<Longrightarrow>
   \<exists>s'. bb_starts us s = Some s' \<and> counted N (ts @ us) s'"
proof (induction us arbitrary: ts s)
  case (Cons u us)
  obtain s1 where 1: "BB_START u s = Some s1" "counted N (ts @ [u]) s1"
    using BB_START_counted [OF Cons.prems(1), of u] Cons.prems(2,3) by auto
  show ?case using Cons.IH [OF 1(2)] Cons.prems(2,3) 1(1) by auto
qed simp

subsection \<open>Step 1\<close>

text \<open>All references of the instructions, and of the whole function, in the order of the code.\<close>

fun scan_starts :: "nat \<Rightarrow> nat \<Rightarrow> (string \<Rightarrow> bool) \<Rightarrow> u32 \<Rightarrow> zend_op_array \<Rightarrow> int list option" where
  "scan_starts 0 i is_internal build_flags oa = Some []"
| "scan_starts (Suc n) i is_internal build_flags oa =
     do { (f, ts) \<leftarrow> cfg_scan_op is_internal build_flags oa i;
          us \<leftarrow> scan_starts n (Suc i) is_internal build_flags oa;
          Some (ts @ us) }"

definition cfg_starts :: "(string \<Rightarrow> bool) \<Rightarrow> u32 \<Rightarrow> zend_op_array \<Rightarrow> int list option" where
  "cfg_starts is_internal build_flags oa =
     do { ts \<leftarrow> scan_starts (length (opcodes oa)) 0 is_internal build_flags oa;
          Some (0 # ts @ concat (map try_catch_starts (try_catch_array oa))) }"

text \<open>Instructions after which execution does not go on to the next one.\<close>

definition no_fall_through :: "u8 \<Rightarrow> bool" where
  "no_fall_through opc \<longleftrightarrow> opc \<in> {ZEND_FAST_RET, ZEND_RETURN, ZEND_RETURN_BY_REF,
     ZEND_GENERATOR_RETURN, ZEND_EXIT, ZEND_THROW, ZEND_JMP, ZEND_JMPZNZ}"

text \<open>What the builder needs of a function: its operands are well formed, all its jump targets,
  fall-throughs and try/catch entries are instructions of it, its last instruction does not
  fall through, and the numbers fit the C types.\<close>

definition cfg_input_ok :: "(string \<Rightarrow> bool) \<Rightarrow> u32 \<Rightarrow> zend_op_array \<Rightarrow> bool" where
  "cfg_input_ok is_internal build_flags oa \<longleftrightarrow>
     (case cfg_starts is_internal build_flags oa of
        None \<Rightarrow> False
      | Some ts \<Rightarrow> list_all (\<lambda>t. 0 \<le> t \<and> t < int (length (opcodes oa))) ts \<and>
                  length ts < 2 ^ 32 \<and> length (opcodes oa) < 2 ^ 31 - 1 \<and>
                  no_fall_through (opcode (last (opcodes oa))))"

lemma cfg_scan_counted:
  "counted N ts s \<Longrightarrow> scan_starts n i is_internal build_flags oa = Some us \<Longrightarrow>
   set us \<subseteq> {0..<int N} \<Longrightarrow> length ts + length us < 2 ^ 32 \<Longrightarrow>
   \<exists>fl' s'. cfg_scan n i is_internal build_flags oa fl s = Some (fl', s') \<and> counted N (ts @ us) s'"
proof (induction n arbitrary: i fl ts s us)
  case (Suc n)
  obtain f vs ws where 1: "cfg_scan_op is_internal build_flags oa i = Some (f, vs)"
    "scan_starts n (Suc i) is_internal build_flags oa = Some ws" "us = vs @ ws"
    using Suc.prems(2) by (auto simp: bind_eq_Some_conv)
  obtain s1 where 2: "bb_starts vs s = Some s1" "counted N (ts @ vs) s1"
    using bb_starts_counted [OF Suc.prems(1), of vs] Suc.prems(3,4) 1(3) by auto
  show ?case using Suc.IH [OF 2(2) 1(2), of "fl OR f"] Suc.prems(3,4) 1 2(1) by auto
qed simp

lemma cfg_step1_ok:
  assumes "cfg_input_ok is_internal build_flags oa"
  obtains fl extra block_map n ts where
    "cfg_step1 is_internal build_flags oa = Some (fl, extra, block_map, n)"
    "cfg_starts is_internal build_flags oa = Some ts" "counted (length (opcodes oa)) ts (block_map, int (card (set ts)))"
    "n = int (card (set ts)) + (if extra then 1 else 0)" "0 \<in> set ts"
    "length (opcodes oa) < 2 ^ 31 - 1" "0 < length (opcodes oa)"
    "no_fall_through (opcode (last (opcodes oa)))"
proof -
  let ?N = "length (opcodes oa)" and ?catches = "concat (map try_catch_starts (try_catch_array oa))"
  obtain us where us: "scan_starts ?N 0 is_internal build_flags oa = Some us"
    "cfg_starts is_internal build_flags oa = Some (0 # us @ ?catches)"
    using assms by (auto simp: cfg_input_ok_def cfg_starts_def bind_eq_Some_conv split: option.splits)
  have ok: "set (0 # us @ ?catches) \<subseteq> {0..<int ?N}" "length (0 # us @ ?catches) < 2 ^ 32"
    "?N < 2 ^ 31 - 1" and end_ok: "no_fall_through (opcode (last (opcodes oa)))"
    using assms us(2) by (auto simp: cfg_input_ok_def list_all_iff)
  then have pos: "0 < ?N" by auto
  obtain s0 where s0: "BB_START 0 (replicate ?N 0, 0) = Some s0" "counted ?N [0] s0"
    using BB_START_counted [OF counted_Nil, of 0 ?N] pos by auto
  obtain fl s1 where s1: "cfg_scan ?N 0 is_internal build_flags oa 0 s0 = Some (fl, s1)"
    "counted ?N (0 # us) s1"
    using cfg_scan_counted [OF s0(2) us(1), of 0] ok by auto
  obtain s2 where s2: "bb_starts ?catches s1 = Some s2" "counted ?N (0 # us @ ?catches) s2"
    using bb_starts_counted [OF s1(2), of ?catches] ok by auto
  obtain block_map where s2': "s2 = (block_map, int (card (set (0 # us @ ?catches))))"
    using s2(2) by (cases s2) (simp add: counted_def)
  let ?extra = "bits_set build_flags ZEND_CFG_NO_ENTRY_PREDECESSORS \<and> 0 < ?N \<and> 1 < fst s1 ! 0"
  have "cfg_step1 is_internal build_flags oa = Some (fl, ?extra, block_map,
      int (card (set (0 # us @ ?catches))) + (if ?extra then 1 else 0))"
    using s0(1) s1(1) s2(1) s2' by (simp add: cfg_step1_def Let_def)
  then show thesis
    using that us(2) s2(2) s2' ok(3) pos end_ok by (metis list.set_intros(1))
qed

subsection \<open>Step 2\<close>

text \<open>For a set \<open>S\<close> of block starts among \<open>N\<close> instructions: the number, the first instruction and
  the end of the block of instruction \<open>k\<close>; \<open>off\<close> is 1 when there is an extra entry block.\<close>

definition blk :: "nat set \<Rightarrow> nat \<Rightarrow> nat \<Rightarrow> nat" where
  "blk S off k = off + card {s \<in> S. s \<le> k} - 1"

definition bstart :: "nat set \<Rightarrow> nat \<Rightarrow> nat" where
  "bstart S k = Max {s \<in> S. s \<le> k}"

definition bend :: "nat set \<Rightarrow> nat \<Rightarrow> nat \<Rightarrow> nat" where
  "bend S N k = Min ({s \<in> S. k < s} \<union> {N})"

lemma upto_Suc: "{s \<in> S. s \<le> Suc k} = {s \<in> S. s \<le> k} \<union> (if Suc k \<in> S then {Suc k} else {})"
  by (auto simp: le_Suc_eq)

lemma blk_0: "0 \<in> S \<Longrightarrow> blk S off 0 = off"
proof -
  assume "0 \<in> S"
  then have "{s \<in> S. s \<le> 0} = {0}" by auto
  then show ?thesis by (simp add: blk_def)
qed

lemma card_upto_pos: "0 \<in> S \<Longrightarrow> 0 < card {s \<in> S. s \<le> (k :: nat)}"
  by (auto simp: card_gt_0_iff)

lemma blk_Suc:
  assumes "0 \<in> S"
  shows "blk S off (Suc k) = (if Suc k \<in> S then Suc (blk S off k) else blk S off k)"
  using card_upto_pos [OF assms, of k] by (auto simp: blk_def upto_Suc)

lemma bstart_Suc: "bstart S (Suc k) = (if Suc k \<in> S then Suc k else bstart S k)"
proof (cases "Suc k \<in> S")
  case True
  then show ?thesis unfolding bstart_def by (auto intro!: Max_eqI)
next
  case False
  then show ?thesis by (simp add: bstart_def upto_Suc)
qed

lemma bstart_in: "0 \<in> S \<Longrightarrow> bstart S k \<in> S \<and> bstart S k \<le> k"
proof -
  assume "0 \<in> S"
  then have "Max {s \<in> S. s \<le> k} \<in> {s \<in> S. s \<le> k}" by (intro Max_in) auto
  then show ?thesis by (simp add: bstart_def)
qed

lemma bend_gt: "finite S \<Longrightarrow> k < N \<Longrightarrow> k < bend S N k"
  by (auto simp: bend_def)

lemma bend_le: "finite S \<Longrightarrow> bend S N k \<le> N"
  by (auto simp: bend_def)

lemma blk_mono: "k \<le> k' \<Longrightarrow> blk S off k \<le> blk S off k'"
  unfolding blk_def by (intro diff_le_mono add_left_mono card_mono) auto

lemma blk_eq_iff:
  assumes "0 \<in> S" "k \<le> k'"
  shows "blk S off k = blk S off k' \<longleftrightarrow> (\<forall>s\<in>S. \<not> (k < s \<and> s \<le> k'))"
proof
  assume "blk S off k = blk S off k'"
  then have "card {s \<in> S. s \<le> k} = card {s \<in> S. s \<le> k'}"
    using card_upto_pos [OF assms(1), of k] card_upto_pos [OF assms(1), of k'] by (simp add: blk_def)
  moreover have "{s \<in> S. s \<le> k} \<subseteq> {s \<in> S. s \<le> k'}" "finite {s \<in> S. s \<le> k'}" using assms(2) by auto
  ultimately have "{s \<in> S. s \<le> k} = {s \<in> S. s \<le> k'}" by (metis card_subset_eq)
  then show "\<forall>s\<in>S. \<not> (k < s \<and> s \<le> k')" by (metis (mono_tags, lifting) CollectD CollectI not_le)
next
  assume "\<forall>s\<in>S. \<not> (k < s \<and> s \<le> k')"
  then have "{s \<in> S. s \<le> k} = {s \<in> S. s \<le> k'}" using assms(2) by (auto simp: not_less)
  then show "blk S off k = blk S off k'" by (simp add: blk_def)
qed

lemma bstart_blk_eq:
  assumes "0 \<in> S" "k \<le> k'" "blk S off k = blk S off k'"
  shows "bstart S k = bstart S k'"
proof -
  have "{s \<in> S. s \<le> k} = {s \<in> S. s \<le> k'}"
    using blk_eq_iff [OF assms(1,2)] assms(2,3) by (auto simp: not_less)
  then show ?thesis by (simp add: bstart_def)
qed

lemma bend_next:
  assumes "finite S" "0 \<in> S" "k \<le> i" "blk S off k = blk S off i" "Suc i \<in> S \<or> Suc i = N" "S \<subseteq> {..<N}"
  shows "bend S N k = Suc i"
proof -
  have no: "\<forall>s\<in>S. \<not> (k < s \<and> s \<le> i)" using blk_eq_iff [OF assms(2,3)] assms(4) by simp
  show ?thesis unfolding bend_def
  proof (rule Min_eqI)
    show "finite ({s \<in> S. k < s} \<union> {N})" using assms(1) by simp
    show "Suc i \<in> {s \<in> S. k < s} \<union> {N}" using assms(3,5) by auto
    fix y assume "y \<in> {s \<in> S. k < s} \<union> {N}"
    then show "Suc i \<le> y" using no assms(5,6) by (auto simp: not_le Suc_le_eq)
  qed
qed

text \<open>The state of the cutting loop before instruction \<open>i\<close>.\<close>

definition cut_inv :: "nat set \<Rightarrow> nat \<Rightarrow> nat \<Rightarrow> nat \<Rightarrow> u32 list \<times> zend_basic_block list \<times> int \<Rightarrow> bool" where
  "cut_inv S off N i s \<longleftrightarrow>
     (case s of (block_map, bs, m) \<Rightarrow>
        length block_map = N \<and> length bs = off + card S \<and>
        m = (if i = 0 then int off - 1 else int (blk S off (i - 1))) \<and>
        (\<forall>k<i. block_map ! k = word_of_nat (blk S off k)) \<and>
        (\<forall>k. i \<le> k \<longrightarrow> k < N \<longrightarrow> (block_map ! k \<noteq> 0 \<longleftrightarrow> k \<in> S)) \<and>
        (\<forall>k<i. start (bs ! blk S off k) = word_of_nat (bstart S k)) \<and>
        (\<forall>k<i. int (blk S off k) < m \<longrightarrow>
             len (bs ! blk S off k) = word_of_nat (bend S N k - bstart S k)) \<and>
        (\<forall>b\<in>set bs. successors b = [0, 0] \<and> successors_count b = 0 \<and> flags b = 0) \<and>
        (off = 1 \<longrightarrow> start (bs ! 0) = 0 \<and> len (bs ! 0) = 0))"

lemma blk_less: "finite S \<Longrightarrow> 0 \<in> S \<Longrightarrow> blk S off k < off + card S"
proof -
  assume "finite S" "0 \<in> S"
  then have "card {s \<in> S. s \<le> k} \<le> card S" "0 < card S"
    by (auto intro: card_mono simp: card_gt_0_iff)
  then show ?thesis by (simp add: blk_def)
qed

lemma blk_ge: "0 \<in> S \<Longrightarrow> off \<le> blk S off k"
  using card_upto_pos [of S k] by (simp add: blk_def)

lemma set_list_update_all: "(\<forall>x\<in>set xs. P x) \<Longrightarrow> P y \<Longrightarrow> (\<forall>x\<in>set (xs[i := y]). P x)"
  using set_update_subset_insert [of xs i y] by auto

lemma cut_step_same:
  assumes "finite S" "0 \<in> S" "cut_inv S off N (Suc j) s" "Suc j < N" "Suc j \<notin> S"
  shows "\<exists>s'. cfg_cut (Suc n) (Suc j) s = cfg_cut n (Suc (Suc j)) s' \<and> cut_inv S off N (Suc (Suc j)) s'"
proof -
  obtain block_map bs m where s: "s = (block_map, bs, m)" by (cases s) auto
  note inv = assms(3) [unfolded cut_inv_def s prod.case]
  have m: "m = int (blk S off j)" using inv by simp
  have same: "blk S off (Suc j) = blk S off j" "bstart S (Suc j) = bstart S j"
    using assms(2,5) by (simp_all add: blk_Suc bstart_Suc)
  let ?s' = "(block_map[Suc j := word_of_int m], bs, m)"
  have zero: "block_map ! Suc j = 0" and len: "length block_map = N" using inv assms(4,5) by auto
  then have "cfg_cut (Suc n) (Suc j) s = cfg_cut n (Suc (Suc j)) ?s'"
    using s assms(4) by simp
  moreover have "cut_inv S off N (Suc (Suc j)) ?s'"
    unfolding cut_inv_def prod.case
    using inv m same assms(4) by (auto simp: nth_list_update less_Suc_eq)
  ultimately show ?thesis by blast
qed

lemma cut_step_first:
  assumes "finite S" "0 \<in> S" "cut_inv S off N 0 s" "0 < N" "off = 0 \<or> off = 1"
  shows "\<exists>s'. cfg_cut (Suc n) 0 s = cfg_cut n (Suc 0) s' \<and> cut_inv S off N (Suc 0) s'"
proof -
  obtain block_map bs m where s: "s = (block_map, bs, m)" by (cases s) auto
  note inv = assms(3) [unfolded cut_inv_def s prod.case]
  have m: "m = int off - 1" and len: "length bs = off + card S" "length block_map = N"
    and nz: "block_map ! 0 \<noteq> 0"
    using inv assms(2,4) by auto
  have off: "off < length bs" using len assms(1,2) by (auto simp: card_gt_0_iff)
  have b0: "blk S off 0 = off" "bstart S 0 = 0"
    using assms(2) bstart_in [of S 0] by (simp_all add: blk_0)
  define bs1 where "bs1 = (if off = 1 then bs[0 := (bs ! 0)\<lparr>len := 0 - start (bs ! 0)\<rparr>] else bs)"
  define bs2 where "bs2 = bs1[off := (initialize_block (bs1 ! off))\<lparr>start := 0\<rparr>]"
  let ?s' = "(block_map[0 := word_of_nat off], bs2, int off)"
  have l1: "length bs1 = length bs" by (simp add: bs1_def)
  have up1: "(if 0 \<le> m then update_block bs m (\<lambda>b. b\<lparr>len := 0 - start b\<rparr>) else Some bs) = Some bs1"
  proof -
    have "0 < length bs" by (rule le_less_trans [OF le0 off])
    then show ?thesis using assms(5) m off by (elim disjE) (simp_all add: bs1_def update_block_eq)
  qed
  have up2: "update_block bs1 (m + 1) (\<lambda>b. (initialize_block b)\<lparr>start := 0\<rparr>) = Some bs2"
    using m off l1 by (simp add: update_block_eq bs2_def)
  have step: "cfg_cut (Suc n) 0 s = cfg_cut n (Suc 0) ?s'"
  proof (cases "0 \<le> m")
    case True
    then show ?thesis using s nz len assms(4) up1 up2 m by simp
  next
    case False
    then show ?thesis using s nz len assms(4) up1 up2 m by simp
  qed
  have blank1: "\<forall>b\<in>set bs1. successors b = [0, 0] \<and> successors_count b = 0 \<and> flags b = 0"
  proof (cases "off = 1")
    case True
    have blank: "\<forall>b\<in>set bs. successors b = [0, 0] \<and> successors_count b = 0 \<and> flags b = 0"
      using inv by simp
    moreover have "bs ! 0 \<in> set bs" by (rule nth_mem [OF le_less_trans [OF le0 off]])
    ultimately have "\<forall>b\<in>set (bs[0 := (bs ! 0)\<lparr>len := 0 - start (bs ! 0)\<rparr>]).
        successors b = [0, 0] \<and> successors_count b = 0 \<and> flags b = 0"
      by (intro set_list_update_all) auto
    then show ?thesis using True by (simp add: bs1_def)
  next
    case False
    then show ?thesis using inv by (simp add: bs1_def)
  qed
  have blank2: "\<forall>b\<in>set bs2. successors b = [0, 0] \<and> successors_count b = 0 \<and> flags b = 0"
    unfolding bs2_def by (rule set_list_update_all [OF blank1]) (simp add: initialize_block_def)
  have ex: "off = 1 \<longrightarrow> start (bs2 ! 0) = 0 \<and> len (bs2 ! 0) = 0"
  proof
    assume "off = 1"
    then show "start (bs2 ! 0) = 0 \<and> len (bs2 ! 0) = 0"
      using inv off by (simp add: bs2_def bs1_def)
  qed
  have st: "start (bs2 ! off) = 0" using off l1 by (simp add: bs2_def)
  have maps: "block_map[0 := word_of_nat off] ! 0 = word_of_nat off" using len assms(4) by simp
  have rest: "\<forall>k. Suc 0 \<le> k \<longrightarrow> k < N \<longrightarrow> (block_map[0 := word_of_nat off] ! k \<noteq> 0) = (k \<in> S)"
    using inv by (simp add: nth_list_update)
  have "cut_inv S off N (Suc 0) ?s'"
    unfolding cut_inv_def prod.case
    using b0 l1 len blank2 ex st maps rest by (simp add: bs2_def)
  then show ?thesis using step by blast
qed

lemma cut_step_new:
  assumes "finite S" "0 \<in> S" "S \<subseteq> {..<N}" "cut_inv S off N (Suc j) s" "Suc j < N" "Suc j \<in> S"
    "off = 0 \<or> off = 1"
  shows "\<exists>s'. cfg_cut (Suc n) (Suc j) s = cfg_cut n (Suc (Suc j)) s' \<and> cut_inv S off N (Suc (Suc j)) s'"
proof -
  obtain block_map bs m where s: "s = (block_map, bs, m)" by (cases s) auto
  note inv = assms(4) [unfolded cut_inv_def s prod.case]
  let ?b = "blk S off j"
  have m: "m = int ?b" and len: "length bs = off + card S" "length block_map = N"
    and nz: "block_map ! Suc j \<noteq> 0"
    using inv assms(5,6) by auto
  have next_b: "blk S off (Suc j) = Suc ?b" "bstart S (Suc j) = Suc j"
    using assms(2,6) by (simp_all add: blk_Suc bstart_Suc)
  have b: "Suc ?b < length bs" using blk_less [OF assms(1,2), of off "Suc j"] next_b len by simp
  define bs1 where "bs1 = bs[?b := (bs ! ?b)\<lparr>len := word_of_nat (Suc j) - start (bs ! ?b)\<rparr>]"
  define bs2 where "bs2 = bs1[Suc ?b := (initialize_block (bs1 ! Suc ?b))\<lparr>start := word_of_nat (Suc j)\<rparr>]"
  let ?s' = "(block_map[Suc j := word_of_int (int (Suc ?b))], bs2, int (Suc ?b))"
  have l1: "length bs1 = length bs" by (simp add: bs1_def)
  have up1: "update_block bs m (\<lambda>b. b\<lparr>len := word_of_nat (Suc j) - start b\<rparr>) = Some bs1"
    using m b by (simp add: bs1_def update_block_eq)
  have up2: "update_block bs1 (m + 1) (\<lambda>b. (initialize_block b)\<lparr>start := word_of_nat (Suc j)\<rparr>) = Some bs2"
    using m b l1 by (simp add: update_block_eq bs2_def nat_add_distrib)
  have step: "cfg_cut (Suc n) (Suc j) s = cfg_cut n (Suc (Suc j)) ?s'"
    using s nz len assms(5) up1 up2 m by (simp add: add.commute)
  have st: "start (bs ! ?b) = word_of_nat (bstart S j)" using inv by simp
  have "bstart S j \<le> Suc j" using bstart_in [OF assms(2), of j] by simp
  then have "word_of_nat (Suc j) - word_of_nat (bstart S j) = (word_of_nat (Suc j - bstart S j) :: u32)"
    by (simp only: of_nat_diff)
  then have len_b: "len (bs2 ! ?b) = word_of_nat (Suc j - bstart S j)"
    using b st by (simp add: bs2_def bs1_def)
  have start2: "start (bs2 ! k) = (if k = Suc ?b then word_of_nat (Suc j) else start (bs ! k))"
    if "k < length bs" for k
    using that b by (auto simp: bs2_def bs1_def nth_list_update)
  have len2: "len (bs2 ! k) = len (bs ! k)" if "k < length bs" "k \<noteq> ?b" "k \<noteq> Suc ?b" for k
    using that b by (auto simp: bs2_def bs1_def nth_list_update)
  have blank1: "\<forall>b\<in>set bs1. successors b = [0, 0] \<and> successors_count b = 0 \<and> flags b = 0"
    unfolding bs1_def using inv b by (intro set_list_update_all) (auto dest: nth_mem)
  have blank2: "\<forall>b\<in>set bs2. successors b = [0, 0] \<and> successors_count b = 0 \<and> flags b = 0"
    unfolding bs2_def by (rule set_list_update_all [OF blank1]) (simp add: initialize_block_def)
  have lb: "blk S off k < length bs" for k using blk_less [OF assms(1,2), of off k] len by simp
  have starts: "start (bs2 ! blk S off k) = word_of_nat (bstart S k)" if "k < Suc (Suc j)" for k
  proof (cases "k = Suc j")
    case True
    then show ?thesis using start2 [OF lb, of k] next_b by simp
  next
    case False
    then have "k \<le> j" using that by simp
    then have "blk S off k \<noteq> Suc ?b" using blk_mono [of k j S off] by simp
    then show ?thesis using start2 [OF lb, of k] inv \<open>k \<le> j\<close> by simp
  qed
  have lens: "len (bs2 ! blk S off k) = word_of_nat (bend S N k - bstart S k)"
    if k: "k < Suc (Suc j)" "int (blk S off k) < int (Suc ?b)" for k
  proof -
    have kj: "k \<le> j" using k next_b by (cases "k = Suc j") auto
    show ?thesis
    proof (cases "blk S off k = ?b")
      case True
      then have "bend S N k = Suc j" "bstart S k = bstart S j"
        using bend_next [OF assms(1,2) kj True _ assms(3)] assms(6) bstart_blk_eq [OF assms(2) kj True]
        by simp_all
      then show ?thesis using len_b True by simp
    next
      case False
      then have "int (blk S off k) < m" using k(2) m by simp
      then show ?thesis using inv kj len2 [OF lb False] k(2) by simp
    qed
  qed
  have ex: "off = 1 \<longrightarrow> start (bs2 ! 0) = 0 \<and> len (bs2 ! 0) = 0"
    using inv start2 [of 0] len2 [of 0] b blk_ge [OF assms(2), of off j] by auto
  have maps: "\<forall>k<Suc (Suc j). block_map[Suc j := word_of_int (int (Suc ?b))] ! k = word_of_nat (blk S off k)"
    using inv next_b len assms(5) by (auto simp: nth_list_update less_Suc_eq)
  have rest: "\<forall>k. Suc (Suc j) \<le> k \<longrightarrow> k < N \<longrightarrow>
      (block_map[Suc j := word_of_int (int (Suc ?b))] ! k \<noteq> 0) = (k \<in> S)"
    using inv by (auto simp: nth_list_update)
  have "cut_inv S off N (Suc (Suc j)) ?s'"
    unfolding cut_inv_def prod.case
    using maps rest starts lens blank2 ex l1 len next_b by (simp add: bs2_def)
  then show ?thesis using step by blast
qed

lemma cfg_cut_ok:
  assumes "finite S" "0 \<in> S" "S \<subseteq> {..<N}" "off = 0 \<or> off = 1"
  shows "cut_inv S off N i s \<Longrightarrow> i + n = N \<Longrightarrow> \<exists>s'. cfg_cut n i s = Some s' \<and> cut_inv S off N N s'"
proof (induction n arbitrary: i s)
  case 0
  then show ?case by simp
next
  case (Suc n)
  have "i < N" using Suc.prems(2) by simp
  then obtain s' where "cfg_cut (Suc n) i s = cfg_cut n (Suc i) s'" "cut_inv S off N (Suc i) s'"
    using cut_step_first [OF assms(1,2) _ _ assms(4), of N s n] cut_step_same [OF assms(1,2), of off N _ s n]
      cut_step_new [OF assms(1-3) _ _ _ assms(4), of _ s n] Suc.prems(1)
    by (cases i) blast+
  then show ?case using Suc.IH [of "Suc i" s'] Suc.prems(2) by auto
qed

text \<open>The result of step 2: the block map, starts and lengths are those of the cut at \<open>S\<close>.\<close>

definition cut_at :: "nat set \<Rightarrow> nat \<Rightarrow> nat \<Rightarrow> u32 list \<Rightarrow> zend_basic_block list \<Rightarrow> bool" where
  "cut_at S off N block_map bs \<longleftrightarrow>
     finite S \<and> 0 \<in> S \<and> S \<subseteq> {..<N} \<and> (off = 0 \<or> off = 1) \<and>
     length block_map = N \<and> length bs = off + card S \<and>
     (\<forall>k<N. block_map ! k = word_of_nat (blk S off k) \<and>
            start (bs ! blk S off k) = word_of_nat (bstart S k) \<and>
            len (bs ! blk S off k) = word_of_nat (bend S N k - bstart S k)) \<and>
     (off = 1 \<longrightarrow> start (bs ! 0) = 0 \<and> len (bs ! 0) = 0)"

definition blank_blocks :: "zend_basic_block list \<Rightarrow> bool" where
  "blank_blocks bs \<longleftrightarrow> (\<forall>b\<in>set bs. successors b = [0, 0] \<and> successors_count b = 0 \<and> flags b = 0)"

lemma cfg_step2_ok:
  assumes S: "finite S" "0 \<in> S" "S \<subseteq> {..<length (opcodes oa)}"
    and bm: "length block_map = length (opcodes oa)"
      "\<And>k. k < length (opcodes oa) \<Longrightarrow> block_map ! k \<noteq> 0 \<longleftrightarrow> k \<in> S"
    and n: "n = int (card S) + (if extra then 1 else 0)"
  obtains block_map' bs where "cfg_step2 oa extra block_map n = Some (block_map', bs, n)"
    "cut_at S (if extra then 1 else 0) (length (opcodes oa)) block_map' bs" "blank_blocks bs"
proof -
  let ?N = "length (opcodes oa)" and ?off = "if extra then 1 else 0 :: nat"
  have off: "?off = 0 \<or> ?off = 1" by simp
  have N: "0 < ?N" using S by auto
  have pos: "0 < card S" using S(1,2) by (auto simp: card_gt_0_iff)
  define bs0 where "bs0 = replicate (nat n) zero_block"
  have l0: "length bs0 = ?off + card S" using n by (simp add: bs0_def nat_add_distrib)
  define bs1 where "bs1 = (if extra then bs0[0 := (initialize_block (bs0 ! 0))\<lparr>start := 0, len := 0\<rparr>] else bs0)"
  define m1 where "m1 = int ?off - 1"
  have first: "(if extra
        then do { bs \<leftarrow> update_block bs0 0 (\<lambda>b. (initialize_block b)\<lparr>start := 0, len := 0\<rparr>); Some (bs, 0) }
        else Some (bs0, -1)) = Some (bs1, m1)"
    using l0 pos by (auto simp: update_block_eq bs1_def m1_def)
  have l1: "length bs1 = ?off + card S" using l0 by (simp add: bs1_def)
  have blank0: "\<forall>b\<in>set bs0. successors b = [0, 0] \<and> successors_count b = 0 \<and> flags b = 0"
    by (simp add: bs0_def zero_block_def)
  have blank1: "\<forall>b\<in>set bs1. successors b = [0, 0] \<and> successors_count b = 0 \<and> flags b = 0"
  proof (cases extra)
    case True
    have "\<forall>b\<in>set (bs0[0 := (initialize_block (bs0 ! 0))\<lparr>start := 0, len := 0\<rparr>]).
        successors b = [0, 0] \<and> successors_count b = 0 \<and> flags b = 0"
      by (rule set_list_update_all [OF blank0]) (simp add: initialize_block_def)
    then show ?thesis using True by (simp add: bs1_def)
  next
    case False
    then show ?thesis using blank0 by (simp add: bs1_def)
  qed
  have ex1: "?off = 1 \<longrightarrow> start (bs1 ! 0) = 0 \<and> len (bs1 ! 0) = 0"
    using l0 pos by (auto simp: bs1_def)
  have "cut_inv S ?off ?N 0 (block_map, bs1, m1)"
    unfolding cut_inv_def prod.case using bm l1 blank1 ex1 by (simp add: m1_def)
  then obtain s where s: "cfg_cut ?N 0 (block_map, bs1, m1) = Some s" "cut_inv S ?off ?N ?N s"
    using cfg_cut_ok [OF S off, of 0 "(block_map, bs1, m1)" ?N] by (metis add_0)
  obtain block_map' bs2 m where s': "s = (block_map', bs2, m)" by (cases s) auto
  note inv = s(2) [unfolded cut_inv_def s' prod.case]
  define l where "l = ?N - 1"
  have lN: "Suc l = ?N" "l < ?N" using N by (simp_all add: l_def)
  let ?b = "blk S ?off l"
  have m: "m = int ?b" using inv N by (simp add: l_def)
  have lb: "blk S ?off k < length bs2" for k using blk_less [OF S(1,2), of ?off k] inv by simp
  define bs3 where "bs3 = bs2[?b := (bs2 ! ?b)\<lparr>len := word_of_nat ?N - start (bs2 ! ?b)\<rparr>]"
  have up: "update_block bs2 m (\<lambda>b. b\<lparr>len := word_of_nat ?N - start b\<rparr>) = Some bs3"
    using m lb [of l] by (simp add: update_block_eq bs3_def)
  have all: "{x \<in> S. x \<le> l} = S" using S(3) lN by auto
  have "int ?b + 1 = n" using pos n by (simp add: blk_def all)
  then have res: "cfg_step2 oa extra block_map n = Some (block_map', bs3, n)"
    unfolding cfg_step2_def Let_def bs0_def [symmetric] first using s(1) s' up m by simp
  have start3: "start (bs3 ! k) = start (bs2 ! k)" if "k < length bs2" for k
    using that by (cases "k = ?b") (simp_all add: bs3_def)
  have st_l: "start (bs2 ! ?b) = word_of_nat (bstart S l)" using inv lN(2) by blast
  have "bstart S l \<le> ?N" using bstart_in [OF S(2), of l] lN by simp
  then have len_l: "len (bs3 ! ?b) = word_of_nat (?N - bstart S l)"
    using lb [of l] st_l by (simp add: bs3_def of_nat_diff)
  have lens: "len (bs3 ! blk S ?off k) = word_of_nat (bend S ?N k - bstart S k)" if k: "k < ?N" for k
  proof (cases "blk S ?off k = ?b")
    case True
    have "k \<le> l" using k lN by simp
    then have "bend S ?N k = ?N" "bstart S k = bstart S l"
      using bend_next [OF S(1,2) _ True _ S(3)] bstart_blk_eq [OF S(2) _ True] lN by simp_all
    then show ?thesis using len_l True by simp
  next
    case False
    have "blk S ?off k \<le> ?b" using k lN by (intro blk_mono) simp
    then have "int (blk S ?off k) < m" using False m by simp
    then have "len (bs2 ! blk S ?off k) = word_of_nat (bend S ?N k - bstart S k)" using inv k by blast
    then show ?thesis using False by (simp add: bs3_def)
  qed
  have ex3: "?off = 1 \<longrightarrow> start (bs3 ! 0) = 0 \<and> len (bs3 ! 0) = 0"
  proof
    assume o: "?off = 1"
    then have "?b \<noteq> 0" using blk_ge [OF S(2), of ?off l] by simp
    then show "start (bs3 ! 0) = 0 \<and> len (bs3 ! 0) = 0" using inv o by (simp add: bs3_def)
  qed
  have "\<forall>k<?N. start (bs3 ! blk S ?off k) = word_of_nat (bstart S k)"
    using inv start3 [OF lb] by simp
  then have cut: "cut_at S ?off ?N block_map' bs3"
    unfolding cut_at_def using S off inv lens ex3 by (simp add: bs3_def)
  have "blank_blocks bs3"
    unfolding blank_blocks_def bs3_def using inv lb [of l]
    by (intro set_list_update_all) (auto dest: nth_mem)
  then show thesis using that res cut by blast
qed

subsection \<open>Step 3\<close>

text \<open>The jump targets of an instruction, as the virtual machine takes them, and the
  instructions that control can reach from an instruction in one step. Exceptions are not
  steps here; the try/catch elements stand for them.\<close>

definition op_targets :: "u32 \<Rightarrow> zend_op_array \<Rightarrow> nat \<Rightarrow> int list option" where
  "op_targets build_flags oa i =
     (let opline = opcodes oa ! i; opc = opcode opline;
          one = (\<lambda>t. map_option (\<lambda>x. [x]) (op_jmp i t))
      in if opc \<in> {ZEND_JMP, ZEND_FAST_CALL} then one (op1 opline)
         else if opc \<in> {ZEND_JMPZ, ZEND_JMPNZ, ZEND_JMPZ_EX, ZEND_JMPNZ_EX, ZEND_JMP_SET,
                         ZEND_COALESCE, ZEND_ASSERT_CHECK, ZEND_FE_RESET_R, ZEND_FE_RESET_RW}
           then one (op2 opline)
         else if opc = ZEND_CATCH
           then (if bits_set (extended_value opline) 1 then Some [] else one (op2 opline))
         else if opc \<in> {ZEND_FE_FETCH_R, ZEND_FE_FETCH_RW} then one (extended_value opline)
         else if opc = ZEND_JMPZNZ
           then do { t \<leftarrow> op_jmp i (op2 opline); u \<leftarrow> op_jmp i (extended_value opline); Some [t, u] }
         else if opc \<in> {ZEND_SWITCH_LONG, ZEND_SWITCH_STRING} then switch_targets build_flags oa i opline
         else Some [])"

inductive op_step :: "u32 \<Rightarrow> zend_op_array \<Rightarrow> nat \<Rightarrow> nat \<Rightarrow> bool" for build_flags oa where
  op_next: "i < length (opcodes oa) \<Longrightarrow> \<not> no_fall_through (opcode (opcodes oa ! i)) \<Longrightarrow>
     op_step build_flags oa i (Suc i)"
| op_jump: "i < length (opcodes oa) \<Longrightarrow> op_targets build_flags oa i = Some ts \<Longrightarrow> int t \<in> set ts \<Longrightarrow>
     op_step build_flags oa i t"

inductive_simps op_step_iff: "op_step build_flags oa i t"

lemma scan_op_targets:
  assumes "cfg_scan_op is_internal build_flags oa i = Some (f, ts)"
  shows "\<exists>us. op_targets build_flags oa i = Some us \<and> set us \<subseteq> set ts \<and>
    (us \<noteq> [] \<longrightarrow> Suc i < length (opcodes oa) \<longrightarrow> int i + 1 \<in> set ts)"
proof -
  let ?opc = "opcode (opcodes oa ! i)"
  let ?J = "{ZEND_JMP, ZEND_FAST_CALL, ZEND_JMPZ, ZEND_JMPNZ, ZEND_JMPZ_EX, ZEND_JMPNZ_EX,
        ZEND_JMP_SET, ZEND_COALESCE, ZEND_ASSERT_CHECK, ZEND_FE_RESET_R, ZEND_FE_RESET_RW, ZEND_CATCH,
        ZEND_FE_FETCH_R, ZEND_FE_FETCH_RW, ZEND_JMPZNZ, ZEND_SWITCH_LONG, ZEND_SWITCH_STRING} :: u8 set"
  show ?thesis
  proof (cases "?opc \<in> ?J")
    case True
    show ?thesis
      by (insert assms True, elim insertE emptyE,
          simp_all add: cfg_scan_op_def op_targets_def Let_def,
          auto simp: bind_eq_Some_conv split: if_splits)
  next
    case False
    then have "op_targets build_flags oa i = Some []" by (simp add: op_targets_def Let_def)
    then show ?thesis by simp
  qed
qed

lemma scan_starts_op:
  "scan_starts n i is_internal build_flags oa = Some us \<Longrightarrow> i \<le> k \<Longrightarrow> k < i + n \<Longrightarrow>
   \<exists>f ts. cfg_scan_op is_internal build_flags oa k = Some (f, ts) \<and> set ts \<subseteq> set us"
proof (induction n arbitrary: i us)
  case (Suc n)
  obtain f vs ws where 1: "cfg_scan_op is_internal build_flags oa i = Some (f, vs)"
    "scan_starts n (Suc i) is_internal build_flags oa = Some ws" "us = vs @ ws"
    using Suc.prems(1) by (auto simp: bind_eq_Some_conv)
  show ?case
  proof (cases "k = i")
    case True
    then show ?thesis using 1 by auto
  next
    case False
    then show ?thesis using Suc.IH [OF 1(2)] Suc.prems(2,3) 1(3) by fastforce
  qed
qed simp

text \<open>All targets of all instructions are block starts, and so is what follows a jump.\<close>

lemma targets_are_starts:
  assumes "cfg_starts is_internal build_flags oa = Some ts" "i < length (opcodes oa)"
  shows "\<exists>us. op_targets build_flags oa i = Some us \<and> set us \<subseteq> set ts \<and>
    (us \<noteq> [] \<longrightarrow> Suc i < length (opcodes oa) \<longrightarrow> int i + 1 \<in> set ts)"
proof -
  obtain vs where vs: "scan_starts (length (opcodes oa)) 0 is_internal build_flags oa = Some vs"
    and ts: "ts = 0 # vs @ concat (map try_catch_starts (try_catch_array oa))"
    using assms(1) by (auto simp: cfg_starts_def bind_eq_Some_conv)
  have "set vs \<subseteq> set ts" using ts by auto
  moreover obtain f ws where ws: "cfg_scan_op is_internal build_flags oa i = Some (f, ws)"
    "set ws \<subseteq> set vs"
    using scan_starts_op [OF vs, of i] assms(2) by auto
  ultimately show ?thesis using scan_op_targets [OF ws(1)] by blast
qed

text \<open>The block map read as block numbers.\<close>

lemma blk_bound:
  assumes "cut_at S off N block_map bs"
  shows "blk S off k \<le> N" and "blk S off k < length bs"
proof -
  have S: "finite S" "0 \<in> S" "S \<subseteq> {..<N}" "off = 0 \<or> off = 1" "length bs = off + card S"
    using assms by (simp_all add: cut_at_def)
  have "card S \<le> N" using card_mono [OF _ S(3)] by simp
  then show "blk S off k \<le> N" "blk S off k < length bs"
    using blk_less [OF S(1,2), of off k] S(4,5) by auto
qed

lemma block_at_eq:
  assumes "cut_at S off N block_map bs" "N < 2 ^ 31 - 1" "0 \<le> t" "t < int N"
  shows "block_at block_map t = Some (int (blk S off (nat t)))"
proof -
  have k: "nat t < N" using assms(3,4) by simp
  have "block_map ! nat t = word_of_nat (blk S off (nat t))" "length block_map = N"
    using assms(1) k by (simp_all add: cut_at_def)
  moreover have "blk S off (nat t) < 2 ^ 31" using blk_bound(1) [OF assms(1), of "nat t"] assms(2) by simp
  then have "sint (word_of_nat (blk S off (nat t)) :: u32) = int (blk S off (nat t))"
    by (simp add: signed_of_nat signed_take_bit_int_eq_self)
  ultimately show ?thesis using assms(3) k by (simp add: block_at_def nth_int_eq)
qed

lemma blocks_at_eq:
  assumes "cut_at S off N block_map bs" "N < 2 ^ 31 - 1"
  shows "set ts \<subseteq> {0..<int N} \<Longrightarrow>
    blocks_at block_map ts = Some (map (\<lambda>t. int (blk S off (nat t))) ts)"
  by (induction ts) (simp_all add: block_at_eq [OF assms])

text \<open>What linking does to a block of instructions ending with instruction \<open>e\<close>.\<close>

definition linked :: "zend_op_array \<Rightarrow> nat \<Rightarrow> int list \<Rightarrow> zend_basic_block \<Rightarrow> zend_basic_block \<Rightarrow> bool" where
  "linked oa e ks b b' \<longleftrightarrow>
     start b' = start b \<and> len b' = len b \<and> flags b' = flags b \<and> succs b' = ks \<and>
     successors_count b' = int (length ks) \<and> length ks \<le> length (successors b') \<and>
     (2 < length ks \<longrightarrow> opcode (opcodes oa ! e) \<in> {ZEND_SWITCH_LONG, ZEND_SWITCH_STRING})"

lemma linked_set_successors:
  "length ks \<le> 2 \<Longrightarrow> linked oa e ks b (set_successors ks b)"
  by (simp add: linked_def set_successors_def succs_def)

lemma linked_none: "successors_count b = 0 \<Longrightarrow> linked oa e [] b b"
  by (simp add: linked_def succs_def)

lemma cfg_block_successors_ok:
  assumes cut: "cut_at S off (length (opcodes oa)) block_map bs"
    and small: "length (opcodes oa) < 2 ^ 31 - 1"
    and blank: "successors_count b = 0"
    and e: "len b \<noteq> 0" "last_op oa b = e" "e < length (opcodes oa)"
    and us: "op_targets build_flags oa e = Some us" "set us \<subseteq> {0..<int (length (opcodes oa))}"
  shows "\<exists>b'. cfg_block_successors build_flags oa block_map j b = Some b' \<and>
     linked oa e (map (\<lambda>t. int (blk S off (nat t))) us @
        (if no_fall_through (opcode (opcodes oa ! e)) then [] else [int j + 1])) b b'"
proof -
  let ?opc = "opcode (opcodes oa ! e)"
  let ?J1 = "{ZEND_JMP, ZEND_FAST_CALL, ZEND_JMPZ, ZEND_JMPNZ, ZEND_JMPZ_EX, ZEND_JMPNZ_EX,
        ZEND_JMP_SET, ZEND_COALESCE, ZEND_ASSERT_CHECK, ZEND_FE_RESET_R, ZEND_FE_RESET_RW, ZEND_CATCH,
        ZEND_FE_FETCH_R, ZEND_FE_FETCH_RW, ZEND_JMPZNZ} :: u8 set"
  let ?SW = "{ZEND_SWITCH_LONG, ZEND_SWITCH_STRING} :: u8 set"
  note at = block_at_eq [OF cut small] and ats = blocks_at_eq [OF cut small]
  consider "?opc \<in> ?J1" | "?opc \<in> ?SW" | "?opc \<notin> ?J1 \<union> ?SW" by blast
  then show ?thesis
  proof cases
    case 1
    show ?thesis
      by (insert 1 us, elim insertE emptyE,
          simp_all add: op_targets_def cfg_block_successors_def e no_fall_through_def Let_def,
          auto simp: bind_eq_Some_conv at intro!: linked_set_successors split: if_splits)
  next
    case 2
    then have sw: "switch_targets build_flags oa e (opcodes oa ! e) = Some us"
      and nf: "\<not> no_fall_through ?opc"
      using us(1) by (auto simp: op_targets_def no_fall_through_def Let_def)
    let ?ks = "map (\<lambda>t. int (blk S off (nat t))) us"
    let ?b' = "b\<lparr>successors_count := int (length ?ks) + 1, successors := ?ks @ [int j + 1]\<rparr>"
    have "cfg_block_successors build_flags oa block_map j b = Some ?b'"
      using 2 sw ats [OF us(2)] by (auto simp: cfg_block_successors_def e Let_def)
    moreover have "linked oa e (?ks @ [int j + 1]) b ?b'"
      using 2 by (simp add: linked_def succs_def nat_add_distrib)
    ultimately show ?thesis using nf by simp
  next
    case 3
    then have "us = []" using us(1) by (simp add: op_targets_def Let_def)
    then show ?thesis using 3 blank linked_none [of b oa e] linked_set_successors [of "[int j + 1]" oa e b]
      by (simp add: cfg_block_successors_def e no_fall_through_def Let_def)
  qed
qed

lemma cfg_link_ok:
  "\<forall>k. j \<le> k \<longrightarrow> k < j + n \<longrightarrow> cfg_block_successors build_flags oa block_map k (bs ! k) \<noteq> None \<Longrightarrow>
   j + n \<le> length bs \<Longrightarrow>
   \<exists>bs'. cfg_link n j build_flags oa block_map bs = Some bs' \<and> length bs' = length bs \<and>
     (\<forall>k. j \<le> k \<longrightarrow> k < j + n \<longrightarrow>
        cfg_block_successors build_flags oa block_map k (bs ! k) = Some (bs' ! k)) \<and>
     (\<forall>k. k < j \<longrightarrow> bs' ! k = bs ! k)"
proof (induction n arbitrary: j bs)
  case (Suc n)
  obtain b' where b': "cfg_block_successors build_flags oa block_map j (bs ! j) = Some b'"
    using Suc.prems(1) by force
  let ?bs = "bs[j := b']"
  have same: "?bs ! k = bs ! k" if "k \<noteq> j" for k using that by simp
  have "\<forall>k. Suc j \<le> k \<longrightarrow> k < Suc j + n \<longrightarrow>
      cfg_block_successors build_flags oa block_map k (?bs ! k) \<noteq> None"
    using Suc.prems(1) same by simp
  from Suc.IH [OF this] Suc.prems(2) obtain bs' where
    bs': "cfg_link n (Suc j) build_flags oa block_map ?bs = Some bs'" "length bs' = length bs"
    and in_range: "\<And>k. Suc j \<le> k \<Longrightarrow> k < Suc j + n \<Longrightarrow>
        cfg_block_successors build_flags oa block_map k (?bs ! k) = Some (bs' ! k)"
    and below: "\<And>k. k < Suc j \<Longrightarrow> bs' ! k = ?bs ! k"
    by auto
  have "cfg_link (Suc n) j build_flags oa block_map bs = Some bs'"
    using b' bs'(1) Suc.prems(2) by simp
  moreover have "cfg_block_successors build_flags oa block_map k (bs ! k) = Some (bs' ! k)"
    if k: "j \<le> k" "k < j + Suc n" for k
  proof (cases "k = j")
    case True
    then show ?thesis using b' below [of j] Suc.prems(2) by simp
  next
    case False
    then show ?thesis using in_range [of k] same [of k] k by simp
  qed
  moreover have "bs' ! k = bs ! k" if "k < j" for k using below [of k] that by simp
  ultimately show ?case using bs'(2) by blast
qed simp

subsection \<open>The linked graph\<close>

lemma blk_surj:
  assumes "0 \<in> S" "off \<le> j" "j \<le> blk S off k"
  shows "\<exists>k'\<le>k. blk S off k' = j"
  using assms(3)
proof (induction k)
  case 0
  then show ?case using assms(1,2) by (simp add: blk_0)
next
  case (Suc k)
  show ?case
  proof (cases "j \<le> blk S off k")
    case True
    then show ?thesis using Suc.IH by (meson le_SucI)
  next
    case False
    then show ?thesis using Suc.prems assms(1) by (auto simp: blk_Suc split: if_splits)
  qed
qed

text \<open>The starts of a function as a set of instruction numbers.\<close>

definition start_set :: "int list \<Rightarrow> nat set" where
  "start_set ts = {k. int k \<in> set ts}"

lemma start_set_facts:
  assumes "set ts \<subseteq> {0..<int N}" "0 \<in> set ts"
  shows "finite (start_set ts)" "0 \<in> start_set ts" "start_set ts \<subseteq> {..<N}"
    "card (start_set ts) = card (set ts)"
proof -
  have eq: "start_set ts = nat ` set ts"
    using assms(1) by (force simp: start_set_def image_iff)
  then show "finite (start_set ts)" by simp
  show "0 \<in> start_set ts" using assms(2) by (simp add: start_set_def)
  show "start_set ts \<subseteq> {..<N}" using assms(1) by (auto simp: start_set_def)
  have "inj_on nat {0..}" by (auto simp: inj_on_def)
  moreover have "set ts \<subseteq> {0..}" using assms(1) by auto
  ultimately have "inj_on nat (set ts)" by (rule inj_on_subset)
  then show "card (start_set ts) = card (set ts)" by (simp add: eq card_image)
qed

text \<open>The graph after linking: the successors of the block of instruction \<open>k\<close> are the blocks of
  the jump targets of its last instruction and, if that falls through, the next block.\<close>

definition linked_at :: "nat set \<Rightarrow> nat \<Rightarrow> u32 \<Rightarrow> zend_op_array \<Rightarrow> zend_basic_block list \<Rightarrow> bool" where
  "linked_at S off build_flags oa bs \<longleftrightarrow>
     (\<forall>k<length (opcodes oa).
        (\<exists>us. op_targets build_flags oa (bend S (length (opcodes oa)) k - 1) = Some us \<and>
              succs (bs ! blk S off k) = map (\<lambda>t. int (blk S off (nat t))) us @
                (if no_fall_through (opcode (opcodes oa ! (bend S (length (opcodes oa)) k - 1)))
                 then [] else [int (blk S off k) + 1])))"

lemma cut_len:
  assumes cut: "cut_at S off N block_map bs" and N: "N < 2 ^ 31 - 1" and k: "k < N"
  shows "len (bs ! blk S off k) \<noteq> 0" "unat (start (bs ! blk S off k)) = bstart S k"
    "unat (len (bs ! blk S off k)) = bend S N k - bstart S k"
    "unat (start (bs ! blk S off k) + len (bs ! blk S off k) - 1) = bend S N k - 1"
proof -
  let ?b = "bs ! blk S off k"
  have S: "finite S" "0 \<in> S" using cut by (simp_all add: cut_at_def)
  have st: "start ?b = word_of_nat (bstart S k)" and ln: "len ?b = word_of_nat (bend S N k - bstart S k)"
    using cut k by (simp_all add: cut_at_def)
  have le: "bstart S k \<le> k" "k < bend S N k" "bend S N k \<le> N"
    using bstart_in [OF S(2)] bend_gt [OF S(1) k] bend_le [OF S(1)] by simp_all
  then show us: "unat (start ?b) = bstart S k" and ul: "unat (len ?b) = bend S N k - bstart S k"
    using N by (simp_all add: st ln unsigned_of_nat take_bit_nat_eq_self del: of_nat_diff)
  show "len ?b \<noteq> 0" using ul le by auto
  have "start ?b + len ?b - 1 = word_of_nat (bend S N k - 1)"
    using le by (simp add: st ln of_nat_diff)
  then show "unat (start ?b + len ?b - 1) = bend S N k - 1"
    using le N by (simp add: unsigned_of_nat take_bit_nat_eq_self del: of_nat_diff)
qed

lemma bend_fall_through:
  assumes "finite S" "k < length (opcodes oa)" "no_fall_through (opcode (last (opcodes oa)))"
    and "S \<subseteq> {..<length (opcodes oa)}"
    and "\<not> no_fall_through (opcode (opcodes oa ! (bend S (length (opcodes oa)) k - 1)))"
  shows "bend S (length (opcodes oa)) k \<in> S"
proof -
  let ?N = "length (opcodes oa)"
  have "opcodes oa \<noteq> []" using assms(2) by auto
  then have "opcodes oa ! (?N - 1) = last (opcodes oa)" by (simp add: last_conv_nth)
  then have "bend S ?N k \<noteq> ?N" using assms(3,5) by auto
  moreover have "bend S ?N k \<in> {s \<in> S. k < s} \<union> {?N}"
    unfolding bend_def by (rule Min_in) (use assms(1) in auto)
  ultimately show ?thesis by auto
qed

lemma blk_bend:
  assumes "finite S" "0 \<in> S" "k < N" "bend S N k \<in> S"
  shows "blk S off (bend S N k) = Suc (blk S off k)"
proof -
  obtain e where e: "bend S N k = Suc e" using bend_gt [OF assms(1,3)] by (cases "bend S N k") auto
  have "k \<le> e" using bend_gt [OF assms(1,3)] e by simp
  have "\<forall>s\<in>S. \<not> (k < s \<and> s \<le> e)"
  proof (intro ballI notI)
    fix s assume s: "s \<in> S" "k < s \<and> s \<le> e"
    then have "bend S N k \<le> s" unfolding bend_def using assms(1) by (intro Min_le) auto
    then show False using s e by simp
  qed
  then have "blk S off e = blk S off k" using blk_eq_iff [OF assms(2) \<open>k \<le> e\<close>] by simp
  then show ?thesis using assms(2,4) by (simp add: e blk_Suc)
qed

lemma cfg_block_successors_empty:
  "len b = 0 \<Longrightarrow>
   cfg_block_successors build_flags oa block_map j b = Some (set_successors [int j + 1] b)"
  by (simp add: cfg_block_successors_def Let_def)

lemma cfg_link_below:
  "cfg_link n j build_flags oa block_map bs = Some bs' \<Longrightarrow> k < j \<Longrightarrow> bs' ! k = bs ! k"
proof (induction n arbitrary: j bs)
  case (Suc n)
  then obtain b' where "cfg_link n (Suc j) build_flags oa block_map (bs[j := b']) = Some bs'"
    by (auto simp: bind_eq_Some_conv)
  from Suc.IH [OF this] show ?case using Suc.prems(2) by simp
qed simp

lemma cfg_link_first:
  assumes "cfg_link (length bs) 0 build_flags oa block_map bs = Some bs'" "0 < length bs"
  shows "cfg_block_successors build_flags oa block_map 0 (bs ! 0) = Some (bs' ! 0)"
proof -
  obtain m where m: "length bs = Suc m" using assms(2) not0_implies_Suc by blast
  then obtain b' where b': "cfg_block_successors build_flags oa block_map 0 (bs ! 0) = Some b'"
    "cfg_link m (Suc 0) build_flags oa block_map (bs[0 := b']) = Some bs'"
    using assms by (auto simp: bind_eq_Some_conv)
  then show ?thesis using cfg_link_below [OF b'(2), of 0] assms(2) by simp
qed

lemma linked_graph:
  assumes starts: "cfg_starts is_internal build_flags oa = Some ts"
    and S: "S = start_set ts" and range: "set ts \<subseteq> {0..<int (length (opcodes oa))}"
    and last_ok: "no_fall_through (opcode (last (opcodes oa)))"
    and small: "length (opcodes oa) < 2 ^ 31 - 1"
    and cut: "cut_at S off (length (opcodes oa)) block_map bs" and blank: "blank_blocks bs"
  obtains bs' where "cfg_link (length bs) 0 build_flags oa block_map bs = Some bs'"
    "cut_at S off (length (opcodes oa)) block_map bs'" "linked_at S off build_flags oa bs'"
    "wf_blocks (opcodes oa) bs'" "marked bs' = {}"
proof -
  let ?N = "length (opcodes oa)"
  let ?e = "\<lambda>k. bend S ?N k - 1"
  have Sf: "finite S" "0 \<in> S" "S \<subseteq> {..<?N}" "off = 0 \<or> off = 1" "length bs = off + card S"
    using cut by (simp_all add: cut_at_def)
  have eN: "?e k < ?N" if "k < ?N" for k
    using bend_gt [OF Sf(1) that] bend_le [OF Sf(1), of ?N k] by simp
  have targets: "\<exists>us. op_targets build_flags oa (?e k) = Some us \<and> set us \<subseteq> {0..<int ?N}"
    if "k < ?N" for k
    using targets_are_starts [OF starts eN [OF that]] range by blast
  have blank': "successors_count (bs ! j) = 0" "flags (bs ! j) = 0" if "j < length bs" for j
    using blank that by (simp_all add: blank_blocks_def)
  let ?ks = "\<lambda>k us. map (\<lambda>t. int (blk S off (nat t))) us @
      (if no_fall_through (opcode (opcodes oa ! ?e k)) then [] else [int (blk S off k) + 1])"
  have op_block: "\<exists>us b'. op_targets build_flags oa (?e k) = Some us \<and> set us \<subseteq> {0..<int ?N} \<and>
      cfg_block_successors build_flags oa block_map (blk S off k) (bs ! blk S off k) = Some b' \<and>
      linked oa (?e k) (?ks k us) (bs ! blk S off k) b'" if k: "k < ?N" for k
  proof -
    obtain us where us: "op_targets build_flags oa (?e k) = Some us" "set us \<subseteq> {0..<int ?N}"
      using targets [OF k] by blast
    note c = cut_len [OF cut small k]
    show ?thesis
      using cfg_block_successors_ok [OF cut small blank'(1) [OF blk_bound(2) [OF cut]] c(1) _ eN [OF k] us]
        c(4) us by (auto simp: last_op_def)
  qed
  have zero_block: "len (bs ! j) = 0 \<and> start (bs ! j) = 0 \<and> j = 0" if "j < off" for j
    using cut that by (auto simp: cut_at_def)
  have which: "j < off \<or> (\<exists>k<?N. blk S off k = j)" if j: "j < length bs" for j
  proof (cases "j < off")
    case False
    have N: "0 < ?N" using Sf by auto
    have "{s \<in> S. s \<le> ?N - 1} = S" using Sf(3) N by auto
    then have "j \<le> blk S off (?N - 1)" using j Sf(5) by (simp add: blk_def)
    then obtain k where "k \<le> ?N - 1" "blk S off k = j"
      using blk_surj [OF Sf(2), of off j "?N - 1"] False by auto
    moreover have "k < ?N" using \<open>k \<le> ?N - 1\<close> N by linarith
    ultimately show ?thesis by blast
  qed simp
  have some: "\<forall>j. 0 \<le> j \<longrightarrow> j < 0 + length bs \<longrightarrow>
      cfg_block_successors build_flags oa block_map j (bs ! j) \<noteq> None"
  proof (intro allI impI)
    fix j assume j: "j < 0 + length bs"
    then show "cfg_block_successors build_flags oa block_map j (bs ! j) \<noteq> None"
      using which [of j] zero_block [of j] op_block cfg_block_successors_empty by fastforce
  qed
  from cfg_link_ok [OF some] obtain bs' where
    bs': "cfg_link (length bs) 0 build_flags oa block_map bs = Some bs'" "length bs' = length bs"
    and each: "\<And>j. j < length bs \<Longrightarrow>
        cfg_block_successors build_flags oa block_map j (bs ! j) = Some (bs' ! j)"
    by auto
  have ops: "\<exists>us. op_targets build_flags oa (?e k) = Some us \<and> set us \<subseteq> {0..<int ?N} \<and>
      linked oa (?e k) (?ks k us) (bs ! blk S off k) (bs' ! blk S off k)" if "k < ?N" for k
    using op_block [OF that] each [OF blk_bound(2) [OF cut, of k]] by auto
  have extra: "bs' ! j = set_successors [int j + 1] (bs ! j)" if "j < off" "j < length bs" for j
  proof -
    have "len (bs ! j) = 0" using zero_block [OF that(1)] by blast
    from cfg_block_successors_empty [OF this, of build_flags oa block_map j] each [OF that(2)]
    show ?thesis by simp
  qed
  have same: "start (bs' ! j) = start (bs ! j) \<and> len (bs' ! j) = len (bs ! j) \<and> flags (bs' ! j) = 0"
    if j: "j < length bs" for j
  proof (cases "j < off")
    case True
    then show ?thesis using extra [OF True j] blank'(2) [OF j] by (simp add: set_successors_def)
  next
    case False
    then obtain k where k: "k < ?N" "blk S off k = j" using which [OF j] by blast
    then have "\<exists>ks. linked oa (?e k) ks (bs ! j) (bs' ! j)" using ops [OF k(1)] by blast
    then show ?thesis using blank'(2) [OF j] by (auto simp: linked_def)
  qed
  have cut': "cut_at S off ?N block_map bs'"
    using cut same blk_bound(2) [OF cut] bs'(2) Sf unfolding cut_at_def
    by (metis card_gt_0_iff add_gr_0 empty_iff)
  have link: "linked_at S off build_flags oa bs'"
    using ops by (fastforce simp: linked_at_def linked_def)
  have "wf_block (opcodes oa) (length bs') (bs' ! j)" if j: "j < length bs'" for j
  proof (cases "j < off")
    case True
    then have "bs' ! j = set_successors [int j + 1] (bs ! j)" "j = 0" "off = 1" "len (bs ! j) = 0"
      using extra [of j] zero_block [of j] j bs'(2) Sf(4) by auto
    moreover have "0 < card S" using Sf(1,2) by (auto simp: card_gt_0_iff)
    ultimately show ?thesis using bs'(2) Sf(5)
      by (simp add: wf_block_def set_successors_def succs_def)
  next
    case False
    then obtain k where k: "k < ?N" "blk S off k = j" using which [of j] j bs'(2) by auto
    obtain us where us: "set us \<subseteq> {0..<int ?N}" "linked oa (?e k) (?ks k us) (bs ! j) (bs' ! j)"
      using ops [OF k(1)] k(2) by auto
    have next_ok: "int j + 1 < int (length bs')" if "\<not> no_fall_through (opcode (opcodes oa ! ?e k))"
    proof -
      have "bend S ?N k \<in> S" by (rule bend_fall_through [OF Sf(1) k(1) last_ok Sf(3) that])
      then have "Suc j = blk S off (bend S ?N k)" using blk_bend [OF Sf(1,2) k(1), of off] k(2) by simp
      then show ?thesis using blk_bound(2) [OF cut, of "bend S ?N k"] bs'(2) by simp
    qed
    have "\<forall>s\<in>set (?ks k us). 0 \<le> s \<and> s < int (length bs')"
      using next_ok blk_bound(2) [OF cut] bs'(2) k(2) by auto
    moreover have "unat (start (bs' ! j) + len (bs' ! j) - 1) = ?e k"
      using cut_len(4) [OF cut' small k(1)] k(2) by simp
    ultimately show ?thesis using us(2) eN [OF k(1)] by (auto simp: wf_block_def linked_def)
  qed
  then have "wf_blocks (opcodes oa) bs'" by (auto simp: wf_blocks_def in_set_conv_nth)
  moreover have "marked bs' = {}"
    using same bs'(2) by (auto simp: marked_def reachable_flag_def bits_set_def)
  ultimately show thesis using that bs'(1) cut' link by blast
qed

lemma build_cfg_unfold:
  assumes "cfg_input_ok is_internal build_flags oa"
  obtains S off cfg ts where
    "zend_build_cfg is_internal build_flags oa = zend_mark_reachable_blocks oa cfg 0"
    "cut_at S off (length (opcodes oa)) (cfg_map cfg) (blocks cfg)"
    "linked_at S off build_flags oa (blocks cfg)"
    "wf_blocks (opcodes oa) (blocks cfg)" "marked (blocks cfg) = {}"
    "off = 1 \<Longrightarrow> succs (blocks cfg ! 0) = [1]"
    "cfg_starts is_internal build_flags oa = Some ts" "S = start_set ts"
    "length (opcodes oa) < 2 ^ 31 - 1" "no_fall_through (opcode (last (opcodes oa)))"
proof -
  let ?N = "length (opcodes oa)"
  obtain fl extra block_map n ts where
    1: "cfg_step1 is_internal build_flags oa = Some (fl, extra, block_map, n)" and
    ts: "cfg_starts is_internal build_flags oa = Some ts" and
    cnt: "counted ?N ts (block_map, int (card (set ts)))" and
    n: "n = int (card (set ts)) + (if extra then 1 else 0)" and z: "0 \<in> set ts" and
    small: "?N < 2 ^ 31 - 1" and pos: "0 < ?N" and
    last_ok: "no_fall_through (opcode (last (opcodes oa)))"
    by (rule cfg_step1_ok [OF assms])
  define S where "S = start_set ts"
  define off where "off = (if extra then 1 else 0 :: nat)"
  have range: "set ts \<subseteq> {0..<int ?N}" and len: "length block_map = ?N"
    using cnt by (simp_all add: counted_def)
  note S = start_set_facts [OF range z, folded S_def]
  have nz: "block_map ! k \<noteq> 0 \<longleftrightarrow> k \<in> S" if "k < ?N" for k
    using counted_nonzero [OF cnt that] by (simp add: S_def start_set_def)
  obtain block_map' bs where 2: "cfg_step2 oa extra block_map n = Some (block_map', bs, n)"
    "cut_at S off ?N block_map' bs" "blank_blocks bs"
    using cfg_step2_ok [OF S(1-3) len nz, of n extra] n S(4) unfolding off_def by auto
  obtain bs' where 3: "cfg_link (length bs) 0 build_flags oa block_map' bs = Some bs'"
    "cut_at S off ?N block_map' bs'" "linked_at S off build_flags oa bs'"
    "wf_blocks (opcodes oa) bs'" "marked bs' = {}"
    by (rule linked_graph [OF ts S_def range last_ok small 2(2,3)])
  have "nat n = length bs" using 2(2) n S(4) by (simp add: cut_at_def off_def nat_add_distrib)
  define cfg where "cfg = \<lparr>blocks_count = n, blocks = bs', cfg_map = block_map',
      cfg_flags = (build_flags AND (ZEND_CFG_STACKLESS OR ZEND_CFG_RECV_ENTRY)) OR fl\<rparr>"
  have res: "zend_build_cfg is_internal build_flags oa = zend_mark_reachable_blocks oa cfg 0"
    using 1 2(1) 3(1) \<open>nat n = length bs\<close> by (simp add: zend_build_cfg_def cfg_def Let_def)
  have ex: "succs (bs' ! 0) = [1]" if o: "off = 1"
  proof -
    have l: "0 < length bs" using 2(2) o by (simp add: cut_at_def)
    have "len (bs ! 0) = 0" using 2(2) o by (simp add: cut_at_def)
    moreover have "cfg_block_successors build_flags oa block_map' 0 (bs ! 0) = Some (bs' ! 0)"
      using 3(1) l by (rule cfg_link_first)
    ultimately have "bs' ! 0 = set_successors [1] (bs ! 0)"
      using cfg_block_successors_empty [of "bs ! 0" build_flags oa block_map' 0] by simp
    then show ?thesis by (simp add: set_successors_def succs_def)
  qed
  show thesis
    using that [of cfg S off ts] res 3 ts S_def small last_ok ex by (simp add: cfg_def)
qed

lemma same_block_iff:
  assumes S: "finite S" "0 \<in> S" "S \<subseteq> {..<N}" and k: "k < N" "k' < N"
  shows "blk S off k' = blk S off k \<longleftrightarrow> bstart S k \<le> k' \<and> k' < bend S N k"
proof (cases "k' \<le> k")
  case True
  have b: "bstart S k \<in> S" "bstart S k \<le> k" using bstart_in [OF S(2)] by simp_all
  have up: "s \<le> bstart S k" if "s \<in> S" "s \<le> k" for s
    unfolding bstart_def using that by (intro Max_ge) auto
  have "(\<forall>s\<in>S. \<not> (k' < s \<and> s \<le> k)) \<longleftrightarrow> bstart S k \<le> k'"
    using b up by (meson le_trans not_le)
  then show ?thesis using blk_eq_iff [OF S(2) True, of off] bend_gt [OF S(1) k(1)] True by auto
next
  case False
  then have kk: "k \<le> k'" by simp
  have "(\<forall>s\<in>S. \<not> (k < s \<and> s \<le> k')) \<longleftrightarrow> k' < bend S N k"
    unfolding bend_def using S(1) k(2) by (auto simp: Min_gr_iff not_le)
  then show ?thesis using blk_eq_iff [OF S(2) kk, of off] bstart_in [OF S(2), of k] kk by auto
qed

subsection \<open>The builder\<close>

text \<open>The finished graph has the blocks of the linked one, with their flags set.\<close>

lemma build_cfg_result:
  assumes ok: "cfg_input_ok is_internal build_flags oa"
    and res: "zend_build_cfg is_internal build_flags oa = Some (oa', cfg)"
  obtains S off ts where
    "cut_at S off (length (opcodes oa)) (cfg_map cfg) (blocks cfg)"
    "linked_at S off build_flags oa (blocks cfg)"
    "off = 1 \<Longrightarrow> succs (blocks cfg ! 0) = [1]" "0 \<in> marked (blocks cfg)" "edge_closed (blocks cfg)"
    "cfg_starts is_internal build_flags oa = Some ts" "S = start_set ts"
    "length (opcodes oa) < 2 ^ 31 - 1" "no_fall_through (opcode (last (opcodes oa)))"
proof -
  let ?N = "length (opcodes oa)"
  obtain S off c ts where c:
    "zend_build_cfg is_internal build_flags oa = zend_mark_reachable_blocks oa c 0"
    "cut_at S off ?N (cfg_map c) (blocks c)" "linked_at S off build_flags oa (blocks c)"
    "wf_blocks (opcodes oa) (blocks c)" "marked (blocks c) = {}"
    "off = 1 \<Longrightarrow> succs (blocks c ! 0) = [1]"
    "cfg_starts is_internal build_flags oa = Some ts" "S = start_set ts"
    "?N < 2 ^ 31 - 1" "no_fall_through (opcode (last (opcodes oa)))"
    by (rule build_cfg_unfold [OF ok]) blast
  have S: "finite S" "0 \<in> S" using c(2) by (simp_all add: cut_at_def)
  have pos: "0 < length (blocks c)" using blk_bound(2) [OF c(2), of 0] by linarith
  have mark: "zend_mark_reachable_blocks oa c (int 0) = Some (oa', cfg)" using res c(1) by simp
  have m: "0 \<in> marked (blocks cfg)" "edge_closed (blocks cfg)" "skeleton (blocks cfg) = skeleton (blocks c)"
    "cfg = c\<lparr>blocks := blocks cfg\<rparr>"
    using mark_blocks_result [OF c(4) pos c(5)] unfolding mark by simp_all
  note len = skeleton_length [OF m(3)]
  have same: "start (blocks cfg ! k) = start (blocks c ! k)" "len (blocks cfg ! k) = len (blocks c ! k)"
    "succs (blocks cfg ! k) = succs (blocks c ! k)" if "k < length (blocks c)" for k
    using skeleton_fields [OF m(3), of k] that len by (simp_all add: succs_def)
  have bk: "blk S off k < length (blocks c)" for k by (rule blk_bound(2) [OF c(2)])
  have mp: "cfg_map cfg = cfg_map c" using arg_cong [OF m(4), of cfg_map] by simp
  have "cut_at S off ?N (cfg_map cfg) (blocks cfg)"
    using c(2) same bk pos len mp by (simp add: cut_at_def)
  moreover have "linked_at S off build_flags oa (blocks cfg)"
    using c(3) same(3) [OF bk] by (simp add: linked_at_def)
  ultimately show thesis using that c(6-10) m(1,2) same(3) [OF pos] by simp
qed

text \<open>C22: the blocks partition the instructions: the block map gives every instruction a block
  of the graph, the instruction lies between the start and the end of that block, and exactly
  the instructions between them have that block.\<close>

theorem build_cfg_partition:
  assumes "cfg_input_ok is_internal build_flags oa"
    and "zend_build_cfg is_internal build_flags oa = Some (oa', cfg)" and "k < length (opcodes oa)"
  shows "let b = unat (cfg_map cfg ! k); s = unat (start (blocks cfg ! b)); l = unat (len (blocks cfg ! b))
         in b < length (blocks cfg) \<and> s \<le> k \<and> k < s + l \<and>
            (\<forall>k'<length (opcodes oa). unat (cfg_map cfg ! k') = b \<longleftrightarrow> s \<le> k' \<and> k' < s + l)"
proof -
  let ?N = "length (opcodes oa)"
  obtain S off ts where c: "cut_at S off ?N (cfg_map cfg) (blocks cfg)" "?N < 2 ^ 31 - 1"
    by (rule build_cfg_result [OF assms(1,2)])
  have S: "finite S" "0 \<in> S" "S \<subseteq> {..<?N}" using c(1) by (simp_all add: cut_at_def)
  have mp: "unat (cfg_map cfg ! k) = blk S off k" if "k < ?N" for k
  proof -
    have "cfg_map cfg ! k = word_of_nat (blk S off k)" using c(1) that by (simp add: cut_at_def)
    moreover have "blk S off k < 2 ^ 32" using blk_bound(1) [OF c(1), of k] c(2) by simp
    ultimately show ?thesis by (simp add: unsigned_of_nat take_bit_nat_eq_self)
  qed
  note l = cut_len [OF c assms(3)]
  have le: "bstart S k \<le> k" "k < bend S ?N k"
    using bstart_in [OF S(2)] bend_gt [OF S(1) assms(3)] by simp_all
  have "blk S off k' = blk S off k \<longleftrightarrow> bstart S k \<le> k' \<and> k' < bend S ?N k" if k': "k' < ?N" for k'
    by (rule same_block_iff [OF S assms(3) k'])
  then show ?thesis using mp assms(3) l le blk_bound(2) [OF c(1), of k] by (simp add: Let_def)
qed

text \<open>One step of execution stays in its block, or leaves it at its end along an edge to the
  start of another block.\<close>

lemma step_in_graph:
  assumes starts: "cfg_starts is_internal build_flags oa = Some ts" "S = start_set ts"
    and cut: "cut_at S off (length (opcodes oa)) block_map bs"
    and link: "linked_at S off build_flags oa bs"
    and last_ok: "no_fall_through (opcode (last (opcodes oa)))"
    and step: "op_step build_flags oa i t"
  shows "t < length (opcodes oa) \<and>
    (t = Suc i \<and> blk S off t = blk S off i \<or>
     (blk S off i, blk S off t) \<in> cfg_edges bs \<and> bend S (length (opcodes oa)) i = Suc i \<and> t \<in> S)"
proof -
  let ?N = "length (opcodes oa)"
  have S: "finite S" "0 \<in> S" "S \<subseteq> {..<?N}" using cut by (simp_all add: cut_at_def)
  have i: "i < ?N" using step by (auto elim: op_step.cases)
  have edge: "(blk S off i, j) \<in> cfg_edges bs" if "int j \<in> set (succs (bs ! blk S off i))" for j
    using that blk_bound(2) [OF cut, of i] by (simp add: cfg_edges_def)
  have at_end: "bend S ?N i = Suc i" if "Suc i \<in> S \<or> Suc i = ?N"
    by (rule bend_next [OF S(1,2) order_refl refl that S(3)])
  obtain us where us: "op_targets build_flags oa (bend S ?N i - 1) = Some us"
    "succs (bs ! blk S off i) = map (\<lambda>t. int (blk S off (nat t))) us @
        (if no_fall_through (opcode (opcodes oa ! (bend S ?N i - 1))) then [] else [int (blk S off i) + 1])"
    using link i by (auto simp: linked_at_def)
  from step show ?thesis
  proof (cases rule: op_step.cases)
    case op_next
    have "opcodes oa \<noteq> []" using i by auto
    then have "opcodes oa ! (?N - 1) = last (opcodes oa)" by (simp add: last_conv_nth)
    then have "Suc i \<noteq> ?N" using op_next last_ok by (metis diff_Suc_1)
    then have N: "Suc i < ?N" using i by simp
    show ?thesis
    proof (cases "Suc i \<in> S")
      case False
      then show ?thesis using N op_next S(2) by (simp add: blk_Suc)
    next
      case True
      then have e: "bend S ?N i = Suc i" using at_end by simp
      then have "int (Suc (blk S off i)) \<in> set (succs (bs ! blk S off i))" using us(2) op_next by simp
      then show ?thesis using edge N op_next True S(2) e by (auto simp: blk_Suc)
    qed
  next
    case (op_jump vs)
    obtain ws where ws: "op_targets build_flags oa i = Some ws" "set ws \<subseteq> set ts"
      "ws \<noteq> [] \<longrightarrow> Suc i < ?N \<longrightarrow> int i + 1 \<in> set ts"
      using targets_are_starts [OF starts(1) i] by blast
    have vs: "vs = ws" using op_jump ws(1) by simp
    have tS: "t \<in> S" using op_jump vs ws(2) starts(2) by (auto simp: start_set_def)
    have "ws \<noteq> []" using op_jump vs by auto
    then have "Suc i \<in> S \<or> Suc i = ?N"
      using ws(3) starts(2) i by (auto simp: start_set_def add.commute)
    then have e: "bend S ?N i = Suc i" by (rule at_end)
    then have "us = vs" using us(1) op_jump by simp
    then have "int (blk S off t) \<in> set (succs (bs ! blk S off i))"
      using us(2) op_jump by (auto simp: image_iff intro!: bexI [of _ "int t"])
    then show ?thesis using edge e tS S(3) by auto
  qed
qed

lemma execution_in_marked:
  assumes starts: "cfg_starts is_internal build_flags oa = Some ts" "S = start_set ts"
    and cut: "cut_at S off (length (opcodes oa)) block_map bs"
    and link: "linked_at S off build_flags oa bs"
    and last_ok: "no_fall_through (opcode (last (opcodes oa)))"
    and entry: "off = 1 \<Longrightarrow> succs (bs ! 0) = [1]" "0 \<in> marked bs" and closed: "edge_closed bs"
    and exec: "(op_step build_flags oa)\<^sup>*\<^sup>* 0 i"
  shows "i < length (opcodes oa) \<and> blk S off i \<in> marked bs"
  using exec
proof (induction rule: rtranclp_induct)
  case base
  have S: "0 \<in> S" "S \<subseteq> {..<length (opcodes oa)}" "off = 0 \<or> off = 1" using cut by (simp_all add: cut_at_def)
  have "blk S off 0 \<in> marked bs"
  proof (cases "off = 1")
    case True
    have "(0, 1) \<in> cfg_edges bs" using entry(1) [OF True] entry(2) by (auto simp: cfg_edges_def marked_def)
    then show ?thesis using closed entry(2) True blk_0 [OF S(1), of off] by (auto simp: edge_closed_def)
  next
    case False
    then show ?thesis using S(3) entry(2) blk_0 [OF S(1), of off] by simp
  qed
  then show ?case using S by auto
next
  case (step i t)
  then show ?case using step_in_graph [OF starts cut link last_ok step(2)] closed
    by (auto simp: edge_closed_def)
qed


text \<open>C23: for a function without try/catch elements the builder always returns a graph: the
  search ends and no array is left.\<close>

theorem build_cfg_returns:
  assumes "cfg_input_ok is_internal build_flags oa" and "try_catch_array oa = []"
  shows "\<exists>cfg. zend_build_cfg is_internal build_flags oa = Some (oa, cfg)"
proof -
  obtain S off c ts where c:
    "zend_build_cfg is_internal build_flags oa = zend_mark_reachable_blocks oa c 0"
    "cut_at S off (length (opcodes oa)) (cfg_map c) (blocks c)" "wf_blocks (opcodes oa) (blocks c)"
    by (rule build_cfg_unfold [OF assms(1)]) blast
  have "0 < length (blocks c)" using blk_bound(2) [OF c(2), of 0] by linarith
  then show ?thesis using mark_blocks_no_try [OF c(3) _ assms(2), of 0] c(1) by simp
qed

subsection \<open>Examples\<close>

text \<open>The loop of the previous theory, and a try block with a catch and a finally block.\<close>

lemma loop_ops_starts: "cfg_starts (\<lambda>_. False) 0 loop_ops = Some [0, 4, 2, 1, 4, 5]"
  by code_simp

lemma loop_ops_ok: "cfg_input_ok (\<lambda>_. False) 0 loop_ops"
  using loop_ops_starts by (simp add: cfg_input_ok_def loop_ops_def op_at_def no_fall_through_def)

theorem build_cfg_returns_witness: "\<exists>cfg. zend_build_cfg (\<lambda>_. False) 0 loop_ops = Some (loop_ops, cfg)"
proof -
  have "try_catch_array loop_ops = []" by (simp add: loop_ops_def)
  then show ?thesis by (rule build_cfg_returns [OF loop_ops_ok])
qed

definition try_ops :: zend_op_array where
  "try_ops = \<lparr>opcodes = [op_at ZEND_DO_ICALL 0 0, op_at ZEND_JMP 64 0,
       (op_at ZEND_CATCH 0 0)\<lparr>extended_value := 1\<rparr>, op_at ZEND_FAST_CALL 64 0, op_at ZEND_RETURN 0 0,
       op_at ZEND_DO_ICALL 0 0, op_at ZEND_FAST_RET 0 0, op_at ZEND_RETURN 0 0],
     literals = [], literals_offset = 0, function_name = None,
     try_catch_array = [\<lparr>try_op = 0, catch_op = 2, finally_op = 5, finally_end = 6\<rparr>]\<rparr>"

definition try_cfg :: "zend_op_array \<times> zend_cfg" where
  "try_cfg = the (zend_build_cfg (\<lambda>_. False) 0 try_ops)"

lemma try_cfg_eq: "zend_build_cfg (\<lambda>_. False) 0 try_ops = Some (fst try_cfg, snd try_cfg)"
proof -
  have "\<not> Option.is_none (zend_build_cfg (\<lambda>_. False) 0 try_ops)" by code_simp
  then show ?thesis by (auto simp: try_cfg_def Option.is_none_def)
qed

lemma try_ops_starts: "cfg_starts (\<lambda>_. False) 0 try_ops = Some [0, 3, 2, 3, 5, 4, 5, 7, 0, 2, 5, 6]"
  by code_simp

lemma try_ops_ok: "cfg_input_ok (\<lambda>_. False) 0 try_ops"
  using try_ops_starts by (simp add: cfg_input_ok_def try_ops_def op_at_def no_fall_through_def)

theorem build_cfg_partition_witness:
  "(let b = unat (cfg_map (snd try_cfg) ! 4); s = unat (start (blocks (snd try_cfg) ! b))
    in b < length (blocks (snd try_cfg)) \<and> s \<le> 4)"
  using build_cfg_partition [OF try_ops_ok try_cfg_eq, of 4] by (simp add: Let_def try_ops_def)


end
