(* ===== verification/Zend_Bitset.thy ===== *)
theory Zend_Bitset
  imports Zend_Cfg
begin

text \<open>
  The bit sets of \<open>Zend/zend_bitset.h\<close>: arrays of 64-bit words, with the lengths given in words.
  A word outside the array is \<open>None\<close>. The abstraction of a bit set is the set of its members,
  and every operation is the operation on sets.
\<close>

type_synonym zend_bitset = "u64 list"

definition ZEND_BITSET_ELM_NUM :: "u32 \<Rightarrow> u32" where
  "ZEND_BITSET_ELM_NUM n = drop_bit 6 n"

definition ZEND_BITSET_BIT_NUM :: "u32 \<Rightarrow> u64" where
  "ZEND_BITSET_BIT_NUM n = ucast n AND 0x3f"

subsection \<open>Trailing zeros\<close>

text \<open>The portable definition of \<open>zend_ulong_ntz\<close>: one step of the binary search, and all.\<close>

definition ntz_step :: "u64 \<Rightarrow> nat \<Rightarrow> int \<times> u64 \<Rightarrow> int \<times> u64" where
  "ntz_step m k = (\<lambda>(n, num). if num AND m = 0 then (n + int k, drop_bit k num) else (n, num))"

definition zend_ulong_ntz :: "u64 \<Rightarrow> int" where
  "zend_ulong_ntz num =
     (if num = 0 then 64
      else (let (n, num) = ntz_step 0x3 2 (ntz_step 0xf 4 (ntz_step 0xff 8
              (ntz_step 0xffff 16 (ntz_step 0xffffffff 32 (1, num)))))
            in n - uint (num AND 1)))"

subsection \<open>Operations\<close>

text \<open>\<open>(n + 63) / 64\<close> is computed as a \<open>size_t\<close>, so it does not wrap around.\<close>

definition zend_bitset_len :: "u32 \<Rightarrow> u32" where
  "zend_bitset_len n = word_of_nat ((unat n + 63) div 64)"

definition zend_bitset_in :: "zend_bitset \<Rightarrow> u32 \<Rightarrow> bool option" where
  "zend_bitset_in bs n =
     map_option (\<lambda>w. drop_bit (unat (n AND 63)) w AND 1 \<noteq> 0) (nth_opt bs (unat (n div 64)))"

text \<open>Replacing one word.\<close>

definition update_elm :: "zend_bitset \<Rightarrow> nat \<Rightarrow> (u64 \<Rightarrow> u64) \<Rightarrow> zend_bitset option" where
  "update_elm bs i f = map_option (\<lambda>w. bs[i := f w]) (nth_opt bs i)"

definition zend_bitset_incl :: "zend_bitset \<Rightarrow> u32 \<Rightarrow> zend_bitset option" where
  "zend_bitset_incl bs n =
     update_elm bs (unat (ZEND_BITSET_ELM_NUM n))
       (\<lambda>w. w OR push_bit (unat (ZEND_BITSET_BIT_NUM n)) 1)"

definition zend_bitset_excl :: "zend_bitset \<Rightarrow> u32 \<Rightarrow> zend_bitset option" where
  "zend_bitset_excl bs n =
     update_elm bs (unat (ZEND_BITSET_ELM_NUM n))
       (\<lambda>w. w AND NOT (push_bit (unat (ZEND_BITSET_BIT_NUM n)) 1))"

text \<open>\<open>memset\<close> of the first words.\<close>

definition fill_words :: "u64 \<Rightarrow> zend_bitset \<Rightarrow> u32 \<Rightarrow> zend_bitset option" where
  "fill_words w bs n =
     (if unat n \<le> length bs then Some (replicate (unat n) w @ drop (unat n) bs) else None)"

definition zend_bitset_clear :: "zend_bitset \<Rightarrow> u32 \<Rightarrow> zend_bitset option" where
  "zend_bitset_clear bs n = fill_words 0 bs n"

definition zend_bitset_fill :: "zend_bitset \<Rightarrow> u32 \<Rightarrow> zend_bitset option" where
  "zend_bitset_fill bs n = fill_words (- 1) bs n"

fun empty_loop :: "zend_bitset \<Rightarrow> nat \<Rightarrow> bool option" where
  "empty_loop bs 0 = Some True"
| "empty_loop [] (Suc n) = None"
| "empty_loop (w # bs) (Suc n) = (if w \<noteq> 0 then Some False else empty_loop bs n)"

definition zend_bitset_empty :: "zend_bitset \<Rightarrow> u32 \<Rightarrow> bool option" where
  "zend_bitset_empty bs n = empty_loop bs (unat n)"

definition zend_bitset_equal :: "zend_bitset \<Rightarrow> zend_bitset \<Rightarrow> u32 \<Rightarrow> bool option" where
  "zend_bitset_equal bs1 bs2 n =
     (if unat n \<le> length bs1 \<and> unat n \<le> length bs2
      then Some (take (unat n) bs1 = take (unat n) bs2) else None)"

text \<open>The loops \<open>for (i = 0; i < len; i++) set1[i] = ...\<close>, for the words that the right-hand side
  reads.\<close>

fun words_loop :: "zend_bitset \<Rightarrow> nat \<Rightarrow> zend_bitset \<Rightarrow> (u64 \<Rightarrow> u64 \<Rightarrow> u64) \<Rightarrow> zend_bitset option" where
  "words_loop bs1 0 bs2 f = Some bs1"
| "words_loop (v # bs1) (Suc n) (w # bs2) f = map_option ((#) (f v w)) (words_loop bs1 n bs2 f)"
| "words_loop bs1 (Suc n) bs2 f = None"

definition zend_bitset_copy :: "zend_bitset \<Rightarrow> zend_bitset \<Rightarrow> u32 \<Rightarrow> zend_bitset option" where
  "zend_bitset_copy bs1 bs2 n = words_loop bs1 (unat n) bs2 (\<lambda>_ w. w)"

definition zend_bitset_intersection :: "zend_bitset \<Rightarrow> zend_bitset \<Rightarrow> u32 \<Rightarrow> zend_bitset option" where
  "zend_bitset_intersection bs1 bs2 n = words_loop bs1 (unat n) bs2 (AND)"

definition zend_bitset_union :: "zend_bitset \<Rightarrow> zend_bitset \<Rightarrow> u32 \<Rightarrow> zend_bitset option" where
  "zend_bitset_union bs1 bs2 n = words_loop bs1 (unat n) bs2 (OR)"

definition zend_bitset_difference :: "zend_bitset \<Rightarrow> zend_bitset \<Rightarrow> u32 \<Rightarrow> zend_bitset option" where
  "zend_bitset_difference bs1 bs2 n = words_loop bs1 (unat n) bs2 (\<lambda>v w. v AND NOT w)"

text \<open>The same with three arrays on the right-hand side.\<close>

fun words_loop3 :: "zend_bitset \<Rightarrow> nat \<Rightarrow> zend_bitset \<Rightarrow> zend_bitset \<Rightarrow> zend_bitset \<Rightarrow>
    (u64 \<Rightarrow> u64 \<Rightarrow> u64 \<Rightarrow> u64) \<Rightarrow> zend_bitset option" where
  "words_loop3 bs1 0 bs2 bs3 bs4 f = Some bs1"
| "words_loop3 (v # bs1) (Suc n) (w # bs2) (x # bs3) (y # bs4) f =
     map_option ((#) (f w x y)) (words_loop3 bs1 n bs2 bs3 bs4 f)"
| "words_loop3 bs1 (Suc n) bs2 bs3 bs4 f = None"

definition zend_bitset_union_with_intersection ::
  "zend_bitset \<Rightarrow> zend_bitset \<Rightarrow> zend_bitset \<Rightarrow> zend_bitset \<Rightarrow> u32 \<Rightarrow> zend_bitset option" where
  "zend_bitset_union_with_intersection bs1 bs2 bs3 bs4 n =
     words_loop3 bs1 (unat n) bs2 bs3 bs4 (\<lambda>w x y. w OR (x AND y))"

definition zend_bitset_union_with_difference ::
  "zend_bitset \<Rightarrow> zend_bitset \<Rightarrow> zend_bitset \<Rightarrow> zend_bitset \<Rightarrow> u32 \<Rightarrow> zend_bitset option" where
  "zend_bitset_union_with_difference bs1 bs2 bs3 bs4 n =
     words_loop3 bs1 (unat n) bs2 bs3 bs4 (\<lambda>w x y. w OR (x AND NOT y))"

fun subset_loop :: "zend_bitset \<Rightarrow> zend_bitset \<Rightarrow> nat \<Rightarrow> bool option" where
  "subset_loop bs1 bs2 0 = Some True"
| "subset_loop (v # bs1) (w # bs2) (Suc n) =
     (if v AND NOT w \<noteq> 0 then Some False else subset_loop bs1 bs2 n)"
| "subset_loop bs1 bs2 (Suc n) = None"

definition zend_bitset_subset :: "zend_bitset \<Rightarrow> zend_bitset \<Rightarrow> u32 \<Rightarrow> bool option" where
  "zend_bitset_subset bs1 bs2 n = subset_loop bs1 bs2 (unat n)"

text \<open>The search of the first word from number \<open>i\<close> on; \<open>n\<close> are left.\<close>

fun first_loop :: "zend_bitset \<Rightarrow> nat \<Rightarrow> nat \<Rightarrow> int option" where
  "first_loop bs i 0 = Some (- 1)"
| "first_loop [] i (Suc n) = None"
| "first_loop (w # bs) i (Suc n) =
     (if w \<noteq> 0 then Some (64 * int i + zend_ulong_ntz w) else first_loop bs (Suc i) n)"

definition zend_bitset_first :: "zend_bitset \<Rightarrow> u32 \<Rightarrow> int option" where
  "zend_bitset_first bs n = first_loop bs 0 (unat n)"

text \<open>The search of the last word, and the shifts that find its last bit.\<close>

function shift_out :: "u64 \<Rightarrow> int \<Rightarrow> int" where
  "shift_out x j = (if x \<noteq> 0 then shift_out (drop_bit 1 x) (j + 1) else j)"
  by pat_completeness auto
termination
proof (relation "measure (\<lambda>(x, j). unat x)", goal_cases)
  case 1
  then show ?case by simp
next
  case (2 x j)
  then have "0 < unat x" by (simp add: unat_gt_0)
  then show ?case by (simp add: drop_bit_eq_div unat_div)
qed

declare shift_out.simps [simp del]

fun last_loop :: "zend_bitset \<Rightarrow> nat \<Rightarrow> int option" where
  "last_loop bs 0 = Some (- 1)"
| "last_loop bs (Suc i) =
     do { w \<leftarrow> nth_opt bs i;
          if w \<noteq> 0 then Some (shift_out w (64 * int i - 1)) else last_loop bs i }"

definition zend_bitset_last :: "zend_bitset \<Rightarrow> u32 \<Rightarrow> int option" where
  "zend_bitset_last bs n = last_loop bs (unat n)"

text \<open>\<open>ZEND_BITSET_FOREACH\<close>: the bits in the order in which the body sees them. The reverse loop
  shifts the words to the left.\<close>

function foreach_word :: "u64 \<Rightarrow> nat \<Rightarrow> nat list" where
  "foreach_word x b =
     (if x \<noteq> 0 then (if x AND 1 \<noteq> 0 then [b] else []) @ foreach_word (drop_bit 1 x) (Suc b) else [])"
  by pat_completeness auto
termination
proof (relation "measure (\<lambda>(x, j). unat x)", goal_cases)
  case 1
  then show ?case by simp
next
  case (2 x j)
  then have "0 < unat x" by (simp add: unat_gt_0)
  then show ?case by (simp add: drop_bit_eq_div unat_div)
qed

declare foreach_word.simps [simp del]

fun ZEND_BITSET_FOREACH :: "zend_bitset \<Rightarrow> nat \<Rightarrow> nat \<Rightarrow> nat list option" where
  "ZEND_BITSET_FOREACH bs i 0 = Some []"
| "ZEND_BITSET_FOREACH [] i (Suc n) = None"
| "ZEND_BITSET_FOREACH (w # bs) i (Suc n) =
     map_option ((@) (foreach_word w (64 * i))) (ZEND_BITSET_FOREACH bs (Suc i) n)"

definition zend_bitset_pop_first :: "zend_bitset \<Rightarrow> u32 \<Rightarrow> (int \<times> zend_bitset) option" where
  "zend_bitset_pop_first bs n =
     do { i \<leftarrow> zend_bitset_first bs n;
          if i \<ge> 0 then map_option (Pair i) (zend_bitset_excl bs (word_of_int i))
          else Some (i, bs) }"

end
