(* ===== verification/Zend_Bitset_Correct.thy ===== *)
theory Zend_Bitset_Correct
  imports Zend_Bitset
begin

text \<open>
  The bit sets of \<open>Zend_Bitset\<close> implement sets of numbers.
\<close>

subsection \<open>Trailing zeros\<close>

definition lowest :: "u64 \<Rightarrow> nat \<Rightarrow> bool" where
  "lowest x i \<longleftrightarrow> bit x i \<and> (\<forall>j<i. \<not> bit x j)"

lemma lowest_exists: "x \<noteq> 0 \<Longrightarrow> \<exists>i. lowest x i"
proof -
  assume "x \<noteq> 0"
  then obtain i where "bit x i" by (auto simp: bit_eq_iff)
  then show ?thesis unfolding lowest_def by (metis (no_types) exists_least_iff)
qed

lemma lowest_bound: "lowest x i \<Longrightarrow> i < 64"
  by (auto simp: lowest_def dest: bit_imp_le_length)

lemma ntz_step_lowest:
  assumes "lowest x i" "i < 2 * k" "m = mask k" "ntz_step m k (n, x) = (n', x')"
  shows "\<exists>i'. lowest x' i' \<and> i' < k \<and> n' + int i' = n + int i"
proof (cases "i < k")
  case True
  then have "bit (x AND m) i" using assms(1,3) lowest_bound [OF assms(1)]
    by (simp add: lowest_def bit_simps)
  then have "x AND m \<noteq> 0" by auto
  then show ?thesis using assms True by (auto simp: ntz_step_def)
next
  case False
  have "x AND m = 0" using assms(1,3) False by (auto simp: lowest_def bit_eq_iff bit_simps)
  then have eq: "n' = n + int k" "x' = drop_bit k x" using assms(4) by (auto simp: ntz_step_def)
  have "lowest x' (i - k)"
    using assms(1) False by (auto simp: eq lowest_def bit_simps)
  then show ?thesis using assms(2) False by (intro exI [of _ "i - k"]) (simp add: eq)
qed

lemma zend_ulong_ntz_lowest:
  assumes "lowest x i"
  shows "zend_ulong_ntz x = int i"
proof -
  have "x \<noteq> 0" using assms by (auto simp: lowest_def)
  obtain n1 x1 where s1: "ntz_step 0xffffffff 32 (1, x) = (n1, x1)" by fastforce
  obtain n2 x2 where s2: "ntz_step 0xffff 16 (n1, x1) = (n2, x2)" by fastforce
  obtain n3 x3 where s3: "ntz_step 0xff 8 (n2, x2) = (n3, x3)" by fastforce
  obtain n4 x4 where s4: "ntz_step 0xf 4 (n3, x3) = (n4, x4)" by fastforce
  obtain n5 x5 where s5: "ntz_step 0x3 2 (n4, x4) = (n5, x5)" by fastforce
  have m: "(0xffffffff :: u64) = mask 32" "(0xffff :: u64) = mask 16" "(0xff :: u64) = mask 8"
    "(0xf :: u64) = mask 4" "(0x3 :: u64) = mask 2"
    by (simp_all add: mask_eq_exp_minus_1)
  have "i < 2 * 32" using lowest_bound [OF assms] by simp
  from ntz_step_lowest [OF assms this m(1) s1] obtain i1
    where i1: "lowest x1 i1" "i1 < 2 * 16" "n1 + int i1 = 1 + int i" by auto
  from ntz_step_lowest [OF i1(1,2) m(2) s2] i1(3) obtain i2
    where i2: "lowest x2 i2" "i2 < 2 * 8" "n2 + int i2 = 1 + int i" by auto
  from ntz_step_lowest [OF i2(1,2) m(3) s3] i2(3) obtain i3
    where i3: "lowest x3 i3" "i3 < 2 * 4" "n3 + int i3 = 1 + int i" by auto
  from ntz_step_lowest [OF i3(1,2) m(4) s4] i3(3) obtain i4
    where i4: "lowest x4 i4" "i4 < 2 * 2" "n4 + int i4 = 1 + int i" by auto
  from ntz_step_lowest [OF i4(1,2) m(5) s5] i4(3) obtain i5
    where i5: "lowest x5 i5" "i5 < 2" "n5 + int i5 = 1 + int i" by auto
  have "uint (x5 AND 1) = 1 - int i5"
  proof (cases "i5 = 0")
    case True
    then have "bit x5 0" using i5(1) by (simp add: lowest_def)
    then show ?thesis using True by (simp add: and_one_eq odd_iff_mod_2_eq_one bit_0)
  next
    case False
    then have "i5 = 1" using i5(2) by simp
    then have "\<not> bit x5 0" using i5(1) by (simp add: lowest_def)
    then show ?thesis using \<open>i5 = 1\<close> by (simp add: and_one_eq bit_0 even_iff_mod_2_eq_zero)
  qed
  then show ?thesis
    using \<open>x \<noteq> 0\<close> i5(3) by (simp add: zend_ulong_ntz_def s1 s2 s3 s4 s5)
qed

subsection \<open>Members\<close>

definition members :: "zend_bitset \<Rightarrow> nat set" where
  "members bs = {n. n div 64 < length bs \<and> bit (bs ! (n div 64)) (n mod 64)}"

lemma members_Nil [simp]: "members [] = {}"
  by (simp add: members_def)

lemma unat_and_63: "unat (n AND 63 :: u32) = unat n mod 64"
proof -
  have "n AND 63 = take_bit 6 n" by (simp add: take_bit_eq_mask mask_eq_exp_minus_1)
  then show ?thesis by (simp add: take_bit_eq_mod unat_mod)
qed

lemma unat_elm_num [simp]: "unat (ZEND_BITSET_ELM_NUM n) = unat n div 64"
  by (simp add: ZEND_BITSET_ELM_NUM_def drop_bit_eq_div unat_div)

lemma unat_bit_num [simp]: "unat (ZEND_BITSET_BIT_NUM n) = unat n mod 64"
proof -
  have "(ucast n :: u64) AND 63 = take_bit 6 (ucast n)"
    by (simp add: take_bit_eq_mask mask_eq_exp_minus_1)
  moreover have "unat (ucast n :: u64) = unat n"
    by (simp add: unsigned_ucast_eq take_bit_nat_eq_self less_trans [OF unat_u32_less])
  ultimately show ?thesis
    by (simp add: ZEND_BITSET_BIT_NUM_def take_bit_eq_mod unat_mod)
qed

lemma bitset_in_members:
  assumes "unat n div 64 < length bs"
  shows "zend_bitset_in bs n = Some (unat n \<in> members bs)"
proof -
  have "drop_bit k w AND 1 \<noteq> 0 \<longleftrightarrow> bit w k" for k and w :: u64
    by (simp add: and_one_eq bit_iff_odd_drop_bit odd_iff_mod_2_eq_one)
  then show ?thesis using assms
    by (simp add: zend_bitset_in_def nth_opt_def unat_div unat_and_63 members_def)
qed

lemma members_update:
  assumes "i < length bs"
  shows "members (bs[i := w]) = {n \<in> members bs. n div 64 \<noteq> i} \<union> {n. n div 64 = i \<and> bit w (n mod 64)}"
  using assms by (auto simp: members_def nth_list_update)

lemma div_mod_64: "n div 64 = m div 64 \<Longrightarrow> n mod 64 = m mod 64 \<Longrightarrow> n = (m :: nat)"
  by (metis div_mult_mod_eq)

lemma bitset_incl_members:
  assumes "unat n div 64 < length bs"
  obtains bs' where "zend_bitset_incl bs n = Some bs'" "members bs' = insert (unat n) (members bs)"
    "length bs' = length bs"
proof
  let ?w = "bs ! (unat n div 64) OR push_bit (unat n mod 64) 1"
  show "zend_bitset_incl bs n = Some (bs[unat n div 64 := ?w])"
    using assms by (simp add: zend_bitset_incl_def update_elm_def nth_opt_def)
  show "members (bs[unat n div 64 := ?w]) = insert (unat n) (members bs)"
    using assms unfolding members_update [OF assms]
    by (auto simp: members_def bit_simps dest: div_mod_64)
qed simp

lemma bitset_excl_members:
  assumes "unat n div 64 < length bs"
  obtains bs' where "zend_bitset_excl bs n = Some bs'" "members bs' = members bs - {unat n}"
    "length bs' = length bs"
proof
  let ?w = "bs ! (unat n div 64) AND NOT (push_bit (unat n mod 64) 1)"
  show "zend_bitset_excl bs n = Some (bs[unat n div 64 := ?w])"
    using assms by (simp add: zend_bitset_excl_def update_elm_def nth_opt_def)
  show "members (bs[unat n div 64 := ?w]) = members bs - {unat n}"
    using assms unfolding members_update [OF assms]
    by (auto simp: members_def bit_simps dest: div_mod_64)
qed simp

subsection \<open>Set operations\<close>

lemma words_loop_eq:
  "n \<le> length bs1 \<Longrightarrow> n \<le> length bs2 \<Longrightarrow>
   words_loop bs1 n bs2 f = Some (map2 f (take n bs1) (take n bs2) @ drop n bs1)"
  by (induction bs1 n bs2 f rule: words_loop.induct) simp_all

lemma words_loop3_eq:
  "n \<le> length bs1 \<Longrightarrow> n \<le> length bs2 \<Longrightarrow> n \<le> length bs3 \<Longrightarrow> n \<le> length bs4 \<Longrightarrow>
   words_loop3 bs1 n bs2 bs3 bs4 f =
     Some (map2 (\<lambda>w (x, y). f w x y) (take n bs2) (zip (take n bs3) (take n bs4)) @ drop n bs1)"
  by (induction bs1 n bs2 bs3 bs4 f rule: words_loop3.induct) simp_all

text \<open>Members below the length in words, which is all that the operations look at.\<close>

definition members_upto :: "nat \<Rightarrow> zend_bitset \<Rightarrow> nat set" where
  "members_upto n bs = members (take n bs)"

lemma in_members_upto:
  "k \<in> members_upto n bs \<longleftrightarrow> k div 64 < n \<and> k \<in> members bs"
  by (auto simp: members_upto_def members_def)

lemma members_words:
  assumes "n \<le> length bs1" "n \<le> length bs2"
    and "\<And>v w i. i < 64 \<Longrightarrow> bit (f v w) i = P (bit v i) (bit w i)"
  shows "members_upto n (map2 f (take n bs1) (take n bs2) @ drop n bs1) =
    {k. k div 64 < n \<and> P (k \<in> members bs1) (k \<in> members bs2)}"
  using assms by (auto simp: in_members_upto members_def nth_append)

lemma members_words3:
  assumes "n \<le> length bs1" "n \<le> length bs2" "n \<le> length bs3" "n \<le> length bs4"
    and "\<And>w x y i. i < 64 \<Longrightarrow> bit (f w x y) i = P (bit w i) (bit x i) (bit y i)"
  shows "members_upto n
      (map2 (\<lambda>w (x, y). f w x y) (take n bs2) (zip (take n bs3) (take n bs4)) @ drop n bs1) =
    {k. k div 64 < n \<and> P (k \<in> members bs2) (k \<in> members bs3) (k \<in> members bs4)}"
  using assms by (auto simp: in_members_upto members_def nth_append)

text \<open>A bit set is a set. In its first \<open>len\<close> words, the operations on arrays of that length
  give the intersection, the union, the difference and the two combinations of their operands,
  and never access a word outside them.\<close>

theorem bitset_set_algebra:
  fixes m :: "u32"
  defines "n \<equiv> unat m"
  assumes "n \<le> length bs1" "n \<le> length bs2" "n \<le> length bs3" "n \<le> length bs4"
  shows "map_option (members_upto n) (zend_bitset_intersection bs1 bs2 m) =
           Some (members_upto n bs1 \<inter> members_upto n bs2) \<and>
         map_option (members_upto n) (zend_bitset_union bs1 bs2 m) =
           Some (members_upto n bs1 \<union> members_upto n bs2) \<and>
         map_option (members_upto n) (zend_bitset_difference bs1 bs2 m) =
           Some (members_upto n bs1 - members_upto n bs2) \<and>
         map_option (members_upto n) (zend_bitset_union_with_intersection bs1 bs2 bs3 bs4 m) =
           Some (members_upto n bs2 \<union> (members_upto n bs3 \<inter> members_upto n bs4)) \<and>
         map_option (members_upto n) (zend_bitset_union_with_difference bs1 bs2 bs3 bs4 m) =
           Some (members_upto n bs2 \<union> (members_upto n bs3 - members_upto n bs4))"
proof (intro conjI)
  note le = assms(2-5)
  note upto = in_members_upto set_eq_iff
  have "members_upto n (map2 (AND) (take n bs1) (take n bs2) @ drop n bs1) =
      {k. k div 64 < n \<and> (k \<in> members bs1 \<and> k \<in> members bs2)}"
    by (rule members_words [OF le(1,2)]) (simp add: bit_simps)
  also have "\<dots> = members_upto n bs1 \<inter> members_upto n bs2" by (auto simp: upto)
  finally show "map_option (members_upto n) (zend_bitset_intersection bs1 bs2 m) =
           Some (members_upto n bs1 \<inter> members_upto n bs2)"
    using le by (simp add: zend_bitset_intersection_def words_loop_eq flip: n_def)
  have "members_upto n (map2 (OR) (take n bs1) (take n bs2) @ drop n bs1) =
      {k. k div 64 < n \<and> (k \<in> members bs1 \<or> k \<in> members bs2)}"
    by (rule members_words [OF le(1,2)]) (simp add: bit_simps)
  also have "\<dots> = members_upto n bs1 \<union> members_upto n bs2" by (auto simp: upto)
  finally show "map_option (members_upto n) (zend_bitset_union bs1 bs2 m) =
           Some (members_upto n bs1 \<union> members_upto n bs2)"
    using le by (simp add: zend_bitset_union_def words_loop_eq flip: n_def)
  have "members_upto n (map2 (\<lambda>v w. v AND NOT w) (take n bs1) (take n bs2) @ drop n bs1) =
      {k. k div 64 < n \<and> (k \<in> members bs1 \<and> \<not> k \<in> members bs2)}"
    by (rule members_words [OF le(1,2)]) (simp add: bit_simps)
  also have "\<dots> = members_upto n bs1 - members_upto n bs2" by (auto simp: upto)
  finally show "map_option (members_upto n) (zend_bitset_difference bs1 bs2 m) =
           Some (members_upto n bs1 - members_upto n bs2)"
    using le by (simp add: zend_bitset_difference_def words_loop_eq flip: n_def)
  have "members_upto n (map2 (\<lambda>w (x, y). w OR (x AND y)) (take n bs2) (zip (take n bs3) (take n bs4)) @ drop n bs1) =
      {k. k div 64 < n \<and> (k \<in> members bs2 \<or> (k \<in> members bs3 \<and> k \<in> members bs4))}"
    by (rule members_words3 [OF le]) (simp add: bit_simps)
  also have "\<dots> = members_upto n bs2 \<union> (members_upto n bs3 \<inter> members_upto n bs4)" by (auto simp: upto)
  finally show "map_option (members_upto n) (zend_bitset_union_with_intersection bs1 bs2 bs3 bs4 m) =
           Some (members_upto n bs2 \<union> (members_upto n bs3 \<inter> members_upto n bs4))"
    using le by (simp add: zend_bitset_union_with_intersection_def words_loop3_eq flip: n_def)
  have "members_upto n (map2 (\<lambda>w (x, y). w OR (x AND NOT y)) (take n bs2) (zip (take n bs3) (take n bs4)) @ drop n bs1) =
      {k. k div 64 < n \<and> (k \<in> members bs2 \<or> (k \<in> members bs3 \<and> \<not> k \<in> members bs4))}"
    by (rule members_words3 [OF le]) (simp add: bit_simps)
  also have "\<dots> = members_upto n bs2 \<union> (members_upto n bs3 - members_upto n bs4)" by (auto simp: upto)
  finally show "map_option (members_upto n) (zend_bitset_union_with_difference bs1 bs2 bs3 bs4 m) =
           Some (members_upto n bs2 \<union> (members_upto n bs3 - members_upto n bs4))"
    using le by (simp add: zend_bitset_union_with_difference_def words_loop3_eq flip: n_def)
qed

theorem bitset_set_algebra_witness:
  "map_option (members_upto 1) (zend_bitset_union_with_difference [0] [1] [6] [4] 1) =
     Some (members_upto 1 [1] \<union> (members_upto 1 [6] - members_upto 1 [4]))"
  using bitset_set_algebra [of 1 "[0]" "[1]" "[6]" "[4]"] by simp

subsection \<open>The first, the last and all members\<close>

lemma foreach_word_eq: "foreach_word x b = map ((+) b) (filter (bit x) [0..<64])"
proof (induction x b rule: foreach_word.induct)
  case (1 x b)
  show ?case
  proof (cases "x = 0")
    case True
    then show ?thesis by (subst foreach_word.simps) simp
  next
    case False
    have one: "x AND 1 \<noteq> 0 \<longleftrightarrow> bit x 0" by (simp add: and_one_eq bit_0 odd_iff_mod_2_eq_one)
    have "[0..<64] = 0 # map Suc [0..<63]" by (simp add: map_Suc_upt upt_conv_Cons)
    then have "filter (bit x) [0..<64] =
        (if bit x 0 then [0] else []) @ map Suc (filter (\<lambda>i. bit x (Suc i)) [0..<63])"
      by (simp add: filter_map comp_def)
    moreover have "filter (bit (drop_bit 1 x)) [0..<64] = filter (\<lambda>i. bit x (Suc i)) [0..<63]"
    proof -
      have "[0..<64] = [0..<63] @ [63 :: nat]" by (simp flip: upt_Suc_append)
      moreover have "\<not> bit x 64" by simp
      ultimately show ?thesis by (simp add: bit_simps comp_def)
    qed
    ultimately show ?thesis using 1 False one
      by (subst foreach_word.simps) (simp add: comp_def)
  qed
qed

lemma members_Cons:
  "k \<in> members (w # bs) \<longleftrightarrow> (if k < 64 then bit w k else k - 64 \<in> members bs)"
proof (cases "k < 64")
  case False
  then have "k div 64 = Suc ((k - 64) div 64)" "k mod 64 = (k - 64) mod 64"
    by (simp_all add: le_div_geq le_mod_geq)
  then show ?thesis using False by (simp add: members_def)
qed (simp add: members_def)

lemma finite_members_upto [simp]: "finite (members_upto n bs)"
  by (rule finite_subset [of _ "{..<64 * n}"])
    (auto simp: in_members_upto div_less_iff_less_mult mult.commute)

text \<open>The members in their order.\<close>

definition member_list :: "nat \<Rightarrow> zend_bitset \<Rightarrow> nat list" where
  "member_list n bs = filter (\<lambda>k. k \<in> members bs) [0..<64 * n]"

lemma member_list_0 [simp]: "member_list 0 bs = []"
  by (simp add: member_list_def)

lemma member_list_Suc:
  "member_list (Suc n) (w # bs) = filter (bit w) [0..<64] @ map (\<lambda>k. k + 64) (member_list n bs)"
proof -
  have "[0..<64 * Suc n] = [0..<64] @ map (\<lambda>k. k + 64) [0..<64 * n]"
    by (simp add: map_add_upt upt_add_eq_append [of 0 64 "64 * n"] add.commute)
  moreover have "filter (\<lambda>k. k \<in> members (w # bs)) [0..<64] = filter (bit w) [0..<64]"
    by (rule filter_cong) (simp_all add: members_Cons)
  ultimately show ?thesis
    by (simp add: member_list_def filter_map comp_def members_Cons)
qed

lemma set_member_list: "n \<le> length bs \<Longrightarrow> set (member_list n bs) = members_upto n bs"
  by (auto simp: member_list_def in_members_upto div_less_iff_less_mult mult.commute)

lemma sorted_member_list: "sorted_wrt (<) (member_list n bs)"
  by (simp add: member_list_def sorted_wrt_filter)

lemma foreach_eq:
  "n \<le> length bs \<Longrightarrow> ZEND_BITSET_FOREACH bs i n = Some (map ((+) (64 * i)) (member_list n bs))"
  by (induction bs i n rule: ZEND_BITSET_FOREACH.induct)
    (simp_all add: member_list_Suc foreach_word_eq comp_def add.commute add.left_commute)

lemma filter_bits_Nil: "filter (bit (w :: u64)) [0..<64] = [] \<longleftrightarrow> w = 0"
  by (auto simp: filter_empty_conv bit_eq_iff)

lemma filter_bits_lowest:
  assumes "lowest w k"
  obtains ks where "filter (bit w) [0..<64] = k # ks"
proof -
  have "[0..<64] = [0..<k] @ k # [Suc k..<64]"
    using lowest_bound [OF assms] by (metis le_add1 less_imp_add_positive less_imp_le_nat plus_nat.add_0 upt_add_eq_append upt_conv_Cons)
  moreover have "filter (bit w) [0..<k] = []" using assms by (simp add: filter_empty_conv lowest_def)
  moreover have "bit w k" using assms by (simp add: lowest_def)
  ultimately show thesis using that by simp
qed

lemma first_loop_eq:
  "n \<le> length bs \<Longrightarrow> first_loop bs i n =
     Some (case member_list n bs of [] \<Rightarrow> - 1 | k # _ \<Rightarrow> int (64 * i + k))"
proof (induction bs i n rule: first_loop.induct)
  case (3 w bs i n)
  show ?case
  proof (cases "w = 0")
    case True
    then show ?thesis using 3
      by (cases "member_list n bs") (simp_all add: member_list_Suc filter_bits_Nil)
  next
    case False
    then obtain k where k: "lowest w k" using lowest_exists by blast
    obtain ks where "filter (bit w) [0..<64] = k # ks" by (rule filter_bits_lowest [OF k])
    then show ?thesis using False by (simp add: member_list_Suc zend_ulong_ntz_lowest [OF k])
  qed
qed simp_all

definition highest :: "u64 \<Rightarrow> nat \<Rightarrow> bool" where
  "highest x h \<longleftrightarrow> bit x h \<and> (\<forall>j>h. \<not> bit x j)"

lemma highest_exists:
  assumes "x \<noteq> 0"
  obtains h where "highest x h"
proof -
  let ?A = "{i. bit x i}"
  have fin: "finite ?A" by (rule finite_subset [of _ "{..<64}"]) (auto dest: bit_imp_le_length)
  moreover have "?A \<noteq> {}" using assms by (auto simp: bit_eq_iff)
  ultimately have "Max ?A \<in> ?A" by (rule Max_in)
  moreover have "j \<le> Max ?A" if "bit x j" for j using that fin by (simp add: Max_ge)
  ultimately have "highest x (Max ?A)" by (auto simp: highest_def not_less [symmetric])
  then show thesis by (rule that)
qed

lemma shift_out_highest: "highest x h \<Longrightarrow> shift_out x j = j + 1 + int h"
proof (induction h arbitrary: x j)
  case 0
  then have "x \<noteq> 0" by (auto simp: highest_def)
  moreover have "drop_bit 1 x = 0" using 0 by (auto simp: highest_def bit_eq_iff bit_simps)
  ultimately show ?case by (simp add: shift_out.simps [of x] shift_out.simps [of 0])
next
  case (Suc h)
  then have "x \<noteq> 0" by (auto simp: highest_def)
  moreover have "highest (drop_bit 1 x) h" using Suc.prems by (auto simp: highest_def bit_simps)
  ultimately show ?case using Suc.IH by (simp add: shift_out.simps [of x])
qed

lemma filter_bits_highest:
  assumes "highest w h"
  obtains ks where "filter (bit w) [0..<64] = ks @ [h]"
proof -
  have "h < 64" using assms by (auto simp: highest_def dest: bit_imp_le_length)
  then have "[0..<64] = [0..<h] @ h # [Suc h..<64]"
    by (metis le_add1 less_imp_add_positive less_imp_le_nat plus_nat.add_0 upt_add_eq_append upt_conv_Cons)
  moreover have "filter (bit w) [Suc h..<64] = []" using assms by (simp add: filter_empty_conv highest_def)
  moreover have "bit w h" using assms by (simp add: highest_def)
  ultimately show thesis using that by simp
qed

lemma member_list_snoc:
  assumes "i < length bs"
  shows "member_list (Suc i) bs = member_list i bs @ map ((+) (64 * i)) (filter (bit (bs ! i)) [0..<64])"
proof -
  have "[0..<64 * Suc i] = [0..<64 * i] @ map ((+) (64 * i)) [0..<64]"
  proof -
    have "(+) (64 * i) = (\<lambda>k. k + 64 * i)" by (simp add: fun_eq_iff)
    then have "map ((+) (64 * i)) [0..<64] = [64 * i..<64 * i + 64]"
      using map_add_upt [of "64 * i" 64] by (simp add: add.commute)
    moreover have "[0..<64 * i + 64] = [0..<64 * i] @ [64 * i..<64 * i + 64]"
      by (rule upt_add_eq_append) simp
    ultimately show ?thesis by (simp add: add.commute)
  qed
  moreover have "64 * i + k \<in> members bs \<longleftrightarrow> bit (bs ! i) k" if "k < 64" for k
    using that assms by (simp add: members_def div_mult_self4)
  then have "filter (\<lambda>k. 64 * i + k \<in> members bs) [0..<64] = filter (bit (bs ! i)) [0..<64]"
    by (intro filter_cong) simp_all
  ultimately show ?thesis by (simp add: member_list_def filter_map comp_def)
qed

lemma last_loop_eq:
  "n \<le> length bs \<Longrightarrow> last_loop bs n =
     Some (if member_list n bs = [] then - 1 else int (last (member_list n bs)))"
proof (induction bs n rule: last_loop.induct)
  case (2 bs i)
  have w: "nth_opt bs i = Some (bs ! i)" using 2 by (simp add: nth_opt_def)
  show ?case
  proof (cases "bs ! i = 0")
    case True
    then show ?thesis using 2 w by (simp add: member_list_snoc)
  next
    case False
    then obtain h where h: "highest (bs ! i) h" by (rule highest_exists)
    obtain ks where "filter (bit (bs ! i)) [0..<64] = ks @ [h]" by (rule filter_bits_highest [OF h])
    then show ?thesis using 2 w False by (simp add: member_list_snoc shift_out_highest [OF h])
  qed
qed simp

lemma sorted_hd_Min: "sorted_wrt (<) (k # ks) \<Longrightarrow> Min (set (k # ks)) = (k :: nat)"
  by (rule Min_eqI) (auto simp: less_imp_le)

lemma sorted_last_Max: "sorted_wrt (<) (ks @ [k]) \<Longrightarrow> Max (set (ks @ [k])) = (k :: nat)"
  by (rule Max_eqI) (auto simp: sorted_wrt_append less_imp_le)

lemma example_members: "members_upto 2 [0, 0x28] = {67, 69}"
proof -
  have "ZEND_BITSET_FOREACH [0, 0x28] 0 2 = Some [67, 69]" by code_simp
  then have "member_list 2 [0, 0x28] = [67, 69]" by (simp add: foreach_eq map_idI)
  then show ?thesis using set_member_list [of 2 "[0, 0x28]"] by simp
qed



lemma bitset_first_Min:
  assumes "n \<le> length bs"
  shows "first_loop bs 0 n =
    Some (let S = members_upto n bs in if S = {} then - 1 else int (Min S))"
proof (cases "member_list n bs")
  case Nil
  then show ?thesis using set_member_list [OF assms] by (simp add: first_loop_eq assms)
next
  case (Cons k ks)
  then have "Min (members_upto n bs) = k"
    using sorted_member_list [of n bs] sorted_hd_Min set_member_list [OF assms] by metis
  moreover have "members_upto n bs \<noteq> {}" using set_member_list [OF assms] Cons by auto
  ultimately show ?thesis using Cons by (simp add: first_loop_eq assms)
qed

text \<open>Taking the first member. \<open>zend_bitset_pop_first\<close> returns the least member and removes
  exactly that one, or returns -1 and leaves the empty set, as long as the numbers of the bits fit
  into an \<open>int\<close>.\<close>

theorem bitset_pop_first_Min:
  assumes "unat m \<le> length bs" and "64 * unat m \<le> 2 ^ 31"
  shows "\<exists>bs'. zend_bitset_pop_first bs m =
      Some (if members_upto (unat m) bs = {} then - 1 else int (Min (members_upto (unat m) bs)), bs') \<and>
    members bs' = (if members_upto (unat m) bs = {} then members bs
                   else members bs - {Min (members_upto (unat m) bs)})"
proof (cases "members_upto (unat m) bs = {}")
  case True
  then show ?thesis
    by (simp add: zend_bitset_pop_first_def zend_bitset_first_def bitset_first_Min [OF assms(1)])
next
  case False
  let ?k = "Min (members_upto (unat m) bs)"
  have "?k \<in> members_upto (unat m) bs" using False by (intro Min_in) simp_all
  then have "?k div 64 < unat m" by (simp add: in_members_upto)
  then have "?k < 64 * unat m" by (simp add: div_less_iff_less_mult mult.commute)
  then have k: "unat (word_of_nat ?k :: u32) = ?k"
    using assms(2) by (simp add: unsigned_of_nat take_bit_nat_eq_self)
  have "unat (word_of_nat ?k :: u32) div 64 < length bs"
    unfolding k using \<open>?k div 64 < unat m\<close> assms(1) by simp
  then obtain bs' where "zend_bitset_excl bs (word_of_nat ?k) = Some bs'"
      "members bs' = members bs - {unat (word_of_nat ?k :: u32)}"
    by (rule bitset_excl_members) blast
  then show ?thesis using False k
    by (simp add: zend_bitset_pop_first_def zend_bitset_first_def bitset_first_Min [OF assms(1)])
qed

theorem bitset_pop_first_Min_witness:
  "\<exists>bs'. zend_bitset_pop_first [0, 0x28] 2 = Some (67, bs') \<and> members bs' = members [0, 0x28] - {67}"
proof -
  show ?thesis using example_members bitset_pop_first_Min [of 2 "[0, 0x28]"] by simp
qed

end
