(* ===== verification/Zend_Worklist.thy ===== *)
theory Zend_Worklist
  imports Zend_Bitset_Correct
begin

text \<open>
  The work list of \<open>pcov-patched/cfg/704/zend_worklist.h\<close>: a stack of numbers with a set of the
  numbers that were ever pushed. A violated \<open>ZEND_ASSERT\<close> and an access outside the stack's
  array are \<open>None\<close>. The set is used through an interface, a locale with the two operations on it
  and their laws, which the bit sets of \<open>zend_bitset.h\<close> provide.
\<close>

subsection \<open>The stack\<close>

record zend_worklist_stack =
  ws_buf :: "int list"
  ws_len :: int
  ws_capacity :: int

definition zend_worklist_stack_prepare :: "int \<Rightarrow> zend_worklist_stack option" where
  "zend_worklist_stack_prepare n =
     (if 0 \<le> n then Some \<lparr>ws_buf = replicate (nat n) 0, ws_len = 0, ws_capacity = n\<rparr> else None)"

definition zend_worklist_stack_push :: "zend_worklist_stack \<Rightarrow> int \<Rightarrow> zend_worklist_stack option" where
  "zend_worklist_stack_push s i =
     (if ws_len s < ws_capacity s
      then do { _ \<leftarrow> nth_int (ws_buf s) (ws_len s);
                Some (s\<lparr>ws_buf := (ws_buf s)[nat (ws_len s) := i], ws_len := ws_len s + 1\<rparr>) }
      else None)"

definition zend_worklist_stack_peek :: "zend_worklist_stack \<Rightarrow> int option" where
  "zend_worklist_stack_peek s = (if ws_len s \<noteq> 0 then nth_int (ws_buf s) (ws_len s - 1) else None)"

definition zend_worklist_stack_pop :: "zend_worklist_stack \<Rightarrow> (int \<times> zend_worklist_stack) option" where
  "zend_worklist_stack_pop s =
     (if ws_len s \<noteq> 0
      then do { i \<leftarrow> nth_int (ws_buf s) (ws_len s - 1); Some (i, s\<lparr>ws_len := ws_len s - 1\<rparr>) }
      else None)"

subsection \<open>The work list\<close>

record zend_worklist =
  wl_visited :: zend_bitset
  wl_stack :: zend_worklist_stack

definition zend_worklist_prepare :: "int \<Rightarrow> zend_worklist option" where
  "zend_worklist_prepare n =
     do { s \<leftarrow> zend_worklist_stack_prepare n;
          Some \<lparr>wl_visited = replicate (unat (zend_bitset_len (word_of_int n))) 0, wl_stack = s\<rparr> }"

definition zend_worklist_len :: "zend_worklist \<Rightarrow> int" where
  "zend_worklist_len w = ws_len (wl_stack w)"

definition zend_worklist_push :: "zend_worklist \<Rightarrow> int \<Rightarrow> (int \<times> zend_worklist) option" where
  "zend_worklist_push w i =
     (if 0 \<le> i \<and> i < ws_capacity (wl_stack w)
      then do { seen \<leftarrow> zend_bitset_in (wl_visited w) (word_of_int i);
                if seen then Some (0, w)
                else do { v \<leftarrow> zend_bitset_incl (wl_visited w) (word_of_int i);
                          s \<leftarrow> zend_worklist_stack_push (wl_stack w) i;
                          Some (1, w\<lparr>wl_visited := v, wl_stack := s\<rparr>) } }
      else None)"

definition zend_worklist_peek :: "zend_worklist \<Rightarrow> int option" where
  "zend_worklist_peek w = zend_worklist_stack_peek (wl_stack w)"

definition zend_worklist_pop :: "zend_worklist \<Rightarrow> (int \<times> zend_worklist) option" where
  "zend_worklist_pop w =
     do { (i, s) \<leftarrow> zend_worklist_stack_pop (wl_stack w); Some (i, w\<lparr>wl_stack := s\<rparr>) }"

subsection \<open>The interface of the visited set\<close>

text \<open>What the work list relies on: asking for a number below \<open>room\<close> says whether it was added,
  and adding it adds just that number.\<close>

locale visited_set =
  fixes elems :: "'s \<Rightarrow> nat set" and room :: "'s \<Rightarrow> nat"
    and contains :: "'s \<Rightarrow> u32 \<Rightarrow> bool option" and add :: "'s \<Rightarrow> u32 \<Rightarrow> 's option"
  assumes contains_elems: "unat n < room s \<Longrightarrow> contains s n = Some (unat n \<in> elems s)"
    and add_elems: "unat n < room s \<Longrightarrow>
      \<exists>s'. add s n = Some s' \<and> elems s' = insert (unat n) (elems s) \<and> room s' = room s"
begin

text \<open>The client's test and set: the result tells new numbers from old ones.\<close>

lemma test_and_set:
  assumes "0 \<le> i" "i < int (room s)" "room s \<le> 2 ^ 32"
  shows "\<exists>s'. do { seen \<leftarrow> contains s (word_of_int i);
                  if seen then Some (False, s)
                  else do { s' \<leftarrow> add s (word_of_int i); Some (True, s') } } =
      Some (nat i \<notin> elems s, s') \<and> elems s' = insert (nat i) (elems s) \<and> room s' = room s"
proof -
  have "unat (word_of_int i :: u32) = nat i"
    using assms by (simp add: unsigned_of_int take_bit_int_eq_self)
  then have i: "unat (word_of_int i :: u32) < room s" "unat (word_of_int i :: u32) = nat i"
    using assms by simp_all
  obtain s' where "add s (word_of_int i) = Some s'" "elems s' = insert (nat i) (elems s)"
    "room s' = room s"
    using add_elems [OF i(1)] i(2) by auto
  then show ?thesis using contains_elems [OF i(1)] i(2) by (cases "nat i \<in> elems s") auto
qed

end

interpretation bits: visited_set members "\<lambda>bs. 64 * length bs" zend_bitset_in zend_bitset_incl
proof
  fix n :: u32 and bs :: zend_bitset
  assume "unat n < 64 * length bs"
  then have n: "unat n div 64 < length bs" by (simp add: div_less_iff_less_mult mult.commute)
  show "zend_bitset_in bs n = Some (unat n \<in> members bs)" by (rule bitset_in_members [OF n])
  show "\<exists>bs'. zend_bitset_incl bs n = Some bs' \<and> members bs' = insert (unat n) (members bs) \<and>
      64 * length bs' = 64 * length bs"
    using bitset_incl_members [OF n] by (metis (no_types))
qed

subsection \<open>Each number once\<close>

datatype wl_op = WPush int | WPop

text \<open>The client's loop: it pushes numbers, and while the list is not empty it pops them. The
  popped numbers are collected.\<close>

fun run_worklist :: "wl_op list \<Rightarrow> int list \<times> zend_worklist \<Rightarrow> (int list \<times> zend_worklist) option" where
  "run_worklist [] s = Some s"
| "run_worklist (WPush i # ops) (popped, w) =
     do { (_, w) \<leftarrow> zend_worklist_push w i; run_worklist ops (popped, w) }"
| "run_worklist (WPop # ops) (popped, w) =
     (if zend_worklist_len w = 0 then run_worklist ops (popped, w)
      else do { (i, w) \<leftarrow> zend_worklist_pop w; run_worklist ops (popped @ [i], w) })"

definition on_stack :: "zend_worklist \<Rightarrow> int list" where
  "on_stack w = take (nat (ws_len (wl_stack w))) (ws_buf (wl_stack w))"

definition wl_inv :: "nat \<Rightarrow> int list \<Rightarrow> zend_worklist \<Rightarrow> bool" where
  "wl_inv n popped w \<longleftrightarrow>
     length (ws_buf (wl_stack w)) = n \<and> ws_capacity (wl_stack w) = int n \<and>
     0 \<le> ws_len (wl_stack w) \<and> ws_len (wl_stack w) \<le> int n \<and>
     n \<le> 64 * length (wl_visited w) \<and> 64 * length (wl_visited w) \<le> 2 ^ 32 \<and>
     distinct (popped @ on_stack w) \<and> set (popped @ on_stack w) = int ` members (wl_visited w) \<and>
     members (wl_visited w) \<subseteq> {..<n}"

lemma wl_room:
  assumes "wl_inv n popped w" "i < n" "i \<notin> members (wl_visited w)"
  shows "ws_len (wl_stack w) < int n"
proof -
  have "card (members (wl_visited w)) \<le> card ({..<n} - {i})"
    using assms by (intro card_mono) (auto simp: wl_inv_def)
  then have "card (members (wl_visited w)) < n" using assms(2) by simp
  moreover have "length (popped @ on_stack w) = card (members (wl_visited w))"
  proof -
    have "length (popped @ on_stack w) = card (set (popped @ on_stack w))"
      using assms(1) by (metis distinct_card wl_inv_def)
    also have "\<dots> = card (members (wl_visited w))"
      using assms(1) by (simp only: wl_inv_def) (simp add: card_image)
    finally show ?thesis .
  qed
  moreover have "length (on_stack w) = nat (ws_len (wl_stack w))"
  proof -
    have "length (ws_buf (wl_stack w)) = n" "nat (ws_len (wl_stack w)) \<le> n"
      using assms(1) by (simp_all add: wl_inv_def nat_le_iff)
    then show ?thesis by (simp add: on_stack_def min_absorb2)
  qed
  ultimately show ?thesis by (simp add: zless_nat_eq_int_zless flip: nat_less_iff)
qed

lemma wl_push:
  assumes inv: "wl_inv n popped w" and i: "0 \<le> i" "i < int n"
  obtains w' where "zend_worklist_push w i = Some (if nat i \<in> members (wl_visited w) then 0 else 1, w')"
    "wl_inv n popped w'" "members (wl_visited w') = insert (nat i) (members (wl_visited w))"
proof -
  let ?v = "wl_visited w" and ?s = "wl_stack w"
  have room: "i < int (64 * length ?v)" "64 * length ?v \<le> 2 ^ 32"
    using inv i by (simp_all add: wl_inv_def)
  obtain v' where v': "do { seen \<leftarrow> zend_bitset_in ?v (word_of_int i);
                  if seen then Some (False, ?v)
                  else do { s' \<leftarrow> zend_bitset_incl ?v (word_of_int i); Some (True, s') } } =
      Some (nat i \<notin> members ?v, v')" "members v' = insert (nat i) (members ?v)"
      "64 * length v' = 64 * length ?v"
    using bits.test_and_set [OF i(1) room] by blast
  have cap: "ws_capacity ?s = int n" using inv by (simp add: wl_inv_def)
  show thesis
  proof (cases "nat i \<in> members ?v")
    case True
    then have "zend_bitset_in ?v (word_of_int i) = Some True"
      using v'(1) by (cases "zend_bitset_in ?v (word_of_int i)") (auto simp: bind_eq_Some_conv split: if_splits)
    then have "zend_worklist_push w i = Some (0, w)"
      using i cap by (simp add: zend_worklist_push_def)
    then show thesis using that [of w] True inv by (simp add: insert_absorb)
  next
    case False
    then have bv: "zend_bitset_in ?v (word_of_int i) = Some False" "zend_bitset_incl ?v (word_of_int i) = Some v'"
      using v'(1) by (cases "zend_bitset_in ?v (word_of_int i)"; auto simp: bind_eq_Some_conv split: if_splits)+
    have len: "ws_len ?s < int n" "0 \<le> ws_len ?s" "length (ws_buf ?s) = n"
      using wl_room [OF inv _ False] i inv by (simp_all add: wl_inv_def)
    define w' where "w' = w\<lparr>wl_visited := v',
      wl_stack := ?s\<lparr>ws_buf := (ws_buf ?s)[nat (ws_len ?s) := i], ws_len := ws_len ?s + 1\<rparr>\<rparr>"
    have "zend_worklist_push w i = Some (1, w')"
      using i cap bv len
      by (simp add: zend_worklist_push_def zend_worklist_stack_push_def nth_int_def nth_opt_def w'_def
          nat_less_iff)
    moreover have on: "on_stack w' = on_stack w @ [i]"
      using len by (simp add: on_stack_def w'_def nat_add_distrib take_Suc_conv_app_nth nat_less_iff)
    moreover have "wl_inv n popped w'"
    proof -
      have set: "set (popped @ on_stack w) = int ` members ?v" "distinct (popped @ on_stack w)"
        using inv by (simp_all only: wl_inv_def)
      have "i \<notin> set (popped @ on_stack w)" unfolding set using False i by auto
      then have "distinct (popped @ on_stack w')" using set(2) by (simp add: on)
      moreover have "set (popped @ on_stack w') = int ` members v'"
        using set(1) i by (auto simp: on v'(2))
      moreover have "members v' \<subseteq> {..<n}" using inv i by (auto simp: v'(2) wl_inv_def nat_less_iff)
      ultimately show ?thesis
        using inv len v'(3) by (simp add: wl_inv_def w'_def del: set_append distinct_append)
    qed
    ultimately show thesis using that [of w'] False v'(2) by (simp add: w'_def)
  qed
qed

lemma wl_pop:
  assumes inv: "wl_inv n popped w" and "zend_worklist_len w \<noteq> 0"
  obtains i w' where "zend_worklist_pop w = Some (i, w')" "wl_inv n (popped @ [i]) w'"
    "wl_visited w' = wl_visited w" "on_stack w = on_stack w' @ [i]"
proof -
  let ?s = "wl_stack w"
  have len: "0 < ws_len ?s" "ws_len ?s \<le> int n" "length (ws_buf ?s) = n"
    using assms by (simp_all add: wl_inv_def zend_worklist_len_def)
  define k where "k = nat (ws_len ?s - 1)"
  have k: "k < n" "nat (ws_len ?s) = Suc k" "ws_len ?s - 1 = int k" using len by (simp_all add: k_def)
  define w' where "w' = w\<lparr>wl_stack := ?s\<lparr>ws_len := ws_len ?s - 1\<rparr>\<rparr>"
  have on: "on_stack w = on_stack w' @ [ws_buf ?s ! k]"
    using k len by (simp add: on_stack_def w'_def take_Suc_conv_app_nth)
  have pop: "zend_worklist_pop w = Some (ws_buf ?s ! k, w')"
    using k len by (simp add: zend_worklist_pop_def zend_worklist_stack_pop_def nth_int_def nth_opt_def w'_def)
  have "distinct (popped @ on_stack w)" "set (popped @ on_stack w) = int ` members (wl_visited w)"
    using inv by (simp_all only: wl_inv_def)
  then have "distinct ((popped @ [ws_buf ?s ! k]) @ on_stack w')"
    "set ((popped @ [ws_buf ?s ! k]) @ on_stack w') = int ` members (wl_visited w')"
    by (auto simp: on w'_def)
  then have "wl_inv n (popped @ [ws_buf ?s ! k]) w'"
    using inv len by (simp add: wl_inv_def w'_def del: set_append distinct_append)
  then show thesis using that pop on by (simp add: w'_def)
qed

lemma wl_prepare:
  assumes "n < 2 ^ 31"
  obtains w where "zend_worklist_prepare (int n) = Some w" "wl_inv n [] w" "members (wl_visited w) = {}"
proof -
  let ?v = "replicate (unat (zend_bitset_len (word_of_nat n))) (0 :: u64)"
  let ?w = "\<lparr>wl_visited = ?v, wl_stack = \<lparr>ws_buf = replicate n 0, ws_len = 0, ws_capacity = int n\<rparr>\<rparr>"
  have un: "unat (word_of_nat n :: u32) = n"
    using assms by (simp add: unsigned_of_nat take_bit_nat_eq_self)
  have "(n + 63) div 64 < 2 ^ 32" using assms by simp
  then have bl: "unat (zend_bitset_len (word_of_nat n)) = (n + 63) div 64"
    unfolding zend_bitset_len_def un by (simp add: unsigned_of_nat take_bit_nat_eq_self)
  have mem: "members (replicate k 0) = {}" for k by (auto simp: members_def)
  have "n \<le> 64 * ((n + 63) div 64)" "64 * ((n + 63) div 64) \<le> 2 ^ 32"
    using assms by simp_all
  then have "wl_inv n [] ?w" by (simp add: wl_inv_def on_stack_def mem bl)
  moreover have "zend_worklist_prepare (int n) = Some ?w"
    by (simp add: zend_worklist_prepare_def zend_worklist_stack_prepare_def)
  ultimately show thesis using that [of ?w] mem by simp
qed

fun pushed :: "wl_op list \<Rightarrow> int list" where
  "pushed [] = []"
| "pushed (WPush i # ops) = i # pushed ops"
| "pushed (WPop # ops) = pushed ops"

lemma run_worklist_inv:
  "wl_inv n popped w \<Longrightarrow> \<forall>i\<in>set (pushed ops). 0 \<le> i \<and> i < int n \<Longrightarrow>
   \<exists>out w'. run_worklist ops (popped, w) = Some (out, w') \<and> wl_inv n out w' \<and>
     members (wl_visited w') = members (wl_visited w) \<union> nat ` set (pushed ops)"
proof (induction ops arbitrary: popped w)
  case Nil
  then show ?case by simp
next
  case (Cons op ops)
  show ?case
  proof (cases op)
    case (WPush i)
    then have i: "0 \<le> i" "i < int n" using Cons.prems by simp_all
    obtain w' where "zend_worklist_push w i = Some (if nat i \<in> members (wl_visited w) then 0 else 1, w')"
      "wl_inv n popped w'" "members (wl_visited w') = insert (nat i) (members (wl_visited w))"
      by (rule wl_push [OF Cons.prems(1) i])
    then show ?thesis using Cons.IH [of popped w'] Cons.prems(2) WPush by auto
  next
    case WPop
    show ?thesis
    proof (cases "zend_worklist_len w = 0")
      case True
      then show ?thesis using Cons.IH [OF Cons.prems(1)] Cons.prems(2) WPop by simp
    next
      case False
      obtain i w' where w': "zend_worklist_pop w = Some (i, w')" "wl_inv n (popped @ [i]) w'"
        "wl_visited w' = wl_visited w"
        by (rule wl_pop [OF Cons.prems(1) False])
      then show ?thesis using Cons.IH [OF w'(2)] Cons.prems(2) WPop False by simp
    qed
  qed
qed

text \<open>C27: the work list delivers every number once. Starting from a prepared list, any sequence
  of pushes of numbers below the capacity and of pops of a non-empty list runs without a violated
  assertion or an overrun stack, however many pushes there are; and the numbers popped so far
  together with those on the stack are exactly the numbers pushed, each of them once.\<close>

theorem worklist_delivers_once:
  assumes "n < 2 ^ 31" and "\<forall>i\<in>set (pushed ops). 0 \<le> i \<and> i < int n"
  shows "\<exists>w out w'. zend_worklist_prepare (int n) = Some w \<and> run_worklist ops ([], w) = Some (out, w') \<and>
    distinct (out @ on_stack w') \<and> set (out @ on_stack w') = set (pushed ops)"
proof -
  obtain w where w: "zend_worklist_prepare (int n) = Some w" "wl_inv n [] w" "members (wl_visited w) = {}"
    by (rule wl_prepare [OF assms(1)])
  obtain out w' where r: "run_worklist ops ([], w) = Some (out, w')" "wl_inv n out w'"
      "members (wl_visited w') = nat ` set (pushed ops)"
    using run_worklist_inv [OF w(2) assms(2)] w(3) by auto
  have "int ` nat ` set (pushed ops) = set (pushed ops)"
    using assms(2) by (force simp: image_image)
  then have "distinct (out @ on_stack w')" "set (out @ on_stack w') = set (pushed ops)"
    using r(2,3) by (simp_all only: wl_inv_def)
  then show ?thesis using w(1) r(1) by blast
qed

theorem worklist_delivers_once_witness:
  "\<exists>w out w'. zend_worklist_prepare 3 = Some w \<and>
    run_worklist [WPush 2, WPush 0, WPush 2, WPop, WPush 0, WPop, WPop] ([], w) = Some (out, w') \<and>
    distinct (out @ on_stack w') \<and> set (out @ on_stack w') = {0, 2}"
  using worklist_delivers_once [of 3 "[WPush 2, WPush 0, WPush 2, WPop, WPush 0, WPop, WPop]"]
  by (simp add: insert_commute)

end
