(* ===== verification/Zend_Arena.thy ===== *)
theory Zend_Arena
  imports C_Prelude
begin

text \<open>
  The arenas of \<open>Zend/zend_arena.h\<close>, from which the graph builder and the list of executed lines
  get their memory. Addresses are natural numbers; \<open>size_t\<close> arithmetic is written out modulo
  \<open>2 ^ 64\<close>. The address that \<open>emalloc\<close> returns is an argument of the operations that call it.
\<close>

subsection \<open>Operations\<close>

record zend_arena =
  ar_base :: nat
  ar_ptr :: nat
  ar_end :: nat

definition ZEND_MM_ALIGNED_SIZE :: "nat \<Rightarrow> nat" where
  "ZEND_MM_ALIGNED_SIZE sz = ((sz + 7) mod 2 ^ 64) div 8 * 8"

text \<open>\<open>ZEND_MM_ALIGNED_SIZE(sizeof(zend_arena))\<close>\<close>

definition arena_header :: nat where
  "arena_header = 24"

text \<open>A difference of pointers, cast to \<open>size_t\<close>.\<close>

definition ptr_diff :: "nat \<Rightarrow> nat \<Rightarrow> nat" where
  "ptr_diff p q = nat ((int p - int q) mod 2 ^ 64)"

text \<open>A chain of arenas is a list, the current one first.\<close>

definition zend_arena_create :: "nat \<Rightarrow> nat \<Rightarrow> zend_arena list" where
  "zend_arena_create a sz = [\<lparr>ar_base = a, ar_ptr = a + arena_header, ar_end = a + sz\<rparr>]"

definition zend_arena_destroy :: "zend_arena list \<Rightarrow> zend_arena list" where
  "zend_arena_destroy arenas = []"

text \<open>The size of the block for which \<open>zend_arena_alloc\<close> asks when the current one is too full.\<close>

definition new_arena_size :: "nat \<Rightarrow> zend_arena \<Rightarrow> nat" where
  "new_arena_size sz ar =
     (if ptr_diff (ar_end ar) (ar_base ar) < (sz + arena_header) mod 2 ^ 64
      then (sz + arena_header) mod 2 ^ 64 else ptr_diff (ar_end ar) (ar_base ar))"

fun zend_arena_alloc :: "nat \<Rightarrow> nat \<Rightarrow> zend_arena list \<Rightarrow> (nat \<times> zend_arena list) option" where
  "zend_arena_alloc a sz [] = None"
| "zend_arena_alloc a sz (ar # arenas) =
     (let ptr = ar_ptr ar; sz = ZEND_MM_ALIGNED_SIZE sz
      in if sz \<le> ptr_diff (ar_end ar) ptr
         then Some (ptr, ar\<lparr>ar_ptr := ptr + sz\<rparr> # arenas)
         else (let arena_size = new_arena_size sz ar; ptr = a + arena_header
               in Some (ptr, \<lparr>ar_base = a, ar_ptr = a + arena_header + sz, ar_end = a + arena_size\<rparr> #
                             ar # arenas)))"

text \<open>An overflow of the product is a fatal error, \<open>None\<close>. The memory is zeroed.\<close>

definition zend_arena_calloc :: "nat \<Rightarrow> nat \<Rightarrow> nat \<Rightarrow> zend_arena list \<Rightarrow>
    (nat \<times> bytes \<times> zend_arena list) option" where
  "zend_arena_calloc a count unit_size arenas =
     (if 2 ^ 64 \<le> count * unit_size then None
      else map_option (\<lambda>(p, arenas). (p, replicate (count * unit_size) 0, arenas))
             (zend_arena_alloc a (count * unit_size) arenas))"

definition zend_arena_checkpoint :: "zend_arena list \<Rightarrow> nat option" where
  "zend_arena_checkpoint arenas = (case arenas of [] \<Rightarrow> None | ar # _ \<Rightarrow> Some (ar_ptr ar))"

text \<open>Going back to a checkpoint frees the blocks that it does not point into; running out of
  blocks is \<open>None\<close>.\<close>

fun zend_arena_release :: "nat \<Rightarrow> zend_arena list \<Rightarrow> zend_arena list option" where
  "zend_arena_release checkpoint [] = None"
| "zend_arena_release checkpoint (ar # arenas) =
     (if ar_end ar < checkpoint \<or> checkpoint \<le> ar_base ar
      then zend_arena_release checkpoint arenas
      else Some (ar\<lparr>ar_ptr := checkpoint\<rparr> # arenas))"

fun zend_arena_contains :: "zend_arena list \<Rightarrow> nat \<Rightarrow> bool" where
  "zend_arena_contains [] p = False"
| "zend_arena_contains (ar # arenas) p =
     (if ar_base ar < p \<and> p \<le> ar_ptr ar then True else zend_arena_contains arenas p)"

text \<open>The sum that \<open>php_pcov_memory\<close> of \<open>pcov-patched/pcov.c\<close> returns.\<close>

fun php_pcov_memory :: "zend_arena list \<Rightarrow> int" where
  "php_pcov_memory [] = 0"
| "php_pcov_memory (ar # arenas) = int (ar_end ar) - int (ar_ptr ar) + php_pcov_memory arenas"

subsection \<open>Well-formed chains\<close>

definition arena_ok :: "zend_arena \<Rightarrow> bool" where
  "arena_ok ar \<longleftrightarrow> ar_base ar mod 8 = 0 \<and> ar_ptr ar mod 8 = 0 \<and>
     ar_base ar + arena_header \<le> ar_ptr ar \<and> ar_ptr ar \<le> ar_end ar \<and> ar_end ar \<le> 2 ^ 63"

text \<open>The blocks do not overlap.\<close>

definition blocks_apart :: "zend_arena \<Rightarrow> zend_arena \<Rightarrow> bool" where
  "blocks_apart x y \<longleftrightarrow> ar_end x \<le> ar_base y \<or> ar_end y \<le> ar_base x"

fun arenas_ok :: "zend_arena list \<Rightarrow> bool" where
  "arenas_ok [] = True"
| "arenas_ok (ar # arenas) = (arena_ok ar \<and> (\<forall>x\<in>set arenas. blocks_apart ar x) \<and> arenas_ok arenas)"

text \<open>The law of \<open>emalloc\<close>: a block of the size that is asked for is aligned, lies in user memory
  and overlaps no block in use.\<close>

definition fresh_block :: "nat \<Rightarrow> nat \<Rightarrow> zend_arena list \<Rightarrow> bool" where
  "fresh_block a sz arenas \<longleftrightarrow> a mod 8 = 0 \<and> a + sz \<le> 2 ^ 63 \<and>
     (\<forall>x\<in>set arenas. ar_end x \<le> a \<or> a + sz \<le> ar_base x)"

text \<open>The regions handed out: each lies in the used part of a block, and they are apart.\<close>

definition region_in :: "nat \<times> nat \<Rightarrow> zend_arena \<Rightarrow> bool" where
  "region_in r ar \<longleftrightarrow> ar_base ar + arena_header \<le> fst r \<and> fst r + snd r \<le> ar_ptr ar"

definition regions_apart :: "nat \<times> nat \<Rightarrow> nat \<times> nat \<Rightarrow> bool" where
  "regions_apart r q \<longleftrightarrow> fst r + snd r \<le> fst q \<or> fst q + snd q \<le> fst r"

definition regions_ok :: "zend_arena list \<Rightarrow> (nat \<times> nat) list \<Rightarrow> bool" where
  "regions_ok arenas rs \<longleftrightarrow> arenas_ok arenas \<and>
     (\<forall>r\<in>set rs. fst r mod 8 = 0 \<and> (\<exists>ar\<in>set arenas. region_in r ar)) \<and>
     sorted_wrt regions_apart rs"

lemma arenas_okD: "arenas_ok arenas \<Longrightarrow> x \<in> set arenas \<Longrightarrow> arena_ok x"
  by (induction arenas) auto

lemma ptr_diff_eq: "q \<le> p \<Longrightarrow> p \<le> 2 ^ 63 \<Longrightarrow> ptr_diff p q = p - q"
  by (simp add: ptr_diff_def nat_mod_distrib flip: of_nat_diff)

lemma aligned_size:
  assumes "sz \<le> 2 ^ 63"
  shows "ZEND_MM_ALIGNED_SIZE sz mod 8 = 0" "sz \<le> ZEND_MM_ALIGNED_SIZE sz"
    "ZEND_MM_ALIGNED_SIZE sz \<le> sz + 7"
  using assms by (simp_all add: ZEND_MM_ALIGNED_SIZE_def)

subsection \<open>Allocation\<close>

text \<open>The block that an allocation asks for when it does not fit.\<close>

lemma new_arena_size_ge:
  assumes "arena_ok ar" "sz \<le> 2 ^ 63"
  shows "sz + arena_header \<le> new_arena_size sz ar"
  using assms by (simp add: new_arena_size_def arena_header_def arena_ok_def)

definition alloc_law :: "nat \<Rightarrow> nat \<Rightarrow> zend_arena list \<Rightarrow> bool" where
  "alloc_law a sz arenas \<longleftrightarrow> sz \<le> 2 ^ 62 \<and>
     (case arenas of [] \<Rightarrow> False
      | ar # _ \<Rightarrow> fresh_block a (new_arena_size (ZEND_MM_ALIGNED_SIZE sz) ar) arenas)"

lemma alloc_cases:
  assumes ok: "arenas_ok (ar # arenas)" and law: "alloc_law a sz (ar # arenas)"
  defines "asz \<equiv> ZEND_MM_ALIGNED_SIZE sz"
  obtains (fits) "ar_ptr ar + asz \<le> ar_end ar" "(ar_ptr ar + asz) mod 8 = 0"
      "zend_arena_alloc a sz (ar # arenas) = Some (ar_ptr ar, ar\<lparr>ar_ptr := ar_ptr ar + asz\<rparr> # arenas)"
    | (grows) n where "asz + arena_header \<le> n" "fresh_block a n (ar # arenas)"
      "(a + arena_header + asz) mod 8 = 0"
      "zend_arena_alloc a sz (ar # arenas) = Some (a + arena_header,
         \<lparr>ar_base = a, ar_ptr = a + arena_header + asz, ar_end = a + n\<rparr> # ar # arenas)"
proof -
  have sz: "sz \<le> 2 ^ 62" using law by (simp add: alloc_law_def)
  then have al: "asz mod 8 = 0" "asz \<le> sz + 7" using aligned_size [of sz] by (simp_all add: asz_def)
  have ar: "arena_ok ar" using ok by simp
  then have room: "ptr_diff (ar_end ar) (ar_ptr ar) = ar_end ar - ar_ptr ar"
    by (intro ptr_diff_eq) (simp_all add: arena_ok_def)
  show thesis
  proof (cases "asz \<le> ar_end ar - ar_ptr ar")
    case True
    show thesis
    proof (rule fits)
      show "ar_ptr ar + asz \<le> ar_end ar" using True ar unfolding arena_ok_def by linarith
      show "(ar_ptr ar + asz) mod 8 = 0" using ar al(1) by (simp add: arena_ok_def mod_add_eq [symmetric])
      show "zend_arena_alloc a sz (ar # arenas) = Some (ar_ptr ar, ar\<lparr>ar_ptr := ar_ptr ar + asz\<rparr> # arenas)"
        using True room by (simp add: asz_def Let_def)
    qed
  next
    case False
    have fresh: "fresh_block a (new_arena_size asz ar) (ar # arenas)"
      using law by (simp add: alloc_law_def asz_def)
    show thesis
    proof (rule grows)
      show "asz + arena_header \<le> new_arena_size asz ar"
        using al(2) sz by (intro new_arena_size_ge [OF ar]) simp
      show "fresh_block a (new_arena_size asz ar) (ar # arenas)" by (rule fresh)
      have "a mod 8 = 0" using fresh by (simp add: fresh_block_def)
      then show "(a + arena_header + asz) mod 8 = 0"
        using al(1) by (simp add: arena_header_def mod_add_eq [symmetric])
      show "zend_arena_alloc a sz (ar # arenas) = Some (a + arena_header,
         \<lparr>ar_base = a, ar_ptr = a + arena_header + asz, ar_end = a + new_arena_size asz ar\<rparr> # ar # arenas)"
        using False room by (simp add: asz_def Let_def)
    qed
  qed
qed

lemma region_apart_of_blocks:
  assumes "region_in r x" "region_in q y" "blocks_apart x y" "ar_ptr x \<le> ar_end x" "ar_ptr y \<le> ar_end y"
  shows "regions_apart r q"
  using assms by (auto simp: region_in_def blocks_apart_def regions_apart_def)

lemma regions_okD:
  assumes "regions_ok arenas rs"
  shows "arenas_ok arenas" "sorted_wrt regions_apart rs"
    "r \<in> set rs \<Longrightarrow> fst r mod 8 = 0"
    "r \<in> set rs \<Longrightarrow> \<exists>x\<in>set arenas. region_in r x \<and> ar_ptr x \<le> ar_end x"
  using assms by (auto simp: regions_ok_def dest: arenas_okD) (meson arena_ok_def arenas_okD)

text \<open>A chain stays well-formed with one region more when every old region is still in a block
  and apart from the new one.\<close>

lemma regions_ok_Cons:
  assumes "regions_ok arenas rs" "arenas_ok arenas'" "x \<in> set arenas'" "region_in (p, n) x" "p mod 8 = 0"
    "\<And>r x. r \<in> set rs \<Longrightarrow> x \<in> set arenas \<Longrightarrow> region_in r x \<Longrightarrow> ar_ptr x \<le> ar_end x \<Longrightarrow>
       regions_apart (p, n) r \<and> (\<exists>x\<in>set arenas'. region_in r x)"
  shows "regions_ok arenas' ((p, n) # rs)"
proof -
  have "regions_apart (p, n) r \<and> (\<exists>x\<in>set arenas'. region_in r x)" if "r \<in> set rs" for r
    using regions_okD(4) [OF assms(1) that] assms(6) [OF that] by blast
  then show ?thesis
    using regions_okD(2,3) [OF assms(1)] assms(2-5) unfolding regions_ok_def by auto
qed

lemma regions_ok_fits:
  assumes regs: "regions_ok (ar # arenas) rs" and fits: "ar_ptr ar + n \<le> ar_end ar" "(ar_ptr ar + n) mod 8 = 0"
  shows "regions_ok (ar\<lparr>ar_ptr := ar_ptr ar + n\<rparr> # arenas) ((ar_ptr ar, n) # rs)"
proof (rule regions_ok_Cons [OF regs])
  let ?ar = "ar\<lparr>ar_ptr := ar_ptr ar + n\<rparr>"
  have ok: "arenas_ok (ar # arenas)" using regs by (rule regions_okD)
  have same: "blocks_apart ?ar x = blocks_apart ar x" for x by (simp add: blocks_apart_def)
  have "arena_ok ?ar" using ok fits by (simp add: arena_ok_def)
  then show "arenas_ok (?ar # arenas)" using ok by (simp add: same)
  show "?ar \<in> set (?ar # arenas)" by simp
  show new: "region_in (ar_ptr ar, n) ?ar" using ok by (simp add: region_in_def arena_ok_def)
  show "ar_ptr ar mod 8 = 0" using ok by (simp add: arena_ok_def)
  fix r x assume "r \<in> set rs" and x: "x \<in> set (ar # arenas)" "region_in r x" "ar_ptr x \<le> ar_end x"
  show "regions_apart (ar_ptr ar, n) r \<and> (\<exists>x\<in>set (?ar # arenas). region_in r x)"
  proof (cases "x = ar")
    case True
    then show ?thesis using x(2) by (simp add: region_in_def regions_apart_def)
  next
    case False
    then have "blocks_apart ?ar x" using ok x(1) by (simp add: same)
    then show ?thesis using region_apart_of_blocks [OF new x(2)] x(1,2,3) fits(1) False by auto
  qed
qed

lemma regions_ok_grows:
  assumes regs: "regions_ok arenas rs" and fresh: "fresh_block a m arenas"
    and fits: "n + arena_header \<le> m" "(a + arena_header + n) mod 8 = 0"
  shows "regions_ok (\<lparr>ar_base = a, ar_ptr = a + arena_header + n, ar_end = a + m\<rparr> # arenas)
    ((a + arena_header, n) # rs)"
proof (rule regions_ok_Cons [OF regs])
  let ?new = "\<lparr>ar_base = a, ar_ptr = a + arena_header + n, ar_end = a + m\<rparr>"
  have fr: "a mod 8 = 0" "a + m \<le> 2 ^ 63" "\<forall>x\<in>set arenas. blocks_apart ?new x"
    using fresh by (auto simp: fresh_block_def blocks_apart_def)
  have "arena_ok ?new" using fr(1,2) fits by (simp add: arena_ok_def)
  then show "arenas_ok (?new # arenas)" using regions_okD(1) [OF regs] fr(3) by simp
  show "?new \<in> set (?new # arenas)" by simp
  show new: "region_in (a + arena_header, n) ?new" by (simp add: region_in_def)
  show "(a + arena_header) mod 8 = 0" using fr(1) unfolding arena_header_def by presburger
  fix r x assume "r \<in> set rs" and x: "x \<in> set arenas" "region_in r x" "ar_ptr x \<le> ar_end x"
  have "regions_apart (a + arena_header, n) r"
    using region_apart_of_blocks [OF new x(2) bspec [OF fr(3) x(1)] _ x(3)] fits(1) by simp
  then show "regions_apart (a + arena_header, n) r \<and> (\<exists>x\<in>set (?new # arenas). region_in r x)"
    using x(1,2) by auto
qed

text \<open>C28: memory from an arena is the caller's alone. An allocation from a well-formed chain of
  blocks succeeds; the region of the requested size is aligned to 8 bytes, lies inside a block
  behind its header, and overlaps neither the header of a block nor any region handed out before;
  and the chain stays well-formed. This rests on \<open>emalloc\<close> returning fresh aligned blocks.\<close>

theorem arena_alloc_regions:
  assumes "regions_ok arenas rs" and "alloc_law a sz arenas"
  shows "\<exists>p arenas'. zend_arena_alloc a sz arenas = Some (p, arenas') \<and> sz \<le> ZEND_MM_ALIGNED_SIZE sz \<and>
    regions_ok arenas' ((p, ZEND_MM_ALIGNED_SIZE sz) # rs)"
proof (cases arenas)
  case Nil
  then show ?thesis using assms(2) by (simp add: alloc_law_def)
next
  case (Cons ar arenas0)
  note regs = assms(1) [unfolded Cons] and law = assms(2) [unfolded Cons]
  have sz: "sz \<le> ZEND_MM_ALIGNED_SIZE sz" using law by (intro aligned_size) (simp add: alloc_law_def)
  show ?thesis
    by (rule alloc_cases [OF regions_okD(1) [OF regs] law])
      (use sz regions_ok_fits [OF regs] regions_ok_grows [OF regs] in \<open>auto simp: Cons simp del: zend_arena_alloc.simps\<close>)
qed

theorem arena_alloc_regions_witness:
  "\<exists>p arenas'. zend_arena_alloc 4096 20 (zend_arena_create 0 64) = Some (p, arenas') \<and>
    regions_ok arenas' [(p, 24)]"
proof -
  have "regions_ok (zend_arena_create 0 64) []" "alloc_law 4096 20 (zend_arena_create 0 64)"
    by (simp_all add: regions_ok_def zend_arena_create_def arena_ok_def arena_header_def alloc_law_def
        fresh_block_def new_arena_size_def ptr_diff_def ZEND_MM_ALIGNED_SIZE_def)
  from arena_alloc_regions [OF this] show ?thesis by (simp add: ZEND_MM_ALIGNED_SIZE_def)
qed

subsection \<open>Checkpoints\<close>

text \<open>A sequence of allocations, with the addresses that \<open>emalloc\<close> returns, and its law.\<close>

fun alloc_all :: "(nat \<times> nat) list \<Rightarrow> zend_arena list \<Rightarrow> zend_arena list option" where
  "alloc_all [] arenas = Some arenas"
| "alloc_all ((a, sz) # rs) arenas =
     (case zend_arena_alloc a sz arenas of None \<Rightarrow> None | Some (p, arenas) \<Rightarrow> alloc_all rs arenas)"

fun allocs_law :: "(nat \<times> nat) list \<Rightarrow> zend_arena list \<Rightarrow> bool" where
  "allocs_law [] arenas = True"
| "allocs_law ((a, sz) # rs) arenas =
     (alloc_law a sz arenas \<and>
      (case zend_arena_alloc a sz arenas of None \<Rightarrow> False | Some (p, arenas) \<Rightarrow> allocs_law rs arenas))"

text \<open>The chain has grown from \<open>ar # arenas\<close>: new blocks in front of it, and more used in \<open>ar\<close>.\<close>

definition grown_from :: "zend_arena \<Rightarrow> zend_arena list \<Rightarrow> zend_arena list \<Rightarrow> bool" where
  "grown_from ar arenas arenas' \<longleftrightarrow> arenas_ok arenas' \<and>
     (\<exists>new q. arenas' = new @ ar\<lparr>ar_ptr := q\<rparr> # arenas)"

lemma alloc_grows:
  assumes "grown_from ar arenas arenas1" "alloc_law a sz arenas1"
    "zend_arena_alloc a sz arenas1 = Some (p, arenas2)"
  shows "grown_from ar arenas arenas2"
proof -
  obtain new q where eq: "arenas1 = new @ ar\<lparr>ar_ptr := q\<rparr> # arenas" and ok: "arenas_ok arenas1"
    using assms(1) by (auto simp: grown_from_def)
  obtain x xs where xs: "arenas1 = x # xs" by (cases arenas1) (simp_all add: eq)
  have step: "arenas_ok arenas2 \<and> (arenas2 = x\<lparr>ar_ptr := ar_ptr x + ZEND_MM_ALIGNED_SIZE sz\<rparr> # xs \<or>
      (\<exists>y. arenas2 = y # arenas1))"
  proof (rule alloc_cases [of x xs a sz])
    show "arenas_ok (x # xs)" using ok by (simp add: xs)
    show "alloc_law a sz (x # xs)" using assms(2) by (simp add: xs)
  next
    assume "ar_ptr x + ZEND_MM_ALIGNED_SIZE sz \<le> ar_end x" "(ar_ptr x + ZEND_MM_ALIGNED_SIZE sz) mod 8 = 0"
      "zend_arena_alloc a sz (x # xs) = Some (ar_ptr x, x\<lparr>ar_ptr := ar_ptr x + ZEND_MM_ALIGNED_SIZE sz\<rparr> # xs)"
    then show ?thesis using assms(3) ok by (auto simp: xs arena_ok_def blocks_apart_def)
  next
    fix n
    assume "ZEND_MM_ALIGNED_SIZE sz + arena_header \<le> n" "fresh_block a n (x # xs)"
      "(a + arena_header + ZEND_MM_ALIGNED_SIZE sz) mod 8 = 0"
      "zend_arena_alloc a sz (x # xs) = Some (a + arena_header,
         \<lparr>ar_base = a, ar_ptr = a + arena_header + ZEND_MM_ALIGNED_SIZE sz, ar_end = a + n\<rparr> # x # xs)"
    then show ?thesis using assms(3) ok
      by (auto simp: xs arena_ok_def blocks_apart_def fresh_block_def)
  qed
  then show ?thesis
  proof (elim conjE disjE)
    assume "arenas_ok arenas2" "arenas2 = x\<lparr>ar_ptr := ar_ptr x + ZEND_MM_ALIGNED_SIZE sz\<rparr> # xs"
    then show ?thesis using eq xs by (cases new) (auto simp: grown_from_def)
  next
    assume "arenas_ok arenas2" "\<exists>y. arenas2 = y # arenas1"
    then show ?thesis using eq unfolding grown_from_def by (metis append_Cons)
  qed
qed

lemma alloc_all_grows:
  "grown_from ar arenas arenas1 \<Longrightarrow> allocs_law rs arenas1 \<Longrightarrow>
   \<exists>arenas2. alloc_all rs arenas1 = Some arenas2 \<and> grown_from ar arenas arenas2"
proof (induction rs arbitrary: arenas1)
  case (Cons r rs)
  obtain a sz where r: "r = (a, sz)" by (cases r)
  then obtain p arenas2 where al: "zend_arena_alloc a sz arenas1 = Some (p, arenas2)"
      "allocs_law rs arenas2" "alloc_law a sz arenas1"
    using Cons.prems(2) by (auto split: option.splits)
  show ?case using Cons.IH [OF alloc_grows [OF Cons.prems(1) al(3,1)] al(2)] by (simp add: r al(1))
qed simp

lemma release_new:
  assumes "arenas_ok (new @ ar\<lparr>ar_ptr := q\<rparr> # arenas)" "arena_ok ar"
  shows "zend_arena_release (ar_ptr ar) (new @ ar\<lparr>ar_ptr := q\<rparr> # arenas) = Some (ar # arenas)"
  using assms
proof (induction new)
  case Nil
  then show ?case by (simp add: arena_ok_def arena_header_def)
next
  case (Cons x new)
  have "blocks_apart x (ar\<lparr>ar_ptr := q\<rparr>)" using Cons.prems by simp
  then have "ar_end x < ar_ptr ar \<or> ar_ptr ar \<le> ar_base x"
    using Cons.prems(2) by (auto simp: blocks_apart_def arena_ok_def arena_header_def)
  then show ?case using Cons by simp
qed

text \<open>A checkpoint undoes allocations. Whatever is allocated after a checkpoint was taken,
  releasing the checkpoint brings the chain of blocks back to what it was then, and no block that
  was there is freed.\<close>

theorem arena_release_checkpoint:
  assumes "arenas_ok arenas" and "zend_arena_checkpoint arenas = Some cp" and "allocs_law rs arenas"
  shows "\<exists>arenas'. alloc_all rs arenas = Some arenas' \<and> zend_arena_release cp arenas' = Some arenas"
proof -
  obtain ar arenas0 where ar: "arenas = ar # arenas0" "cp = ar_ptr ar"
    using assms(2) by (auto simp: zend_arena_checkpoint_def split: list.splits)
  have "grown_from ar arenas0 arenas"
    unfolding grown_from_def ar(1) using assms(1) ar(1)
    by (metis append_Nil zend_arena.surjective zend_arena.update_convs(2))
  then obtain arenas' where "alloc_all rs arenas = Some arenas'" "grown_from ar arenas0 arenas'"
    using alloc_all_grows [OF _ assms(3)] by blast
  then show ?thesis using release_new assms(1) by (auto simp: ar grown_from_def)
qed

theorem arena_release_checkpoint_witness:
  "\<exists>arenas'. alloc_all [(4096, 16), (4096, 40)] (zend_arena_create 0 64) = Some arenas' \<and>
     zend_arena_release 24 arenas' = Some (zend_arena_create 0 64)"
  by (rule arena_release_checkpoint)
    (simp_all add: zend_arena_create_def zend_arena_checkpoint_def arena_ok_def arena_header_def alloc_law_def
        fresh_block_def new_arena_size_def ptr_diff_def ZEND_MM_ALIGNED_SIZE_def Let_def)

subsection \<open>The reported memory\<close>

text \<open>\<open>\pcov\memory\<close> counts what is free, not what is used: an allocation from the current block
  makes it smaller.\<close>

lemma php_pcov_memory_shrinks:
  "ar_ptr ar + ZEND_MM_ALIGNED_SIZE sz \<le> ar_end ar \<Longrightarrow> ar_end ar \<le> 2 ^ 63 \<Longrightarrow>
   \<exists>p arenas'. zend_arena_alloc a sz (ar # arenas) = Some (p, arenas') \<and>
     php_pcov_memory arenas' = php_pcov_memory (ar # arenas) - int (ZEND_MM_ALIGNED_SIZE sz)"
  using ptr_diff_eq [of "ar_ptr ar" "ar_end ar"] by (auto simp: Let_def)

end
