(* ===== verification/Pcov_State.thy ===== *)
theory Pcov_State
  imports Zend_Cfg Murmur3
begin

text \<open>
  The state of the coverage extension \<open>pcov-patched/pcov.c\<close>: its global variables, its module
  globals \<open>PCG\<close>, the frames of the engine that it looks at, and the parts of the C library
  that it uses on strings. Strings are lists of bytes. What the operating system answers is a
  parameter, the record \<open>os\<close>; what the extension writes is collected in \<open>outputs\<close>.
\<close>

subsection \<open>C strings\<close>

definition cs :: "string \<Rightarrow> bytes" where
  "cs s = map of_char s"

text \<open>The bytes of a C string: up to the first NUL.\<close>

definition c_str :: "bytes \<Rightarrow> bytes" where
  "c_str s = takeWhile (\<lambda>b. b \<noteq> 0) s"

fun strstr :: "bytes \<Rightarrow> bytes \<Rightarrow> bool" where
  "strstr [] n = (n = [])"
| "strstr (c # s) n = (take (length n) (c # s) = n \<or> strstr s n)"

definition strncmp_eq :: "bytes \<Rightarrow> bytes \<Rightarrow> nat \<Rightarrow> bool" where
  "strncmp_eq a b n = (take n (c_str a @ [0]) = take n (c_str b @ [0]))"

text \<open>\<open>isprint\<close> in the C locale.\<close>

definition isprint :: "u8 \<Rightarrow> bool" where
  "isprint c = (0x20 \<le> c \<and> c \<le> 0x7e)"

definition is_printable :: "bytes \<Rightarrow> nat \<Rightarrow> bool" where
  "is_printable s n = list_all isprint (take n s)"

fun decimal :: "nat \<Rightarrow> bytes" where
  "decimal n = (if n < 10 then [word_of_nat (48 + n)]
                else decimal (n div 10) @ [word_of_nat (48 + n mod 10)])"

declare decimal.simps [simp del]

text \<open>\<open>%d\<close>, and \<open>%0wd\<close> for a width \<open>w\<close>: the sign counts for the width.\<close>

definition fmt_d :: "int \<Rightarrow> bytes" where
  "fmt_d i = (if i < 0 then 45 # decimal (nat (- i)) else decimal (nat i))"

definition fmt_0d :: "nat \<Rightarrow> int \<Rightarrow> bytes" where
  "fmt_0d w i = (if i < 0 then (let ds = decimal (nat (- i)) in 45 # replicate (w - 1 - length ds) 48 @ ds)
                 else (let ds = decimal (nat i) in replicate (w - length ds) 48 @ ds))"

definition hex_digit :: "nat \<Rightarrow> u8" where
  "hex_digit n = (if n < 10 then word_of_nat (48 + n) else word_of_nat (87 + n))"

fun hexadecimal :: "nat \<Rightarrow> bytes" where
  "hexadecimal n = (if n < 16 then [hex_digit n] else hexadecimal (n div 16) @ [hex_digit (n mod 16)])"

declare hexadecimal.simps [simp del]

definition fmt_02x :: "u32 \<Rightarrow> bytes" where
  "fmt_02x w = (let ds = hexadecimal (unat w) in replicate (2 - length ds) 48 @ ds)"

text \<open>\<open>atoi\<close>: white space, a sign and digits; the value is that of the digits, truncated to
  32 bits as \<open>(int) strtol\<close> does it.\<close>

definition isspace :: "u8 \<Rightarrow> bool" where
  "isspace c = (c = 32 \<or> 9 \<le> c \<and> c \<le> 13)"

fun digits_value :: "int \<Rightarrow> bytes \<Rightarrow> int" where
  "digits_value acc [] = acc"
| "digits_value acc (c # s) =
     (if 48 \<le> c \<and> c \<le> 57 then digits_value (10 * acc + (uint c - 48)) s else acc)"

definition strtol_limit :: "int \<Rightarrow> int" where
  "strtol_limit i = max (- (2 ^ 63)) (min (2 ^ 63 - 1) i)"

definition atoi :: "bytes \<Rightarrow> int" where
  "atoi s = (case dropWhile isspace s of
      [] \<Rightarrow> 0
    | c # t \<Rightarrow>
        sint (word_of_int (strtol_limit
          (if c = 45 then - digits_value 0 t
           else if c = 43 then digits_value 0 t
           else digits_value 0 (c # t))) :: u32))"

subsection \<open>The operating system\<close>

text \<open>\<open>realpath\<close> and \<open>stat\<close> or \<open>access(_, F_OK)\<close> of a path, \<open>getenv\<close>, and the content of a
  file. An operation takes the answers that hold while it runs.\<close>

record os =
  os_realpath :: "bytes \<Rightarrow> bytes option"
  os_exists :: "bytes \<Rightarrow> bool"
  os_getenv :: "bytes \<Rightarrow> bytes option"
  os_read :: "bytes \<Rightarrow> bytes option"

text \<open>What leaves the extension: the dump hypercall with the name of the host file, its append
  flag and the data; a file appended to or created.\<close>

datatype host_output =
    Dump_File bytes bool bytes
  | Append_To bytes bytes
  | Create_File bytes

subsection \<open>Frames of the engine\<close>

record zend_func =
  fn_type :: u8
  fn_flags :: u32
  fn_filename :: bytes
  fn_line_end :: u32

text \<open>\<open>ZEND_USER_CODE(type)\<close> holds for the even types: user functions and eval'd code.\<close>

definition ZEND_USER_CODE :: "u8 \<Rightarrow> bool" where
  "ZEND_USER_CODE ty \<longleftrightarrow> ty AND 1 = 0"

abbreviation (input) ZEND_INTERNAL_FUNCTION :: u8 where "ZEND_INTERNAL_FUNCTION \<equiv> 1"
abbreviation (input) ZEND_USER_FUNCTION :: u8 where "ZEND_USER_FUNCTION \<equiv> 2"
abbreviation (input) ZEND_HANDLE_EXCEPTION :: u8 where "ZEND_HANDLE_EXCEPTION \<equiv> 149"
abbreviation (input) ZEND_ACC_CALL_VIA_TRAMPOLINE :: u32 where "ZEND_ACC_CALL_VIA_TRAMPOLINE \<equiv> 0x40000"
abbreviation (input) ZEND_ACC_ABSTRACT :: u32 where "ZEND_ACC_ABSTRACT \<equiv> 0x40"

text \<open>A frame \<open>zend_execute_data\<close>: its function, and the opcode and the line of its current
  instruction. A placeholder stands for a generator that is being iterated by \<open>yield from\<close>: it
  has no function, and the engine replaces it by the frames of the delegating generators,
  listed here from the innermost parent to the iterated one.\<close>

type_synonym call_frame = "zend_func option \<times> u8 \<times> u32"

datatype ex_frame = Frame call_frame | Gen_Placeholder call_frame "call_frame list"

text \<open>\<open>EG(current_execute_data)\<close> with the frames under it, and the line of
  \<open>EG(opline_before_exception)\<close> when it is set.\<close>

record engine =
  eg_stack :: "ex_frame list"
  eg_line_before_exception :: "u32 option"

subsection \<open>The extension\<close>

text \<open>A node of the list of executed lines. A pointer to a node is its index in the arena.\<close>

record php_coverage =
  cov_file :: bytes
  cov_line :: u32
  cov_next :: "nat option"

text \<open>A compiled file or function as far as the extension looks at it.\<close>

record php_function =
  pf_type :: u8
  pf_flags :: u32
  pf_filename :: "bytes option"
  pf_ops :: zend_op_array

type_synonym line_table = "u32 \<rightharpoonup> int"
type_synonym file_table = "bytes \<rightharpoonup> line_table"

text \<open>The globals. The two file name buffers hold C strings of at most \<open>PATH_MAX\<close> bytes.
  A callback pointer of the engine is either \<open>NULL\<close> or the function of this file, so a flag
  says whether it is installed. The two \<open>static\<close> file objects of the dump functions are the
  names under which they were opened. \<open>pcg_next\<close> and \<open>pcg_last\<close> point to the \<open>next\<close> field
  of a node. \<open>fault\<close> is set by a memory access out of bounds or through \<open>NULL\<close>.\<close>

record pcov =
  current_filename :: bytes
  current_relative_filename :: bytes
  current_lineno :: u32
  current_opcode_pos :: u32
  last_coverage_hash :: u32
  redqueen_mode_enabled :: bool
  coverage_dump_enabled :: bool
  execution_limit :: u32
  executed_opcodes :: u32
  pinned_core :: int
  bitmap_size :: u32
  bitmap_mask :: u32
  is_in_eval :: bool
  filename_hash :: u32
  backtrace_hash :: u32
  trace_buffer :: "bytes option"
  preg_match_callback :: bool
  redqueen_callback :: bool
  array_access_callback :: bool
  bug_oracle_callback :: bool
  positive_feedback_callback :: bool
  string_equal_val_callback :: bool
  execute_ex_hooked :: bool
  compile_file_hooked :: bool
  dump_file_obj :: "bytes option"
  cov_file_obj :: "bytes option"
  pcg_enabled :: bool
  pcg_mem :: "php_coverage list"
  pcg_start :: "nat option"
  pcg_next :: "nat option"
  pcg_last :: "nat option"
  pcg_waiting :: "bytes list"
  pcg_files :: "(bytes \<times> php_function) list"
  pcg_wants :: "bytes list"
  pcg_discovered :: "bytes \<rightharpoonup> line_table"
  pcg_covered :: "bytes \<rightharpoonup> u32 list"
  pcg_directory :: "bytes option"
  ini_enabled :: bool
  outputs :: "host_output list"
  fault :: bool

definition PATH_MAX :: nat where
  "PATH_MAX = 4096"

text \<open>\<open>strncpy\<close> of a C string into one of the file name buffers, which have \<open>PATH_MAX + 1\<close>
  bytes of which the last stays NUL.\<close>

definition to_filename_buffer :: "bytes \<Rightarrow> bytes" where
  "to_filename_buffer s = take PATH_MAX (c_str s)"

definition emit :: "host_output \<Rightarrow> pcov \<Rightarrow> pcov" where
  "emit x st = st\<lparr>outputs := outputs st @ [x]\<rparr>"

definition reset_cov_context :: "pcov \<Rightarrow> pcov" where
  "reset_cov_context st =
     st\<lparr>current_filename := [], current_relative_filename := [], current_lineno := 0,
        current_opcode_pos := 0, last_coverage_hash := 0, filename_hash := 0, backtrace_hash := 0\<rparr>"

definition enable_custom_feedback_functions :: "pcov \<Rightarrow> pcov" where
  "enable_custom_feedback_functions st =
     st\<lparr>preg_match_callback := True, redqueen_callback := True, array_access_callback := True,
        bug_oracle_callback := True, positive_feedback_callback := True,
        string_equal_val_callback := True\<rparr>"

definition disable_custom_feedback_functions :: "pcov \<Rightarrow> pcov" where
  "disable_custom_feedback_functions st =
     st\<lparr>array_access_callback := False, bug_oracle_callback := False, redqueen_callback := False,
        positive_feedback_callback := False, preg_match_callback := False,
        string_equal_val_callback := False\<rparr>"

text \<open>The initial values of the globals.\<close>

definition pcov_initial :: pcov where
  "pcov_initial = \<lparr>current_filename = [], current_relative_filename = [], current_lineno = 0,
     current_opcode_pos = 0, last_coverage_hash = 0, redqueen_mode_enabled = False,
     coverage_dump_enabled = False, execution_limit = 0, executed_opcodes = 0, pinned_core = 0,
     bitmap_size = 65536, bitmap_mask = 0xffff, is_in_eval = False, filename_hash = 0,
     backtrace_hash = 0, trace_buffer = None, preg_match_callback = False,
     redqueen_callback = False, array_access_callback = False, bug_oracle_callback = False,
     positive_feedback_callback = False, string_equal_val_callback = False,
     execute_ex_hooked = False, compile_file_hooked = False, dump_file_obj = None,
     cov_file_obj = None, pcg_enabled = False, pcg_mem = [], pcg_start = None, pcg_next = None,
     pcg_last = None, pcg_waiting = [], pcg_files = [], pcg_wants = [],
     pcg_discovered = Map.empty, pcg_covered = Map.empty, pcg_directory = None,
     ini_enabled = True, outputs = [], fault = False\<rparr>"

subsection \<open>String lemmas\<close>

lemma strstr_iff: "strstr s n \<longleftrightarrow> (\<exists>a b. s = a @ n @ b)"
proof (induction s)
  case Nil
  then show ?case by auto
next
  case (Cons c s)
  show ?case
  proof
    assume "strstr (c # s) n"
    then consider "take (length n) (c # s) = n" | "strstr s n" by auto
    then show "\<exists>a b. c # s = a @ n @ b"
    proof cases
      case 1
      have "c # s = [] @ take (length n) (c # s) @ drop (length n) (c # s)" by simp
      then show ?thesis using 1 by metis
    next
      case 2
      then show ?thesis using Cons.IH by (metis append_Cons)
    qed
  next
    assume "\<exists>a b. c # s = a @ n @ b"
    then obtain a b where ab: "c # s = a @ n @ b" by blast
    show "strstr (c # s) n"
    proof (cases a)
      case Nil
      then have "take (length n) (c # s) = n" using ab by (metis append_Nil append_eq_conv_conj)
      then show ?thesis by simp
    next
      case (Cons d a')
      then have "s = a' @ n @ b" using ab by simp
      then show ?thesis using Cons.IH by auto
    qed
  qed
qed

lemma strstr_append_left [intro]: "strstr s n \<Longrightarrow> strstr (t @ s) n"
  by (metis append.assoc strstr_iff)

lemma length_c_str: "length (c_str s) \<le> length s"
  by (simp add: c_str_def length_takeWhile_le)

lemma c_str_no_nul: "0 \<notin> set (c_str s)"
  by (auto simp: c_str_def dest: set_takeWhileD)

lemma c_str_id: "0 \<notin> set s \<Longrightarrow> c_str s = s"
  by (auto simp: c_str_def intro!: takeWhile_eq_all_conv [THEN iffD2])

lemma length_to_filename_buffer: "length (to_filename_buffer s) \<le> PATH_MAX"
  by (simp add: to_filename_buffer_def)

end
