(* ===== verification/Pcov_Feedback.thy ===== *)
theory Pcov_Feedback
  imports Pcov_State
begin

text \<open>
  How the extension reports to the fuzzer (\<open>pcov-patched/pcov.c\<close>): the hashes that pick an
  entry of the shared bitmap, the reads and writes of the bitmap, the dumps of strings and of
  coverage, and the callbacks that the engine calls when it compares strings, looks up an array
  key or has other good news.
\<close>

subsection \<open>Hashes\<close>

datatype hash_arg = Arg_s bytes | Arg_d u32

text \<open>\<open>murmur_hash\<close>: the format and its arguments are a list; the low 32 bits of one result
  seed the next hash.\<close>

definition murmur_hash_step :: "hash_arg \<Rightarrow> u32 \<Rightarrow> u32" where
  "murmur_hash_step a seed =
     (case a of Arg_s s \<Rightarrow> ucast (fst (MurmurHash3_x64_128 (c_str s) seed))
              | Arg_d i \<Rightarrow> ucast (fst (MurmurHash3_x64_128 (bytes_of_u32 i) seed)))"

definition murmur_hash :: "hash_arg list \<Rightarrow> u32" where
  "murmur_hash args = fold murmur_hash_step args 0"

text \<open>\<open>short_hash\<close> with its static table of the hashes of the small numbers, which it fills
  when the first entry is still 0. It returns the hash and the table.\<close>

definition short_hash_table :: "u32 list" where
  "short_hash_table = map (\<lambda>i. MurmurHash3_x86_32 (bytes_of_u32 (word_of_nat i)) 0) [0..<0x1000]"

definition short_hash_step :: "(u32 \<Rightarrow> u32) \<Rightarrow> u32 \<Rightarrow> u32 \<Rightarrow> u32" where
  "short_hash_step lookup v hash =
     drop_bit 1 (hash XOR (if v < 0x1000 then lookup v else v))"

definition short_hash_static :: "u32 list \<Rightarrow> u32 list \<Rightarrow> u32 \<times> u32 list" where
  "short_hash_static hash_table args =
     (let table = (if hash_table ! 0 = 0 then short_hash_table else hash_table)
      in (fold (short_hash_step (\<lambda>v. table ! unat v)) args 0, table))"

text \<open>The value that it computes, without the table.\<close>

definition short_hash :: "u32 list \<Rightarrow> u32" where
  "short_hash args =
     fold (short_hash_step (\<lambda>v. MurmurHash3_x86_32 (bytes_of_u32 v) 0)) args 0"

subsection \<open>The bitmap\<close>

definition test_feedback_conditions :: "pcov \<Rightarrow> bool" where
  "test_feedback_conditions st \<longleftrightarrow> \<not> is_in_eval st \<and> 0 < current_lineno st"

definition read_from_trace_buffer :: "u32 \<Rightarrow> pcov \<Rightarrow> u32 \<times> pcov" where
  "read_from_trace_buffer index st =
     (case trace_buffer st of
        None \<Rightarrow> (0, st)
      | Some buf \<Rightarrow>
          if unat index < length buf then (ucast (buf ! unat index), st)
          else (0, st\<lparr>fault := True\<rparr>))"

definition write_to_trace_buffer :: "u32 \<Rightarrow> pcov \<Rightarrow> pcov" where
  "write_to_trace_buffer index st =
     (case trace_buffer st of
        None \<Rightarrow> st
      | Some buf \<Rightarrow>
          if unat index < length buf then st\<lparr>trace_buffer := Some (buf[unat index := 1])\<rparr>
          else st\<lparr>fault := True\<rparr>)"

subsection \<open>Dumps\<close>

text \<open>\<open>_dump_payload\<close> creates the host file at its first call, under the name that call has, and
  then appends; \<open>_cov_dump_payload\<close> is the same with a file object of its own.\<close>

definition dump_file_name :: "bytes \<Rightarrow> pcov \<Rightarrow> bytes" where
  "dump_file_name filename st = filename @ cs ''_'' @ fmt_d (pinned_core st)"

definition dump_payload :: "bytes \<Rightarrow> bytes \<Rightarrow> pcov \<Rightarrow> pcov" where
  "dump_payload buffer filename st =
     (if buffer = [] then st
      else (let (name, st) =
              (case dump_file_obj st of
                 None \<Rightarrow> (let name = dump_file_name filename st
                         in (name, emit (Dump_File name False []) (st\<lparr>dump_file_obj := Some name\<rparr>)))
               | Some name \<Rightarrow> (name, st))
            in emit (Dump_File name True buffer) st))"

definition cov_dump_payload :: "bytes \<Rightarrow> bytes \<Rightarrow> pcov \<Rightarrow> pcov" where
  "cov_dump_payload buffer filename st =
     (if buffer = [] then st
      else (let (name, st) =
              (case cov_file_obj st of
                 None \<Rightarrow> (let name = dump_file_name filename st
                         in (name, emit (Dump_File name False []) (st\<lparr>cov_file_obj := Some name\<rparr>)))
               | Some name \<Rightarrow> (name, st))
            in emit (Dump_File name True buffer) st))"

definition dump_coverage :: "bytes \<Rightarrow> pcov \<Rightarrow> pcov" where
  "dump_coverage buffer st =
     (if coverage_dump_enabled st then cov_dump_payload (c_str buffer) (cs ''coverage'') st else st)"

text \<open>A local buffer of 1024 bytes that is written at an offset: \<open>None\<close> when the write leaves
  the buffer, has a negative size or reads past the end of its source.\<close>

definition poke :: "int \<Rightarrow> bytes \<Rightarrow> bytes \<Rightarrow> bytes option" where
  "poke off src buf =
     (if 0 \<le> off \<and> off + int (length src) \<le> int (length buf)
      then Some (take (nat off) buf @ src @ drop (nat off + length src) buf) else None)"

definition copy_in :: "int \<Rightarrow> bytes \<Rightarrow> int \<Rightarrow> bytes \<Rightarrow> bytes option" where
  "copy_in off src n buf =
     (if 0 \<le> n \<and> n \<le> int (length src) then poke off (take (nat n) src) buf else None)"

text \<open>The record \<open>[type][len][buffer]\<close>, dropped when it is longer than 1000 bytes. A C
  \<open>int\<close> length becomes a \<open>size_t\<close> here, so a negative one is a huge one.\<close>

definition dump_redqueen_payload :: "bytes \<Rightarrow> int \<Rightarrow> u8 \<Rightarrow> pcov \<Rightarrow> pcov" where
  "dump_redqueen_payload buffer sz ty st =
     (if sz mod 2 ^ 64 > 1000 then st
      else (case do { buf \<leftarrow> poke 0 [ty] (replicate 1024 0);
                      buf \<leftarrow> poke 1 (bytes_of_u16 (word_of_int sz)) buf;
                      copy_in 3 buffer sz buf } of
              None \<Rightarrow> st\<lparr>fault := True\<rparr>
            | Some buf \<Rightarrow> dump_payload (take (nat (3 + sz)) buf) (cs ''strings'') st))"

definition php_pcov_redqueen :: "bytes \<Rightarrow> int \<Rightarrow> u8 \<Rightarrow> pcov \<Rightarrow> pcov" where
  "php_pcov_redqueen s sz ty st =
     (if redqueen_mode_enabled st then dump_redqueen_payload s sz ty st else st)"

abbreviation (input) REDQUEEN_STRING :: u8 where "REDQUEEN_STRING \<equiv> 0"
abbreviation (input) REDQUEEN_ARRAY_ACCESS :: u8 where "REDQUEEN_ARRAY_ACCESS \<equiv> 1"
abbreviation (input) REDQUEEN_UNMATCHED_STRING :: u8 where "REDQUEEN_UNMATCHED_STRING \<equiv> 2"
abbreviation (input) REDQUEEN_PREG_MATCH :: u8 where "REDQUEEN_PREG_MATCH \<equiv> 3"

text \<open>The record \<open>[type][len1][s1][len2][s2]\<close> of two strings, as both functions below build it
  in a local buffer.\<close>

definition pair_record :: "u8 \<Rightarrow> bytes \<Rightarrow> int \<Rightarrow> bytes \<Rightarrow> int \<Rightarrow> bytes option" where
  "pair_record ty s1 len1 s2 len2 =
     do { buf \<leftarrow> poke 0 [ty] (replicate 1024 0);
          buf \<leftarrow> poke 1 (bytes_of_u16 (word_of_int len1)) buf;
          buf \<leftarrow> copy_in 3 s1 len1 buf;
          buf \<leftarrow> poke (3 + len1) (bytes_of_u16 (word_of_int len2)) buf;
          buf \<leftarrow> copy_in (3 + len1 + 2) s2 len2 buf;
          Some (take (nat (3 + len1 + 2 + len2)) buf) }"

definition php_pcov_redqueen_unmatched :: "bytes \<Rightarrow> int \<Rightarrow> bytes \<Rightarrow> int \<Rightarrow> pcov \<Rightarrow> pcov" where
  "php_pcov_redqueen_unmatched s1 len1 s2 len2 st =
     (if redqueen_mode_enabled st
      then (if len1 + len2 > 1000 then st
            else (case pair_record REDQUEEN_UNMATCHED_STRING s1 len1 s2 len2 of
                    None \<Rightarrow> st\<lparr>fault := True\<rparr>
                  | Some buf \<Rightarrow> dump_payload buf (cs ''strings'') st))
      else st)"

definition php_pcov_redqueen_preg_match :: "bytes \<Rightarrow> int \<Rightarrow> bytes \<Rightarrow> int \<Rightarrow> pcov \<Rightarrow> pcov" where
  "php_pcov_redqueen_preg_match regexp regexp_len cmp cmp_len st =
     (if redqueen_mode_enabled st
      then (if regexp_len + cmp_len > 1000 then st
            else (case pair_record REDQUEEN_PREG_MATCH regexp regexp_len cmp cmp_len of
                    None \<Rightarrow> st\<lparr>fault := True\<rparr>
                  | Some buf \<Rightarrow> dump_payload buf (cs ''strings'') st))
      else st)"

subsection \<open>Feedback callbacks\<close>

text \<open>The name \<open>prefix:file:line:position\<close> that a coverage dump line starts with; the line and
  the position are printed as \<open>int\<close>.\<close>

definition cov_position :: "pcov \<Rightarrow> bytes" where
  "cov_position st = current_filename st @ cs '':'' @ fmt_0d 4 (sint (current_lineno st)) @
     cs '':'' @ fmt_d (sint (current_opcode_pos st))"

text \<open>The bitmap part that the three callbacks have in common: read the entry, and set it when
  the position is fit for feedback. It returns what was read.\<close>

definition mark_bitmap :: "u32 \<Rightarrow> pcov \<Rightarrow> u32 \<times> pcov" where
  "mark_bitmap hash st =
     (let (previously, st) = read_from_trace_buffer (hash AND bitmap_mask st) st
      in (previously,
          if test_feedback_conditions st
          then write_to_trace_buffer (hash AND bitmap_mask st) st else st))"

definition php_pcov_positive_feedback :: "u32 \<Rightarrow> pcov \<Rightarrow> pcov" where
  "php_pcov_positive_feedback fid st =
     (let hash = short_hash [0x3333, backtrace_hash st, current_lineno st, current_opcode_pos st, fid];
          (previously, st) = mark_bitmap hash st
      in if previously = 0 \<and> coverage_dump_enabled st
         then dump_coverage (cs ''custom:'' @ fmt_02x fid @ cs '':'' @ cov_position st @ [10]) st
         else st)"

text \<open>The dump line of a string: its position, the low hash bits, and the string when it is
  printable.\<close>

definition string_dump_line :: "bytes \<Rightarrow> u32 \<Rightarrow> bytes \<Rightarrow> nat \<Rightarrow> pcov \<Rightarrow> bytes" where
  "string_dump_line prefix bits s n st =
     prefix @ cs '':'' @ cov_position st @ cs '':'' @ fmt_d (uint bits) @ cs '':'' @
     (if is_printable s n then c_str (take n s) else cs ''<unprintable>'') @ [10]"

definition php_pcov_array_access :: "bytes \<Rightarrow> int \<Rightarrow> pcov \<Rightarrow> pcov" where
  "php_pcov_array_access s1 sz st =
     (let bits = murmur_hash [Arg_s s1] AND 7;
          hash = short_hash [0x2222, backtrace_hash st, current_lineno st, current_opcode_pos st, bits];
          (previously, st) = mark_bitmap hash st
      in if coverage_dump_enabled st \<and> previously = 0
         then dump_coverage (string_dump_line (cs ''array'') bits s1 (nat sz) st) st
         else st)"

definition php_pcov_string_equal_val :: "bytes \<Rightarrow> int \<Rightarrow> bytes \<Rightarrow> int \<Rightarrow> pcov \<Rightarrow> pcov" where
  "php_pcov_string_equal_val s1 s1_len s2 s2_len st =
     (let st = php_pcov_redqueen s1 s1_len REDQUEEN_STRING st;
          st = php_pcov_redqueen s2 s2_len REDQUEEN_STRING st;
          st = (if s1_len > 0 \<and> s2_len > 0 then php_pcov_positive_feedback 0xee st else st)
      in if s1_len = s2_len \<and> take (nat s1_len) s1 = take (nat s1_len) s2
         then (let bits = murmur_hash [Arg_s s1] AND 7;
                   hash = short_hash [0x1111, backtrace_hash st, current_lineno st,
                                      current_opcode_pos st, bits];
                   (previously, st) = mark_bitmap hash st
               in if coverage_dump_enabled st \<and> previously = 0
                  then dump_coverage (string_dump_line (cs ''cmp'') bits s1 (nat s1_len) st) st
                  else st)
         else php_pcov_redqueen_unmatched s1 s1_len s2 s2_len st)"

end
