(* ===== verification/Pcov_Redqueen.thy ===== *)
theory Pcov_Redqueen
  imports Pcov_Feedback
begin

text \<open>
  The stream of strings that the extension dumps for the fuzzer's input-to-state stage, and that
  \<open>parse_redqueen_file\<close> of \<open>fuzzer/misc.py\<close> reads back: the local buffers of the dump functions
  are never overrun by strings of the length they are given with, and parsing the dumped file
  gives the strings.
\<close>

subsection \<open>Buffer writes\<close>

lemma poke_at:
  assumes "off = int (length pre)" and "length src \<le> length rest"
  shows "poke off src (pre @ rest) = Some (pre @ src @ drop (length src) rest)"
  using assms by (simp add: poke_def)

lemma poke_0: "length src \<le> length rest \<Longrightarrow> poke 0 src rest = Some (src @ drop (length src) rest)"
  using poke_at [of 0 "[]" src rest] by simp

lemma copy_in_at:
  assumes "off = int (length pre)" and "0 \<le> n" "nat n \<le> length src" "nat n \<le> length rest"
  shows "copy_in off src n (pre @ rest) = Some (pre @ take (nat n) src @ drop (nat n) rest)"
proof -
  have "n \<le> int (length src)" using assms(2,3) by linarith
  then show ?thesis using poke_at [of off pre "take (nat n) src" rest] assms
    by (simp add: copy_in_def min_absorb2)
qed

lemma record_header:
  "do { buf \<leftarrow> poke 0 [ty] (replicate 1024 0); poke 1 (bytes_of_u16 n) buf } =
   Some ((ty # bytes_of_u16 n) @ replicate 1021 0)"
proof -
  have "poke 0 [ty] (replicate 1024 (0 :: u8)) = Some ([ty] @ replicate 1023 0)"
    by (simp add: poke_0)
  moreover have "poke 1 (bytes_of_u16 n) ([ty] @ replicate 1023 (0 :: u8)) =
      Some ([ty] @ bytes_of_u16 n @ replicate 1021 0)"
    by (subst poke_at) simp_all
  ultimately show ?thesis by simp
qed

lemma single_record:
  assumes "0 \<le> n" "n \<le> 1000" "nat n \<le> length s"
  shows "do { buf \<leftarrow> poke 0 [ty] (replicate 1024 0);
              buf \<leftarrow> poke 1 (bytes_of_u16 (word_of_int n)) buf;
              copy_in 3 s n buf } =
    Some (ty # bytes_of_u16 (word_of_int n) @ take (nat n) s @ replicate (1021 - nat n) 0)"
proof -
  let ?pre = "ty # bytes_of_u16 (word_of_int n)"
  have "copy_in 3 s n (?pre @ replicate 1021 (0 :: u8)) =
      Some (?pre @ take (nat n) s @ drop (nat n) (replicate 1021 0))"
    using assms by (intro copy_in_at) auto
  then have "do { buf \<leftarrow> do { buf \<leftarrow> poke 0 [ty] (replicate 1024 0); poke 1 (bytes_of_u16 (word_of_int n)) buf };
              copy_in 3 s n buf } = Some (?pre @ take (nat n) s @ replicate (1021 - nat n) 0)"
    by (simp only: record_header bind.bind_lunit) simp
  then show ?thesis by (simp only: Option.bind_assoc append_Cons)
qed

lemma pair_record_eq:
  assumes "0 \<le> n1" "nat n1 \<le> length s1" "0 \<le> n2" "nat n2 \<le> length s2" "n1 + n2 \<le> 1000"
  shows "pair_record ty s1 n1 s2 n2 =
    Some (ty # bytes_of_u16 (word_of_int n1) @ take (nat n1) s1 @
          bytes_of_u16 (word_of_int n2) @ take (nat n2) s2)"
proof -
  let ?p1 = "ty # bytes_of_u16 (word_of_int n1) @ take (nat n1) s1"
  let ?p2 = "?p1 @ bytes_of_u16 (word_of_int n2)"
  let ?r1 = "replicate (1021 - nat n1) (0 :: u8)"
  have len1: "int (length ?p1) = 3 + n1" using assms by simp
  have len2: "int (length ?p2) = 3 + n1 + 2" using assms by simp
  have sum: "nat n1 + nat n2 \<le> 1000" using assms by linarith
  have a: "poke (3 + n1) (bytes_of_u16 (word_of_int n2)) (?p1 @ ?r1) =
      Some (?p1 @ bytes_of_u16 (word_of_int n2) @ drop 2 ?r1)"
    using poke_at [OF len1 [symmetric], of "bytes_of_u16 (word_of_int n2)" ?r1] sum by simp
  have b: "copy_in (3 + n1 + 2) s2 n2 (?p2 @ drop 2 ?r1) =
      Some (?p2 @ take (nat n2) s2 @ drop (nat n2) (drop 2 ?r1))"
  proof (rule copy_in_at)
    show "3 + n1 + 2 = int (length ?p2)" by (rule len2 [symmetric])
    show "nat n2 \<le> length (drop 2 ?r1)" using sum by simp
    show "0 \<le> n2" "nat n2 \<le> length s2" by (rule assms)+
  qed
  have "nat (3 + n1 + 2 + n2) = length (?p2 @ take (nat n2) s2)" using assms by simp
  then have c: "take (nat (3 + n1 + 2 + n2)) (?p2 @ take (nat n2) s2 @ drop (nat n2) (drop 2 ?r1)) =
      ?p2 @ take (nat n2) s2"
    by (metis append.assoc append_eq_conv_conj)
  have "pair_record ty s1 n1 s2 n2 =
    do { buf \<leftarrow> do { buf \<leftarrow> poke 0 [ty] (replicate 1024 0);
              buf \<leftarrow> poke 1 (bytes_of_u16 (word_of_int n1)) buf; copy_in 3 s1 n1 buf };
         buf \<leftarrow> poke (3 + n1) (bytes_of_u16 (word_of_int n2)) buf;
         buf \<leftarrow> copy_in (3 + n1 + 2) s2 n2 buf;
         Some (take (nat (3 + n1 + 2 + n2)) buf) }"
    by (simp add: pair_record_def)
  also have "\<dots> = Some (?p2 @ take (nat n2) s2)"
  proof -
    have "do { buf \<leftarrow> poke 0 [ty] (replicate 1024 0);
              buf \<leftarrow> poke 1 (bytes_of_u16 (word_of_int n1)) buf; copy_in 3 s1 n1 buf } =
        Some (?p1 @ ?r1)"
      using single_record [of n1 s1 ty] assms by simp
    then show ?thesis using a b c by simp
  qed
  finally show ?thesis by simp
qed

subsection \<open>The parser\<close>

datatype rq_event =
    Rq_String bytes
  | Rq_Key bytes
  | Rq_Unmatched bytes bytes
  | Rq_Preg_Match bytes bytes

text \<open>Reading a signed 16-bit length and as many bytes.\<close>

definition read_string :: "bytes \<Rightarrow> (bytes \<times> bytes) option" where
  "read_string f =
     (if length f < 2 then None
      else (let n = nat (sint (load_le (take 2 f) :: u16)); rest = drop 2 f
            in if length rest < n then None else Some (take n rest, drop n rest)))"

lemma read_string_shorter: "read_string f = Some (s, r) \<Longrightarrow> length r < length f"
  by (auto simp: read_string_def Let_def split: if_splits)

text \<open>The records of a file. Reading beyond the end stops the parser silently, and an unknown
  type fails its assertion.\<close>

function parse_redqueen :: "bytes \<Rightarrow> rq_event list option" where
  "parse_redqueen f =
     (case f of
        [] \<Rightarrow> Some []
      | ty # f1 \<Rightarrow>
         if ty \<in> {0, 1} then
           (case read_string f1 of
              None \<Rightarrow> Some []
            | Some (s, f2) \<Rightarrow>
                map_option ((#) (if ty = 0 then Rq_String s else Rq_Key s)) (parse_redqueen f2))
         else if ty \<in> {2, 3} then
           (case read_string f1 of
              None \<Rightarrow> Some []
            | Some (s, f2) \<Rightarrow>
               (case read_string f2 of
                  None \<Rightarrow> Some []
                | Some (t, f3) \<Rightarrow>
                    map_option ((#) (if ty = 2 then Rq_Unmatched s t else Rq_Preg_Match s t))
                      (parse_redqueen f3)))
         else None)"
  by pat_completeness auto
termination
  by (relation "measure length") (auto dest!: read_string_shorter)

declare parse_redqueen.simps [simp del]

definition rq_bytes :: "bytes \<Rightarrow> bytes" where
  "rq_bytes s = bytes_of_u16 (word_of_nat (length s)) @ s"

fun rq_encode :: "rq_event \<Rightarrow> bytes" where
  "rq_encode (Rq_String s) = 0 # rq_bytes s"
| "rq_encode (Rq_Key s) = 1 # rq_bytes s"
| "rq_encode (Rq_Unmatched s t) = 2 # rq_bytes s @ rq_bytes t"
| "rq_encode (Rq_Preg_Match s t) = 3 # rq_bytes s @ rq_bytes t"

text \<open>What is short enough to be sent.\<close>

fun rq_sent :: "rq_event \<Rightarrow> bool" where
  "rq_sent (Rq_String s) = (length s \<le> 1000)"
| "rq_sent (Rq_Key s) = (length s \<le> 1000)"
| "rq_sent (Rq_Unmatched s t) = (length s + length t \<le> 1000)"
| "rq_sent (Rq_Preg_Match s t) = (length s + length t \<le> 1000)"

lemma read_string_rq_bytes:
  assumes "length s \<le> 1000"
  shows "read_string (rq_bytes s @ rest) = Some (s, rest)"
proof -
  have "sint (word_of_nat (length s) :: u16) = int (length s)"
    using assms by (simp add: signed_of_nat signed_take_bit_int_eq_self)
  then show ?thesis
    by (simp add: read_string_def rq_bytes_def Let_def)
qed

lemma parse_encode:
  assumes "rq_sent e"
  shows "parse_redqueen (rq_encode e @ rest) = map_option ((#) e) (parse_redqueen rest)"
proof (cases e)
  case (Rq_String s)
  then show ?thesis using assms read_string_rq_bytes [of s rest]
    by (subst parse_redqueen.simps) simp
next
  case (Rq_Key s)
  then show ?thesis using assms read_string_rq_bytes [of s rest]
    by (subst parse_redqueen.simps) simp
next
  case (Rq_Unmatched s t)
  then show ?thesis
    using assms read_string_rq_bytes [of s "rq_bytes t @ rest"] read_string_rq_bytes [of t rest]
    by (subst parse_redqueen.simps) simp
next
  case (Rq_Preg_Match s t)
  then show ?thesis
    using assms read_string_rq_bytes [of s "rq_bytes t @ rest"] read_string_rq_bytes [of t rest]
    by (subst parse_redqueen.simps) simp
qed

lemma parse_encodes:
  "list_all rq_sent es \<Longrightarrow> parse_redqueen (concat (map rq_encode es)) = Some es"
proof (induction es)
  case Nil
  show ?case by (subst parse_redqueen.simps) simp
next
  case (Cons e es)
  then show ?case by (simp add: parse_encode)
qed

subsection \<open>The dumped file\<close>

text \<open>The engine's calls: a compared string, a missing array key, two strings that were unequal,
  a regular expression and its subject, each with its length as a C \<open>int\<close>.\<close>

fun rq_call :: "rq_event \<Rightarrow> pcov \<Rightarrow> pcov" where
  "rq_call (Rq_String s) = php_pcov_redqueen s (int (length s)) REDQUEEN_STRING"
| "rq_call (Rq_Key s) = php_pcov_redqueen s (int (length s)) REDQUEEN_ARRAY_ACCESS"
| "rq_call (Rq_Unmatched s t) = php_pcov_redqueen_unmatched s (int (length s)) t (int (length t))"
| "rq_call (Rq_Preg_Match s t) = php_pcov_redqueen_preg_match s (int (length s)) t (int (length t))"

definition rq_event_ok :: "rq_event \<Rightarrow> bool" where
  "rq_event_ok e = (case e of
      Rq_String s \<Rightarrow> length s < 2 ^ 31 | Rq_Key s \<Rightarrow> length s < 2 ^ 31
    | Rq_Unmatched s t \<Rightarrow> length s < 2 ^ 31 \<and> length t < 2 ^ 31
    | Rq_Preg_Match s t \<Rightarrow> length s < 2 ^ 31 \<and> length t < 2 ^ 31)"

text \<open>The content of a host file after the dump hypercalls: without the append flag the file
  starts anew.\<close>

fun host_file :: "bytes \<Rightarrow> host_output list \<Rightarrow> bytes \<Rightarrow> bytes" where
  "host_file name [] acc = acc"
| "host_file name (x # xs) acc =
     host_file name xs
       (case x of Dump_File n app d \<Rightarrow> if n = name then (if app then acc @ d else d) else acc
                | _ \<Rightarrow> acc)"

lemma host_file_append: "host_file name (xs @ ys) acc = host_file name ys (host_file name xs acc)"
  by (induction xs arbitrary: acc) simp_all

lemma rq_encode_not_Nil [simp]: "rq_encode e \<noteq> []"
  by (cases e) simp_all

text \<open>A sent event is a dump of its encoding.\<close>

lemma dump_redqueen_payload_eq:
  assumes "length s < 2 ^ 31"
  shows "dump_redqueen_payload s (int (length s)) ty st =
    (if length s \<le> 1000 then dump_payload (ty # rq_bytes s) (cs ''strings'') st else st)"
proof -
  have "int (length s) mod 2 ^ 64 = int (length s)" using assms by simp
  moreover have "nat (3 + int (length s)) = 3 + length s" by simp
  moreover have "take (3 + length s) (ty # bytes_of_u16 n @ s @ r) = ty # bytes_of_u16 n @ s" for n r
    by (simp add: bytes_of_u16_def numeral_3_eq_3)
  ultimately show ?thesis using single_record [of "int (length s)" s ty]
    by (simp add: dump_redqueen_payload_def rq_bytes_def)
qed

lemma redqueen_pair_eq:
  "length s + length t \<le> 1000 \<Longrightarrow>
   pair_record ty s (int (length s)) t (int (length t)) = Some (ty # rq_bytes s @ rq_bytes t)"
  using pair_record_eq [of "int (length s)" s "int (length t)" t ty] by (simp add: rq_bytes_def)

lemma rq_call_eq:
  assumes "redqueen_mode_enabled st" "rq_event_ok e"
  shows "rq_call e st = (if rq_sent e then dump_payload (rq_encode e) (cs ''strings'') st else st)"
proof (cases e)
  case (Rq_String s)
  then show ?thesis using assms
    by (simp add: php_pcov_redqueen_def dump_redqueen_payload_eq rq_event_ok_def)
next
  case (Rq_Key s)
  then show ?thesis using assms
    by (simp add: php_pcov_redqueen_def dump_redqueen_payload_eq rq_event_ok_def)
next
  case (Rq_Unmatched s t)
  have "int (length s) + int (length t) > 1000 \<longleftrightarrow> \<not> length s + length t \<le> 1000" by linarith
  then show ?thesis using Rq_Unmatched assms redqueen_pair_eq [of s t]
    by (simp add: php_pcov_redqueen_unmatched_def)
next
  case (Rq_Preg_Match s t)
  have "int (length s) + int (length t) > 1000 \<longleftrightarrow> \<not> length s + length t \<le> 1000" by linarith
  then show ?thesis using Rq_Preg_Match assms redqueen_pair_eq [of s t]
    by (simp add: php_pcov_redqueen_preg_match_def)
qed

lemma dump_payload_first:
  "dump_file_obj st = None \<Longrightarrow> buf \<noteq> [] \<Longrightarrow>
   dump_payload buf fname st =
     st\<lparr>dump_file_obj := Some (dump_file_name fname st),
        outputs := outputs st @ [Dump_File (dump_file_name fname st) False [],
                                 Dump_File (dump_file_name fname st) True buf]\<rparr>"
  by (simp add: dump_payload_def emit_def Let_def)

lemma dump_payload_next:
  "dump_file_obj st = Some name \<Longrightarrow> buf \<noteq> [] \<Longrightarrow>
   dump_payload buf fname st = st\<lparr>outputs := outputs st @ [Dump_File name True buf]\<rparr>"
  by (simp add: dump_payload_def emit_def)

text \<open>Once the file is open, the events append their encodings.\<close>

lemma rq_calls_opened:
  assumes "redqueen_mode_enabled st" "list_all rq_event_ok es" "dump_file_obj st = Some name"
  shows "fold rq_call es st =
    st\<lparr>outputs := outputs st @ map (\<lambda>e. Dump_File name True (rq_encode e)) (filter rq_sent es)\<rparr>"
  using assms
proof (induction es arbitrary: st)
  case Nil
  then show ?case by simp
next
  case (Cons e es)
  show ?case
  proof (cases "rq_sent e")
    case True
    let ?st = "st\<lparr>outputs := outputs st @ [Dump_File name True (rq_encode e)]\<rparr>"
    have "rq_call e st = ?st"
      using True Cons.prems by (simp add: rq_call_eq dump_payload_next)
    then show ?thesis using Cons.IH [of ?st] Cons.prems True by simp
  next
    case False
    then have "rq_call e st = st" using Cons.prems by (simp add: rq_call_eq)
    then show ?thesis using Cons.IH [of st] Cons.prems False by simp
  qed
qed

text \<open>While nothing was sent, nothing changes.\<close>

lemma rq_calls_first:
  assumes "redqueen_mode_enabled st" "list_all rq_event_ok es" "dump_file_obj st = None"
    and name: "name = dump_file_name (cs ''strings'') st"
  shows "fold rq_call es st =
       (if filter rq_sent es = [] then st
        else st\<lparr>dump_file_obj := Some name,
                outputs := outputs st @ Dump_File name False [] #
                  map (\<lambda>e. Dump_File name True (rq_encode e)) (filter rq_sent es)\<rparr>)"
  using assms(1-3)
proof (induction es)
  case Nil
  then show ?case by simp
next
  case (Cons e es)
  show ?case
  proof (cases "rq_sent e")
    case True
    define st1 where "st1 = st\<lparr>dump_file_obj := Some name, outputs := outputs st @
      [Dump_File name False [], Dump_File name True (rq_encode e)]\<rparr>"
    have "rq_call e st = dump_payload (rq_encode e) (cs ''strings'') st"
      using True Cons.prems by (simp add: rq_call_eq)
    also have "\<dots> = st1"
      unfolding st1_def name by (rule dump_payload_first [OF Cons.prems(3) rq_encode_not_Nil])
    finally have "fold rq_call (e # es) st = fold rq_call es st1" by simp
    also have "\<dots> = st1\<lparr>outputs := outputs st1 @
        map (\<lambda>e. Dump_File name True (rq_encode e)) (filter rq_sent es)\<rparr>"
      by (rule rq_calls_opened) (use Cons.prems in \<open>simp_all add: st1_def\<close>)
    also have "\<dots> = st\<lparr>dump_file_obj := Some name, outputs := outputs st @ Dump_File name False [] #
                  map (\<lambda>e. Dump_File name True (rq_encode e)) (e # filter rq_sent es)\<rparr>"
      by (simp add: st1_def)
    finally show ?thesis using True by simp
  next
    case False
    then have "rq_call e st = st" using Cons.prems by (simp add: rq_call_eq)
    then show ?thesis using Cons.IH Cons.prems False by simp
  qed
qed

lemma host_file_appends:
  "host_file name (map (\<lambda>e. Dump_File name True (f e)) es) acc = acc @ concat (map f es)"
  by (induction es arbitrary: acc) simp_all



end
