(* ===== verification/Pcov_Trace.thy ===== *)
theory Pcov_Trace
  imports Pcov_Feedback
begin

text \<open>
  The execution hooks of \<open>pcov-patched/pcov.c\<close>: the hash of the call stack, the tracing of each
  executed instruction with its entry in the bitmap and its node in the list of executed lines,
  the execution loop with the instruction limit, and the compiler hook. The opcode handlers and
  the compiler belong to the engine and are parameters.
\<close>

subsection \<open>The call stack\<close>

definition frame_user :: "call_frame \<Rightarrow> bool" where
  "frame_user fr = (case fst fr of None \<Rightarrow> False | Some f \<Rightarrow> ZEND_USER_CODE (fn_type f))"

fun user_frame :: "ex_frame \<Rightarrow> bool" where
  "user_frame (Frame fr) = frame_user fr"
| "user_frame (Gen_Placeholder _ _) = False"

text \<open>\<open>zend_generator_check_placeholder_frame\<close>: the iterated generator's frame is on top.\<close>

fun check_placeholder_frame :: "ex_frame list \<Rightarrow> ex_frame list" where
  "check_placeholder_frame (Gen_Placeholder g gs # rest) = map Frame (rev (g # gs)) @ rest"
| "check_placeholder_frame frames = frames"

fun pcov_skip_internal_handler :: "ex_frame list \<Rightarrow> bool" where
  "pcov_skip_internal_handler (skip # Frame (Some f, opc, ln) # _) =
     (\<not> user_frame skip \<and> ZEND_USER_CODE (fn_type f) \<and>
      opc \<noteq> ZEND_DO_FCALL \<and> opc \<noteq> ZEND_DO_ICALL \<and> opc \<noteq> ZEND_DO_UCALL \<and>
      opc \<noteq> ZEND_DO_FCALL_BY_NAME \<and> opc \<noteq> ZEND_INCLUDE_OR_EVAL)"
| "pcov_skip_internal_handler _ = False"

text \<open>Mixing a file name and a line into the hash.\<close>

definition hash_position :: "bytes \<Rightarrow> u32 \<Rightarrow> u32 \<Rightarrow> u32" where
  "hash_position filename ln h =
     MurmurHash3_x86_32 (bytes_of_u32 ln) (MurmurHash3_x86_32 filename h)"

text \<open>The inner loop, over the frames \<open>prev\<close> under an internal function: it stops below another
  internal function, and hashes the first user frame that it finds.\<close>

fun internal_frame :: "ex_frame \<Rightarrow> bool" where
  "internal_frame (Frame (Some f, _, _)) =
     (\<not> ZEND_USER_CODE (fn_type f) \<and> fn_flags f AND ZEND_ACC_CALL_VIA_TRAMPOLINE = 0)"
| "internal_frame _ = False"

fun hash_caller :: "ex_frame \<Rightarrow> ex_frame list \<Rightarrow> u32 \<Rightarrow> u32" where
  "hash_caller prev_call [] h = h"
| "hash_caller prev_call (prev # rest) h =
     (if internal_frame prev_call then h
      else case prev of
        Frame (Some f, opc, ln) \<Rightarrow>
          if ZEND_USER_CODE (fn_type f) then hash_position (fn_filename f) ln h
          else hash_caller prev rest h
      | _ \<Rightarrow> hash_caller prev rest h)"

text \<open>The body of the loop for the frame \<open>skip\<close> with the frames under it.\<close>

fun hash_frame :: "u32 option \<Rightarrow> ex_frame \<Rightarrow> ex_frame list \<Rightarrow> u32 \<Rightarrow> u32" where
  "hash_frame exc (Frame (Some f, opc, ln)) rest h =
     (if ZEND_USER_CODE (fn_type f)
      then hash_position (fn_filename f)
             (if opc = ZEND_HANDLE_EXCEPTION
              then (case exc of Some l \<Rightarrow> l | None \<Rightarrow> fn_line_end f) else ln) h
      else hash_caller (Frame (Some f, opc, ln)) rest h)"
| "hash_frame exc skip rest h = hash_caller skip rest h"

fun frame_weight :: "ex_frame \<Rightarrow> nat" where
  "frame_weight (Frame _) = 1"
| "frame_weight (Gen_Placeholder g gs) = 1 + length gs"

definition frames_weight :: "ex_frame list \<Rightarrow> nat" where
  "frames_weight frames = sum_list (map frame_weight frames)"

lemma frames_weight_simps [simp]:
  "frames_weight [] = 0"
  "frames_weight (f # fs) = frame_weight f + frames_weight fs"
  "frames_weight (fs @ gs) = frames_weight fs + frames_weight gs"
  by (simp_all add: frames_weight_def)

lemma frames_weight_map_Frame [simp]: "frames_weight (map Frame xs) = length xs"
  by (induction xs) simp_all

lemma frame_weight_pos [simp]: "0 < frame_weight f"
  by (cases f) simp_all

lemma check_placeholder_weight [simp]:
  "frames_weight (check_placeholder_frame fs) = frames_weight fs"
  by (cases fs rule: check_placeholder_frame.cases) (simp_all)

lemma check_placeholder_Nil_iff [simp]: "check_placeholder_frame fs = [] \<longleftrightarrow> fs = []"
  by (cases fs rule: check_placeholder_frame.cases) simp_all

lemma frames_weight_tl: "frames_weight (tl fs) \<le> frames_weight fs"
  by (cases fs) simp_all

lemma frames_weight_tl_less: "fs \<noteq> [] \<Longrightarrow> frames_weight (tl fs) < frames_weight fs"
  by (cases fs) simp_all

text \<open>The frame that a round of the loop looks at, with the frames under it.\<close>

definition backtrace_skip :: "ex_frame list \<Rightarrow> ex_frame list" where
  "backtrace_skip frames =
     (let frames = check_placeholder_frame frames
      in if pcov_skip_internal_handler frames then tl frames else frames)"

lemma skip_internal_two: "pcov_skip_internal_handler fs \<Longrightarrow> tl fs \<noteq> []"
  by (cases fs rule: pcov_skip_internal_handler.cases) simp_all

lemma backtrace_skip_not_Nil: "frames \<noteq> [] \<Longrightarrow> backtrace_skip frames \<noteq> []"
  by (auto simp: backtrace_skip_def Let_def dest: skip_internal_two)

lemma backtrace_skip_weight: "frames_weight (backtrace_skip frames) \<le> frames_weight frames"
  using frames_weight_tl [of "check_placeholder_frame frames"]
  by (simp add: backtrace_skip_def Let_def)

function backtrace_loop :: "nat \<Rightarrow> u32 option \<Rightarrow> nat \<Rightarrow> ex_frame list \<Rightarrow> u32 \<Rightarrow> u32" where
  "backtrace_loop limit exc frameno frames h =
     (if frames \<noteq> [] \<and> (limit = 0 \<or> frameno < limit)
      then (let skip = backtrace_skip frames
            in backtrace_loop limit exc (frameno + 1) (tl skip)
                 (hash_frame exc (hd skip) (tl skip) h))
      else h)"
  by pat_completeness auto
termination
proof (relation "measure (\<lambda>(limit, exc, frameno, frames, h). frames_weight frames)", goal_cases)
  case 1
  then show ?case by simp
next
  case (2 limit exc frameno frames h skip)
  then have "frames_weight (tl skip) < frames_weight skip"
    by (simp add: frames_weight_tl_less backtrace_skip_not_Nil)
  moreover have "frames_weight skip \<le> frames_weight frames"
    using 2(2) by (simp add: backtrace_skip_weight)
  ultimately show ?case by simp
qed

declare backtrace_loop.simps [simp del]

text \<open>The frames that are left out at the top: an internal function, the frame of a \<open>new\<close>, and
  otherwise the current function.\<close>

definition backtrace_start :: "ex_frame list \<Rightarrow> ex_frame list" where
  "backtrace_start frames =
     (let internal = \<not> user_frame (hd frames);
          ptr = (if internal then tl frames else frames)
      in case ptr of
           Frame (Some f, opc, ln) # rest \<Rightarrow>
             if ZEND_USER_CODE (fn_type f) \<and> opc = ZEND_NEW then rest
             else if internal then ptr else rest
         | _ \<Rightarrow> if internal then ptr else tl ptr)"

definition pcov_backtrace :: "nat \<Rightarrow> engine \<Rightarrow> u32" where
  "pcov_backtrace limit eg =
     (if eg_stack eg = [] then 0
      else backtrace_loop limit (eg_line_before_exception eg) 0 (backtrace_start (eg_stack eg)) 0)"

definition MAX_BACKTRACE_DEPTH :: nat where
  "MAX_BACKTRACE_DEPTH = 3"

definition update_backtrace_hash :: "engine \<Rightarrow> pcov \<Rightarrow> pcov" where
  "update_backtrace_hash eg st =
     (let h = pcov_backtrace MAX_BACKTRACE_DEPTH eg
      in st\<lparr>backtrace_hash := if h = 0 then filename_hash st else h\<rparr>)"

subsection \<open>Which files and instructions count\<close>

definition php_pcov_wants :: "bytes \<Rightarrow> pcov \<Rightarrow> bool \<times> pcov" where
  "php_pcov_wants filename st =
     (case pcg_directory st of
        None \<Rightarrow> (True, st)
      | Some dir \<Rightarrow>
          if length filename < length dir then (False, st)
          else if filename \<in> set (pcg_wants st) then (True, st)
          else if strncmp_eq filename dir (length dir)
          then (True, st\<lparr>pcg_wants := pcg_wants st @ [filename]\<rparr>)
          else (False, st))"

definition php_pcov_ignored_opcode :: "u8 \<Rightarrow> bool" where
  "php_pcov_ignored_opcode opc \<longleftrightarrow> opc \<in>
     {0, 137, ZEND_FE_FREE, ZEND_FREE, ZEND_ASSERT_CHECK, 124, ZEND_RECV, ZEND_RECV_INIT, 164,
      65, 66, 67, 165, 143, 144, 145, 141, 146, ZEND_FAST_RET, ZEND_FAST_CALL, 105,
      ZEND_EXT_STMT, ZEND_EXT_FCALL_BEGIN, ZEND_EXT_FCALL_END, ZEND_EXT_NOP, 168}"

subsection \<open>The list of executed lines\<close>

definition add_empty_element :: "'a \<Rightarrow> 'a list \<Rightarrow> 'a list" where
  "add_empty_element x xs = (if x \<in> set xs then xs else xs @ [x])"

text \<open>\<open>php_pcov_create\<close> allocates a node; it returns the node's index.\<close>

definition php_pcov_create :: "bytes \<Rightarrow> u32 \<Rightarrow> pcov \<Rightarrow> nat \<times> pcov" where
  "php_pcov_create filename ln st =
     (length (pcg_mem st),
      st\<lparr>pcg_mem := pcg_mem st @ [\<lparr>cov_file = filename, cov_line = ln, cov_next = None\<rparr>],
         pcg_waiting := add_empty_element filename (pcg_waiting st)\<rparr>)"

text \<open>The code at the label \<open>skip\<close>: the node becomes the first one, or follows the node whose
  \<open>next\<close> field \<open>PCG(next)\<close> points to.\<close>

definition link_coverage :: "nat \<Rightarrow> pcov \<Rightarrow> pcov" where
  "link_coverage coverage st =
     (case pcg_start st of
        None \<Rightarrow> st\<lparr>pcg_start := Some coverage, pcg_next := Some coverage\<rparr>
      | Some _ \<Rightarrow>
         (case pcg_next st of
            None \<Rightarrow> st\<lparr>pcg_next := Some coverage, fault := True\<rparr>
          | Some p \<Rightarrow>
              st\<lparr>pcg_mem := (pcg_mem st)[p := (pcg_mem st ! p)\<lparr>cov_next := Some coverage\<rparr>],
                 pcg_next := Some coverage\<rparr>))"

definition php_pcov_has :: "bytes \<Rightarrow> u32 \<Rightarrow> pcov \<Rightarrow> bool \<times> pcov" where
  "php_pcov_has filename ln st =
     (case pcg_covered st filename of
        None \<Rightarrow> (False, st\<lparr>pcg_covered := (pcg_covered st)(filename \<mapsto> [ln])\<rparr>)
      | Some table \<Rightarrow>
          if ln \<in> set table then (True, st)
          else (False, st\<lparr>pcg_covered := (pcg_covered st)(filename \<mapsto> table @ [ln])\<rparr>))"

subsection \<open>Tracing an instruction\<close>

definition MAX_OPCODE_POS :: u32 where
  "MAX_OPCODE_POS = 100"

text \<open>The executed file changed: \<open>None\<close> when it is not a file on disk.\<close>

definition trace_file :: "os \<Rightarrow> engine \<Rightarrow> bytes \<Rightarrow> u32 \<Rightarrow> pcov \<Rightarrow> pcov option" where
  "trace_file sys eg filename ln st =
     (if current_relative_filename st = c_str filename then Some st
      else (let st = st\<lparr>current_relative_filename := to_filename_buffer filename\<rparr>
            in case os_realpath sys (c_str filename) of
                 None \<Rightarrow> None
               | Some abspath \<Rightarrow>
                   if \<not> os_exists sys abspath then None
                   else if abspath = current_filename st then Some st
                   else (let name = to_filename_buffer abspath
                         in Some (update_backtrace_hash eg
                              (st\<lparr>current_filename := name,
                                 is_in_eval := strstr name (cs ''eval()'d''),
                                 filename_hash := MurmurHash3_x86_32 name 0,
                                 current_lineno := ln, current_opcode_pos := 0,
                                 last_coverage_hash := 0\<rparr>)))))"

text \<open>The entry of the bitmap for the instruction: from the call stack, the line and the position
  of the instruction in its line, and from the entry of the instruction before. The dump reads a
  variable before it is set, so what it does depends on what the stack holds: \<open>garbage\<close> says
  that this is not \<open>NULL\<close>.\<close>

definition record_edge :: "bool \<Rightarrow> pcov \<Rightarrow> pcov" where
  "record_edge garbage st =
     (let hash = short_hash [backtrace_hash st, current_lineno st, current_opcode_pos st];
          edge_id = drop_bit 1 hash XOR last_coverage_hash st;
          st = write_to_trace_buffer (edge_id AND bitmap_mask st) st;
          st = st\<lparr>last_coverage_hash := hash\<rparr>
      in if coverage_dump_enabled st \<and> garbage
         then dump_coverage (cs ''cov:'' @ cov_position st @ [10]) st
         else st)"

text \<open>The new line: the position in the line starts anew, and every instruction advances it up
  to its limit.\<close>

definition advance_position :: "engine \<Rightarrow> u32 \<Rightarrow> pcov \<Rightarrow> pcov" where
  "advance_position eg ln st =
     (let st = (if current_lineno st \<noteq> ln
                then update_backtrace_hash eg (st\<lparr>current_opcode_pos := 0\<rparr>) else st)
      in st\<lparr>current_opcode_pos := min MAX_OPCODE_POS (current_opcode_pos st + 1),
            current_lineno := ln\<rparr>)"

definition trace_feedback :: "os \<Rightarrow> engine \<Rightarrow> bool \<Rightarrow> bytes \<Rightarrow> u32 \<Rightarrow> u8 \<Rightarrow> pcov \<Rightarrow> pcov" where
  "trace_feedback sys eg garbage filename ln opc st =
     (case trace_file sys eg filename ln st of
        None \<Rightarrow> reset_cov_context (st\<lparr>current_relative_filename := to_filename_buffer filename\<rparr>)
      | Some st \<Rightarrow>
         (let st = advance_position eg ln st
          in if \<not> php_pcov_ignored_opcode opc \<or> coverage_dump_enabled st
             then (if test_feedback_conditions st then record_edge garbage st
                   else reset_cov_context st)
             else st))"

text \<open>\<open>php_pcov_trace\<close> up to the call of the opcode handler, for the frame that is executed.\<close>

definition trace_instruction :: "os \<Rightarrow> engine \<Rightarrow> bool \<Rightarrow> call_frame \<Rightarrow> pcov \<Rightarrow> pcov" where
  "trace_instruction sys eg garbage fr st =
     (if pcg_enabled st
      then (case fr of
              (None, _, _) \<Rightarrow> st\<lparr>fault := True\<rparr>
            | (Some f, opc, ln) \<Rightarrow>
               (let (coverage, st) = php_pcov_create (fn_filename f) ln st;
                    st = trace_feedback sys eg garbage (fn_filename f) ln opc st
                in link_coverage coverage st))
      else st)"

subsection \<open>Running\<close>

text \<open>The engine as the loop sees it: frames are pointers \<open>'p\<close>, and the opcode handler runs one
  instruction of a frame, which may call back into the extension.\<close>

record ('p, 'w) vm =
  vm_frame :: "'p \<Rightarrow> 'w \<Rightarrow> call_frame"
  vm_current :: "'w \<Rightarrow> 'p"
  vm_engine :: "'w \<Rightarrow> engine"
  vm_os :: "'w \<Rightarrow> os"
  vm_garbage :: "'w \<Rightarrow> bool"
  vm_handler :: "'p \<Rightarrow> 'w \<Rightarrow> pcov \<Rightarrow> int \<times> 'w \<times> pcov"

definition php_pcov_trace :: "('p, 'w) vm \<Rightarrow> 'p \<Rightarrow> 'w \<Rightarrow> pcov \<Rightarrow> int \<times> 'w \<times> pcov" where
  "php_pcov_trace m execute_data w st =
     vm_handler m execute_data w
       (trace_instruction (vm_os m w) (vm_engine m w) (vm_garbage m w)
         (vm_frame m execute_data w) st)"

text \<open>The loop of \<open>php_pcov_execute_ex\<close>. Without an instruction limit a script can run forever:
  the fuel bounds the instructions, and \<open>None\<close> says that it ran out.\<close>

fun execute_loop :: "nat \<Rightarrow> ('p, 'w) vm \<Rightarrow> 'p \<Rightarrow> 'w \<Rightarrow> pcov \<Rightarrow> ('w \<times> pcov) option" where
  "execute_loop 0 m execute_data w st = None"
| "execute_loop (Suc fuel) m execute_data w st =
     (case php_pcov_trace m execute_data w st of
        (zrc, w, st) \<Rightarrow>
         (let limited = 0 < execution_limit st;
              st = (if limited then st\<lparr>executed_opcodes := executed_opcodes st + 1\<rparr> else st)
          in if limited \<and> execution_limit st < executed_opcodes st
             then Some (w, reset_cov_context (emit (Create_File (cs ''/tmp/limit_reached'')) st))
             else if zrc = 0 then execute_loop fuel m execute_data w st
             else if zrc < 0 then Some (w, st)
             else execute_loop fuel m (vm_current m w) w st))"

definition php_pcov_execute_ex ::
  "nat \<Rightarrow> ('p, 'w) vm \<Rightarrow> 'p \<Rightarrow> 'w \<Rightarrow> pcov \<Rightarrow> ('w \<times> pcov) option" where
  "php_pcov_execute_ex fuel m execute_data w st =
     (if 0 < execution_limit st \<and> execution_limit st < executed_opcodes st then Some (w, st)
      else execute_loop fuel m execute_data w st)"

subsection \<open>Compiling\<close>

abbreviation (input) ZEND_ACC_HEAP_RT_CACHE :: u32 where "ZEND_ACC_HEAP_RT_CACHE \<equiv> 0x400000"

text \<open>\<open>php_pcov_compile_file\<close> after the engine's compiler gave \<open>result\<close> for the file name of the
  handle. The reference counts of the copy are not modelled.\<close>

definition php_pcov_compile_file ::
  "os \<Rightarrow> engine \<Rightarrow> bytes \<Rightarrow> php_function option \<Rightarrow> pcov \<Rightarrow> pcov" where
  "php_pcov_compile_file sys eg fh_filename result st =
     (let st =
       (case os_realpath sys (c_str fh_filename) of
          None \<Rightarrow> reset_cov_context st
        | Some abspath \<Rightarrow>
            if os_exists sys abspath
            then (let name = to_filename_buffer abspath
                  in update_backtrace_hash eg
                       (st\<lparr>current_filename := name, is_in_eval := strstr name (cs ''eval()'d''),
                          filename_hash := MurmurHash3_x86_32 name 0\<rparr>))
            else reset_cov_context st)
      in case result of
           None \<Rightarrow> st
         | Some ops \<Rightarrow>
            (case pf_filename ops of
               None \<Rightarrow> st
             | Some filename \<Rightarrow>
                (let (wanted, st) = php_pcov_wants filename st
                 in if \<not> wanted \<or> map_of (pcg_files st) filename \<noteq> None then st
                    else st\<lparr>pcg_files := pcg_files st @
                      [(filename, ops\<lparr>pf_flags := pf_flags ops AND NOT ZEND_ACC_HEAP_RT_CACHE\<rparr>)]\<rparr>)))"

end
