(* ===== verification/Pcov_Oracle.thy ===== *)
theory Pcov_Oracle
  imports Pcov_Feedback
begin

text \<open>
  The bug oracle of \<open>pcov-patched/pcov.c\<close>: which messages of the engine count as a bug, and the
  report that it appends to \<open>/tmp/bug_triggered\<close>.
\<close>

subsection \<open>The decision\<close>

text \<open>Is an environment variable set?\<close>

definition env_set :: "os \<Rightarrow> string \<Rightarrow> bool" where
  "env_set sys name \<longleftrightarrow> os_getenv sys (cs name) \<noteq> None"

text \<open>\<open>strstr(error_msg, text) != NULL\<close>\<close>

definition mentions :: "bytes \<Rightarrow> string \<Rightarrow> bool" where
  "mentions msg t = strstr msg (cs t)"

definition oracle_any_error :: "os \<Rightarrow> bytes \<Rightarrow> bool" where
  "oracle_any_error sys msg \<longleftrightarrow> env_set sys ''NYX_REPORT_ALL_ERRORS'' \<and> \<not> mentions msg ''undefined''"

definition oracle_file_open :: "bytes \<Rightarrow> bool" where
  "oracle_file_open msg \<longleftrightarrow> mentions msg ''crash'' \<and> mentions msg ''ailed'' \<and> mentions msg ''open''"

definition oracle_lfi :: "os \<Rightarrow> bytes \<Rightarrow> bool" where
  "oracle_lfi sys msg \<longleftrightarrow>
     env_set sys ''NYX_REPORT_LFI'' \<and> env_set sys ''NYX_INCLUDE_ERROR_IS_LFI'' \<and>
     mentions msg ''crash'' \<and>
     (let inclusion_error = mentions msg ''Failed opening'' \<and> mentions msg ''for inclusion'';
          opening_error = mentions msg ''failed to open stream'' \<and>
            (mentions msg ''include('' \<or> mentions msg ''require('' \<or> mentions msg ''_once('')
      in inclusion_error \<or> opening_error)"

definition oracle_syntax_error :: "os \<Rightarrow> bytes \<Rightarrow> bool" where
  "oracle_syntax_error sys msg \<longleftrightarrow> env_set sys ''NYX_REPORT_EVAL'' \<and> mentions msg ''syntax error''"

definition oracle_callback :: "os \<Rightarrow> bytes \<Rightarrow> bool" where
  "oracle_callback sys msg \<longleftrightarrow>
     env_set sys ''NYX_REPORT_EVAL'' \<and> mentions msg ''call_user_func'' \<and>
     (let not_found = mentions msg ''not found or invalid function name'' \<and> mentions msg ''crash'';
          not_valid = mentions msg ''to be a valid callback''
      in not_found \<or> not_valid)"

definition oracle_unserialize :: "os \<Rightarrow> bytes \<Rightarrow> bool" where
  "oracle_unserialize sys msg \<longleftrightarrow>
     env_set sys ''NYX_REPORT_UNSERIALIZE'' \<and> mentions msg ''unserialize'' \<and>
     mentions msg ''Error at offset''"

text \<open>The sequence of checks, each of which may overwrite the kind of bug: \<open>bug_triggered\<close> and
  \<open>bug_msg\<close> are one option.\<close>

definition oracle_verdict :: "os \<Rightarrow> bytes \<Rightarrow> bytes option \<Rightarrow> bytes option" where
  "oracle_verdict sys msg ty =
     (case ty of
        Some t \<Rightarrow> Some t
      | None \<Rightarrow>
         (let bug = (if oracle_any_error sys msg then Some (cs ''php error'') else None);
              bug = (if oracle_file_open msg then Some (cs ''arbitrary file open'') else bug);
              bug = (if oracle_lfi sys msg then Some (cs ''lfi'') else bug);
              bug = (if oracle_syntax_error sys msg then Some (cs ''eval'') else bug);
              bug = (if oracle_callback sys msg then Some (cs ''eval'') else bug)
          in if oracle_unserialize sys msg then Some (cs ''unserialize'') else bug))"

subsection \<open>The report\<close>

definition oracle_report :: "bytes \<Rightarrow> bytes \<Rightarrow> pcov \<Rightarrow> bytes" where
  "oracle_report bug msg st =
     cs ''bug oracle triggered: '' @ bug @ cs '' ('' @ current_filename st @ cs '':'' @
     fmt_d (sint (current_lineno st)) @ cs '') -> '' @ msg @ [10]"

text \<open>The static buffer for the report.\<close>

definition report_buffer_size :: nat where
  "report_buffer_size = 0x1000"

text \<open>\<open>php_pcov_bug_oracle\<close>. \<open>sprintf\<close> writes the report and a NUL into the static buffer; a
  report that does not fit is written past its end, which sets \<open>fault\<close>.\<close>

definition php_pcov_bug_oracle :: "os \<Rightarrow> bytes \<Rightarrow> bytes option \<Rightarrow> pcov \<Rightarrow> pcov" where
  "php_pcov_bug_oracle sys error_msg ty st =
     (let st = (if positive_feedback_callback st then php_pcov_positive_feedback 0xcb st else st)
      in case oracle_verdict sys error_msg ty of
           None \<Rightarrow> st
         | Some bug \<Rightarrow>
             if os_exists sys (cs ''/tmp/bug_oracle_enabled'')
             then (let report = oracle_report bug error_msg st
                   in if length report + 1 \<le> report_buffer_size
                      then emit (Append_To (cs ''/tmp/bug_triggered'') report) st
                      else st\<lparr>fault := True\<rparr>)
             else st)"

subsection \<open>What is reported\<close>

text \<open>The environment in which no class of bugs is asked for.\<close>

definition quiet_env :: "os \<Rightarrow> bool" where
  "quiet_env sys \<longleftrightarrow>
     \<not> env_set sys ''NYX_REPORT_ALL_ERRORS'' \<and> \<not> env_set sys ''NYX_REPORT_LFI'' \<and>
     \<not> env_set sys ''NYX_REPORT_EVAL'' \<and> \<not> env_set sys ''NYX_REPORT_UNSERIALIZE''"

lemma oracle_quiet:
  "quiet_env sys \<Longrightarrow> oracle_verdict sys msg None =
     (if oracle_file_open msg then Some (cs ''arbitrary file open'') else None)"
  by (simp add: oracle_verdict_def quiet_env_def oracle_any_error_def oracle_lfi_def
      oracle_syntax_error_def oracle_callback_def oracle_unserialize_def)

end
