(* ===== verification/Pcov_Report.thy ===== *)
theory Pcov_Report
  imports Pcov_Trace
begin

text \<open>
  The reports of \<open>pcov-patched/pcov.c\<close>: the lines of a file that can be executed, found in the
  control flow graphs of its functions, and those of them that were, with the PHP functions
  \<open>\pcov\start\<close>, \<open>stop\<close>, \<open>collect\<close>, \<open>clear\<close> and \<open>waiting\<close>. An array of PHP is a map;
  where the code runs through one, it is an association list in the order of insertion.
\<close>

definition PHP_PCOV_UNCOVERED :: int where
  "PHP_PCOV_UNCOVERED = -1"

definition PHP_PCOV_COVERED :: int where
  "PHP_PCOV_COVERED = 1"

subsection \<open>Lines that can be executed\<close>

text \<open>The loop over the instructions of a block from \<open>opline\<close> to \<open>end\<close>; \<open>n\<close> bounds the rounds.
  It returns the table and where it stopped. The access behind a \<open>ZEND_NEW\<close> can leave the
  array.\<close>

fun discover_ops :: "nat \<Rightarrow> bool \<Rightarrow> zend_op list \<Rightarrow> nat \<Rightarrow> nat \<Rightarrow> line_table \<Rightarrow>
    (line_table \<times> nat) option" where
  "discover_ops 0 dump ops opline fin table = Some (table, opline)"
| "discover_ops (Suc n) dump ops opline fin table =
     (if opline < fin
      then do { op \<leftarrow> nth_opt ops opline;
        if \<not> dump \<and> php_pcov_ignored_opcode (opcode op)
        then discover_ops n dump ops (opline + 1) fin table
        else do {
          let table = (case table (lineno op) of
                         None \<Rightarrow> table(lineno op \<mapsto> PHP_PCOV_UNCOVERED) | Some _ \<Rightarrow> table);
          skip \<leftarrow> (if opcode op = ZEND_NEW
                  then do { op' \<leftarrow> nth_opt ops (opline + 1); Some (opcode op' = ZEND_DO_FCALL) }
                  else Some False);
          discover_ops n dump ops (if skip then opline + 2 else opline + 1) fin table } }
      else Some (table, opline))"

text \<open>The loop over the blocks, with the number of the next one.\<close>

fun discover_blocks :: "bool \<Rightarrow> zend_op list \<Rightarrow> nat \<Rightarrow> zend_basic_block list \<Rightarrow> line_table \<Rightarrow>
    line_table option" where
  "discover_blocks dump ops i [] table = Some table"
| "discover_blocks dump ops i (b # bs) table =
     (if \<not> reachable_flag b then discover_blocks dump ops (i + 1) bs table
      else do { let fin = unat (start b) + unat (len b);
                (table, opline) \<leftarrow> discover_ops (unat (len b)) dump ops (unat (start b)) fin table;
                if i = 0 \<and> opline = length ops then Some table
                else discover_blocks dump ops (i + 1) bs table })"

text \<open>\<open>php_pcov_discover_code\<close>: abstract methods have no code. The graph builder may move the
  start of a try block in the function's try/catch array, so the function is returned with
  it.\<close>

definition php_pcov_discover_code :: "(string \<Rightarrow> bool) \<Rightarrow> bool \<Rightarrow> php_function \<Rightarrow> line_table \<Rightarrow>
    (php_function \<times> line_table) option" where
  "php_pcov_discover_code is_internal dump f table =
     (if bits_set (pf_flags f) ZEND_ACC_ABSTRACT then Some (f, table)
      else do { (oa, cfg) \<leftarrow> zend_build_cfg is_internal ZEND_RT_CONSTANTS (pf_ops f);
                table \<leftarrow> discover_blocks dump (opcodes oa) 0 (blocks cfg) table;
                Some (f\<lparr>pf_ops := oa\<rparr>, table) })"

text \<open>The user functions of a list that come from a file, in their order.\<close>

fun discover_functions :: "(string \<Rightarrow> bool) \<Rightarrow> bool \<Rightarrow> bytes \<Rightarrow> php_function list \<Rightarrow> line_table \<Rightarrow>
    line_table option" where
  "discover_functions is_internal dump file [] table = Some table"
| "discover_functions is_internal dump file (f # fs) table =
     (if pf_type f = ZEND_USER_FUNCTION \<and> pf_filename f = Some file
      then do { (f, table) \<leftarrow> php_pcov_discover_code is_internal dump f table;
                discover_functions is_internal dump file fs table }
      else discover_functions is_internal dump file fs table)"

text \<open>The class table, as a list of the method lists of the user classes, and the function
  table of the engine.\<close>

record tables =
  tab_internal :: "string \<Rightarrow> bool"
  tab_classes :: "(bool \<times> php_function list) list"
  tab_functions :: "php_function list"

definition discover_file_table :: "tables \<Rightarrow> bool \<Rightarrow> bytes \<Rightarrow> php_function \<Rightarrow> line_table option" where
  "discover_file_table tabs dump file ops =
     do { (_, table) \<leftarrow> php_pcov_discover_code (tab_internal tabs) dump ops Map.empty;
          table \<leftarrow> discover_functions (tab_internal tabs) dump file
                     (concat (map snd (filter fst (tab_classes tabs)))) table;
          discover_functions (tab_internal tabs) dump file (tab_functions tabs) table }"

text \<open>\<open>php_pcov_discover_file\<close>, which keeps what it found. \<open>None\<close> says that the graph builder
  failed.\<close>

definition php_pcov_discover_file :: "tables \<Rightarrow> bytes \<Rightarrow> pcov \<times> file_table \<Rightarrow>
    (pcov \<times> file_table) option" where
  "php_pcov_discover_file tabs file = (\<lambda>(st, ret).
     (case pcg_discovered st file of
        Some cache \<Rightarrow> Some (st, ret(file \<mapsto> cache))
      | None \<Rightarrow>
         (case map_of (pcg_files st) file of
            None \<Rightarrow> Some (st, ret)
          | Some ops \<Rightarrow>
              do { discovered \<leftarrow> discover_file_table tabs (coverage_dump_enabled st) file ops;
                   Some (st\<lparr>pcg_discovered := (pcg_discovered st)(file \<mapsto> discovered)\<rparr>,
                         ret(file \<mapsto> discovered)) })))"

fun discover_files :: "tables \<Rightarrow> bytes list \<Rightarrow> pcov \<times> file_table \<Rightarrow>
    (pcov \<times> file_table) option" where
  "discover_files tabs [] s = Some s"
| "discover_files tabs (f # fs) s =
     do { s \<leftarrow> php_pcov_discover_file tabs f s; discover_files tabs fs s }"

subsection \<open>Lines that were executed\<close>

text \<open>Marking one executed line in the report.\<close>

definition report_hit :: "php_coverage \<Rightarrow> file_table \<Rightarrow> file_table" where
  "report_hit c report =
     (case report (cov_file c) of
        None \<Rightarrow> report
      | Some table \<Rightarrow>
         (case table (cov_line c) of
            None \<Rightarrow> report
          | Some _ \<Rightarrow> report(cov_file c \<mapsto> table(cov_line c \<mapsto> PHP_PCOV_COVERED))))"

text \<open>\<open>php_pcov_report\<close> follows the list from a node; the fuel bounds its length, and a pointer
  out of the arena is \<open>None\<close>.\<close>

fun report_from :: "nat \<Rightarrow> php_coverage list \<Rightarrow> nat option \<Rightarrow> file_table \<Rightarrow> file_table option" where
  "report_from fuel mem None report = Some report"
| "report_from 0 mem (Some p) report = None"
| "report_from (Suc fuel) mem (Some p) report =
     (if p < length mem then report_from fuel mem (cov_next (mem ! p)) (report_hit (mem ! p) report)
      else None)"

definition php_pcov_report :: "php_coverage list \<Rightarrow> nat option \<Rightarrow> file_table \<Rightarrow> file_table option" where
  "php_pcov_report mem coverage report = report_from (length mem) mem coverage report"

subsection \<open>The PHP functions\<close>

definition php_pcov_start :: "pcov \<Rightarrow> pcov" where
  "php_pcov_start st = (if ini_enabled st then st\<lparr>pcg_enabled := True\<rparr> else st)"

definition php_pcov_stop :: "pcov \<Rightarrow> pcov" where
  "php_pcov_stop st = (if ini_enabled st then st\<lparr>pcg_enabled := False\<rparr> else st)"

definition php_pcov_clear :: "bool \<Rightarrow> pcov \<Rightarrow> pcov" where
  "php_pcov_clear files st =
     (if ini_enabled st
      then (let st = (if files then st\<lparr>pcg_files := [], pcg_discovered := Map.empty\<rparr> else st)
            in st\<lparr>pcg_mem := [], pcg_start := None, pcg_last := None, pcg_next := None,
                  pcg_waiting := [], pcg_covered := Map.empty\<rparr>)
      else st)"

definition php_pcov_waiting :: "pcov \<Rightarrow> bytes list option" where
  "php_pcov_waiting st = (if ini_enabled st then Some (pcg_waiting st) else None)"

text \<open>What \<open>collect\<close> gives back: \<open>null\<close> when the extension is off, a type error for an unknown
  type, or the report. An element of the given array that is no string is \<open>None\<close>. Without the
  array the inclusive report reads through a \<open>NULL\<close> pointer; that, and a failure of the graph
  builder, make the result \<open>None\<close>.\<close>

datatype collect_result = Null_Result | Type_Error | Report file_table

abbreviation (input) PCOV_FILTER_ALL :: int where "PCOV_FILTER_ALL \<equiv> 0"
abbreviation (input) PCOV_FILTER_INCLUDE :: int where "PCOV_FILTER_INCLUDE \<equiv> 1"

fun strings_of :: "bytes option list \<Rightarrow> bytes list" where
  "strings_of [] = []"
| "strings_of (None # xs) = strings_of xs"
| "strings_of (Some s # xs) = s # strings_of xs"

definition php_pcov_collect :: "tables \<Rightarrow> int \<Rightarrow> bytes option list option \<Rightarrow> pcov \<Rightarrow>
    (collect_result \<times> pcov) option" where
  "php_pcov_collect tabs ty given st =
     (if \<not> ini_enabled st then Some (Null_Result, st)
      else if ty \<noteq> PCOV_FILTER_ALL \<and> ty \<noteq> PCOV_FILTER_INCLUDE then Some (Type_Error, st)
      else if pcg_last st = pcg_next st then Some (Report Map.empty, st)
      else do { let st = st\<lparr>pcg_last := pcg_next st\<rparr>;
                names \<leftarrow> (if ty = PCOV_FILTER_INCLUDE then map_option strings_of given
                         else Some (map fst (pcg_files st)));
                (st, ret) \<leftarrow> discover_files tabs names (st, Map.empty);
                ret \<leftarrow> php_pcov_report (pcg_mem st) (pcg_start st) ret;
                Some (Report ret, st) })"

end
