(* ===== verification/Pcov_Module.thy ===== *)
theory Pcov_Module
  imports Pcov_Oracle Pcov_Report Hashmap
begin

text \<open>
  The life of the extension \<open>pcov-patched/pcov.c\<close>: what happens when the module and a request
  start and end, and the whole as a state machine whose steps are the engine's calls.
\<close>

subsection \<open>Module start and end\<close>

text \<open>The maps for sent strings and lines are created and then not used any more; each creation
  can fail, which is only printed.\<close>

definition minit_maps :: "(u32 \<Rightarrow> bool) \<Rightarrow> (int \<times> hashmap_s) list" where
  "minit_maps calloc = replicate 3 (hashmap_create calloc 8192)"

text \<open>\<open>PHP_MINIT_FUNCTION\<close>. \<open>shmat\<close> gives the bytes that can be accessed in a shared memory
  segment; there are none when it fails, since its result \<open>(void*) -1\<close> is not checked. The second
  component is the return value, which is not set when the extension is off.\<close>

definition pcov_minit :: "os \<Rightarrow> (int \<Rightarrow> bytes) \<Rightarrow> pcov \<Rightarrow> pcov \<times> int option" where
  "pcov_minit sys shmat st =
     (let st = reset_cov_context st;
          st = (case os_getenv sys (cs ''SHM_ID'') of
                  None \<Rightarrow> st | Some v \<Rightarrow> st\<lparr>trace_buffer := Some (shmat (atoi v))\<rparr>);
          st = (case os_getenv sys (cs ''BITMAP_SIZE'') of
                  None \<Rightarrow> st
                | Some v \<Rightarrow> st\<lparr>bitmap_size := word_of_int (atoi v),
                              bitmap_mask := word_of_int (atoi v) - 1\<rparr>)
      in if ini_enabled st
         then ((enable_custom_feedback_functions (st\<lparr>execute_ex_hooked := True\<rparr>))\<lparr>pcg_enabled := True\<rparr>,
               Some 0)
         else (st, None))"

definition pcov_mshutdown :: "pcov \<Rightarrow> pcov" where
  "pcov_mshutdown st =
     (let st = reset_cov_context (disable_custom_feedback_functions st)
      in if ini_enabled st then st\<lparr>execute_ex_hooked := False\<rparr> else st)"

subsection \<open>Request start and end\<close>

definition php_pcov_directory_defaults :: "bytes list" where
  "php_pcov_directory_defaults = [cs ''src'', cs ''lib'', cs ''app'', cs ''.'']"

text \<open>The path of a directory that exists.\<close>

definition resolve_directory :: "os \<Rightarrow> bytes \<Rightarrow> bytes option" where
  "resolve_directory sys d =
     (case os_realpath sys d of None \<Rightarrow> None | Some r \<Rightarrow> if os_exists sys r then Some r else None)"

fun try_directories :: "os \<Rightarrow> bytes list \<Rightarrow> bytes option" where
  "try_directories sys [] = None"
| "try_directories sys (d # ds) =
     (case resolve_directory sys d of Some r \<Rightarrow> Some r | None \<Rightarrow> try_directories sys ds)"

text \<open>The setting \<open>directory\<close> is \<open>None\<close> for \<open>NULL\<close>; \<open>strlen\<close> of \<open>NULL\<close> is a fault.\<close>

definition php_pcov_setup_directory :: "os \<Rightarrow> bytes option \<Rightarrow> pcov \<Rightarrow> pcov" where
  "php_pcov_setup_directory sys directory st =
     (let chosen =
        (if directory = None \<or> directory = Some []
         then (case try_directories sys php_pcov_directory_defaults of
                 Some r \<Rightarrow> Some r | None \<Rightarrow> directory)
         else (case resolve_directory sys (the directory) of
                 Some r \<Rightarrow> Some r | None \<Rightarrow> directory))
      in case chosen of None \<Rightarrow> st\<lparr>fault := True\<rparr> | Some d \<Rightarrow> st\<lparr>pcg_directory := Some d\<rparr>)"

text \<open>The number at the start of a control file: the first 100 bytes are read into an
  uninitialised buffer, and \<open>junk\<close> is what memory holds behind them. Reading a file that cannot
  be opened is a fault.\<close>

definition read_number :: "os \<Rightarrow> bytes \<Rightarrow> string \<Rightarrow> int option" where
  "read_number sys junk path =
     map_option (\<lambda>content. atoi (c_str (take 100 content @ junk))) (os_read sys (cs path))"

definition rinit_redqueen :: "os \<Rightarrow> bytes \<Rightarrow> pcov \<Rightarrow> pcov" where
  "rinit_redqueen sys junk st =
     (if os_exists sys (cs ''/tmp/redqueen_mode_enabled'')
      then (let st = st\<lparr>redqueen_mode_enabled := True\<rparr>
            in case read_number sys junk ''/tmp/redqueen_mode_enabled'' of
                 None \<Rightarrow> st\<lparr>fault := True\<rparr> | Some n \<Rightarrow> st\<lparr>pinned_core := n\<rparr>)
      else st\<lparr>redqueen_mode_enabled := False\<rparr>)"

definition rinit_coverage_dump :: "os \<Rightarrow> bytes \<Rightarrow> pcov \<Rightarrow> pcov" where
  "rinit_coverage_dump sys junk st =
     (if os_exists sys (cs ''/tmp/coverage_dump_enabled'')
      then (let st = st\<lparr>coverage_dump_enabled := True\<rparr>
            in case read_number sys junk ''/tmp/coverage_dump_enabled'' of
                 None \<Rightarrow> st\<lparr>fault := True\<rparr> | Some n \<Rightarrow> st\<lparr>pinned_core := n\<rparr>)
      else st\<lparr>coverage_dump_enabled := False\<rparr>)"

definition rinit_execution_limit :: "os \<Rightarrow> bytes \<Rightarrow> pcov \<Rightarrow> pcov" where
  "rinit_execution_limit sys junk st =
     (if os_exists sys (cs ''/tmp/execution_limit'')
      then (case read_number sys junk ''/tmp/execution_limit'' of
              None \<Rightarrow> st\<lparr>fault := True\<rparr> | Some n \<Rightarrow> st\<lparr>execution_limit := word_of_int n\<rparr>)
      else st)"

text \<open>\<open>PHP_RINIT_FUNCTION\<close>, with the setting \<open>pcov.directory\<close>.\<close>

definition pcov_rinit :: "os \<Rightarrow> bytes \<Rightarrow> bytes option \<Rightarrow> pcov \<Rightarrow> pcov" where
  "pcov_rinit sys junk directory st =
     (let st = reset_cov_context st
      in if \<not> ini_enabled st then st
         else (let st = enable_custom_feedback_functions st;
                   st = st\<lparr>pcg_mem := [], pcg_files := [], pcg_waiting := [], pcg_wants := [],
                           pcg_discovered := Map.empty, pcg_covered := Map.empty\<rparr>;
                   st = php_pcov_setup_directory sys directory st;
                   st = st\<lparr>compile_file_hooked := True\<rparr>;
                   st = rinit_execution_limit sys junk (rinit_coverage_dump sys junk
                          (rinit_redqueen sys junk st))
               in st\<lparr>pcg_start := None, pcg_last := None, pcg_next := None\<rparr>))"

definition pcov_rshutdown :: "pcov \<Rightarrow> pcov" where
  "pcov_rshutdown st =
     (disable_custom_feedback_functions (reset_cov_context st))\<lparr>compile_file_hooked := False\<rparr>"

subsection \<open>The state machine\<close>

text \<open>The engine hands strings over with a length that their memory has, as a C \<open>int\<close>.\<close>

definition c_arg :: "bytes \<Rightarrow> int \<Rightarrow> bool" where
  "c_arg s n \<longleftrightarrow> 0 \<le> n \<and> n \<le> int (length s) \<and> n < 2 ^ 31"

text \<open>One call of the engine into the extension. The control files of a request can be read
  when they exist, a directory setting is given, and the report of a bug fits into its buffer.\<close>

inductive pcov_step :: "pcov \<Rightarrow> pcov \<Rightarrow> bool" where
  step_trace: "pcov_step st (trace_instruction sys eg garbage (Some f, opc, ln) st)"
| step_limit: "pcov_step st (st\<lparr>executed_opcodes := executed_opcodes st + 1\<rparr>)"
| step_limit_reached: "pcov_step st (reset_cov_context (emit (Create_File name) st))"
| step_compile: "pcov_step st (php_pcov_compile_file sys eg fh result st)"
| step_equal: "c_arg s1 n1 \<Longrightarrow> c_arg s2 n2 \<Longrightarrow> pcov_step st (php_pcov_string_equal_val s1 n1 s2 n2 st)"
| step_array: "c_arg s n \<Longrightarrow> pcov_step st (php_pcov_array_access s n st)"
| step_redqueen: "c_arg s n \<Longrightarrow> pcov_step st (php_pcov_redqueen s n ty st)"
| step_preg_match: "c_arg s1 n1 \<Longrightarrow> c_arg s2 n2 \<Longrightarrow> pcov_step st (php_pcov_redqueen_preg_match s1 n1 s2 n2 st)"
| step_positive: "pcov_step st (php_pcov_positive_feedback n st)"
| step_oracle: "(\<forall>bug. oracle_verdict sys msg ty = Some bug \<longrightarrow>
      length (oracle_report bug msg st) < report_buffer_size) \<Longrightarrow>
    pcov_step st (php_pcov_bug_oracle sys msg ty st)"
| step_start: "pcov_step st (php_pcov_start st)"
| step_stop: "pcov_step st (php_pcov_stop st)"
| step_clear: "pcov_step st (php_pcov_clear files st)"
| step_collect: "php_pcov_collect tabs ty given st = Some (res, st') \<Longrightarrow> pcov_step st st'"
| step_rinit: "(\<And>path. os_exists sys path \<Longrightarrow> os_read sys path \<noteq> None) \<Longrightarrow>
    pcov_step st (pcov_rinit sys junk (Some directory) st)"
| step_rshutdown: "pcov_step st (pcov_rshutdown st)"

text \<open>The states after the module has started with a bitmap of the size that it is told.\<close>

inductive pcov_reachable :: "pcov \<Rightarrow> bool" where
  reach_minit: "st = fst (pcov_minit sys shmat (pcov_initial\<lparr>ini_enabled := b\<rparr>)) \<Longrightarrow>
     (\<And>buf. trace_buffer st = Some buf \<Longrightarrow>
        bitmap_size st \<noteq> 0 \<and> unat (bitmap_size st) \<le> length buf) \<Longrightarrow>
     pcov_reachable st"
| reach_step: "pcov_reachable st \<Longrightarrow> pcov_step st st' \<Longrightarrow> pcov_reachable st'"

end
