(* ===== verification/Pcov_Safety.thy ===== *)
theory Pcov_Safety
  imports Pcov_Module Pcov_Redqueen
begin

text \<open>
  Invariants of the extension's states: accesses to the shared bitmap stay inside it, the list of
  executed lines is one chain through the whole arena, and no call of the engine makes a memory
  fault as long as the strings it hands over have their lengths and bug reports fit.
\<close>

subsection \<open>The bitmap\<close>

definition bitmap_ok :: "pcov \<Rightarrow> bool" where
  "bitmap_ok st \<longleftrightarrow> bitmap_mask st = bitmap_size st - 1 \<and>
     (\<forall>buf. trace_buffer st = Some buf \<longrightarrow> bitmap_size st \<noteq> 0 \<and> unat (bitmap_size st) \<le> length buf)"

lemma masked_index:
  assumes "bitmap_ok st" "trace_buffer st = Some buf"
  shows "unat (h AND bitmap_mask st) < length buf"
proof -
  have "h AND bitmap_mask st \<le> bitmap_mask st" by (rule word_and_le1)
  then have "unat (h AND bitmap_mask st) \<le> unat (bitmap_size st - 1)"
    using assms(1) by (simp add: bitmap_ok_def word_le_nat_alt)
  moreover have "unat (bitmap_size st - 1) < unat (bitmap_size st)"
    using assms by (intro measure_unat) (simp add: bitmap_ok_def)
  moreover have "unat (bitmap_size st) \<le> length buf" using assms by (simp add: bitmap_ok_def)
  ultimately show ?thesis by linarith
qed

text \<open>Setting an entry of the bitmap, when there is one.\<close>

definition set_entry :: "u32 \<Rightarrow> pcov \<Rightarrow> pcov" where
  "set_entry i st = st\<lparr>trace_buffer := map_option (\<lambda>buf. buf[unat i := 1]) (trace_buffer st)\<rparr>"

lemma set_entry_id: "trace_buffer st = None \<Longrightarrow> set_entry i st = st"
  by (simp add: set_entry_def)

lemma write_masked:
  assumes "bitmap_ok st"
  shows "write_to_trace_buffer (h AND bitmap_mask st) st = set_entry (h AND bitmap_mask st) st"
proof (cases "trace_buffer st")
  case None
  then show ?thesis by (simp add: write_to_trace_buffer_def set_entry_id)
next
  case (Some buf)
  then show ?thesis using masked_index [OF assms Some, of h]
    by (simp add: write_to_trace_buffer_def set_entry_def)
qed

lemma read_masked:
  assumes "bitmap_ok st"
  shows "snd (read_from_trace_buffer (h AND bitmap_mask st) st) = st"
proof (cases "trace_buffer st")
  case None
  then show ?thesis by (simp add: read_from_trace_buffer_def)
next
  case (Some buf)
  then show ?thesis using masked_index [OF assms Some, of h]
    by (simp add: read_from_trace_buffer_def)
qed

lemma mark_bitmap_masked:
  assumes "bitmap_ok st"
  shows "snd (mark_bitmap h st) =
    (if test_feedback_conditions st then set_entry (h AND bitmap_mask st) st else st)"
  using read_masked [OF assms, of h]
  by (simp add: mark_bitmap_def case_prod_unfold Let_def write_masked [OF assms])

subsection \<open>The chain of executed lines\<close>

definition chain_ok :: "php_coverage list \<Rightarrow> nat option \<Rightarrow> nat option \<Rightarrow> bool" where
  "chain_ok mem st nx \<longleftrightarrow>
     (\<forall>i<length mem. cov_next (mem ! i) = (if Suc i < length mem then Some (Suc i) else None)) \<and>
     st = (if mem = [] then None else Some 0) \<and>
     nx = (if mem = [] then None else Some (length mem - 1))"

subsection \<open>The invariant\<close>

text \<open>The condition \<open>C\<close> on the list is a parameter, since the list is not a chain while a new node
  is not linked yet.\<close>

definition pcov_inv :: "(php_coverage list \<Rightarrow> nat option \<Rightarrow> nat option \<Rightarrow> bool) \<Rightarrow> pcov \<Rightarrow> bool" where
  "pcov_inv C st \<longleftrightarrow> \<not> fault st \<and> bitmap_ok st \<and> C (pcg_mem st) (pcg_start st) (pcg_next st) \<and>
     current_opcode_pos st \<le> MAX_OPCODE_POS \<and>
     length (current_filename st) \<le> PATH_MAX \<and> length (current_relative_filename st) \<le> PATH_MAX"

lemma pcov_invD:
  assumes "pcov_inv C st"
  shows "\<not> fault st" "bitmap_ok st" "C (pcg_mem st) (pcg_start st) (pcg_next st)"
  using assms by (simp_all add: pcov_inv_def)

named_theorems pcov_frame \<open>the invariant does not look at a field\<close>

lemma inv_outputs [pcov_frame]: "pcov_inv C (st\<lparr>outputs := x\<rparr>) = pcov_inv C st"
  and inv_dump_obj [pcov_frame]: "pcov_inv C (st\<lparr>dump_file_obj := y\<rparr>) = pcov_inv C st"
  and inv_cov_obj [pcov_frame]: "pcov_inv C (st\<lparr>cov_file_obj := y\<rparr>) = pcov_inv C st"
  and inv_edge [pcov_frame]: "pcov_inv C (st\<lparr>last_coverage_hash := h\<rparr>) = pcov_inv C st"
  and inv_backtrace [pcov_frame]: "pcov_inv C (st\<lparr>backtrace_hash := h\<rparr>) = pcov_inv C st"
  and inv_filename_hash [pcov_frame]: "pcov_inv C (st\<lparr>filename_hash := h\<rparr>) = pcov_inv C st"
  and inv_lineno [pcov_frame]: "pcov_inv C (st\<lparr>current_lineno := h\<rparr>) = pcov_inv C st"
  and inv_eval [pcov_frame]: "pcov_inv C (st\<lparr>is_in_eval := b\<rparr>) = pcov_inv C st"
  and inv_wants [pcov_frame]: "pcov_inv C (st\<lparr>pcg_wants := ws\<rparr>) = pcov_inv C st"
  and inv_files [pcov_frame]: "pcov_inv C (st\<lparr>pcg_files := fs\<rparr>) = pcov_inv C st"
  and inv_discovered [pcov_frame]: "pcov_inv C (st\<lparr>pcg_discovered := d\<rparr>) = pcov_inv C st"
  and inv_last [pcov_frame]: "pcov_inv C (st\<lparr>pcg_last := p\<rparr>) = pcov_inv C st"
  and inv_enabled [pcov_frame]: "pcov_inv C (st\<lparr>pcg_enabled := b\<rparr>) = pcov_inv C st"
  and inv_executed [pcov_frame]: "pcov_inv C (st\<lparr>executed_opcodes := h\<rparr>) = pcov_inv C st"
  by (simp_all add: pcov_inv_def bitmap_ok_def)

lemma inv_set_entry: "pcov_inv C st \<Longrightarrow> pcov_inv C (set_entry i st)"
  by (auto simp: pcov_inv_def bitmap_ok_def set_entry_def)

lemma inv_emit: "pcov_inv C st \<Longrightarrow> pcov_inv C (emit x st)"
  by (simp add: emit_def pcov_frame)

lemma inv_reset: "pcov_inv C st \<Longrightarrow> pcov_inv C (reset_cov_context st)"
  by (simp add: pcov_inv_def reset_cov_context_def bitmap_ok_def MAX_OPCODE_POS_def)

lemma inv_enable: "pcov_inv C st \<Longrightarrow> pcov_inv C (enable_custom_feedback_functions st)"
  by (simp add: pcov_inv_def enable_custom_feedback_functions_def bitmap_ok_def)

lemma inv_disable: "pcov_inv C st \<Longrightarrow> pcov_inv C (disable_custom_feedback_functions st)"
  by (simp add: pcov_inv_def disable_custom_feedback_functions_def bitmap_ok_def)

subsection \<open>Dumps and feedback\<close>

lemma inv_dump_payload: "pcov_inv C st \<Longrightarrow> pcov_inv C (dump_payload buf name st)"
  by (auto simp: dump_payload_def Let_def emit_def pcov_frame split: option.splits)

lemma inv_cov_dump_payload: "pcov_inv C st \<Longrightarrow> pcov_inv C (cov_dump_payload buf name st)"
  by (auto simp: cov_dump_payload_def Let_def emit_def pcov_frame split: option.splits)

lemma inv_dump_coverage: "pcov_inv C st \<Longrightarrow> pcov_inv C (dump_coverage buf st)"
  by (simp add: dump_coverage_def inv_cov_dump_payload)

lemma inv_mark_bitmap: "pcov_inv C st \<Longrightarrow> pcov_inv C (snd (mark_bitmap h st))"
  by (simp add: mark_bitmap_masked pcov_invD(2) inv_set_entry)

lemma inv_positive_feedback: "pcov_inv C st \<Longrightarrow> pcov_inv C (php_pcov_positive_feedback n st)"
  by (simp add: php_pcov_positive_feedback_def Let_def case_prod_unfold inv_mark_bitmap inv_dump_coverage)

lemma inv_array_access: "pcov_inv C st \<Longrightarrow> pcov_inv C (php_pcov_array_access s n st)"
  by (simp add: php_pcov_array_access_def Let_def case_prod_unfold inv_mark_bitmap inv_dump_coverage)

lemma inv_redqueen:
  assumes "pcov_inv C st" "c_arg s n"
  shows "pcov_inv C (php_pcov_redqueen s n ty st)"
proof (cases "n \<le> 1000")
  case True
  have "0 \<le> n" "nat n \<le> length s" using assms(2) by (auto simp: c_arg_def)
  then show ?thesis using single_record [OF _ True, of s ty] assms(1)
    by (simp add: php_pcov_redqueen_def dump_redqueen_payload_def inv_dump_payload)
next
  case False
  then have "n mod 2 ^ 64 > 1000" using assms(2) by (simp add: c_arg_def)
  then show ?thesis using assms(1) by (simp add: php_pcov_redqueen_def dump_redqueen_payload_def)
qed

lemma inv_pair:
  assumes "c_arg s1 n1" "c_arg s2 n2" "n1 + n2 \<le> 1000"
  shows "\<exists>buf. pair_record ty s1 n1 s2 n2 = Some buf"
  using assms by (subst pair_record_eq) (auto simp: c_arg_def)

lemma inv_unmatched:
  "pcov_inv C st \<Longrightarrow> c_arg s1 n1 \<Longrightarrow> c_arg s2 n2 \<Longrightarrow> pcov_inv C (php_pcov_redqueen_unmatched s1 n1 s2 n2 st)"
  using inv_pair [of s1 n1 s2 n2 2]
  by (auto simp: php_pcov_redqueen_unmatched_def inv_dump_payload)

lemma inv_preg_match:
  "pcov_inv C st \<Longrightarrow> c_arg s1 n1 \<Longrightarrow> c_arg s2 n2 \<Longrightarrow> pcov_inv C (php_pcov_redqueen_preg_match s1 n1 s2 n2 st)"
  using inv_pair [of s1 n1 s2 n2 3]
  by (auto simp: php_pcov_redqueen_preg_match_def inv_dump_payload)

lemma inv_string_equal_val:
  assumes "pcov_inv C st" "c_arg s1 n1" "c_arg s2 n2"
  shows "pcov_inv C (php_pcov_string_equal_val s1 n1 s2 n2 st)"
proof -
  define st1 where "st1 = php_pcov_redqueen s2 n2 0 (php_pcov_redqueen s1 n1 0 st)"
  define st2 where "st2 = (if n1 > 0 \<and> n2 > 0 then php_pcov_positive_feedback 0xee st1 else st1)"
  have "pcov_inv C st2" using assms by (simp add: st2_def st1_def inv_redqueen inv_positive_feedback)
  then show ?thesis
    unfolding php_pcov_string_equal_val_def Let_def case_prod_unfold st1_def [symmetric]
      st2_def [symmetric]
    using assms by (simp add: inv_mark_bitmap inv_dump_coverage inv_unmatched)
qed

text \<open>The position that a report names is not changed by the feedback.\<close>

lemma dump_coverage_position [simp]:
  "current_filename (dump_coverage buf st) = current_filename st"
  "current_lineno (dump_coverage buf st) = current_lineno st"
  by (auto simp: dump_coverage_def cov_dump_payload_def emit_def Let_def split: option.splits)

lemma mark_bitmap_position [simp]:
  "current_filename (snd (mark_bitmap h st)) = current_filename st"
  "current_lineno (snd (mark_bitmap h st)) = current_lineno st"
  by (auto simp: mark_bitmap_def read_from_trace_buffer_def write_to_trace_buffer_def Let_def
      split: option.splits)

lemma positive_feedback_position [simp]:
  "current_filename (php_pcov_positive_feedback n st) = current_filename st"
  "current_lineno (php_pcov_positive_feedback n st) = current_lineno st"
  by (simp_all add: php_pcov_positive_feedback_def Let_def case_prod_unfold)

lemma inv_bug_oracle:
  assumes "pcov_inv C st"
    and fits: "\<forall>bug. oracle_verdict sys msg ty = Some bug \<longrightarrow>
      length (oracle_report bug msg st) < report_buffer_size"
  shows "pcov_inv C (php_pcov_bug_oracle sys msg ty st)"
proof -
  define st1 where "st1 = (if positive_feedback_callback st then php_pcov_positive_feedback 0xcb st else st)"
  have inv: "pcov_inv C st1" using assms(1) by (simp add: st1_def inv_positive_feedback)
  have same: "oracle_report bug msg st1 = oracle_report bug msg st" for bug
    by (simp add: oracle_report_def st1_def)
  show ?thesis
  proof (cases "oracle_verdict sys msg ty")
    case None
    then show ?thesis using inv by (simp add: php_pcov_bug_oracle_def Let_def flip: st1_def)
  next
    case (Some bug)
    then have "Suc (length (oracle_report bug msg st1)) \<le> report_buffer_size"
      using fits same by (simp add: Suc_le_eq)
    then show ?thesis using inv Some
      by (simp add: php_pcov_bug_oracle_def Let_def inv_emit flip: st1_def)
  qed
qed

subsection \<open>Tracing\<close>

lemma filename_buffer_le [simp]: "length (to_filename_buffer s) \<le> PATH_MAX"
  by (rule length_to_filename_buffer)

lemma inv_filename: "pcov_inv C st \<Longrightarrow> length name \<le> PATH_MAX \<Longrightarrow> pcov_inv C (st\<lparr>current_filename := name\<rparr>)"
  by (simp add: pcov_inv_def bitmap_ok_def)

lemma inv_relative:
  "pcov_inv C st \<Longrightarrow> length name \<le> PATH_MAX \<Longrightarrow> pcov_inv C (st\<lparr>current_relative_filename := name\<rparr>)"
  by (simp add: pcov_inv_def bitmap_ok_def)

lemma inv_position: "pcov_inv C st \<Longrightarrow> n \<le> MAX_OPCODE_POS \<Longrightarrow> pcov_inv C (st\<lparr>current_opcode_pos := n\<rparr>)"
  by (simp add: pcov_inv_def bitmap_ok_def)

lemma inv_backtrace_hash: "pcov_inv C st \<Longrightarrow> pcov_inv C (update_backtrace_hash eg st)"
  by (simp add: update_backtrace_hash_def Let_def pcov_frame)

lemma inv_trace_file:
  assumes "pcov_inv C st" "trace_file sys eg f ln st = Some st'"
  shows "pcov_inv C st'"
  using assms
  by (auto simp: trace_file_def Let_def pcov_frame inv_backtrace_hash inv_filename inv_relative
      inv_position split: if_splits option.splits)

lemma inv_advance: "pcov_inv C st \<Longrightarrow> pcov_inv C (advance_position eg ln st)"
  by (simp add: advance_position_def Let_def pcov_frame inv_backtrace_hash inv_position)

lemma inv_record_edge: "pcov_inv C st \<Longrightarrow> pcov_inv C (record_edge garbage st)"
  by (simp add: record_edge_def Let_def write_masked pcov_invD(2) inv_set_entry pcov_frame
      inv_dump_coverage)

lemma inv_trace_feedback: "pcov_inv C st \<Longrightarrow> pcov_inv C (trace_feedback sys eg garbage f ln opc st)"
  by (auto simp: trace_feedback_def Let_def inv_reset inv_relative inv_advance inv_record_edge
      dest: inv_trace_file split: option.splits)

text \<open>A node at the end of the arena that no node points to.\<close>

definition chain_then_node :: "php_coverage list \<Rightarrow> php_coverage \<Rightarrow>
    php_coverage list \<Rightarrow> nat option \<Rightarrow> nat option \<Rightarrow> bool" where
  "chain_then_node mem0 c mem st nx \<longleftrightarrow> mem = mem0 @ [c] \<and> chain_ok mem0 st nx \<and> cov_next c = None"

lemma inv_create:
  assumes "pcov_inv chain_ok st"
  shows "pcov_inv (chain_then_node (pcg_mem st) \<lparr>cov_file = f, cov_line = ln, cov_next = None\<rparr>)
      (snd (php_pcov_create f ln st))"
  using assms by (simp add: php_pcov_create_def pcov_inv_def bitmap_ok_def chain_then_node_def)

lemma chain_ok_link:
  assumes "chain_ok mem st nx" "mem \<noteq> []" "cov_next c = None"
  shows "chain_ok ((mem @ [c])[length mem - 1 := (mem ! (length mem - 1))\<lparr>cov_next := Some (length mem)\<rparr>])
      (Some 0) (Some (length mem))"
proof -
  obtain n where n: "length mem = Suc n" using assms(2) by (cases mem) auto
  then show ?thesis using assms by (auto simp: chain_ok_def nth_list_update nth_append less_Suc_eq)
qed

lemma inv_link:
  assumes "pcov_inv (chain_then_node mem c) st"
  shows "pcov_inv chain_ok (link_coverage (length mem) st)"
proof -
  have ch: "pcg_mem st = mem @ [c]" "chain_ok mem (pcg_start st) (pcg_next st)" "cov_next c = None"
    using assms by (simp_all add: pcov_inv_def chain_then_node_def)
  show ?thesis
  proof (cases "mem = []")
    case True
    then have "pcg_start st = None" using ch by (simp add: chain_ok_def)
    then show ?thesis using assms ch True
      by (simp add: link_coverage_def pcov_inv_def bitmap_ok_def chain_ok_def)
  next
    case False
    then have p: "pcg_start st = Some 0" "pcg_next st = Some (length mem - 1)"
      using ch by (simp_all add: chain_ok_def)
    have "(mem @ [c]) ! (length mem - 1) = mem ! (length mem - 1)" using False by (simp add: nth_append)
    then show ?thesis using assms chain_ok_link [OF ch(2) False ch(3)] p ch(1)
      by (simp add: link_coverage_def pcov_inv_def bitmap_ok_def)
  qed
qed

lemma inv_trace_instruction:
  assumes "pcov_inv chain_ok st"
  shows "pcov_inv chain_ok (trace_instruction sys eg garbage (Some f, opc, ln) st)"
proof (cases "pcg_enabled st")
  case True
  have "fst (php_pcov_create (fn_filename f) ln st) = length (pcg_mem st)"
    by (simp add: php_pcov_create_def)
  then show ?thesis
    using True inv_link [OF inv_trace_feedback [OF inv_create [OF assms]],
        of sys eg garbage "fn_filename f" ln opc "fn_filename f" ln]
    by (simp add: trace_instruction_def Let_def case_prod_unfold)
qed (use assms in \<open>simp add: trace_instruction_def\<close>)

subsection \<open>Compiling and the PHP functions\<close>

lemma inv_wants_fun: "pcov_inv C st \<Longrightarrow> pcov_inv C (snd (php_pcov_wants f st))"
  by (auto simp: php_pcov_wants_def pcov_frame split: option.splits)

lemma inv_compile_file: "pcov_inv C st \<Longrightarrow> pcov_inv C (php_pcov_compile_file sys eg fh result st)"
  by (auto simp: php_pcov_compile_file_def Let_def case_prod_unfold pcov_frame inv_reset
      inv_backtrace_hash inv_filename inv_wants_fun split: option.splits)

lemma inv_cleared:
  "pcov_inv chain_ok st \<Longrightarrow>
   pcov_inv chain_ok (st\<lparr>pcg_mem := [], pcg_start := None, pcg_last := None, pcg_next := None,
                  pcg_waiting := ws, pcg_covered := cv\<rparr>)"
  by (simp add: pcov_inv_def bitmap_ok_def chain_ok_def)

lemma inv_clear: "pcov_inv chain_ok st \<Longrightarrow> pcov_inv chain_ok (php_pcov_clear files st)"
  by (auto simp: php_pcov_clear_def Let_def pcov_frame intro!: inv_cleared)

lemma inv_discover_file:
  "pcov_inv C st \<Longrightarrow> php_pcov_discover_file tabs f (st, ret) = Some (st', ret') \<Longrightarrow> pcov_inv C st'"
  by (auto simp: php_pcov_discover_file_def pcov_frame bind_eq_Some_conv split: option.splits)

lemma inv_discover_files:
  "pcov_inv C st \<Longrightarrow> discover_files tabs fs (st, ret) = Some (st', ret') \<Longrightarrow> pcov_inv C st'"
  by (induction fs arbitrary: st ret) (auto simp: bind_eq_Some_conv dest: inv_discover_file)

lemma inv_collect:
  assumes "pcov_inv C st" "php_pcov_collect tabs ty given st = Some (res, st')"
  shows "pcov_inv C st'"
  using assms
  by (auto simp: php_pcov_collect_def Let_def pcov_frame bind_eq_Some_conv split: if_splits
      dest: inv_discover_files [rotated])

subsection \<open>Requests\<close>

lemma inv_setup_directory:
  "pcov_inv C st \<Longrightarrow> pcov_inv C (php_pcov_setup_directory sys (Some d) st)"
  by (auto simp: php_pcov_setup_directory_def Let_def pcov_inv_def bitmap_ok_def split: option.splits)

lemma read_number_exists:
  assumes "\<And>path. os_exists sys path \<Longrightarrow> os_read sys path \<noteq> None" "os_exists sys (cs path)"
  obtains n where "read_number sys junk path = Some n"
  using assms(1) [OF assms(2)] that by (auto simp: read_number_def)

lemma inv_control_fields [pcov_frame]:
  "pcov_inv C (st\<lparr>redqueen_mode_enabled := b\<rparr>) = pcov_inv C st"
  "pcov_inv C (st\<lparr>coverage_dump_enabled := b\<rparr>) = pcov_inv C st"
  "pcov_inv C (st\<lparr>pinned_core := n\<rparr>) = pcov_inv C st"
  "pcov_inv C (st\<lparr>execution_limit := h\<rparr>) = pcov_inv C st"
  by (simp_all add: pcov_inv_def bitmap_ok_def)

lemma inv_rinit_redqueen:
  assumes "pcov_inv C st" "\<And>path. os_exists sys path \<Longrightarrow> os_read sys path \<noteq> None"
  shows "pcov_inv C (rinit_redqueen sys junk st)"
  using assms(1) read_number_exists [OF assms(2), of "''/tmp/redqueen_mode_enabled''" junk]
  by (force simp: rinit_redqueen_def Let_def pcov_frame)

lemma inv_rinit_coverage_dump:
  assumes "pcov_inv C st" "\<And>path. os_exists sys path \<Longrightarrow> os_read sys path \<noteq> None"
  shows "pcov_inv C (rinit_coverage_dump sys junk st)"
  using assms(1) read_number_exists [OF assms(2), of "''/tmp/coverage_dump_enabled''" junk]
  by (force simp: rinit_coverage_dump_def Let_def pcov_frame)

lemma inv_rinit_execution_limit:
  assumes "pcov_inv C st" "\<And>path. os_exists sys path \<Longrightarrow> os_read sys path \<noteq> None"
  shows "pcov_inv C (rinit_execution_limit sys junk st)"
  using assms(1) read_number_exists [OF assms(2), of "''/tmp/execution_limit''" junk]
  by (force simp: rinit_execution_limit_def Let_def pcov_frame)

lemmas inv_controls = inv_rinit_redqueen inv_rinit_coverage_dump inv_rinit_execution_limit

text \<open>The list pointers still hold their old values while the arena is new, so the condition
  on the list is dropped until the end.\<close>

lemma inv_no_chain: "pcov_inv C st \<Longrightarrow> pcov_inv (\<lambda>_ _ _. True) st"
  by (simp add: pcov_inv_def)

lemma inv_tables: "pcov_inv (\<lambda>_ _ _. True) st \<Longrightarrow>
   pcov_inv (\<lambda>mem _ _. mem = []) (st\<lparr>pcg_mem := [], pcg_files := [], pcg_waiting := [], pcg_wants := [],
                           pcg_discovered := Map.empty, pcg_covered := Map.empty\<rparr>)"
  by (simp add: pcov_inv_def bitmap_ok_def)

lemma inv_pointers: "pcov_inv (\<lambda>mem _ _. mem = []) st \<Longrightarrow>
   pcov_inv chain_ok (st\<lparr>pcg_start := None, pcg_last := None, pcg_next := None\<rparr>)"
  by (simp add: pcov_inv_def bitmap_ok_def chain_ok_def)

lemma inv_hook: "pcov_inv C st \<Longrightarrow> pcov_inv C (st\<lparr>compile_file_hooked := b\<rparr>)"
  by (simp add: pcov_inv_def bitmap_ok_def)

lemma inv_rinit:
  assumes "pcov_inv chain_ok st" and files: "\<And>path. os_exists sys path \<Longrightarrow> os_read sys path \<noteq> None"
  shows "pcov_inv chain_ok (pcov_rinit sys junk (Some d) st)"
proof -
  define st1 where "st1 = enable_custom_feedback_functions (reset_cov_context st)"
  define st2 where "st2 = st1\<lparr>pcg_mem := [], pcg_files := [], pcg_waiting := [], pcg_wants := [],
                           pcg_discovered := Map.empty, pcg_covered := Map.empty\<rparr>"
  define st3 where "st3 = (php_pcov_setup_directory sys (Some d) st2)\<lparr>compile_file_hooked := True\<rparr>"
  define st4 where "st4 = rinit_execution_limit sys junk (rinit_coverage_dump sys junk
                          (rinit_redqueen sys junk st3))"
  have "pcov_inv (\<lambda>_ _ _. True) st1"
    unfolding st1_def using assms(1) by (intro inv_enable inv_reset inv_no_chain)
  then have "pcov_inv (\<lambda>mem _ _. mem = []) st2" unfolding st2_def by (rule inv_tables)
  then have "pcov_inv (\<lambda>mem _ _. mem = []) st3"
    unfolding st3_def by (intro inv_hook inv_setup_directory)
  then have "pcov_inv (\<lambda>mem _ _. mem = []) st4"
    unfolding st4_def using files by (intro inv_controls) simp_all
  then have on: "pcov_inv chain_ok (st4\<lparr>pcg_start := None, pcg_last := None, pcg_next := None\<rparr>)"
    by (rule inv_pointers)
  show ?thesis
  proof (cases "ini_enabled (reset_cov_context st)")
    case True
    then have "pcov_rinit sys junk (Some d) st =
        st4\<lparr>pcg_start := None, pcg_last := None, pcg_next := None\<rparr>"
      unfolding pcov_rinit_def Let_def st4_def st3_def st2_def st1_def by (simp only: if_False not_True_eq_False)
    then show ?thesis using on by simp
  next
    case False
    then show ?thesis using assms(1) by (simp add: pcov_rinit_def Let_def inv_reset)
  qed
qed

lemma inv_rshutdown: "pcov_inv C st \<Longrightarrow> pcov_inv C (pcov_rshutdown st)"
  by (simp add: pcov_rshutdown_def inv_disable inv_reset inv_hook)

lemma inv_start_stop: "pcov_inv C st \<Longrightarrow> pcov_inv C (php_pcov_start st)"
  "pcov_inv C st \<Longrightarrow> pcov_inv C (php_pcov_stop st)"
  by (simp_all add: php_pcov_start_def php_pcov_stop_def pcov_frame)

lemma step_keeps_inv:
  assumes "pcov_step st st'" and inv: "pcov_inv chain_ok st"
  shows "pcov_inv chain_ok st'"
  using assms(1)
proof (cases rule: pcov_step.cases)
  case (step_collect tabs ty given res)
  then show ?thesis using inv_collect [OF inv] by blast
next
  case (step_rinit sys junk directory)
  show ?thesis unfolding step_rinit(1) using step_rinit(2) by (intro inv_rinit [OF inv]) simp
next
  case step_limit
  then show ?thesis using inv by (simp add: pcov_frame)
next
  case step_limit_reached
  then show ?thesis using inv by (simp add: inv_reset inv_emit)
next
  case (step_oracle sys msg ty)
  show ?thesis unfolding step_oracle(1) by (rule inv_bug_oracle [OF inv step_oracle(2)])
qed (simp_all only: inv_trace_instruction [OF inv] inv_compile_file [OF inv]
    inv_string_equal_val [OF inv] inv_array_access [OF inv] inv_redqueen [OF inv]
    inv_preg_match [OF inv] inv_positive_feedback [OF inv] inv_clear [OF inv]
    inv_rshutdown [OF inv] inv_start_stop [OF inv])

end
