(* ===== verification/Pcov_Correct.thy ===== *)
theory Pcov_Correct
  imports Pcov_Safety
begin

text \<open>
  Properties of the coverage extension: the hash of its static table, the absence of memory
  faults, the hash of the call stack, the instruction limit, the decisions of the bug oracle, and
  what the code gets wrong.
\<close>

subsection \<open>The short hash\<close>

lemma short_hash_table_lookup:
  "v < 0x1000 \<Longrightarrow> short_hash_table ! unat v = MurmurHash3_x86_32 (bytes_of_u32 v) 0"
proof -
  assume "v < 0x1000"
  then have "unat v < 0x1000" by (simp add: word_less_nat_alt)
  then show ?thesis by (simp add: short_hash_table_def)
qed

lemma short_hash_table_0: "short_hash_table ! 0 = 0x2362F9DE"
  using short_hash_table_lookup [of 0] murmur32_four_zero_bytes by (simp add: bytes_of_u32_def)

lemma short_hash_fold:
  "fold (short_hash_step (\<lambda>v. short_hash_table ! unat v)) args h =
   fold (short_hash_step (\<lambda>v. MurmurHash3_x86_32 (bytes_of_u32 v) 0)) args h"
  by (induction args arbitrary: h) (simp_all add: short_hash_step_def short_hash_table_lookup)

lemma short_hash_last_bit: "short_hash args < 0x80000000"
proof (cases args rule: rev_cases)
  case Nil
  then show ?thesis by (simp add: short_hash_def)
next
  case (snoc xs v)
  have "drop_bit 1 w < (0x80000000 :: u32)" for w :: u32
  proof -
    have "unat (drop_bit 1 w) = unat w div 2" by (simp add: drop_bit_eq_div unat_div)
    then show ?thesis using unat_u32_less [of w] by (simp add: word_less_nat_alt)
  qed
  then show ?thesis
    unfolding short_hash_def snoc fold_append comp_apply fold.simps id_apply
    by (simp only: short_hash_step_def)
qed

text \<open>The static table of \<open>short_hash\<close> is only a cache. The first call, which finds it zeroed,
  and every later call give the hash that is computed without it, and the table that later calls
  find; so the guard on its first entry, which has a hash other than 0, runs the initialisation
  exactly once. The hash always has 31 bits.\<close>

theorem short_hash_static_is_cache:
  "short_hash_static (replicate 0x1000 0) args = (short_hash args, short_hash_table) \<and>
   short_hash_static short_hash_table args = (short_hash args, short_hash_table) \<and>
   short_hash args < 0x80000000"
  using short_hash_fold [of args 0] short_hash_last_bit [of args]
  by (simp add: short_hash_static_def short_hash_table_0 short_hash_def)

subsection \<open>No memory faults\<close>

lemma minit_inv:
  assumes "st = fst (pcov_minit sys shmat (pcov_initial\<lparr>ini_enabled := b\<rparr>))"
    and "\<And>buf. trace_buffer st = Some buf \<Longrightarrow>
        bitmap_size st \<noteq> 0 \<and> unat (bitmap_size st) \<le> length buf"
  shows "pcov_inv chain_ok st"
proof -
  have "bitmap_mask st = bitmap_size st - 1" "\<not> fault st" "pcg_mem st = []" "pcg_start st = None"
    "pcg_next st = None" "current_opcode_pos st = 0" "current_filename st = []"
    "current_relative_filename st = []"
    by (simp_all add: assms(1) pcov_minit_def Let_def pcov_initial_def reset_cov_context_def
        enable_custom_feedback_functions_def split: option.splits)
  then show ?thesis using assms(2) by (simp add: pcov_inv_def bitmap_ok_def chain_ok_def)
qed

lemma reachable_inv: "pcov_reachable st \<Longrightarrow> pcov_inv chain_ok st"
proof (induction rule: pcov_reachable.induct)
  case (reach_minit st sys shmat b)
  then show ?case using minit_inv by blast
next
  case (reach_step st st')
  then show ?case using step_keeps_inv by blast
qed


definition quiet_os :: os where
  "quiet_os = \<lparr>os_realpath = (\<lambda>p. Some p), os_exists = (\<lambda>p. p = cs ''/a.php''),
     os_getenv = (\<lambda>_. None), os_read = (\<lambda>_. Some [])\<rparr>"

definition main_func :: zend_func where
  "main_func = \<lparr>fn_type = ZEND_USER_FUNCTION, fn_flags = 0, fn_filename = cs ''/a.php'', fn_line_end = 9\<rparr>"

definition started :: pcov where
  "started = fst (pcov_minit quiet_os (\<lambda>_. []) (pcov_initial\<lparr>ini_enabled := True\<rparr>))"

lemma reachable_started: "pcov_reachable started"
proof (rule reach_minit)
  show "started = fst (pcov_minit quiet_os (\<lambda>_. []) (pcov_initial\<lparr>ini_enabled := True\<rparr>))"
    by (rule started_def)
  show "bitmap_size started \<noteq> 0 \<and> unat (bitmap_size started) \<le> length buf"
    if "trace_buffer started = Some buf" for buf
    using that by (simp add: started_def pcov_minit_def quiet_os_def pcov_initial_def
        reset_cov_context_def enable_custom_feedback_functions_def)
qed

lemma reachable_traced:
  "pcov_reachable (trace_instruction quiet_os \<lparr>eg_stack = [], eg_line_before_exception = None\<rparr> g (Some main_func, ZEND_RETURN, 3) started)"
  by (rule reach_step [OF reachable_started step_trace])


subsection \<open>The call stack\<close>

text \<open>The line that a user frame is in: that of its instruction, or while an exception is being
  handled that of the instruction that threw it.\<close>

definition frame_line :: "u32 option \<Rightarrow> zend_func \<times> u8 \<times> u32 \<Rightarrow> u32" where
  "frame_line exc = (\<lambda>(f, opc, ln). if opc = ZEND_HANDLE_EXCEPTION
     then (case exc of Some l \<Rightarrow> l | None \<Rightarrow> fn_line_end f) else ln)"

definition frame_hash :: "u32 option \<Rightarrow> zend_func \<times> u8 \<times> u32 \<Rightarrow> u32 \<Rightarrow> u32" where
  "frame_hash exc fr = hash_position (fn_filename (fst fr)) (frame_line exc fr)"

lemma frame_hash_eq:
  "frame_hash exc (f, opc, ln) h = hash_position (fn_filename f)
     (if opc = ZEND_HANDLE_EXCEPTION then (case exc of Some l \<Rightarrow> l | None \<Rightarrow> fn_line_end f) else ln) h"
  by (simp add: frame_hash_def frame_line_def)

definition stack_of :: "(zend_func \<times> u8 \<times> u32) list \<Rightarrow> ex_frame list" where
  "stack_of frs = map (\<lambda>(f, opc, ln). Frame (Some f, opc, ln)) frs"

lemma stack_of_simps [simp]:
  "stack_of [] = []" "stack_of ((f, opc, ln) # frs) = Frame (Some f, opc, ln) # stack_of frs"
  by (simp_all add: stack_of_def)

lemma check_placeholder_Frame [simp]: "check_placeholder_frame (Frame fr # rest) = Frame fr # rest"
  by simp

lemma not_skip_user:
  "ZEND_USER_CODE (fn_type f) \<Longrightarrow> \<not> pcov_skip_internal_handler (Frame (Some f, opc, ln) # rest)"
  by (cases "Frame (Some f, opc, ln) # rest" rule: pcov_skip_internal_handler.cases)
    (auto simp: frame_user_def)

lemma backtrace_loop_user:
  assumes "\<forall>fr\<in>set frs. ZEND_USER_CODE (fn_type (fst fr))" "0 < limit" "n \<le> limit"
  shows "backtrace_loop limit exc n (stack_of frs) h = fold (frame_hash exc) (take (limit - n) frs) h"
  using assms
proof (induction frs arbitrary: n h)
  case Nil
  then show ?case by (simp add: backtrace_loop.simps)
next
  case (Cons fr frs)
  obtain f opc ln where fr: "fr = (f, opc, ln)" by (cases fr)
  have user: "ZEND_USER_CODE (fn_type f)" using Cons.prems fr by simp
  show ?case
  proof (cases "n < limit")
    case True
    then have "limit - n = Suc (limit - Suc n)" by simp
    moreover have "backtrace_skip (stack_of (fr # frs)) = stack_of (fr # frs)"
      using not_skip_user [OF user] by (simp add: fr backtrace_skip_def)
    ultimately show ?thesis using Cons.IH [of "Suc n"] Cons.prems True user
      by (subst backtrace_loop.simps) (simp add: fr frame_hash_eq Let_def)
  next
    case False
    then show ?thesis using Cons.prems by (simp add: backtrace_loop.simps)
  qed
qed



subsection \<open>The instruction limit\<close>

text \<open>What the engine's opcode handlers may do to the extension: calls nested in one instruction
  execute more instructions, so few that the 32-bit counter does not wrap around, and do not take
  executed ones back or change the limit.\<close>

definition handler_ok :: "('p, 'w) vm \<Rightarrow> bool" where
  "handler_ok m \<longleftrightarrow> (\<forall>p w st. case vm_handler m p w st of (zrc, w', st') \<Rightarrow>
     execution_limit st' = execution_limit st \<and>
     (executed_opcodes st \<le> execution_limit st \<and> execution_limit st < 0xffffffff \<longrightarrow>
        executed_opcodes st \<le> executed_opcodes st' \<and> executed_opcodes st' < 0xffffffff))"

text \<open>The counters are only touched by the loop, and the feedback leaves the list alone.\<close>

definition kept :: "pcov \<Rightarrow> u32 \<times> u32 \<times> bool \<times> php_coverage list" where
  "kept st = (execution_limit st, executed_opcodes st, pcg_enabled st, pcg_mem st)"

lemma kept_dump_coverage [simp]: "kept (dump_coverage buf st) = kept st"
  by (auto simp: kept_def dump_coverage_def cov_dump_payload_def emit_def Let_def
      split: option.splits)

lemma kept_write [simp]: "kept (write_to_trace_buffer i st) = kept st"
  by (auto simp: kept_def write_to_trace_buffer_def split: option.splits)

lemma kept_fields [simp]:
  "kept (reset_cov_context st) = kept st"
  "kept (update_backtrace_hash eg st) = kept st"
  "kept (st\<lparr>last_coverage_hash := h\<rparr>) = kept st"
  "kept (st\<lparr>current_relative_filename := f\<rparr>) = kept st"
  "kept (st\<lparr>current_opcode_pos := n\<rparr>) = kept st"
  "kept (st\<lparr>current_lineno := n\<rparr>) = kept st"
  "kept (st\<lparr>current_filename := f\<rparr>) = kept st"
  "kept (st\<lparr>is_in_eval := b\<rparr>) = kept st"
  "kept (st\<lparr>filename_hash := h\<rparr>) = kept st"
  by (simp_all add: kept_def reset_cov_context_def update_backtrace_hash_def Let_def)

lemma kept_record_edge [simp]: "kept (record_edge g st) = kept st"
  by (simp add: record_edge_def Let_def)

lemma kept_advance [simp]: "kept (advance_position eg ln st) = kept st"
  by (simp add: advance_position_def Let_def)

lemma kept_trace_file: "trace_file sys eg f ln st = Some st' \<Longrightarrow> kept st' = kept st"
  by (auto simp: trace_file_def Let_def split: if_splits option.splits)

lemma kept_trace_feedback [simp]:
  "kept (trace_feedback sys eg g f ln opc st) = kept st"
  by (auto simp: trace_feedback_def Let_def kept_trace_file split: option.splits)

lemma trace_instruction_eq:
  assumes "pcg_enabled st"
  obtains st1 where "kept st1 = (execution_limit st, executed_opcodes st, True,
      pcg_mem st @ [\<lparr>cov_file = fn_filename f, cov_line = ln, cov_next = None\<rparr>])"
    "trace_instruction sys eg g (Some f, opc, ln) st = link_coverage (length (pcg_mem st)) st1"
proof
  let ?c = "php_pcov_create (fn_filename f) ln st"
  let ?st1 = "trace_feedback sys eg g (fn_filename f) ln opc (snd ?c)"
  show "kept ?st1 = (execution_limit st, executed_opcodes st, True,
      pcg_mem st @ [\<lparr>cov_file = fn_filename f, cov_line = ln, cov_next = None\<rparr>])"
    using assms by (simp add: php_pcov_create_def kept_def [of "_ \<lparr>pcg_waiting := _\<rparr>"])
  show "trace_instruction sys eg g (Some f, opc, ln) st = link_coverage (length (pcg_mem st)) ?st1"
    using assms by (simp add: trace_instruction_def Let_def case_prod_unfold) (simp add: php_pcov_create_def)
qed

lemma link_fields:
  "execution_limit (link_coverage c st) = execution_limit st"
  "executed_opcodes (link_coverage c st) = executed_opcodes st"
  "pcg_enabled (link_coverage c st) = pcg_enabled st"
  by (simp_all add: link_coverage_def split: option.split)

lemma counters_trace_instruction:
  "execution_limit (trace_instruction sys eg g fr st) = execution_limit st"
  "executed_opcodes (trace_instruction sys eg g fr st) = executed_opcodes st"
proof -
  obtain f opc ln where fr: "fr = (f, opc, ln)" by (cases fr)
  have "execution_limit (trace_instruction sys eg g fr st) = execution_limit st \<and>
    executed_opcodes (trace_instruction sys eg g fr st) = executed_opcodes st"
  proof (cases "pcg_enabled st \<and> f \<noteq> None")
    case True
    then obtain f' where f: "f = Some f'" and en: "pcg_enabled st" by blast
    obtain st1 where "kept st1 = (execution_limit st, executed_opcodes st, True,
        pcg_mem st @ [\<lparr>cov_file = fn_filename f', cov_line = ln, cov_next = None\<rparr>])"
      "trace_instruction sys eg g (Some f', opc, ln) st = link_coverage (length (pcg_mem st)) st1"
      by (rule trace_instruction_eq [OF en])
    then show ?thesis by (simp add: fr f link_fields kept_def)
  next
    case False
    then show ?thesis by (auto simp: fr trace_instruction_def)
  qed
  then show "execution_limit (trace_instruction sys eg g fr st) = execution_limit st"
    "executed_opcodes (trace_instruction sys eg g fr st) = executed_opcodes st" by simp_all
qed

lemma handlerD:
  assumes "handler_ok m" "php_pcov_trace m p w st = (zrc, w', st')"
  shows "execution_limit st' = execution_limit st"
    and "executed_opcodes st \<le> execution_limit st \<Longrightarrow> execution_limit st < 0xffffffff \<Longrightarrow>
      executed_opcodes st \<le> executed_opcodes st' \<and> executed_opcodes st' < 0xffffffff"
proof -
  define st1 where "st1 = trace_instruction (vm_os m w) (vm_engine m w) (vm_garbage m w) (vm_frame m p w) st"
  have same: "execution_limit st1 = execution_limit st" "executed_opcodes st1 = executed_opcodes st"
    by (simp_all add: st1_def counters_trace_instruction)
  have "vm_handler m p w st1 = (zrc, w', st')" using assms(2) by (simp add: php_pcov_trace_def st1_def)
  then have "execution_limit st' = execution_limit st1 \<and>
     (executed_opcodes st1 \<le> execution_limit st1 \<and> execution_limit st1 < 0xffffffff \<longrightarrow>
        executed_opcodes st1 \<le> executed_opcodes st' \<and> executed_opcodes st' < 0xffffffff)"
    using assms(1) unfolding handler_ok_def by (metis (mono_tags, lifting) case_prod_conv)
  then show "execution_limit st' = execution_limit st"
    "executed_opcodes st \<le> execution_limit st \<Longrightarrow> execution_limit st < 0xffffffff \<Longrightarrow>
      executed_opcodes st \<le> executed_opcodes st' \<and> executed_opcodes st' < 0xffffffff"
    by (simp_all add: same)
qed

lemma word_suc_no_wrap: "(n :: u32) < 0xffffffff \<Longrightarrow> unat (n + 1) = Suc (unat n)"
  by (simp add: unat_word_ariths(1) word_less_nat_alt)

lemma execute_loop_limited:
  assumes "handler_ok m" "0 < execution_limit st" "execution_limit st < 0xffffffff"
    and "executed_opcodes st \<le> execution_limit st"
    and "unat (execution_limit st) + 1 - unat (executed_opcodes st) \<le> fuel"
  shows "\<exists>r. execute_loop fuel m p w st = Some r"
  using assms(2-5)
proof (induction fuel arbitrary: p w st)
  case 0
  then show ?case by (simp add: word_le_nat_alt)
next
  case (Suc fuel)
  obtain zrc w' st' where tr: "php_pcov_trace m p w st = (zrc, w', st')"
    by (cases "php_pcov_trace m p w st")
  have lim: "execution_limit st' = execution_limit st" by (rule handlerD(1) [OF assms(1) tr])
  have cnt: "executed_opcodes st \<le> executed_opcodes st'" "executed_opcodes st' < 0xffffffff"
    using handlerD(2) [OF assms(1) tr Suc.prems(3,2)] by simp_all
  define st2 where "st2 = st'\<lparr>executed_opcodes := executed_opcodes st' + 1\<rparr>"
  have next_unat: "unat (executed_opcodes st2) = Suc (unat (executed_opcodes st'))"
    using word_suc_no_wrap [OF cnt(2)] by (simp add: st2_def)
  show ?case
  proof (cases "execution_limit st < executed_opcodes st2")
    case True
    then show ?thesis using tr lim Suc.prems(1) by (simp add: st2_def)
  next
    case False
    have "\<exists>r. execute_loop fuel m q w' st2 = Some r" for q
    proof (rule Suc.IH)
      show "unat (execution_limit st2) + 1 - unat (executed_opcodes st2) \<le> fuel"
        using next_unat Suc.prems(4) cnt(1) lim by (simp add: st2_def word_le_nat_alt)
    qed (use False lim Suc.prems in \<open>simp_all add: st2_def not_less\<close>)
    then show ?thesis using tr lim Suc.prems(1) False by (auto simp: st2_def Let_def)
  qed
qed


definition spinning_vm :: "(unit, unit) vm" where
  "spinning_vm = \<lparr>vm_frame = (\<lambda>_ _. (Some main_func, ZEND_JMP, 3)), vm_current = (\<lambda>_. ()),
     vm_engine = (\<lambda>_. \<lparr>eg_stack = [], eg_line_before_exception = None\<rparr>), vm_os = (\<lambda>_. quiet_os),
     vm_garbage = (\<lambda>_. False), vm_handler = (\<lambda>_ w st. (0, w, st))\<rparr>"


end
