(* ===== verification/Pcov_Report_Correct.thy ===== *)
theory Pcov_Report_Correct
  imports Pcov_Correct
begin

text \<open>
  What the coverage report says: the traced instructions are the nodes of the list, the report
  marks exactly their lines, and the bug oracle's reports.
\<close>

subsection \<open>The list of executed lines\<close>

definition executed_lines :: "pcov \<Rightarrow> (bytes \<times> u32) list" where
  "executed_lines st = map (\<lambda>c. (cov_file c, cov_line c)) (pcg_mem st)"

lemma executed_lines_link:
  "c < length (pcg_mem st) \<Longrightarrow> executed_lines (link_coverage c st) = executed_lines st"
proof -
  have "map g (xs[p := x]) = map g xs" if "g x = g (xs ! p)" for g :: "php_coverage \<Rightarrow> bytes \<times> u32" and xs p x
    using that by (metis list_update_id map_update)
  then show ?thesis
    by (simp add: executed_lines_def link_coverage_def split: option.split)
qed

lemma executed_lines_trace:
  assumes "pcg_enabled st"
  shows "executed_lines (trace_instruction sys eg g (Some f, opc, ln) st) =
      executed_lines st @ [(fn_filename f, ln)]"
    and "pcg_enabled (trace_instruction sys eg g (Some f, opc, ln) st)"
proof -
  obtain st1 where st1: "kept st1 = (execution_limit st, executed_opcodes st, True,
      pcg_mem st @ [\<lparr>cov_file = fn_filename f, cov_line = ln, cov_next = None\<rparr>])"
    "trace_instruction sys eg g (Some f, opc, ln) st = link_coverage (length (pcg_mem st)) st1"
    by (rule trace_instruction_eq [OF assms])
  then show "executed_lines (trace_instruction sys eg g (Some f, opc, ln) st) =
      executed_lines st @ [(fn_filename f, ln)]"
    by (simp add: executed_lines_link kept_def) (simp add: executed_lines_def)
  show "pcg_enabled (trace_instruction sys eg g (Some f, opc, ln) st)"
    using st1 by (simp add: link_fields kept_def)
qed

text \<open>A run of instructions, each with what the engine and the system look like then.\<close>

type_synonym traced = "os \<times> engine \<times> bool \<times> zend_func \<times> u8 \<times> u32"

definition trace_one :: "traced \<Rightarrow> pcov \<Rightarrow> pcov" where
  "trace_one = (\<lambda>(sys, eg, g, f, opc, ln). trace_instruction sys eg g (Some f, opc, ln))"

definition traced_line :: "traced \<Rightarrow> bytes \<times> u32" where
  "traced_line = (\<lambda>(sys, eg, g, f, opc, ln). (fn_filename f, ln))"

lemma trace_run:
  "pcg_enabled st \<Longrightarrow> executed_lines (fold trace_one xs st) = executed_lines st @ map traced_line xs"
proof (induction xs arbitrary: st)
  case Nil
  then show ?case by simp
next
  case (Cons x xs)
  obtain sys eg g f opc ln where x: "x = (sys, eg, g, f, opc, ln)" by (cases x)
  then show ?case using Cons executed_lines_trace [OF Cons.prems]
    by (simp add: trace_one_def traced_line_def)
qed

lemma trace_run_reachable: "pcov_reachable st \<Longrightarrow> pcov_reachable (fold trace_one xs st)"
proof (induction xs arbitrary: st)
  case (Cons x xs)
  obtain sys eg g f opc ln where x: "x = (sys, eg, g, f, opc, ln)" by (cases x)
  have "pcov_reachable (trace_one x st)"
    unfolding x trace_one_def by (simp add: reach_step [OF Cons.prems step_trace])
  then show ?case by (simp add: Cons.IH)
qed simp

subsection \<open>The report\<close>

lemma report_chain:
  assumes "chain_ok mem st nx" "k \<le> length mem" "length mem - k \<le> fuel"
  shows "report_from fuel mem (if k < length mem then Some k else None) T =
    Some (fold report_hit (drop k mem) T)"
  using assms(2,3)
proof (induction fuel arbitrary: k T)
  case 0
  then show ?case by simp
next
  case (Suc fuel)
  show ?case
  proof (cases "k < length mem")
    case True
    then have "cov_next (mem ! k) = (if Suc k < length mem then Some (Suc k) else None)"
      using assms(1) by (simp add: chain_ok_def)
    moreover have "drop k mem = mem ! k # drop (Suc k) mem" using True by (simp add: Cons_nth_drop_Suc)
    ultimately show ?thesis using Suc.IH [of "Suc k" "report_hit (mem ! k) T"] Suc.prems True by simp
  next
    case False
    then show ?thesis by simp
  qed
qed

lemma php_pcov_report_eq:
  "chain_ok mem st nx \<Longrightarrow> php_pcov_report mem st T = Some (fold report_hit mem T)"
  using report_chain [of mem st nx 0 "length mem" T]
  by (cases "mem = []") (simp_all add: php_pcov_report_def chain_ok_def)

text \<open>What the report says of a line after marking.\<close>

definition table_at :: "file_table \<Rightarrow> bytes \<Rightarrow> u32 \<Rightarrow> int option" where
  "table_at T f l = (case T f of None \<Rightarrow> None | Some t \<Rightarrow> t l)"

lemma table_at_hit:
  "table_at (report_hit c T) f l =
     (if (f, l) = (cov_file c, cov_line c) \<and> table_at T f l \<noteq> None then Some PHP_PCOV_COVERED
      else table_at T f l)"
  by (auto simp: report_hit_def table_at_def split: option.split)

lemma table_at_hits:
  "table_at (fold report_hit nodes T) f l =
     (if (f, l) \<in> (\<lambda>c. (cov_file c, cov_line c)) ` set nodes \<and> table_at T f l \<noteq> None
      then Some PHP_PCOV_COVERED else table_at T f l)"
  by (induction nodes arbitrary: T) (auto simp: table_at_hit)

text \<open>C4: the report tells the executed lines. After any run from a state with an empty list, the
  report of a table of executable lines always succeeds; it marks a line of the table as covered
  if an instruction of that line was executed, and leaves every other line as it is.\<close>

theorem report_marks_executed:
  assumes "pcov_reachable st" and "pcg_enabled st" and "pcg_mem st = []"
  shows "\<exists>T'. php_pcov_report (pcg_mem (fold trace_one xs st)) (pcg_start (fold trace_one xs st)) T = Some T' \<and>
    (\<forall>f l. table_at T' f l =
       (if (f, l) \<in> traced_line ` set xs \<and> table_at T f l \<noteq> None then Some PHP_PCOV_COVERED
        else table_at T f l))"
proof -
  let ?st = "fold trace_one xs st"
  have "chain_ok (pcg_mem ?st) (pcg_start ?st) (pcg_next ?st)"
    using reachable_inv [OF trace_run_reachable [OF assms(1)]] by (rule pcov_invD(3))
  moreover have "(\<lambda>c. (cov_file c, cov_line c)) ` set (pcg_mem ?st) = traced_line ` set xs"
    using arg_cong [OF trace_run [OF assms(2), of xs], of set] assms(3)
    by (simp add: executed_lines_def)
  ultimately show ?thesis by (simp add: php_pcov_report_eq table_at_hits)
qed

theorem report_marks_executed_witness:
  "\<exists>T'. php_pcov_report
      (pcg_mem (fold trace_one [(quiet_os, \<lparr>eg_stack = [], eg_line_before_exception = None\<rparr>, False,
          main_func, ZEND_RETURN, 3)] started))
      (pcg_start (fold trace_one [(quiet_os, \<lparr>eg_stack = [], eg_line_before_exception = None\<rparr>, False,
          main_func, ZEND_RETURN, 3)] started))
      [cs ''/a.php'' \<mapsto> [3 \<mapsto> -1, 4 \<mapsto> -1]] = Some T' \<and>
    table_at T' (cs ''/a.php'') 3 = Some 1 \<and> table_at T' (cs ''/a.php'') 4 = Some (-1)"
proof -
  have st: "pcg_enabled started" "pcg_mem started = []"
    by (simp_all add: started_def pcov_minit_def quiet_os_def pcov_initial_def
        reset_cov_context_def enable_custom_feedback_functions_def)
  show ?thesis
    using report_marks_executed [OF reachable_started st,
      of "[(quiet_os, \<lparr>eg_stack = [], eg_line_before_exception = None\<rparr>, False,
          main_func, ZEND_RETURN, 3)]" "[cs ''/a.php'' \<mapsto> [3 \<mapsto> -1, 4 \<mapsto> -1]]"]
    by (auto simp: traced_line_def main_func_def table_at_def PHP_PCOV_COVERED_def)
qed

subsection \<open>The bug oracle\<close>

lemma dump_coverage_off: "\<not> coverage_dump_enabled st \<Longrightarrow> dump_coverage buf st = st"
  by (simp add: dump_coverage_def)

lemma mark_bitmap_outputs:
  "outputs (snd (mark_bitmap h st)) = outputs st"
  "coverage_dump_enabled (snd (mark_bitmap h st)) = coverage_dump_enabled st"
  by (auto simp: mark_bitmap_def read_from_trace_buffer_def write_to_trace_buffer_def Let_def
      split: option.splits)

lemma positive_feedback_outputs:
  "\<not> coverage_dump_enabled st \<Longrightarrow> outputs (php_pcov_positive_feedback n st) = outputs st"
  by (simp add: php_pcov_positive_feedback_def Let_def case_prod_unfold mark_bitmap_outputs)


definition oracle_os :: os where
  "oracle_os = \<lparr>os_realpath = (\<lambda>p. Some p), os_exists = (\<lambda>p. p = cs ''/tmp/bug_oracle_enabled''),
     os_getenv = (\<lambda>_. None), os_read = (\<lambda>_. None)\<rparr>"


text \<open>A report that is too long overruns its buffer. Any error message of at least 4096 bytes
  that counts as a bug, a message that the tested application may choose, is written past the end
  of the static buffer.\<close>

theorem bug_oracle_overflow:
  assumes "oracle_verdict sys msg ty = Some bug" and "os_exists sys (cs ''/tmp/bug_oracle_enabled'')"
    and "report_buffer_size \<le> length msg"
  shows "fault (php_pcov_bug_oracle sys msg ty st)"
  using assms by (simp add: php_pcov_bug_oracle_def oracle_report_def Let_def)

theorem bug_oracle_overflow_witness:
  "fault (php_pcov_bug_oracle oracle_os (replicate 4096 65) (Some (cs ''sql'')) pcov_initial)"
  by (rule bug_oracle_overflow [of _ _ _ "cs ''sql''"])
    (simp_all add: oracle_verdict_def oracle_os_def report_buffer_size_def)

text \<open>The dump of an executed line depends on an uninitialised variable. With the dump enabled,
  the same instruction in the same state is or is not reported, as the stack happens to be.\<close>

theorem coverage_dump_reads_garbage:
  assumes "coverage_dump_enabled st"
  shows "outputs (record_edge False st) = outputs st \<and> outputs (record_edge True st) \<noteq> outputs st"
proof -
  define st1 where "st1 = (write_to_trace_buffer
      ((drop_bit 1 (short_hash [backtrace_hash st, current_lineno st, current_opcode_pos st]) XOR
        last_coverage_hash st) AND bitmap_mask st) st)
      \<lparr>last_coverage_hash := short_hash [backtrace_hash st, current_lineno st, current_opcode_pos st]\<rparr>"
  have st1: "outputs st1 = outputs st" "coverage_dump_enabled st1"
    using assms by (auto simp: st1_def write_to_trace_buffer_def split: option.split)
  have "c_str (cs ''cov:'' @ t) \<noteq> []" for t by (simp add: c_str_def cs_def)
  then have "outputs (dump_coverage (cs ''cov:'' @ t) st1) \<noteq> outputs st1" for t
    using st1(2) by (simp add: dump_coverage_def cov_dump_payload_def emit_def Let_def split: option.split)
  then show ?thesis
    using st1 unfolding record_edge_def Let_def st1_def [symmetric] by simp
qed

theorem coverage_dump_reads_garbage_witness:
  "outputs (record_edge True (pcov_initial\<lparr>coverage_dump_enabled := True\<rparr>)) \<noteq> []"
  using coverage_dump_reads_garbage [of "pcov_initial\<lparr>coverage_dump_enabled := True\<rparr>"]
  by (simp add: pcov_initial_def)

end
