(* ===== verification/Nyx_Agent.thy ===== *)
theory Nyx_Agent
  imports Pcov_Module
begin

text \<open>
  The agent of \<open>fuzzer/nyx.c\<close>, which runs in the virtual machine between the hypervisor and the
  PHP process: it sets up the shared bitmap, passes the payload on and sends results back. The
  answers of the hypervisor and of the kernel are arguments; the hypercalls it makes are a list.
\<close>

subsection \<open>State\<close>

record host_config =
  hc_bitmap_size :: u32
  hc_ijon_bitmap_size :: u32
  hc_payload_buffer_size :: u32

record agent_config =
  agent_magic :: u32
  agent_version :: u32
  agent_timeout_detection :: u8
  agent_tracing :: u8
  agent_ijon_tracing :: u8
  agent_non_reload_mode :: u8
  agent_trace_buffer_vaddr :: u64
  agent_ijon_trace_buffer_vaddr :: u64
  agent_coverage_bitmap_size :: u32

definition zero_agent_config :: agent_config where
  "zero_agent_config = \<lparr>agent_magic = 0, agent_version = 0, agent_timeout_detection = 0,
     agent_tracing = 0, agent_ijon_tracing = 0, agent_non_reload_mode = 0,
     agent_trace_buffer_vaddr = 0, agent_ijon_trace_buffer_vaddr = 0, agent_coverage_bitmap_size = 0\<rparr>"

record kafl_payload =
  pl_size :: "32 word"
  pl_data :: bytes

datatype hypercall =
    HC_Get_Host_Config
  | HC_Set_Agent_Config agent_config
  | HC_Get_Payload
  | HC_User_Fast_Acquire
  | HC_Release
  | HC_Panic_Extended bytes
  | HC_Dump_File bytes bool bytes

text \<open>\<open>trace_buffer\<close> is the memory at the pointer: \<open>None\<close> for \<open>NULL\<close>, and no byte for the
  unchecked \<open>(void*) -1\<close> of a failed \<open>shmat\<close>. \<open>nx_done\<close> is the static flag of
  \<open>capabilites_configuration\<close>.\<close>

record nyx =
  nx_trace_buffer :: "bytes option"
  nx_payload_buffer :: "kafl_payload option"
  nx_host_config :: host_config
  nx_agent_config :: agent_config
  nx_shm_id :: int
  nx_done :: bool
  nx_html_dump_obj :: "bytes option"
  nx_calls :: "hypercall list"
  nx_fault :: bool

definition hypercall :: "hypercall \<Rightarrow> nyx \<Rightarrow> nyx" where
  "hypercall c st = st\<lparr>nx_calls := nx_calls st @ [c]\<rparr>"

subsection \<open>Set-up\<close>

definition PAGE_SIZE :: nat where
  "PAGE_SIZE = 4096"

definition MMAP_SIZE :: "u32 \<Rightarrow> nat" where
  "MMAP_SIZE x = unat x div PAGE_SIZE * PAGE_SIZE + PAGE_SIZE"

text \<open>\<open>memset(p, 0, n)\<close>; out of bounds is a fault.\<close>

definition clear_buffer :: "nat \<Rightarrow> nyx \<Rightarrow> nyx" where
  "clear_buffer n st =
     (case nx_trace_buffer st of
        Some buf \<Rightarrow>
          if n \<le> length buf then st\<lparr>nx_trace_buffer := Some (replicate n 0 @ drop n buf)\<rparr>
          else st\<lparr>nx_fault := True\<rparr>
      | None \<Rightarrow> st\<lparr>nx_fault := True\<rparr>)"

definition byte_of_bool :: "bool \<Rightarrow> u8" where
  "byte_of_bool b = (if b then 1 else 0)"

text \<open>\<open>capabilites_configuration\<close>, with the host's configuration, the identifier and the address
  of the shared memory segment or a failure, and the payload that the hypervisor writes.\<close>

definition capabilites_configuration ::
  "host_config \<Rightarrow> (int \<times> u64) option \<Rightarrow> kafl_payload \<Rightarrow> bool \<Rightarrow> bool \<Rightarrow> bool \<Rightarrow> nyx \<Rightarrow> nyx" where
  "capabilites_configuration host shm payload timeout_detection tracing ijon_tracing st =
     (if nx_done st then st
      else (let st = (hypercall HC_Get_Host_Config st)\<lparr>nx_host_config := host\<rparr>;
                n = MMAP_SIZE (hc_bitmap_size host);
                st = (case shm of
                        None \<Rightarrow> st\<lparr>nx_shm_id := - 1, nx_trace_buffer := Some []\<rparr>
                      | Some (shm_id, _) \<Rightarrow>
                          st\<lparr>nx_shm_id := shm_id, nx_trace_buffer := Some (replicate n 0)\<rparr>);
                st = clear_buffer (unat (hc_bitmap_size host)) st;
                config = \<lparr>agent_magic = 0x4178794e, agent_version = 1,
                  agent_timeout_detection = byte_of_bool timeout_detection,
                  agent_tracing = byte_of_bool tracing,
                  agent_ijon_tracing = byte_of_bool ijon_tracing, agent_non_reload_mode = 1,
                  agent_trace_buffer_vaddr = (case shm of None \<Rightarrow> - 1 | Some (_, a) \<Rightarrow> a),
                  agent_ijon_trace_buffer_vaddr = 0,
                  agent_coverage_bitmap_size = hc_bitmap_size host\<rparr>;
                st = hypercall (HC_Set_Agent_Config config) (st\<lparr>nx_agent_config := config\<rparr>)
            in hypercall HC_Get_Payload (st\<lparr>nx_payload_buffer := Some payload\<rparr>)))"

definition nyx_init :: "host_config \<Rightarrow> (int \<times> u64) option \<Rightarrow> kafl_payload \<Rightarrow> nyx \<Rightarrow> nyx" where
  "nyx_init host shm payload st = capabilites_configuration host shm payload False True False st"

definition executed_in_vm :: "os \<Rightarrow> int" where
  "executed_in_vm sys = (if os_getenv sys (cs ''IN_NYX'') \<noteq> None then 1 else 0)"

subsection \<open>Access\<close>

definition nyx_get_trace_buffer :: "nyx \<Rightarrow> bytes option" where
  "nyx_get_trace_buffer st = nx_trace_buffer st"

definition nyx_get_payload :: "nyx \<Rightarrow> bytes option" where
  "nyx_get_payload st = map_option pl_data (nx_payload_buffer st)"

text \<open>\<open>size - sizeof(size)\<close> is computed without a sign and truncated to 32 bits.\<close>

definition nyx_get_payload_len :: "nyx \<Rightarrow> u32 option" where
  "nyx_get_payload_len st = map_option (\<lambda>p. pl_size p - 4) (nx_payload_buffer st)"

definition nyx_is_payload_null :: "nyx \<Rightarrow> int" where
  "nyx_is_payload_null st = (if nx_payload_buffer st = None then 1 else 0)"

definition nyx_get_shm_id :: "nyx \<Rightarrow> int" where
  "nyx_get_shm_id st = nx_shm_id st"

definition nyx_get_bitmap_size :: "nyx \<Rightarrow> int" where
  "nyx_get_bitmap_size st = sint (hc_bitmap_size (nx_host_config st))"

definition set_byte :: "u32 \<Rightarrow> nyx \<Rightarrow> nyx" where
  "set_byte i st =
     (case nx_trace_buffer st of
        Some buf \<Rightarrow>
          if unat i < length buf then st\<lparr>nx_trace_buffer := Some (buf[unat i := 1])\<rparr>
          else st\<lparr>nx_fault := True\<rparr>
      | None \<Rightarrow> st\<lparr>nx_fault := True\<rparr>)"

definition nyx_create_snapshot :: "nyx \<Rightarrow> nyx" where
  "nyx_create_snapshot st = set_byte 0 (hypercall HC_User_Fast_Acquire st)"

definition nyx_exit :: "nyx \<Rightarrow> nyx" where
  "nyx_exit st = hypercall HC_Release st"

definition nyx_set_bitmap :: "u32 \<Rightarrow> u32 \<Rightarrow> nyx \<Rightarrow> nyx" where
  "nyx_set_bitmap k offset st =
     set_byte ((k + (offset AND 7)) AND (hc_bitmap_size (nx_host_config st) - 1)) st"

subsection \<open>Reports\<close>

text \<open>\<open>nyx_report_crash\<close> copies the message into an aligned page and then passes the message
  itself: the copy, the first component, is not used.\<close>

definition nyx_report_crash :: "bytes \<Rightarrow> nyx \<Rightarrow> bytes \<times> nyx" where
  "nyx_report_crash m st = (take 0xfff (c_str m), hypercall (HC_Panic_Extended (c_str m)) st)"

definition nyx_html_dump :: "bytes \<Rightarrow> u32 \<Rightarrow> u32 \<Rightarrow> nyx \<Rightarrow> nyx" where
  "nyx_html_dump buffer n core st =
     (if n = 0 then st
      else (let (name, st) =
              (case nx_html_dump_obj st of
                 None \<Rightarrow> (let name = cs ''html_'' @ fmt_d (sint core)
                         in (name, hypercall (HC_Dump_File name False []) (st\<lparr>nx_html_dump_obj := Some name\<rparr>)))
               | Some name \<Rightarrow> (name, st))
            in hypercall (HC_Dump_File name True (take (unat n) buffer)) st))"

subsection \<open>The bitmap\<close>

definition nyx_bitmap_ok :: "nyx \<Rightarrow> bool" where
  "nyx_bitmap_ok st \<longleftrightarrow> hc_bitmap_size (nx_host_config st) \<noteq> 0 \<and>
     (\<exists>buf. nx_trace_buffer st = Some buf \<and> unat (hc_bitmap_size (nx_host_config st)) \<le> length buf)"

lemma MMAP_SIZE_greater: "unat x < MMAP_SIZE x"
  using div_mult_mod_eq [of "unat x" PAGE_SIZE] mod_less_divisor [of PAGE_SIZE "unat x"]
  by (simp add: MMAP_SIZE_def PAGE_SIZE_def)

lemma capabilites_configuration_ok:
  assumes "\<not> nx_done st" "hc_bitmap_size host \<noteq> 0"
  shows "nyx_bitmap_ok (capabilites_configuration host (Some (i, a)) payload t tr ij st)"
    and "nx_fault (capabilites_configuration host (Some (i, a)) payload t tr ij st) = nx_fault st"
    and "nx_trace_buffer (capabilites_configuration host (Some (i, a)) payload t tr ij st) =
           Some (replicate (MMAP_SIZE (hc_bitmap_size host)) 0)"
    and "nx_host_config (capabilites_configuration host (Some (i, a)) payload t tr ij st) = host"
    and "nx_shm_id (capabilites_configuration host (Some (i, a)) payload t tr ij st) = i"
proof -
  have le: "unat (hc_bitmap_size host) \<le> MMAP_SIZE (hc_bitmap_size host)"
    using MMAP_SIZE_greater less_imp_le by blast
  then have "replicate (unat (hc_bitmap_size host)) (0 :: u8) @
      drop (unat (hc_bitmap_size host)) (replicate (MMAP_SIZE (hc_bitmap_size host)) 0) =
      replicate (MMAP_SIZE (hc_bitmap_size host)) 0"
    by (simp flip: replicate_add)
  then show "nyx_bitmap_ok (capabilites_configuration host (Some (i, a)) payload t tr ij st)"
    "nx_fault (capabilites_configuration host (Some (i, a)) payload t tr ij st) = nx_fault st"
    "nx_trace_buffer (capabilites_configuration host (Some (i, a)) payload t tr ij st) =
           Some (replicate (MMAP_SIZE (hc_bitmap_size host)) 0)"
    "nx_host_config (capabilites_configuration host (Some (i, a)) payload t tr ij st) = host"
    "nx_shm_id (capabilites_configuration host (Some (i, a)) payload t tr ij st) = i"
    using assms le
    by (simp_all add: capabilites_configuration_def clear_buffer_def hypercall_def nyx_bitmap_ok_def Let_def)
qed

lemma and_7_less: "unat (x AND 7 :: u32) < 8"
  using word_and_le1 [of x 7] by (simp add: word_le_nat_alt)

text \<open>C30: the agent's own feedback stays in the bitmap and is rationed. After the set-up for any
  bitmap size but 0, \<open>nyx_set_bitmap\<close> sets one byte inside the shared buffer and nothing else;
  and for one key, whatever the offsets are, at most 8 entries can ever be set.\<close>

theorem nyx_set_bitmap_bounded:
  assumes "nyx_bitmap_ok st"
  shows "(\<exists>i buf. nx_trace_buffer st = Some buf \<and> i < length buf \<and>
      i < unat (hc_bitmap_size (nx_host_config st)) \<and>
      nyx_set_bitmap k offset st = st\<lparr>nx_trace_buffer := Some (buf[i := 1])\<rparr>) \<and>
    card ((\<lambda>offset. nx_trace_buffer (nyx_set_bitmap k offset st)) ` UNIV) \<le> 8"
proof (rule conjI)
  let ?n = "hc_bitmap_size (nx_host_config st)"
  obtain buf where buf: "nx_trace_buffer st = Some buf" "unat ?n \<le> length buf" and n: "?n \<noteq> 0"
    using assms by (auto simp: nyx_bitmap_ok_def)
  define idx where "idx = (\<lambda>j. (k + j) AND (?n - 1))"
  have bound: "unat (idx j) < unat ?n" for j
  proof -
    have "unat (idx j) \<le> unat (?n - 1)"
      using word_and_le1 [of "k + j" "?n - 1"] by (simp add: idx_def word_le_nat_alt)
    also have "\<dots> < unat ?n" using n by (rule measure_unat)
    finally show ?thesis .
  qed
  have set: "nyx_set_bitmap k off st = st\<lparr>nx_trace_buffer := Some (buf[unat (idx (off AND 7)) := 1])\<rparr>" for off
    using bound [of "off AND 7"] buf by (simp add: nyx_set_bitmap_def set_byte_def idx_def)
  show "\<exists>i buf. nx_trace_buffer st = Some buf \<and> i < length buf \<and> i < unat ?n \<and>
      nyx_set_bitmap k offset st = st\<lparr>nx_trace_buffer := Some (buf[i := 1])\<rparr>"
    using bound [of "offset AND 7"] buf set by (intro exI [of _ "unat (idx (offset AND 7))"]) auto
  have "(\<lambda>off. nx_trace_buffer (nyx_set_bitmap k off st)) ` UNIV \<subseteq>
      (\<lambda>j. Some (buf[unat (idx (word_of_nat j)) := 1])) ` {..<8}"
  proof
    fix b assume "b \<in> (\<lambda>off. nx_trace_buffer (nyx_set_bitmap k off st)) ` UNIV"
    then obtain off :: u32 where b: "b = Some (buf[unat (idx (off AND 7)) := 1])" by (auto simp: set)
    show "b \<in> (\<lambda>j. Some (buf[unat (idx (word_of_nat j)) := 1])) ` {..<8}"
      using and_7_less [of off] b by (intro image_eqI [of _ _ "unat (off AND 7)"]) simp_all
  qed
  then have "card ((\<lambda>off. nx_trace_buffer (nyx_set_bitmap k off st)) ` UNIV) \<le>
      card ((\<lambda>j. Some (buf[unat (idx (word_of_nat j)) := 1])) ` {..<8 :: nat})"
    by (intro card_mono) simp_all
  also have "\<dots> \<le> 8" using card_image_le [of "{..<8 :: nat}"] by simp
  finally show "card ((\<lambda>offset. nx_trace_buffer (nyx_set_bitmap k offset st)) ` UNIV) \<le> 8" .
qed

definition idle_nyx :: nyx where
  "idle_nyx = \<lparr>nx_trace_buffer = None, nx_payload_buffer = None,
     nx_host_config = \<lparr>hc_bitmap_size = 0, hc_ijon_bitmap_size = 0, hc_payload_buffer_size = 0\<rparr>,
     nx_agent_config = zero_agent_config, nx_shm_id = 0, nx_done = False, nx_html_dump_obj = None,
     nx_calls = [], nx_fault = False\<rparr>"

definition example_host :: host_config where
  "example_host = \<lparr>hc_bitmap_size = 65536, hc_ijon_bitmap_size = 4096, hc_payload_buffer_size = 131072\<rparr>"

definition set_up :: nyx where
  "set_up = nyx_init example_host (Some (5, 0x10000)) \<lparr>pl_size = 0, pl_data = []\<rparr> idle_nyx"

lemma set_up_ok: "nyx_bitmap_ok set_up" "nx_host_config set_up = example_host"
  by (simp_all add: set_up_def nyx_init_def capabilites_configuration_ok idle_nyx_def example_host_def)

theorem nyx_set_bitmap_bounded_witness:
  "\<exists>i buf. nx_trace_buffer set_up = Some buf \<and> i < length buf \<and> i < 65536 \<and>
     nyx_set_bitmap 65535 9 set_up = set_up\<lparr>nx_trace_buffer := Some (buf[i := 1])\<rparr>"
  using nyx_set_bitmap_bounded [OF set_up_ok(1), of 65535 9] by (simp add: set_up_ok(2) example_host_def)

subsection \<open>Defects\<close>

text \<open>An empty payload is taken for one of almost 4 GB, the set-up can run again, and a crash
  report is not cut to a page.\<close>

lemma nyx_empty_payload: "nyx_get_payload_len set_up = Some 0xfffffffc"
  by (simp add: set_up_def nyx_init_def capabilites_configuration_def hypercall_def idle_nyx_def
      clear_buffer_def nyx_get_payload_len_def Let_def split: option.split)

lemma nyx_set_up_repeats:
  "\<not> nx_done st \<Longrightarrow> \<not> nx_done (capabilites_configuration host shm payload t tr ij st)"
  by (simp add: capabilites_configuration_def hypercall_def clear_buffer_def Let_def split: option.split)

lemma nyx_report_not_cut:
  "nx_calls (snd (nyx_report_crash (replicate 5000 65) st)) = nx_calls st @ [HC_Panic_Extended (replicate 5000 65)]"
proof -
  have "c_str (replicate 5000 65) = replicate 5000 65" by (rule c_str_id) simp
  then show ?thesis by (simp add: nyx_report_crash_def hypercall_def)
qed

end
