(* ===== verification/Zend_String.thy ===== *)
theory Zend_String
  imports C_Prelude
begin

text \<open>
  Strings of the engine, \<open>php-7.4-patched/Zend/zend_string.h\<close> and \<open>zend_string.c\<close>: the hash
  function and its cache in the string, and the comparisons, which the fuzzer's patch makes
  report their operands. The hash function is the variant for x86-64, unrolled by eight; it is
  shown to be the plain "times 33" fold.
\<close>

text \<open>The calls of the hooks: \<open>zend_string_equal_val_callback\<close>, \<open>zend_array_access_callback\<close>
  and \<open>zend_redqueen_callback\<close> with the type \<open>REDQUEEN_ARRAY_ACCESS\<close>. A call is made when the
  extension has installed the hook; \<open>deliver\<close> of the theory \<open>Engine_Hooks\<close> says what it does then.\<close>

datatype hook_call = Cmp_Call bytes bytes | Access_Call bytes | Redqueen_Call bytes

text \<open>A \<open>zend_string\<close>: its address, the cached hash (0 when not yet computed), the bytes
  behind the length, and whether it is interned. Reference counts are not modelled.\<close>

record zend_string =
  zs_addr :: nat
  zs_h :: u64
  zs_val :: bytes
  zs_interned :: bool

subsection \<open>The hash function\<close>

text \<open>A \<open>char\<close> is signed on x86-64: its value is extended with its sign.\<close>

abbreviation char_val :: "u8 \<Rightarrow> u64" where "char_val \<equiv> scast"

definition hash4 :: "u64 \<Rightarrow> u8 \<Rightarrow> u8 \<Rightarrow> u8 \<Rightarrow> u8 \<Rightarrow> u64" where
  "hash4 h a b c d = h * 33 * 33 * 33 * 33 + char_val a * 33 * 33 * 33 + char_val b * 33 * 33 +
     char_val c * 33 + char_val d"

text \<open>What follows the loop: at most seven bytes.\<close>

fun hash_tail2 :: "u64 \<Rightarrow> bytes \<Rightarrow> u64" where
  "hash_tail2 h [a, b, c] = h * 33 * 33 * 33 + char_val a * 33 * 33 + char_val b * 33 + char_val c"
| "hash_tail2 h [a, b] = h * 33 * 33 + char_val a * 33 + char_val b"
| "hash_tail2 h [a] = h * 33 + char_val a"
| "hash_tail2 h s = h"

fun hash_tail :: "u64 \<Rightarrow> bytes \<Rightarrow> u64" where
  "hash_tail h (a # b # c # d # s) = hash_tail2 (hash4 h a b c d) s"
| "hash_tail h s = hash_tail2 h s"

fun hash_loop :: "u64 \<Rightarrow> bytes \<Rightarrow> u64" where
  "hash_loop h (a # b # c # d # e # f # g # i # s) = hash_loop (hash4 (hash4 h a b c d) e f g i) s"
| "hash_loop h s = hash_tail h s"

definition zend_inline_hash_func :: "bytes \<Rightarrow> u64" where
  "zend_inline_hash_func str = hash_loop 5381 str OR 0x8000000000000000"

definition zend_hash_func :: "bytes \<Rightarrow> u64" where
  "zend_hash_func str = zend_inline_hash_func str"

definition zend_string_hash_func :: "zend_string \<Rightarrow> zend_string" where
  "zend_string_hash_func s = s\<lparr>zs_h := zend_hash_func (zs_val s)\<rparr>"

text \<open>\<open>zend_string_hash_val\<close> computes the hash at the first call; the string with the hash in
  its cache is returned.\<close>

definition zend_string_hash_val :: "zend_string \<Rightarrow> zend_string" where
  "zend_string_hash_val s = (if zs_h s = 0 then zend_string_hash_func s else s)"

subsection \<open>Comparisons\<close>

text \<open>\<open>zend_string_equal_val\<close> compares the bytes, of equal length when it is called, and reports
  its operands as its caller \<open>zend_string_equal_content\<close> already has. The calls are returned
  beside the result.\<close>

definition zend_string_equal_val :: "zend_string \<Rightarrow> zend_string \<Rightarrow> bool \<times> hook_call list" where
  "zend_string_equal_val s1 s2 =
     (take (length (zs_val s1)) (zs_val s2) = zs_val s1, [Cmp_Call (zs_val s1) (zs_val s2)])"

definition zend_string_equal_content :: "zend_string \<Rightarrow> zend_string \<Rightarrow> bool \<times> hook_call list" where
  "zend_string_equal_content s1 s2 =
     (let calls = [Cmp_Call (zs_val s1) (zs_val s2)]
      in if length (zs_val s1) = length (zs_val s2)
         then (let (eq, more) = zend_string_equal_val s1 s2 in (eq, calls @ more))
         else (False, calls))"

definition zend_string_equals :: "zend_string \<Rightarrow> zend_string \<Rightarrow> bool \<times> hook_call list" where
  "zend_string_equals s1 s2 =
     (let calls = [Cmp_Call (zs_val s1) (zs_val s2)]
      in if zs_addr s1 = zs_addr s2 then (True, calls)
         else (let (eq, more) = zend_string_equal_content s1 s2 in (eq, calls @ more)))"

subsection \<open>Facts\<close>

text \<open>The reference: times 33 with addition, byte by byte.\<close>

definition djbx33a :: "u64 \<Rightarrow> bytes \<Rightarrow> u64" where
  "djbx33a h s = fold (\<lambda>c h. h * 33 + char_val c) s h"

lemma djbx33a_Cons: "djbx33a h (c # s) = djbx33a (h * 33 + char_val c) s"
  by (simp add: djbx33a_def)

lemma hash4_eq: "djbx33a h (a # b # c # d # s) = djbx33a (hash4 h a b c d) s"
  by (simp add: djbx33a_Cons hash4_def algebra_simps)

lemma hash_tail2_eq: "length s < 4 \<Longrightarrow> hash_tail2 h s = djbx33a h s"
  by (induction h s rule: hash_tail2.induct) (simp_all add: djbx33a_def algebra_simps)

lemma hash_tail_eq: "length s < 8 \<Longrightarrow> hash_tail h s = djbx33a h s"
proof (induction h s rule: hash_tail.induct)
  case (1 h a b c d s)
  then show ?case by (simp add: hash4_eq hash_tail2_eq)
qed (simp_all add: djbx33a_def algebra_simps)

lemma hash_loop_eq: "hash_loop h s = djbx33a h s"
proof (induction h s rule: hash_loop.induct)
  case (1 h a b c d e f g i s)
  then show ?case by (simp add: hash4_eq)
qed (simp_all add: djbx33a_def hash4_def algebra_simps)

lemma hash_func_nonzero [simp]: "zend_hash_func s \<noteq> 0"
proof
  assume "zend_hash_func s = 0"
  then have "bit (zend_hash_func s) 63 = bit (0 :: u64) 63" by simp
  then show False by (simp add: zend_hash_func_def zend_inline_hash_func_def bit_simps)
qed

text \<open>A string whose cache is empty or right; interned strings have their hash computed.\<close>

definition zstr_ok :: "zend_string \<Rightarrow> bool" where
  "zstr_ok s \<longleftrightarrow> zs_h s = zend_hash_func (zs_val s) \<or> zs_h s = 0 \<and> \<not> zs_interned s"

lemma zend_string_hash_val_ok:
  "zstr_ok s \<Longrightarrow> zend_string_hash_val s = s\<lparr>zs_h := zend_hash_func (zs_val s)\<rparr>"
  by (auto simp: zstr_ok_def zend_string_hash_val_def zend_string_hash_func_def)

lemma equal_content_iff: "fst (zend_string_equal_content s1 s2) \<longleftrightarrow> zs_val s1 = zs_val s2"
  by (auto simp: zend_string_equal_content_def zend_string_equal_val_def Let_def)

end
