(* ===== verification/Zend_Hash.thy ===== *)
theory Zend_Hash
  imports Zend_String "HOL-Library.Monad_Syntax"
begin

text \<open>
  The arrays of PHP, \<open>php-7.4-patched/Zend/zend_hash.c\<close>, with the hooks that the fuzzer's patch
  adds to the lookups. A table is either packed, a vector indexed by the integer keys, or a hash
  table with collision chains through its buckets; both keep their elements in the order of
  insertion, and a deletion leaves a hole.

  A read outside the allocated memory or of memory that nothing was written to is \<open>None\<close>, and so
  is a collision chain that never ends. \<open>zend_error_noreturn\<close> sets \<open>ht_bailout\<close> and ends the
  operation. Allocation succeeds. Not modelled are reference counts and copy on write, and
  destructors that change the table they are called from.
\<close>

subsection \<open>Data\<close>

text \<open>A value is undefined (a hole), a pointer to a variable slot, or any other value.\<close>

datatype 'v zval = IS_UNDEF | IS_INDIRECT nat | ZV 'v

record 'v bucket =
  b_val :: "'v zval"
  b_next :: u32
  b_h :: u64
  b_key :: "zend_string option"

datatype 'v ht_event = Hook hook_call | Dtor "'v zval"

text \<open>A \<open>HashTable\<close>. The flags are one field each; \<open>arHash\<close> is the part of the allocation in front
  of \<open>arData\<close>, where \<open>None\<close> is a bucket that was never written. \<open>ht_iters\<close> holds the positions of
  the entries of \<open>EG(ht_iterators)\<close> that belong to this table, \<open>ht_slots\<close> the variables that
  \<open>IS_INDIRECT\<close> values point to, and \<open>ht_log\<close> the calls of hooks and destructors.\<close>

record 'v hashtable =
  f_packed :: bool
  f_uninitialized :: bool
  f_static_keys :: bool
  f_has_empty_ind :: bool
  nIteratorsCount :: u8
  ht_persistent :: bool
  nTableMask :: u32
  arHash :: "u32 list"
  arData :: "'v bucket option list"
  nNumUsed :: u32
  nNumOfElements :: u32
  nTableSize :: u32
  nInternalPointer :: u32
  nNextFreeElement :: u64
  pDestructor :: bool
  ht_iters :: "u32 list"
  ht_slots :: "nat \<Rightarrow> 'v zval"
  ht_log :: "'v ht_event list"
  ht_bailout :: bool

abbreviation (input) HT_INVALID_IDX :: u32 where "HT_INVALID_IDX \<equiv> 0xFFFFFFFF"
abbreviation (input) HT_MIN_MASK :: u32 where "HT_MIN_MASK \<equiv> 0xFFFFFFFE"
abbreviation (input) HT_MIN_SIZE :: u32 where "HT_MIN_SIZE \<equiv> 8"
abbreviation (input) HT_MAX_SIZE :: u32 where "HT_MAX_SIZE \<equiv> 0x80000000"

abbreviation (input) HASH_UPDATE :: u32 where "HASH_UPDATE \<equiv> 1"
abbreviation (input) HASH_ADD :: u32 where "HASH_ADD \<equiv> 2"
abbreviation (input) HASH_UPDATE_INDIRECT :: u32 where "HASH_UPDATE_INDIRECT \<equiv> 4"
abbreviation (input) HASH_ADD_NEW :: u32 where "HASH_ADD_NEW \<equiv> 8"
abbreviation (input) HASH_ADD_NEXT :: u32 where "HASH_ADD_NEXT \<equiv> 16"

definition HT_SIZE_TO_MASK :: "u32 \<Rightarrow> u32" where
  "HT_SIZE_TO_MASK n = - (n + n)"

text \<open>The offset of a hash cell from the start of the allocation: \<open>nIndex\<close> and the mask are
  negative offsets from \<open>arData\<close>.\<close>

definition hash_cell :: "u32 \<Rightarrow> u32 \<Rightarrow> nat" where
  "hash_cell table_mask nIndex = unat (nIndex - table_mask)"

definition HT_HASH :: "'v hashtable \<Rightarrow> u32 \<Rightarrow> u32 option" where
  "HT_HASH ht nIndex = nth_opt (arHash ht) (hash_cell (nTableMask ht) nIndex)"

definition set_hash :: "'v hashtable \<Rightarrow> u32 \<Rightarrow> u32 \<Rightarrow> 'v hashtable option" where
  "set_hash ht nIndex idx =
     (let c = hash_cell (nTableMask ht) nIndex
      in if c < length (arHash ht) then Some (ht\<lparr>arHash := (arHash ht)[c := idx]\<rparr>) else None)"

definition HT_HASH_RESET :: "'v hashtable \<Rightarrow> 'v hashtable" where
  "HT_HASH_RESET ht = ht\<lparr>arHash := replicate (unat (- nTableMask ht)) HT_INVALID_IDX\<rparr>"

definition n_index :: "'v hashtable \<Rightarrow> u64 \<Rightarrow> u32" where
  "n_index ht h = ucast h OR nTableMask ht"

definition bucket_in :: "'v bucket option list \<Rightarrow> nat \<Rightarrow> 'v bucket option" where
  "bucket_in d i = Option.bind (nth_opt d i) (\<lambda>b. b)"

definition put_bucket :: "'v hashtable \<Rightarrow> nat \<Rightarrow> 'v bucket \<Rightarrow> 'v hashtable option" where
  "put_bucket ht i b =
     (if i < length (arData ht) then Some (ht\<lparr>arData := (arData ht)[i := Some b]\<rparr>) else None)"

text \<open>A bucket about to be written: what it holds already, or nothing in particular.\<close>

definition bucket_or_raw :: "'v hashtable \<Rightarrow> nat \<Rightarrow> 'v bucket" where
  "bucket_or_raw ht i = (case bucket_in (arData ht) i of
     Some b \<Rightarrow> b | None \<Rightarrow> \<lparr>b_val = IS_UNDEF, b_next = 0, b_h = 0, b_key = None\<rparr>)"

definition log_event :: "'v ht_event list \<Rightarrow> 'v hashtable \<Rightarrow> 'v hashtable" where
  "log_event evs ht = ht\<lparr>ht_log := ht_log ht @ evs\<rparr>"

definition bailout :: "'v hashtable \<Rightarrow> 'v hashtable" where
  "bailout ht = ht\<lparr>ht_bailout := True\<rparr>"

subsection \<open>Sizes and initialisation\<close>

text \<open>\<open>__builtin_clz\<close>, for a word that is not 0.\<close>

definition builtin_clz :: "u32 \<Rightarrow> nat" where
  "builtin_clz w = length (takeWhile (\<lambda>i. \<not> bit w i) (rev [0..<32]))"

text \<open>\<open>zend_hash_check_size\<close> with the builtin, and with the portable shifts; \<open>None\<close> is the fatal
  error.\<close>

definition zend_hash_check_size :: "u32 \<Rightarrow> u32 option" where
  "zend_hash_check_size nSize =
     (if nSize \<le> HT_MIN_SIZE then Some HT_MIN_SIZE
      else if nSize \<ge> HT_MAX_SIZE then None
      else Some (push_bit (unat ((word_of_nat (builtin_clz (nSize - 1)) :: u32) XOR 0x1f)) 2))"

definition check_size_portable :: "u32 \<Rightarrow> u32 option" where
  "check_size_portable nSize =
     (if nSize \<le> HT_MIN_SIZE then Some HT_MIN_SIZE
      else if nSize \<ge> HT_MAX_SIZE then None
      else (let n = nSize - 1;
                n = n OR drop_bit 1 n;
                n = n OR drop_bit 2 n;
                n = n OR drop_bit 4 n;
                n = n OR drop_bit 8 n;
                n = n OR drop_bit 16 n
            in Some (n + 1)))"

text \<open>\<open>_zend_hash_init_int\<close>. The static \<open>uninitialized_bucket\<close> has two hash cells and no bucket;
  no iterator points into a new table.\<close>

definition zend_hash_init_int :: "u32 \<Rightarrow> bool \<Rightarrow> bool \<Rightarrow> (nat \<Rightarrow> 'v zval) \<Rightarrow> 'v hashtable option" where
  "zend_hash_init_int nSize dtor persistent slots =
     do { n \<leftarrow> zend_hash_check_size nSize;
          Some \<lparr>f_packed = False, f_uninitialized = True, f_static_keys = False, f_has_empty_ind = False,
            nIteratorsCount = 0, ht_persistent = persistent, nTableMask = HT_MIN_MASK,
            arHash = [HT_INVALID_IDX, HT_INVALID_IDX], arData = [], nNumUsed = 0, nNumOfElements = 0,
            nTableSize = n, nInternalPointer = 0, nNextFreeElement = 0, pDestructor = dtor,
            ht_iters = [], ht_slots = slots, ht_log = [], ht_bailout = False\<rparr> }"

definition zend_new_array :: "u32 \<Rightarrow> (nat \<Rightarrow> 'v zval) \<Rightarrow> 'v hashtable option" where
  "zend_new_array nSize slots = zend_hash_init_int nSize True False slots"

definition HT_HASH_RESET_PACKED :: "'v hashtable \<Rightarrow> 'v hashtable" where
  "HT_HASH_RESET_PACKED ht = ht\<lparr>arHash := [HT_INVALID_IDX, HT_INVALID_IDX]\<rparr>"

text \<open>The assignment to the byte \<open>u.v.flags\<close> leaves the iterator count alone.\<close>

definition zend_hash_real_init_packed_ex :: "'v hashtable \<Rightarrow> 'v hashtable" where
  "zend_hash_real_init_packed_ex ht =
     HT_HASH_RESET_PACKED (ht\<lparr>arData := replicate (unat (nTableSize ht)) None,
       f_packed := True, f_static_keys := True, f_uninitialized := False, f_has_empty_ind := False\<rparr>)"

text \<open>The assignment to the word \<open>u.flags\<close> also clears the iterator count.\<close>

definition zend_hash_real_init_mixed_ex :: "'v hashtable \<Rightarrow> 'v hashtable" where
  "zend_hash_real_init_mixed_ex ht =
     (let nSize = nTableSize ht;
          ht' = ht\<lparr>nTableMask := HT_SIZE_TO_MASK nSize, arData := replicate (unat nSize) None,
                   f_packed := False, f_static_keys := True, f_uninitialized := False,
                   f_has_empty_ind := False\<rparr>
      in if \<not> ht_persistent ht \<and> nSize = HT_MIN_SIZE
         then ht'\<lparr>arHash := replicate 16 HT_INVALID_IDX\<rparr>
         else HT_HASH_RESET (ht'\<lparr>nIteratorsCount := 0\<rparr>))"

definition zend_hash_real_init :: "'v hashtable \<Rightarrow> bool \<Rightarrow> 'v hashtable" where
  "zend_hash_real_init ht packed =
     (if packed then zend_hash_real_init_packed_ex ht else zend_hash_real_init_mixed_ex ht)"

text \<open>\<open>zend_new_pair\<close>: a packed array of two values.\<close>

definition zend_new_pair :: "'v zval \<Rightarrow> 'v zval \<Rightarrow> (nat \<Rightarrow> 'v zval) \<Rightarrow> 'v hashtable option" where
  "zend_new_pair val1 val2 slots =
     do { ht \<leftarrow> zend_hash_init_int HT_MIN_SIZE True False slots;
          let ht = zend_hash_real_init_packed_ex
                (ht\<lparr>nNumUsed := 2, nNumOfElements := 2, nNextFreeElement := 2\<rparr>);
          ht \<leftarrow> put_bucket ht 0 ((bucket_or_raw ht 0)\<lparr>b_val := val1, b_h := 0, b_key := None\<rparr>);
          put_bucket ht 1 ((bucket_or_raw ht 1)\<lparr>b_val := val2, b_h := 1, b_key := None\<rparr>) }"

text \<open>A new allocation for \<open>n\<close> buckets into which the used buckets are copied.\<close>

definition copy_buckets :: "'v hashtable \<Rightarrow> u32 \<Rightarrow> 'v hashtable option" where
  "copy_buckets ht n =
     (let used = unat (nNumUsed ht)
      in if used \<le> length (arData ht) \<and> used \<le> unat n
         then Some (ht\<lparr>arData := take used (arData ht) @ replicate (unat n - used) None\<rparr>)
         else None)"

definition zend_hash_packed_grow :: "'v hashtable \<Rightarrow> 'v hashtable option" where
  "zend_hash_packed_grow ht =
     (if nTableSize ht \<ge> HT_MAX_SIZE then Some (bailout ht)
      else (let ht = ht\<lparr>nTableSize := nTableSize ht + nTableSize ht\<rparr> in copy_buckets ht (nTableSize ht)))"

subsection \<open>Iterators\<close>

definition zend_hash_iterators_lower_pos :: "'v hashtable \<Rightarrow> u32 \<Rightarrow> u32" where
  "zend_hash_iterators_lower_pos ht start =
     fold (\<lambda>pos res. if pos \<ge> start \<and> pos < res then pos else res) (ht_iters ht) (nNumUsed ht)"

definition zend_hash_iterators_update_all :: "'v hashtable \<Rightarrow> u32 \<Rightarrow> u32 \<Rightarrow> 'v hashtable" where
  "zend_hash_iterators_update_all ht from to =
     ht\<lparr>ht_iters := map (\<lambda>pos. if pos = from then to else pos) (ht_iters ht)\<rparr>"

text \<open>The inline \<open>zend_hash_iterators_update\<close> of \<open>zend_hash.h\<close>.\<close>

definition zend_hash_iterators_update :: "'v hashtable \<Rightarrow> u32 \<Rightarrow> u32 \<Rightarrow> 'v hashtable" where
  "zend_hash_iterators_update ht from to =
     (if nIteratorsCount ht \<noteq> 0 then zend_hash_iterators_update_all ht from to else ht)"

definition zend_hash_iterators_advance :: "'v hashtable \<Rightarrow> u32 \<Rightarrow> 'v hashtable" where
  "zend_hash_iterators_advance ht step = ht\<lparr>ht_iters := map (\<lambda>pos. pos + step) (ht_iters ht)\<rparr>"

subsection \<open>Rehashing\<close>

text \<open>A bucket is stored at position \<open>j\<close> in front of the chain of its hash.\<close>

definition link_bucket :: "'v hashtable \<Rightarrow> nat \<Rightarrow> 'v bucket \<Rightarrow> 'v hashtable option" where
  "link_bucket ht j b =
     do { let nIndex = n_index ht (b_h b);
          head \<leftarrow> HT_HASH ht nIndex;
          ht \<leftarrow> put_bucket ht j (b\<lparr>b_next := head\<rparr>);
          set_hash ht nIndex (word_of_nat j) }"

text \<open>The loop over a table without holes: \<open>n\<close> buckets from \<open>i\<close> on.\<close>

fun rehash_full :: "nat \<Rightarrow> nat \<Rightarrow> 'v hashtable \<Rightarrow> 'v hashtable option" where
  "rehash_full 0 i ht = Some ht"
| "rehash_full (Suc n) i ht =
     do { b \<leftarrow> bucket_in (arData ht) i;
          ht \<leftarrow> link_bucket ht i b;
          rehash_full n (Suc i) ht }"

text \<open>The inner loop that moves the iterators up to the bucket that goes from \<open>i\<close> to \<open>j\<close>.\<close>

partial_function (option) move_iterators ::
    "nat \<Rightarrow> nat \<Rightarrow> u32 \<Rightarrow> 'v hashtable \<Rightarrow> (u32 \<times> 'v hashtable) option" where [code]:
  "move_iterators i j iter_pos ht =
     (let ht = zend_hash_iterators_update ht iter_pos (word_of_nat j);
          iter_pos = zend_hash_iterators_lower_pos ht (iter_pos + 1)
      in if iter_pos < word_of_nat i then move_iterators i j iter_pos ht else Some (iter_pos, ht))"

text \<open>The loop that closes the holes, with \<open>n\<close> buckets from \<open>i\<close> on to move down to \<open>j\<close>.\<close>

fun rehash_compact :: "nat \<Rightarrow> nat \<Rightarrow> nat \<Rightarrow> u32 \<Rightarrow> 'v hashtable \<Rightarrow> 'v hashtable option" where
  "rehash_compact 0 i j iter_pos ht = Some (ht\<lparr>nNumUsed := word_of_nat j\<rparr>)"
| "rehash_compact (Suc n) i j iter_pos ht =
     do { b \<leftarrow> bucket_in (arData ht) i;
          if b_val b = IS_UNDEF then rehash_compact n (Suc i) j iter_pos ht
          else do {
            ht \<leftarrow> link_bucket ht j b;
            let ht = (if nInternalPointer ht = word_of_nat i
                      then ht\<lparr>nInternalPointer := word_of_nat j\<rparr> else ht);
            (iter_pos, ht) \<leftarrow> (if nIteratorsCount ht \<noteq> 0 \<and> iter_pos \<le> word_of_nat i
                               then move_iterators i j iter_pos ht else Some (iter_pos, ht));
            rehash_compact n (Suc i) (Suc j) iter_pos ht } }"

text \<open>The loop up to the first hole.\<close>

fun rehash_holes :: "nat \<Rightarrow> nat \<Rightarrow> 'v hashtable \<Rightarrow> 'v hashtable option" where
  "rehash_holes 0 i ht = Some ht"
| "rehash_holes (Suc n) i ht =
     do { b \<leftarrow> bucket_in (arData ht) i;
          if b_val b = IS_UNDEF
          then rehash_compact n (Suc i) i (zend_hash_iterators_lower_pos ht 0) ht
          else do { ht \<leftarrow> link_bucket ht i b; rehash_holes n (Suc i) ht } }"

definition zend_hash_rehash :: "'v hashtable \<Rightarrow> 'v hashtable option" where
  "zend_hash_rehash ht =
     (if nNumOfElements ht = 0
      then Some (if f_uninitialized ht then ht else HT_HASH_RESET (ht\<lparr>nNumUsed := 0\<rparr>))
      else (let ht = HT_HASH_RESET ht; old_num_used = nNumUsed ht; n = max 1 (unat old_num_used)
            in if nNumUsed ht = nNumOfElements ht then rehash_full n 0 ht
               else do { ht \<leftarrow> rehash_holes n 0 ht;
                         Some (if nIteratorsCount ht \<noteq> 0
                               then zend_hash_iterators_update_all ht old_num_used (nNumUsed ht)
                               else ht) }))"

text \<open>The new hash part of an allocation is not initialised; \<open>zend_hash_rehash\<close> does that.\<close>

definition zend_hash_packed_to_hash :: "'v hashtable \<Rightarrow> 'v hashtable option" where
  "zend_hash_packed_to_hash ht =
     do { let ht = ht\<lparr>f_packed := False, nTableMask := HT_SIZE_TO_MASK (nTableSize ht)\<rparr>;
          ht \<leftarrow> copy_buckets ht (nTableSize ht);
          zend_hash_rehash ht }"

definition zend_hash_to_packed :: "'v hashtable \<Rightarrow> 'v hashtable option" where
  "zend_hash_to_packed ht =
     do { let ht = HT_HASH_RESET_PACKED
                (ht\<lparr>f_packed := True, f_static_keys := True, nTableMask := HT_MIN_MASK\<rparr>);
          copy_buckets ht (nTableSize ht) }"

definition zend_hash_do_resize :: "'v hashtable \<Rightarrow> 'v hashtable option" where
  "zend_hash_do_resize ht =
     (if nNumOfElements ht + drop_bit 5 (nNumOfElements ht) < nNumUsed ht then zend_hash_rehash ht
      else if nTableSize ht < HT_MAX_SIZE
      then do { let nSize = nTableSize ht + nTableSize ht;
                let ht = ht\<lparr>nTableSize := nSize, nTableMask := HT_SIZE_TO_MASK nSize\<rparr>;
                ht \<leftarrow> copy_buckets ht nSize;
                zend_hash_rehash ht }
      else Some (bailout ht))"

definition ZEND_HASH_IF_FULL_DO_RESIZE :: "'v hashtable \<Rightarrow> 'v hashtable option" where
  "ZEND_HASH_IF_FULL_DO_RESIZE ht =
     (if nNumUsed ht \<ge> nTableSize ht then zend_hash_do_resize ht else Some ht)"

text \<open>\<open>zend_hash_extend\<close>; \<open>None\<close> also for the violated assertion on the kind of table.\<close>

definition zend_hash_extend :: "'v hashtable \<Rightarrow> u32 \<Rightarrow> bool \<Rightarrow> 'v hashtable option" where
  "zend_hash_extend ht nSize packed =
     (if nSize = 0 then Some ht
      else if f_uninitialized ht
      then (if nTableSize ht < nSize
            then (case zend_hash_check_size nSize of
                    None \<Rightarrow> Some (bailout ht)
                  | Some n \<Rightarrow> Some (zend_hash_real_init (ht\<lparr>nTableSize := n\<rparr>) packed))
            else Some (zend_hash_real_init ht packed))
      else if packed \<noteq> f_packed ht then None
      else if nTableSize ht < nSize
      then (case zend_hash_check_size nSize of
              None \<Rightarrow> Some (bailout ht)
            | Some n \<Rightarrow>
                if packed then copy_buckets (ht\<lparr>nTableSize := n\<rparr>) n
                else do { ht \<leftarrow> copy_buckets (ht\<lparr>nTableSize := n, nTableMask := HT_SIZE_TO_MASK n\<rparr>) n;
                          zend_hash_rehash ht })
      else Some ht)"

subsection \<open>Lookups\<close>

text \<open>The loop of \<open>zend_hash_find_bucket\<close> from the bucket at \<open>idx\<close>; \<open>calls\<close> are the hook calls made
  so far.\<close>

definition key_is :: "zend_string \<Rightarrow> 'v bucket \<Rightarrow> bool" where
  "key_is key p = (case b_key p of Some k \<Rightarrow> zs_addr k = zs_addr key | None \<Rightarrow> False)"

definition content_is :: "zend_string \<Rightarrow> 'v bucket \<Rightarrow> bool \<times> hook_call list" where
  "content_is key p =
     (case b_key p of Some k \<Rightarrow> if b_h p = zs_h key then zend_string_equal_content k key else (False, [])
      | None \<Rightarrow> (False, []))"

partial_function (option) find_loop ::
    "zend_string \<Rightarrow> 'v bucket option list \<Rightarrow> u32 \<Rightarrow> hook_call list \<Rightarrow> (u32 option \<times> hook_call list) option" where [code]:
  "find_loop key d idx calls =
     do { p \<leftarrow> bucket_in d (unat idx);
          let (eq, more) = content_is key p;
          let calls = calls @ more;
          if eq then Some (Some idx, calls @ [Access_Call (zs_val key)])
          else if b_next p = HT_INVALID_IDX then Some (None, calls @ [Redqueen_Call (zs_val key)])
          else do { q \<leftarrow> bucket_in d (unat (b_next p));
                    if key_is key q then Some (Some (b_next p), calls @ [Access_Call (zs_val key)])
                    else find_loop key d (b_next p) calls } }"

definition zend_hash_find_bucket ::
    "'v hashtable \<Rightarrow> zend_string \<Rightarrow> bool \<Rightarrow> (u32 option \<times> 'v hashtable) option" where
  "zend_hash_find_bucket ht key known_hash =
     do { let key = (if known_hash then key else zend_string_hash_val key);
          idx \<leftarrow> HT_HASH ht (n_index ht (zs_h key));
          (r, calls) \<leftarrow>
            (if idx = HT_INVALID_IDX then Some (None, [Redqueen_Call (zs_val key)])
             else do { p \<leftarrow> bucket_in (arData ht) (unat idx);
                       if key_is key p then Some (Some idx, [Access_Call (zs_val key)])
                       else find_loop key (arData ht) idx [] });
          Some (r, log_event (map Hook calls) ht) }"

text \<open>The loop over a chain that the other lookups and the deletions share: the bucket in front
  of the match, the match, and the hook calls of the comparisons.\<close>

partial_function (option) search_chain ::
    "('v bucket \<Rightarrow> bool \<times> hook_call list) \<Rightarrow> 'v bucket option list \<Rightarrow> u32 option \<Rightarrow> u32 \<Rightarrow> hook_call list \<Rightarrow>
     ((u32 option \<times> u32) option \<times> hook_call list) option" where [code]:
  "search_chain matches d prev idx calls =
     (if idx = HT_INVALID_IDX then Some (None, calls)
      else do { p \<leftarrow> bucket_in d (unat idx);
                let (eq, more) = matches p;
                if eq then Some (Some (prev, idx), calls @ more)
                else search_chain matches d (Some idx) (b_next p) (calls @ more) })"

definition match_str :: "bytes \<Rightarrow> u64 \<Rightarrow> 'v bucket \<Rightarrow> bool \<times> hook_call list" where
  "match_str str h p =
     (b_h p = h \<and> (case b_key p of Some k \<Rightarrow> zs_val k = str | None \<Rightarrow> False), [])"

definition match_index :: "u64 \<Rightarrow> 'v bucket \<Rightarrow> bool \<times> hook_call list" where
  "match_index h p = (b_h p = h \<and> b_key p = None, [])"

text \<open>The condition of \<open>zend_hash_del\<close>: the same string, or one with the same content.\<close>

definition match_key :: "zend_string \<Rightarrow> 'v bucket \<Rightarrow> bool \<times> hook_call list" where
  "match_key key p = (if key_is key p then (True, []) else content_is key p)"

definition zend_hash_str_find_bucket ::
    "'v hashtable \<Rightarrow> bytes \<Rightarrow> u64 \<Rightarrow> (u32 option \<times> 'v hashtable) option" where
  "zend_hash_str_find_bucket ht str h =
     do { idx \<leftarrow> HT_HASH ht (n_index ht h);
          (r, calls) \<leftarrow> search_chain (match_str str h) (arData ht) None idx [];
          Some (case r of
                  Some (prev, idx) \<Rightarrow> (Some idx, log_event [Hook (Access_Call str)] ht)
                | None \<Rightarrow> (None, log_event [Hook (Redqueen_Call str)] ht)) }"

definition zend_hash_index_find_bucket :: "'v hashtable \<Rightarrow> u64 \<Rightarrow> u32 option option" where
  "zend_hash_index_find_bucket ht h =
     do { idx \<leftarrow> HT_HASH ht (n_index ht h);
          (r, calls) \<leftarrow> search_chain (match_index h) (arData ht) None idx [];
          Some (map_option snd r) }"

text \<open>The functions that return a pointer to the value: here the number of its bucket.\<close>

definition zend_hash_find :: "'v hashtable \<Rightarrow> zend_string \<Rightarrow> (u32 option \<times> 'v hashtable) option" where
  "zend_hash_find ht key = zend_hash_find_bucket ht key False"

definition zend_hash_find_known_hash :: "'v hashtable \<Rightarrow> zend_string \<Rightarrow> (u32 option \<times> 'v hashtable) option" where
  "zend_hash_find_known_hash ht key = zend_hash_find_bucket ht key True"

definition zend_hash_str_find :: "'v hashtable \<Rightarrow> bytes \<Rightarrow> (u32 option \<times> 'v hashtable) option" where
  "zend_hash_str_find ht str = zend_hash_str_find_bucket ht str (zend_inline_hash_func str)"

definition zend_hash_index_find :: "'v hashtable \<Rightarrow> u64 \<Rightarrow> u32 option option" where
  "zend_hash_index_find ht h =
     (if f_packed ht
      then (if h < ucast (nNumUsed ht)
            then do { p \<leftarrow> bucket_in (arData ht) (unat h);
                      Some (if b_val p \<noteq> IS_UNDEF then Some (ucast h) else None) }
            else Some None)
      else zend_hash_index_find_bucket ht h)"

text \<open>Where a \<open>zval*\<close> points: into a bucket or to a variable slot.\<close>

datatype zval_ptr = In_Bucket u32 | In_Slot nat

text \<open>\<open>zend_hash_find_ind\<close> and \<open>zend_hash_str_find_ind\<close> of \<open>zend_hash.h\<close>: the patch reports the
  access here too, and then an indirect value is followed.\<close>

definition follow_indirect :: "'v hashtable \<Rightarrow> u32 option \<Rightarrow> zval_ptr option option" where
  "follow_indirect ht r =
     (case r of
        None \<Rightarrow> Some None
      | Some idx \<Rightarrow>
          do { p \<leftarrow> bucket_in (arData ht) (unat idx);
               Some (case b_val p of
                       IS_INDIRECT a \<Rightarrow> if ht_slots ht a \<noteq> IS_UNDEF then Some (In_Slot a) else None
                     | _ \<Rightarrow> Some (In_Bucket idx)) })"

definition zend_hash_find_ind ::
    "'v hashtable \<Rightarrow> zend_string \<Rightarrow> (zval_ptr option \<times> 'v hashtable) option" where
  "zend_hash_find_ind ht key =
     do { (r, ht) \<leftarrow> zend_hash_find ht key;
          let ht = log_event [Hook (if r \<noteq> None then Access_Call (zs_val key)
                                    else Redqueen_Call (zs_val key))] ht;
          zv \<leftarrow> follow_indirect ht r;
          Some (zv, ht) }"

definition zend_hash_str_find_ind ::
    "'v hashtable \<Rightarrow> bytes \<Rightarrow> (zval_ptr option \<times> 'v hashtable) option" where
  "zend_hash_str_find_ind ht str =
     do { (r, ht) \<leftarrow> zend_hash_str_find ht str;
          let ht = log_event [Hook (if r \<noteq> None then Access_Call str else Redqueen_Call str)] ht;
          zv \<leftarrow> follow_indirect ht r;
          Some (zv, ht) }"

end
