(* ===== verification/Zend_Hash_Ops.thy ===== *)
theory Zend_Hash_Ops
  imports Zend_Hash
begin

text \<open>
  The operations of \<open>php-7.4-patched/Zend/zend_hash.c\<close> that change a table: adding and updating by
  string, by bytes and by integer, deleting, cleaning, and the positions that walk over it. An
  operation returns where the value is that it wrote, \<open>None\<close> for the \<open>NULL\<close> pointer.
\<close>

subsection \<open>Adding and updating by string\<close>

definition dtor_events :: "'v hashtable \<Rightarrow> 'v zval \<Rightarrow> 'v ht_event list" where
  "dtor_events ht v = (if pDestructor ht then [Dtor v] else [])"

definition store_in_bucket :: "'v hashtable \<Rightarrow> u32 \<Rightarrow> 'v zval \<Rightarrow> (zval_ptr option \<times> 'v hashtable) option" where
  "store_in_bucket ht idx pData =
     do { p \<leftarrow> bucket_in (arData ht) (unat idx);
          ht \<leftarrow> put_bucket (log_event (dtor_events ht (b_val p)) ht) (unat idx) (p\<lparr>b_val := pData\<rparr>);
          Some (Some (In_Bucket idx), ht) }"

definition store_in_slot :: "'v hashtable \<Rightarrow> nat \<Rightarrow> 'v zval \<Rightarrow> (zval_ptr option \<times> 'v hashtable) option" where
  "store_in_slot ht a pData =
     Some (Some (In_Slot a),
       (log_event (dtor_events ht (ht_slots ht a)) ht)\<lparr>ht_slots := (ht_slots ht)(a := pData)\<rparr>)"

text \<open>The branch for a key that is in the table, at \<open>idx\<close>.\<close>

definition update_found ::
    "'v hashtable \<Rightarrow> u32 \<Rightarrow> 'v zval \<Rightarrow> u32 \<Rightarrow> (zval_ptr option \<times> 'v hashtable) option" where
  "update_found ht idx pData flag =
     do { p \<leftarrow> bucket_in (arData ht) (unat idx);
          if bits_set flag HASH_ADD
          then (if \<not> bits_set flag HASH_UPDATE_INDIRECT then Some (None, ht)
                else (case b_val p of
                        IS_INDIRECT a \<Rightarrow> if ht_slots ht a \<noteq> IS_UNDEF then Some (None, ht)
                                         else store_in_slot ht a pData
                      | _ \<Rightarrow> Some (None, ht)))
          else (case b_val p of
                  IS_INDIRECT a \<Rightarrow> if bits_set flag HASH_UPDATE_INDIRECT then store_in_slot ht a pData
                                   else store_in_bucket ht idx pData
                | _ \<Rightarrow> store_in_bucket ht idx pData) }"

text \<open>The label \<open>add_to_hash\<close>: the next bucket is used and linked.\<close>

definition add_to_hash ::
    "'v hashtable \<Rightarrow> zend_string \<Rightarrow> 'v zval \<Rightarrow> (zval_ptr option \<times> 'v hashtable) option" where
  "add_to_hash ht key pData =
     do { let idx = nNumUsed ht;
          let ht = ht\<lparr>nNumUsed := nNumUsed ht + 1, nNumOfElements := nNumOfElements ht + 1\<rparr>;
          ht \<leftarrow> link_bucket ht (unat idx)
                 \<lparr>b_val = pData, b_next = 0, b_h = zs_h key, b_key = Some key\<rparr>;
          Some (Some (In_Bucket idx), ht) }"

definition resize_and_add ::
    "'v hashtable \<Rightarrow> zend_string \<Rightarrow> 'v zval \<Rightarrow> (zval_ptr option \<times> 'v hashtable) option" where
  "resize_and_add ht key pData =
     do { ht \<leftarrow> ZEND_HASH_IF_FULL_DO_RESIZE ht;
          if ht_bailout ht then Some (None, ht) else add_to_hash ht key pData }"

text \<open>A key that is not interned gets a reference and its hash, and the table loses its flag for
  static keys.\<close>

definition dynamic_key :: "zend_string \<Rightarrow> 'v hashtable \<Rightarrow> 'v hashtable" where
  "dynamic_key key ht = (if zs_interned key then ht else ht\<lparr>f_static_keys := False\<rparr>)"

definition hashed_key :: "zend_string \<Rightarrow> zend_string" where
  "hashed_key key = (if zs_interned key then key else zend_string_hash_val key)"

definition zend_hash_add_or_update_i ::
    "'v hashtable \<Rightarrow> zend_string \<Rightarrow> 'v zval \<Rightarrow> u32 \<Rightarrow> (zval_ptr option \<times> 'v hashtable) option" where
  "zend_hash_add_or_update_i ht key pData flag =
     (if f_uninitialized ht
      then add_to_hash (dynamic_key key (zend_hash_real_init_mixed_ex ht)) (hashed_key key) pData
      else if f_packed ht
      then do { ht \<leftarrow> zend_hash_packed_to_hash ht;
                resize_and_add (dynamic_key key ht) (hashed_key key) pData }
      else if \<not> bits_set flag HASH_ADD_NEW
      then do { (r, ht) \<leftarrow> zend_hash_find_bucket ht key False;
                case r of
                  Some idx \<Rightarrow> update_found ht idx pData flag
                | None \<Rightarrow> resize_and_add (dynamic_key key ht) (zend_string_hash_val key) pData }
      else resize_and_add (dynamic_key key ht) (hashed_key key) pData)"

definition zend_hash_add :: "'v hashtable \<Rightarrow> zend_string \<Rightarrow> 'v zval \<Rightarrow> (zval_ptr option \<times> 'v hashtable) option" where
  "zend_hash_add ht key pData = zend_hash_add_or_update_i ht key pData HASH_ADD"

definition zend_hash_update :: "'v hashtable \<Rightarrow> zend_string \<Rightarrow> 'v zval \<Rightarrow> (zval_ptr option \<times> 'v hashtable) option" where
  "zend_hash_update ht key pData = zend_hash_add_or_update_i ht key pData HASH_UPDATE"

definition zend_hash_update_ind :: "'v hashtable \<Rightarrow> zend_string \<Rightarrow> 'v zval \<Rightarrow> (zval_ptr option \<times> 'v hashtable) option" where
  "zend_hash_update_ind ht key pData =
     zend_hash_add_or_update_i ht key pData (HASH_UPDATE OR HASH_UPDATE_INDIRECT)"

definition zend_hash_add_new :: "'v hashtable \<Rightarrow> zend_string \<Rightarrow> 'v zval \<Rightarrow> (zval_ptr option \<times> 'v hashtable) option" where
  "zend_hash_add_new ht key pData = zend_hash_add_or_update_i ht key pData HASH_ADD_NEW"

text \<open>\<open>zend_hash_add_or_update\<close>; \<open>None\<close> is the violated assertion on the flag.\<close>

definition zend_hash_add_or_update ::
    "'v hashtable \<Rightarrow> zend_string \<Rightarrow> 'v zval \<Rightarrow> u32 \<Rightarrow> (zval_ptr option \<times> 'v hashtable) option" where
  "zend_hash_add_or_update ht key pData flag =
     (if flag = HASH_ADD then zend_hash_add ht key pData
      else if flag = HASH_ADD_NEW then zend_hash_add_new ht key pData
      else if flag = HASH_UPDATE then zend_hash_update ht key pData
      else if flag = (HASH_UPDATE OR HASH_UPDATE_INDIRECT) then zend_hash_update_ind ht key pData
      else None)"

subsection \<open>Adding and updating by bytes\<close>

text \<open>\<open>a\<close> is the address of the string that \<open>zend_string_init\<close> allocates for a new key.\<close>

definition zend_hash_str_add_or_update_i ::
    "nat \<Rightarrow> 'v hashtable \<Rightarrow> bytes \<Rightarrow> u64 \<Rightarrow> 'v zval \<Rightarrow> u32 \<Rightarrow> (zval_ptr option \<times> 'v hashtable) option" where
  "zend_hash_str_add_or_update_i a ht str h pData flag =
     (let key = \<lparr>zs_addr = a, zs_h = h, zs_val = str, zs_interned = False\<rparr>
      in if f_uninitialized ht
         then add_to_hash (dynamic_key key (zend_hash_real_init_mixed_ex ht)) key pData
         else if f_packed ht
         then do { ht \<leftarrow> zend_hash_packed_to_hash ht; resize_and_add (dynamic_key key ht) key pData }
         else if \<not> bits_set flag HASH_ADD_NEW
         then do { (r, ht) \<leftarrow> zend_hash_str_find_bucket ht str h;
                   case r of
                     Some idx \<Rightarrow> update_found ht idx pData flag
                   | None \<Rightarrow> resize_and_add (dynamic_key key ht) key pData }
         else resize_and_add (dynamic_key key ht) key pData)"

definition zend_hash_str_update ::
    "nat \<Rightarrow> 'v hashtable \<Rightarrow> bytes \<Rightarrow> 'v zval \<Rightarrow> (zval_ptr option \<times> 'v hashtable) option" where
  "zend_hash_str_update a ht str pData =
     zend_hash_str_add_or_update_i a ht str (zend_hash_func str) pData HASH_UPDATE"

definition zend_hash_str_update_ind ::
    "nat \<Rightarrow> 'v hashtable \<Rightarrow> bytes \<Rightarrow> 'v zval \<Rightarrow> (zval_ptr option \<times> 'v hashtable) option" where
  "zend_hash_str_update_ind a ht str pData =
     zend_hash_str_add_or_update_i a ht str (zend_hash_func str) pData (HASH_UPDATE OR HASH_UPDATE_INDIRECT)"

definition zend_hash_str_add ::
    "nat \<Rightarrow> 'v hashtable \<Rightarrow> bytes \<Rightarrow> 'v zval \<Rightarrow> (zval_ptr option \<times> 'v hashtable) option" where
  "zend_hash_str_add a ht str pData =
     zend_hash_str_add_or_update_i a ht str (zend_hash_func str) pData HASH_ADD"

definition zend_hash_str_add_new ::
    "nat \<Rightarrow> 'v hashtable \<Rightarrow> bytes \<Rightarrow> 'v zval \<Rightarrow> (zval_ptr option \<times> 'v hashtable) option" where
  "zend_hash_str_add_new a ht str pData =
     zend_hash_str_add_or_update_i a ht str (zend_hash_func str) pData HASH_ADD_NEW"

subsection \<open>Adding and updating by integer\<close>

text \<open>The label \<open>replace\<close>.\<close>

definition index_replace ::
    "'v hashtable \<Rightarrow> u32 \<Rightarrow> 'v zval \<Rightarrow> u32 \<Rightarrow> (zval_ptr option \<times> 'v hashtable) option" where
  "index_replace ht idx pData flag =
     (if bits_set flag HASH_ADD then Some (None, ht) else store_in_bucket ht idx pData)"

text \<open>The buckets from \<open>i\<close> on, \<open>n\<close> of them, become holes.\<close>

fun undef_buckets :: "nat \<Rightarrow> nat \<Rightarrow> 'v hashtable \<Rightarrow> 'v hashtable option" where
  "undef_buckets 0 i ht = Some ht"
| "undef_buckets (Suc n) i ht =
     do { ht \<leftarrow> put_bucket ht i ((bucket_or_raw ht i)\<lparr>b_val := IS_UNDEF\<rparr>);
          undef_buckets n (Suc i) ht }"

text \<open>The label \<open>add_to_packed\<close>, with the \<open>add\<close> that follows.\<close>

definition add_to_packed ::
    "'v hashtable \<Rightarrow> u64 \<Rightarrow> 'v zval \<Rightarrow> u32 \<Rightarrow> (zval_ptr option \<times> 'v hashtable) option" where
  "add_to_packed ht h pData flag =
     do { ht \<leftarrow> (if flag AND (HASH_ADD_NEW OR HASH_ADD_NEXT) \<noteq> (HASH_ADD_NEW OR HASH_ADD_NEXT) \<and>
                    ucast (nNumUsed ht) < h
                 then undef_buckets (unat h - unat (nNumUsed ht)) (unat (nNumUsed ht)) ht
                 else Some ht);
          let used = ucast (h + 1);
          let ht = ht\<lparr>nNumUsed := used, nNextFreeElement := ucast used,
                      nNumOfElements := nNumOfElements ht + 1\<rparr>;
          ht \<leftarrow> put_bucket ht (unat h) ((bucket_or_raw ht (unat h))\<lparr>b_val := pData, b_h := h, b_key := None\<rparr>);
          Some (Some (In_Bucket (ucast h)), ht) }"

text \<open>The end of the function for a hash table, with the \<open>add\<close> that follows.\<close>

definition index_append ::
    "'v hashtable \<Rightarrow> u64 \<Rightarrow> 'v zval \<Rightarrow> (zval_ptr option \<times> 'v hashtable) option" where
  "index_append ht h pData =
     do { let idx = nNumUsed ht;
          let ht = ht\<lparr>nNumUsed := nNumUsed ht + 1\<rparr>;
          ht \<leftarrow> link_bucket ht (unat idx) \<lparr>b_val = pData, b_next = 0, b_h = h, b_key = None\<rparr>;
          let ht = (if nNextFreeElement ht \<le>s h
                    then ht\<lparr>nNextFreeElement := if h < 0x7FFFFFFFFFFFFFFF then h + 1 else 0x7FFFFFFFFFFFFFFF\<rparr>
                    else ht);
          Some (Some (In_Bucket idx), ht\<lparr>nNumOfElements := nNumOfElements ht + 1\<rparr>) }"

definition index_packed ::
    "'v hashtable \<Rightarrow> u64 \<Rightarrow> 'v zval \<Rightarrow> u32 \<Rightarrow> (zval_ptr option \<times> 'v hashtable) option" where
  "index_packed ht h pData flag =
     (if h < ucast (nNumUsed ht)
      then do { p \<leftarrow> bucket_in (arData ht) (unat h);
                if b_val p \<noteq> IS_UNDEF then index_replace ht (ucast h) pData flag
                else do { ht \<leftarrow> zend_hash_packed_to_hash ht; index_append ht h pData } }
      else if h < ucast (nTableSize ht) then add_to_packed ht h pData flag
      else if drop_bit 1 h < ucast (nTableSize ht) \<and> drop_bit 1 (nTableSize ht) < nNumOfElements ht
      then do { ht \<leftarrow> zend_hash_packed_grow ht;
                if ht_bailout ht then Some (None, ht) else add_to_packed ht h pData flag }
      else do { let ht = (if nNumUsed ht \<ge> nTableSize ht
                          then ht\<lparr>nTableSize := nTableSize ht + nTableSize ht\<rparr> else ht);
                ht \<leftarrow> zend_hash_packed_to_hash ht;
                index_append ht h pData })"

definition zend_hash_index_add_or_update_i ::
    "'v hashtable \<Rightarrow> u64 \<Rightarrow> 'v zval \<Rightarrow> u32 \<Rightarrow> (zval_ptr option \<times> 'v hashtable) option" where
  "zend_hash_index_add_or_update_i ht h pData flag =
     (if f_packed ht then index_packed ht h pData flag
      else if f_uninitialized ht
      then (if h < ucast (nTableSize ht)
            then add_to_packed (zend_hash_real_init_packed_ex ht) h pData flag
            else index_append (zend_hash_real_init_mixed_ex ht) h pData)
      else do { r \<leftarrow> (if \<not> bits_set flag HASH_ADD_NEW then zend_hash_index_find_bucket ht h else Some None);
                case r of
                  Some idx \<Rightarrow> index_replace ht idx pData flag
                | None \<Rightarrow> do { ht \<leftarrow> ZEND_HASH_IF_FULL_DO_RESIZE ht;
                               if ht_bailout ht then Some (None, ht) else index_append ht h pData } })"

definition zend_hash_index_add ::
    "'v hashtable \<Rightarrow> u64 \<Rightarrow> 'v zval \<Rightarrow> (zval_ptr option \<times> 'v hashtable) option" where
  "zend_hash_index_add ht h pData = zend_hash_index_add_or_update_i ht h pData HASH_ADD"

definition zend_hash_index_add_new ::
    "'v hashtable \<Rightarrow> u64 \<Rightarrow> 'v zval \<Rightarrow> (zval_ptr option \<times> 'v hashtable) option" where
  "zend_hash_index_add_new ht h pData =
     zend_hash_index_add_or_update_i ht h pData (HASH_ADD OR HASH_ADD_NEW)"

definition zend_hash_index_update ::
    "'v hashtable \<Rightarrow> u64 \<Rightarrow> 'v zval \<Rightarrow> (zval_ptr option \<times> 'v hashtable) option" where
  "zend_hash_index_update ht h pData = zend_hash_index_add_or_update_i ht h pData HASH_UPDATE"

definition zend_hash_next_index_insert ::
    "'v hashtable \<Rightarrow> 'v zval \<Rightarrow> (zval_ptr option \<times> 'v hashtable) option" where
  "zend_hash_next_index_insert ht pData =
     zend_hash_index_add_or_update_i ht (nNextFreeElement ht) pData (HASH_ADD OR HASH_ADD_NEXT)"

definition zend_hash_next_index_insert_new ::
    "'v hashtable \<Rightarrow> 'v zval \<Rightarrow> (zval_ptr option \<times> 'v hashtable) option" where
  "zend_hash_next_index_insert_new ht pData =
     zend_hash_index_add_or_update_i ht (nNextFreeElement ht) pData (HASH_ADD OR HASH_ADD_NEW OR HASH_ADD_NEXT)"

text \<open>\<open>zend_hash_index_add_or_update\<close>; \<open>None\<close> is a violated assertion.\<close>

definition zend_hash_index_add_or_update ::
    "'v hashtable \<Rightarrow> u64 \<Rightarrow> 'v zval \<Rightarrow> u32 \<Rightarrow> (zval_ptr option \<times> 'v hashtable) option" where
  "zend_hash_index_add_or_update ht h pData flag =
     (if flag = HASH_ADD then zend_hash_index_add ht h pData
      else if flag = (HASH_ADD OR HASH_ADD_NEW) then zend_hash_index_add_new ht h pData
      else if flag = (HASH_ADD OR HASH_ADD_NEXT)
      then (if h = nNextFreeElement ht then zend_hash_next_index_insert ht pData else None)
      else if flag = (HASH_ADD OR HASH_ADD_NEW OR HASH_ADD_NEXT)
      then (if h = nNextFreeElement ht then zend_hash_next_index_insert_new ht pData else None)
      else if flag = HASH_UPDATE then zend_hash_index_update ht h pData
      else None)"

subsection \<open>Positions\<close>

text \<open>The first used bucket from \<open>i\<close> on, or the end.\<close>

function next_live :: "'v bucket option list \<Rightarrow> nat \<Rightarrow> nat \<Rightarrow> nat option" where
  "next_live d used i =
     (if used \<le> i then Some i
      else do { b \<leftarrow> bucket_in d i;
                if b_val b \<noteq> IS_UNDEF then Some i else next_live d used (Suc i) })"
  by pat_completeness auto
termination
  by (relation "measure (\<lambda>(d, used, i). used - i)") auto

declare next_live.simps [simp del]

definition zend_hash_get_valid_pos :: "'v hashtable \<Rightarrow> u32 \<Rightarrow> u32 option" where
  "zend_hash_get_valid_pos ht pos =
     map_option word_of_nat (next_live (arData ht) (unat (nNumUsed ht)) (unat pos))"

definition zend_hash_get_current_pos :: "'v hashtable \<Rightarrow> u32 option" where
  "zend_hash_get_current_pos ht = zend_hash_get_valid_pos ht (nInternalPointer ht)"

text \<open>The last used bucket in front of \<open>i\<close>.\<close>

fun prev_live :: "'v bucket option list \<Rightarrow> nat \<Rightarrow> nat option option" where
  "prev_live d 0 = Some None"
| "prev_live d (Suc i) =
     do { b \<leftarrow> bucket_in d i; if b_val b \<noteq> IS_UNDEF then Some (Some i) else prev_live d i }"

text \<open>The position functions take the position and return the new one; the moves say whether
  they succeed.\<close>

definition zend_hash_internal_pointer_reset_ex :: "'v hashtable \<Rightarrow> u32 option" where
  "zend_hash_internal_pointer_reset_ex ht = zend_hash_get_valid_pos ht 0"

definition zend_hash_internal_pointer_end_ex :: "'v hashtable \<Rightarrow> u32 option" where
  "zend_hash_internal_pointer_end_ex ht =
     map_option (case_option (nNumUsed ht) word_of_nat) (prev_live (arData ht) (unat (nNumUsed ht)))"

definition zend_hash_move_forward_ex :: "'v hashtable \<Rightarrow> u32 \<Rightarrow> (bool \<times> u32) option" where
  "zend_hash_move_forward_ex ht pos =
     do { idx \<leftarrow> zend_hash_get_valid_pos ht pos;
          if idx < nNumUsed ht
          then do { i \<leftarrow> next_live (arData ht) (unat (nNumUsed ht)) (unat idx + 1);
                    Some (True, if i \<ge> unat (nNumUsed ht) then nNumUsed ht else word_of_nat i) }
          else Some (False, pos) }"

definition zend_hash_move_backwards_ex :: "'v hashtable \<Rightarrow> u32 \<Rightarrow> (bool \<times> u32) option" where
  "zend_hash_move_backwards_ex ht pos =
     (if pos < nNumUsed ht
      then do { r \<leftarrow> prev_live (arData ht) (unat pos);
                Some (True, case_option (nNumUsed ht) word_of_nat r) }
      else Some (False, pos))"

datatype hash_key = Key_String zend_string | Key_Long u64 | Key_Non_Existent

definition zend_hash_get_current_key_ex :: "'v hashtable \<Rightarrow> u32 \<Rightarrow> hash_key option" where
  "zend_hash_get_current_key_ex ht pos =
     do { idx \<leftarrow> zend_hash_get_valid_pos ht pos;
          if idx < nNumUsed ht
          then do { p \<leftarrow> bucket_in (arData ht) (unat idx);
                    Some (case b_key p of Some k \<Rightarrow> Key_String k | None \<Rightarrow> Key_Long (b_h p)) }
          else Some Key_Non_Existent }"

definition zend_hash_get_current_data_ex :: "'v hashtable \<Rightarrow> u32 \<Rightarrow> u32 option option" where
  "zend_hash_get_current_data_ex ht pos =
     do { idx \<leftarrow> zend_hash_get_valid_pos ht pos;
          Some (if idx < nNumUsed ht then Some idx else None) }"

subsection \<open>Deleting\<close>

text \<open>The loop that gives up the unused buckets at the end: \<open>n\<close> are still in use.\<close>

fun trim_used :: "'v bucket option list \<Rightarrow> nat \<Rightarrow> nat option" where
  "trim_used d 0 = Some 0"
| "trim_used d (Suc n) =
     do { b \<leftarrow> bucket_in d n; if b_val b = IS_UNDEF then trim_used d n else Some (Suc n) }"

definition del_unlink :: "'v hashtable \<Rightarrow> u32 option \<Rightarrow> 'v bucket \<Rightarrow> 'v hashtable option" where
  "del_unlink ht prev p =
     (if f_packed ht then Some ht
      else case prev of
        Some q \<Rightarrow> do { b \<leftarrow> bucket_in (arData ht) (unat q);
                      put_bucket ht (unat q) (b\<lparr>b_next := b_next p\<rparr>) }
      | None \<Rightarrow> set_hash ht (n_index ht (b_h p)) (b_next p))"

definition del_advance :: "'v hashtable \<Rightarrow> u32 \<Rightarrow> 'v hashtable option" where
  "del_advance ht idx =
     (if nInternalPointer ht = idx \<or> nIteratorsCount ht \<noteq> 0
      then do { i \<leftarrow> next_live (arData ht) (unat (nNumUsed ht)) (unat idx + 1);
                let new_idx = word_of_nat i;
                let ht = (if nInternalPointer ht = idx then ht\<lparr>nInternalPointer := new_idx\<rparr> else ht);
                Some (zend_hash_iterators_update ht idx new_idx) }
      else Some ht)"

definition del_trim :: "'v hashtable \<Rightarrow> u32 \<Rightarrow> 'v hashtable option" where
  "del_trim ht idx =
     (if nNumUsed ht - 1 = idx
      then do { n \<leftarrow> trim_used (arData ht) (unat (nNumUsed ht - 1));
                Some (ht\<lparr>nNumUsed := word_of_nat n,
                         nInternalPointer := min (nInternalPointer ht) (word_of_nat n)\<rparr>) }
      else Some ht)"

definition zend_hash_del_el_ex :: "'v hashtable \<Rightarrow> u32 \<Rightarrow> u32 option \<Rightarrow> 'v hashtable option" where
  "zend_hash_del_el_ex ht idx prev =
     do { p \<leftarrow> bucket_in (arData ht) (unat idx);
          ht \<leftarrow> del_unlink ht prev p;
          ht \<leftarrow> del_advance (ht\<lparr>nNumOfElements := nNumOfElements ht - 1\<rparr>) idx;
          ht \<leftarrow> del_trim ht idx;
          put_bucket (log_event (dtor_events ht (b_val p)) ht) (unat idx) (p\<lparr>b_val := IS_UNDEF\<rparr>) }"

text \<open>The bucket in front of \<open>idx\<close> in its chain, from the one at \<open>i\<close> on.\<close>

partial_function (option) find_prev :: "'v bucket option list \<Rightarrow> u32 \<Rightarrow> u32 \<Rightarrow> u32 option" where [code]:
  "find_prev d idx i =
     do { b \<leftarrow> bucket_in d (unat i); if b_next b = idx then Some i else find_prev d idx (b_next b) }"

definition zend_hash_del_el :: "'v hashtable \<Rightarrow> u32 \<Rightarrow> 'v hashtable option" where
  "zend_hash_del_el ht idx =
     do { p \<leftarrow> bucket_in (arData ht) (unat idx);
          prev \<leftarrow> (if f_packed ht then Some None
                   else do { i \<leftarrow> HT_HASH ht (n_index ht (b_h p));
                             if i = idx then Some None
                             else map_option Some (find_prev (arData ht) idx i) });
          zend_hash_del_el_ex ht idx prev }"

text \<open>The deletions return whether they found the key.\<close>

definition zend_hash_del :: "'v hashtable \<Rightarrow> zend_string \<Rightarrow> (bool \<times> 'v hashtable) option" where
  "zend_hash_del ht key =
     do { let key = zend_string_hash_val key;
          idx \<leftarrow> HT_HASH ht (n_index ht (zs_h key));
          (r, calls) \<leftarrow> search_chain (match_key key) (arData ht) None idx [];
          let ht = log_event (map Hook calls) ht;
          case r of
            Some (prev, idx) \<Rightarrow> do { ht \<leftarrow> zend_hash_del_el_ex ht idx prev; Some (True, ht) }
          | None \<Rightarrow> Some (False, ht) }"

definition zend_hash_str_del :: "'v hashtable \<Rightarrow> bytes \<Rightarrow> (bool \<times> 'v hashtable) option" where
  "zend_hash_str_del ht str =
     do { let h = zend_inline_hash_func str;
          idx \<leftarrow> HT_HASH ht (n_index ht h);
          (r, calls) \<leftarrow> search_chain (match_str str h) (arData ht) None idx [];
          case r of
            Some (prev, idx) \<Rightarrow> do { ht \<leftarrow> zend_hash_del_el_ex ht idx prev; Some (True, ht) }
          | None \<Rightarrow> Some (False, ht) }"

text \<open>The deletion of an indirect value empties the slot and keeps the bucket.\<close>

definition del_indirect ::
    "'v hashtable \<Rightarrow> u32 option \<Rightarrow> u32 \<Rightarrow> (bool \<times> 'v hashtable) option" where
  "del_indirect ht prev idx =
     do { p \<leftarrow> bucket_in (arData ht) (unat idx);
          case b_val p of
            IS_INDIRECT a \<Rightarrow>
              (if ht_slots ht a = IS_UNDEF then Some (False, ht)
               else Some (True, (log_event (dtor_events ht (ht_slots ht a)) ht)
                      \<lparr>ht_slots := (ht_slots ht)(a := IS_UNDEF), f_has_empty_ind := True\<rparr>))
          | _ \<Rightarrow> do { ht \<leftarrow> zend_hash_del_el_ex ht idx prev; Some (True, ht) } }"

definition zend_hash_del_ind :: "'v hashtable \<Rightarrow> zend_string \<Rightarrow> (bool \<times> 'v hashtable) option" where
  "zend_hash_del_ind ht key =
     do { let key = zend_string_hash_val key;
          idx \<leftarrow> HT_HASH ht (n_index ht (zs_h key));
          (r, calls) \<leftarrow> search_chain (match_key key) (arData ht) None idx [];
          let ht = log_event (map Hook calls) ht;
          case r of
            Some (prev, idx) \<Rightarrow> del_indirect ht prev idx
          | None \<Rightarrow> Some (False, ht) }"

definition zend_hash_str_del_ind :: "'v hashtable \<Rightarrow> bytes \<Rightarrow> (bool \<times> 'v hashtable) option" where
  "zend_hash_str_del_ind ht str =
     do { let h = zend_inline_hash_func str;
          idx \<leftarrow> HT_HASH ht (n_index ht h);
          (r, calls) \<leftarrow> search_chain (match_str str h) (arData ht) None idx [];
          case r of
            Some (prev, idx) \<Rightarrow> del_indirect ht prev idx
          | None \<Rightarrow> Some (False, ht) }"

definition zend_hash_index_del :: "'v hashtable \<Rightarrow> u64 \<Rightarrow> (bool \<times> 'v hashtable) option" where
  "zend_hash_index_del ht h =
     (if f_packed ht
      then (if h < ucast (nNumUsed ht)
            then do { p \<leftarrow> bucket_in (arData ht) (unat h);
                      if b_val p \<noteq> IS_UNDEF
                      then do { ht \<leftarrow> zend_hash_del_el_ex ht (ucast h) None; Some (True, ht) }
                      else Some (False, ht) }
            else Some (False, ht))
      else do { idx \<leftarrow> HT_HASH ht (n_index ht h);
                (r, calls) \<leftarrow> search_chain (match_index h) (arData ht) None idx [];
                case r of
                  Some (prev, idx) \<Rightarrow> do { ht \<leftarrow> zend_hash_del_el_ex ht idx prev; Some (True, ht) }
                | None \<Rightarrow> Some (False, ht) })"

text \<open>\<open>zend_hash_clean\<close> calls the destructor on every bucket of a table without holes, and on the
  used ones of a table with holes.\<close>

definition clean_events :: "'v hashtable \<Rightarrow> 'v ht_event list" where
  "clean_events ht =
     (let bs = map (\<lambda>b. b_val (the b)) (take (unat (nNumUsed ht)) (arData ht))
      in if \<not> pDestructor ht then []
         else if nNumUsed ht = nNumOfElements ht then map Dtor bs
         else map Dtor (filter (\<lambda>v. v \<noteq> IS_UNDEF) bs))"

definition zend_hash_clean :: "'v hashtable \<Rightarrow> 'v hashtable" where
  "zend_hash_clean ht =
     (let ht = (if nNumUsed ht \<noteq> 0
                then (let ht = log_event (clean_events ht) ht
                      in if f_packed ht then ht else HT_HASH_RESET ht)
                else ht)
      in ht\<lparr>nNumUsed := 0, nNumOfElements := 0, nNextFreeElement := 0, nInternalPointer := 0\<rparr>)"

text \<open>\<open>zend_hash_discard\<close> gives up the buckets from \<open>n\<close> on, from the last one down: each is the
  first of its chain.\<close>

fun discard_loop :: "nat \<Rightarrow> nat \<Rightarrow> 'v hashtable \<Rightarrow> 'v hashtable option" where
  "discard_loop 0 i ht = Some ht"
| "discard_loop (Suc n) i ht =
     do { let i = i - 1;
          p \<leftarrow> bucket_in (arData ht) i;
          ht \<leftarrow> (if b_val p = IS_UNDEF then Some ht
                 else set_hash (ht\<lparr>nNumOfElements := nNumOfElements ht - 1\<rparr>) (n_index ht (b_h p)) (b_next p));
          discard_loop n i ht }"

definition zend_hash_discard :: "'v hashtable \<Rightarrow> u32 \<Rightarrow> 'v hashtable option" where
  "zend_hash_discard ht n =
     (if nNumUsed ht < n then None
      else discard_loop (unat (nNumUsed ht) - unat n) (unat (nNumUsed ht)) (ht\<lparr>nNumUsed := n\<rparr>))"

text \<open>\<open>zend_array_count\<close> does not count the slots that are empty; \<open>is_symbols\<close> says that the table is
  the symbol table.\<close>

definition zend_array_recalc_elements :: "'v hashtable \<Rightarrow> u32" where
  "zend_array_recalc_elements ht =
     fold (\<lambda>b num. case b of
             Some p \<Rightarrow> (case b_val p of IS_INDIRECT a \<Rightarrow> if ht_slots ht a = IS_UNDEF then num - 1 else num
                                     | _ \<Rightarrow> num)
           | None \<Rightarrow> num) (take (unat (nNumUsed ht)) (arData ht)) (nNumOfElements ht)"

definition zend_array_count :: "bool \<Rightarrow> 'v hashtable \<Rightarrow> u32 \<times> 'v hashtable" where
  "zend_array_count is_symbols ht =
     (if f_has_empty_ind ht
      then (let num = zend_array_recalc_elements ht
            in (num, if nNumOfElements ht = num then ht\<lparr>f_has_empty_ind := False\<rparr> else ht))
      else if is_symbols then (zend_array_recalc_elements ht, ht)
      else (nNumOfElements ht, ht))"

subsection \<open>Interned strings\<close>

text \<open>The lookups in the tables of interned strings, \<open>zend_string.c\<close>. The one by string reports a
  miss with \<open>strlen\<close>, which ends at a zero byte. Every bucket of these tables has a key.\<close>

definition match_interned :: "zend_string \<Rightarrow> 'v bucket \<Rightarrow> bool \<times> hook_call list" where
  "match_interned str p =
     (case b_key p of Some k \<Rightarrow> if b_h p = zs_h str then zend_string_equal_content k str else (False, [])
      | None \<Rightarrow> (False, []))"

definition zend_interned_string_ht_lookup_ex ::
    "u64 \<Rightarrow> bytes \<Rightarrow> 'v hashtable \<Rightarrow> (u32 option \<times> 'v hashtable) option" where
  "zend_interned_string_ht_lookup_ex h str ht =
     do { idx \<leftarrow> HT_HASH ht (n_index ht h);
          (r, calls) \<leftarrow> search_chain (match_str str h) (arData ht) None idx [];
          Some (case r of
                  Some (prev, idx) \<Rightarrow> (Some idx, log_event [Hook (Access_Call str)] ht)
                | None \<Rightarrow> (None, log_event [Hook (Redqueen_Call str)] ht)) }"

definition zend_interned_string_ht_lookup ::
    "zend_string \<Rightarrow> 'v hashtable \<Rightarrow> (u32 option \<times> 'v hashtable) option" where
  "zend_interned_string_ht_lookup str ht =
     do { idx \<leftarrow> HT_HASH ht (n_index ht (zs_h str));
          (r, calls) \<leftarrow> search_chain (match_interned str) (arData ht) None idx [];
          let ht = log_event (map Hook calls) ht;
          Some (case r of
                  Some (prev, idx) \<Rightarrow> (Some idx, log_event [Hook (Access_Call (zs_val str))] ht)
                | None \<Rightarrow> (None, log_event [Hook (Redqueen_Call (takeWhile (\<lambda>c. c \<noteq> 0) (zs_val str)))] ht)) }"

end
