(* ===== verification/Zend_Hash_Chains.thy ===== *)
theory Zend_Hash_Chains
  imports Zend_Hash_Ops
begin

text \<open>
  The collision chains of the hash tables. The chain of a hash cell runs through the used
  buckets whose hash belongs to the cell, from the last one to the first; linking a bucket behind
  the others, deleting one and building the chains anew keep this. Rehashing closes the holes
  and keeps the elements and their order.
\<close>

subsection \<open>Hash cells\<close>

lemma or_minus: "(x OR y) - y = x AND NOT (y :: 'a::len word)"
proof -
  have "(x AND NOT y) + y = (x AND NOT y) OR y"
    by (rule disjunctive_add) (simp add: bit_simps)
  also have "\<dots> = x OR y" by (rule bit_word_eqI) (auto simp: bit_simps)
  finally show ?thesis by (metis add_diff_cancel_right')
qed

definition cell_of :: "u32 \<Rightarrow> u64 \<Rightarrow> nat" where
  "cell_of table_mask h = hash_cell table_mask (ucast h OR table_mask)"

abbreviation slot_of :: "'v hashtable \<Rightarrow> u64 \<Rightarrow> nat" where
  "slot_of ht \<equiv> cell_of (nTableMask ht)"

lemma cell_of_less: "cell_of (- (2 ^ m)) h < 2 ^ m"
proof -
  have "cell_of (- (2 ^ m)) h = unat (take_bit m (ucast h :: u32))"
    by (simp add: cell_of_def hash_cell_def or_minus minus_exp_eq_not_mask take_bit_eq_mask)
  also have "\<dots> = take_bit m (unat (ucast h :: u32))" by (simp add: unsigned_take_bit_eq)
  also have "\<dots> < 2 ^ m" by (rule take_bit_nat_less_exp)
  finally show ?thesis .
qed

text \<open>Every hash has its cell.\<close>

definition cells_ok :: "'v hashtable \<Rightarrow> bool" where
  "cells_ok ht \<longleftrightarrow> (\<forall>h. slot_of ht h < length (arHash ht))"

lemma HT_HASH_eq: "cells_ok ht \<Longrightarrow> HT_HASH ht (n_index ht h) = Some (arHash ht ! slot_of ht h)"
  by (simp add: HT_HASH_def nth_opt_def cell_of_def cells_ok_def n_index_def)

lemma set_hash_eq:
  "cells_ok ht \<Longrightarrow> set_hash ht (n_index ht h) i = Some (ht\<lparr>arHash := (arHash ht)[slot_of ht h := i]\<rparr>)"
  by (simp add: set_hash_def cell_of_def Let_def cells_ok_def n_index_def)

subsection \<open>Buckets\<close>

lemma bucket_in_update [simp]:
  "i < length d \<Longrightarrow> bucket_in (d[i := Some b]) j = (if i = j then Some b else bucket_in d j)"
  by (auto simp: bucket_in_def nth_opt_def)

lemma bucket_in_length: "bucket_in d i = Some b \<Longrightarrow> i < length d"
  by (auto simp: bucket_in_def nth_opt_def split: if_splits)

lemma bucket_in_append: "i < length d \<Longrightarrow> bucket_in (d @ e) i = bucket_in d i"
  by (simp add: bucket_in_def nth_opt_def nth_append)

lemma bucket_in_take: "i < n \<Longrightarrow> n \<le> length d \<Longrightarrow> bucket_in (take n d) i = bucket_in d i"
  by (simp add: bucket_in_def nth_opt_def)

text \<open>What a used bucket holds: its value, its hash and its key. A hole holds nothing.\<close>

definition held :: "'v bucket option list \<Rightarrow> nat \<Rightarrow> ('v zval \<times> u64 \<times> zend_string option) option" where
  "held d i = (case bucket_in d i of
     Some b \<Rightarrow> if b_val b = IS_UNDEF then None else Some (b_val b, b_h b, b_key b) | None \<Rightarrow> None)"

definition elems :: "'v bucket option list \<Rightarrow> nat \<Rightarrow> nat \<Rightarrow> ('v zval \<times> u64 \<times> zend_string option) list" where
  "elems d i n = List.map_filter (held d) [i..<i + n]"

lemma heldD:
  assumes "held d i = Some (v, h, k)"
  obtains b where "bucket_in d i = Some b" "b_val b = v" "v \<noteq> IS_UNDEF" "b_h b = h" "b_key b = k"
  using assms by (auto simp: held_def split: option.splits if_splits)

lemma held_update: "i < length d \<Longrightarrow> held (d[i := Some b]) j =
   (if i = j then if b_val b = IS_UNDEF then None else Some (b_val b, b_h b, b_key b) else held d j)"
  by (simp add: held_def)

lemma elems_0 [simp]: "elems d i 0 = []"
  by (simp add: elems_def map_filter_simps)

lemma elems_Suc: "elems d i (Suc n) = (case held d i of Some e \<Rightarrow> [e] | None \<Rightarrow> []) @ elems d (Suc i) n"
proof -
  have "[i..<i + Suc n] = i # [Suc i..<Suc i + n]" by (simp add: upt_conv_Cons)
  then show ?thesis unfolding elems_def by (simp add: map_filter_simps split: option.splits)
qed

lemma elems_append: "elems d i (m + n) = elems d i m @ elems d (i + m) n"
  by (induction m arbitrary: i) (simp_all add: elems_Suc)

lemma elems_snoc: "elems d i (Suc n) = elems d i n @ (case held d (i + n) of Some e \<Rightarrow> [e] | None \<Rightarrow> [])"
  using elems_append [of d i n 1] by (simp add: elems_Suc)

lemma elems_cong: "(\<And>j. i \<le> j \<Longrightarrow> j < i + n \<Longrightarrow> held d j = held d' j) \<Longrightarrow> elems d i n = elems d' i n"
  by (induction n arbitrary: i) (simp_all add: elems_Suc)

lemma set_elems: "set (elems d i n) = {e. \<exists>j. i \<le> j \<and> j < i + n \<and> held d j = Some e}"
  by (force simp: elems_def List.map_filter_def image_iff)

lemma length_elems_le: "length (elems d i n) \<le> n"
  by (induction n arbitrary: i) (auto simp: elems_Suc split: option.splits intro: le_SucI)

text \<open>No holes.\<close>

lemma length_elems_eq_iff: "length (elems d i n) = n \<longleftrightarrow> (\<forall>j\<in>{i..<i + n}. held d j \<noteq> None)"
proof (induction n arbitrary: i)
  case (Suc n)
  have split: "{i..<i + Suc n} = insert i {Suc i..<Suc i + n}" by auto
  show ?case
  proof (cases "held d i")
    case None
    then have "length (elems d i (Suc n)) \<le> n" using length_elems_le [of d "Suc i" n] by (simp add: elems_Suc)
    then show ?thesis using None unfolding split by simp
  next
    case (Some e)
    then show ?thesis using Suc.IH [of "Suc i"] unfolding split by (cases e) (simp add: elems_Suc)
  qed
qed simp

subsection \<open>Chains\<close>

text \<open>The buckets that belong to a hash cell, from the last to the first.\<close>

definition slot_ids :: "(u64 \<Rightarrow> nat) \<Rightarrow> 'v bucket option list \<Rightarrow> nat \<Rightarrow> nat \<Rightarrow> nat list" where
  "slot_ids slot d n s =
     rev (filter (\<lambda>i. case held d i of Some (v, h, k) \<Rightarrow> slot h = s | None \<Rightarrow> False) [0..<n])"

text \<open>Following \<open>Z_NEXT\<close> from \<open>idx\<close> visits the buckets \<open>xs\<close> and ends.\<close>

fun linked :: "'v bucket option list \<Rightarrow> u32 \<Rightarrow> nat list \<Rightarrow> bool" where
  "linked d idx [] \<longleftrightarrow> idx = HT_INVALID_IDX"
| "linked d idx (x # xs) \<longleftrightarrow> idx \<noteq> HT_INVALID_IDX \<and> unat idx = x \<and>
     (case bucket_in d x of Some b \<Rightarrow> linked d (b_next b) xs | None \<Rightarrow> False)"

definition chains :: "(u64 \<Rightarrow> nat) \<Rightarrow> 'v bucket option list \<Rightarrow> u32 list \<Rightarrow> nat \<Rightarrow> bool" where
  "chains slot d hs n \<longleftrightarrow> (\<forall>s<length hs. linked d (hs ! s) (slot_ids slot d n s))"

lemma linked_cong:
  assumes "\<And>i. i \<in> set xs \<Longrightarrow> map_option b_next (bucket_in d i) = map_option b_next (bucket_in d' i)"
  shows "linked d idx xs = linked d' idx xs"
  using assms
proof (induction xs arbitrary: idx)
  case (Cons x xs)
  have "map_option b_next (bucket_in d x) = map_option b_next (bucket_in d' x)" using Cons.prems by simp
  moreover have "linked d i xs = linked d' i xs" for i using Cons by simp
  ultimately show ?case by (cases "bucket_in d x"; cases "bucket_in d' x") auto
qed simp

lemma set_slot_ids: "set (slot_ids slot d n s) = {i. i < n \<and> (\<exists>v h k. held d i = Some (v, h, k) \<and> slot h = s)}"
  by (auto simp: slot_ids_def split: option.splits)

lemma distinct_slot_ids [simp]: "distinct (slot_ids slot d n s)"
  by (simp add: slot_ids_def)

lemma slot_ids_cong:
  assumes "\<And>i. i < n \<Longrightarrow> map_option (\<lambda>(v, h, k). h) (held d i) = map_option (\<lambda>(v, h, k). h) (held d' i)"
  shows "slot_ids slot d n s = slot_ids slot d' n s"
  unfolding slot_ids_def
proof (intro arg_cong [of _ _ rev] filter_cong refl)
  fix i assume "i \<in> set [0..<n]"
  then have "map_option (\<lambda>(v, h, k). h) (held d i) = map_option (\<lambda>(v, h, k). h) (held d' i)"
    using assms by simp
  then show "(case held d i of Some (v, h, k) \<Rightarrow> slot h = s | None \<Rightarrow> False) =
      (case held d' i of Some (v, h, k) \<Rightarrow> slot h = s | None \<Rightarrow> False)"
    by (cases "held d i"; cases "held d' i") auto
qed

lemma slot_ids_Suc: "slot_ids slot d (Suc n) s =
   (case held d n of Some (v, h, k) \<Rightarrow> if slot h = s then [n] else [] | None \<Rightarrow> []) @ slot_ids slot d n s"
  by (auto simp: slot_ids_def split: option.splits)

lemma slot_ids_0 [simp]: "slot_ids slot d 0 s = []"
  by (simp add: slot_ids_def)

lemma chains_reset: "chains slot d (replicate m HT_INVALID_IDX) 0"
  by (simp add: chains_def)

text \<open>A bucket linked behind the others.\<close>

lemma chains_link:
  assumes ch: "chains slot d hs n" and n: "n < length d" "n < 2 ^ 32 - 1"
    and b: "b_val b \<noteq> IS_UNDEF" "slot (b_h b) < length hs"
  shows "chains slot (d[n := Some (b\<lparr>b_next := hs ! slot (b_h b)\<rparr>)]) (hs[slot (b_h b) := word_of_nat n]) (Suc n)"
    (is "chains _ ?d ?hs _")
  unfolding chains_def
proof (intro allI impI)
  fix s assume s: "s < length ?hs"
  have ids: "slot_ids slot ?d n s = slot_ids slot d n s"
    using n(1) by (intro slot_ids_cong) (simp add: held_update)
  have same: "linked ?d i (slot_ids slot d n s) = linked d i (slot_ids slot d n s)" for i
    using n(1) by (intro linked_cong) (auto simp: set_slot_ids)
  have old: "linked d (hs ! s) (slot_ids slot d n s)" using ch s by (simp add: chains_def)
  have w: "unat (word_of_nat n :: u32) = n" using n(2) by (simp add: unsigned_of_nat take_bit_nat_eq_self)
  have "(word_of_nat n :: u32) \<noteq> HT_INVALID_IDX"
  proof
    assume "(word_of_nat n :: u32) = HT_INVALID_IDX"
    then have "n = unat (HT_INVALID_IDX :: u32)" using w by simp
    then show False using n(2) by simp
  qed
  moreover have "linked ?d (hs ! s) (slot_ids slot ?d n s)" using old by (simp only: ids same)
  ultimately show "linked ?d (?hs ! s) (slot_ids slot ?d (Suc n) s)"
    using n(1) b(1) s w by (cases "slot (b_h b) = s") (simp_all add: slot_ids_Suc held_update)
qed

lemma link_bucket_eq:
  assumes "cells_ok ht" "j < length (arData ht)"
  shows "link_bucket ht j b = Some (ht\<lparr>
    arData := (arData ht)[j := Some (b\<lparr>b_next := arHash ht ! slot_of ht (b_h b)\<rparr>)],
    arHash := (arHash ht)[slot_of ht (b_h b) := word_of_nat j]\<rparr>)"
proof -
  let ?ht = "ht\<lparr>arData := (arData ht)[j := Some (b\<lparr>b_next := arHash ht ! slot_of ht (b_h b)\<rparr>)]\<rparr>"
  have "cells_ok ?ht" using assms(1) by (simp add: cells_ok_def)
  from set_hash_eq [OF this, of "b_h b" "word_of_nat j"] show ?thesis
    using assms(2) HT_HASH_eq [OF assms(1), of "b_h b"]
    by (simp add: link_bucket_def put_bucket_def n_index_def Let_def)
qed

subsection \<open>Rehashing\<close>

lemma rehash_full_ok:
  assumes "cells_ok ht" "chains (slot_of ht) (arData ht) (arHash ht) i"
    "\<forall>j\<in>{i..<i + n}. held (arData ht) j \<noteq> None" "i + n \<le> length (arData ht)" "i + n < 2 ^ 32"
  shows "\<exists>d hs. rehash_full n i ht = Some (ht\<lparr>arData := d, arHash := hs\<rparr>) \<and>
    chains (slot_of ht) d hs (i + n) \<and> (\<forall>j. held d j = held (arData ht) j) \<and>
    length d = length (arData ht) \<and> length hs = length (arHash ht)"
  using assms
proof (induction n arbitrary: i ht)
  case 0
  show ?case by (rule exI [of _ "arData ht"], rule exI [of _ "arHash ht"]) (use 0 in simp)
next
  case (Suc n)
  have "held (arData ht) i \<noteq> None" using Suc.prems(3) by simp
  then obtain b where b: "bucket_in (arData ht) i = Some b" "b_val b \<noteq> IS_UNDEF"
    by (auto simp: held_def split: option.splits if_splits)
  let ?s = "slot_of ht (b_h b)"
  let ?ht = "ht\<lparr>arData := (arData ht)[i := Some (b\<lparr>b_next := arHash ht ! ?s\<rparr>)],
    arHash := (arHash ht)[?s := word_of_nat i]\<rparr>"
  have i: "i < length (arData ht)" using Suc.prems(4) by simp
  have same: "held (arData ?ht) j = held (arData ht) j" for j
    using b i by (auto simp: held_update) (auto simp: held_def)
  have "chains (slot_of ht) (arData ?ht) (arHash ?ht) (Suc i)"
    using chains_link [OF Suc.prems(2) i _ b(2)] Suc.prems(1,5) by (simp add: cells_ok_def)
  then have "\<exists>d hs. rehash_full n (Suc i) ?ht = Some (?ht\<lparr>arData := d, arHash := hs\<rparr>) \<and>
    chains (slot_of ?ht) d hs (Suc i + n) \<and> (\<forall>j. held d j = held (arData ?ht) j) \<and>
    length d = length (arData ?ht) \<and> length hs = length (arHash ?ht)"
    using Suc.prems by (intro Suc.IH) (simp_all add: same [simplified] cells_ok_def)
  then show ?case
    using link_bucket_eq [OF Suc.prems(1) i, of b] b(1) by (simp add: same [simplified])
qed

lemma lower_pos_ge:
  "start \<le> nNumUsed ht \<Longrightarrow> start \<le> zend_hash_iterators_lower_pos ht start"
proof -
  have "start \<le> n \<Longrightarrow> start \<le> fold (\<lambda>pos res. if start \<le> pos \<and> pos < res then pos else res) xs n"
    for xs and n :: u32
    by (induction xs arbitrary: n) auto
  then show "start \<le> nNumUsed ht \<Longrightarrow> ?thesis" by (simp add: zend_hash_iterators_lower_pos_def)
qed

lemma unat_of_nat32: "n < 2 ^ 32 \<Longrightarrow> unat (word_of_nat n :: u32) = n"
  by (simp add: unsigned_of_nat take_bit_nat_eq_self)

lemma unat_exp32: "m < 32 \<Longrightarrow> unat (2 ^ m :: u32) = 2 ^ m"
  using unat_of_nat32 [of "2 ^ m"] power_strict_increasing [of m 32 "2 :: nat"] by simp

lemma iterators_update_iters:
  "\<exists>its. zend_hash_iterators_update ht from to = ht\<lparr>ht_iters := its\<rparr>"
proof (cases "nIteratorsCount ht = 0")
  case True
  then show ?thesis by (intro exI [of _ "ht_iters ht"]) (simp add: zend_hash_iterators_update_def)
qed (auto simp: zend_hash_iterators_update_def zend_hash_iterators_update_all_def)

text \<open>The loop over the iterators ends: each pass goes to a later position.\<close>

lemma move_iterators_ends:
  assumes "unat iter_pos \<le> i" "i < unat (nNumUsed ht)"
  shows "\<exists>pos its. move_iterators i j iter_pos ht = Some (pos, ht\<lparr>ht_iters := its\<rparr>)"
  using assms
proof (induction "i - unat iter_pos" arbitrary: iter_pos ht rule: less_induct)
  case less
  obtain its where its: "zend_hash_iterators_update ht iter_pos (word_of_nat j) = ht\<lparr>ht_iters := its\<rparr>"
    using iterators_update_iters by blast
  let ?ht = "ht\<lparr>ht_iters := its\<rparr>" and ?pos = "zend_hash_iterators_lower_pos (ht\<lparr>ht_iters := its\<rparr>) (iter_pos + 1)"
  have i: "unat (word_of_nat i :: u32) = i"
    using less.prems(2) unat_u32_less [of "nNumUsed ht"] by (intro unat_of_nat32) simp
  have suc: "unat (iter_pos + 1) = Suc (unat iter_pos)"
    using less.prems unat_u32_less [of "nNumUsed ht"] by (subst unat_word_ariths) simp
  then have "iter_pos + 1 \<le> nNumUsed ?ht" using less.prems by (simp add: word_le_nat_alt)
  then have ge: "Suc (unat iter_pos) \<le> unat ?pos" using lower_pos_ge suc by (metis word_le_nat_alt)
  show ?case
  proof (cases "?pos < word_of_nat i")
    case True
    then have lt: "unat ?pos < i" using i by (simp add: word_less_nat_alt)
    have "\<exists>pos its'. move_iterators i j ?pos ?ht = Some (pos, ?ht\<lparr>ht_iters := its'\<rparr>)"
      using ge lt less.prems by (intro less.hyps) simp_all
    then show ?thesis using True by (subst move_iterators.simps) (simp add: its Let_def)
  next
    case False
    then show ?thesis by (subst move_iterators.simps) (auto simp: its Let_def)
  qed
qed

lemma held_of_bucket:
  "bucket_in d i = Some b \<Longrightarrow> held d i = (if b_val b = IS_UNDEF then None else Some (b_val b, b_h b, b_key b))"
  by (simp add: held_def)

text \<open>One bucket moved from \<open>i\<close> to \<open>j\<close>.\<close>

lemma rehash_compact_step:
  assumes ok: "cells_ok ht" "j < length (arData ht)" and i: "i < unat (nNumUsed ht)"
    and b: "bucket_in (arData ht) i = Some b" "b_val b \<noteq> IS_UNDEF"
  shows "\<exists>pos ip its. rehash_compact (Suc n) i j iter_pos ht = rehash_compact n (Suc i) (Suc j) pos
    (ht\<lparr>arData := (arData ht)[j := Some (b\<lparr>b_next := arHash ht ! slot_of ht (b_h b)\<rparr>)],
        arHash := (arHash ht)[slot_of ht (b_h b) := word_of_nat j], nInternalPointer := ip, ht_iters := its\<rparr>)"
proof -
  let ?ht1 = "ht\<lparr>arData := (arData ht)[j := Some (b\<lparr>b_next := arHash ht ! slot_of ht (b_h b)\<rparr>)],
        arHash := (arHash ht)[slot_of ht (b_h b) := word_of_nat j]\<rparr>"
  define ip where "ip = (if nInternalPointer ht = word_of_nat i then word_of_nat j else nInternalPointer ht)"
  let ?ht = "?ht1\<lparr>nInternalPointer := ip\<rparr>"
  have ht: "(if nInternalPointer ?ht1 = word_of_nat i then ?ht1\<lparr>nInternalPointer := word_of_nat j\<rparr> else ?ht1) = ?ht"
    by (simp add: ip_def)
  have w: "unat (word_of_nat i :: u32) = i" using i unat_u32_less [of "nNumUsed ht"] by (intro unat_of_nat32) simp
  have "\<exists>pos its. (if nIteratorsCount ?ht \<noteq> 0 \<and> iter_pos \<le> word_of_nat i
      then move_iterators i j iter_pos ?ht else Some (iter_pos, ?ht)) = Some (pos, ?ht\<lparr>ht_iters := its\<rparr>)"
  proof (cases "nIteratorsCount ?ht \<noteq> 0 \<and> iter_pos \<le> word_of_nat i")
    case True
    then have "unat iter_pos \<le> i" using w by (simp add: word_le_nat_alt)
    then show ?thesis using move_iterators_ends [of iter_pos i ?ht j] i True by simp
  next
    case False
    then show ?thesis by (intro exI [of _ iter_pos] exI [of _ "ht_iters ht"]) auto
  qed
  then obtain pos its where "(if nIteratorsCount ?ht \<noteq> 0 \<and> iter_pos \<le> word_of_nat i
      then move_iterators i j iter_pos ?ht else Some (iter_pos, ?ht)) = Some (pos, ?ht\<lparr>ht_iters := its\<rparr>)"
    by blast
  then have "rehash_compact (Suc n) i j iter_pos ht = rehash_compact n (Suc i) (Suc j) pos (?ht\<lparr>ht_iters := its\<rparr>)"
    using b link_bucket_eq [OF ok, of b] unfolding rehash_compact.simps Let_def ht [symmetric]
    by (simp only: bind.simps prod.case if_False split: if_split)
  then show ?thesis by blast
qed

lemma rehash_compact_ok:
  assumes "cells_ok ht" "chains (slot_of ht) (arData ht) (arHash ht) j"
    "\<forall>m\<in>{i..<i + n}. bucket_in (arData ht) m \<noteq> None" "i + n \<le> length (arData ht)"
    "j < i" "i + n = unat (nNumUsed ht)"
  shows "\<exists>d hs ip its. rehash_compact n i j iter_pos ht = Some (ht\<lparr>arData := d, arHash := hs,
      nNumUsed := word_of_nat (j + length (elems (arData ht) i n)), nInternalPointer := ip, ht_iters := its\<rparr>) \<and>
    chains (slot_of ht) d hs (j + length (elems (arData ht) i n)) \<and>
    elems d 0 (j + length (elems (arData ht) i n)) = elems (arData ht) 0 j @ elems (arData ht) i n \<and>
    length d = length (arData ht) \<and> length hs = length (arHash ht)"
  using assms
proof (induction n arbitrary: i j iter_pos ht)
  case 0
  show ?case
    by (rule exI [of _ "arData ht"], rule exI [of _ "arHash ht"], rule exI [of _ "nInternalPointer ht"],
      rule exI [of _ "ht_iters ht"]) (use 0 in simp)
next
  case (Suc n)
  obtain b where b: "bucket_in (arData ht) i = Some b" using Suc.prems(3) by fastforce
  show ?case
  proof (cases "b_val b = IS_UNDEF")
    case True
    then have e: "elems (arData ht) i (Suc n) = elems (arData ht) (Suc i) n"
      using b by (simp add: elems_Suc held_def)
    show ?thesis
      using Suc.IH [OF Suc.prems(1,2), of "Suc i" iter_pos] Suc.prems(3-6) b True unfolding e by simp
  next
    case False
    let ?d = "(arData ht)[j := Some (b\<lparr>b_next := arHash ht ! slot_of ht (b_h b)\<rparr>)]"
    let ?hs = "(arHash ht)[slot_of ht (b_h b) := word_of_nat j]"
    have j: "j < length (arData ht)" and i: "i < unat (nNumUsed ht)" using Suc.prems(4,5,6) by simp_all
    have len32: "i + Suc n < 2 ^ 32" using Suc.prems(6) unat_u32_less [of "nNumUsed ht"] by simp
    have "chains (slot_of ht) ?d ?hs (Suc j)"
      using chains_link [OF Suc.prems(2) j _ False] Suc.prems(1,5) len32 by (simp add: cells_ok_def)
    moreover have e: "elems ?d (Suc i) n = elems (arData ht) (Suc i) n"
      using Suc.prems(5) j by (intro elems_cong) (simp add: held_update)
    moreover have "elems ?d 0 (Suc j) = elems (arData ht) 0 j @ [(b_val b, b_h b, b_key b)]"
      using elems_cong [of 0 j ?d "arData ht"] j False by (simp add: elems_snoc held_update)
    moreover have "elems (arData ht) i (Suc n) = (b_val b, b_h b, b_key b) # elems (arData ht) (Suc i) n"
      using b False by (simp add: elems_Suc held_def)
    moreover obtain pos ip its where "rehash_compact (Suc n) i j iter_pos ht = rehash_compact n (Suc i) (Suc j) pos
          (ht\<lparr>arData := ?d, arHash := ?hs, nInternalPointer := ip, ht_iters := its\<rparr>)"
      using rehash_compact_step [OF Suc.prems(1) j i b False] by blast
    ultimately show ?thesis
      using Suc.IH [of "ht\<lparr>arData := ?d, arHash := ?hs, nInternalPointer := ip, ht_iters := its\<rparr>" "Suc j" "Suc i" pos]
        Suc.prems j by (simp add: cells_ok_def)
  qed
qed

lemma rehash_holes_ok:
  assumes "cells_ok ht" "chains (slot_of ht) (arData ht) (arHash ht) i"
    "\<forall>m\<in>{i..<i + n}. bucket_in (arData ht) m \<noteq> None" "i + n \<le> length (arData ht)"
    "length (elems (arData ht) 0 i) = i" "i + n = unat (nNumUsed ht)"
  shows "\<exists>d hs u ip its. rehash_holes n i ht = Some (ht\<lparr>arData := d, arHash := hs,
      nNumUsed := word_of_nat u, nInternalPointer := ip, ht_iters := its\<rparr>) \<and>
    u = length (elems (arData ht) 0 (i + n)) \<and> chains (slot_of ht) d hs u \<and>
    elems d 0 u = elems (arData ht) 0 (i + n) \<and>
    length d = length (arData ht) \<and> length hs = length (arHash ht)"
  using assms
proof (induction n arbitrary: i ht)
  case 0
  show ?case
    by (rule exI [of _ "arData ht"], rule exI [of _ "arHash ht"], rule exI [of _ i],
      rule exI [of _ "nInternalPointer ht"], rule exI [of _ "ht_iters ht"]) (use 0 in simp)
next
  case (Suc n)
  obtain b where b: "bucket_in (arData ht) i = Some b" using Suc.prems(3) by fastforce
  have cat: "elems (arData ht) 0 (i + Suc n) = elems (arData ht) 0 i @ elems (arData ht) i (Suc n)"
    using elems_append [of "arData ht" 0 i "Suc n"] by simp
  show ?case
  proof (cases "b_val b = IS_UNDEF")
    case True
    then have "elems (arData ht) i (Suc n) = elems (arData ht) (Suc i) n" using b by (simp add: elems_Suc held_def)
    then show ?thesis
      using rehash_compact_ok [of ht i "Suc i" n "zend_hash_iterators_lower_pos ht 0"] Suc.prems b True cat
      by auto
  next
    case False
    let ?d = "(arData ht)[i := Some (b\<lparr>b_next := arHash ht ! slot_of ht (b_h b)\<rparr>)]"
    let ?ht = "ht\<lparr>arData := ?d, arHash := (arHash ht)[slot_of ht (b_h b) := word_of_nat i]\<rparr>"
    have i: "i < length (arData ht)" using Suc.prems(4) by simp
    have len32: "i + Suc n < 2 ^ 32" using Suc.prems(6) unat_u32_less [of "nNumUsed ht"] by simp
    have same: "held ?d j = held (arData ht) j" for j
      using b False i by (auto simp: held_update) (auto simp: held_def)
    have el: "elems ?d 0 m = elems (arData ht) 0 m" for m by (intro elems_cong) (simp add: same)
    have "chains (slot_of ht) (arData ?ht) (arHash ?ht) (Suc i)"
      using chains_link [OF Suc.prems(2) i _ False] Suc.prems(1) len32 by (simp add: cells_ok_def)
    moreover have "length (elems ?d 0 (Suc i)) = Suc i"
      unfolding el using Suc.prems(5) b False by (simp add: elems_snoc held_def)
    ultimately have "\<exists>d hs u ip its. rehash_holes n (Suc i) ?ht = Some (?ht\<lparr>arData := d, arHash := hs,
        nNumUsed := word_of_nat u, nInternalPointer := ip, ht_iters := its\<rparr>) \<and>
      u = length (elems (arData ?ht) 0 (Suc i + n)) \<and> chains (slot_of ?ht) d hs u \<and>
      elems d 0 u = elems (arData ?ht) 0 (Suc i + n) \<and>
      length d = length (arData ?ht) \<and> length hs = length (arHash ?ht)"
      using Suc.prems by (intro Suc.IH) (simp_all add: cells_ok_def)
    then show ?thesis
      using link_bucket_eq [OF Suc.prems(1) i, of b] b False by (simp add: el)
  qed
qed

text \<open>Rehashing, for a table with a mask for \<open>2 ^ m\<close> cells and any contents of the cells.\<close>

lemma rehash_ok:
  assumes "nTableMask ht = - (2 ^ m)" "m < 32" "\<not> f_uninitialized ht"
    and used: "\<forall>i<unat (nNumUsed ht). bucket_in (arData ht) i \<noteq> None" "unat (nNumUsed ht) \<le> length (arData ht)"
    and num: "nNumOfElements ht = word_of_nat (length (elems (arData ht) 0 (unat (nNumUsed ht))))"
  shows "\<exists>d hs u ip its. zend_hash_rehash ht = Some (ht\<lparr>arData := d, arHash := hs,
      nNumUsed := word_of_nat u, nInternalPointer := ip, ht_iters := its\<rparr>) \<and>
    u = length (elems (arData ht) 0 (unat (nNumUsed ht))) \<and> chains (slot_of ht) d hs u \<and>
    elems d 0 u = elems (arData ht) 0 (unat (nNumUsed ht)) \<and>
    length d = length (arData ht) \<and> length hs = 2 ^ m"
proof -
  let ?n = "unat (nNumUsed ht)" and ?e = "elems (arData ht) 0 (unat (nNumUsed ht))"
  let ?hs = "replicate (2 ^ m) HT_INVALID_IDX"
  let ?ht = "ht\<lparr>arHash := ?hs\<rparr>"
  have le: "length ?e \<le> ?n" by (rule length_elems_le)
  have n32: "?n < 2 ^ 32" using unat_u32_less [of "nNumUsed ht"] by simp
  have m: "unat (2 ^ m :: u32) = 2 ^ m" by (rule unat_exp32 [OF assms(2)])
  have num_nat: "unat (nNumOfElements ht) = length ?e" using le n32 by (simp add: num unat_of_nat32)
  have cells: "cells_ok ?ht" using cell_of_less [of m] assms(1) by (simp add: cells_ok_def)
  have ch: "chains (slot_of ?ht) (arData ?ht) (arHash ?ht) 0" by (simp add: chains_reset)
  have reset: "HT_HASH_RESET ht = ?ht" "HT_HASH_RESET (ht\<lparr>nNumUsed := 0\<rparr>) = ?ht\<lparr>nNumUsed := 0\<rparr>"
    using assms(1) m by (simp_all add: HT_HASH_RESET_def)
  show ?thesis
  proof (cases "nNumOfElements ht = 0")
    case True
    then have "?e = []" using num_nat by simp
    then show ?thesis
      using True assms(3) ch reset(2) unfolding zend_hash_rehash_def
      by (intro exI [of _ "arData ht"] exI [of _ ?hs] exI [of _ 0] exI [of _ "nInternalPointer ht"]
        exI [of _ "ht_iters ht"]) simp
  next
    case some: False
    then have "0 < length ?e" using num_nat by (metis unat_0_iff gr0I)
    then have "0 < ?n" using le by (rule less_le_trans)
    then have max: "max 1 ?n = ?n" by simp
    show ?thesis
    proof (cases "nNumUsed ht = nNumOfElements ht")
      case True
      then have full: "length ?e = ?n" using num_nat by simp
      then have "\<forall>j\<in>{0..<0 + ?n}. held (arData ?ht) j \<noteq> None" using length_elems_eq_iff [of "arData ht" 0 ?n] by simp
      from rehash_full_ok [OF cells ch this] obtain d hs where
        r: "rehash_full ?n 0 ?ht = Some (?ht\<lparr>arData := d, arHash := hs\<rparr>)" "chains (slot_of ht) d hs ?n"
          "\<forall>j. held d j = held (arData ht) j" "length d = length (arData ht)" "length hs = 2 ^ m"
        using used(2) n32 by auto
      have "elems d 0 ?n = ?e" using r(3) by (intro elems_cong) simp
      then show ?thesis
        using some True max full r(1,2,4,5) reset(1) unfolding zend_hash_rehash_def
        by (intro exI [of _ d] exI [of _ hs] exI [of _ ?n] exI [of _ "nInternalPointer ht"]
          exI [of _ "ht_iters ht"]) simp
    next
      case False
      from rehash_holes_ok [OF cells ch, of ?n] obtain d hs u ip its where
        r: "rehash_holes ?n 0 ?ht = Some (?ht\<lparr>arData := d, arHash := hs, nNumUsed := word_of_nat u,
            nInternalPointer := ip, ht_iters := its\<rparr>)" "u = length ?e" "chains (slot_of ht) d hs u"
          "elems d 0 u = ?e" "length d = length (arData ht)" "length hs = 2 ^ m"
        using used by auto
      have "zend_hash_rehash ht = Some (ht\<lparr>arData := d, arHash := hs, nNumUsed := word_of_nat u,
          nInternalPointer := ip, ht_iters := if nIteratorsCount ht \<noteq> 0
            then map (\<lambda>pos. if pos = nNumUsed ht then word_of_nat u else pos) its else its\<rparr>)"
        using some False max r(1) reset(1) unfolding zend_hash_rehash_def
        by (simp add: zend_hash_iterators_update_all_def Let_def)
      then show ?thesis using r(2-6) by blast
    qed
  qed
qed

end
