(* ===== verification/Zend_Hash_Correct.thy ===== *)
theory Zend_Hash_Correct
  imports Zend_Hash_Chains Keyed_Store "HOL-Library.AList"
begin

text \<open>
  The arrays of PHP are ordered maps. The abstraction of a table is the list of its keys and
  values in the order of insertion; on it an update is \<open>AList.update\<close>, a deletion
  \<open>AList.delete\<close>, and growing, rehashing and changing the representation do nothing.
\<close>

subsection \<open>The abstraction and the invariant\<close>

datatype hkey = Str bytes | Idx u64

fun entry_key :: "'v zval \<times> u64 \<times> zend_string option \<Rightarrow> hkey" where
  "entry_key (v, h, Some k) = Str (zs_val k)"
| "entry_key (v, h, None) = Idx h"

fun key_hash :: "hkey \<Rightarrow> u64" where
  "key_hash (Str s) = zend_hash_func s"
| "key_hash (Idx h) = h"

text \<open>The hash in a bucket is the hash of its key.\<close>

fun entry_ok :: "'v zval \<times> u64 \<times> zend_string option \<Rightarrow> bool" where
  "entry_ok (v, h, k) \<longleftrightarrow> h = key_hash (entry_key (v, h, k))"

definition ht_elems :: "'v hashtable \<Rightarrow> ('v zval \<times> u64 \<times> zend_string option) list" where
  "ht_elems ht = elems (arData ht) 0 (unat (nNumUsed ht))"

definition ht_list :: "'v hashtable \<Rightarrow> (hkey \<times> 'v zval) list" where
  "ht_list ht = map (\<lambda>e. (entry_key e, fst e)) (ht_elems ht)"

text \<open>What every initialised table has: its size is a power of two, its used buckets were
  written, its elements are counted, and their keys are distinct.\<close>

definition contents_ok :: "nat \<Rightarrow> 'v hashtable \<Rightarrow> bool" where
  "contents_ok k ht \<longleftrightarrow> 3 \<le> k \<and> k \<le> 30 \<and> nTableSize ht = 2 ^ k \<and> length (arData ht) = 2 ^ k \<and>
     unat (nNumUsed ht) \<le> 2 ^ k \<and> (\<forall>i<unat (nNumUsed ht). bucket_in (arData ht) i \<noteq> None) \<and>
     nNumOfElements ht = word_of_nat (length (ht_elems ht)) \<and>
     distinct (map entry_key (ht_elems ht)) \<and> list_all entry_ok (ht_elems ht) \<and>
     \<not> f_uninitialized ht \<and> \<not> ht_bailout ht"

definition hash_ok :: "nat \<Rightarrow> 'v hashtable \<Rightarrow> bool" where
  "hash_ok k ht \<longleftrightarrow> contents_ok k ht \<and> \<not> f_packed ht \<and> nTableMask ht = - (2 ^ Suc k) \<and>
     length (arHash ht) = 2 ^ Suc k \<and>
     chains (slot_of ht) (arData ht) (arHash ht) (unat (nNumUsed ht))"

definition packed_ok :: "nat \<Rightarrow> 'v hashtable \<Rightarrow> bool" where
  "packed_ok k ht \<longleftrightarrow> contents_ok k ht \<and> f_packed ht \<and> nTableMask ht = HT_MIN_MASK \<and>
     arHash ht = [HT_INVALID_IDX, HT_INVALID_IDX] \<and>
     (\<forall>i<unat (nNumUsed ht). \<forall>v h key. held (arData ht) i = Some (v, h, key) \<longrightarrow>
        h = word_of_nat i \<and> key = None)"

definition fresh_ok :: "nat \<Rightarrow> 'v hashtable \<Rightarrow> bool" where
  "fresh_ok k ht \<longleftrightarrow> 3 \<le> k \<and> k \<le> 30 \<and> nTableSize ht = 2 ^ k \<and> f_uninitialized ht \<and> \<not> f_packed ht \<and>
     nTableMask ht = HT_MIN_MASK \<and> arHash ht = [HT_INVALID_IDX, HT_INVALID_IDX] \<and>
     nNumUsed ht = 0 \<and> nNumOfElements ht = 0 \<and> \<not> ht_bailout ht"

definition ht_ok :: "'v hashtable \<Rightarrow> bool" where
  "ht_ok ht \<longleftrightarrow> (\<exists>k. hash_ok k ht \<or> packed_ok k ht \<or> fresh_ok k ht)"

lemma hash_okD:
  assumes "hash_ok k ht"
  shows "contents_ok k ht" "\<not> f_packed ht" "nTableMask ht = - (2 ^ Suc k)" "length (arHash ht) = 2 ^ Suc k"
    "chains (slot_of ht) (arData ht) (arHash ht) (unat (nNumUsed ht))"
  using assms unfolding hash_ok_def by blast+

lemma hash_okI:
  assumes "contents_ok k ht" "\<not> f_packed ht" "nTableMask ht = - (2 ^ Suc k)" "length (arHash ht) = 2 ^ Suc k"
    "chains (slot_of ht) (arData ht) (arHash ht) (unat (nNumUsed ht))"
  shows "hash_ok k ht"
  using assms unfolding hash_ok_def by blast

lemma HT_SIZE_TO_MASK_exp [simp]: "HT_SIZE_TO_MASK (2 ^ k) = - (2 ^ Suc k)"
  by (simp add: HT_SIZE_TO_MASK_def)

lemma min_mask_less: "cell_of HT_MIN_MASK h < 2"
proof -
  have "(HT_MIN_MASK :: u32) = - (2 ^ 1)" by simp
  then show ?thesis using cell_of_less [of 1 h] by (metis power_one_right)
qed

lemma hash_cells: "hash_ok k ht \<Longrightarrow> cells_ok ht"
  using cell_of_less [of "Suc k"] by (simp add: hash_ok_def cells_ok_def)

lemma min_cells: "nTableMask ht = HT_MIN_MASK \<Longrightarrow> arHash ht = [x, y] \<Longrightarrow> cells_ok ht"
  using min_mask_less by (simp add: cells_ok_def numeral_2_eq_2)

subsection \<open>Where a key is\<close>

definition key_at :: "'v bucket option list \<Rightarrow> nat \<Rightarrow> hkey option" where
  "key_at d i = map_option entry_key (held d i)"

definition index_of :: "'v hashtable \<Rightarrow> hkey \<Rightarrow> nat option" where
  "index_of ht q = List.find (\<lambda>i. key_at (arData ht) i = Some q) [0..<unat (nNumUsed ht)]"

lemma find_unique:
  assumes "\<And>x y. x \<in> set xs \<Longrightarrow> y \<in> set xs \<Longrightarrow> P x \<Longrightarrow> P y \<Longrightarrow> x = y"
  shows "List.find P xs = Some x \<longleftrightarrow> x \<in> set xs \<and> P x"
  using assms by (induction xs) (auto split: if_splits)

lemma held_in_elems: "i < n \<Longrightarrow> held d i = Some e \<Longrightarrow> e \<in> set (elems d 0 n)"
  by (auto simp: set_elems)

lemma entry_ok_at: "list_all entry_ok (elems d 0 n) \<Longrightarrow> i < n \<Longrightarrow> held d i = Some e \<Longrightarrow> entry_ok e"
  unfolding list_all_iff using held_in_elems by metis

lemma distinct_elems_neq:
  assumes "distinct (map f (elems d 0 n))" "a < b" "b < n" "held d a = Some e" "held d b = Some e'"
  shows "f e \<noteq> f e'"
proof -
  have "elems d 0 n = elems d 0 b @ elems d b (n - b)" using elems_append [of d 0 b "n - b"] assms(3) by simp
  moreover have "e \<in> set (elems d 0 b)" using assms(2,4) by (auto simp: set_elems)
  moreover have "e' \<in> set (elems d b (n - b))" using assms(3,5) by (force simp: set_elems)
  ultimately show ?thesis using assms(1) by auto
qed

lemma key_at_unique:
  assumes "distinct (map entry_key (elems d 0 n))" "i < n" "j < n" "key_at d i = Some q" "key_at d j = Some q"
  shows "i = j"
proof (rule ccontr)
  assume ne: "i \<noteq> j"
  obtain e e' where e: "held d i = Some e" "held d j = Some e'" "entry_key e = q" "entry_key e' = q"
    using assms(4,5) by (auto simp: key_at_def)
  show False
    using ne distinct_elems_neq [OF assms(1) _ assms(3) e(1,2)] distinct_elems_neq [OF assms(1) _ assms(2) e(2,1)] e(3,4)
    by (cases "i < j") auto
qed

lemma elems_split:
  "i < n \<Longrightarrow> elems d 0 n = elems d 0 i @ (case held d i of Some e \<Rightarrow> [e] | None \<Rightarrow> []) @ elems d (Suc i) (n - Suc i)"
  using elems_append [of d 0 "Suc i" "n - Suc i"] by (simp add: elems_snoc)

text \<open>The elements from the buckets in front of position \<open>i\<close>, at \<open>i\<close>, and behind it.\<close>

lemma index_of_Some:
  assumes "distinct (map entry_key (ht_elems ht))"
  shows "index_of ht q = Some i \<longleftrightarrow> i < unat (nNumUsed ht) \<and> key_at (arData ht) i = Some q"
  unfolding index_of_def
  by (subst find_unique) (use assms in \<open>auto simp: ht_elems_def intro: key_at_unique\<close>)

lemma index_of_None: "index_of ht q = None \<longleftrightarrow> q \<notin> fst ` set (ht_list ht)"
  by (force simp: index_of_def find_None_iff ht_list_def ht_elems_def set_elems key_at_def)

lemma elems_at:
  assumes "i < unat (nNumUsed ht)" "held (arData ht) i = Some e"
  shows "ht_elems ht = elems (arData ht) 0 i @ e # elems (arData ht) (Suc i) (unat (nNumUsed ht) - Suc i)"
  using elems_split [OF assms(1), of "arData ht"] assms(2) by (simp add: ht_elems_def)

lemma map_of_ht_list:
  assumes "distinct (map entry_key (ht_elems ht))" "index_of ht q = Some i" "bucket_in (arData ht) i = Some b"
  shows "map_of (ht_list ht) q = Some (b_val b)"
proof -
  have "i < unat (nNumUsed ht)" "key_at (arData ht) i = Some q" using index_of_Some [OF assms(1)] assms(2) by auto
  then obtain e where e: "held (arData ht) i = Some e" "entry_key e = q" "fst e = b_val b" "e \<in> set (ht_elems ht)"
    using assms(3) held_in_elems [of i "unat (nNumUsed ht)" "arData ht"]
    by (auto simp: key_at_def held_of_bucket ht_elems_def split: if_splits)
  have "(q, b_val b) \<in> set (ht_list ht)" using e by (force simp: ht_list_def)
  moreover have "distinct (map fst (ht_list ht))" using assms(1) by (simp add: ht_list_def comp_def)
  ultimately show ?thesis by simp
qed

lemma entry_ok_hash: "entry_ok e \<Longrightarrow> fst (snd e) = key_hash (entry_key e)"
  by (cases e) auto

text \<open>The chain of a key holds the bucket of the key, when there is one.\<close>

lemma find_in_slot:
  assumes "distinct (map entry_key (elems d 0 n))" "list_all entry_ok (elems d 0 n)"
  shows "List.find (\<lambda>i. key_at d i = Some q) (slot_ids slot d n (slot (key_hash q))) =
    List.find (\<lambda>i. key_at d i = Some q) [0..<n]"
proof -
  have uniq: "x = y" if "x < n" "y < n" "key_at d x = Some q" "key_at d y = Some q" for x y
    using key_at_unique [OF assms(1) that] .
  have mem: "i \<in> set (slot_ids slot d n (slot (key_hash q)))" if i: "i < n" "key_at d i = Some q" for i
  proof -
    obtain e where e: "held d i = Some e" "entry_key e = q" using i(2) by (auto simp: key_at_def)
    then have "entry_ok e" using entry_ok_at [OF assms(2) i(1)] by simp
    then show ?thesis using e i(1) entry_ok_hash [of e] by (cases e) (simp add: set_slot_ids)
  qed
  have "List.find (\<lambda>i. key_at d i = Some q) (slot_ids slot d n (slot (key_hash q))) = Some x \<longleftrightarrow>
      List.find (\<lambda>i. key_at d i = Some q) [0..<n] = Some x" for x
    using uniq mem by (subst (1 2) find_unique) (auto simp: set_slot_ids)
  then show ?thesis by (metis not_None_eq)
qed

lemma key_chain:
  assumes "ht_ok ht" and q: "f_packed ht \<Longrightarrow> \<exists>s. q = Str s"
  obtains xs where "linked (arData ht) (arHash ht ! slot_of ht (key_hash q)) xs" "distinct xs"
    "\<forall>x\<in>set xs. x < unat (nNumUsed ht) \<and> (\<exists>e. held (arData ht) x = Some e \<and> entry_ok e)"
    "List.find (\<lambda>i. key_at (arData ht) i = Some q) xs = index_of ht q" "cells_ok ht"
    "xs = (if f_packed ht \<or> f_uninitialized ht then []
       else slot_ids (slot_of ht) (arData ht) (unat (nNumUsed ht)) (slot_of ht (key_hash q)))"
proof -
  obtain k where "hash_ok k ht \<or> packed_ok k ht \<or> fresh_ok k ht" using assms(1) by (auto simp: ht_ok_def)
  then consider "hash_ok k ht" | "packed_ok k ht" | "fresh_ok k ht" by blast
  then show thesis
  proof cases
    case 1
    then have c: "contents_ok k ht" "cells_ok ht" using hash_cells [OF 1] by (simp_all add: hash_ok_def)
    let ?xs = "slot_ids (slot_of ht) (arData ht) (unat (nNumUsed ht)) (slot_of ht (key_hash q))"
    show ?thesis
    proof (rule that [of ?xs])
      show "linked (arData ht) (arHash ht ! slot_of ht (key_hash q)) ?xs"
        using 1 c(2) unfolding hash_ok_def chains_def cells_ok_def by blast
      show "\<forall>x\<in>set ?xs. x < unat (nNumUsed ht) \<and> (\<exists>e. held (arData ht) x = Some e \<and> entry_ok e)"
        using c(1) entry_ok_at by (fastforce simp: set_slot_ids contents_ok_def ht_elems_def simp del: entry_ok.simps)
      show "List.find (\<lambda>i. key_at (arData ht) i = Some q) ?xs = index_of ht q"
        using c(1) find_in_slot by (auto simp: contents_ok_def ht_elems_def index_of_def)
    qed (use 1 c in \<open>auto simp: hash_ok_def contents_ok_def\<close>)
  next
    case 2
    then have inv: "arHash ht = [HT_INVALID_IDX, HT_INVALID_IDX]" "nTableMask ht = HT_MIN_MASK" "f_packed ht"
      by (simp_all add: packed_ok_def)
    then obtain s where s: "q = Str s" using q by blast
    have "index_of ht q = None"
      using 2 s by (auto simp: index_of_def find_None_iff packed_ok_def key_at_def)
    then show ?thesis
      using inv min_mask_less [of "key_hash q"] by (intro that [of "[]"])
        (auto simp: less_2_cases_iff nth_Cons' intro: min_cells)
  next
    case 3
    then have inv: "arHash ht = [HT_INVALID_IDX, HT_INVALID_IDX]" "nTableMask ht = HT_MIN_MASK" "f_uninitialized ht"
      by (simp_all add: fresh_ok_def)
    have "index_of ht q = None" using 3 by (simp add: index_of_def fresh_ok_def)
    then show ?thesis
      using inv min_mask_less [of "key_hash q"] by (intro that [of "[]"])
        (auto simp: less_2_cases_iff nth_Cons' intro: min_cells)
  qed
qed

subsection \<open>Lookups\<close>

fun first_match :: "(nat \<Rightarrow> bool) \<Rightarrow> u32 option \<Rightarrow> nat list \<Rightarrow> (u32 option \<times> u32) option" where
  "first_match P prev [] = None"
| "first_match P prev (x # xs) =
     (if P x then Some (prev, word_of_nat x) else first_match P (Some (word_of_nat x)) xs)"

lemma first_match_find: "map_option snd (first_match P prev xs) = map_option word_of_nat (List.find P xs)"
  by (induction xs arbitrary: prev) auto

lemma first_match_split:
  assumes "first_match P prev xs = Some (pr, i)"
  obtains ys x zs where "xs = ys @ x # zs" "i = word_of_nat x" "P x" "List.find P xs = Some x"
    "pr = (if ys = [] then prev else Some (word_of_nat (last ys)))"
  using assms
proof (induction xs arbitrary: prev thesis)
  case (Cons x xs)
  show ?case
  proof (cases "P x")
    case True
    then show ?thesis using Cons.prems(1) [of "[]" x xs] Cons.prems(2) by simp
  next
    case False
    then have m: "first_match P (Some (word_of_nat x)) xs = Some (pr, i)" using Cons.prems(2) by simp
    obtain ys y zs where "xs = ys @ y # zs" "i = word_of_nat y" "P y" "List.find P xs = Some y"
      "pr = (if ys = [] then Some (word_of_nat x) else Some (word_of_nat (last ys)))"
      using Cons.IH [OF _ m] by blast
    then show ?thesis using Cons.prems(1) [of "x # ys" y zs] False by simp
  qed
qed simp

lemma linked_ConsD:
  assumes "linked d idx (x # xs)"
  obtains b where "idx \<noteq> HT_INVALID_IDX" "unat idx = x" "bucket_in d x = Some b" "linked d (b_next b) xs"
  using assms by (auto split: option.splits)

lemma search_chain_eq:
  "linked d idx xs \<Longrightarrow> \<exists>calls'. search_chain m d prev idx calls =
     Some (first_match (\<lambda>x. fst (m (the (bucket_in d x)))) prev xs, calls')"
proof (induction xs arbitrary: idx prev calls)
  case Nil
  then show ?case by (simp add: search_chain.simps)
next
  case (Cons x xs)
  obtain b where b: "idx \<noteq> HT_INVALID_IDX" "unat idx = x" "bucket_in d x = Some b" "linked d (b_next b) xs"
    using Cons.prems by (rule linked_ConsD)
  have x: "word_of_nat x = idx" using b(2) by auto
  obtain calls' where "search_chain m d (Some idx) (b_next b) (calls @ snd (m b)) =
      Some (first_match (\<lambda>x. fst (m (the (bucket_in d x)))) (Some idx) xs, calls')"
    using Cons.IH [OF b(4)] by blast
  then show ?case using b x by (subst search_chain.simps) (simp add: Let_def case_prod_unfold)
qed

text \<open>One address holds one string.\<close>

definition addr_ok :: "'v hashtable \<Rightarrow> zend_string \<Rightarrow> bool" where
  "addr_ok ht key \<longleftrightarrow> list_all (\<lambda>(v, h, k). case k of
     Some s \<Rightarrow> zs_addr s = zs_addr key \<longrightarrow> zs_val s = zs_val key | None \<Rightarrow> True) (ht_elems ht)"

definition only_cmp :: "hook_call list \<Rightarrow> bool" where
  "only_cmp calls \<longleftrightarrow> list_all (\<lambda>c. case c of Cmp_Call s t \<Rightarrow> True | _ \<Rightarrow> False) calls"

lemma only_cmp_simps [simp]: "only_cmp []" "only_cmp (xs @ ys) \<longleftrightarrow> only_cmp xs \<and> only_cmp ys"
  by (simp_all add: only_cmp_def)

lemma only_cmp_content [simp]: "only_cmp (snd (content_is key b))"
  by (auto simp: content_is_def zend_string_equal_content_def zend_string_equal_val_def only_cmp_def Let_def
      split: option.splits)

definition same_key :: "zend_string \<Rightarrow> 'v bucket \<Rightarrow> bool" where
  "same_key key b \<longleftrightarrow> key_is key b \<or> fst (content_is key b)"

definition lookup_report :: "bytes \<Rightarrow> 'a option \<Rightarrow> hook_call" where
  "lookup_report s r = (case r of Some i \<Rightarrow> Access_Call s | None \<Rightarrow> Redqueen_Call s)"

lemma find_loop_eq:
  assumes "linked d idx (x # xs)" "bucket_in d x = Some b" "\<not> key_is key b" "only_cmp calls"
  shows "\<exists>calls'. find_loop key d idx calls =
      Some (map_option word_of_nat (List.find (\<lambda>i. same_key key (the (bucket_in d i))) (x # xs)),
        calls' @ [lookup_report (zs_val key) (List.find (\<lambda>i. same_key key (the (bucket_in d i))) (x # xs))]) \<and>
    only_cmp calls'"
  using assms
proof (induction xs arbitrary: idx x b calls)
  case Nil
  then have x: "word_of_nat x = idx" "unat idx = x" by auto
  show ?case
    using Nil x by (subst find_loop.simps)
      (auto simp: Let_def case_prod_unfold same_key_def lookup_report_def intro: exI [of _ "calls @ snd (content_is key b)"])
next
  case (Cons y ys)
  then have x: "word_of_nat x = idx" "unat idx = x" and l: "linked d (b_next b) (y # ys)" by auto
  obtain c where c: "b_next b \<noteq> HT_INVALID_IDX" "unat (b_next b) = y" "bucket_in d y = Some c"
    using l by (rule linked_ConsD)
  have y: "word_of_nat y = b_next b" using c(2) by auto
  let ?calls = "calls @ snd (content_is key b)"
  show ?case
  proof (cases "fst (content_is key b) \<or> key_is key c")
    case True
    then show ?thesis
      using Cons.prems x c y by (subst find_loop.simps)
        (auto simp: Let_def case_prod_unfold same_key_def lookup_report_def intro: exI [of _ ?calls])
  next
    case False
    have "only_cmp ?calls" using Cons.prems(4) by simp
    from Cons.IH [OF l c(3) _ this] False show ?thesis
      using Cons.prems x c y by (subst find_loop.simps) (simp add: Let_def case_prod_unfold same_key_def)
  qed
qed

lemma find_cong_set: "(\<And>x. x \<in> set xs \<Longrightarrow> P x = Q x) \<Longrightarrow> List.find P xs = List.find Q xs"
  by (induction xs) auto

text \<open>The comparisons of the lookups tell whether a bucket has the key.\<close>

lemma match_str_iff:
  assumes "bucket_in d i = Some b" "held d i = Some e" "entry_ok e"
  shows "fst (match_str s (zend_hash_func s) b) \<longleftrightarrow> key_at d i = Some (Str s)"
  using assms by (cases "b_key b") (auto simp: match_str_def key_at_def held_def split: if_splits)

lemma match_index_iff:
  assumes "bucket_in d i = Some b" "held d i = Some e"
  shows "fst (match_index h b) \<longleftrightarrow> key_at d i = Some (Idx h)"
  using assms by (cases "b_key b") (auto simp: match_index_def key_at_def held_def split: if_splits)

lemma same_key_iff:
  assumes "bucket_in d i = Some b" "held d i = Some e" "entry_ok e" "zs_h key = zend_hash_func (zs_val key)"
    "\<And>s. b_key b = Some s \<Longrightarrow> zs_addr s = zs_addr key \<Longrightarrow> zs_val s = zs_val key"
  shows "same_key key b \<longleftrightarrow> key_at d i = Some (Str (zs_val key))"
  using assms
  by (cases "b_key b") (auto simp: same_key_def key_is_def content_is_def equal_content_iff key_at_def held_def split: if_splits)

lemma held_bucket: "held d i = Some e \<Longrightarrow> \<exists>b. bucket_in d i = Some b"
  by (auto simp: held_def split: option.splits)

lemma first_match_cases:
  assumes "first_match P prev xs = r" "List.find P xs = i"
  shows "map_option snd r = map_option word_of_nat i" "r = None \<longleftrightarrow> i = None"
  using first_match_find [of P prev xs] assms by (auto simp: option.map_disc_iff [symmetric] simp del: option.map_disc_iff)

lemma str_find_eq:
  assumes "ht_ok ht"
  shows "zend_hash_str_find_bucket ht s (zend_hash_func s) =
    Some (map_option word_of_nat (index_of ht (Str s)), log_event [Hook (lookup_report s (index_of ht (Str s)))] ht)"
proof -
  obtain xs where xs: "linked (arData ht) (arHash ht ! slot_of ht (zend_hash_func s)) xs"
    "\<forall>x\<in>set xs. \<exists>e. held (arData ht) x = Some e \<and> entry_ok e"
    "List.find (\<lambda>i. key_at (arData ht) i = Some (Str s)) xs = index_of ht (Str s)" "cells_ok ht"
    using key_chain [OF assms, of "Str s"] by (metis key_hash.simps(1))
  let ?P = "\<lambda>x. fst (match_str s (zend_hash_func s) (the (bucket_in (arData ht) x)))"
  have P: "?P x = (key_at (arData ht) x = Some (Str s))" if "x \<in> set xs" for x
    using xs(2) that match_str_iff held_bucket by (metis option.sel)
  have "List.find ?P xs = index_of ht (Str s)" using find_cong_set [of xs ?P, OF P] xs(3) by simp
  note r = first_match_cases [OF refl this, of None]
  obtain calls where "search_chain (match_str s (zend_hash_func s)) (arData ht) None
      (arHash ht ! slot_of ht (zend_hash_func s)) [] = Some (first_match ?P None xs, calls)"
    using search_chain_eq [OF xs(1)] by blast
  then show ?thesis
    using r by (auto simp: zend_hash_str_find_bucket_def HT_HASH_eq [OF xs(4)] lookup_report_def split: option.splits)
qed

lemma index_find_eq:
  assumes "ht_ok ht" "\<not> f_packed ht"
  shows "zend_hash_index_find_bucket ht h = Some (map_option word_of_nat (index_of ht (Idx h)))"
proof -
  obtain xs where xs: "linked (arData ht) (arHash ht ! slot_of ht h) xs"
    "\<forall>x\<in>set xs. \<exists>e. held (arData ht) x = Some e \<and> entry_ok e"
    "List.find (\<lambda>i. key_at (arData ht) i = Some (Idx h)) xs = index_of ht (Idx h)" "cells_ok ht"
    using key_chain [OF assms(1), of "Idx h"] assms(2) by (metis key_hash.simps(2))
  let ?P = "\<lambda>x. fst (match_index h (the (bucket_in (arData ht) x)))"
  have P: "?P x = (key_at (arData ht) x = Some (Idx h))" if "x \<in> set xs" for x
    using xs(2) that match_index_iff held_bucket by (metis option.sel)
  have "List.find ?P xs = index_of ht (Idx h)" using find_cong_set [of xs ?P, OF P] xs(3) by simp
  note r = first_match_cases [OF refl this, of None]
  obtain calls where "search_chain (match_index h) (arData ht) None (arHash ht ! slot_of ht h) [] =
      Some (first_match ?P None xs, calls)"
    using search_chain_eq [OF xs(1)] by blast
  then show ?thesis using r by (simp add: zend_hash_index_find_bucket_def HT_HASH_eq [OF xs(4)])
qed

lemma addr_okD:
  assumes "addr_ok ht key" "i < unat (nNumUsed ht)" "held (arData ht) i = Some e" "bucket_in (arData ht) i = Some b"
    "b_key b = Some s" "zs_addr s = zs_addr key"
  shows "zs_val s = zs_val key"
proof -
  have "(b_val b, b_h b, Some s) \<in> set (ht_elems ht)"
    using held_in_elems [OF assms(2,3)] assms(3-5) by (auto simp: ht_elems_def held_def split: if_splits)
  then show ?thesis using assms(1,6) by (fastforce simp: addr_ok_def list_all_iff)
qed

lemma find_eq:
  assumes "ht_ok ht" "zs_h key = zend_hash_func (zs_val key)" "addr_ok ht key"
  shows "\<exists>calls. zend_hash_find_bucket ht key True =
    Some (map_option word_of_nat (index_of ht (Str (zs_val key))),
      log_event (map Hook (calls @ [lookup_report (zs_val key) (index_of ht (Str (zs_val key)))])) ht) \<and> only_cmp calls"
proof -
  let ?q = "Str (zs_val key)" and ?d = "arData ht"
  let ?idx = "arHash ht ! slot_of ht (zs_h key)"
  obtain xs where xs: "linked ?d ?idx xs"
    "\<forall>x\<in>set xs. x < unat (nNumUsed ht) \<and> (\<exists>e. held ?d x = Some e \<and> entry_ok e)"
    "List.find (\<lambda>i. key_at ?d i = Some ?q) xs = index_of ht ?q" "cells_ok ht"
    using key_chain [OF assms(1), of ?q] assms(2) by (metis key_hash.simps(1))
  let ?P = "\<lambda>x. same_key key (the (bucket_in ?d x))"
  have P: "?P x = (key_at ?d x = Some ?q)" if x: "x \<in> set xs" for x
  proof -
    obtain e b where e: "x < unat (nNumUsed ht)" "held ?d x = Some e" "entry_ok e" "bucket_in ?d x = Some b"
      using xs(2) x held_bucket by metis
    then show ?thesis using same_key_iff [OF e(4,2,3) assms(2)] addr_okD [OF assms(3) e(1,2,4)] by simp
  qed
  have f: "List.find ?P xs = index_of ht ?q" using find_cong_set [of xs ?P, OF P] xs(3) by simp
  show ?thesis
  proof (cases xs)
    case Nil
    then show ?thesis using xs(1) f
      by (intro exI [of _ "[]"]) (simp add: zend_hash_find_bucket_def HT_HASH_eq [OF xs(4)] lookup_report_def)
  next
    case (Cons x ys)
    then obtain b where b: "?idx \<noteq> HT_INVALID_IDX" "unat ?idx = x" "bucket_in ?d x = Some b"
      using xs(1) linked_ConsD by metis
    have w: "word_of_nat x = ?idx" using b(2) by auto
    show ?thesis
    proof (cases "key_is key b")
      case True
      then have "index_of ht ?q = Some x" using f b(3) Cons by (simp add: same_key_def)
      then show ?thesis using b w True
        by (intro exI [of _ "[]"]) (simp add: zend_hash_find_bucket_def HT_HASH_eq [OF xs(4)] lookup_report_def)
    next
      case False
      obtain calls where "find_loop key ?d ?idx [] =
          Some (map_option word_of_nat (index_of ht ?q), calls @ [lookup_report (zs_val key) (index_of ht ?q)])"
        "only_cmp calls"
        using find_loop_eq [OF xs(1) [unfolded Cons] b(3) False, of "[]"] f [unfolded Cons] by auto
      then show ?thesis using b False
        by (intro exI [of _ calls]) (simp add: zend_hash_find_bucket_def HT_HASH_eq [OF xs(4)])
    qed
  qed
qed

lemma find_unhashed_eq:
  assumes "zstr_ok key"
  shows "zend_hash_find_bucket ht key False = zend_hash_find_bucket ht (key\<lparr>zs_h := zend_hash_func (zs_val key)\<rparr>) True"
  using zend_string_hash_val_ok [OF assms] by (simp add: zend_hash_find_bucket_def)

subsection \<open>Growing and changing the representation\<close>

lemmas table_defs = hash_ok_def packed_ok_def fresh_ok_def contents_ok_def ht_elems_def

lemma ht_ok_frame [simp]:
  "hash_ok k (ht\<lparr>ht_log := evs\<rparr>) = hash_ok k ht" "hash_ok k (ht\<lparr>f_static_keys := b\<rparr>) = hash_ok k ht"
  "hash_ok k (ht\<lparr>nNextFreeElement := x\<rparr>) = hash_ok k ht"
  "packed_ok k (ht\<lparr>ht_log := evs\<rparr>) = packed_ok k ht" "fresh_ok k (ht\<lparr>ht_log := evs\<rparr>) = fresh_ok k ht"
  by (simp_all add: table_defs)

lemma ht_elems_frame [simp]:
  "ht_elems (ht\<lparr>ht_log := evs\<rparr>) = ht_elems ht" "ht_elems (ht\<lparr>f_static_keys := b\<rparr>) = ht_elems ht"
  "ht_elems (ht\<lparr>nNextFreeElement := x\<rparr>) = ht_elems ht"
  by (simp_all add: ht_elems_def)

lemma log_event_frame [simp]:
  "hash_ok k (log_event evs ht) = hash_ok k ht" "packed_ok k (log_event evs ht) = packed_ok k ht"
  "fresh_ok k (log_event evs ht) = fresh_ok k ht" "ht_ok (log_event evs ht) = ht_ok ht"
  "ht_elems (log_event evs ht) = ht_elems ht" "ht_list (log_event evs ht) = ht_list ht"
  "index_of (log_event evs ht) q = index_of ht q" "nTableSize (log_event evs ht) = nTableSize ht"
  "f_packed (log_event evs ht) = f_packed ht" "f_uninitialized (log_event evs ht) = f_uninitialized ht"
  by (simp_all add: log_event_def ht_ok_def ht_list_def index_of_def)

lemma dynamic_key_frame [simp]:
  "hash_ok k (dynamic_key key ht) = hash_ok k ht" "ht_elems (dynamic_key key ht) = ht_elems ht"
  by (simp_all add: dynamic_key_def)

lemma put_bucket_log: "put_bucket (log_event evs ht) i b = map_option (log_event evs) (put_bucket ht i b)"
  by (simp add: put_bucket_def log_event_def)

lemma contents_bounds:
  assumes "contents_ok k ht"
  shows "unat (nNumUsed ht) \<le> 2 ^ k" "(2 :: nat) ^ k \<le> 2 ^ 30" "length (ht_elems ht) \<le> unat (nNumUsed ht)"
    "unat (nNumOfElements ht) = length (ht_elems ht)" "unat (nTableSize ht) = 2 ^ k"
proof -
  show u: "unat (nNumUsed ht) \<le> 2 ^ k" using assms by (simp add: contents_ok_def)
  show k: "(2 :: nat) ^ k \<le> 2 ^ 30" by (rule power_increasing) (use assms in \<open>simp_all add: contents_ok_def\<close>)
  show l: "length (ht_elems ht) \<le> unat (nNumUsed ht)" by (simp add: ht_elems_def length_elems_le)
  have "length (ht_elems ht) < 2 ^ 32" using l u k by simp
  then show "unat (nNumOfElements ht) = length (ht_elems ht)" using assms by (simp add: contents_ok_def unat_of_nat32)
  show "unat (nTableSize ht) = 2 ^ k" using assms unat_exp32 [of k] by (simp add: contents_ok_def)
qed

lemma rehash_hash_ok:
  assumes c: "contents_ok k ht" and "\<not> f_packed ht" "nTableMask ht = - (2 ^ Suc k)"
  shows "\<exists>ht'. zend_hash_rehash ht = Some ht' \<and> hash_ok k ht' \<and> ht_elems ht' = ht_elems ht \<and>
    unat (nNumUsed ht') = length (ht_elems ht)"
proof -
  note b = contents_bounds [OF c]
  have "\<exists>d hs v ip its. zend_hash_rehash ht = Some (ht\<lparr>arData := d, arHash := hs,
      nNumUsed := word_of_nat v, nInternalPointer := ip, ht_iters := its\<rparr>) \<and>
    v = length (elems (arData ht) 0 (unat (nNumUsed ht))) \<and> chains (slot_of ht) d hs v \<and>
    elems d 0 v = elems (arData ht) 0 (unat (nNumUsed ht)) \<and>
    length d = length (arData ht) \<and> length hs = 2 ^ Suc k"
    using assms by (intro rehash_ok) (simp_all add: contents_ok_def ht_elems_def)
  then obtain d hs v ip its where r: "zend_hash_rehash ht = Some (ht\<lparr>arData := d, arHash := hs,
      nNumUsed := word_of_nat v, nInternalPointer := ip, ht_iters := its\<rparr>)"
    "v = length (ht_elems ht)" "chains (slot_of ht) d hs v" "elems d 0 v = ht_elems ht"
    "length d = 2 ^ k" "length hs = 2 ^ Suc k"
    using c by (auto simp: contents_ok_def ht_elems_def)
  let ?ht = "ht\<lparr>arData := d, arHash := hs, nNumUsed := word_of_nat v, nInternalPointer := ip, ht_iters := its\<rparr>"
  have v: "unat (word_of_nat v :: u32) = v" using b(1-3) r(2) by (intro unat_of_nat32) simp
  have e: "ht_elems ?ht = ht_elems ht" using r(4) v by (simp add: ht_elems_def)
  have "\<forall>j\<in>{0..<0 + v}. held d j \<noteq> None" using length_elems_eq_iff [of d 0 v] r(2,4) by simp
  then have "bucket_in d i \<noteq> None" if "i < v" for i
    using that by (auto simp: held_def split: option.splits)
  then have "hash_ok k ?ht"
    using assms r(2,3,5,6) v e b(1,3) by (simp add: hash_ok_def contents_ok_def)
  then show ?thesis using r(1,2) e v by auto
qed

text \<open>A new allocation of \<open>2 ^ k'\<close> buckets and the chains built anew: how a table grows, and how
  a packed one becomes a hash table.\<close>

lemma copy_contents_ok:
  assumes c: "contents_ok k ht" and k': "k \<le> k'" "k' \<le> 30"
  shows "\<exists>ht'. copy_buckets (ht\<lparr>nTableSize := 2 ^ k'\<rparr>) (2 ^ k') = Some ht' \<and> contents_ok k' ht' \<and>
    ht_elems ht' = ht_elems ht \<and> nNumUsed ht' = nNumUsed ht \<and>
    ht' = ht\<lparr>nTableSize := 2 ^ k', arData := arData ht'\<rparr> \<and>
    (\<forall>i<unat (nNumUsed ht). bucket_in (arData ht') i = bucket_in (arData ht) i)"
proof -
  let ?n = "unat (nNumUsed ht)"
  let ?d = "take ?n (arData ht) @ replicate (2 ^ k' - ?n) None"
  have kk: "(2 :: nat) ^ k \<le> 2 ^ k'" using k'(1) by (rule power_increasing) simp
  have u: "unat (2 ^ k' :: u32) = 2 ^ k'" using k'(2) unat_exp32 [of k'] by simp
  have len: "length (arData ht) = 2 ^ k" and n: "?n \<le> 2 ^ k" using c by (simp_all add: contents_ok_def)
  have n': "?n \<le> 2 ^ k'" using n kk by (rule order_trans)
  have bin: "bucket_in ?d i = bucket_in (arData ht) i" if "i < ?n" for i
    using that n len by (simp add: bucket_in_append bucket_in_take)
  have el: "elems ?d 0 ?n = ht_elems ht"
    unfolding ht_elems_def by (intro elems_cong) (simp add: held_def bin)
  have "contents_ok k' (ht\<lparr>nTableSize := 2 ^ k', arData := ?d\<rparr>)"
    using c k' n n' len el bin by (simp add: contents_ok_def ht_elems_def)
  then show ?thesis
    using n n' len u el bin by (simp add: copy_buckets_def Let_def ht_elems_def)
qed

lemma copy_buckets_frame:
  "copy_buckets (ht\<lparr>f_packed := p, nTableMask := m\<rparr>) n =
     map_option (\<lambda>ht. ht\<lparr>f_packed := p, nTableMask := m\<rparr>) (copy_buckets ht n)"
  by (simp add: copy_buckets_def Let_def)

lemma rebuild_ok:
  assumes c: "contents_ok k ht" and k': "k \<le> k'" "k' \<le> 30"
  defines "ht1 \<equiv> ht\<lparr>nTableSize := 2 ^ k', f_packed := False, nTableMask := - (2 ^ Suc k')\<rparr>"
  shows "\<exists>ht2 ht3. copy_buckets ht1 (2 ^ k') = Some ht2 \<and> zend_hash_rehash ht2 = Some ht3 \<and> hash_ok k' ht3 \<and>
    ht_elems ht3 = ht_elems ht \<and> unat (nNumUsed ht3) = length (ht_elems ht)"
proof -
  obtain ht' where ht': "copy_buckets (ht\<lparr>nTableSize := 2 ^ k'\<rparr>) (2 ^ k') = Some ht'" "contents_ok k' ht'"
    "ht_elems ht' = ht_elems ht"
    using copy_contents_ok [OF c k'] by blast
  let ?ht2 = "ht'\<lparr>f_packed := False, nTableMask := - (2 ^ Suc k')\<rparr>"
  have "copy_buckets ht1 (2 ^ k') = Some ?ht2"
    using ht'(1) copy_buckets_frame [where ht = "ht\<lparr>nTableSize := 2 ^ k'\<rparr>" and m = "- (2 ^ Suc k')" and p = False and n = "2 ^ k'"]
    by (simp add: ht1_def)
  moreover have "contents_ok k' ?ht2" "ht_elems ?ht2 = ht_elems ht"
    using ht'(2,3) by (simp_all add: contents_ok_def ht_elems_def)
  ultimately show ?thesis using rehash_hash_ok [of k' ?ht2] by auto
qed

lemma resize_ok:
  assumes ok: "hash_ok k ht" and "k < 30"
  shows "\<exists>ht' k'. ZEND_HASH_IF_FULL_DO_RESIZE ht = Some ht' \<and> hash_ok k' ht' \<and>
    unat (nNumUsed ht') < 2 ^ k' \<and> ht_elems ht' = ht_elems ht"
proof (cases "nNumUsed ht \<ge> nTableSize ht")
  case False
  have c: "contents_ok k ht" using ok by (simp add: hash_ok_def)
  then show ?thesis using False ok contents_bounds(5) [OF c]
    by (intro exI [of _ ht] exI [of _ k]) (simp add: ZEND_HASH_IF_FULL_DO_RESIZE_def word_le_nat_alt)
next
  case True
  have c: "contents_ok k ht" and m: "nTableMask ht = - (2 ^ Suc k)" and packed: "\<not> f_packed ht"
    using ok by (simp_all add: hash_ok_def)
  note b = contents_bounds [OF c]
  have size: "nTableSize ht = 2 ^ k" using c by (simp add: contents_ok_def)
  show ?thesis
  proof (cases "nNumOfElements ht + drop_bit 5 (nNumOfElements ht) < nNumUsed ht")
    case holes: True
    have "length (ht_elems ht) + length (ht_elems ht) div 32 < 2 ^ 32" using b(1-3) by simp
    then have "unat (nNumOfElements ht + drop_bit 5 (nNumOfElements ht)) =
        length (ht_elems ht) + length (ht_elems ht) div 32"
      by (subst unat_word_ariths) (simp add: b(4) unat_drop_bit_eq drop_bit_eq_div unat_div)
    then have "length (ht_elems ht) < unat (nNumUsed ht)" using holes by (simp add: word_less_nat_alt)
    then have "length (ht_elems ht) < 2 ^ k" using b(1) by simp
    then show ?thesis
      using True holes rehash_hash_ok [OF c packed m]
      by (auto simp: ZEND_HASH_IF_FULL_DO_RESIZE_def zend_hash_do_resize_def)
  next
    case False
    have "(2 :: u32) ^ k < HT_MAX_SIZE"
      using b(2,5) size by (simp add: word_less_nat_alt)
    moreover have "length (ht_elems ht) < 2 ^ Suc k" by (rule le_less_trans [OF order_trans [OF b(3,1)]]) simp
    moreover obtain ht2 ht3 where "copy_buckets (ht\<lparr>nTableSize := 2 ^ Suc k, f_packed := False,
        nTableMask := - (2 ^ Suc (Suc k))\<rparr>) (2 ^ Suc k) = Some ht2" "zend_hash_rehash ht2 = Some ht3" "hash_ok (Suc k) ht3"
      "ht_elems ht3 = ht_elems ht" "unat (nNumUsed ht3) = length (ht_elems ht)"
      using rebuild_ok [OF c, of "Suc k"] assms(2) by auto
    moreover have "ht\<lparr>nTableSize := 2 ^ Suc k, f_packed := False, nTableMask := - (2 ^ Suc (Suc k))\<rparr> =
        ht\<lparr>nTableSize := 2 ^ k + 2 ^ k, nTableMask := HT_SIZE_TO_MASK (2 ^ k + 2 ^ k)\<rparr>"
      using packed by (simp add: HT_SIZE_TO_MASK_def)
    ultimately show ?thesis
      using True False size unfolding ZEND_HASH_IF_FULL_DO_RESIZE_def zend_hash_do_resize_def Let_def
      by (intro exI [of _ ht3] exI [of _ "Suc k"]) simp
  qed
qed

lemma packed_to_hash_ok:
  assumes c: "contents_ok k ht" and k': "k \<le> k'" "k' \<le> 30"
  shows "\<exists>ht'. zend_hash_packed_to_hash (ht\<lparr>nTableSize := 2 ^ k'\<rparr>) = Some ht' \<and> hash_ok k' ht' \<and>
    ht_elems ht' = ht_elems ht \<and> unat (nNumUsed ht') = length (ht_elems ht)"
proof -
  obtain ht2 ht3 where "copy_buckets (ht\<lparr>nTableSize := 2 ^ k', f_packed := False, nTableMask := - (2 ^ Suc k')\<rparr>)
      (2 ^ k') = Some ht2" "zend_hash_rehash ht2 = Some ht3" "hash_ok k' ht3"
    "ht_elems ht3 = ht_elems ht" "unat (nNumUsed ht3) = length (ht_elems ht)"
    using rebuild_ok [OF assms] by blast
  then show ?thesis
    by (intro exI [of _ ht3]) (simp add: zend_hash_packed_to_hash_def Let_def)
qed

subsection \<open>Storing and appending\<close>

lemma entry_key_val: "entry_key (v, h, s) = entry_key (w, h, s)"
  by (cases s) simp_all

lemma entry_ok_val: "entry_ok (v, h, s) = entry_ok (w, h, s)"
  by (simp add: entry_key_val [of v h s w])

text \<open>A new value in a used bucket.\<close>

lemma store_contents:
  assumes c: "contents_ok k ht" and i: "i < unat (nNumUsed ht)" "held (arData ht) i = Some (w, h, s)"
    "bucket_in (arData ht) i = Some b" and v: "v \<noteq> IS_UNDEF"
  defines "ht' \<equiv> ht\<lparr>arData := (arData ht)[i := Some (b\<lparr>b_val := v\<rparr>)]\<rparr>"
  shows "contents_ok k ht'" "ht_elems ht' = elems (arData ht) 0 i @ (v, h, s) #
      elems (arData ht) (Suc i) (unat (nNumUsed ht) - Suc i)"
    "held (arData ht') j = (if j = i then Some (v, h, s) else held (arData ht) j)"
    "map_option b_next (bucket_in (arData ht') j) = map_option b_next (bucket_in (arData ht) j)"
proof -
  have len: "i < length (arData ht)" using i(3) by (rule bucket_in_length)
  have b: "b_h b = h" "b_key b = s" using i(2,3) by (auto simp: held_of_bucket split: if_splits)
  show held: "held (arData ht') j = (if j = i then Some (v, h, s) else held (arData ht) j)" for j
    using len b v by (simp add: ht'_def held_update)
  have "elems (arData ht') 0 i = elems (arData ht) 0 i"
    "elems (arData ht') (Suc i) m = elems (arData ht) (Suc i) m" for m
    by (intro elems_cong; simp add: held)+
  then show el: "ht_elems ht' = elems (arData ht) 0 i @ (v, h, s) #
      elems (arData ht) (Suc i) (unat (nNumUsed ht) - Suc i)"
    using elems_at [of i ht'] held i(1) by (simp add: ht'_def)
  show "map_option b_next (bucket_in (arData ht') j) = map_option b_next (bucket_in (arData ht) j)"
    using len i(3) by (auto simp: ht'_def)
  show "contents_ok k ht'"
    using c elems_at [OF i(1,2)] el len entry_key_val [of v h s w] entry_ok_val [of v h s w]
    unfolding contents_ok_def by (simp add: ht'_def del: entry_ok.simps)
qed

lemma AList_update_middle:
  "q \<notin> fst ` set xs \<Longrightarrow> AList.update q v (xs @ (q, w) # ys) = xs @ (q, v) # ys"
  by (induction xs) auto

lemma AList_update_new: "q \<notin> fst ` set xs \<Longrightarrow> AList.update q v xs = xs @ [(q, v)]"
  by (induction xs) auto

lemma AList_delete_middle:
  "q \<notin> fst ` set (xs @ ys) \<Longrightarrow> AList.delete q (xs @ (q, w) # ys) = xs @ ys"
  by (induction xs) (auto simp: delete_idem)

lemma ht_okE:
  assumes "ht_ok ht"
  obtains k where "hash_ok k ht" "contents_ok k ht" | k where "packed_ok k ht" "contents_ok k ht"
    | k where "fresh_ok k ht" "ht_elems ht = []"
  using assms by (auto simp: ht_ok_def hash_ok_def packed_ok_def fresh_ok_def ht_elems_def)

lemma index_of_held:
  assumes "ht_ok ht" "index_of ht q = Some i"
  obtains k w h s b where "contents_ok k ht" "i < unat (nNumUsed ht)" "held (arData ht) i = Some (w, h, s)"
    "bucket_in (arData ht) i = Some b" "entry_key (w, h, s) = q" "hash_ok k ht \<or> packed_ok k ht"
proof (rule ht_okE [OF assms(1)])
  fix k assume "fresh_ok k ht" "ht_elems ht = []"
  then show thesis using assms(2) by (simp add: index_of_def fresh_ok_def)
next
  fix k assume k: "hash_ok k ht" "contents_ok k ht"
  then have "i < unat (nNumUsed ht)" "key_at (arData ht) i = Some q"
    using index_of_Some [of ht q i] assms(2) by (auto simp: contents_ok_def)
  then show thesis using that k held_bucket [of "arData ht" i] by (fastforce simp: key_at_def)
next
  fix k assume k: "packed_ok k ht" "contents_ok k ht"
  then have "i < unat (nNumUsed ht)" "key_at (arData ht) i = Some q"
    using index_of_Some [of ht q i] assms(2) by (auto simp: contents_ok_def)
  then show thesis using that k held_bucket [of "arData ht" i] by (fastforce simp: key_at_def)
qed

lemma store_ok:
  assumes ok: "ht_ok ht" and i: "index_of ht q = Some i" and v: "v \<noteq> IS_UNDEF"
  shows "\<exists>ht'. store_in_bucket ht (word_of_nat i) v = Some (Some (In_Bucket (word_of_nat i)), ht') \<and> ht_ok ht' \<and>
    ht_list ht' = AList.update q v (ht_list ht)"
proof -
  obtain k w h s b where c: "contents_ok k ht" "i < unat (nNumUsed ht)" "held (arData ht) i = Some (w, h, s)"
    "bucket_in (arData ht) i = Some b" and q: "entry_key (w, h, s) = q" and m: "hash_ok k ht \<or> packed_ok k ht"
    using ok i by (rule index_of_held)
  let ?ht = "ht\<lparr>arData := (arData ht)[i := Some (b\<lparr>b_val := v\<rparr>)]\<rparr>"
  note st = store_contents [OF c v]
  have w: "unat (word_of_nat i :: u32) = i"
    using c(2) unat_u32_less [of "nNumUsed ht"] by (intro unat_of_nat32) simp
  have len: "i < length (arData ht)" using c(4) by (rule bucket_in_length)
  have "hash_ok k ?ht" if "hash_ok k ht"
  proof -
    have "slot_ids (slot_of ht) (arData ?ht) n t = slot_ids (slot_of ht) (arData ht) n t" for n t
      using st(3) c(3) by (intro slot_ids_cong) auto
    then have "chains (slot_of ht) (arData ?ht) (arHash ht) n = chains (slot_of ht) (arData ht) (arHash ht) n" for n
      unfolding chains_def by (simp only: linked_cong [OF st(4)])
    then show ?thesis using hash_okD [OF that] st(1) by (intro hash_okI) simp_all
  qed
  moreover have "packed_ok k ?ht" if "packed_ok k ht"
    using that st(1) st(3) c(2,3) unfolding packed_ok_def by (auto split: if_splits)
  ultimately have "ht_ok ?ht" using m by (auto simp: ht_ok_def)
  moreover have "ht_list ?ht = AList.update q v (ht_list ht)"
  proof -
    have "q \<notin> fst ` set (map (\<lambda>e. (entry_key e, fst e)) (elems (arData ht) 0 i))"
      using c(1) elems_at [OF c(2,3)] q by (auto simp: contents_ok_def)
    from AList_update_middle [OF this, of v w "map (\<lambda>e. (entry_key e, fst e))
        (elems (arData ht) (Suc i) (unat (nNumUsed ht) - Suc i))"]
    show ?thesis
      using elems_at [OF c(2,3)] st(2) q entry_key_val [of v h s w] unfolding ht_list_def by simp
  qed
  ultimately show ?thesis
    using c(4) w len by (simp add: store_in_bucket_def put_bucket_log) (simp add: put_bucket_def)
qed

text \<open>A new element behind the others.\<close>

lemma append_ok:
  assumes ok: "hash_ok k ht" and room: "unat (nNumUsed ht) < 2 ^ k"
    and b: "b_val b \<noteq> IS_UNDEF" "entry_ok (b_val b, b_h b, b_key b)"
    and new: "index_of ht (entry_key (b_val b, b_h b, b_key b)) = None"
  defines "ht1 \<equiv> ht\<lparr>nNumUsed := nNumUsed ht + 1, nNumOfElements := nNumOfElements ht + 1\<rparr>"
  shows "\<exists>d hs. link_bucket (ht\<lparr>nNumUsed := nNumUsed ht + 1\<rparr>) (unat (nNumUsed ht)) b =
      Some (ht\<lparr>nNumUsed := nNumUsed ht + 1, arData := d, arHash := hs\<rparr>) \<and>
    link_bucket ht1 (unat (nNumUsed ht)) b = Some (ht1\<lparr>arData := d, arHash := hs\<rparr>) \<and>
    hash_ok k (ht1\<lparr>arData := d, arHash := hs\<rparr>) \<and>
    ht_elems (ht1\<lparr>arData := d, arHash := hs\<rparr>) = ht_elems ht @ [(b_val b, b_h b, b_key b)]"
proof -
  let ?n = "unat (nNumUsed ht)" and ?s = "slot_of ht (b_h b)"
  let ?d = "(arData ht)[?n := Some (b\<lparr>b_next := arHash ht ! ?s\<rparr>)]" and ?hs = "(arHash ht)[?s := nNumUsed ht]"
  let ?ht = "ht1\<lparr>arData := ?d, arHash := ?hs\<rparr>"
  note h = hash_okD [OF ok] and bd = contents_bounds [OF hash_okD(1) [OF ok]]
  have len: "?n < length (arData ht)" using h(1) room by (simp add: contents_ok_def)
  have cells: "cells_ok ht" by (rule hash_cells [OF ok])
  have lt32: "?n < 2 ^ 32 - 1" using room bd(2) by simp
  have used: "unat (nNumUsed ht + 1) = Suc ?n" using lt32 by (subst unat_word_ariths) simp
  have el: "ht_elems ?ht = ht_elems ht @ [(b_val b, b_h b, b_key b)]"
  proof -
    have "elems ?d 0 ?n = elems (arData ht) 0 ?n" using len by (intro elems_cong) (simp add: held_update)
    then show ?thesis using len b(1) by (simp add: ht_elems_def used ht1_def elems_snoc held_update)
  qed
  have "chains (slot_of ht) ?d ?hs (Suc ?n)"
    using chains_link [OF h(5) len lt32 b(1)] cells by (simp add: cells_ok_def)
  moreover have "entry_key (b_val b, b_h b, b_key b) \<notin> entry_key ` set (ht_elems ht)"
    using new index_of_None [of ht] by (force simp: ht_list_def image_iff)
  moreover have "bucket_in ?d i \<noteq> None" if "i < Suc ?n" for i
    using that h(1) len by (auto simp: contents_ok_def less_Suc_eq)
  ultimately have "contents_ok k ?ht" "chains (slot_of ?ht) (arData ?ht) (arHash ?ht) (unat (nNumUsed ?ht))"
    using h(1) el b(2) room used by (simp_all add: contents_ok_def ht1_def del: entry_ok.simps)
  then have "hash_ok k ?ht" using h(2-4) by (intro hash_okI) (simp_all add: ht1_def)
  moreover have "cells_ok (ht\<lparr>nNumUsed := x, nNumOfElements := y\<rparr>)" "cells_ok (ht\<lparr>nNumUsed := x\<rparr>)" for x y
    using cells by (simp_all add: cells_ok_def)
  ultimately show ?thesis
    using el len link_bucket_eq [of ht1 ?n b] link_bucket_eq [of "ht\<lparr>nNumUsed := nNumUsed ht + 1\<rparr>" ?n b]
    by (intro exI [of _ ?d] exI [of _ ?hs]) (simp add: ht1_def)
qed

lemma add_to_hash_ok:
  assumes "hash_ok k ht" "unat (nNumUsed ht) < 2 ^ k" "v \<noteq> IS_UNDEF" "zs_h key = zend_hash_func (zs_val key)"
    "index_of ht (Str (zs_val key)) = None"
  shows "\<exists>ht'. add_to_hash ht key v = Some (Some (In_Bucket (nNumUsed ht)), ht') \<and> hash_ok k ht' \<and>
    ht_list ht' = AList.update (Str (zs_val key)) v (ht_list ht)"
proof -
  let ?b = "\<lparr>b_val = v, b_next = 0, b_h = zs_h key, b_key = Some key\<rparr>"
  obtain d hs where "link_bucket (ht\<lparr>nNumUsed := nNumUsed ht + 1, nNumOfElements := nNumOfElements ht + 1\<rparr>)
      (unat (nNumUsed ht)) ?b =
      Some (ht\<lparr>nNumUsed := nNumUsed ht + 1, nNumOfElements := nNumOfElements ht + 1, arData := d, arHash := hs\<rparr>)"
    "hash_ok k (ht\<lparr>nNumUsed := nNumUsed ht + 1, nNumOfElements := nNumOfElements ht + 1, arData := d, arHash := hs\<rparr>)"
    "ht_elems (ht\<lparr>nNumUsed := nNumUsed ht + 1, nNumOfElements := nNumOfElements ht + 1, arData := d, arHash := hs\<rparr>) =
      ht_elems ht @ [(v, zs_h key, Some key)]"
    using append_ok [OF assms(1,2), of ?b] assms(3-5) by auto
  then show ?thesis
    using AList_update_new [of "Str (zs_val key)" "ht_list ht" v] index_of_None [of ht "Str (zs_val key)"] assms(5)
    by (simp add: add_to_hash_def Let_def ht_list_def)
qed

lemma index_append_ok:
  assumes "hash_ok k ht" "unat (nNumUsed ht) < 2 ^ k" "v \<noteq> IS_UNDEF" "index_of ht (Idx h) = None"
  shows "\<exists>ht'. index_append ht h v = Some (Some (In_Bucket (nNumUsed ht)), ht') \<and> hash_ok k ht' \<and>
    ht_list ht' = AList.update (Idx h) v (ht_list ht)"
proof -
  let ?b = "\<lparr>b_val = v, b_next = 0, b_h = h, b_key = None\<rparr>"
  obtain d hs where r: "link_bucket (ht\<lparr>nNumUsed := nNumUsed ht + 1\<rparr>) (unat (nNumUsed ht)) ?b =
      Some (ht\<lparr>nNumUsed := nNumUsed ht + 1, arData := d, arHash := hs\<rparr>)"
    "hash_ok k (ht\<lparr>nNumUsed := nNumUsed ht + 1, nNumOfElements := nNumOfElements ht + 1, arData := d, arHash := hs\<rparr>)"
    "ht_elems (ht\<lparr>nNumUsed := nNumUsed ht + 1, nNumOfElements := nNumOfElements ht + 1, arData := d, arHash := hs\<rparr>) =
      ht_elems ht @ [(v, h, None)]"
    using append_ok [OF assms(1,2), of ?b] assms(3-4) by auto
  define x where "x = (if nNextFreeElement ht \<le>s h
    then if h < 0x7FFFFFFFFFFFFFFF then h + 1 else 0x7FFFFFFFFFFFFFFF else nNextFreeElement ht)"
  have "index_append ht h v = Some (Some (In_Bucket (nNumUsed ht)),
      (ht\<lparr>nNumUsed := nNumUsed ht + 1, nNumOfElements := nNumOfElements ht + 1, arData := d, arHash := hs\<rparr>)
        \<lparr>nNextFreeElement := x\<rparr>)"
    using r(1) by (simp add: index_append_def Let_def x_def)
  then show ?thesis
    using r(2,3) AList_update_new [of "Idx h" "ht_list ht" v] index_of_None [of ht "Idx h"] assms(4)
    by (simp add: ht_list_def)
qed

subsection \<open>Updates by string\<close>

text \<open>A table of less than \<open>2 ^ 30\<close> buckets can grow.\<close>

definition ht_small :: "'v hashtable \<Rightarrow> bool" where
  "ht_small ht \<longleftrightarrow> nTableSize ht < 0x40000000"

lemma small_exp:
  assumes "nTableSize ht = 2 ^ k" "k \<le> 30" "ht_small ht"
  shows "k < 30"
proof (rule ccontr)
  assume "\<not> k < 30"
  then have "k = 30" using assms(2) by simp
  then show False using assms(1,3) by (simp add: ht_small_def)
qed

lemma hash_small: "hash_ok k ht \<Longrightarrow> ht_small ht \<Longrightarrow> k < 30"
  using small_exp [of ht k] by (simp add: hash_ok_def contents_ok_def)

lemma hash_is_ok [intro]: "hash_ok k ht \<Longrightarrow> ht_ok ht"
  by (auto simp: ht_ok_def)

lemma index_of_elems: "ht_elems ht' = ht_elems ht \<Longrightarrow> (index_of ht' q = None) = (index_of ht q = None)"
  by (simp add: index_of_None ht_list_def)

lemma resize_and_add_ok:
  assumes "hash_ok k ht" "k < 30" "v \<noteq> IS_UNDEF" "zs_h key = zend_hash_func (zs_val key)"
    "index_of ht (Str (zs_val key)) = None"
  shows "\<exists>p ht'. resize_and_add ht key v = Some (Some p, ht') \<and> ht_ok ht' \<and>
    ht_list ht' = AList.update (Str (zs_val key)) v (ht_list ht)"
proof -
  obtain ht1 k1 where r: "ZEND_HASH_IF_FULL_DO_RESIZE ht = Some ht1" "hash_ok k1 ht1" "unat (nNumUsed ht1) < 2 ^ k1"
    "ht_elems ht1 = ht_elems ht"
    using resize_ok [OF assms(1,2)] by blast
  have "\<not> ht_bailout ht1" using r(2) by (simp add: hash_ok_def contents_ok_def)
  then show ?thesis
    using add_to_hash_ok [OF r(2,3) assms(3,4)] r(1,4) assms(5) index_of_elems [OF r(4)]
    by (auto simp: resize_and_add_def ht_list_def)
qed

lemma init_mixed_ok:
  assumes "fresh_ok k ht"
  shows "hash_ok k (zend_hash_real_init_mixed_ex ht)" "ht_elems (zend_hash_real_init_mixed_ex ht) = []"
    "unat (nNumUsed (zend_hash_real_init_mixed_ex ht)) < 2 ^ k"
proof -
  let ?ht = "zend_hash_real_init_mixed_ex ht"
  have k: "k \<le> 30" "3 \<le> k" and size: "nTableSize ht = 2 ^ k" using assms by (simp_all add: fresh_ok_def)
  have len: "unat (2 ^ k :: u32) = 2 ^ k" "unat (2 ^ Suc k :: u32) = 2 ^ Suc k"
    using k unat_exp32 [of k] unat_exp32 [of "Suc k"] by simp_all
  have k3: "(2 :: u32) ^ k = 8 \<Longrightarrow> k = 3"
  proof -
    assume "(2 :: u32) ^ k = 8"
    then have "(2 :: nat) ^ k = 2 ^ 3" using len(1) by simp
    then show "k = 3" by (metis power_inject_exp one_less_numeral_iff semiring_norm(76))
  qed
  then have hs: "arHash ?ht = replicate (2 ^ Suc k) HT_INVALID_IDX"
    using size len(2) by (auto simp: zend_hash_real_init_mixed_ex_def HT_HASH_RESET_def Let_def numeral_eq_Suc)
  have f: "nTableSize ?ht = 2 ^ k" "length (arData ?ht) = 2 ^ k" "nNumUsed ?ht = 0" "nNumOfElements ?ht = 0"
    "\<not> f_uninitialized ?ht" "\<not> f_packed ?ht" "\<not> ht_bailout ?ht" "nTableMask ?ht = - (2 ^ Suc k)"
    using assms len(1) size k3
    by (auto simp: zend_hash_real_init_mixed_ex_def HT_HASH_RESET_def Let_def fresh_ok_def HT_SIZE_TO_MASK_def)
  then show e: "ht_elems ?ht = []" by (simp add: ht_elems_def)
  show "unat (nNumUsed ?ht) < 2 ^ k" using f by simp
  show "hash_ok k ?ht"
    using f e k hs chains_reset by (intro hash_okI) (simp_all add: contents_ok_def)
qed

text \<open>A string that is not in the table: the three kinds of table.\<close>

lemma add_new_string_ok:
  assumes ok: "ht_ok ht" "ht_small ht" and v: "v \<noteq> IS_UNDEF" and h: "zs_h key = zend_hash_func (zs_val key)"
    and new: "index_of ht (Str (zs_val key)) = None"
  shows "\<exists>p ht'. (if f_uninitialized ht then add_to_hash (dynamic_key key0 (zend_hash_real_init_mixed_ex ht)) key v
      else if f_packed ht then do { ht \<leftarrow> zend_hash_packed_to_hash ht; resize_and_add (dynamic_key key0 ht) key v }
      else resize_and_add (dynamic_key key0 ht) key v) = Some (Some p, ht') \<and> ht_ok ht' \<and>
    ht_list ht' = AList.update (Str (zs_val key)) v (ht_list ht)"
  using ok(1)
proof (rule ht_okE)
  fix k assume k: "fresh_ok k ht" "ht_elems ht = []"
  note i = init_mixed_ok [OF k(1)]
  let ?ht = "dynamic_key key0 (zend_hash_real_init_mixed_ex ht)"
  have "nNumUsed ?ht = nNumUsed (zend_hash_real_init_mixed_ex ht)" by (simp add: dynamic_key_def)
  then have room: "unat (nNumUsed ?ht) < 2 ^ k" using i(3) by simp
  have ok1: "hash_ok k ?ht" and e: "ht_elems ?ht = ht_elems ht" using i(1,2) k(2) by simp_all
  have "index_of ?ht (Str (zs_val key)) = None" using new index_of_elems [OF e] by blast
  from add_to_hash_ok [OF ok1 room v h this] show ?thesis
    using k(1) e by (auto simp: fresh_ok_def ht_list_def)
next
  fix k assume k: "packed_ok k ht" "contents_ok k ht"
  have size: "nTableSize ht = 2 ^ k" "k \<le> 30" using k(2) by (simp_all add: contents_ok_def)
  then have small: "k < 30" and same: "ht\<lparr>nTableSize := 2 ^ k\<rparr> = ht" using small_exp ok(2) by auto
  obtain ht1 where ht1: "zend_hash_packed_to_hash ht = Some ht1" "hash_ok k ht1" "ht_elems ht1 = ht_elems ht"
    using packed_to_hash_ok [OF k(2) order_refl size(2)] unfolding same by blast
  have ok1: "hash_ok k (dynamic_key key0 ht1)" and e: "ht_elems (dynamic_key key0 ht1) = ht_elems ht"
    using ht1 by simp_all
  have "index_of (dynamic_key key0 ht1) (Str (zs_val key)) = None" using new index_of_elems [OF e] by blast
  from resize_and_add_ok [OF ok1 small v h this] show ?thesis
    using k ht1(1) e by (auto simp: packed_ok_def contents_ok_def ht_list_def)
next
  fix k assume k: "hash_ok k ht" "contents_ok k ht"
  have ok1: "hash_ok k (dynamic_key key0 ht)" and e: "ht_elems (dynamic_key key0 ht) = ht_elems ht" using k by simp_all
  have "index_of (dynamic_key key0 ht) (Str (zs_val key)) = None" using new index_of_elems [OF e] by blast
  from resize_and_add_ok [OF ok1 hash_small [OF k(1) ok(2)] v h this] show ?thesis
    using k e by (auto simp: hash_ok_def contents_ok_def ht_list_def)
qed

end
