(* ===== verification/Zend_Hash_Map.thy ===== *)
theory Zend_Hash_Map
  imports Zend_Hash_Correct
begin

text \<open>
  The operations of \<open>php-7.4-patched/Zend/zend_hash.c\<close> on the abstraction: what a lookup finds and
  reports, and what updates and deletions by string and by integer do, for packed and for hash
  tables. The table of strings and integers is then an instance of a keyed store.
\<close>

subsection \<open>Updates by string\<close>

lemma flags [simp]:
  "\<not> bits_set HASH_UPDATE HASH_ADD_NEW" "\<not> bits_set HASH_UPDATE HASH_ADD" "\<not> bits_set HASH_UPDATE HASH_UPDATE_INDIRECT"
  "\<not> bits_set HASH_ADD HASH_ADD_NEW" "bits_set HASH_ADD HASH_ADD" "\<not> bits_set HASH_ADD HASH_UPDATE_INDIRECT"
  "\<not> bits_set (18 :: u32) 8" "bits_set (18 :: u32) 2" "bits_set (26 :: u32) 8" "bits_set (26 :: u32) 2"
  by (simp_all add: bits_set_def)

lemma update_found_update:
  assumes "ht_ok ht" "index_of ht q = Some i"
  shows "update_found ht (word_of_nat i) v HASH_UPDATE = store_in_bucket ht (word_of_nat i) v"
    "update_found ht (word_of_nat i) v HASH_ADD = Some (None, ht)"
proof -
  obtain k w h s b where c: "i < unat (nNumUsed ht)" "bucket_in (arData ht) i = Some b"
    using index_of_held [OF assms] by metis
  have w: "unat (word_of_nat i :: u32) = i"
    using c(1) unat_u32_less [of "nNumUsed ht"] by (intro unat_of_nat32) simp
  show "update_found ht (word_of_nat i) v HASH_UPDATE = store_in_bucket ht (word_of_nat i) v"
    "update_found ht (word_of_nat i) v HASH_ADD = Some (None, ht)"
    using c(2) w by (simp_all add: update_found_def split: zval.splits)
qed

text \<open>String keys are only in hash tables.\<close>

lemma str_in_hash:
  assumes "ht_ok ht" "index_of ht (Str s) = Some i"
  shows "\<not> f_uninitialized ht" "\<not> f_packed ht"
proof -
  obtain k w h t b where c: "contents_ok k ht" "i < unat (nNumUsed ht)" "held (arData ht) i = Some (w, h, t)"
    "bucket_in (arData ht) i = Some b" "entry_key (w, h, t) = Str s" "hash_ok k ht \<or> packed_ok k ht"
    using assms by (rule index_of_held)
  show "\<not> f_uninitialized ht" using c(1) by (simp add: contents_ok_def)
  show "\<not> f_packed ht" using c(2,3,5,6) by (auto simp: hash_ok_def packed_ok_def)
qed


lemma str_update_ok:
  assumes ok: "ht_ok ht" "ht_small ht" and v: "v \<noteq> IS_UNDEF"
  shows "\<exists>p ht'. zend_hash_str_update a ht s v = Some (Some p, ht') \<and> ht_ok ht' \<and>
    ht_list ht' = AList.update (Str s) v (ht_list ht)"
proof -
  let ?key = "\<lparr>zs_addr = a, zs_h = zend_hash_func s, zs_val = s, zs_interned = False\<rparr>"
  let ?ht = "log_event [Hook (lookup_report s (index_of ht (Str s)))] ht"
  have ok': "ht_ok ?ht" "ht_small ?ht" using ok by (simp_all add: ht_small_def)
  show ?thesis
  proof (cases "index_of ht (Str s)")
    case None
    have new: "index_of ht (Str (zs_val ?key)) = None" "index_of ?ht (Str (zs_val ?key)) = None"
      using None by simp_all
    note r = add_new_string_ok [OF ok v _ new(1), of ?key] add_new_string_ok [OF ok' v _ new(2), of ?key]
    show ?thesis
      using r None str_find_eq [OF ok(1), of s]
      by (cases "f_uninitialized ht \<or> f_packed ht")
        (auto simp: zend_hash_str_update_def zend_hash_str_add_or_update_i_def Let_def)
  next
    case (Some i)
    have idx: "index_of ?ht (Str s) = Some i" using Some by simp
    show ?thesis
      using update_found_update(1) [OF ok'(1) idx] store_ok [OF ok'(1) idx v] str_in_hash [OF ok(1) Some]
        str_find_eq [OF ok(1), of s] Some
      by (auto simp: zend_hash_str_update_def zend_hash_str_add_or_update_i_def Let_def)
  qed
qed

text \<open>By a string of the engine: the string is looked up with its hash.\<close>

lemma find_bucket_ok:
  assumes "ht_ok ht" "zstr_ok key" "addr_ok ht key"
  obtains calls where "zend_hash_find_bucket ht key False =
    Some (map_option word_of_nat (index_of ht (Str (zs_val key))),
      log_event (map Hook (calls @ [lookup_report (zs_val key) (index_of ht (Str (zs_val key)))])) ht)" "only_cmp calls"
proof -
  let ?key = "key\<lparr>zs_h := zend_hash_func (zs_val key)\<rparr>"
  have "addr_ok ht ?key" using assms(3) by (simp add: addr_ok_def cong: option.case_cong)
  then show thesis using that find_eq [OF assms(1), of ?key] find_unhashed_eq [OF assms(2), of ht] by auto
qed

lemma hashed_key_ok: "zstr_ok key \<Longrightarrow> hashed_key key = key\<lparr>zs_h := zend_hash_func (zs_val key)\<rparr>"
  using zend_string_hash_val_ok [of key] by (auto simp: hashed_key_def zstr_ok_def)

lemma add_or_update_new:
  assumes ok: "ht_ok ht" "ht_small ht" and key: "zstr_ok key" "addr_ok ht key" and v: "v \<noteq> IS_UNDEF"
    and new: "index_of ht (Str (zs_val key)) = None" and flag: "\<not> bits_set flag HASH_ADD_NEW"
  shows "\<exists>p ht'. zend_hash_add_or_update_i ht key v flag = Some (Some p, ht') \<and> ht_ok ht' \<and>
    ht_list ht' = AList.update (Str (zs_val key)) v (ht_list ht)"
proof -
  let ?key = "key\<lparr>zs_h := zend_hash_func (zs_val key)\<rparr>"
  obtain calls where f: "zend_hash_find_bucket ht key False =
    Some (None, log_event (map Hook (calls @ [Redqueen_Call (zs_val key)])) ht)"
    using find_bucket_ok [OF ok(1) key] new by (auto simp: lookup_report_def)
  let ?ht = "log_event (map Hook (calls @ [Redqueen_Call (zs_val key)])) ht"
  have ok': "ht_ok ?ht" "ht_small ?ht" using ok by (simp_all add: ht_small_def)
  have new': "index_of ht (Str (zs_val ?key)) = None" "index_of ?ht (Str (zs_val ?key)) = None" using new by simp_all
  note r = add_new_string_ok [OF ok v _ new'(1), of key] add_new_string_ok [OF ok' v _ new'(2), of key]
  show ?thesis
    using r f flag hashed_key_ok [OF key(1)] zend_string_hash_val_ok [OF key(1)]
    by (cases "f_uninitialized ht \<or> f_packed ht") (auto simp: zend_hash_add_or_update_i_def)
qed

lemma add_or_update_found:
  assumes ok: "ht_ok ht" and key: "zstr_ok key" "addr_ok ht key"
    and old: "index_of ht (Str (zs_val key)) = Some i" and flag: "\<not> bits_set flag HASH_ADD_NEW"
  shows "\<exists>calls. zend_hash_add_or_update_i ht key v flag =
    update_found (log_event (map Hook (calls @ [Access_Call (zs_val key)])) ht) (word_of_nat i) v flag"
proof -
  obtain calls where f: "zend_hash_find_bucket ht key False =
    Some (Some (word_of_nat i), log_event (map Hook (calls @ [Access_Call (zs_val key)])) ht)"
    using find_bucket_ok [OF ok(1) key] old by (auto simp: lookup_report_def)
  then show ?thesis
    using flag str_in_hash [OF ok old] by (auto simp: zend_hash_add_or_update_i_def)
qed

lemma update_ok:
  assumes ok: "ht_ok ht" "ht_small ht" and key: "zstr_ok key" "addr_ok ht key" and v: "v \<noteq> IS_UNDEF"
  shows "\<exists>p ht'. zend_hash_update ht key v = Some (Some p, ht') \<and> ht_ok ht' \<and>
    ht_list ht' = AList.update (Str (zs_val key)) v (ht_list ht)"
proof (cases "index_of ht (Str (zs_val key))")
  case None
  then show ?thesis using add_or_update_new [OF ok key v None] by (simp add: zend_hash_update_def)
next
  case (Some i)
  obtain calls where c: "zend_hash_update ht key v =
      update_found (log_event (map Hook (calls @ [Access_Call (zs_val key)])) ht) (word_of_nat i) v HASH_UPDATE"
    using add_or_update_found [OF ok(1) key Some, of HASH_UPDATE] by (auto simp: zend_hash_update_def)
  let ?ht = "log_event (map Hook (calls @ [Access_Call (zs_val key)])) ht"
  have idx: "ht_ok ?ht" "index_of ?ht (Str (zs_val key)) = Some i" using ok Some by simp_all
  show ?thesis using c update_found_update(1) [OF idx] store_ok [OF idx v] by auto
qed

text \<open>\<open>zend_hash_add\<close> leaves a key alone that is there, and returns \<open>NULL\<close>.\<close>

lemma add_ok:
  assumes ok: "ht_ok ht" "ht_small ht" and key: "zstr_ok key" "addr_ok ht key" and v: "v \<noteq> IS_UNDEF"
  shows "\<exists>r ht'. zend_hash_add ht key v = Some (r, ht') \<and> ht_ok ht' \<and>
    (if Str (zs_val key) \<in> fst ` set (ht_list ht) then r = None \<and> ht_list ht' = ht_list ht
     else r \<noteq> None \<and> ht_list ht' = ht_list ht @ [(Str (zs_val key), v)])"
proof (cases "index_of ht (Str (zs_val key))")
  case None
  then have new: "Str (zs_val key) \<notin> fst ` set (ht_list ht)" by (simp add: index_of_None)
  then show ?thesis
    using add_or_update_new [OF ok key v None, of HASH_ADD] AList_update_new [OF new, of v]
    by (auto simp: zend_hash_add_def)
next
  case (Some i)
  then have old: "Str (zs_val key) \<in> fst ` set (ht_list ht)" using index_of_None [of ht "Str (zs_val key)"] by simp
  obtain calls where c: "zend_hash_add ht key v =
      update_found (log_event (map Hook (calls @ [Access_Call (zs_val key)])) ht) (word_of_nat i) v HASH_ADD"
    using add_or_update_found [OF ok(1) key Some, of HASH_ADD] by (auto simp: zend_hash_add_def)
  let ?ht = "log_event (map Hook (calls @ [Access_Call (zs_val key)])) ht"
  have idx: "ht_ok ?ht" "index_of ?ht (Str (zs_val key)) = Some i" using ok Some by simp_all
  show ?thesis using c update_found_update(2) [OF idx] idx(1) old by simp
qed

subsection \<open>Packed tables\<close>

lemma undef_buckets_ok:
  "i + n \<le> length (arData ht) \<Longrightarrow> \<exists>d. undef_buckets n i ht = Some (ht\<lparr>arData := d\<rparr>) \<and> length d = length (arData ht) \<and>
     (\<forall>j. if i \<le> j \<and> j < i + n then \<exists>b. bucket_in d j = Some b \<and> b_val b = IS_UNDEF
          else bucket_in d j = bucket_in (arData ht) j)"
proof (induction n arbitrary: i ht)
  case 0
  show ?case by (intro exI [of _ "arData ht"]) auto
next
  case (Suc n)
  let ?b = "(bucket_or_raw ht i)\<lparr>b_val := IS_UNDEF\<rparr>"
  let ?ht = "ht\<lparr>arData := (arData ht)[i := Some ?b]\<rparr>"
  have i: "i < length (arData ht)" using Suc.prems by simp
  obtain d where d: "undef_buckets n (Suc i) ?ht = Some (?ht\<lparr>arData := d\<rparr>)" "length d = length (arData ht)"
    "\<And>j. if Suc i \<le> j \<and> j < Suc i + n then \<exists>b. bucket_in d j = Some b \<and> b_val b = IS_UNDEF
          else bucket_in d j = bucket_in (arData ?ht) j"
    using Suc.IH [of "Suc i" ?ht] Suc.prems by auto
  have "if i \<le> j \<and> j < i + Suc n then \<exists>b. bucket_in d j = Some b \<and> b_val b = IS_UNDEF
      else bucket_in d j = bucket_in (arData ht) j" for j
    using d(3) [of j] i by (cases "j = i") auto
  then show ?case using d(1,2) i by (intro exI [of _ d]) (simp add: put_bucket_def)
qed

lemma elems_None: "(\<And>j. i \<le> j \<Longrightarrow> j < i + n \<Longrightarrow> held d j = None) \<Longrightarrow> elems d i n = []"
  by (induction n arbitrary: i) (simp_all add: elems_Suc)

lemma packed_okD:
  assumes "packed_ok k ht"
  shows "contents_ok k ht" "f_packed ht" "i < unat (nNumUsed ht) \<Longrightarrow> held (arData ht) i = Some (v, h, key) \<Longrightarrow>
    h = word_of_nat i \<and> key = None"
  using assms unfolding packed_ok_def by blast+

lemma unat_u32_u64 [simp]: "unat (ucast (w :: u32) :: u64) = unat w"
  using unat_u32_less [of w] by (simp add: unsigned_ucast_eq take_bit_nat_eq_self)

lemma unat64_of_nat: "n < 2 ^ 64 \<Longrightarrow> unat (word_of_nat n :: u64) = n"
  by (simp add: unsigned_of_nat take_bit_nat_eq_self)

text \<open>The place of an integer key in a packed table.\<close>

lemma packed_index_of:
  assumes "packed_ok k ht"
  shows "index_of ht (Idx h) =
    (if unat h < unat (nNumUsed ht) \<and> held (arData ht) (unat h) \<noteq> None then Some (unat h) else None)"
proof -
  have c: "contents_ok k ht" by (rule packed_okD [OF assms])
  have d: "distinct (map entry_key (ht_elems ht))" using c by (simp add: contents_ok_def)
  have key: "key_at (arData ht) i = Some (Idx h) \<longleftrightarrow> held (arData ht) i \<noteq> None \<and> i = unat h"
    if i: "i < unat (nNumUsed ht)" for i
  proof -
    have "i < 2 ^ 64" using i unat_u32_less [of "nNumUsed ht"] by simp
    then have "(word_of_nat i = h) = (i = unat h)" using unat64_of_nat [of i] by auto
    moreover have "entry_key e = Idx (word_of_nat i)" if e: "held (arData ht) i = Some e" for e
      using packed_okD(3) [OF assms i] e by (cases e) auto
    ultimately show ?thesis by (cases "held (arData ht) i") (auto simp: key_at_def)
  qed
  have "index_of ht (Idx h) = Some i \<longleftrightarrow> i < unat (nNumUsed ht) \<and> held (arData ht) i \<noteq> None \<and> i = unat h" for i
    using index_of_Some [OF d] key by blast
  then show ?thesis by (metis (no_types, lifting) option.exhaust)
qed

lemma packed_update_contents:
  fixes x :: u64
  assumes ok: "packed_ok k ht" and h: "unat (nNumUsed ht) \<le> unat h" "unat h < 2 ^ k"
    and d: "length d = 2 ^ k" "\<And>j. j < unat (nNumUsed ht) \<Longrightarrow> bucket_in d j = bucket_in (arData ht) j"
      "\<And>j. unat (nNumUsed ht) \<le> j \<Longrightarrow> j < unat h \<Longrightarrow> \<exists>b. bucket_in d j = Some b \<and> b_val b = IS_UNDEF"
      "bucket_in d (unat h) = Some b" "b_val b = v" "b_h b = h" "b_key b = None" and v: "v \<noteq> IS_UNDEF"
  defines "ht' \<equiv> ht\<lparr>nNumUsed := ucast (h + 1), nNextFreeElement := x, nNumOfElements := nNumOfElements ht + 1, arData := d\<rparr>"
  shows "packed_ok k ht'" "ht_list ht' = AList.update (Idx h) v (ht_list ht)"
proof -
  let ?n = "unat (nNumUsed ht)"
  note c = packed_okD [OF ok] and bd = contents_bounds [OF packed_okD(1) [OF ok]]
  have lt: "Suc (unat h) < 2 ^ 32" using h(2) bd(2) by simp
  have used: "unat (nNumUsed ht') = Suc (unat h)"
  proof -
    have "unat (h + 1) = Suc (unat h)" using lt by (subst unat_word_ariths) simp
    then show ?thesis using lt by (simp add: ht'_def unsigned_ucast_eq take_bit_nat_eq_self)
  qed
  have held: "held d j = (if j = unat h then Some (v, h, None) else if j < ?n then held (arData ht) j else None)"
    if "j < Suc (unat h)" for j
    using that d(2) [of j] d(3) [of j] d(4-7) v by (auto simp: held_def)
  have "elems d 0 (Suc (unat h)) = elems d 0 ?n @ elems d ?n (unat h - ?n) @ [(v, h, None)]"
    using elems_append [of d 0 ?n "unat h - ?n"] held [of "unat h"] h(1) by (simp add: elems_snoc)
  moreover have "elems d ?n (unat h - ?n) = []" using held h(1) by (intro elems_None) auto
  moreover have "elems d 0 ?n = ht_elems ht"
    unfolding ht_elems_def using held h(1) by (intro elems_cong) auto
  ultimately have el: "ht_elems ht' = ht_elems ht @ [(v, h, None)]"
    unfolding ht_elems_def [of ht'] used by (simp add: ht'_def)
  have new: "Idx h \<notin> fst ` set (ht_list ht)"
    using packed_index_of [OF ok, of h] h(1) index_of_None [of ht "Idx h"] by simp
  then show "ht_list ht' = AList.update (Idx h) v (ht_list ht)"
    using AList_update_new [OF new] el by (simp add: ht_list_def)
  have init: "\<forall>j<Suc (unat h). bucket_in d j \<noteq> None"
  proof (intro allI impI)
    fix j assume j: "j < Suc (unat h)"
    consider "j < ?n" | "?n \<le> j" "j < unat h" | "j = unat h" using j by linarith
    then show "bucket_in d j \<noteq> None" using d(2,4) d(3) [of j] c(1) by cases (auto simp: contents_ok_def)
  qed
  have "Idx h \<notin> entry_key ` set (ht_elems ht)" using new by (force simp: ht_list_def image_iff)
  then have "contents_ok k ht'"
    using c(1) el used h(2) d(1) init by (simp add: contents_ok_def) (simp add: ht'_def)
  moreover have "held d i = Some (w, g, s) \<longrightarrow> g = word_of_nat i \<and> s = None" if "i < Suc (unat h)" for i w g s
    using held [OF that] packed_okD(3) [OF ok, of i] by auto
  ultimately show "packed_ok k ht'" using ok used unfolding packed_ok_def by (simp add: ht'_def)
qed

lemma add_to_packed_ok:
  assumes ok: "packed_ok k ht" and h: "unat (nNumUsed ht) \<le> unat h" "unat h < 2 ^ k" and v: "v \<noteq> IS_UNDEF"
    and flag: "flag AND (HASH_ADD_NEW OR HASH_ADD_NEXT) \<noteq> (HASH_ADD_NEW OR HASH_ADD_NEXT) \<or> unat (nNumUsed ht) = unat h"
  shows "\<exists>p ht'. add_to_packed ht h v flag = Some (Some p, ht') \<and> packed_ok k ht' \<and>
    ht_list ht' = AList.update (Idx h) v (ht_list ht)"
proof -
  let ?n = "unat (nNumUsed ht)"
  have len: "length (arData ht) = 2 ^ k" using packed_okD(1) [OF ok] by (simp add: contents_ok_def)
  have less: "(ucast (nNumUsed ht) < h) = (?n < unat h)" by (simp add: word_less_nat_alt)
  have "\<exists>d. (if flag AND (HASH_ADD_NEW OR HASH_ADD_NEXT) \<noteq> (HASH_ADD_NEW OR HASH_ADD_NEXT) \<and> ucast (nNumUsed ht) < h
      then undef_buckets (unat h - ?n) ?n ht else Some ht) = Some (ht\<lparr>arData := d\<rparr>) \<and> length d = 2 ^ k \<and>
    (\<forall>j<?n. bucket_in d j = bucket_in (arData ht) j) \<and>
    (\<forall>j. ?n \<le> j \<and> j < unat h \<longrightarrow> (\<exists>b. bucket_in d j = Some b \<and> b_val b = IS_UNDEF))"
  proof (cases "?n < unat h")
    case True
    have "?n + (unat h - ?n) \<le> length (arData ht)" using h len by simp
    from undef_buckets_ok [OF this] obtain d where d: "undef_buckets (unat h - ?n) ?n ht = Some (ht\<lparr>arData := d\<rparr>)"
      "length d = 2 ^ k" "\<And>j. if ?n \<le> j \<and> j < ?n + (unat h - ?n) then \<exists>b. bucket_in d j = Some b \<and> b_val b = IS_UNDEF
          else bucket_in d j = bucket_in (arData ht) j"
      using len by auto
    have "bucket_in d j = bucket_in (arData ht) j" if "j < ?n" for j using d(3) [of j] that by simp
    moreover have "\<exists>b. bucket_in d j = Some b \<and> b_val b = IS_UNDEF" if "?n \<le> j" "j < unat h" for j
      using d(3) [of j] that by simp
    ultimately show ?thesis using d(1,2) True flag less by auto
  next
    case False
    then show ?thesis using h(1) len less by (intro exI [of _ "arData ht"]) auto
  qed
  then obtain d where d: "(if flag AND (HASH_ADD_NEW OR HASH_ADD_NEXT) \<noteq> (HASH_ADD_NEW OR HASH_ADD_NEXT) \<and>
      ucast (nNumUsed ht) < h then undef_buckets (unat h - ?n) ?n ht else Some ht) = Some (ht\<lparr>arData := d\<rparr>)"
    "length d = 2 ^ k" "\<forall>j<?n. bucket_in d j = bucket_in (arData ht) j"
    "\<forall>j. ?n \<le> j \<and> j < unat h \<longrightarrow> (\<exists>b. bucket_in d j = Some b \<and> b_val b = IS_UNDEF)"
    by blast
  let ?ht = "ht\<lparr>arData := d, nNumUsed := ucast (h + 1), nNextFreeElement := ucast (ucast (h + 1) :: u32),
    nNumOfElements := nNumOfElements ht + 1\<rparr>"
  let ?b = "(bucket_or_raw ?ht (unat h))\<lparr>b_val := v, b_h := h, b_key := None\<rparr>"
  let ?d = "d[unat h := Some ?b]"
  let ?ht' = "ht\<lparr>nNumUsed := ucast (h + 1), nNextFreeElement := ucast (ucast (h + 1) :: u32),
    nNumOfElements := nNumOfElements ht + 1, arData := ?d\<rparr>"
  have "add_to_packed ht h v flag = Some (Some (In_Bucket (ucast h)), ?ht')"
    unfolding add_to_packed_def d(1) using h(2) d(2) by (simp add: put_bucket_def Let_def)
  moreover have "packed_ok k ?ht'" "ht_list ?ht' = AList.update (Idx h) v (ht_list ht)"
    using h d(2-4) by (intro packed_update_contents [OF ok h _ _ _ _ _ _ _ v, where b = ?b]; simp)+
  ultimately show ?thesis by blast
qed

subsection \<open>Updates by integer\<close>

lemma u64_less: "h < ucast (w :: u32) \<longleftrightarrow> unat (h :: u64) < unat w"
  by (simp add: word_less_nat_alt)

lemma packed_is_ok [intro]: "packed_ok k ht \<Longrightarrow> ht_ok ht"
  by (auto simp: ht_ok_def)

lemma packed_grow_ok:
  assumes ok: "packed_ok k ht" and "k < 30"
  shows "\<exists>ht'. zend_hash_packed_grow ht = Some ht' \<and> packed_ok (Suc k) ht' \<and> ht_elems ht' = ht_elems ht \<and>
    nNumUsed ht' = nNumUsed ht"
proof -
  note c = packed_okD(1) [OF ok]
  have size: "nTableSize ht = 2 ^ k" using c by (simp add: contents_ok_def)
  have max: "\<not> HT_MAX_SIZE \<le> nTableSize ht"
    using contents_bounds(2,5) [OF c] by (simp add: word_le_nat_alt)
  obtain ht' where ht': "copy_buckets (ht\<lparr>nTableSize := 2 ^ Suc k\<rparr>) (2 ^ Suc k) = Some ht'" "contents_ok (Suc k) ht'"
    "ht_elems ht' = ht_elems ht" "nNumUsed ht' = nNumUsed ht" "ht' = ht\<lparr>nTableSize := 2 ^ Suc k, arData := arData ht'\<rparr>"
    "\<forall>i<unat (nNumUsed ht). bucket_in (arData ht') i = bucket_in (arData ht) i"
    using copy_contents_ok [OF c, of "Suc k"] assms(2) by auto
  have f: "f_packed ht' = f_packed ht" "nTableMask ht' = nTableMask ht" "arHash ht' = arHash ht"
    by (subst ht'(5); simp)+
  have "held (arData ht') i = held (arData ht) i" if "i < unat (nNumUsed ht)" for i
    using ht'(6) that by (simp add: held_def)
  then have "packed_ok (Suc k) ht'" using ok ht'(2,4) f unfolding packed_ok_def by auto
  then show ?thesis using ht'(1,3,4) size max by (auto simp: zend_hash_packed_grow_def Let_def)
qed

lemma packed_rehash_append:
  assumes c: "contents_ok k ht" and k': "k \<le> k'" "k' \<le> 30" and room: "length (ht_elems ht) < 2 ^ k'"
    and v: "v \<noteq> IS_UNDEF" and new: "index_of ht (Idx h) = None"
  shows "\<exists>p ht'. do { ht \<leftarrow> zend_hash_packed_to_hash (ht\<lparr>nTableSize := 2 ^ k'\<rparr>); index_append ht h v } = Some (Some p, ht') \<and>
    ht_ok ht' \<and> ht_list ht' = AList.update (Idx h) v (ht_list ht)"
proof -
  obtain ht1 where ht1: "zend_hash_packed_to_hash (ht\<lparr>nTableSize := 2 ^ k'\<rparr>) = Some ht1" "hash_ok k' ht1"
    "ht_elems ht1 = ht_elems ht" "unat (nNumUsed ht1) = length (ht_elems ht)"
    using packed_to_hash_ok [OF c k'] by blast
  have "index_of ht1 (Idx h) = None" using new index_of_elems [OF ht1(3)] by blast
  from index_append_ok [OF ht1(2) _ v this] show ?thesis
    using ht1(1,3,4) room by (auto simp: ht_list_def)
qed

lemma index_packed_new:
  assumes ok: "packed_ok k ht" "k < 30" and v: "v \<noteq> IS_UNDEF" and new: "index_of ht (Idx h) = None"
    and flag: "flag AND (HASH_ADD_NEW OR HASH_ADD_NEXT) \<noteq> (HASH_ADD_NEW OR HASH_ADD_NEXT) \<or> unat (nNumUsed ht) = unat h"
  shows "\<exists>p ht'. index_packed ht h v flag = Some (Some p, ht') \<and> ht_ok ht' \<and>
    ht_list ht' = AList.update (Idx h) v (ht_list ht)"
proof -
  let ?n = "unat (nNumUsed ht)"
  note c = packed_okD(1) [OF ok(1)] and b = contents_bounds [OF packed_okD(1) [OF ok(1)]]
  have size: "nTableSize ht = 2 ^ k" using c by (simp add: contents_ok_def)
  have same: "ht\<lparr>nTableSize := 2 ^ k\<rparr> = ht" using size by simp
  consider (hole) "unat h < ?n" | (room) "?n \<le> unat h" "unat h < 2 ^ k"
    | (grow) "2 ^ k \<le> unat h" "drop_bit 1 h < ucast (nTableSize ht)" "drop_bit 1 (nTableSize ht) < nNumOfElements ht"
    | (convert) "2 ^ k \<le> unat h" "\<not> (drop_bit 1 h < ucast (nTableSize ht) \<and> drop_bit 1 (nTableSize ht) < nNumOfElements ht)"
    by linarith
  then show ?thesis
  proof cases
    case hole
    obtain p where p: "bucket_in (arData ht) (unat h) = Some p" using c hole by (fastforce simp: contents_ok_def)
    have undef: "held (arData ht) (unat h) = None" using new packed_index_of [OF ok(1), of h] hole by (metis option.distinct(1))
    then have "\<not> (\<forall>j\<in>{0..<0 + ?n}. held (arData ht) j \<noteq> None)"
      using hole by (metis add_0 atLeastLessThan_iff le0)
    then have "length (ht_elems ht) \<noteq> ?n" by (simp only: ht_elems_def length_elems_eq_iff not_False_eq_True)
    then have "length (ht_elems ht) < 2 ^ k" using b(1,3) by simp
    from packed_rehash_append [OF c order_refl _ this v new] show ?thesis
      using hole p undef ok(2) same by (simp add: index_packed_def u64_less held_of_bucket split: if_splits)
  next
    case room
    then show ?thesis
      using add_to_packed_ok [OF ok(1) room v flag] b(5) by (auto simp: index_packed_def u64_less)
  next
    case grow
    obtain ht1 where ht1: "zend_hash_packed_grow ht = Some ht1" "packed_ok (Suc k) ht1" "ht_elems ht1 = ht_elems ht"
      "nNumUsed ht1 = nNumUsed ht"
      using packed_grow_ok [OF ok] by blast
    have "unat h div 2 < 2 ^ k" using grow(2) b(5) by (simp add: u64_less unat_drop_bit_eq drop_bit_eq_div unat_div)
    then have "unat h < 2 ^ Suc k" by simp
    moreover have "?n \<le> unat h" using grow(1) b(1) by simp
    moreover have "\<not> ht_bailout ht1" using ht1(2) by (simp add: packed_ok_def contents_ok_def)
    ultimately show ?thesis
      using add_to_packed_ok [OF ht1(2) _ _ v, of h flag] flag ht1 grow b(1,5)
      by (auto simp: index_packed_def u64_less ht_list_def)
  next
    case convert
    show ?thesis
    proof (cases "nNumUsed ht \<ge> nTableSize ht")
      case True
      have "length (ht_elems ht) < 2 ^ Suc k" by (rule le_less_trans [OF order_trans [OF b(3,1)]]) simp
      from packed_rehash_append [OF c _ _ this v new] ok(2) show ?thesis
        using True convert b(1,5) size by (auto simp: index_packed_def u64_less Let_def)
    next
      case False
      then have "length (ht_elems ht) < 2 ^ k" using b(3,5) by (simp add: word_le_nat_alt)
      from packed_rehash_append [OF c order_refl _ this v new] ok(2) show ?thesis
        using False convert b(1,5) same by (auto simp: index_packed_def u64_less Let_def)
    qed
  qed
qed

lemma init_packed_ok:
  assumes "fresh_ok k ht"
  shows "packed_ok k (zend_hash_real_init_packed_ex ht)" "ht_elems (zend_hash_real_init_packed_ex ht) = []"
    "nNumUsed (zend_hash_real_init_packed_ex ht) = 0"
proof -
  have "unat (2 ^ k :: u32) = 2 ^ k" using assms unat_exp32 [of k] by (simp add: fresh_ok_def)
  then show "packed_ok k (zend_hash_real_init_packed_ex ht)" "ht_elems (zend_hash_real_init_packed_ex ht) = []"
    "nNumUsed (zend_hash_real_init_packed_ex ht) = 0"
    using assms by (simp_all add: zend_hash_real_init_packed_ex_def HT_HASH_RESET_PACKED_def table_defs)
qed

lemma index_new_ok:
  assumes ok: "ht_ok ht" "ht_small ht" and v: "v \<noteq> IS_UNDEF" and new: "index_of ht (Idx h) = None"
    and flag: "\<not> bits_set flag HASH_ADD_NEW" "flag AND (HASH_ADD_NEW OR HASH_ADD_NEXT) \<noteq> (HASH_ADD_NEW OR HASH_ADD_NEXT)"
  shows "\<exists>p ht'. zend_hash_index_add_or_update_i ht h v flag = Some (Some p, ht') \<and> ht_ok ht' \<and>
    ht_list ht' = AList.update (Idx h) v (ht_list ht)"
  using ok(1)
proof (rule ht_okE)
  fix k assume k: "packed_ok k ht" "contents_ok k ht"
  then have "k < 30" using small_exp [of ht k] ok(2) by (simp add: contents_ok_def)
  then show ?thesis
    using index_packed_new [OF k(1) _ v new, of flag] flag(2) k by (auto simp: zend_hash_index_add_or_update_i_def packed_ok_def)
next
  fix k assume k: "fresh_ok k ht" "ht_elems ht = []"
  then have f: "f_uninitialized ht" "\<not> f_packed ht" "unat (nTableSize ht) = 2 ^ k"
    using unat_exp32 [of k] by (simp_all add: fresh_ok_def)
  show ?thesis
  proof (cases "unat h < 2 ^ k")
    case True
    note i = init_packed_ok [OF k(1)]
    have "unat (nNumUsed (zend_hash_real_init_packed_ex ht)) \<le> unat h" by (simp add: i(3))
    from add_to_packed_ok [OF i(1) this True v, of flag] flag(2) i(2) k(2) show ?thesis
      using f True by (auto simp: zend_hash_index_add_or_update_i_def u64_less ht_list_def)
  next
    case False
    note i = init_mixed_ok [OF k(1)]
    have "index_of (zend_hash_real_init_mixed_ex ht) (Idx h) = None" by (simp add: index_of_None ht_list_def i(2))
    from index_append_ok [OF i(1,3) v this] i(2) k(2) show ?thesis
      using f False by (auto simp: zend_hash_index_add_or_update_i_def u64_less ht_list_def)
  qed
next
  fix k assume k: "hash_ok k ht" "contents_ok k ht"
  then have f: "\<not> f_uninitialized ht" "\<not> f_packed ht" by (simp_all add: hash_ok_def contents_ok_def)
  obtain ht1 k1 where r: "ZEND_HASH_IF_FULL_DO_RESIZE ht = Some ht1" "hash_ok k1 ht1" "unat (nNumUsed ht1) < 2 ^ k1"
    "ht_elems ht1 = ht_elems ht"
    using resize_ok [OF k(1) hash_small [OF k(1) ok(2)]] by blast
  have bail: "\<not> ht_bailout ht1" using r(2) by (simp add: hash_ok_def contents_ok_def)
  have "index_of ht1 (Idx h) = None" using new index_of_elems [OF r(4)] by blast
  from index_append_ok [OF r(2,3) v this] show ?thesis
    using r(1,4) bail f flag(1) index_find_eq [OF ok(1) f(2), of h] new
    by (auto simp: zend_hash_index_add_or_update_i_def ht_list_def)
qed

lemma index_found:
  assumes ok: "ht_ok ht" and old: "index_of ht (Idx h) = Some i" and flag: "\<not> bits_set flag HASH_ADD_NEW"
  shows "zend_hash_index_add_or_update_i ht h v flag = index_replace ht (word_of_nat i) v flag"
  using ok
proof (rule ht_okE)
  fix k assume k: "packed_ok k ht" "contents_ok k ht"
  have i: "i = unat h" "unat h < unat (nNumUsed ht)" "held (arData ht) (unat h) \<noteq> None"
    using packed_index_of [OF k(1), of h] old by (auto split: if_splits)
  then obtain p where "bucket_in (arData ht) (unat h) = Some p" "b_val p \<noteq> IS_UNDEF"
    by (auto simp: held_def split: option.splits if_splits)
  moreover have "(ucast h :: u32) = word_of_nat (unat h)" by (simp add: word_of_nat_eq_iff unsigned_ucast_eq)
  ultimately show ?thesis
    using i k(1) by (simp add: zend_hash_index_add_or_update_i_def index_packed_def u64_less packed_ok_def)
next
  fix k assume k: "fresh_ok k ht" "ht_elems ht = []"
  then show ?thesis using old by (simp add: index_of_def fresh_ok_def)
next
  fix k assume k: "hash_ok k ht" "contents_ok k ht"
  then have f: "\<not> f_uninitialized ht" "\<not> f_packed ht" by (simp_all add: hash_ok_def contents_ok_def)
  then show ?thesis
    using index_find_eq [OF ok f(2), of h] old flag by (simp add: zend_hash_index_add_or_update_i_def)
qed

lemma index_update_ok:
  assumes "ht_ok ht" "ht_small ht" "v \<noteq> IS_UNDEF"
  shows "\<exists>p ht'. zend_hash_index_update ht h v = Some (Some p, ht') \<and> ht_ok ht' \<and>
    ht_list ht' = AList.update (Idx h) v (ht_list ht)"
proof (cases "index_of ht (Idx h)")
  case None
  then show ?thesis using index_new_ok [OF assms None, of HASH_UPDATE] by (simp add: zend_hash_index_update_def)
next
  case (Some i)
  then show ?thesis
    using index_found [OF assms(1) Some, of HASH_UPDATE] store_ok [OF assms(1) Some assms(3)]
    by (auto simp: zend_hash_index_update_def index_replace_def)
qed

text \<open>\<open>zend_hash_next_index_insert\<close>, \<open>$a[] = v\<close> of PHP, appends under the next free integer, and
  fails when that is taken.\<close>

lemma next_index_insert_ok:
  assumes "ht_ok ht" "ht_small ht" "v \<noteq> IS_UNDEF"
  shows "\<exists>r ht'. zend_hash_next_index_insert ht v = Some (r, ht') \<and> ht_ok ht' \<and>
    (if Idx (nNextFreeElement ht) \<in> fst ` set (ht_list ht) then r = None \<and> ht_list ht' = ht_list ht
     else r \<noteq> None \<and> ht_list ht' = ht_list ht @ [(Idx (nNextFreeElement ht), v)])"
proof (cases "index_of ht (Idx (nNextFreeElement ht))")
  case None
  then have new: "Idx (nNextFreeElement ht) \<notin> fst ` set (ht_list ht)" by (simp add: index_of_None)
  then show ?thesis
    using index_new_ok [OF assms None, of 18] AList_update_new [OF new, of v]
    by (auto simp: zend_hash_next_index_insert_def)
next
  case (Some i)
  then have "Idx (nNextFreeElement ht) \<in> fst ` set (ht_list ht)"
    using index_of_None [of ht "Idx (nNextFreeElement ht)"] by simp
  then show ?thesis
    using index_found [OF assms(1) Some, of 18] assms(1)
    by (auto simp: zend_hash_next_index_insert_def index_replace_def)
qed

end
