(* ===== verification/Zend_Hash_Delete.thy ===== *)
theory Zend_Hash_Delete
  imports Zend_Hash_Map
begin

text \<open>
  Deletion: the bucket is taken out of its chain and becomes a hole, iterators that stood on it
  move on, and holes at the end are given up. On the abstraction this is \<open>AList.delete\<close>.
\<close>

subsection \<open>Out of the chain\<close>

lemma linked_remove_head:
  "linked d idx (x # zs) \<Longrightarrow> bucket_in d x = Some p \<Longrightarrow> linked d (b_next p) zs"
  by auto

lemma linked_remove:
  assumes "linked d idx (ys @ x # zs)" "distinct (ys @ x # zs)" "ys \<noteq> []" "bucket_in d x = Some p"
    "bucket_in d (last ys) = Some b"
  shows "linked (d[last ys := Some (b\<lparr>b_next := b_next p\<rparr>)]) idx (ys @ zs)"
  using assms
proof (induction ys arbitrary: idx)
  case (Cons y ys)
  let ?d = "d[last (y # ys) := Some (b\<lparr>b_next := b_next p\<rparr>)]"
  have len: "last (y # ys) < length d" using Cons.prems(5) by (rule bucket_in_length)
  obtain c where c: "idx \<noteq> HT_INVALID_IDX" "unat idx = y" "bucket_in d y = Some c" "linked d (b_next c) (ys @ x # zs)"
    using Cons.prems(1) linked_ConsD by (metis append_Cons)
  show ?case
  proof (cases "ys = []")
    case True
    then have "linked d (b_next p) zs" using c(4) Cons.prems(4) by (simp add: linked_remove_head)
    moreover have "linked ?d (b_next p) zs = linked d (b_next p) zs"
      using Cons.prems(2) True len by (intro linked_cong) auto
    ultimately show ?thesis using True c Cons.prems(5) len by simp
  next
    case False
    have "linked ?d (b_next c) (ys @ zs)" using Cons.IH [OF c(4)] Cons.prems False by simp
    moreover have "last ys \<noteq> y" using Cons.prems(2) False by (metis append_Cons distinct.simps(2) last_in_set Un_iff set_append)
    ultimately show ?thesis using c False len by simp
  qed
qed simp

lemma filter_remove: "distinct (ys @ x # zs) \<Longrightarrow> filter (\<lambda>j. j \<noteq> x) (ys @ x # zs) = ys @ zs"
proof -
  assume "distinct (ys @ x # zs)"
  then have "filter (\<lambda>j. j \<noteq> x) ys = ys" "filter (\<lambda>j. j \<noteq> x) zs = zs" by (intro filter_True; auto)+
  then show ?thesis by simp
qed

lemma del_unlink_hash:
  assumes ok: "hash_ok k ht" and p: "bucket_in (arData ht) i = Some p" "i < unat (nNumUsed ht)" "b_val p \<noteq> IS_UNDEF"
    and ids: "slot_ids (slot_of ht) (arData ht) (unat (nNumUsed ht)) (slot_of ht (b_h p)) = ys @ i # zs"
    and prev: "prev = (if ys = [] then None else Some (word_of_nat (last ys)))"
  shows "\<exists>d hs. del_unlink ht prev p = Some (ht\<lparr>arData := d, arHash := hs\<rparr>) \<and> length d = length (arData ht) \<and>
    length hs = length (arHash ht) \<and> (\<forall>j. held d j = held (arData ht) j) \<and>
    (\<forall>j. (bucket_in d j = None) = (bucket_in (arData ht) j = None)) \<and> bucket_in d i = Some p \<and>
    (\<forall>s<length hs. linked d (hs ! s) (filter (\<lambda>j. j \<noteq> i)
       (slot_ids (slot_of ht) (arData ht) (unat (nNumUsed ht)) s)))"
proof -
  let ?d = "arData ht" and ?hs = "arHash ht" and ?n = "unat (nNumUsed ht)" and ?s = "slot_of ht (b_h p)"
  note h = hash_okD [OF ok]
  have cells: "cells_ok ht" by (rule hash_cells [OF ok])
  have dist: "distinct (ys @ i # zs)" using ids distinct_slot_ids by metis
  have lk: "linked ?d (?hs ! s) (slot_ids (slot_of ht) ?d ?n s)" if "s < length ?hs" for s
    using h(5) that by (simp add: chains_def)
  have here: "linked ?d (?hs ! ?s) (ys @ i # zs)" using lk [of ?s] cells ids by (simp add: cells_ok_def)
  have other: "i \<notin> set (slot_ids (slot_of ht) ?d ?n s)" if "s \<noteq> ?s" for s
    using that p by (auto simp: set_slot_ids held_of_bucket)
  then have keep: "filter (\<lambda>j. j \<noteq> i) (slot_ids (slot_of ht) ?d ?n s) = slot_ids (slot_of ht) ?d ?n s" if "s \<noteq> ?s" for s
    using that by (intro filter_True) auto
  show ?thesis
  proof (cases "ys = []")
    case True
    have "linked ?d (?hs[?s := b_next p] ! s) (filter (\<lambda>j. j \<noteq> i) (slot_ids (slot_of ht) ?d ?n s))"
      if s: "s < length ?hs" for s
    proof (cases "s = ?s")
      case at: True
      have "linked ?d (b_next p) zs" using here True p(1) by (simp add: linked_remove_head)
      moreover have "filter (\<lambda>j. j \<noteq> i) (slot_ids (slot_of ht) ?d ?n ?s) = zs"
        using filter_remove [OF dist] True by (simp add: ids)
      ultimately show ?thesis using at s by simp
    qed (use lk s keep in simp)
    then show ?thesis
      using True prev h(2) p(1) set_hash_eq [OF cells, of "b_h p"]
      by (intro exI [of _ ?d] exI [of _ "?hs[?s := b_next p]"]) (simp add: del_unlink_def)
  next
    case False
    let ?y = "last ys"
    have y: "?y \<in> set (slot_ids (slot_of ht) ?d ?n ?s)" using False ids by simp
    then have "?y < ?n" and "held ?d ?y \<noteq> None" by (auto simp: set_slot_ids)
    then obtain b where b: "bucket_in ?d ?y = Some b" using held_bucket by fastforce
    let ?d' = "?d[?y := Some (b\<lparr>b_next := b_next p\<rparr>)]"
    have len: "?y < length ?d" using b by (rule bucket_in_length)
    have w: "unat (word_of_nat ?y :: u32) = ?y"
      using \<open>?y < ?n\<close> unat_u32_less [of "nNumUsed ht"] by (intro unat_of_nat32) simp
    have "?y \<noteq> i" using dist False by (metis distinct_append disjoint_iff last_in_set list.set_intros(1))
    have "linked ?d' (?hs ! s) (filter (\<lambda>j. j \<noteq> i) (slot_ids (slot_of ht) ?d ?n s))" if s: "s < length ?hs" for s
    proof (cases "s = ?s")
      case True
      have "linked ?d' (?hs ! ?s) (ys @ zs)" by (rule linked_remove [OF here dist False p(1) b])
      then show ?thesis using True filter_remove [OF dist] by (simp only: ids)
    next
      case at: False
      have "?y \<notin> set (slot_ids (slot_of ht) ?d ?n s)" using at y by (auto simp: set_slot_ids)
      then have "linked ?d' (?hs ! s) (slot_ids (slot_of ht) ?d ?n s) = linked ?d (?hs ! s) (slot_ids (slot_of ht) ?d ?n s)"
        using len by (intro linked_cong) auto
      then show ?thesis using lk s keep at by simp
    qed
    moreover have "held ?d' j = held ?d j" for j using b len by (auto simp: held_update) (auto simp: held_def)
    ultimately show ?thesis
      using False prev h(2) p(1) b len w \<open>?y \<noteq> i\<close>
      by (intro exI [of _ ?d'] exI [of _ ?hs]) (auto simp: del_unlink_def put_bucket_def)
  qed
qed

subsection \<open>Moving on and trimming\<close>

lemma next_live_ok: "(\<And>j. i \<le> j \<Longrightarrow> j < used \<Longrightarrow> bucket_in d j \<noteq> None) \<Longrightarrow> \<exists>n. next_live d used i = Some n"
proof (induction "used - i" arbitrary: i)
  case 0
  then show ?case by (subst next_live.simps) simp
next
  case (Suc m)
  then have i: "i < used" by simp
  obtain b where b: "bucket_in d i = Some b" using Suc.prems [of i] i by auto
  have "\<exists>n. next_live d used (Suc i) = Some n" using Suc.hyps(2) Suc.prems by (intro Suc.hyps(1)) auto
  then show ?case using i b by (subst next_live.simps) auto
qed

lemma trim_used_ok:
  "(\<And>j. j < n \<Longrightarrow> bucket_in d j \<noteq> None) \<Longrightarrow>
   \<exists>u. trim_used d n = Some u \<and> u \<le> n \<and> (\<forall>j. u \<le> j \<and> j < n \<longrightarrow> held d j = None)"
proof (induction n)
  case (Suc n)
  obtain b where b: "bucket_in d n = Some b" using Suc.prems [of n] by auto
  obtain u where u: "trim_used d n = Some u" "u \<le> n" "\<forall>j. u \<le> j \<and> j < n \<longrightarrow> held d j = None"
    using Suc.IH Suc.prems by auto
  show ?case
  proof (cases "b_val b = IS_UNDEF")
    case True
    then show ?thesis using u b by (intro exI [of _ u]) (auto simp: held_of_bucket less_Suc_eq)
  next
    case False
    then show ?thesis using b by auto
  qed
qed simp

lemma del_advance_ok:
  assumes "\<And>j. unat idx < j \<Longrightarrow> j < unat (nNumUsed ht) \<Longrightarrow> bucket_in (arData ht) j \<noteq> None"
  shows "\<exists>ip its. del_advance ht idx = Some (ht\<lparr>nInternalPointer := ip, ht_iters := its\<rparr>)"
proof -
  obtain n where n: "next_live (arData ht) (unat (nNumUsed ht)) (unat idx + 1) = Some n"
    using next_live_ok [of "unat idx + 1" "unat (nNumUsed ht)" "arData ht"] assms by auto
  let ?ip = "if nInternalPointer ht = idx then word_of_nat n else nInternalPointer ht"
  have ip: "(if nInternalPointer ht = idx then ht\<lparr>nInternalPointer := word_of_nat n\<rparr> else ht) = ht\<lparr>nInternalPointer := ?ip\<rparr>"
    by simp
  obtain its where its: "zend_hash_iterators_update (ht\<lparr>nInternalPointer := ?ip\<rparr>) idx (word_of_nat n) =
      ht\<lparr>nInternalPointer := ?ip, ht_iters := its\<rparr>"
    using iterators_update_iters by blast
  show ?thesis
  proof (cases "nInternalPointer ht = idx \<or> nIteratorsCount ht \<noteq> 0")
    case True
    then have "del_advance ht idx = Some (zend_hash_iterators_update
        (if nInternalPointer ht = idx then ht\<lparr>nInternalPointer := word_of_nat n\<rparr> else ht) idx (word_of_nat n))"
      unfolding del_advance_def n Let_def by (simp only: if_True bind.simps)
    then show ?thesis unfolding ip its by blast
  next
    case False
    then show ?thesis by (intro exI [of _ "nInternalPointer ht"] exI [of _ "ht_iters ht"]) (simp add: del_advance_def)
  qed
qed

lemma del_trim_ok:
  assumes "\<And>j. j < unat (nNumUsed ht) \<Longrightarrow> bucket_in (arData ht) j \<noteq> None" "unat idx < unat (nNumUsed ht)"
  shows "\<exists>u ip. del_trim ht idx = Some (ht\<lparr>nNumUsed := word_of_nat u, nInternalPointer := ip\<rparr>) \<and>
    u \<le> unat (nNumUsed ht) \<and> (\<forall>j. u \<le> j \<and> j < unat (nNumUsed ht) \<longrightarrow> j = unat idx \<or> held (arData ht) j = None)"
proof (cases "nNumUsed ht - 1 = idx")
  case True
  have "nNumUsed ht \<noteq> 0" using assms(2) by auto
  then have one: "unat (nNumUsed ht - 1) = unat (nNumUsed ht) - 1" by (rule unat_minus_one)
  have idx: "unat idx = unat (nNumUsed ht) - 1" using True one by simp
  obtain u where u: "trim_used (arData ht) (unat (nNumUsed ht) - 1) = Some u" "u \<le> unat (nNumUsed ht) - 1"
    "\<forall>j. u \<le> j \<and> j < unat (nNumUsed ht) - 1 \<longrightarrow> held (arData ht) j = None"
    using trim_used_ok [of "unat (nNumUsed ht) - 1" "arData ht"] assms(1) by auto
  have "j = unat idx \<or> held (arData ht) j = None" if "u \<le> j" "j < unat (nNumUsed ht)" for j
    using u(3) that idx by (cases "j = unat (nNumUsed ht) - 1") auto
  then show ?thesis using True u(1,2) one
    by (intro exI [of _ u] exI [of _ "min (nInternalPointer ht) (word_of_nat u)"]) (auto simp: del_trim_def)
next
  case False
  then show ?thesis
    by (intro exI [of _ "unat (nNumUsed ht)"] exI [of _ "nInternalPointer ht"]) (simp add: del_trim_def)
qed

subsection \<open>The whole deletion\<close>

text \<open>What is left of the contents when the bucket \<open>i\<close> has become a hole and \<open>u\<close> buckets are in use.\<close>

lemma delete_contents:
  fixes hs its :: "u32 list" and ip :: u32 and p :: "'v bucket" and ht :: "'v hashtable"
  assumes c: "contents_ok k ht" and i: "i < unat (nNumUsed ht)" "held (arData ht) i = Some e"
    and d: "length d = length (arData ht)" "\<And>j. held d j = held (arData ht) j"
      "\<And>j. (bucket_in d j = None) = (bucket_in (arData ht) j = None)"
    and u: "u \<le> unat (nNumUsed ht)" "\<And>j. u \<le> j \<Longrightarrow> j < unat (nNumUsed ht) \<Longrightarrow> j = i \<or> held d j = None"
  defines "ht' \<equiv> ht\<lparr>arData := d[i := Some (p\<lparr>b_val := IS_UNDEF\<rparr>)], arHash := hs, nNumOfElements := nNumOfElements ht - 1,
    nInternalPointer := ip, ht_iters := its, nNumUsed := word_of_nat u\<rparr>"
  shows "contents_ok k ht'" "ht_elems ht' = elems (arData ht) 0 i @ elems (arData ht) (Suc i) (unat (nNumUsed ht) - Suc i)"
    "unat (nNumUsed ht') = u" "held (arData ht') j = (if j = i then None else held (arData ht) j)"
proof -
  let ?n = "unat (nNumUsed ht)" and ?d = "d[i := Some (p\<lparr>b_val := IS_UNDEF\<rparr>)]"
  have len: "i < length d" using c i(1) d(1) by (simp add: contents_ok_def)
  show used: "unat (nNumUsed ht') = u"
    using u(1) unat_u32_less [of "nNumUsed ht"] by (simp add: ht'_def unat_of_nat32)
  show held: "held (arData ht') j = (if j = i then None else held (arData ht) j)" for j
    using len d(2) by (simp add: ht'_def held_update)
  have "elems (arData ht') 0 ?n = elems (arData ht') 0 u @ elems (arData ht') u (?n - u)"
    using elems_append [of "arData ht'" 0 u "?n - u"] u(1) by simp
  moreover have "elems (arData ht') u (?n - u) = []"
  proof (intro elems_None)
    fix j assume "u \<le> j" "j < u + (?n - u)"
    then have "j = i \<or> held d j = None" using u by simp
    then show "held (arData ht') j = None" using held [of j] d(2) by auto
  qed
  moreover have "elems (arData ht') 0 ?n = elems (arData ht) 0 i @ elems (arData ht) (Suc i) (?n - Suc i)"
    using elems_split [OF i(1), of "arData ht'"] held elems_cong [of 0 i "arData ht'" "arData ht"]
      elems_cong [of "Suc i" "?n - Suc i" "arData ht'" "arData ht"]
    by simp
  ultimately show el: "ht_elems ht' = elems (arData ht) 0 i @ elems (arData ht) (Suc i) (?n - Suc i)"
    unfolding ht_elems_def [of ht'] used by simp
  have "nNumOfElements ht - 1 = word_of_nat (length (ht_elems ht'))"
    using c el elems_at [OF i] by (simp add: contents_ok_def)
  moreover have "bucket_in ?d j \<noteq> None" if "j < u" for j
  proof -
    have "bucket_in (arData ht) j \<noteq> None" using that c u(1) by (simp add: contents_ok_def)
    then have "bucket_in d j \<noteq> None" by (simp only: d(3) not_False_eq_True)
    then show ?thesis using len by simp
  qed
  ultimately show "contents_ok k ht'"
    using c el elems_at [OF i] used u(1) d(1) unfolding contents_ok_def by (simp add: ht'_def)
qed

lemma AList_delete_at:
  assumes "distinct (map entry_key (ht_elems ht))" "ht_elems ht = xs @ e # ys" "ht_elems ht' = xs @ ys"
  shows "ht_list ht' = AList.delete (entry_key e) (ht_list ht)"
proof -
  let ?f = "\<lambda>e. (entry_key e, fst e)"
  have "entry_key e \<notin> fst ` set (map ?f xs @ map ?f ys)" using assms(1,2) by auto
  from AList_delete_middle [OF this, of "fst e"] show ?thesis using assms(2,3) by (simp add: ht_list_def)
qed

lemma filter_slot_ids:
  assumes "\<And>j. held d' j = (if j = i then None else held d j)" "u \<le> n" "\<And>j. u \<le> j \<Longrightarrow> j < n \<Longrightarrow> j = i \<or> held d j = None"
  shows "slot_ids slot d' u s = filter (\<lambda>j. j \<noteq> i) (slot_ids slot d n s)"
proof -
  have upt: "[0..<n] = [0..<u] @ [u..<n]" using assms(2) by (metis le0 upt_add_eq_append le_add_diff_inverse)
  have "filter (\<lambda>j. j \<noteq> i \<and> (case held d j of Some (v, h, k) \<Rightarrow> slot h = s | None \<Rightarrow> False)) [u..<n] = []"
    using assms(3) by (force simp: filter_empty_conv split: option.splits)
  moreover have "filter (\<lambda>j. j \<noteq> i \<and> (case held d j of Some (v, h, k) \<Rightarrow> slot h = s | None \<Rightarrow> False)) [0..<u] =
      filter (\<lambda>j. case held d' j of Some (v, h, k) \<Rightarrow> slot h = s | None \<Rightarrow> False) [0..<u]"
    using assms(1) by (intro filter_cong refl) (auto split: option.splits)
  ultimately show ?thesis by (simp add: slot_ids_def rev_filter [symmetric] upt conj_commute)
qed

lemma del_el_ok:
  assumes m: "hash_ok k ht \<or> packed_ok k ht" and i: "i < unat (nNumUsed ht)" "bucket_in (arData ht) i = Some p"
    "b_val p \<noteq> IS_UNDEF"
    and ids: "\<not> f_packed ht \<Longrightarrow> slot_ids (slot_of ht) (arData ht) (unat (nNumUsed ht)) (slot_of ht (b_h p)) = ys @ i # zs"
    and prev: "\<not> f_packed ht \<Longrightarrow> prev = (if ys = [] then None else Some (word_of_nat (last ys)))"
  shows "\<exists>ht'. zend_hash_del_el_ex ht (word_of_nat i) prev = Some ht' \<and> ht_ok ht' \<and>
    ht_list ht' = AList.delete (entry_key (b_val p, b_h p, b_key p)) (ht_list ht)"
proof -
  let ?n = "unat (nNumUsed ht)" and ?e = "(b_val p, b_h p, b_key p)"
  have c: "contents_ok k ht" using m by (auto simp: hash_ok_def packed_ok_def)
  have e: "held (arData ht) i = Some ?e" using i(2,3) by (simp add: held_of_bucket)
  have w: "unat (word_of_nat i :: u32) = i" using i(1) unat_u32_less [of "nNumUsed ht"] by (intro unat_of_nat32) simp
  have "\<exists>d hs. del_unlink ht prev p = Some (ht\<lparr>arData := d, arHash := hs\<rparr>) \<and> length d = length (arData ht) \<and>
    length hs = length (arHash ht) \<and> (\<forall>j. held d j = held (arData ht) j) \<and>
    (\<forall>j. (bucket_in d j = None) = (bucket_in (arData ht) j = None)) \<and> bucket_in d i = Some p \<and>
    (if f_packed ht then hs = arHash ht else \<forall>s<length hs. linked d (hs ! s)
       (filter (\<lambda>j. j \<noteq> i) (slot_ids (slot_of ht) (arData ht) ?n s)))"
  proof (cases "f_packed ht")
    case True
    then show ?thesis using i(2)
      by (intro exI [of _ "arData ht"] exI [of _ "arHash ht"]) (simp add: del_unlink_def)
  next
    case False
    then have "hash_ok k ht" using m by (auto simp: packed_ok_def)
    from del_unlink_hash [OF this i(2,1,3) ids [OF False] prev [OF False]] show ?thesis using False by simp
  qed
  then obtain d hs where d: "del_unlink ht prev p = Some (ht\<lparr>arData := d, arHash := hs\<rparr>)" "length d = length (arData ht)"
    "length hs = length (arHash ht)" "\<And>j. held d j = held (arData ht) j"
    "\<And>j. (bucket_in d j = None) = (bucket_in (arData ht) j = None)" "bucket_in d i = Some p"
    "if f_packed ht then hs = arHash ht else \<forall>s<length hs. linked d (hs ! s)
       (filter (\<lambda>j. j \<noteq> i) (slot_ids (slot_of ht) (arData ht) ?n s))"
    by blast
  let ?ht1 = "ht\<lparr>arData := d, arHash := hs, nNumOfElements := nNumOfElements ht - 1\<rparr>"
  have init: "bucket_in d j \<noteq> None" if "j < ?n" for j using d(5) c that by (simp add: contents_ok_def)
  obtain ip its where adv: "del_advance ?ht1 (word_of_nat i) = Some (?ht1\<lparr>nInternalPointer := ip, ht_iters := its\<rparr>)"
    using del_advance_ok [of "word_of_nat i" ?ht1] init by auto
  let ?ht2 = "?ht1\<lparr>nInternalPointer := ip, ht_iters := its\<rparr>"
  obtain u ip' where trim: "del_trim ?ht2 (word_of_nat i) = Some (?ht2\<lparr>nNumUsed := word_of_nat u, nInternalPointer := ip'\<rparr>)"
    "u \<le> ?n" "\<And>j. u \<le> j \<Longrightarrow> j < ?n \<Longrightarrow> j = i \<or> held d j = None"
    using del_trim_ok [of ?ht2 "word_of_nat i"] init i(1) w by auto
  let ?ht' = "ht\<lparr>arData := d[i := Some (p\<lparr>b_val := IS_UNDEF\<rparr>)], arHash := hs, nNumOfElements := nNumOfElements ht - 1,
    nInternalPointer := ip', ht_iters := its, nNumUsed := word_of_nat u\<rparr>"
  note r = delete_contents [OF c i(1) e d(2,4,5) trim(2,3), where p = p and hs = hs and ip = ip' and its = its]
  have "hash_ok k ?ht'" if h: "hash_ok k ht"
  proof (rule hash_okI)
    have pk: "\<not> f_packed ht" using h by (simp add: hash_ok_def)
    have nx: "map_option b_next (bucket_in (arData ?ht') j) = map_option b_next (bucket_in d j)" for j
      using bucket_in_length [OF d(6)] d(6) by auto
    have ids': "slot_ids (slot_of ht) (arData ?ht') u s = filter (\<lambda>j. j \<noteq> i) (slot_ids (slot_of ht) (arData ht) ?n s)" for s
      by (rule filter_slot_ids [OF r(4) trim(2)]) (use trim(3) d(4) in auto)
    have "chains (slot_of ht) (arData ?ht') hs u"
      using d(7) pk unfolding chains_def ids' linked_cong [OF nx] by simp
    then show "chains (slot_of ?ht') (arData ?ht') (arHash ?ht') (unat (nNumUsed ?ht'))" using r(3) by simp
    show "contents_ok k ?ht'" by (rule r)
  qed (use hash_okD [OF h] d(3) in simp_all)
  moreover have "packed_ok k ?ht'" if h: "packed_ok k ht"
  proof -
    have "\<forall>j<u. \<forall>v g key. held (arData ?ht') j = Some (v, g, key) \<longrightarrow> g = word_of_nat j \<and> key = None"
    proof (intro allI impI)
      fix j v g key assume j: "j < u" "held (arData ?ht') j = Some (v, g, key)"
      then have "held (arData ht) j = Some (v, g, key)" using r(4) [of j] by (simp split: if_splits)
      then show "g = word_of_nat j \<and> key = None" using packed_okD(3) [OF h, of j] j(1) trim(2) by simp
    qed
    then show ?thesis using h d(7) r(1,3) unfolding packed_ok_def by simp
  qed
  ultimately have ok: "ht_ok ?ht'" using m by (auto simp: ht_ok_def)
  have "ht_list ?ht' = AList.delete (entry_key ?e) (ht_list ht)"
    using AList_delete_at [OF _ elems_at [OF i(1) e] r(2)] c by (simp add: contents_ok_def)
  moreover have "zend_hash_del_el_ex ht (word_of_nat i) prev = Some (log_event (dtor_events ht (b_val p)) ?ht')"
    using i(2) w d(1) adv trim(1) bucket_in_length [OF d(6)]
    by (simp add: zend_hash_del_el_ex_def put_bucket_log) (simp add: put_bucket_def dtor_events_def log_event_def)
  ultimately show ?thesis using ok by simp
qed

text \<open>A match of the search is the bucket of the key, with its neighbour in the chain.\<close>

lemma del_match_ok:
  assumes ok: "ht_ok ht" and np: "\<not> f_packed ht \<or> (\<exists>s. q = Str s)"
    and P: "\<And>x e. x < unat (nNumUsed ht) \<Longrightarrow> held (arData ht) x = Some e \<Longrightarrow> entry_ok e \<Longrightarrow>
      P x = (key_at (arData ht) x = Some q)"
  shows "\<exists>xs. linked (arData ht) (arHash ht ! slot_of ht (key_hash q)) xs \<and> cells_ok ht \<and>
    (case first_match P None xs of
       None \<Rightarrow> index_of ht q = None
     | Some (prev, idx) \<Rightarrow> index_of ht q \<noteq> None \<and> (\<exists>ht'. zend_hash_del_el_ex ht idx prev = Some ht' \<and> ht_ok ht' \<and>
         ht_list ht' = AList.delete q (ht_list ht)))"
proof -
  obtain xs where xs: "linked (arData ht) (arHash ht ! slot_of ht (key_hash q)) xs"
    "\<forall>x\<in>set xs. x < unat (nNumUsed ht) \<and> (\<exists>e. held (arData ht) x = Some e \<and> entry_ok e)"
    "List.find (\<lambda>i. key_at (arData ht) i = Some q) xs = index_of ht q" "cells_ok ht"
    "xs = (if f_packed ht \<or> f_uninitialized ht then []
       else slot_ids (slot_of ht) (arData ht) (unat (nNumUsed ht)) (slot_of ht (key_hash q)))"
    using key_chain [OF ok, of q] np by metis
  have f: "List.find P xs = index_of ht q"
    using find_cong_set [of xs P "\<lambda>i. key_at (arData ht) i = Some q"] P xs(2,3) by metis
  show ?thesis
  proof (cases "first_match P None xs")
    case None
    then show ?thesis using xs(1,4) f first_match_cases(2) [OF refl refl, of P None xs] by auto
  next
    case (Some r)
    obtain prev idx where r: "r = (prev, idx)" by force
    obtain ys x zs where sp: "xs = ys @ x # zs" "idx = word_of_nat x" "P x" "List.find P xs = Some x"
      "prev = (if ys = [] then None else Some (word_of_nat (last ys)))"
      using first_match_split Some [unfolded r] by blast
    have ix: "index_of ht q = Some x" using f sp(4) by simp
    obtain k w h s b where c: "x < unat (nNumUsed ht)" "held (arData ht) x = Some (w, h, s)"
      "bucket_in (arData ht) x = Some b" "entry_key (w, h, s) = q" "hash_ok k ht \<or> packed_ok k ht"
      using index_of_held [OF ok ix] by metis
    have b: "b_val b = w" "b_h b = h" "b_key b = s" "w \<noteq> IS_UNDEF"
      using c(2,3) by (auto simp: held_of_bucket split: if_splits)
    have "entry_ok (w, h, s)" using xs(2) sp(1) c(2) by (auto simp del: entry_ok.simps)
    then have h: "b_h b = key_hash q" using c(4) b(2) by simp
    have "f_packed ht \<Longrightarrow> xs = []" using xs(5) by simp
    then have ids: "slot_ids (slot_of ht) (arData ht) (unat (nNumUsed ht)) (slot_of ht (b_h b)) = ys @ x # zs"
      using xs(5) sp(1) h by (simp split: if_splits)
    from del_el_ok [OF c(5,1,3) _ ids sp(5)] show ?thesis
      using Some r sp(2) xs(1,4) ix b c(4) by (intro exI [of _ xs]) simp
  qed
qed

lemma str_del_ok:
  assumes "ht_ok ht"
  shows "\<exists>ht'. zend_hash_str_del ht s = Some (Str s \<in> fst ` set (ht_list ht), ht') \<and> ht_ok ht' \<and>
    ht_list ht' = AList.delete (Str s) (ht_list ht)"
proof -
  let ?P = "\<lambda>x. fst (match_str s (zend_hash_func s) (the (bucket_in (arData ht) x)))"
  have "?P x = (key_at (arData ht) x = Some (Str s))" if "held (arData ht) x = Some e" "entry_ok e" for x e
    using that match_str_iff held_bucket by (metis option.sel)
  then obtain xs where xs: "linked (arData ht) (arHash ht ! slot_of ht (key_hash (Str s))) xs" "cells_ok ht"
    "case first_match ?P None xs of
       None \<Rightarrow> index_of ht (Str s) = None
     | Some (prev, idx) \<Rightarrow> index_of ht (Str s) \<noteq> None \<and> (\<exists>ht'. zend_hash_del_el_ex ht idx prev = Some ht' \<and> ht_ok ht' \<and>
         ht_list ht' = AList.delete (Str s) (ht_list ht))"
    using del_match_ok [OF assms, of "Str s" ?P] by blast
  obtain calls where "search_chain (match_str s (zend_hash_func s)) (arData ht) None
      (arHash ht ! slot_of ht (key_hash (Str s))) [] = Some (first_match ?P None xs, calls)"
    using search_chain_eq [OF xs(1)] by blast
  moreover have "zend_inline_hash_func s = zend_hash_func s" by (simp add: zend_hash_func_def)
  ultimately show ?thesis
    using xs(3) assms HT_HASH_eq [OF xs(2)] index_of_None [of ht "Str s"] delete_idem [of "Str s" "ht_list ht"]
    by (auto simp: zend_hash_str_del_def Let_def split: option.splits)
qed

lemma key_del_ok:
  assumes ok: "ht_ok ht" and key: "zstr_ok key" "addr_ok ht key"
  shows "\<exists>ht'. zend_hash_del ht key = Some (Str (zs_val key) \<in> fst ` set (ht_list ht), ht') \<and> ht_ok ht' \<and>
    ht_list ht' = AList.delete (Str (zs_val key)) (ht_list ht)"
proof -
  let ?key = "key\<lparr>zs_h := zend_hash_func (zs_val key)\<rparr>" and ?q = "Str (zs_val key)"
  let ?P = "\<lambda>x. fst (match_key ?key (the (bucket_in (arData ht) x)))"
  have hv: "zend_string_hash_val key = ?key" by (rule zend_string_hash_val_ok [OF key(1)])
  have P: "?P x = (key_at (arData ht) x = Some ?q)"
    if x: "x < unat (nNumUsed ht)" "held (arData ht) x = Some e" "entry_ok e" for x e
  proof -
    obtain b where b: "bucket_in (arData ht) x = Some b" using held_bucket [OF x(2)] by blast
    have "fst (match_key ?key b) = same_key ?key b" by (simp add: match_key_def same_key_def)
    also have "\<dots> = (key_at (arData ht) x = Some (Str (zs_val ?key)))"
      using addr_okD [OF key(2) x(1,2) b] by (intro same_key_iff [OF b x(2,3)]) simp_all
    finally show ?thesis using b by simp
  qed
  obtain xs0 where xs0: "linked (arData ht) (arHash ht ! slot_of ht (key_hash ?q)) xs0" "cells_ok ht"
    using key_chain [OF ok, of ?q] by blast
  obtain calls where calls: "search_chain (match_key ?key) (arData ht) None
      (arHash ht ! slot_of ht (key_hash ?q)) [] = Some (first_match ?P None xs0, calls)"
    using search_chain_eq [OF xs0(1)] by blast
  let ?ht = "log_event (map Hook calls) ht"
  have f: "arData ?ht = arData ht" "arHash ?ht = arHash ht" "nTableMask ?ht = nTableMask ht" "nNumUsed ?ht = nNumUsed ht"
    by (simp_all add: log_event_def)
  obtain xs where xs: "linked (arData ht) (arHash ht ! slot_of ht (key_hash ?q)) xs"
    "case first_match ?P None xs of
       None \<Rightarrow> index_of ht ?q = None
     | Some (prev, idx) \<Rightarrow> index_of ht ?q \<noteq> None \<and> (\<exists>ht'. zend_hash_del_el_ex ?ht idx prev = Some ht' \<and> ht_ok ht' \<and>
         ht_list ht' = AList.delete ?q (ht_list ht))"
    using del_match_ok [of ?ht ?q ?P] P ok unfolding f log_event_frame by blast
  have "search_chain (match_key ?key) (arData ht) None (arHash ht ! slot_of ht (key_hash ?q)) [] =
      Some (first_match ?P None xs, calls)"
    using search_chain_eq [OF xs(1), of "match_key ?key" None "[]"] calls by auto
  then show ?thesis
    using xs(2) ok HT_HASH_eq [OF xs0(2)] index_of_None [of ht ?q] delete_idem [of ?q "ht_list ht"]
    by (auto simp: zend_hash_del_def Let_def hv split: option.splits)
qed

lemma packed_del_ok:
  assumes k: "packed_ok k ht"
  shows "\<exists>ht'. zend_hash_index_del ht h = Some (Idx h \<in> fst ` set (ht_list ht), ht') \<and> ht_ok ht' \<and>
    ht_list ht' = AList.delete (Idx h) (ht_list ht)"
proof -
  note ix = packed_index_of [OF k, of h] and none = index_of_None [of ht "Idx h"]
  have pk: "f_packed ht" by (rule packed_okD [OF k])
  have ok: "ht_ok ht" by (rule packed_is_ok [OF k])
  show ?thesis
  proof (cases "unat h < unat (nNumUsed ht) \<and> held (arData ht) (unat h) \<noteq> None")
    case True
    then obtain p where p: "bucket_in (arData ht) (unat h) = Some p" "b_val p \<noteq> IS_UNDEF"
      by (auto simp: held_def split: option.splits if_splits)
    have w: "(ucast h :: u32) = word_of_nat (unat h)" by (simp add: word_of_nat_eq_iff unsigned_ucast_eq)
    have held: "held (arData ht) (unat h) = Some (b_val p, b_h p, b_key p)" using p by (simp add: held_of_bucket)
    then have "b_key p = None" "b_h p = word_of_nat (unat h)" using packed_okD(3) [OF k] True by blast+
    then have e: "entry_key (b_val p, b_h p, b_key p) = Idx h" by simp
    have "index_of ht (Idx h) \<noteq> None" by (simp only: ix if_P [OF True]) simp
    then have "Idx h \<in> fst ` set (ht_list ht)" by (simp only: none not_not)
    moreover have "\<exists>ht'. zend_hash_del_el_ex ht (word_of_nat (unat h)) None = Some ht' \<and> ht_ok ht' \<and>
        ht_list ht' = AList.delete (entry_key (b_val p, b_h p, b_key p)) (ht_list ht)"
      by (rule del_el_ok [OF disjI2 [OF k] conjunct1 [OF True] p]) (simp_all add: pk)
    then obtain ht' where "zend_hash_del_el_ex ht (ucast h) None = Some ht'" "ht_ok ht'"
      "ht_list ht' = AList.delete (Idx h) (ht_list ht)"
      unfolding e w by (elim exE conjE)
    ultimately show ?thesis using True p pk by (simp add: zend_hash_index_del_def u64_less)
  next
    case False
    have "index_of ht (Idx h) = None" by (simp only: ix if_not_P [OF False])
    then have out: "Idx h \<notin> fst ` set (ht_list ht)" by (simp only: none simp_thms)
    have "zend_hash_index_del ht h = Some (False, ht)"
    proof (cases "unat h < unat (nNumUsed ht)")
      case True
      have "bucket_in (arData ht) (unat h) \<noteq> None" using packed_okD(1) [OF k] True by (simp add: contents_ok_def)
      then obtain p where "bucket_in (arData ht) (unat h) = Some p" by blast
      then show ?thesis using True False pk by (simp add: zend_hash_index_del_def u64_less held_of_bucket split: if_splits)
    next
      case False
      then show ?thesis using pk by (simp add: zend_hash_index_del_def u64_less)
    qed
    then show ?thesis using out ok by (simp add: delete_idem)
  qed
qed

lemma hash_index_del_ok:
  assumes "ht_ok ht" "\<not> f_packed ht"
  shows "\<exists>ht'. zend_hash_index_del ht h = Some (Idx h \<in> fst ` set (ht_list ht), ht') \<and> ht_ok ht' \<and>
    ht_list ht' = AList.delete (Idx h) (ht_list ht)"
proof -
  let ?P = "\<lambda>x. fst (match_index h (the (bucket_in (arData ht) x)))"
  have "?P x = (key_at (arData ht) x = Some (Idx h))" if "held (arData ht) x = Some e" for x e
    using that match_index_iff held_bucket by (metis option.sel)
  then obtain xs where xs: "linked (arData ht) (arHash ht ! slot_of ht (key_hash (Idx h))) xs" "cells_ok ht"
    "case first_match ?P None xs of
       None \<Rightarrow> index_of ht (Idx h) = None
     | Some (prev, idx) \<Rightarrow> index_of ht (Idx h) \<noteq> None \<and> (\<exists>ht'. zend_hash_del_el_ex ht idx prev = Some ht' \<and> ht_ok ht' \<and>
         ht_list ht' = AList.delete (Idx h) (ht_list ht))"
    using del_match_ok [OF assms(1), of "Idx h" ?P] assms(2) by blast
  obtain calls where "search_chain (match_index h) (arData ht) None
      (arHash ht ! slot_of ht (key_hash (Idx h))) [] = Some (first_match ?P None xs, calls)"
    using search_chain_eq [OF xs(1)] by blast
  then show ?thesis
    using xs(3) assms HT_HASH_eq [OF xs(2)] index_of_None [of ht "Idx h"] delete_idem [of "Idx h" "ht_list ht"]
    by (auto simp: zend_hash_index_del_def split: option.splits)
qed

lemma index_del_ok:
  assumes "ht_ok ht"
  shows "\<exists>ht'. zend_hash_index_del ht h = Some (Idx h \<in> fst ` set (ht_list ht), ht') \<and> ht_ok ht' \<and>
    ht_list ht' = AList.delete (Idx h) (ht_list ht)"
proof (cases "f_packed ht")
  case True
  then obtain k where "packed_ok k ht" using assms by (auto simp: ht_ok_def hash_ok_def fresh_ok_def)
  then show ?thesis by (rule packed_del_ok)
qed (use hash_index_del_ok [OF assms] in blast)

end
