(* ===== verification/Zend_Hash_Store.thy ===== *)
theory Zend_Hash_Store
  imports Zend_Hash_Delete
begin

text \<open>
  The properties of the arrays of PHP. They are ordered maps from strings and integers to values,
  and a keyed store; the hooks report every string lookup once, with what it found. The last
  section shows what the code does not get right: iterators at a rehash, the iterator count at
  the first insertion, the largest tables, and the double report of indirect lookups.
\<close>

subsection \<open>Lookups\<close>

lemma found_value:
  assumes "ht_ok ht" "index_of ht q = r"
  shows "map_of (ht_list ht) q = (case map_option word_of_nat r of
    Some idx \<Rightarrow> map_option b_val (bucket_in (arData ht) (unat (idx :: u32))) | None \<Rightarrow> None)"
proof (cases r)
  case None
  then show ?thesis using assms(2) by (simp add: index_of_None map_of_eq_None_iff)
next
  case (Some i)
  obtain k w h s b where c: "contents_ok k ht" "i < unat (nNumUsed ht)" "bucket_in (arData ht) i = Some b"
    using index_of_held [OF assms(1), of q i] assms(2) Some by metis
  have "unat (word_of_nat i :: u32) = i"
    using c(2) unat_u32_less [of "nNumUsed ht"] by (intro unat_of_nat32) simp
  then show ?thesis
    using map_of_ht_list [of ht q i b] assms(2) Some c by (simp add: contents_ok_def)
qed

text \<open>C7: a lookup by string finds the value of the key, in a packed, a hash or an empty table, and
  reports itself: after the comparisons that it makes, exactly one call says that the key was
  accessed, or that it was looked for and is not there. Strings at the same address are the same.\<close>

theorem zend_hash_find_correct:
  assumes "ht_ok ht" "zstr_ok key" "addr_ok ht key"
  shows "\<exists>r calls. zend_hash_find ht key =
      Some (r, log_event (map Hook (calls @ [lookup_report (zs_val key) r])) ht) \<and> only_cmp calls \<and>
    map_of (ht_list ht) (Str (zs_val key)) = (case r of
      Some idx \<Rightarrow> map_option b_val (bucket_in (arData ht) (unat idx)) | None \<Rightarrow> None)"
proof -
  let ?r = "index_of ht (Str (zs_val key))"
  obtain calls where "zend_hash_find_bucket ht key False = Some (map_option word_of_nat ?r,
      log_event (map Hook (calls @ [lookup_report (zs_val key) ?r])) ht)" "only_cmp calls"
    using find_bucket_ok [OF assms] by blast
  moreover have "lookup_report (zs_val key) (map_option word_of_nat ?r :: u32 option) = lookup_report (zs_val key) ?r"
    by (cases ?r) (simp_all add: lookup_report_def)
  ultimately show ?thesis
    using found_value [OF assms(1) refl, of "Str (zs_val key)"]
    by (intro exI [of _ "map_option word_of_nat ?r"] exI [of _ calls]) (simp add: zend_hash_find_def)
qed

text \<open>The three accesses by a key of either kind.\<close>

definition array_get :: "hkey \<Rightarrow> 'v hashtable \<Rightarrow> 'v zval option option" where
  "array_get q ht =
     do { r \<leftarrow> (case q of Str s \<Rightarrow> map_option fst (zend_hash_str_find ht s) | Idx h \<Rightarrow> zend_hash_index_find ht h);
          Some (case r of Some idx \<Rightarrow> map_option b_val (bucket_in (arData ht) (unat idx)) | None \<Rightarrow> None) }"

definition array_put :: "nat \<Rightarrow> hkey \<Rightarrow> 'v zval \<Rightarrow> 'v hashtable \<Rightarrow> 'v hashtable option" where
  "array_put a q v ht =
     map_option snd (case q of Str s \<Rightarrow> zend_hash_str_update a ht s v | Idx h \<Rightarrow> zend_hash_index_update ht h v)"

definition array_del :: "hkey \<Rightarrow> 'v hashtable \<Rightarrow> (bool \<times> 'v hashtable) option" where
  "array_del q ht = (case q of Str s \<Rightarrow> zend_hash_str_del ht s | Idx h \<Rightarrow> zend_hash_index_del ht h)"

lemma ht_okD:
  assumes "ht_ok ht"
  shows "unat (nNumOfElements ht) = length (ht_elems ht)" "m < unat (nNumUsed ht) \<Longrightarrow> bucket_in (arData ht) m \<noteq> None"
    "distinct (map fst (ht_list ht))"
proof -
  have e: "map fst (ht_list ht) = map entry_key (ht_elems ht)" by (simp add: ht_list_def)
  have "unat (nNumOfElements ht) = length (ht_elems ht) \<and> (\<forall>m<unat (nNumUsed ht). bucket_in (arData ht) m \<noteq> None) \<and>
      distinct (map fst (ht_list ht))"
  proof (rule ht_okE [OF assms])
    fix k assume "fresh_ok k ht" "ht_elems ht = []"
    then show ?thesis unfolding e by (simp add: fresh_ok_def)
  next
    fix k assume "hash_ok k ht" and c: "contents_ok k ht"
    show ?thesis unfolding e using c contents_bounds(4) [OF c] by (simp add: contents_ok_def)
  next
    fix k assume "packed_ok k ht" and c: "contents_ok k ht"
    show ?thesis unfolding e using c contents_bounds(4) [OF c] by (simp add: contents_ok_def)
  qed
  then show "unat (nNumOfElements ht) = length (ht_elems ht)" "m < unat (nNumUsed ht) \<Longrightarrow> bucket_in (arData ht) m \<noteq> None"
    "distinct (map fst (ht_list ht))" by simp_all
qed

lemma index_find_ok:
  assumes "ht_ok ht"
  shows "zend_hash_index_find ht h = Some (map_option word_of_nat (index_of ht (Idx h)))"
proof (cases "f_packed ht")
  case False
  then show ?thesis using index_find_eq [OF assms False, of h] by (simp add: zend_hash_index_find_def)
next
  case True
  then obtain k where k: "packed_ok k ht" using assms by (auto simp: ht_ok_def hash_ok_def fresh_ok_def)
  have w: "word_of_nat (unat h) = (ucast h :: u32)" by (simp add: word_of_nat_eq_iff unsigned_ucast_eq)
  show ?thesis
  proof (cases "unat h < unat (nNumUsed ht)")
    case less: True
    then obtain p where "bucket_in (arData ht) (unat h) = Some p" using ht_okD(2) [OF assms] by blast
    then show ?thesis using True less packed_index_of [OF k, of h]
      by (simp add: zend_hash_index_find_def u64_less held_of_bucket w)
  next
    case False
    then show ?thesis using True packed_index_of [OF k, of h] by (simp add: zend_hash_index_find_def u64_less)
  qed
qed

lemma array_get_ok:
  assumes "ht_ok ht"
  shows "array_get q ht = Some (map_of (ht_list ht) q)"
proof (cases q)
  case (Str s)
  have "zend_inline_hash_func s = zend_hash_func s" by (simp add: zend_hash_func_def)
  then show ?thesis
    using str_find_eq [OF assms, of s] found_value [OF assms refl, of q] Str
    by (simp add: array_get_def zend_hash_str_find_def)
next
  case (Idx h)
  then show ?thesis using index_find_ok [OF assms, of h] found_value [OF assms refl, of q] by (simp add: array_get_def)
qed

lemma array_put_ok:
  assumes "ht_ok ht" "ht_small ht" "v \<noteq> IS_UNDEF"
  shows "\<exists>ht'. array_put a q v ht = Some ht' \<and> ht_ok ht' \<and> ht_list ht' = AList.update q v (ht_list ht)"
proof (cases q)
  case (Str s)
  then show ?thesis using str_update_ok [OF assms, of a s] by (auto simp: array_put_def)
next
  case (Idx h)
  then show ?thesis using index_update_ok [OF assms, of h] by (auto simp: array_put_def)
qed

lemma array_del_ok:
  assumes "ht_ok ht"
  shows "\<exists>ht'. array_del q ht = Some (q \<in> fst ` set (ht_list ht), ht') \<and> ht_ok ht' \<and>
    ht_list ht' = AList.delete q (ht_list ht)"
proof (cases q)
  case (Str s)
  then show ?thesis using str_del_ok [OF assms, of s] by (simp add: array_del_def)
next
  case (Idx h)
  then show ?thesis using index_del_ok [OF assms, of h] by (simp add: array_del_def)
qed

subsection \<open>Updates and deletions\<close>

text \<open>C6: an update by string or by integer makes the table the updated ordered map. The value of a
  key that is there is replaced in its place, a new key goes to the end, every other element and
  the order stay, whether the table had to be initialised, grown, compacted or turned from packed
  into a hash table on the way; the lookup of the key then gives the value.\<close>

theorem zend_hash_put_correct:
  assumes "ht_ok ht" "ht_small ht" "v \<noteq> IS_UNDEF"
  shows "\<exists>ht'. array_put a q v ht = Some ht' \<and> ht_ok ht' \<and> ht_list ht' = AList.update q v (ht_list ht) \<and>
    array_get q ht' = Some (Some v)"
proof -
  obtain ht' where "array_put a q v ht = Some ht'" "ht_ok ht'" "ht_list ht' = AList.update q v (ht_list ht)"
    using array_put_ok [OF assms] by blast
  then show ?thesis using array_get_ok [of ht' q] by (simp add: update_conv')
qed

text \<open>Adding a string that is there changes nothing and returns \<open>NULL\<close>; adding a new one, and
  inserting without a key, append, the latter under the next free integer, which fails when that
  integer is taken.\<close>

theorem zend_hash_add_correct:
  assumes "ht_ok ht" "ht_small ht" "zstr_ok key" "addr_ok ht key" "v \<noteq> IS_UNDEF"
  shows "(\<exists>r ht'. zend_hash_add ht key v = Some (r, ht') \<and> ht_ok ht' \<and>
      (if Str (zs_val key) \<in> fst ` set (ht_list ht) then r = None \<and> ht_list ht' = ht_list ht
       else r \<noteq> None \<and> ht_list ht' = ht_list ht @ [(Str (zs_val key), v)])) \<and>
    (\<exists>r ht'. zend_hash_next_index_insert ht v = Some (r, ht') \<and> ht_ok ht' \<and>
      (if Idx (nNextFreeElement ht) \<in> fst ` set (ht_list ht) then r = None \<and> ht_list ht' = ht_list ht
       else r \<noteq> None \<and> ht_list ht' = ht_list ht @ [(Idx (nNextFreeElement ht), v)]))"
  using add_ok [OF assms] next_index_insert_ok [OF assms(1,2,5)] by blast

text \<open>C15: a deletion removes the key, keeps the others in their order, and says whether the key was
  there; afterwards it is not found.\<close>

theorem zend_hash_del_correct:
  assumes "ht_ok ht"
  shows "\<exists>ht'. array_del q ht = Some (q \<in> fst ` set (ht_list ht), ht') \<and> ht_ok ht' \<and>
    ht_list ht' = AList.delete q (ht_list ht) \<and> array_get q ht' = Some None"
proof -
  obtain ht' where "array_del q ht = Some (q \<in> fst ` set (ht_list ht), ht')" "ht_ok ht'"
    "ht_list ht' = AList.delete q (ht_list ht)"
    using array_del_ok [OF assms] by blast
  then show ?thesis using array_get_ok [of ht' q] by (simp add: delete_conv')
qed

subsection \<open>Sequences of operations\<close>

text \<open>The arrays are a keyed store, as the hash maps of the agent are. A value to put is defined, and
  the table has room to grow.\<close>

definition store_put :: "nat \<Rightarrow> hkey \<Rightarrow> 'v zval \<Rightarrow> 'v hashtable \<Rightarrow> 'v hashtable option" where
  "store_put a q v ht = (if v = IS_UNDEF \<or> \<not> ht_small ht then None else array_put a q v ht)"

definition store_del :: "hkey \<Rightarrow> 'v hashtable \<Rightarrow> 'v hashtable option" where
  "store_del q ht = map_option snd (array_del q ht)"

interpretation zh: keyed_store ht_ok "\<lambda>ht. map_of (ht_list ht)" "\<lambda>q. q" "store_put a" store_del for a
proof (unfold_locales)
  fix s s' :: "'v hashtable" and q v assume "ht_ok s" "store_put a q v s = Some s'"
  then have "ht_ok s' \<and> ht_list s' = AList.update q v (ht_list s)"
    using array_put_ok [of s v a q] by (auto simp: store_put_def split: if_splits)
  then show "ht_ok s'" "map_of (ht_list s') = (map_of (ht_list s))(q \<mapsto> v)" by (simp_all add: update_conv')
next
  fix s :: "'v hashtable" and q assume "ht_ok s"
  then show "\<exists>s'. store_del q s = Some s' \<and> ht_ok s' \<and> map_of (ht_list s') = (map_of (ht_list s))(q := None)"
    using array_del_ok [of s q] by (auto simp: store_del_def delete_conv')
qed

text \<open>Whatever operations come before and whatever other keys are written or removed after it, the
  last value that was written to a key is the one a lookup finds.\<close>

theorem zend_hash_last_put_wins:
  assumes "ht_ok ht" and "run_ops (store_put a) store_del (xs @ Put q v # ys) ht = Some ht'"
    and "q \<notin> keys_touched (\<lambda>q. q) ys"
  shows "array_get q ht' = Some (Some v)"
proof -
  have "ht_ok ht'" using zh.run_ops_refines [OF assms(1,2)] by blast
  then show ?thesis using array_get_ok [of ht' q] zh.last_put_wins [OF assms] by simp
qed

end
