(* ===== verification/Zend_Hash_Sizes.thy ===== *)
theory Zend_Hash_Sizes
  imports Zend_Hash_Store
begin

text \<open>
  The sizes of the tables: both versions of the function that rounds a size up to a power of two
  agree and give the least one; the largest sizes leave a table whose hash part cannot be used.
\<close>

subsection \<open>Sizes\<close>

lemma top_bit:
  fixes w :: u32
  assumes "w \<noteq> 0"
  obtains t where "t < 32" "bit w t" "\<And>j. t < j \<Longrightarrow> \<not> bit w j"
proof -
  have fin: "finite {j. bit w j}" by (rule finite_subset [of _ "{..<32}"]) (auto dest: bit_imp_le_length)
  have ne: "{j. bit w j} \<noteq> {}" using assms by (auto simp: bit_eq_iff)
  let ?t = "Max {j. bit w j}"
  have "bit w ?t" using Max_in [OF fin ne] by simp
  moreover have "\<not> bit w j" if "?t < j" for j using Max_ge [OF fin, of j] that by (metis leD mem_Collect_eq)
  moreover have "?t < 32" using bit_imp_le_length [OF \<open>bit w ?t\<close>] by simp
  ultimately show thesis using that by blast
qed

lemma upt_split: "t < n \<Longrightarrow> [0..<n] = [0..<t] @ t # [Suc t..<n]"
  using upt_add_eq_append [of 0 t "n - t"] by (simp add: upt_conv_Cons)

lemma clz_top:
  assumes "t < 32" "bit w t" "\<And>j. t < j \<Longrightarrow> \<not> bit w j"
  shows "builtin_clz w = 31 - t"
proof -
  have "rev [0..<32] = rev [Suc t..<32] @ t # rev [0..<t]" by (simp only: upt_split [OF assms(1)] rev_append rev.simps append.simps append_assoc)
  moreover have "takeWhile (\<lambda>i. \<not> bit w i) (rev [Suc t..<32] @ t # rev [0..<t]) = rev [Suc t..<32]"
    using assms(2,3) by (subst takeWhile_append2) auto
  ultimately show ?thesis by (simp only: builtin_clz_def length_rev length_upt)
qed

lemma xor_31: "t < 32 \<Longrightarrow> unat ((word_of_nat (31 - t) :: u32) XOR 0x1f) = t"
proof -
  have "\<forall>t\<in>set [0..<32]. unat ((word_of_nat (31 - t) :: u32) XOR 0x1f) = t" by code_simp
  then show "t < 32 \<Longrightarrow> ?thesis" by simp
qed

text \<open>Or-ing with the shifted word doubles how far the bits are spread.\<close>

lemma ex_less_double:
  fixes n :: nat
  shows "(\<exists>d<2 * n. P d) \<longleftrightarrow> (\<exists>d<n. P d) \<or> (\<exists>d<n. P (n + d))"
proof
  assume "\<exists>d<2 * n. P d"
  then obtain d where d: "d < 2 * n" "P d" by blast
  show "(\<exists>d<n. P d) \<or> (\<exists>d<n. P (n + d))"
  proof (cases "d < n")
    case False
    then have "d - n < n" "P (n + (d - n))" using d by simp_all
    then show ?thesis by metis
  qed (use d in metis)
next
  assume "(\<exists>d<n. P d) \<or> (\<exists>d<n. P (n + d))"
  then obtain d where "d < n" "P d \<or> P (n + d)" by metis
  moreover from this have "d < 2 * n" "n + d < 2 * n" by simp_all
  ultimately show "\<exists>d<2 * n. P d" by metis
qed

lemma spread_step:
  assumes "\<And>i. bit (w :: u32) i \<longleftrightarrow> (\<exists>d<n. bit m (i + d))"
  shows "bit (w OR drop_bit n w) i \<longleftrightarrow> (\<exists>d<2 * n. bit m (i + d))"
proof -
  have "bit (w OR drop_bit n w) i \<longleftrightarrow> bit w i \<or> bit w (n + i)" by (simp add: bit_or_iff bit_drop_bit_eq)
  moreover have "n + i + d = i + (n + d)" for d by simp
  ultimately show ?thesis by (simp only: assms ex_less_double [of n "\<lambda>d. bit m (i + d)"])
qed

lemma spread_word:
  fixes m :: u32
  assumes that: "t < 32" "bit m t" "\<And>j. t < j \<Longrightarrow> \<not> bit m j"
  shows "(let n = m; n = n OR drop_bit 1 n; n = n OR drop_bit 2 n; n = n OR drop_bit 4 n;
    n = n OR drop_bit 8 n; n = n OR drop_bit 16 n in n) = mask (Suc t)"
proof -
  let ?n1 = "m OR drop_bit 1 m" let ?n2 = "?n1 OR drop_bit 2 ?n1" let ?n4 = "?n2 OR drop_bit 4 ?n2"
  let ?n8 = "?n4 OR drop_bit 8 ?n4" let ?n16 = "?n8 OR drop_bit 16 ?n8"
  have "bit m i \<longleftrightarrow> (\<exists>d<1. bit m (i + d))" for i by simp
  then have "bit ?n1 i \<longleftrightarrow> (\<exists>d<2. bit m (i + d))" for i using spread_step [of m 1 m i] by simp
  then have "bit ?n2 i \<longleftrightarrow> (\<exists>d<4. bit m (i + d))" for i using spread_step [of ?n1 2 m i] by simp
  then have "bit ?n4 i \<longleftrightarrow> (\<exists>d<8. bit m (i + d))" for i using spread_step [of ?n2 4 m i] by simp
  then have "bit ?n8 i \<longleftrightarrow> (\<exists>d<16. bit m (i + d))" for i using spread_step [of ?n4 8 m i] by simp
  then have b: "bit ?n16 i \<longleftrightarrow> (\<exists>d<32. bit m (i + d))" for i using spread_step [of ?n8 16 m i] by simp
  have "bit ?n16 i \<longleftrightarrow> i < Suc t" for i
  proof
    assume "bit ?n16 i"
    then obtain d where "bit m (i + d)" by (auto simp only: b)
    then show "i < Suc t" using that(3) [of "i + d"] by (cases "t < i + d") simp_all
  next
    assume "i < Suc t"
    then have "t - i < 32 \<and> bit m (i + (t - i))" using that(1,2) by simp
    then show "bit ?n16 i" unfolding b by blast
  qed
  then have "?n16 = mask (Suc t)" using that(1) by (intro bit_word_eqI) (simp add: bit_simps)
  then show ?thesis by (simp add: Let_def)
qed

lemma top_bit_bounds:
  fixes m :: u32
  assumes "bit m t" "\<And>j. t < j \<Longrightarrow> \<not> bit m j"
  shows "2 ^ t \<le> unat m" "unat m < 2 ^ Suc t"
proof -
  show "2 ^ t \<le> unat m"
  proof (rule ccontr)
    assume "\<not> 2 ^ t \<le> unat m"
    then have "take_bit t (unat m) = unat m" by (simp add: take_bit_nat_eq_self)
    then have "\<not> bit (unat m) t" by (metis bit_take_bit_iff less_irrefl)
    then show False using assms(1) bit_imp_le_length [of m t] by (simp add: bit_unsigned_iff)
  qed
  have "bit (take_bit (Suc t) (unat m)) i = bit (unat m) i" for i
    using assms(2) [of i] by (cases "t < i") (auto simp: bit_take_bit_iff bit_unsigned_iff)
  then have "take_bit (Suc t) (unat m) = unat m" by (intro bit_eqI) simp
  then show "unat m < 2 ^ Suc t" by (simp only: take_bit_nat_eq_self_iff)
qed

lemma check_size_value:
  assumes "8 < unat n" "unat n < 2 ^ 31"
  obtains k where "3 \<le> k" "k \<le> 31" "unat n \<le> 2 ^ k" "2 ^ (k - 1) < unat n"
    "zend_hash_check_size n = Some (2 ^ k)" "check_size_portable n = Some (2 ^ k)"
proof -
  let ?m = "n - 1"
  have n: "\<not> n \<le> 8" "\<not> 0x80000000 \<le> n" using assms by (simp_all add: word_le_nat_alt)
  have m: "unat ?m = unat n - 1" using assms(1) by (intro unat_minus_one) auto
  then have "?m \<noteq> 0" using assms(1) by auto
  then obtain t where t: "t < 32" "bit ?m t" "\<And>j. t < j \<Longrightarrow> \<not> bit ?m j" using top_bit by blast
  note b = top_bit_bounds [OF t(2,3)]
  have "2 ^ t < (2 :: nat) ^ 31" using b(1) m assms(2) by linarith
  then have t31: "t < 31" by (simp only: power_strict_increasing_iff)
  have "2 ^ 3 < (2 :: nat) ^ Suc t" using b(2) m assms(1) by simp
  then have t3: "3 < Suc t" by (simp only: power_strict_increasing_iff)
  have s: "push_bit t 2 = (2 ^ Suc t :: u32)" by (simp add: push_bit_eq_mult)
  then have "mask (Suc t) + 1 = (2 ^ Suc t :: u32)" by (simp add: mask_eq_exp_minus_1)
  then have "check_size_portable n = Some (2 ^ Suc t)"
    using spread_word [OF t] n by (simp add: check_size_portable_def Let_def)
  moreover have "zend_hash_check_size n = Some (2 ^ Suc t)"
    using n by (simp only: zend_hash_check_size_def clz_top [OF t] xor_31 [OF t(1)] if_False s)
  moreover have "unat n \<le> 2 ^ Suc t" "2 ^ (Suc t - 1) < unat n" using b m assms(1) by auto
  ultimately show thesis using t31 t3 that [of "Suc t"] by simp
qed

text \<open>The version with the builtin and the portable version of the rounding agree on every size.
  Both give the least power of two that is not below the size and not below 8, and refuse exactly the
  sizes from $2^{31}$ on.\<close>

theorem zend_hash_check_size_correct:
  "zend_hash_check_size n = check_size_portable n \<and>
   (case zend_hash_check_size n of
      None \<Rightarrow> 2 ^ 31 \<le> unat n
    | Some s \<Rightarrow> \<exists>k. 3 \<le> k \<and> k \<le> 31 \<and> unat s = 2 ^ k \<and> unat n \<le> 2 ^ k \<and> (k = 3 \<or> 2 ^ (k - 1) < unat n))"
proof (cases "8 < unat n \<and> unat n < 2 ^ 31")
  case True
  then obtain k where k: "3 \<le> k" "k \<le> 31" "unat n \<le> 2 ^ k" "2 ^ (k - 1) < unat n"
    "zend_hash_check_size n = Some (2 ^ k)" "check_size_portable n = Some (2 ^ k)"
    using check_size_value [of n] by blast
  have "unat (2 ^ k :: u32) = 2 ^ k" using k(2) by (intro unat_exp32) simp
  then have "\<exists>k'. 3 \<le> k' \<and> k' \<le> 31 \<and> unat (2 ^ k :: u32) = 2 ^ k' \<and> unat n \<le> 2 ^ k' \<and> (k' = 3 \<or> 2 ^ (k' - 1) < unat n)"
    using k(1-4) by (intro exI [of _ k]) simp
  then show ?thesis by (simp only: k(5,6) option.case simp_thms)
next
  case False
  then show ?thesis
    by (auto simp: zend_hash_check_size_def check_size_portable_def word_le_nat_alt intro: exI [of _ 3])
qed

subsection \<open>New tables\<close>

lemma check_size_small:
  assumes "unat n \<le> 2 ^ 30"
  obtains k where "3 \<le> k" "k \<le> 30" "zend_hash_check_size n = Some (2 ^ k)"
proof (cases "8 < unat n")
  case True
  then obtain k where k: "3 \<le> k" "k \<le> 31" "2 ^ (k - 1) < unat n" "zend_hash_check_size n = Some (2 ^ k)"
    using check_size_value [of n] assms by auto
  then show thesis using that [of k] assms by (cases "k = 31") auto
next
  case False
  then show thesis using that [of 3] by (simp add: zend_hash_check_size_def word_le_nat_alt)
qed

lemma check_size_large:
  assumes "2 ^ 30 < unat n" "unat n < 2 ^ 31"
  shows "zend_hash_check_size n = Some 0x80000000"
proof -
  obtain k where k: "k \<le> 31" "unat n \<le> 2 ^ k" "zend_hash_check_size n = Some (2 ^ k)"
    using check_size_value [of n] assms by auto
  have "(2 :: nat) ^ 30 < 2 ^ k" using k(2) assms(1) by linarith
  then have "k = 31" using k(1) by (simp only: power_strict_increasing_iff)
  then show ?thesis using k(3) by simp
qed

lemma init_int_ok:
  assumes "unat n \<le> 2 ^ 30"
  shows "\<exists>ht. zend_hash_init_int n dtor persistent slots = Some ht \<and> ht_ok ht \<and> ht_list ht = []"
proof -
  obtain k where "3 \<le> k" "k \<le> 30" "zend_hash_check_size n = Some (2 ^ k)" using check_size_small [OF assms] .
  then show ?thesis
    by (auto simp: zend_hash_init_int_def ht_ok_def fresh_ok_def ht_list_def ht_elems_def)
qed

text \<open>Sizes in the upper half leave a hash part of no cells: the first lookup or insertion reads outside of it.\<close>

theorem zend_hash_largest_table_faults:
  assumes "2 ^ 30 < unat n" "unat n < 2 ^ 31"
  shows "\<exists>ht. zend_new_array n slots = Some ht \<and> nTableSize ht = 0x80000000 \<and>
    zend_hash_str_find (zend_hash_real_init_mixed_ex ht) str = None \<and>
    zend_hash_str_update a ht str v = None"
proof -
  show ?thesis
    by (simp add: zend_new_array_def zend_hash_init_int_def check_size_large [OF assms] zend_hash_real_init_mixed_ex_def Let_def
        zend_hash_str_find_def zend_hash_str_find_bucket_def HT_HASH_def HT_HASH_RESET_def HT_SIZE_TO_MASK_def
        nth_opt_def zend_hash_str_update_def zend_hash_str_add_or_update_i_def add_to_hash_def link_bucket_def
        dynamic_key_def)
qed

theorem zend_hash_largest_table_faults_witness:
  "\<exists>ht :: nat hashtable. zend_new_array 0x40000001 (\<lambda>_. IS_UNDEF) = Some ht \<and> nTableSize ht = 0x80000000 \<and>
    zend_hash_str_find (zend_hash_real_init_mixed_ex ht) [97] = None \<and>
    zend_hash_str_update 5 ht [97] (ZV 1) = None"
  using zend_hash_largest_table_faults [where n = "0x40000001" and slots = "\<lambda>_. IS_UNDEF" and str = "[97]" and
      a = 5 and v = "ZV (1 :: nat)"] by simp

end
