(* ===== verification/Zend_Hash_Examples.thy ===== *)
theory Zend_Hash_Examples
  imports Zend_Hash_Sizes
begin

text \<open>
  Concrete tables: the properties of the tables at work, and what a rehash does to an iterator.
\<close>

definition ex_table :: "nat hashtable" where
  "ex_table = the (array_put 1 (Idx 7) (ZV 20) (the (array_put 2 (Str [97, 98]) (ZV 10)
     (the (zend_new_array 8 (\<lambda>_. IS_UNDEF))))))"

abbreviation (input) ex_new :: "nat hashtable" where
  "ex_new \<equiv> the (zend_new_array 8 (\<lambda>_. IS_UNDEF))"

abbreviation (input) ex_one :: "nat hashtable" where
  "ex_one \<equiv> the (array_put 2 (Str [97, 98]) (ZV 10) ex_new)"

lemma ex_small: "ht_small ex_table" "ht_small ex_new" "ht_small ex_one"
  by code_simp+

lemma ex_new_ok: "ht_ok ex_new \<and> ht_list ex_new = []"
  using init_int_ok [of 8 True False "\<lambda>_. IS_UNDEF :: nat zval"] by (auto simp: zend_new_array_def)

lemma ex_table_ok: "ht_ok ex_table" "ht_list ex_table = [(Str [97, 98], ZV 10), (Idx 7, ZV 20)]"
proof -
  have "ht_ok ex_one \<and> ht_list ex_one = [(Str [97, 98], ZV 10)]"
    using array_put_ok [of ex_new "ZV 10" 2 "Str [97, 98]"] ex_small ex_new_ok by auto
  then have "ht_ok ex_table \<and> ht_list ex_table = [(Str [97, 98], ZV 10), (Idx 7, ZV 20)]"
    using array_put_ok [of ex_one "ZV 20" 1 "Idx 7"] ex_small by (auto simp: ex_table_def)
  then show "ht_ok ex_table" "ht_list ex_table = [(Str [97, 98], ZV 10), (Idx 7, ZV 20)]" by simp_all
qed

definition ex_key :: "u8 list \<Rightarrow> zend_string" where
  "ex_key s = \<lparr>zs_addr = 9, zs_h = 0, zs_val = s, zs_interned = False\<rparr>"

lemma ex_key_ok: "zstr_ok (ex_key s)" "addr_ok ex_table (ex_key s)"
proof -
  show "zstr_ok (ex_key s)" by (simp add: zstr_ok_def ex_key_def)
  have "list_all (\<lambda>(v, h, k). case k of Some t \<Rightarrow> zs_addr t \<noteq> 9 | None \<Rightarrow> True) (ht_elems ex_table)" by code_simp
  then show "addr_ok ex_table (ex_key s)"
    by (auto simp: addr_ok_def ex_key_def list_all_iff split: option.splits)
qed

theorem zend_hash_find_correct_witness:
  "\<exists>r calls. zend_hash_find ex_table (ex_key [97, 98]) = Some (r, log_event (map Hook (calls @
      [lookup_report [97, 98] r])) ex_table) \<and> only_cmp calls \<and>
    Some (ZV 10) = (case r of Some idx \<Rightarrow> map_option b_val (bucket_in (arData ex_table) (unat idx)) | None \<Rightarrow> None)"
  using zend_hash_find_correct [OF ex_table_ok(1) ex_key_ok, of "[97, 98]"] by (simp add: ex_table_ok(2) ex_key_def)

theorem zend_hash_put_correct_witness:
  "\<exists>ht'. array_put 3 (Str [97, 98]) (ZV 30) ex_table = Some ht' \<and> ht_ok ht' \<and>
    ht_list ht' = [(Str [97, 98], ZV 30), (Idx 7, ZV 20)] \<and> array_get (Str [97, 98]) ht' = Some (Some (ZV 30))"
  using zend_hash_put_correct [OF ex_table_ok(1) ex_small(1), of "ZV 30" 3 "Str [97, 98]"] by (simp add: ex_table_ok(2))

theorem zend_hash_add_correct_witness:
  "(\<exists>r ht'. zend_hash_add ex_table (ex_key [99]) (ZV 30) = Some (r, ht') \<and> ht_ok ht' \<and> r \<noteq> None \<and>
      ht_list ht' = [(Str [97, 98], ZV 10), (Idx 7, ZV 20), (Str [99], ZV 30)])"
  using zend_hash_add_correct [OF ex_table_ok(1) ex_small(1) ex_key_ok, of "ZV 30" "[99]"]
  by (simp add: ex_table_ok(2) ex_key_def)

theorem zend_hash_del_correct_witness:
  "\<exists>ht'. array_del (Idx 7) ex_table = Some (True, ht') \<and> ht_ok ht' \<and>
    ht_list ht' = [(Str [97, 98], ZV 10)] \<and> array_get (Idx 7) ht' = Some None"
  using zend_hash_del_correct [OF ex_table_ok(1), of "Idx 7"] by (simp add: ex_table_ok(2))

theorem zend_hash_last_put_wins_witness:
  "\<exists>ht'. run_ops (store_put 4) store_del [Put (Idx 5) (ZV 1), Put (Str [97]) (ZV 2), Remove (Idx 7)] ex_table = Some ht' \<and>
    array_get (Idx 5) ht' = Some (Some (ZV 1))"
proof -
  have "run_ops (store_put 4) store_del [Put (Idx 5) (ZV 1), Put (Str [97]) (ZV 2), Remove (Idx 7)] ex_table \<noteq> None"
    by code_simp
  then show ?thesis
    using zend_hash_last_put_wins [OF ex_table_ok(1), of 4 "[]" "Idx 5" "ZV 1" "[Put (Str [97]) (ZV 2), Remove (Idx 7)]"]
    by auto
qed

subsection \<open>Iterators\<close>

text \<open>\<open>iter_table\<close>: three strings of which the second is deleted, and an iterator on the first.\<close>

definition iter_table :: "nat hashtable" where
  "iter_table = (let ht = the (zend_new_array 8 (\<lambda>_. IS_UNDEF));
      ht = foldr (\<lambda>c ht. the (array_put 1 (Str [c]) (ZV (unat c)) ht)) [99, 98, 97] ht
    in (snd (the (array_del (Str [98]) ht)))\<lparr>nIteratorsCount := 1, ht_iters := [0]\<rparr>)"

text \<open>Closing the hole moves the iterator from the first element to the second one: it starts from
  the least position of an iterator, and not from the least one behind the hole.\<close>

theorem zend_hash_rehash_moves_iterator:
  "ht_list iter_table = [(Str [97], ZV 97), (Str [99], ZV 99)] \<and> ht_iters iter_table = [0] \<and>
   map_option (\<lambda>ht. (ht_list ht, ht_iters ht)) (zend_hash_rehash iter_table) = Some (ht_list iter_table, [1])"
  by code_simp
end
