(* ===== verification/Zend_Symtable.thy ===== *)
theory Zend_Symtable
  imports Zend_Hash_Store Pcov_State
begin

text \<open>
  Arrays as programs see them: the functions \<open>zend_symtable_*\<close> of \<open>php-7.4-patched/Zend/zend_hash.h\<close>,
  which turn the strings that are decimal numbers into integer keys, and the access to an
  element of an array, \<open>zend_fetch_dimension_address_inner\<close> of \<open>zend_execute.c\<close>, with its hooks.
\<close>

subsection \<open>Numeric strings\<close>

text \<open>A \<open>char\<close> of a string, which ends in a NUL.\<close>

definition char_at :: "bytes \<Rightarrow> nat \<Rightarrow> u8" where
  "char_at s i = (if i < length s then s ! i else 0)"

abbreviation (input) ZEND_LONG_MAX :: u64 where "ZEND_LONG_MAX \<equiv> 0x7FFFFFFFFFFFFFFF"
abbreviation (input) MAX_LENGTH_OF_LONG :: nat where "MAX_LENGTH_OF_LONG \<equiv> 20"

text \<open>The loop behind the first digit, and the checks at its end.\<close>

fun numeric_loop :: "bool \<Rightarrow> u64 \<Rightarrow> bytes \<Rightarrow> u64 option" where
  "numeric_loop neg idx [] =
     (if neg then (if idx - 1 > ZEND_LONG_MAX then None else Some (0 - idx))
      else if idx > ZEND_LONG_MAX then None else Some idx)"
| "numeric_loop neg idx (c # s) =
     (if c \<le>s 57 \<and> 48 \<le>s c then numeric_loop neg (idx * 10 + char_val (c - 48)) s else None)"

text \<open>\<open>None\<close> is the result 0. The function is not called for a string without a digit.\<close>

definition handle_numeric_str_ex :: "bytes \<Rightarrow> u64 option" where
  "handle_numeric_str_ex s =
     (let neg = char_at s 0 = 45; t = (if neg then tl s else s)
      in if char_at t 0 = 48 \<and> length s > 1 \<or> length t > MAX_LENGTH_OF_LONG - 1 then None
         else case t of [] \<Rightarrow> None | c # r \<Rightarrow> numeric_loop neg (char_val (c - 48)) r)"

definition handle_numeric_str :: "bytes \<Rightarrow> u64 option" where
  "handle_numeric_str s =
     (let c = char_at s 0
      in if 57 <s c then None
         else if c <s 48
         then (if c \<noteq> 45 then None
               else let d = char_at s 1
                    in if 57 <s d \<or> d <s 48 then None else handle_numeric_str_ex s)
         else handle_numeric_str_ex s)"

subsection \<open>Symbol tables\<close>

definition zend_symtable_add_new ::
    "'v hashtable \<Rightarrow> zend_string \<Rightarrow> 'v zval \<Rightarrow> (zval_ptr option \<times> 'v hashtable) option" where
  "zend_symtable_add_new ht key pData =
     (case handle_numeric_str (zs_val key) of
        Some idx \<Rightarrow> zend_hash_index_add_new ht idx pData
      | None \<Rightarrow> zend_hash_add_new ht key pData)"

definition zend_symtable_update ::
    "'v hashtable \<Rightarrow> zend_string \<Rightarrow> 'v zval \<Rightarrow> (zval_ptr option \<times> 'v hashtable) option" where
  "zend_symtable_update ht key pData =
     (case handle_numeric_str (zs_val key) of
        Some idx \<Rightarrow> zend_hash_index_update ht idx pData
      | None \<Rightarrow> zend_hash_update ht key pData)"

definition zend_symtable_update_ind ::
    "'v hashtable \<Rightarrow> zend_string \<Rightarrow> 'v zval \<Rightarrow> (zval_ptr option \<times> 'v hashtable) option" where
  "zend_symtable_update_ind ht key pData =
     (case handle_numeric_str (zs_val key) of
        Some idx \<Rightarrow> zend_hash_index_update ht idx pData
      | None \<Rightarrow> zend_hash_update_ind ht key pData)"

definition zend_symtable_del :: "'v hashtable \<Rightarrow> zend_string \<Rightarrow> (bool \<times> 'v hashtable) option" where
  "zend_symtable_del ht key =
     (case handle_numeric_str (zs_val key) of
        Some idx \<Rightarrow> zend_hash_index_del ht idx | None \<Rightarrow> zend_hash_del ht key)"

definition zend_symtable_del_ind :: "'v hashtable \<Rightarrow> zend_string \<Rightarrow> (bool \<times> 'v hashtable) option" where
  "zend_symtable_del_ind ht key =
     (case handle_numeric_str (zs_val key) of
        Some idx \<Rightarrow> zend_hash_index_del ht idx | None \<Rightarrow> zend_hash_del_ind ht key)"

text \<open>A lookup by integer reports nothing and leaves the table.\<close>

definition index_lookup :: "'v hashtable \<Rightarrow> u64 \<Rightarrow> (u32 option \<times> 'v hashtable) option" where
  "index_lookup ht idx = map_option (\<lambda>r. (r, ht)) (zend_hash_index_find ht idx)"

definition zend_symtable_find :: "'v hashtable \<Rightarrow> zend_string \<Rightarrow> (u32 option \<times> 'v hashtable) option" where
  "zend_symtable_find ht key =
     (case handle_numeric_str (zs_val key) of
        Some idx \<Rightarrow> index_lookup ht idx | None \<Rightarrow> zend_hash_find ht key)"

definition zend_symtable_find_ind ::
    "'v hashtable \<Rightarrow> zend_string \<Rightarrow> (zval_ptr option \<times> 'v hashtable) option" where
  "zend_symtable_find_ind ht key =
     (case handle_numeric_str (zs_val key) of
        Some idx \<Rightarrow> map_option (\<lambda>(r, ht). (map_option In_Bucket r, ht)) (index_lookup ht idx)
      | None \<Rightarrow> zend_hash_find_ind ht key)"

definition zend_symtable_exists :: "'v hashtable \<Rightarrow> zend_string \<Rightarrow> (bool \<times> 'v hashtable) option" where
  "zend_symtable_exists ht key =
     map_option (\<lambda>(r, ht). (r \<noteq> None, ht)) (zend_symtable_find ht key)"

definition zend_symtable_str_update ::
    "nat \<Rightarrow> 'v hashtable \<Rightarrow> bytes \<Rightarrow> 'v zval \<Rightarrow> (zval_ptr option \<times> 'v hashtable) option" where
  "zend_symtable_str_update a ht str pData =
     (case handle_numeric_str str of
        Some idx \<Rightarrow> zend_hash_index_update ht idx pData
      | None \<Rightarrow> zend_hash_str_update a ht str pData)"

definition zend_symtable_str_update_ind ::
    "nat \<Rightarrow> 'v hashtable \<Rightarrow> bytes \<Rightarrow> 'v zval \<Rightarrow> (zval_ptr option \<times> 'v hashtable) option" where
  "zend_symtable_str_update_ind a ht str pData =
     (case handle_numeric_str str of
        Some idx \<Rightarrow> zend_hash_index_update ht idx pData
      | None \<Rightarrow> zend_hash_str_update_ind a ht str pData)"

definition zend_symtable_str_del :: "'v hashtable \<Rightarrow> bytes \<Rightarrow> (bool \<times> 'v hashtable) option" where
  "zend_symtable_str_del ht str =
     (case handle_numeric_str str of
        Some idx \<Rightarrow> zend_hash_index_del ht idx | None \<Rightarrow> zend_hash_str_del ht str)"

definition zend_symtable_str_del_ind :: "'v hashtable \<Rightarrow> bytes \<Rightarrow> (bool \<times> 'v hashtable) option" where
  "zend_symtable_str_del_ind ht str =
     (case handle_numeric_str str of
        Some idx \<Rightarrow> zend_hash_index_del ht idx | None \<Rightarrow> zend_hash_str_del_ind ht str)"

definition zend_symtable_str_find :: "'v hashtable \<Rightarrow> bytes \<Rightarrow> (u32 option \<times> 'v hashtable) option" where
  "zend_symtable_str_find ht str =
     (case handle_numeric_str str of
        Some idx \<Rightarrow> index_lookup ht idx | None \<Rightarrow> zend_hash_str_find ht str)"

definition zend_symtable_str_exists :: "'v hashtable \<Rightarrow> bytes \<Rightarrow> (bool \<times> 'v hashtable) option" where
  "zend_symtable_str_exists ht str =
     map_option (\<lambda>(r, ht). (r \<noteq> None, ht)) (zend_symtable_str_find ht str)"

subsection \<open>Accessing an element\<close>

datatype fetch_type = BP_VAR_R | BP_VAR_W | BP_VAR_RW | BP_VAR_IS | BP_VAR_UNSET

text \<open>The result: a place, the shared uninitialised value, or \<open>NULL\<close>.\<close>

datatype dim_result = Dim_Place zval_ptr | Dim_Uninitialized | Dim_Null

text \<open>A dimension. A value that is neither a number nor a string nor a reference is turned into
  one of the first two, or refused, by \<open>slow_index_convert\<close>, the parameter \<open>convert\<close>.\<close>

datatype 'd dim = Dim_Long u64 | Dim_String zend_string | Dim_Reference "'d dim" | Dim_Other 'd

text \<open>A notice may call a handler of the program: the parameter \<open>notice\<close> gives the table
  afterwards, and whether it is still there and no exception was thrown. \<open>null\<close> is the value
  \<open>EG(uninitialized_zval)\<close>.\<close>

type_synonym 'v notice = "'v hashtable \<Rightarrow> bool \<times> 'v hashtable"

definition zend_undefined_index :: "'v notice \<Rightarrow> zend_string \<Rightarrow> 'v hashtable \<Rightarrow> bool \<times> 'v hashtable" where
  "zend_undefined_index notice offset ht = notice (log_event [Hook (Redqueen_Call (zs_val offset))] ht)"

definition place_of :: "(zval_ptr option \<times> 'v hashtable) option \<Rightarrow> (dim_result \<times> 'v hashtable) option" where
  "place_of r = map_option (\<lambda>(p, ht). (case p of Some p \<Rightarrow> Dim_Place p | None \<Rightarrow> Dim_Null, ht)) r"

definition fetch_index ::
    "'v notice \<Rightarrow> 'v zval \<Rightarrow> fetch_type \<Rightarrow> 'v hashtable \<Rightarrow> u64 \<Rightarrow> (dim_result \<times> 'v hashtable) option" where
  "fetch_index notice null ty ht hval =
     do { r \<leftarrow> zend_hash_index_find ht hval;
          case r of
            Some idx \<Rightarrow> Some (Dim_Place (In_Bucket idx), ht)
          | None \<Rightarrow>
             (case ty of
                BP_VAR_R \<Rightarrow> Some (Dim_Uninitialized, snd (notice ht))
              | BP_VAR_UNSET \<Rightarrow> Some (Dim_Uninitialized, ht)
              | BP_VAR_IS \<Rightarrow> Some (Dim_Uninitialized, ht)
              | BP_VAR_RW \<Rightarrow>
                  (let (ok, ht) = notice ht
                   in if ok then place_of (zend_hash_index_add_new ht hval null) else Some (Dim_Null, ht))
              | BP_VAR_W \<Rightarrow> place_of (zend_hash_index_add_new ht hval null)) }"

text \<open>The slot of a variable that is not set.\<close>

definition fetch_empty_slot ::
    "'v notice \<Rightarrow> 'v zval \<Rightarrow> fetch_type \<Rightarrow> 'v hashtable \<Rightarrow> zend_string \<Rightarrow> nat \<Rightarrow>
     dim_result \<times> 'v hashtable" where
  "fetch_empty_slot notice null ty ht key a =
     (let set_null = (\<lambda>ht. (Dim_Place (In_Slot a), ht\<lparr>ht_slots := (ht_slots ht)(a := null)\<rparr>))
      in case ty of
           BP_VAR_R \<Rightarrow> (Dim_Uninitialized, snd (zend_undefined_index notice key ht))
         | BP_VAR_UNSET \<Rightarrow> (Dim_Uninitialized, ht)
         | BP_VAR_IS \<Rightarrow> (Dim_Uninitialized, ht)
         | BP_VAR_RW \<Rightarrow>
             (let (ok, ht) = zend_undefined_index notice key ht in if ok then set_null ht else (Dim_Null, ht))
         | BP_VAR_W \<Rightarrow> set_null ht)"

definition fetch_str ::
    "'v notice \<Rightarrow> 'v zval \<Rightarrow> fetch_type \<Rightarrow> bool \<Rightarrow> 'v hashtable \<Rightarrow> zend_string \<Rightarrow>
     (dim_result \<times> 'v hashtable) option" where
  "fetch_str notice null ty known_hash ht key =
     do { (r, ht) \<leftarrow> (if known_hash then zend_hash_find_known_hash ht key else zend_hash_find ht key);
          case r of
            Some idx \<Rightarrow>
              do { let ht = log_event [Hook (Access_Call (zs_val key))] ht;
                   p \<leftarrow> bucket_in (arData ht) (unat idx);
                   Some (case b_val p of
                           IS_INDIRECT a \<Rightarrow>
                             (if ht_slots ht a = IS_UNDEF then fetch_empty_slot notice null ty ht key a
                              else (Dim_Place (In_Slot a), ht))
                         | _ \<Rightarrow> (Dim_Place (In_Bucket idx), ht)) }
          | None \<Rightarrow>
             (case ty of
                BP_VAR_R \<Rightarrow> Some (Dim_Uninitialized, snd (zend_undefined_index notice key ht))
              | BP_VAR_UNSET \<Rightarrow> Some (Dim_Uninitialized, ht)
              | BP_VAR_IS \<Rightarrow> Some (Dim_Uninitialized, ht)
              | BP_VAR_RW \<Rightarrow>
                  (let (ok, ht) = zend_undefined_index notice key ht
                   in if ok then place_of (zend_hash_add_new ht key null) else Some (Dim_Null, ht))
              | BP_VAR_W \<Rightarrow> place_of (zend_hash_add_new ht key null)) }"

text \<open>\<open>is_const\<close> says that the dimension is a constant of the program, which the compiler has already
  turned into a number when it is one. The string that a conversion gives is not looked at for
  a number again.\<close>

fun zend_fetch_dimension_address_inner ::
    "'v notice \<Rightarrow> 'v zval \<Rightarrow> ('d \<Rightarrow> (zend_string + u64) option) \<Rightarrow> bool \<Rightarrow> fetch_type \<Rightarrow> 'v hashtable \<Rightarrow>
     'd dim \<Rightarrow> (dim_result \<times> 'v hashtable) option" where
  "zend_fetch_dimension_address_inner notice null convert is_const ty ht (Dim_Long hval) =
     fetch_index notice null ty ht hval"
| "zend_fetch_dimension_address_inner notice null convert is_const ty ht (Dim_String key) =
     (case (if is_const then None else handle_numeric_str (zs_val key)) of
        Some hval \<Rightarrow> fetch_index notice null ty ht hval
      | None \<Rightarrow> fetch_str notice null ty is_const ht key)"
| "zend_fetch_dimension_address_inner notice null convert is_const ty ht (Dim_Reference d) =
     zend_fetch_dimension_address_inner notice null convert is_const ty ht d"
| "zend_fetch_dimension_address_inner notice null convert is_const ty ht (Dim_Other d) =
     (case convert d of
        Some (Inl key) \<Rightarrow> fetch_str notice null ty is_const ht key
      | Some (Inr hval) \<Rightarrow> fetch_index notice null ty ht hval
      | None \<Rightarrow> Some (if ty = BP_VAR_W \<or> ty = BP_VAR_RW then Dim_Null else Dim_Uninitialized, ht))"

end
