(* ===== verification/Zend_Symtable_Correct.thy ===== *)
theory Zend_Symtable_Correct
  imports Zend_Symtable Zend_Hash_Examples
begin

text \<open>
  Which strings are integer keys: exactly the decimal notations of the 64-bit integers. An array
  therefore has one element for a number, whether the key is written as a number or as a string.
\<close>

subsection \<open>Decimal numbers\<close>

definition is_digit :: "u8 \<Rightarrow> bool" where
  "is_digit c \<longleftrightarrow> 48 \<le> c \<and> c \<le> 57"

definition digits_val :: "bytes \<Rightarrow> nat" where
  "digits_val s = foldl (\<lambda>v c. 10 * v + (unat c - 48)) 0 s"

definition canonical :: "bytes \<Rightarrow> bool" where
  "canonical s \<longleftrightarrow> s \<noteq> [] \<and> list_all is_digit s \<and> (hd s = 48 \<longrightarrow> length s = 1)"

lemma digits_val_simps [simp]: "digits_val [] = 0" "digits_val (s @ [c]) = 10 * digits_val s + (unat c - 48)"
    "digits_val [c] = unat c - 48"
  by (simp_all add: digits_val_def)

lemma digit_word:
  assumes "d < 10"
  shows "is_digit (word_of_nat (48 + d))" "unat (word_of_nat (48 + d) :: u8) = 48 + d"
    "word_of_nat (48 + d) = (48 :: u8) \<longleftrightarrow> d = 0"
proof -
  show u: "unat (word_of_nat (48 + d) :: u8) = 48 + d" using assms by (simp add: unsigned_of_nat take_bit_nat_eq_self del: of_nat_add)
  then show "is_digit (word_of_nat (48 + d))" using assms by (simp add: is_digit_def word_le_nat_alt del: of_nat_add)
  show "word_of_nat (48 + d) = (48 :: u8) \<longleftrightarrow> d = 0" using u by (auto simp: word_unat_eq_iff simp del: of_nat_add)
qed

lemma digit_bounds: "is_digit c \<longleftrightarrow> 48 \<le> unat c \<and> unat c \<le> 57"
  by (simp add: is_digit_def word_le_nat_alt)

lemma digit_word_back: "is_digit c \<Longrightarrow> word_of_nat (48 + (unat c - 48)) = c"
  by (simp add: digit_bounds del: of_nat_add)

lemma decimal_snoc: "d < 10 \<Longrightarrow> decimal (10 * v + d) =
    (if v = 0 then [] else decimal v) @ [word_of_nat (48 + d)]"
  by (cases "v = 0") (subst decimal.simps, simp del: of_nat_add)+

lemma decimal_ne: "decimal n \<noteq> []"
  by (subst decimal.simps) simp

lemma hd_decimal: "hd (decimal n) = 48 \<longleftrightarrow> n = 0"
proof (induction n rule: decimal.induct)
  case (1 n)
  show ?case
  proof (cases "n < 10")
    case True
    then show ?thesis using digit_word(3) [of n] by (subst decimal.simps) simp
  next
    case False
    then have "decimal n = decimal (n div 10) @ [word_of_nat (48 + n mod 10)]" by (subst decimal.simps) simp
    then show ?thesis using 1 False decimal_ne [of "n div 10"] by (auto simp del: of_nat_add)
  qed
qed

lemma decimal_canonical: "canonical (decimal n) \<and> digits_val (decimal n) = n"
proof (induction n rule: decimal.induct)
  case (1 n)
  have n: "n = 10 * (n div 10) + n mod 10" by simp
  have "decimal n = (if n div 10 = 0 then [] else decimal (n div 10)) @ [word_of_nat (48 + n mod 10)]"
    by (subst n, rule decimal_snoc) simp
  then show ?case using 1 digit_word [of "n mod 10"] decimal_ne hd_decimal [of "n div 10"] hd_decimal [of n]
    by (auto simp: canonical_def simp del: of_nat_add split: if_splits)
qed

lemma digits_val_pos: "list_all is_digit s \<Longrightarrow> s \<noteq> [] \<Longrightarrow> hd s \<noteq> 48 \<Longrightarrow> 0 < digits_val s"
proof (induction s rule: rev_induct)
  case (snoc c s)
  have "unat c \<noteq> 48" if "s = []" using snoc.prems(3) that by (auto simp: word_unat_eq_iff)
  then show ?case using snoc by (cases "s = []") (auto simp: digit_bounds)
qed simp

lemma canonical_decimal: "canonical s \<Longrightarrow> decimal (digits_val s) = s"
proof (induction s rule: rev_induct)
  case (snoc c s)
  have c: "is_digit c" using snoc.prems by (simp add: canonical_def)
  then have "unat c - 48 < 10" unfolding digit_bounds by linarith
  note d = decimal_snoc [OF this, of "digits_val s"]
  show ?case
  proof (cases "s = []")
    case True
    then show ?thesis using d digit_word_back [OF c] by simp
  next
    case False
    then have "hd s \<noteq> 48" "list_all is_digit s" using snoc.prems by (auto simp: canonical_def)
    then have "canonical s" "0 < digits_val s" using False digits_val_pos [of s] by (simp_all add: canonical_def)
    then show ?thesis using d snoc.IH digit_word_back [OF c] by (simp del: of_nat_add)
  qed
qed (simp add: canonical_def)

lemma digits_val_bound: "list_all is_digit s \<Longrightarrow> digits_val s < 10 ^ length s"
  by (induction s rule: rev_induct) (auto simp: digit_bounds)

lemma decimal_length: "n < 10 ^ k \<Longrightarrow> 0 < k \<Longrightarrow> length (decimal n) \<le> k"
proof (induction k arbitrary: n)
  case (Suc k)
  show ?case
  proof (cases "n < 10")
    case False
    then have "n div 10 < 10 ^ k" "0 < k" using Suc.prems(1) by (auto intro: gr0I)
    then show ?thesis using Suc.IH [of "n div 10"] False by (subst decimal.simps) simp
  qed (subst decimal.simps, simp)
qed simp

subsection \<open>Numeric strings\<close>

lemma wrap_8:
  fixes x :: int
  assumes "0 \<le> x" "x < 256"
  shows "(x + 128) mod 256 - 128 = (if x < 128 then x else x - 256)"
proof (cases "x < 128")
  case False
  have "(x + 128) mod 256 = (x - 128) mod 256" using mod_add_self2 [of "x - 128" 256] by (simp add: algebra_simps)
  then show ?thesis using False assms by simp
qed (use assms in simp)

lemma sint_char: "sint (c :: u8) = (if uint c < 128 then uint c else uint c - 256)"
proof -
  have "sint c = (uint c + 128) mod 256 - 128" using int_word_sint [of "uint c", where ?'a = 8]
    by (simp only: word_of_int_uint len_num0 len_bit0 len_num1) simp
  also have "\<dots> = (if uint c < 128 then uint c else uint c - 256)"
    using uint_bounded [of c] by (intro wrap_8) simp_all
  finally show ?thesis .
qed

lemma digit_uint: "is_digit c \<longleftrightarrow> 48 \<le> uint c \<and> uint c \<le> 57"
  by (simp add: is_digit_def word_le_def)

lemma char_is_digit: "c \<le>s 57 \<and> 48 \<le>s c \<longleftrightarrow> is_digit c"
  and char_not_digit: "57 <s c \<or> c <s 48 \<longleftrightarrow> \<not> is_digit c"
  using uint_bounded [of c] unfolding digit_uint word_sle_eq word_sless_alt sint_char by auto

lemma char_digit_val:
  assumes "is_digit c"
  shows "char_val (c - 48) = word_of_nat (unat c - 48)"
proof -
  have "\<forall>d\<in>set [0..<10]. char_val (word_of_nat d) = word_of_nat d" by code_simp
  moreover have "unat c - 48 \<in> set [0..<10]" using assms unfolding digit_bounds by auto
  moreover have "c - 48 = word_of_nat (unat c - 48)" using assms unfolding digit_bounds by (simp add: of_nat_diff)
  ultimately show ?thesis by metis
qed

definition numeric_end :: "bool \<Rightarrow> u64 \<Rightarrow> u64 option" where
  "numeric_end neg idx = numeric_loop neg idx []"

lemma numeric_loop_eq:
  "list_all is_digit s \<Longrightarrow> numeric_loop neg (word_of_nat (digits_val s)) r =
    (if list_all is_digit r then numeric_end neg (word_of_nat (digits_val (s @ r))) else None)"
proof (induction r arbitrary: s)
  case (Cons c r)
  show ?case
  proof (cases "is_digit c")
    case True
    then have "word_of_nat (digits_val s) * 10 + char_val (c - 48) = word_of_nat (digits_val (s @ [c]))"
      by (simp add: char_digit_val)
    then show ?thesis using Cons.IH [of "s @ [c]"] Cons.prems True by (simp only: char_is_digit numeric_loop.simps if_True) simp
  qed (simp add: char_is_digit)
qed (simp add: numeric_end_def)

lemma sint_eq64: "sint (i :: u64) = x \<longleftrightarrow> i = word_of_int x \<and> - (2 ^ 63) \<le> x \<and> x < 2 ^ 63"
proof
  assume "sint i = x"
  then show "i = word_of_int x \<and> - (2 ^ 63) \<le> x \<and> x < 2 ^ 63"
    using sint_ge [of i] sint_lt [of i] by auto
next
  assume "i = word_of_int x \<and> - (2 ^ 63) \<le> x \<and> x < 2 ^ 63"
  then show "sint i = x" by (simp add: signed_of_int signed_take_bit_int_eq_self)
qed

lemma numeric_end_eq:
  assumes "n < 10 ^ 19"
  shows "numeric_end False (word_of_nat n) = Some i \<longleftrightarrow> sint i = int n"
    and "0 < n \<Longrightarrow> numeric_end True (word_of_nat n) = Some i \<longleftrightarrow> sint i = - int n"
proof -
  have b: "(10 :: nat) ^ 19 < 2 ^ 64" by simp
  then have u: "unat (word_of_nat n :: u64) = n" using assms by (intro unat64_of_nat) linarith
  have "word_of_nat n > ZEND_LONG_MAX \<longleftrightarrow> 2 ^ 63 \<le> n" by (simp add: word_less_nat_alt u) linarith
  then show "numeric_end False (word_of_nat n) = Some i \<longleftrightarrow> sint i = int n"
    unfolding sint_eq64 numeric_end_def numeric_loop.simps of_int_of_nat_eq by auto
  assume n: "0 < n"
  then have "unat (word_of_nat n - 1 :: u64) = n - 1" using u by (subst unat_minus_one) auto
  then have "word_of_nat n - 1 > ZEND_LONG_MAX \<longleftrightarrow> 2 ^ 63 < n" using n by (simp add: word_less_nat_alt) linarith
  moreover have "- (2 ^ 63) \<le> - int n \<longleftrightarrow> n \<le> 2 ^ 63" by simp
  ultimately show "numeric_end True (word_of_nat n) = Some i \<longleftrightarrow> sint i = - int n"
    unfolding sint_eq64 numeric_end_def numeric_loop.simps by auto
qed

definition digits_value_ok :: "bool \<Rightarrow> bytes \<Rightarrow> u64 \<Rightarrow> bool" where
  "digits_value_ok neg t i \<longleftrightarrow> canonical t \<and> length t \<le> 19 \<and> numeric_end neg (word_of_nat (digits_val t)) = Some i"

lemma ex_eq:
  assumes "t \<noteq> []" "is_digit (hd t)" "s = (if neg then 45 # t else t)" "neg \<longleftrightarrow> hd s = 45"
  shows "handle_numeric_str_ex s = Some i \<longleftrightarrow> (if neg then hd t \<noteq> 48 else True) \<and> digits_value_ok neg t i"
proof -
  obtain c r where t: "t = c # r" using assms(1) by (cases t) auto
  have c: "is_digit c" using assms(2) t by simp
  have loop: "numeric_loop neg (char_val (c - 48)) r =
    (if list_all is_digit (c # r) then numeric_end neg (word_of_nat (digits_val (c # r))) else None)"
    using numeric_loop_eq [of "[c]" neg r] c by (simp add: char_digit_val)
  have neg: "(char_at s 0 = 45) = neg" "(if neg then tl s else s) = c # r" "char_at (c # r) 0 = c"
    "1 < length s \<longleftrightarrow> neg \<or> r \<noteq> []"
    using assms(3,4) t by (auto simp: char_at_def)
  have "handle_numeric_str_ex s = Some i \<longleftrightarrow> \<not> (c = 48 \<and> (neg \<or> r \<noteq> [])) \<and> length (c # r) \<le> 19 \<and>
      list_all is_digit (c # r) \<and> numeric_end neg (word_of_nat (digits_val (c # r))) = Some i"
    unfolding handle_numeric_str_ex_def Let_def neg loop list.case by auto
  then show ?thesis unfolding digits_value_ok_def canonical_def t by (cases neg; cases "r = []"; cases "c = 48"; auto)
qed

definition number_shape :: "bytes \<Rightarrow> bool \<Rightarrow> bytes \<Rightarrow> bool" where
  "number_shape s neg t \<longleftrightarrow> t \<noteq> [] \<and> is_digit (hd t) \<and> s = (if neg then 45 # t else t) \<and> (neg \<longleftrightarrow> hd s = 45)"

lemma handle_shape:
  assumes "number_shape s neg t"
  shows "handle_numeric_str s = handle_numeric_str_ex s"
proof -
  have "is_digit (char_at s 0) \<and> char_at s 0 \<noteq> 45 \<or> char_at s 0 = 45 \<and> is_digit (char_at s 1)"
    using assms by (cases neg; cases t) (auto simp: number_shape_def char_at_def is_digit_def)
  then show ?thesis
    using char_not_digit [of "char_at s 0"] char_not_digit [of "char_at s 1"]
    by (auto simp: handle_numeric_str_def Let_def)
qed

lemma is_digit_0 [simp]: "\<not> is_digit 0" and is_digit_minus [simp]: "\<not> is_digit 45"
  by (simp_all add: is_digit_def)

lemma handle_no_shape:
  assumes "handle_numeric_str s = Some i"
  shows "\<exists>neg t. number_shape s neg t"
proof -
  have "is_digit (char_at s 0) \<or> char_at s 0 = 45 \<and> is_digit (char_at s 1)"
    using assms char_not_digit [of "char_at s 0"] char_not_digit [of "char_at s 1"]
    by (auto simp: handle_numeric_str_def Let_def split: if_splits)
  then show ?thesis
  proof
    assume d: "is_digit (char_at s 0)"
    then have "number_shape s False s" by (cases s) (auto simp: number_shape_def char_at_def)
    then show ?thesis by blast
  next
    assume d: "char_at s 0 = 45 \<and> is_digit (char_at s 1)"
    then have "number_shape s True (tl s)"
      by (cases s; cases "tl s") (auto simp: number_shape_def char_at_def split: if_splits)
    then show ?thesis by blast
  qed
qed

lemma hd_decimal_digit: "is_digit (hd (decimal n))"
  using decimal_canonical [of n] decimal_ne [of n] by (cases "decimal n") (auto simp: canonical_def)

lemma fmt_shape: "number_shape (fmt_d x) (x < 0) (decimal (nat \<bar>x\<bar>))"
  using hd_decimal_digit [of "nat \<bar>x\<bar>"] decimal_ne [of "nat \<bar>x\<bar>"]
  by (cases "decimal (nat \<bar>x\<bar>)") (auto simp: number_shape_def fmt_d_def)

lemma shape_unique: "number_shape s neg t \<Longrightarrow> number_shape s neg' t' \<Longrightarrow> neg = neg' \<and> t = t'"
  by (metis number_shape_def list.inject)

lemma sint_abs: "nat \<bar>sint (i :: u64)\<bar> < 10 ^ 19"
proof -
  have "- 9223372036854775808 \<le> sint i" "sint i < 9223372036854775808" using sint_ge [of i] sint_lt [of i] by simp_all
  then have "nat \<bar>sint i\<bar> < 10000000000000000000" by linarith
  then show ?thesis by simp
qed

lemmas long_decimal = decimal_length [OF sint_abs, simplified]

lemma value_ok_iff:
  assumes "is_digit (hd t)" "t \<noteq> []"
  shows "(neg \<longrightarrow> hd t \<noteq> 48) \<and> digits_value_ok neg t i \<longleftrightarrow> t = decimal (nat \<bar>sint i\<bar>) \<and> (neg \<longleftrightarrow> sint i < 0)"
proof
  assume l: "(neg \<longrightarrow> hd t \<noteq> 48) \<and> digits_value_ok neg t i"
  then have c: "canonical t" "length t \<le> 19" "numeric_end neg (word_of_nat (digits_val t)) = Some i"
    by (simp_all add: digits_value_ok_def)
  have "digits_val t < 10 ^ length t" using c(1) by (intro digits_val_bound) (simp add: canonical_def)
  also have "\<dots> \<le> 10 ^ 19" using c(2) by (intro power_increasing) simp_all
  finally have n: "digits_val t < 10 ^ 19" .
  show "t = decimal (nat \<bar>sint i\<bar>) \<and> (neg \<longleftrightarrow> sint i < 0)"
  proof (cases neg)
    case True
    then have "0 < digits_val t" using l c(1) digits_val_pos [of t] by (simp add: canonical_def)
    then show ?thesis using numeric_end_eq(2) [OF n] c canonical_decimal True by simp
  next
    case False
    then show ?thesis using numeric_end_eq(1) [OF n] c canonical_decimal by simp
  qed
next
  assume r: "t = decimal (nat \<bar>sint i\<bar>) \<and> (neg \<longleftrightarrow> sint i < 0)"
  let ?n = "nat \<bar>sint i\<bar>"
  have c: "canonical t" "digits_val t = ?n" "length t \<le> 19" using r decimal_canonical [of ?n] long_decimal [of i] by simp_all
  note n = sint_abs [of i]
  have "hd t \<noteq> 48" if neg using r hd_decimal [of ?n] that by simp
  moreover have "numeric_end neg (word_of_nat ?n) = Some i"
    using numeric_end_eq [OF n, of i] r by (cases neg) auto
  ultimately show "(neg \<longrightarrow> hd t \<noteq> 48) \<and> digits_value_ok neg t i" using c by (simp add: digits_value_ok_def)
qed

lemma handle_numeric_iff: "handle_numeric_str s = Some i \<longleftrightarrow> s = fmt_d (sint i)"
proof (cases "\<exists>neg t. number_shape s neg t")
  case True
  then obtain neg t where t: "number_shape s neg t" by blast
  then have u: "t \<noteq> []" "is_digit (hd t)" "s = (if neg then 45 # t else t)" "neg \<longleftrightarrow> hd s = 45"
    unfolding number_shape_def by blast+
  have "handle_numeric_str s = Some i \<longleftrightarrow> (neg \<longrightarrow> hd t \<noteq> 48) \<and> digits_value_ok neg t i"
    unfolding handle_shape [OF t] ex_eq [OF u] by simp
  also have "\<dots> \<longleftrightarrow> t = decimal (nat \<bar>sint i\<bar>) \<and> (neg \<longleftrightarrow> sint i < 0)"
    using u(1,2) by (intro value_ok_iff)
  also have "\<dots> \<longleftrightarrow> s = fmt_d (sint i)"
  proof
    assume "t = decimal (nat \<bar>sint i\<bar>) \<and> (neg \<longleftrightarrow> sint i < 0)"
    then show "s = fmt_d (sint i)" unfolding u(3) by (auto simp: fmt_d_def)
  next
    assume "s = fmt_d (sint i)"
    then show "t = decimal (nat \<bar>sint i\<bar>) \<and> (neg \<longleftrightarrow> sint i < 0)"
      using shape_unique [OF t] fmt_shape [of "sint i"] by simp
  qed
  finally show ?thesis .
next
  case False
  then show ?thesis using handle_no_shape [of s i] fmt_shape [of "sint i"] by metis
qed

text \<open>C36: a string is an integer key just when it is the decimal notation of a 64-bit integer, without
  leading zeros, plus signs or blanks, and then it is the key of that integer: printing and
  parsing are inverse to each other.\<close>

theorem handle_numeric_str_round_trip:
  "(handle_numeric_str s = Some i) = (s = fmt_d (sint i))"
  by (rule handle_numeric_iff)

subsection \<open>Keys of arrays\<close>

definition sym_key :: "bytes \<Rightarrow> hkey" where
  "sym_key s = (case handle_numeric_str s of Some i \<Rightarrow> Idx i | None \<Rightarrow> Str s)"

lemma sym_key_inj: "sym_key s = sym_key t \<longleftrightarrow> s = t"
proof
  assume eq: "sym_key s = sym_key t"
  then show "s = t" using handle_numeric_iff [of s] handle_numeric_iff [of t]
    by (cases "handle_numeric_str s"; cases "handle_numeric_str t") (simp_all add: sym_key_def)
qed simp

lemma sym_key_number: "sym_key (fmt_d (sint i)) = Idx i"
  using handle_numeric_iff [of "fmt_d (sint i)" i] by (simp add: sym_key_def)

lemma symtable_str_update: "map_option snd (zend_symtable_str_update a ht s v) = array_put a (sym_key s) v ht"
  by (simp add: zend_symtable_str_update_def sym_key_def array_put_def split: option.split)

lemma symtable_str_del: "zend_symtable_str_del ht s = array_del (sym_key s) ht"
  by (simp add: zend_symtable_str_del_def sym_key_def array_del_def split: option.split)

definition symtable_get :: "bytes \<Rightarrow> 'v hashtable \<Rightarrow> 'v zval option option" where
  "symtable_get s ht =
     do { (r, ht) \<leftarrow> zend_symtable_str_find ht s;
          Some (case r of Some idx \<Rightarrow> map_option b_val (bucket_in (arData ht) (unat idx)) | None \<Rightarrow> None) }"

lemma symtable_get_eq: "symtable_get s ht = array_get (sym_key s) ht"
proof (cases "handle_numeric_str s")
  case None
  then show ?thesis
    by (auto simp: symtable_get_def zend_symtable_str_find_def sym_key_def array_get_def zend_hash_str_find_def
        zend_hash_str_find_bucket_def log_event_def split: option.splits Option.bind_splits prod.splits)
next
  case (Some i)
  then show ?thesis by (cases "zend_hash_index_find ht i")
    (simp_all add: symtable_get_def zend_symtable_str_find_def sym_key_def array_get_def index_lookup_def)
qed

text \<open>Writing an element under a string updates the ordered map at the key the string stands for,
  and the element is then found under that string, under no other string, and, when the string is
  a decimal number, under the integer.\<close>

theorem zend_symtable_update_correct:
  assumes "ht_ok ht" "ht_small ht" "v \<noteq> IS_UNDEF"
  shows "\<exists>p ht'. zend_symtable_str_update a ht s v = Some (p, ht') \<and> ht_ok ht' \<and>
    ht_list ht' = AList.update (sym_key s) v (ht_list ht) \<and>
    (\<forall>t. symtable_get t ht' = Some (if t = s then Some v else map_of (ht_list ht) (sym_key t))) \<and>
    (\<forall>i. array_get (Idx i) ht' = Some (if s = fmt_d (sint i) then Some v else map_of (ht_list ht) (Idx i)))"
proof -
  obtain ht' where p: "array_put a (sym_key s) v ht = Some ht'" "ht_ok ht'" "ht_list ht' = AList.update (sym_key s) v (ht_list ht)"
    using array_put_ok [OF assms] by blast
  then obtain p where "zend_symtable_str_update a ht s v = Some (p, ht')"
    using symtable_str_update [of a ht s v] by auto
  moreover have g: "array_get q ht' = Some (if q = sym_key s then Some v else map_of (ht_list ht) q)" for q
    using array_get_ok [OF p(2), of q] p(3) by (simp add: update_conv')
  moreover have "Idx i = sym_key s \<longleftrightarrow> s = fmt_d (sint i)" for i
    using sym_key_number [of i] sym_key_inj [of "fmt_d (sint i)" s] by metis
  ultimately show ?thesis using p(2,3) by (simp add: symtable_get_eq sym_key_inj)
qed

theorem zend_symtable_update_correct_witness:
  "\<exists>p ht'. zend_symtable_str_update 1 ex_table [55] (ZV 5) = Some (p, ht') \<and> array_get (Idx 7) ht' = Some (Some (ZV 5))"
proof -
  have "[55] = fmt_d (sint (7 :: u64))" by code_simp
  then show ?thesis
    using zend_symtable_update_correct [OF ex_table_ok(1) ex_small(1), of "ZV 5" 1 "[55]"] by auto
qed

subsection \<open>Types of keys\<close>

text \<open>No string key is a decimal number: such an element would not be found, because the string is looked up as
  an integer.\<close>

definition keys_typed :: "'v hashtable \<Rightarrow> bool" where
  "keys_typed ht \<longleftrightarrow> (\<forall>s. Str s \<in> fst ` set (ht_list ht) \<longrightarrow> handle_numeric_str s = None)"

text \<open>The writes of a program, under a string or an integer.\<close>

definition dim_key :: "bytes + u64 \<Rightarrow> hkey" where
  "dim_key k = (case k of Inl s \<Rightarrow> sym_key s | Inr i \<Rightarrow> Idx i)"

definition dim_put :: "nat \<Rightarrow> bytes + u64 \<Rightarrow> 'v zval \<Rightarrow> 'v hashtable \<Rightarrow> 'v hashtable option" where
  "dim_put a k v ht =
     (if v = IS_UNDEF \<or> \<not> ht_small ht then None
      else map_option snd (case k of Inl s \<Rightarrow> zend_symtable_str_update a ht s v | Inr i \<Rightarrow> zend_hash_index_update ht i v))"

definition dim_del :: "bytes + u64 \<Rightarrow> 'v hashtable \<Rightarrow> 'v hashtable option" where
  "dim_del k ht = map_option snd (case k of Inl s \<Rightarrow> zend_symtable_str_del ht s | Inr i \<Rightarrow> zend_hash_index_del ht i)"

lemma dim_put_eq: "dim_put a k v ht = store_put a (dim_key k) v ht"
  by (cases k) (simp_all add: dim_put_def store_put_def dim_key_def symtable_str_update array_put_def)

lemma dim_del_eq: "dim_del k ht = store_del (dim_key k) ht"
  by (cases k) (simp_all add: dim_del_def store_del_def dim_key_def symtable_str_del array_del_def)

lemma dim_key_typed: "dim_key k = Str s \<Longrightarrow> handle_numeric_str s = None"
  by (cases k) (auto simp: dim_key_def sym_key_def split: option.splits)

lemma keys_typed_map: "keys_typed ht \<longleftrightarrow> (\<forall>s. map_of (ht_list ht) (Str s) \<noteq> None \<longrightarrow> handle_numeric_str s = None)"
  by (auto simp: keys_typed_def map_of_eq_None_iff)

interpretation sym: keyed_store "\<lambda>ht. ht_ok ht \<and> keys_typed ht" "\<lambda>ht. map_of (ht_list ht)" dim_key "dim_put a" dim_del for a
proof (unfold_locales)
  fix s s' :: "'v hashtable" and k v assume s: "ht_ok s \<and> keys_typed s" "dim_put a k v s = Some s'"
  then have p: "ht_ok s'" "map_of (ht_list s') = (map_of (ht_list s))(dim_key k \<mapsto> v)"
    using zh.put_inv [of s a "dim_key k" v s'] zh.put_view [of s a "dim_key k" v s'] by (simp_all add: dim_put_eq)
  then show "ht_ok s' \<and> keys_typed s'" using s(1) dim_key_typed [of k] by (auto simp: keys_typed_map)
  show "map_of (ht_list s') = (map_of (ht_list s))(dim_key k \<mapsto> v)" by (rule p(2))
next
  fix s :: "'v hashtable" and k assume s: "ht_ok s \<and> keys_typed s"
  then obtain s' where "store_del (dim_key k) s = Some s'" "ht_ok s'" "map_of (ht_list s') = (map_of (ht_list s))(dim_key k := None)"
    using zh.remove_ok [of s "dim_key k"] by blast
  then show "\<exists>s'. dim_del k s = Some s' \<and> (ht_ok s' \<and> keys_typed s') \<and> map_of (ht_list s') = (map_of (ht_list s))(dim_key k := None)"
    using s by (auto simp: dim_del_eq keys_typed_map)
qed



subsection \<open>Access to an element\<close>

lemma log_event_twice: "log_event ys (log_event xs ht) = log_event (xs @ ys) ht"
  by (simp add: log_event_def)



end
