(* ===== verification/Engine_Hooks.thy ===== *)
theory Engine_Hooks
  imports Pcov_Oracle Zend_Symtable
begin

text \<open>
  The places of the patched PHP outside the arrays that call the extension: the checks for bugs in
  the functions for files, processes, uploads and databases, the search in arrays, the comparison
  of strings, and regular expressions. A function of PHP is modelled as far as it decides about
  a call; what it gets from the rest of PHP is an argument. A string ends in a NUL.
\<close>

subsection \<open>Calls of the engine\<close>

datatype engine_call =
    Hash_Call hook_call
  | Feedback u32
  | Preg_Call bytes bytes
  | Bug_Call bytes "bytes option"

text \<open>A length that is handed over as an \<open>int\<close>.\<close>

definition c_int :: "nat \<Rightarrow> int" where
  "c_int n = sint (word_of_nat n :: u32)"

text \<open>What a call does: the pointer is \<open>NULL\<close> or the function that the extension has installed.\<close>

definition deliver_hook :: "hook_call \<Rightarrow> pcov \<Rightarrow> pcov" where
  "deliver_hook call st =
     (case call of
        Cmp_Call s1 s2 \<Rightarrow>
          if string_equal_val_callback st
          then php_pcov_string_equal_val s1 (c_int (length s1)) s2 (c_int (length s2)) st else st
      | Access_Call s \<Rightarrow>
          if array_access_callback st then php_pcov_array_access s (c_int (length s)) st else st
      | Redqueen_Call s \<Rightarrow>
          if redqueen_callback st then php_pcov_redqueen s (c_int (length s)) REDQUEEN_ARRAY_ACCESS st
          else st)"

definition deliver_call :: "os \<Rightarrow> engine_call \<Rightarrow> pcov \<Rightarrow> pcov" where
  "deliver_call sys call st =
     (case call of
        Hash_Call c \<Rightarrow> deliver_hook c st
      | Feedback n \<Rightarrow> if positive_feedback_callback st then php_pcov_positive_feedback n st else st
      | Preg_Call re s \<Rightarrow>
          if preg_match_callback st
          then php_pcov_redqueen_preg_match re (c_int (length re)) s (c_int (length s)) st else st
      | Bug_Call msg ty \<Rightarrow> if bug_oracle_callback st then php_pcov_bug_oracle sys msg ty st else st)"

definition deliver :: "os \<Rightarrow> engine_call list \<Rightarrow> pcov \<Rightarrow> pcov" where
  "deliver sys calls st = fold (deliver_call sys) calls st"

subsection \<open>Files\<close>

definition c_strstr :: "bytes \<Rightarrow> string \<Rightarrow> bool" where
  "c_strstr s t = strstr (c_str s) (cs t)"

text \<open>\<open>strrchr\<close>: the rest of the string from the last \<open>c\<close> on.\<close>

fun last_suffix :: "u8 \<Rightarrow> bytes \<Rightarrow> bytes option" where
  "last_suffix c [] = None"
| "last_suffix c (x # s) =
     (case last_suffix c s of Some t \<Rightarrow> Some t | None \<Rightarrow> if x = c then Some (x # s) else None)"

definition strrchr :: "bytes \<Rightarrow> u8 \<Rightarrow> bytes option" where
  "strrchr s c = last_suffix c (c_str s)"

text \<open>\<open>dot != NULL && strcmp(dot, ".php") == 0\<close>\<close>

definition dot_is_php :: "bytes option \<Rightarrow> bool" where
  "dot_is_php dot \<longleftrightarrow> dot = Some (cs ''.php'')"

definition file_get_contents_check :: "bytes \<Rightarrow> engine_call list" where
  "file_get_contents_check filename =
     (if c_strstr filename ''crash''
      then (let dot = strrchr filename 46
            in if dot_is_php dot then [Bug_Call [] (Some (cs ''arbitrary read''))] else [])
      else [])"

text \<open>\<open>data\<close> is \<open>None\<close> when it is no string.\<close>

definition file_put_contents_check :: "bytes \<Rightarrow> bytes option \<Rightarrow> engine_call list" where
  "file_put_contents_check filename data =
     (let dot = strrchr filename 46
      in if dot_is_php dot
         then (case data of
                 Some d \<Rightarrow> if c_strstr d ''crash'' then [Bug_Call [] (Some (cs ''arbitrary write to eval''))]
                           else []
               | None \<Rightarrow> [])
         else [])"

text \<open>The number of bytes that \<open>fwrite\<close> writes; \<open>maxlen\<close> is the third argument if there is one.\<close>

definition fwrite_num_bytes :: "nat \<Rightarrow> int option \<Rightarrow> nat" where
  "fwrite_num_bytes inputlen maxlen =
     (case maxlen of None \<Rightarrow> inputlen | Some n \<Rightarrow> if n \<le> 0 then 0 else min (nat n) inputlen)"

text \<open>The check in \<open>fwrite\<close>. A stream that was not opened by name, such as a pipe, has no path, and
  \<open>strrchr\<close> then reads through \<open>NULL\<close>. \<open>hooked\<close> says that the oracle is installed.\<close>

definition fwrite_check :: "bool \<Rightarrow> bytes option \<Rightarrow> bytes \<Rightarrow> int option \<Rightarrow> engine_call list option" where
  "fwrite_check hooked orig_path input maxlen =
     (if fwrite_num_bytes (length input) maxlen = 0 \<or> \<not> hooked then Some []
      else do { path \<leftarrow> orig_path;
                let dot = strrchr path 46;
                Some (if c_strstr input ''crash'' \<and> dot_is_php dot
                      then [Bug_Call [] (Some (cs ''arbitrary write to eval''))] else []) })"

definition readfile_check :: "bytes \<Rightarrow> engine_call list" where
  "readfile_check filename =
     (if c_strstr filename ''crash''
      then (let dot = strrchr filename 46
            in if dot_is_php dot then [Bug_Call [] (Some (cs ''arbitrary read''))] else [])
      else [])"

definition move_uploaded_file_check :: "bool \<Rightarrow> bytes \<Rightarrow> engine_call list" where
  "move_uploaded_file_check successful new_path =
     (if successful
      then Feedback 0xe7 # (let dot = strrchr new_path 46
            in if dot_is_php dot then [Bug_Call [] (Some (cs ''upload''))] else [])
      else [])"

subsection \<open>Processes\<close>

definition rce :: "bytes \<Rightarrow> engine_call list" where
  "rce cmd = (if c_strstr cmd ''crash'' then [Bug_Call cmd (Some (cs ''rce''))] else [])"

text \<open>\<open>php_exec_ex\<close>, behind \<open>exec\<close>, \<open>system\<close> and \<open>passthru\<close>; the command has a length of its own.
  \<open>run\<close> is the result of running it, or \<open>None\<close> when the array for the output cannot be set up. The
  second component says whether \<open>false\<close> is returned before the command runs.\<close>

definition php_exec_ex :: "bytes \<Rightarrow> (bytes \<Rightarrow> int option) \<Rightarrow> engine_call list \<times> bool" where
  "php_exec_ex cmd run =
     (if length cmd = 0 then (rce cmd, True)
      else if length (c_str cmd) \<noteq> length cmd then (rce cmd, True)
      else (case run cmd of
              None \<Rightarrow> ([], False)
            | Some ret \<Rightarrow> (if ret \<noteq> 0 then rce cmd else [], False)))"

text \<open>\<open>shell_exec\<close>: \<open>popen_ok\<close> says whether the pipe was opened, and \<open>ret\<close> is the pointer to the
  output that was read from it.\<close>

definition shell_exec_check :: "bytes \<Rightarrow> bool \<Rightarrow> bytes option \<Rightarrow> engine_call list" where
  "shell_exec_check command popen_ok ret =
     (if length command = 0 \<or> length (c_str command) \<noteq> length command \<or> \<not> popen_ok then []
      else if ret \<noteq> None then rce command else [])"

text \<open>\<open>proc_close\<close>, and the failing end of \<open>proc_open\<close>. The command of a closed process is read after
  the process structure was released; it is taken to be still there.\<close>

definition proc_close_check :: "int \<Rightarrow> bytes option \<Rightarrow> engine_call list" where
  "proc_close_check exit_code command =
     (if exit_code > 1 \<or> exit_code < 0
      then (case command of
              Some c \<Rightarrow> if c_strstr c ''crash'' then [Bug_Call [] (Some (cs ''rce''))] else []
            | None \<Rightarrow> [])
      else [])"

definition proc_open_failed_check :: "bytes option \<Rightarrow> engine_call list" where
  "proc_open_failed_check command =
     (case command of
        Some c \<Rightarrow> if c_strstr c ''crash'' then [Bug_Call [] (Some (cs ''rce''))] else []
      | None \<Rightarrow> [])"

subsection \<open>Databases and messages\<close>

definition sql_message :: "bytes \<Rightarrow> bytes \<Rightarrow> bytes" where
  "sql_message query err = cs ''query: '' @ c_str query @ cs '' -- error: '' @ c_str err"

definition sql_check :: "os \<Rightarrow> bytes \<Rightarrow> bytes \<Rightarrow> engine_call list" where
  "sql_check sys query err =
     (if env_set sys ''NYX_REPORT_SQL_INJECTION'' \<and>
         (env_set sys ''NYX_REPORT_ALL_SQL_INJECTION'' \<or> c_strstr err ''syntax'' \<and> c_strstr query ''crash'')
      then [Bug_Call (sql_message query err) (Some (cs ''sql error''))] else [])"

text \<open>\<open>mysqli_query\<close>, where \<open>err\<close> is the message of a failed query.\<close>

definition mysqli_query_check :: "os \<Rightarrow> bytes \<Rightarrow> bytes option \<Rightarrow> engine_call list" where
  "mysqli_query_check sys query err =
     (case err of Some e \<Rightarrow> sql_check sys query e | None \<Rightarrow> [])"

text \<open>\<open>_pdo_sqlite_error\<close>: \<open>stmt\<close> is \<open>NULL\<close> for an error of the connection itself, else it has a
  query string or none; \<open>err\<close> is the message of an error. Reading \<open>stmt->query_string\<close> through
  \<open>NULL\<close> is \<open>None\<close>.\<close>

definition pdo_sqlite_error_check :: "os \<Rightarrow> bytes option option \<Rightarrow> bytes option \<Rightarrow> engine_call list option" where
  "pdo_sqlite_error_check sys stmt err =
     (case err of
        None \<Rightarrow> Some []
      | Some e \<Rightarrow>
          do { query_string \<leftarrow> stmt;
               let query = (case query_string of Some q \<Rightarrow> q | None \<Rightarrow> cs ''query'');
               Some (sql_check sys query e) })"

text \<open>An error message of PHP: \<open>php_verror\<close> hands it to the extension, and then to the error handler
  \<open>php_error_cb\<close>, which cuts it to \<open>log_errors_max_len\<close> bytes, when that is not 0, and hands it over
  again.\<close>

definition php_error_cb_call :: "nat \<Rightarrow> bytes \<Rightarrow> engine_call list" where
  "php_error_cb_call max_len msg = [Bug_Call (if max_len = 0 then msg else take max_len msg) None]"

text \<open>\<open>user_handler\<close>: the program has an error handler of its own, which is called instead.\<close>

definition php_verror_calls :: "bool \<Rightarrow> nat \<Rightarrow> bytes \<Rightarrow> engine_call list" where
  "php_verror_calls user_handler max_len msg =
     Bug_Call msg None # (if user_handler then [] else php_error_cb_call max_len msg)"

subsection \<open>Regular expressions\<close>

text \<open>The start of \<open>php_do_pcre_match\<close>, of \<open>pcre_get_compiled_regex_cache_ex\<close>, and of
  \<open>php_pcre_match_impl\<close> and \<open>php_pcre_replace_impl\<close>, which get the compiled expression with the text it
  was compiled from, if any. Both hooks are installed together.\<close>

definition subject_feedback :: "bytes \<Rightarrow> engine_call list" where
  "subject_feedback subject = (if length subject > 0 then [Feedback 0x44] else [])"

definition php_do_pcre_match_calls :: "bytes \<Rightarrow> bytes \<Rightarrow> engine_call list" where
  "php_do_pcre_match_calls regex subject = Preg_Call regex subject # subject_feedback subject"

definition pcre_get_compiled_calls :: "bytes \<Rightarrow> engine_call list" where
  "pcre_get_compiled_calls regex = [Preg_Call regex []]"

definition php_pcre_match_impl_calls :: "bytes option \<Rightarrow> bytes \<Rightarrow> engine_call list" where
  "php_pcre_match_impl_calls pce_regex subject =
     (case pce_regex of Some re \<Rightarrow> Preg_Call re subject # subject_feedback subject | None \<Rightarrow> [])"

definition php_pcre_replace_impl_calls :: "bytes option \<Rightarrow> bytes \<Rightarrow> engine_call list" where
  "php_pcre_replace_impl_calls pce_regex subject =
     (case pce_regex of Some re \<Rightarrow> Preg_Call re subject # subject_feedback subject | None \<Rightarrow> [])"

text \<open>The calls of one match: \<open>compiled\<close> says whether the expression could be compiled, and \<open>matched\<close> is
  the number of matches, or none after an error.\<close>

definition preg_match_calls :: "bool \<Rightarrow> bytes \<Rightarrow> bytes \<Rightarrow> nat option \<Rightarrow> engine_call list" where
  "preg_match_calls compiled regex subject matched =
     php_do_pcre_match_calls regex subject @ pcre_get_compiled_calls regex @
     (if compiled
      then php_pcre_match_impl_calls (Some regex) subject @
           (case matched of Some n \<Rightarrow> if n > 0 then [Feedback 0xc3] else [] | None \<Rightarrow> [])
      else [])"

end
