(* ===== verification/Engine_Arrays.thy ===== *)
theory Engine_Arrays
  imports Engine_Hooks
begin

text \<open>
  \<open>in_array\<close> and \<open>array_search\<close> of \<open>php-7.4-patched/ext/standard/array.c\<close> and the comparison of strings
  without case of \<open>Zend/zend_operators.c\<close>, with the hooks that report their operands.
\<close>

subsection \<open>Values\<close>

text \<open>A value of PHP: an integer, a string, a reference, or a value of another type.\<close>

datatype 'o pval = P_Long u64 | P_Str zend_string | P_Ref "'o pval" | P_Other 'o

abbreviation (input) IS_TRUE :: nat where "IS_TRUE \<equiv> 3"
abbreviation (input) IS_LONG :: nat where "IS_LONG \<equiv> 4"
abbreviation (input) IS_STRING :: nat where "IS_STRING \<equiv> 6"
abbreviation (input) IS_REFERENCE :: nat where "IS_REFERENCE \<equiv> 10"

fun deref :: "'o pval \<Rightarrow> 'o pval" where
  "deref (P_Ref v) = v"
| "deref v = v"

subsection \<open>Equality\<close>

text \<open>A string can be a number. Floating point arithmetic and \<open>is_numeric_string_ex\<close> are parameters; the
  latter gives the number and to which side it overflowed.\<close>

datatype 'd number = Num_Long u64 | Num_Double 'd

record 'd float_ops =
  f_parse :: "bytes \<Rightarrow> ('d number \<times> int) option"
  f_of_long :: "u64 \<Rightarrow> 'd"
  f_eq :: "'d \<Rightarrow> 'd \<Rightarrow> bool"
  f_diff_zero :: "'d \<Rightarrow> 'd \<Rightarrow> bool"
  f_finite :: "'d \<Rightarrow> bool"

text \<open>\<open>dval1\<close> and \<open>dval2\<close>, which start as 0.\<close>

definition dval_of :: "'d float_ops \<Rightarrow> 'd number \<Rightarrow> 'd" where
  "dval_of fl n = (case n of Num_Double d \<Rightarrow> d | Num_Long _ \<Rightarrow> f_of_long fl 0)"

text \<open>The comparisons return the calls they make beside the result.\<close>

definition string_cmp :: "zend_string \<Rightarrow> zend_string \<Rightarrow> bool \<times> engine_call list" where
  "string_cmp s1 s2 = apsnd (map Hash_Call) (zend_string_equal_content s1 s2)"

definition zendi_smart_streq :: "'d float_ops \<Rightarrow> zend_string \<Rightarrow> zend_string \<Rightarrow> bool \<times> engine_call list" where
  "zendi_smart_streq fl s1 s2 =
     (case f_parse fl (zs_val s1) of
        None \<Rightarrow> string_cmp s1 s2
      | Some (n1, oflow1) \<Rightarrow>
         (case f_parse fl (zs_val s2) of
            None \<Rightarrow> string_cmp s1 s2
          | Some (n2, oflow2) \<Rightarrow>
              if oflow1 \<noteq> 0 \<and> oflow1 = oflow2 \<and> f_diff_zero fl (dval_of fl n1) (dval_of fl n2)
              then string_cmp s1 s2
              else (case (n1, n2) of
                      (Num_Long x, Num_Long y) \<Rightarrow> (x = y, [])
                    | (Num_Long x, Num_Double e) \<Rightarrow> (oflow2 = 0 \<and> f_eq fl (f_of_long fl x) e, [])
                    | (Num_Double d, Num_Long y) \<Rightarrow> (oflow1 = 0 \<and> f_eq fl d (f_of_long fl y), [])
                    | (Num_Double d, Num_Double e) \<Rightarrow>
                        if f_eq fl d e \<and> \<not> f_finite fl d then string_cmp s1 s2 else (f_eq fl d e, []))))"

definition zend_fast_equal_strings :: "'d float_ops \<Rightarrow> zend_string \<Rightarrow> zend_string \<Rightarrow> bool \<times> engine_call list" where
  "zend_fast_equal_strings fl s1 s2 =
     (if zs_addr s1 = zs_addr s2 then (True, [])
      else if 57 <s char_at (zs_val s1) 0 \<or> 57 <s char_at (zs_val s2) 0 then string_cmp s1 s2
      else zendi_smart_streq fl s1 s2)"

text \<open>What the comparisons need from the rest of the engine: the type of the other values, whether
  \<open>compare_function\<close> finds two values equal, and whether two other values of the same type are
  identical.\<close>

record ('o, 'd) engine_ops =
  floats :: "'d float_ops"
  other_type :: "'o \<Rightarrow> nat"
  compare_equal :: "'o pval \<Rightarrow> 'o pval \<Rightarrow> bool \<times> engine_call list"
  other_identical :: "'o \<Rightarrow> 'o \<Rightarrow> bool \<times> engine_call list"

fun type_of :: "('o, 'd) engine_ops \<Rightarrow> 'o pval \<Rightarrow> nat" where
  "type_of ops (P_Long _) = IS_LONG"
| "type_of ops (P_Str _) = IS_STRING"
| "type_of ops (P_Ref _) = IS_REFERENCE"
| "type_of ops (P_Other v) = other_type ops v"

definition fast_equal_check_long :: "('o, 'd) engine_ops \<Rightarrow> u64 \<Rightarrow> 'o pval \<Rightarrow> bool \<times> engine_call list" where
  "fast_equal_check_long ops x v2 =
     (case v2 of P_Long y \<Rightarrow> (x = y, []) | _ \<Rightarrow> compare_equal ops (P_Long x) v2)"

definition fast_equal_check_string ::
    "('o, 'd) engine_ops \<Rightarrow> zend_string \<Rightarrow> 'o pval \<Rightarrow> bool \<times> engine_call list" where
  "fast_equal_check_string ops s v2 =
     (case v2 of P_Str t \<Rightarrow> zend_fast_equal_strings (floats ops) s t | _ \<Rightarrow> compare_equal ops (P_Str s) v2)"

text \<open>The fast paths for doubles are part of \<open>compare_equal\<close>.\<close>

definition fast_equal_check_function ::
    "('o, 'd) engine_ops \<Rightarrow> 'o pval \<Rightarrow> 'o pval \<Rightarrow> bool \<times> engine_call list" where
  "fast_equal_check_function ops v1 v2 =
     (case (v1, v2) of
        (P_Long x, P_Long y) \<Rightarrow> (x = y, [])
      | (P_Str s, P_Str t) \<Rightarrow> zend_fast_equal_strings (floats ops) s t
      | _ \<Rightarrow> compare_equal ops v1 v2)"

text \<open>The test for values that are always identical is part of both functions. References are never
  identical here.\<close>

definition zend_is_identical :: "('o, 'd) engine_ops \<Rightarrow> 'o pval \<Rightarrow> 'o pval \<Rightarrow> bool \<times> engine_call list" where
  "zend_is_identical ops v1 v2 =
     (if type_of ops v1 \<noteq> type_of ops v2 then (False, [])
      else case (v1, v2) of
             (P_Long x, P_Long y) \<Rightarrow> (x = y, [])
           | (P_Str s, P_Str t) \<Rightarrow> apsnd (map Hash_Call) (zend_string_equals s t)
           | (P_Other v, P_Other w) \<Rightarrow>
               if other_type ops v \<le> IS_TRUE then (True, []) else other_identical ops v w
           | _ \<Rightarrow> (False, []))"

definition fast_is_identical_function ::
    "('o, 'd) engine_ops \<Rightarrow> 'o pval \<Rightarrow> 'o pval \<Rightarrow> bool \<times> engine_call list" where
  "fast_is_identical_function ops v1 v2 =
     (if type_of ops v1 \<noteq> type_of ops v2 then (False, [])
      else if type_of ops v1 \<le> IS_TRUE then (True, [])
      else zend_is_identical ops v1 v2)"

subsection \<open>The search\<close>

text \<open>The elements that \<open>ZEND_HASH_FOREACH_KEY_VAL_IND\<close> meets: \<open>n\<close> buckets from \<open>i\<close> on, with indirect values
  followed and unset ones left out.\<close>

fun foreach_ind :: "nat \<Rightarrow> nat \<Rightarrow> 'v hashtable \<Rightarrow> (hkey \<times> 'v) list option" where
  "foreach_ind 0 i ht = Some []"
| "foreach_ind (Suc n) i ht =
     do { b \<leftarrow> bucket_in (arData ht) i;
          rest \<leftarrow> foreach_ind n (Suc i) ht;
          let z = (case b_val b of IS_INDIRECT a \<Rightarrow> ht_slots ht a | v \<Rightarrow> v);
          Some (case z of
                  ZV v \<Rightarrow> ((case b_key b of Some k \<Rightarrow> Str (zs_val k) | None \<Rightarrow> Idx (b_h b)), v) # rest
                | _ \<Rightarrow> rest) }"

text \<open>The loop: \<open>check\<close> says whether an element is the one, and with which calls.\<close>

fun search_loop ::
    "('o pval \<Rightarrow> (bool \<times> engine_call list) option) \<Rightarrow> (hkey \<times> 'o pval) list \<Rightarrow>
     (hkey option \<times> engine_call list) option" where
  "search_loop check [] = Some (None, [])"
| "search_loop check ((k, entry) # es) =
     do { (found, calls) \<leftarrow> check entry;
          if found then Some (Some k, calls @ [Feedback 0x13])
          else map_option (\<lambda>(r, more). (r, calls @ more)) (search_loop check es) }"

text \<open>The report of a comparison of strings. The hook is called as soon as the element is a string; the
  searched value is read as one too, whatever it is.\<close>

definition report_strings :: "bool \<Rightarrow> 'o pval \<Rightarrow> 'o pval \<Rightarrow> engine_call list option" where
  "report_strings hooked entry needle =
     (case entry of
        P_Str s \<Rightarrow>
          if hooked
          then (case needle of P_Str t \<Rightarrow> Some [Hash_Call (Cmp_Call (zs_val s) (zs_val t))] | _ \<Rightarrow> None)
          else Some []
      | _ \<Rightarrow> Some [])"

definition check_entry ::
    "('o, 'd) engine_ops \<Rightarrow> bool \<Rightarrow> bool \<Rightarrow> 'o pval \<Rightarrow> 'o pval \<Rightarrow> (bool \<times> engine_call list) option" where
  "check_entry ops hooked strict needle entry =
     (if strict
      then (let entry = deref entry
            in case needle of
                 P_Long x \<Rightarrow> Some (entry = P_Long x, [])
               | _ \<Rightarrow> map_option (\<lambda>calls. apsnd ((@) calls) (fast_is_identical_function ops needle entry))
                        (report_strings hooked entry needle))
      else (case needle of
              P_Long x \<Rightarrow> Some (fast_equal_check_long ops x entry)
            | P_Str s \<Rightarrow> map_option (\<lambda>calls. apsnd ((@) calls) (fast_equal_check_string ops s entry))
                          (report_strings hooked entry needle)
            | _ \<Rightarrow> Some (fast_equal_check_function ops needle entry)))"

text \<open>\<open>hooked\<close> says that the hooks are installed, else no call is made. The result of \<open>in_array\<close> is
  whether there is one, that of \<open>array_search\<close> is its key.\<close>

datatype search_result = Is_False | Is_True | Is_Key hkey

definition php_search_array ::
    "('o, 'd) engine_ops \<Rightarrow> bool \<Rightarrow> bool \<Rightarrow> bool \<Rightarrow> 'o pval \<Rightarrow> 'o pval hashtable \<Rightarrow>
     (search_result \<times> engine_call list) option" where
  "php_search_array ops hooked give_key strict needle ht =
     do { es \<leftarrow> foreach_ind (unat (nNumUsed ht)) 0 ht;
          (r, calls) \<leftarrow> search_loop (check_entry ops hooked strict needle) es;
          Some (case r of None \<Rightarrow> Is_False | Some k \<Rightarrow> if give_key then Is_Key k else Is_True,
                if hooked then calls else []) }"

subsection \<open>Comparison without case\<close>

text \<open>The table \<open>tolower_map\<close> of \<open>zend_operators.c\<close>.\<close>

definition tolower_ascii :: "u8 \<Rightarrow> u8" where
  "tolower_ascii c = (if 0x41 \<le> c \<and> c \<le> 0x5a then c + 0x20 else c)"

text \<open>The loop over the common length; \<open>None\<close> when it finds no difference.\<close>

fun casecmp_loop :: "bytes \<Rightarrow> bytes \<Rightarrow> int option" where
  "casecmp_loop (a # s1) (b # s2) =
     (let c1 = uint (tolower_ascii a); c2 = uint (tolower_ascii b)
      in if c1 \<noteq> c2 then Some (c1 - c2) else casecmp_loop s1 s2)"
| "casecmp_loop _ _ = None"

text \<open>\<open>same\<close> says that both operands are the same memory.\<close>

definition zend_binary_strcasecmp :: "bool \<Rightarrow> bytes \<Rightarrow> bytes \<Rightarrow> int \<times> engine_call list" where
  "zend_binary_strcasecmp same s1 s2 =
     ((if same then 0
       else case casecmp_loop s1 s2 of
              Some d \<Rightarrow> d
            | None \<Rightarrow> sint (word_of_int (int (length s1) - int (length s2)) :: u32)),
      [Hash_Call (Cmp_Call s1 s2)])"

end
