(* ===== verification/Zend_Vector.thy ===== *)
theory Zend_Vector
  imports Engine_Arrays Zend_Hash_Examples
begin

text \<open>
  Arrays as sequences: what a loop over an array meets, and arrays that are filled by appending, as
  \<open>explode\<close> does it. Such an array stays packed, and its elements have the keys 0, 1, 2 and so on.
\<close>

subsection \<open>Loops over arrays\<close>

definition visible_value :: "(nat \<Rightarrow> 'v zval) \<Rightarrow> 'v zval \<Rightarrow> 'v option" where
  "visible_value slots z =
     (case (case z of IS_INDIRECT a \<Rightarrow> slots a | v \<Rightarrow> v) of ZV v \<Rightarrow> Some v | _ \<Rightarrow> None)"

definition visible :: "'v hashtable \<Rightarrow> (hkey \<times> 'v) list" where
  "visible ht = List.map_filter (\<lambda>(q, z). map_option (Pair q) (visible_value (ht_slots ht) z)) (ht_list ht)"

lemma foreach_ind_elems:
  assumes "\<And>j. i \<le> j \<Longrightarrow> j < i + n \<Longrightarrow> bucket_in (arData ht) j \<noteq> None"
  shows "foreach_ind n i ht = Some (List.map_filter
    (\<lambda>e. map_option (Pair (entry_key e)) (visible_value (ht_slots ht) (fst e))) (elems (arData ht) i n))"
  using assms
proof (induction n arbitrary: i)
  case 0
  then show ?case by (simp add: elems_def List.map_filter_simps)
next
  case (Suc n)
  obtain b where b: "bucket_in (arData ht) i = Some b" using Suc.prems [of i] by auto
  have "foreach_ind n (Suc i) ht = Some (List.map_filter
      (\<lambda>e. map_option (Pair (entry_key e)) (visible_value (ht_slots ht) (fst e))) (elems (arData ht) (Suc i) n))"
    using Suc by simp
  then show ?case using b
    by (cases "b_val b"; cases "b_key b") (auto simp: elems_Suc held_def List.map_filter_simps visible_value_def split: zval.split)
qed

lemma foreach_ind_ok:
  assumes "ht_ok ht"
  shows "foreach_ind (unat (nNumUsed ht)) 0 ht = Some (visible ht)"
proof -
  have "bucket_in (arData ht) j \<noteq> None" if "j < unat (nNumUsed ht)" for j
    using assms
  proof (rule ht_okE)
    fix k assume "fresh_ok k ht"
    then show ?thesis using that by (simp add: fresh_ok_def)
  qed (use that in \<open>auto simp: contents_ok_def\<close>)
  then have "foreach_ind (unat (nNumUsed ht)) 0 ht = Some (List.map_filter
      (\<lambda>e. map_option (Pair (entry_key e)) (visible_value (ht_slots ht) (fst e))) (ht_elems ht))"
    using foreach_ind_elems [of 0 "unat (nNumUsed ht)" ht] by (simp add: ht_elems_def)
  then show ?thesis by (simp add: visible_def ht_list_def List.map_filter_def filter_map o_def)
qed

subsection \<open>Appending\<close>

definition vec_list :: "'v zval list \<Rightarrow> (hkey \<times> 'v zval) list" where
  "vec_list vs = map (\<lambda>i. (Idx (word_of_nat i), vs ! i)) [0..<length vs]"

definition vec_ok :: "'v hashtable \<Rightarrow> 'v zval list \<Rightarrow> bool" where
  "vec_ok ht vs \<longleftrightarrow> (\<exists>k. (packed_ok k ht \<or> fresh_ok k ht) \<and> 2 ^ k \<le> max 8 (2 * length vs)) \<and>
     nNumUsed ht = word_of_nat (length vs) \<and> nNextFreeElement ht = word_of_nat (length vs) \<and> ht_list ht = vec_list vs"

lemma vec_list_snoc: "vec_list (vs @ [v]) = vec_list vs @ [(Idx (word_of_nat (length vs)), v)]"
  by (simp add: vec_list_def nth_append)

lemma vec_is_ok: "vec_ok ht vs \<Longrightarrow> ht_ok ht"
  by (auto simp: vec_ok_def ht_ok_def)

lemma vec_new: "\<exists>ht. zend_new_array 8 slots = Some ht \<and> vec_ok ht [] \<and> ht_slots ht = slots"
proof -
  have "zend_hash_check_size 8 = Some (2 ^ 3)" by code_simp
  then have "\<exists>ht. zend_new_array 8 slots = Some ht \<and> fresh_ok 3 ht \<and> nNumUsed ht = 0 \<and> nNextFreeElement ht = 0 \<and>
      ht_list ht = [] \<and> ht_slots ht = slots"
    by (auto simp: zend_new_array_def zend_hash_init_int_def fresh_ok_def ht_list_def ht_elems_def elems_def
        List.map_filter_simps)
  then show ?thesis by (auto simp: vec_ok_def vec_list_def intro!: exI [of _ 3])
qed

lemma add_to_packed_used:
  assumes "add_to_packed ht h v flag = Some (p, ht')"
  shows "nNumUsed ht' = ucast (h + 1) \<and> nNextFreeElement ht' = ucast (ucast (h + 1) :: u32)"
  using assms by (auto simp: add_to_packed_def put_bucket_def Let_def split: Option.bind_splits if_splits)

lemma vec_push_at:
  assumes ok: "vec_ok ht vs" and v: "v \<noteq> IS_UNDEF" and n: "length vs < 2 ^ 28"
  shows "\<exists>p ht'. zend_hash_index_add_or_update_i ht (word_of_nat (length vs)) v flag = Some (Some p, ht') \<and>
    vec_ok ht' (vs @ [v])"
proof -
  let ?n = "length vs" and ?h = "word_of_nat (length vs) :: u64"
  obtain k where k: "packed_ok k ht \<or> fresh_ok k ht" "2 ^ k \<le> max 8 (2 * ?n)" using ok by (auto simp: vec_ok_def)
  have f: "nNumUsed ht = word_of_nat ?n" "nNextFreeElement ht = ?h" "ht_list ht = vec_list vs" using ok by (simp_all add: vec_ok_def)
  have u: "unat ?h = ?n" "unat (nNumUsed ht) = ?n" using n f(1) by (simp_all add: unat64_of_nat unat_of_nat32)
  have "(2::nat) ^ k < 2 ^ 30" using k(2) n by (simp add: max_def split: if_splits)
  then have k30: "k < 30" by (rule power_less_imp_less_exp [rotated]) simp
  have new: "Idx ?h \<notin> fst ` set (ht_list ht)"
  proof
    assume "Idx ?h \<in> fst ` set (ht_list ht)"
    then obtain i where "i < ?n" "(word_of_nat i :: u64) = ?h" using f(3) by (auto simp: vec_list_def)
    then show False using u(1) n unat64_of_nat [of i] by simp
  qed
  have add: "\<exists>p ht'. add_to_packed ht1 ?h v flag = Some (Some p, ht') \<and> vec_ok ht' (vs @ [v])"
    if p: "packed_ok j ht1" "?n < 2 ^ j" "2 ^ j \<le> max 8 (2 * Suc ?n)" "ht_list ht1 = ht_list ht" "unat (nNumUsed ht1) = ?n" for j ht1
  proof -
    obtain p ht' where a: "add_to_packed ht1 ?h v flag = Some (Some p, ht')" "packed_ok j ht'"
      "ht_list ht' = AList.update (Idx ?h) v (ht_list ht1)"
      using add_to_packed_ok [OF p(1) _ _ v, of ?h flag] p(2,5) u by auto
    have "ht_list ht' = vec_list (vs @ [v])"
      using a(3) AList_update_new [OF new] p(4) f(3) by (simp add: vec_list_snoc)
    moreover have "nNumUsed ht' = word_of_nat (length (vs @ [v]))" "nNextFreeElement ht' = word_of_nat (length (vs @ [v]))"
    proof -
      have w: "?h + 1 = word_of_nat (Suc ?n)" by simp
      have "(ucast (word_of_nat (Suc ?n) :: u64) :: u32) = word_of_nat (Suc ?n)"
        "(ucast (word_of_nat (Suc ?n) :: u32) :: u64) = word_of_nat (Suc ?n)"
        using n by (simp_all add: word_unat_eq_iff unsigned_ucast_eq unat64_of_nat unat_of_nat32 take_bit_nat_eq_self del: of_nat_Suc)
      then show "nNumUsed ht' = word_of_nat (length (vs @ [v]))" "nNextFreeElement ht' = word_of_nat (length (vs @ [v]))"
        using add_to_packed_used [OF a(1)] unfolding w by simp_all
    qed
    ultimately show ?thesis using a(1,2) p(3) by (auto simp: vec_ok_def)
  qed
  show ?thesis
    using k(1)
  proof
    assume fresh: "fresh_ok k ht"
    then have s: "unat (nTableSize ht) = 2 ^ k" "\<not> f_packed ht" "f_uninitialized ht" "?n = 0"
      using unat_exp32 [of k] u(2) by (simp_all add: fresh_ok_def)
    note i = init_packed_ok [OF fresh]
    have "ht_list (zend_hash_real_init_packed_ex ht) = ht_list ht" using i(2) f(3) s(4) by (simp add: ht_list_def vec_list_def)
    then show ?thesis
      using add [of k "zend_hash_real_init_packed_ex ht"] i k(2) s
      by (simp add: zend_hash_index_add_or_update_i_def u64_less max_def split: if_splits)
  next
    assume packed: "packed_ok k ht"
    note c = packed_okD(1) [OF packed] and b = contents_bounds [OF packed_okD(1) [OF packed]]
    have size: "unat (nTableSize ht) = 2 ^ k" by (rule b(5))
    have fp: "f_packed ht" by (rule packed_okD(2) [OF packed])
    show ?thesis
    proof (cases "?n < 2 ^ k")
      case True
      then show ?thesis using add [OF packed True] k(2) u fp size
        by (simp add: zend_hash_index_add_or_update_i_def index_packed_def u64_less max_def split: if_splits)
    next
      case False
      then have full: "?n = 2 ^ k" using b(1) u(2) by simp
      obtain ht1 where g: "zend_hash_packed_grow ht = Some ht1" "packed_ok (Suc k) ht1" "ht_elems ht1 = ht_elems ht"
        "nNumUsed ht1 = nNumUsed ht"
        using packed_grow_ok [OF packed k30] by blast
      have len: "length (ht_elems ht) = ?n" using f(3) by (metis ht_list_def length_map length_upt minus_nat.diff_0 vec_list_def)
      have el: "unat (nNumOfElements ht) = ?n" using c len n by (simp add: contents_ok_def unat_of_nat32)
      have bail: "\<not> ht_bailout ht1" using g(2) by (simp add: packed_ok_def contents_ok_def)
      have half: "?n div 2 < ?n" using full by simp
      have cond: "drop_bit 1 ?h < ucast (nTableSize ht)" "drop_bit 1 (nTableSize ht) < nNumOfElements ht"
        using half unfolding word_less_nat_alt unat_drop_bit_eq unat_u32_u64 u(1) size el
        by (simp_all add: drop_bit_eq_div flip: full)
      show ?thesis
        using add [OF g(2)] full g u fp size cond bail
        by (simp add: zend_hash_index_add_or_update_i_def index_packed_def u64_less ht_list_def)
    qed
  qed
qed

lemma vec_push:
  assumes "vec_ok ht vs" "v \<noteq> IS_UNDEF" "length vs < 2 ^ 28"
  shows "\<exists>p ht'. zend_hash_next_index_insert_new ht v = Some (Some p, ht') \<and> vec_ok ht' (vs @ [v])"
proof -
  have "nNextFreeElement ht = word_of_nat (length vs)" using assms(1) by (simp add: vec_ok_def)
  then show ?thesis using vec_push_at [OF assms] by (simp add: zend_hash_next_index_insert_new_def)
qed

lemma vec_first:
  assumes "vec_ok ht []" "v \<noteq> IS_UNDEF"
  shows "\<exists>p ht'. zend_hash_index_add_new ht 0 v = Some (Some p, ht') \<and> vec_ok ht' [v]"
  using vec_push_at [OF assms] by (simp add: zend_hash_index_add_new_def)

lemma vec_build:
  "vec_ok ht vs \<Longrightarrow> length vs + length xs < 2 ^ 28 \<Longrightarrow>
    vec_ok (foldl (\<lambda>ht v. snd (the (zend_hash_next_index_insert_new ht (ZV v)))) ht xs) (vs @ map ZV xs)"
proof (induction xs arbitrary: ht vs)
  case (Cons x xs)
  obtain p ht' where "zend_hash_next_index_insert_new ht (ZV x) = Some (Some p, ht')" "vec_ok ht' (vs @ [ZV x])"
    using vec_push [OF Cons.prems(1), of "ZV x"] Cons.prems(2) by auto
  then show ?case using Cons.IH [of ht' "vs @ [ZV x]"] Cons.prems(2) by simp
qed simp

text \<open>An array of some values, for examples.\<close>

definition ex_array :: "'v list \<Rightarrow> 'v hashtable" where
  "ex_array xs = foldl (\<lambda>ht v. snd (the (zend_hash_next_index_insert_new ht (ZV v)))) (the (zend_new_array 8 (\<lambda>_. IS_UNDEF))) xs"

lemma ex_array_ok:
  assumes "length xs < 2 ^ 28"
  shows "ht_ok (ex_array xs) \<and> ht_list (ex_array xs) = vec_list (map ZV xs)"
proof -
  obtain ht where "zend_new_array 8 (\<lambda>_. IS_UNDEF :: 'a zval) = Some ht" "vec_ok ht []"
    using vec_new [of "\<lambda>_. IS_UNDEF"] by blast
  then have "vec_ok (ex_array xs) (map ZV xs)" using vec_build [of ht "[]" xs] assms by (simp add: ex_array_def)
  then show ?thesis by (simp add: vec_is_ok) (simp add: vec_ok_def)
qed

end
