(* ===== verification/Engine_Hooks_Correct.thy ===== *)
theory Engine_Hooks_Correct
  imports Zend_Vector Zend_Symtable_Correct Pcov_Redqueen Pcov_Correct
begin

text \<open>
  From the engine to the fuzzer: what lookups of arrays send to the host, when the checks of the file
  functions end in a report, and what the search in arrays finds and tells the extension.
\<close>

subsection \<open>Calls from lookups\<close>

text \<open>The part of the state that the stream of strings depends on, with the settings of the hooks.\<close>

definition rq_view :: "pcov \<Rightarrow> host_output list \<times> bytes option \<times> int \<times> bool \<times> bool \<times> bool" where
  "rq_view st = (outputs st, dump_file_obj st, pinned_core st, redqueen_mode_enabled st,
     redqueen_callback st, coverage_dump_enabled st)"

lemma rq_view_payload:
  "rq_view st = rq_view st' \<Longrightarrow> rq_view (dump_payload b f st) = rq_view (dump_payload b f st')"
  by (auto simp: rq_view_def dump_payload_def dump_file_name_def emit_def Let_def split: option.splits)

lemma rq_view_call:
  assumes "rq_view st = rq_view st'" "redqueen_mode_enabled st" "rq_event_ok e"
  shows "rq_view (rq_call e st) = rq_view (rq_call e st')"
proof -
  have "redqueen_mode_enabled st'" using assms(1,2) by (simp add: rq_view_def)
  then show ?thesis using assms rq_view_payload [OF assms(1)] by (simp add: rq_call_eq)
qed

lemma rq_call_settings:
  assumes "redqueen_mode_enabled st" "rq_event_ok e"
  shows "redqueen_mode_enabled (rq_call e st) = redqueen_mode_enabled st"
    "redqueen_callback (rq_call e st) = redqueen_callback st"
    "coverage_dump_enabled (rq_call e st) = coverage_dump_enabled st"
  using assms by (auto simp: rq_call_eq dump_payload_def emit_def Let_def split: option.splits)

lemma rq_view_mark: "rq_view (snd (mark_bitmap h st)) = rq_view st"
  by (auto simp: mark_bitmap_def read_from_trace_buffer_def write_to_trace_buffer_def rq_view_def Let_def
      split: option.splits prod.splits if_splits)

lemma coverage_mark: "coverage_dump_enabled (snd (mark_bitmap h st)) = coverage_dump_enabled st"
  using rq_view_mark [of h st] by (simp add: rq_view_def)

lemma rq_view_access:
  "\<not> coverage_dump_enabled st \<Longrightarrow> rq_view (php_pcov_array_access s n st) = rq_view st"
  by (simp add: php_pcov_array_access_def Let_def case_prod_unfold coverage_mark rq_view_mark)

lemma c_int_small: "n < 2 ^ 31 \<Longrightarrow> c_int n = int n"
  by (simp add: c_int_def signed_of_nat signed_take_bit_int_eq_self)

text \<open>Looking up keys one after the other, and the calls that this makes.\<close>

fun str_lookups :: "bytes list \<Rightarrow> 'v hashtable \<Rightarrow> 'v hashtable option" where
  "str_lookups [] ht = Some ht"
| "str_lookups (s # ss) ht = do { (r, ht) \<leftarrow> zend_hash_str_find ht s; str_lookups ss ht }"

definition lookup_calls :: "'v hashtable \<Rightarrow> bytes list \<Rightarrow> hook_call list" where
  "lookup_calls ht ss = map (\<lambda>s. if Str s \<in> fst ` set (ht_list ht) then Access_Call s else Redqueen_Call s) ss"

lemma str_lookups_eq:
  "ht_ok ht \<Longrightarrow> str_lookups ss ht = Some (log_event (map Hook (lookup_calls ht ss)) ht)"
proof (induction ss arbitrary: ht)
  case Nil
  then show ?case by (simp add: lookup_calls_def log_event_def)
next
  case (Cons s ss)
  let ?c = "if Str s \<in> fst ` set (ht_list ht) then Access_Call s else Redqueen_Call s"
  have c: "lookup_report s (index_of ht (Str s)) = ?c"
    using index_of_None [of ht "Str s"] by (cases "index_of ht (Str s)") (simp_all add: lookup_report_def)
  have "zend_inline_hash_func s = zend_hash_func s" by (simp add: zend_hash_func_def)
  then have f: "zend_hash_str_find ht s = Some (map_option word_of_nat (index_of ht (Str s)), log_event [Hook ?c] ht)"
    using str_find_eq [OF Cons.prems, of s] c by (simp add: zend_hash_str_find_def)
  have "lookup_calls (log_event [Hook ?c] ht) ss = lookup_calls ht ss"
    "lookup_calls ht (s # ss) = ?c # lookup_calls ht ss" by (simp_all add: lookup_calls_def)
  then show ?case using Cons.IH [of "log_event [Hook ?c] ht"] Cons.prems f by (simp add: log_event_twice)
qed

definition missing :: "'v hashtable \<Rightarrow> bytes list \<Rightarrow> bytes list" where
  "missing ht ss = filter (\<lambda>s. Str s \<notin> fst ` set (ht_list ht)) ss"

lemma deliver_lookups:
  assumes "rq_view st = rq_view st'" "redqueen_mode_enabled st" "redqueen_callback st" "\<not> coverage_dump_enabled st"
    "list_all (\<lambda>s. length s < 2 ^ 31) ss"
  shows "rq_view (deliver sys (map Hash_Call (lookup_calls ht ss)) st) = rq_view (fold rq_call (map Rq_Key (missing ht ss)) st')"
  using assms
proof (induction ss arbitrary: st st')
  case Nil
  then show ?case by (simp add: deliver_def lookup_calls_def missing_def)
next
  case (Cons s ss)
  have s: "length s < 2 ^ 31" "rq_event_ok (Rq_Key s)" using Cons.prems(5) by (simp_all add: rq_event_ok_def)
  show ?case
  proof (cases "Str s \<in> fst ` set (ht_list ht)")
    case True
    let ?st = "deliver_hook (Access_Call s) st"
    have "rq_view ?st = rq_view st" using rq_view_access [OF Cons.prems(4)] by (simp add: deliver_hook_def)
    moreover from this have "redqueen_mode_enabled ?st" "redqueen_callback ?st" "\<not> coverage_dump_enabled ?st"
      using Cons.prems(2-4) by (simp_all add: rq_view_def)
    ultimately show ?thesis using Cons.IH [of ?st st'] Cons.prems True
      by (simp add: deliver_def lookup_calls_def missing_def deliver_call_def)
  next
    case False
    let ?st = "deliver_hook (Redqueen_Call s) st"
    have st: "?st = rq_call (Rq_Key s) st" using Cons.prems(3) s(1) by (simp add: deliver_hook_def c_int_small)
    then have "rq_view ?st = rq_view (rq_call (Rq_Key s) st')"
      using rq_view_call [OF Cons.prems(1,2) s(2)] by simp
    moreover have "redqueen_mode_enabled ?st" "redqueen_callback ?st" "\<not> coverage_dump_enabled ?st"
      unfolding st using Cons.prems(2-4) rq_call_settings [OF Cons.prems(2) s(2)] by simp_all
    ultimately show ?thesis using Cons.IH [of ?st "rq_call (Rq_Key s) st'"] Cons.prems False
      by (simp add: deliver_def lookup_calls_def missing_def deliver_call_def)
  qed
qed

lemma rq_calls_parse:
  assumes "redqueen_mode_enabled st" "dump_file_obj st = None" "outputs st = []" "list_all rq_event_ok es"
  shows "parse_redqueen (host_file (cs ''strings_'' @ fmt_d (pinned_core st)) (outputs (fold rq_call es st)) []) =
    Some (filter rq_sent es)"
proof -
  have name: "dump_file_name (cs ''strings'') st = cs ''strings_'' @ fmt_d (pinned_core st)"
    by (simp add: dump_file_name_def cs_def)
  have sent: "list_all rq_sent (filter rq_sent es)" by (simp add: list_all_iff)
  show ?thesis
    using rq_calls_first [OF assms(1,4,2) name [symmetric]] assms(3) parse_encodes [of "[]"] parse_encodes [OF sent]
    by (cases "filter rq_sent es = []") (simp_all add: host_file_appends)
qed



subsection \<open>Safety of the calls\<close>

definition short_call :: "engine_call \<Rightarrow> bool" where
  "short_call c = (case c of
     Hash_Call (Cmp_Call s t) \<Rightarrow> length s < 2 ^ 31 \<and> length t < 2 ^ 31
   | Hash_Call (Access_Call s) \<Rightarrow> length s < 2 ^ 31
   | Hash_Call (Redqueen_Call s) \<Rightarrow> length s < 2 ^ 31
   | Feedback n \<Rightarrow> True
   | Preg_Call s t \<Rightarrow> length s < 2 ^ 31 \<and> length t < 2 ^ 31
   | Bug_Call msg ty \<Rightarrow> False)"

lemma c_arg_c_int: "length s < 2 ^ 31 \<Longrightarrow> c_arg s (c_int (length s))"
  by (simp add: c_int_small c_arg_def)

lemmas string_steps = step_equal step_array step_redqueen step_preg_match step_positive

lemma deliver_call_reachable:
  assumes "pcov_reachable st" "short_call c"
  shows "pcov_reachable (deliver_call sys c st)"
proof -
  have "deliver_call sys c st = st \<or> pcov_step st (deliver_call sys c st)"
  proof (cases c)
    case (Hash_Call h)
    then show ?thesis using assms(2)
      by (cases h) (auto simp: deliver_call_def deliver_hook_def short_call_def intro!: string_steps c_arg_c_int)
  qed (use assms(2) in \<open>auto simp: deliver_call_def short_call_def intro!: string_steps c_arg_c_int\<close>)
  then show ?thesis using assms(1) reach_step by metis
qed


text \<open>A system with the reports switched on, and a state with the hooks installed.\<close>

definition ex_os :: os where
  "ex_os = \<lparr>os_realpath = \<lambda>_. None, os_exists = \<lambda>p. p = cs ''/tmp/bug_oracle_enabled'', os_getenv = \<lambda>_. None,
     os_read = \<lambda>_. None\<rparr>"

definition ex_state :: pcov where
  "ex_state = enable_custom_feedback_functions pcov_initial"


subsection \<open>Reports of bugs\<close>

text \<open>The last dot starts the ending \<open>.php\<close> just when the name ends so.\<close>

lemma last_suffix_None: "last_suffix c s = None \<longleftrightarrow> c \<notin> set s"
  by (induction s) (auto split: option.splits)

lemma last_suffix_Some: "last_suffix c s = Some t \<longleftrightarrow> (\<exists>a r. s = a @ t \<and> t = c # r \<and> c \<notin> set r)"
proof (induction s)
  case (Cons x s)
  show ?case
  proof (cases "last_suffix c s")
    case None
    then have c: "c \<notin> set s" by (simp add: last_suffix_None)
    have "(\<exists>a r. x # s = a @ t \<and> t = c # r \<and> c \<notin> set r) \<longleftrightarrow> x = c \<and> t = c # s"
    proof
      assume "\<exists>a r. x # s = a @ t \<and> t = c # r \<and> c \<notin> set r"
      then obtain a r where "x # s = a @ c # r" "t = c # r" by blast
      then show "x = c \<and> t = c # s" using c by (cases a) auto
    qed (use c in auto)
    then show ?thesis using None by auto
  next
    case (Some u)
    then have "c \<in> set s" using last_suffix_None [of c s] by auto
    moreover have "(\<exists>a r. x # s = a @ t \<and> t = c # r \<and> c \<notin> set r) \<longleftrightarrow> (\<exists>a r. s = a @ t \<and> t = c # r \<and> c \<notin> set r)"
    proof
      assume "\<exists>a r. x # s = a @ t \<and> t = c # r \<and> c \<notin> set r"
      then obtain a r where "x # s = a @ t" "t = c # r" "c \<notin> set r" by blast
      then show "\<exists>a r. s = a @ t \<and> t = c # r \<and> c \<notin> set r" using \<open>c \<in> set s\<close> by (cases a) auto
    next
      assume "\<exists>a r. s = a @ t \<and> t = c # r \<and> c \<notin> set r"
      then show "\<exists>a r. x # s = a @ t \<and> t = c # r \<and> c \<notin> set r" by (metis append_Cons)
    qed
    ultimately show ?thesis using Some Cons.IH by simp
  qed
qed simp

definition names_php :: "bytes \<Rightarrow> bool" where
  "names_php f \<longleftrightarrow> (\<exists>a. c_str f = a @ cs ''.php'')"

definition has_crash :: "bytes \<Rightarrow> bool" where
  "has_crash f \<longleftrightarrow> (\<exists>a b. c_str f = a @ cs ''crash'' @ b)"

lemma dot_is_php_iff: "dot_is_php (strrchr f 46) \<longleftrightarrow> names_php f"
proof -
  have "cs ''.php'' = 46 # cs ''php''" "46 \<notin> set (cs ''php'')" by (simp_all add: cs_def)
  then show ?thesis by (simp add: dot_is_php_def strrchr_def last_suffix_Some names_php_def)
qed

lemma c_strstr_crash: "c_strstr f ''crash'' \<longleftrightarrow> has_crash f"
  by (simp add: c_strstr_def strstr_iff has_crash_def)

lemmas check_simps = dot_is_php_iff c_strstr_crash

lemma feedback_frame:
  assumes "\<not> coverage_dump_enabled st"
  shows "outputs (php_pcov_positive_feedback n st) = outputs st"
    "oracle_report t msg (php_pcov_positive_feedback n st) = oracle_report t msg st"
proof -
  have m: "current_filename (snd (mark_bitmap h st)) = current_filename st \<and>
    current_lineno (snd (mark_bitmap h st)) = current_lineno st" for h
    by (auto simp: mark_bitmap_def read_from_trace_buffer_def write_to_trace_buffer_def Let_def
        split: option.splits prod.splits if_splits)
  have f: "php_pcov_positive_feedback n st = snd (mark_bitmap (short_hash
      [0x3333, backtrace_hash st, current_lineno st, current_opcode_pos st, n]) st)"
    using assms by (simp add: php_pcov_positive_feedback_def Let_def case_prod_unfold coverage_mark)
  show "outputs (php_pcov_positive_feedback n st) = outputs st" unfolding f using rq_view_mark [of _ st] by (simp add: rq_view_def)
  show "oracle_report t msg (php_pcov_positive_feedback n st) = oracle_report t msg st" unfolding f oracle_report_def using m by simp
qed

lemma deliver_bug:
  assumes "bug_oracle_callback st" "\<not> coverage_dump_enabled st" "os_exists sys (cs ''/tmp/bug_oracle_enabled'')"
    and "length (oracle_report t msg st) < report_buffer_size"
  shows "outputs (deliver sys [Bug_Call msg (Some t)] st) =
    outputs st @ [Append_To (cs ''/tmp/bug_triggered'') (oracle_report t msg st)]"
  using assms feedback_frame [OF assms(2)]
  by (simp add: deliver_def deliver_call_def php_pcov_bug_oracle_def oracle_verdict_def Let_def emit_def)

text \<open>Reading a file with \<open>file_get_contents\<close> or \<open>readfile\<close> appends exactly one report of an arbitrary
  read, with the position of the program, when the name contains \<open>crash\<close> and ends in \<open>.php\<close>, and none
  otherwise, when reports are asked for and the position fits into the report.\<close>

theorem file_reads_reported:
  assumes "bug_oracle_callback st" "\<not> coverage_dump_enabled st" "os_exists sys (cs ''/tmp/bug_oracle_enabled'')"
    and "length (oracle_report (cs ''arbitrary read'') [] st) < report_buffer_size"
  shows "outputs (deliver sys (file_get_contents_check f) st) = outputs st @
      (if has_crash f \<and> names_php f
       then [Append_To (cs ''/tmp/bug_triggered'') (oracle_report (cs ''arbitrary read'') [] st)] else []) \<and>
    readfile_check f = file_get_contents_check f"
  using deliver_bug [OF assms]
  by (auto simp: file_get_contents_check_def readfile_check_def check_simps deliver_def Let_def)

subsection \<open>The search in arrays\<close>

text \<open>The comparison that applies to an element, with its own calls.\<close>

definition compare_entry :: "('o, 'd) engine_ops \<Rightarrow> bool \<Rightarrow> 'o pval \<Rightarrow> 'o pval \<Rightarrow> bool \<times> engine_call list" where
  "compare_entry ops strict needle entry =
     (if strict
      then (case needle of P_Long x \<Rightarrow> (deref entry = P_Long x, []) | _ \<Rightarrow> fast_is_identical_function ops needle (deref entry))
      else (case needle of P_Long x \<Rightarrow> fast_equal_check_long ops x entry
            | P_Str s \<Rightarrow> fast_equal_check_string ops s entry
            | _ \<Rightarrow> fast_equal_check_function ops needle entry))"

definition matches :: "('o, 'd) engine_ops \<Rightarrow> bool \<Rightarrow> 'o pval \<Rightarrow> 'o pval \<Rightarrow> bool" where
  "matches ops strict needle entry = fst (compare_entry ops strict needle entry)"

text \<open>The report of one element, for a string that is searched, and the calls of the comparison.\<close>

definition entry_report ::
    "('o, 'd) engine_ops \<Rightarrow> bool \<Rightarrow> bool \<Rightarrow> 'o pval \<Rightarrow> 'o pval \<Rightarrow> engine_call list" where
  "entry_report ops hooked strict needle entry =
     (case (needle, if strict then deref entry else entry) of
        (P_Str t, P_Str s) \<Rightarrow> if hooked then [Hash_Call (Cmp_Call (zs_val s) (zs_val t))] else []
      | _ \<Rightarrow> []) @ snd (compare_entry ops strict needle entry)"

lemma matches_strict_string:
  assumes "\<And>t. deref e = P_Str t \<Longrightarrow> zs_addr s = zs_addr t \<Longrightarrow> zs_val s = zs_val t"
  shows "matches ops True (P_Str s) e \<longleftrightarrow> (\<exists>t. deref e = P_Str t \<and> zs_val t = zs_val s)"
proof (cases "deref e")
  case (P_Str t)
  then show ?thesis using assms [OF P_Str] equal_content_iff [of s t]
    by (cases "zend_string_equal_content s t") (auto simp: matches_def compare_entry_def fast_is_identical_function_def
        zend_is_identical_def zend_string_equals_def Let_def split: if_splits)
qed (auto simp: matches_def compare_entry_def fast_is_identical_function_def zend_is_identical_def)

lemma check_entry_eq:
  assumes "(\<exists>t. needle = P_Str t) \<or> (\<exists>x. needle = P_Long x) \<or> \<not> strict \<or> \<not> hooked"
  shows "check_entry ops hooked strict needle entry =
    Some (matches ops strict needle entry, entry_report ops hooked strict needle entry)"
  using assms
  by (cases needle; cases strict; cases "deref entry"; cases entry)
    (auto simp: check_entry_def report_strings_def matches_def compare_entry_def entry_report_def Let_def apsnd_def map_prod_def split: prod.split)

definition first_match_in :: "('a \<Rightarrow> bool) \<Rightarrow> 'a list \<Rightarrow> 'a list" where
  "first_match_in P xs = takeWhile (\<lambda>x. \<not> P x) xs @ take 1 (dropWhile (\<lambda>x. \<not> P x) xs)"

lemma search_loop_eq:
  assumes "\<And>e. check e = Some (P e, rep e)"
  shows "search_loop check es = Some (map_option fst (List.find (P \<circ> snd) es),
    concat (map (rep \<circ> snd) (first_match_in (P \<circ> snd) es)) @ (if \<exists>x\<in>set es. P (snd x) then [Feedback 0x13] else []))"
proof (induction es)
  case (Cons x es)
  then show ?case by (cases x; cases "P (snd x)") (simp_all add: assms first_match_in_def)
qed (simp add: first_match_in_def)


text \<open>A strict search for a value that is neither an integer nor a string, such as a float or an
  array, reads the value as a string as soon as it meets a string in the array: with the hooks
  installed this reads through a pointer that is none; without them the search is well-defined.\<close>

theorem php_search_array_type_confusion:
  assumes "ht_ok ht" and "visible ht = xs @ (k, e) # ys" "deref e = P_Str s"
    and "\<And>t. needle \<noteq> P_Str t" "\<And>x. needle \<noteq> P_Long x"
    and "\<forall>x\<in>set xs. \<not> matches ops True needle (snd x)"
  shows "php_search_array ops True give_key True needle ht = None \<and>
    php_search_array ops False give_key True needle ht \<noteq> None"
proof
  let ?c = "check_entry ops True True needle"
  have here: "?c e = None"
    using assms(3-5) by (cases needle) (auto simp: check_entry_def report_strings_def Let_def)
  have "search_loop ?c (zs @ (k, e) # ys) = None" if "\<forall>x\<in>set zs. \<not> matches ops True needle (snd x)" for zs
    using that
  proof (induction zs)
    case (Cons z zs)
    obtain k' e' where z: "z = (k', e')" by fastforce
    have "fst r = matches ops True needle e'" if "?c e' = Some r" for r
      using that assms(4,5) by (cases needle) (auto simp: check_entry_def matches_def compare_entry_def Let_def)
    then show ?case using Cons z by (cases "?c e'") auto
  qed (simp add: here)
  from this [OF assms(6)] show "php_search_array ops True give_key True needle ht = None"
    by (simp add: php_search_array_def foreach_ind_ok [OF assms(1)] assms(2))
  have "(\<exists>t. needle = P_Str t) \<or> (\<exists>x. needle = P_Long x) \<or> \<not> True \<or> \<not> False" by blast
  note c = search_loop_eq [of "check_entry ops False True needle", OF check_entry_eq [OF this]]
  show "php_search_array ops False give_key True needle ht \<noteq> None"
    unfolding php_search_array_def foreach_ind_ok [OF assms(1)] assms(2) c by simp
qed

subsection \<open>Comparison without case\<close>

definition casecmp_result :: "bytes \<Rightarrow> bytes \<Rightarrow> int" where
  "casecmp_result s1 s2 =
     (case casecmp_loop s1 s2 of Some d \<Rightarrow> d | None \<Rightarrow> int (length s1) - int (length s2))"

lemma casecmp_order:
  "(casecmp_result s1 s2 = 0 \<longleftrightarrow> map tolower_ascii s1 = map tolower_ascii s2) \<and>
   (casecmp_result s1 s2 < 0 \<longleftrightarrow> ord_class.lexordp (map tolower_ascii s1) (map tolower_ascii s2))"
proof (induction s1 s2 rule: casecmp_loop.induct)
  case (1 a s1 b s2)
  show ?case
  proof (cases "tolower_ascii a = tolower_ascii b")
    case True
    then have "casecmp_result (a # s1) (b # s2) = casecmp_result s1 s2" by (simp add: casecmp_result_def split: option.split)
    then show ?thesis using 1 True by simp
  next
    case False
    then have ne: "uint (tolower_ascii a) \<noteq> uint (tolower_ascii b)" by (simp only: word_uint_eq_iff not_False_eq_True simp_thms)
    then have "casecmp_result (a # s1) (b # s2) = uint (tolower_ascii a) - uint (tolower_ascii b)"
      by (simp add: casecmp_result_def Let_def)
    moreover note ne
    moreover have "tolower_ascii a < tolower_ascii b \<longleftrightarrow> uint (tolower_ascii a) < uint (tolower_ascii b)"
      "tolower_ascii b < tolower_ascii a \<longleftrightarrow> uint (tolower_ascii b) < uint (tolower_ascii a)"
      by (simp_all add: word_less_def)
    ultimately show ?thesis using False by simp linarith
  qed
qed (auto simp: casecmp_result_def)

text \<open>The comparison without case is the lexicographic order of the two strings in lower case, for
  strings of less than $2^{31}$ bytes, and it reports its operands first.\<close>

theorem zend_binary_strcasecmp_order:
  assumes "length s1 < 2 ^ 31" "length s2 < 2 ^ 31"
  shows "snd (zend_binary_strcasecmp False s1 s2) = [Hash_Call (Cmp_Call s1 s2)] \<and>
    (fst (zend_binary_strcasecmp False s1 s2) = 0 \<longleftrightarrow> map tolower_ascii s1 = map tolower_ascii s2) \<and>
    (fst (zend_binary_strcasecmp False s1 s2) < 0 \<longleftrightarrow> ord_class.lexordp (map tolower_ascii s1) (map tolower_ascii s2))"
proof -
  have "sint (word_of_int x :: u32) = x" if "- (2 ^ 31) \<le> x" "x < 2 ^ 31" for x
    using that by (simp add: signed_of_int signed_take_bit_int_eq_self)
  from this [of "int (length s1) - int (length s2)"]
  have "sint (word_of_int (int (length s1) - int (length s2)) :: u32) = int (length s1) - int (length s2)"
    using assms by simp
  then have "zend_binary_strcasecmp False s1 s2 = (casecmp_result s1 s2, [Hash_Call (Cmp_Call s1 s2)])"
    by (auto simp: zend_binary_strcasecmp_def casecmp_result_def split: option.split)
  then show ?thesis using casecmp_order [of s1 s2] by simp
qed

theorem zend_binary_strcasecmp_order_witness:
  "fst (zend_binary_strcasecmp False (cs ''ABC'') (cs ''abd'')) < 0"
proof -
  have "ord_class.lexordp (map tolower_ascii (cs ''ABC'')) (map tolower_ascii (cs ''abd''))" by code_simp
  then show ?thesis using zend_binary_strcasecmp_order [of "cs ''ABC''" "cs ''abd''"] by (simp add: cs_def)
qed

subsection \<open>Examples\<close>

theorem file_reads_reported_witness:
  "outputs (deliver ex_os (file_get_contents_check (cs ''a/crash.b.php'')) ex_state) =
    [Append_To (cs ''/tmp/bug_triggered'') (oracle_report (cs ''arbitrary read'') [] ex_state)] \<and>
   outputs (deliver ex_os (file_get_contents_check (cs ''a/crash.b'')) ex_state) = []"
proof -
  have st: "bug_oracle_callback ex_state" "\<not> coverage_dump_enabled ex_state" "outputs ex_state = []"
    "os_exists ex_os (cs ''/tmp/bug_oracle_enabled'')"
    by (simp_all add: ex_state_def ex_os_def enable_custom_feedback_functions_def pcov_initial_def)
  have fits: "length (oracle_report (cs ''arbitrary read'') [] ex_state) < report_buffer_size" by code_simp
  have "c_strstr (cs ''a/crash.b.php'') ''crash'' \<and> dot_is_php (strrchr (cs ''a/crash.b.php'') 46)" by code_simp
  then have yes: "has_crash (cs ''a/crash.b.php'')" "names_php (cs ''a/crash.b.php'')" by (simp_all add: check_simps)
  have "\<not> dot_is_php (strrchr (cs ''a/crash.b'') 46)" by code_simp
  then have no: "\<not> names_php (cs ''a/crash.b'')" by (simp add: check_simps)
  show ?thesis
    using file_reads_reported [OF st(1,2,4) fits, of "cs ''a/crash.b.php''"]
      file_reads_reported [OF st(1,2,4) fits, of "cs ''a/crash.b''"] yes no st(3) by simp
qed

text \<open>An array of two strings and an integer, and what the search needs; a value of another type is a
  float.\<close>

definition ex_ops :: "(nat, nat) engine_ops" where
  "ex_ops = \<lparr>floats = \<lparr>f_parse = \<lambda>_. None, f_of_long = unat, f_eq = (=), f_diff_zero = (=), f_finite = \<lambda>_. True\<rparr>,
     other_type = \<lambda>_. 5, compare_equal = \<lambda>_ _. (False, []), other_identical = \<lambda>v w. (v = w, [])\<rparr>"

definition ex_haystack :: "nat pval hashtable" where
  "ex_haystack = ex_array [P_Str (ex_key [97]), P_Long 3, P_Str (ex_key [98])]"

lemma ex_haystack_ok: "ht_ok ex_haystack"
    "visible ex_haystack = [(Idx 0, P_Str (ex_key [97])), (Idx 1, P_Long 3), (Idx 2, P_Str (ex_key [98]))]"
proof -
  show "ht_ok ex_haystack" unfolding ex_haystack_def by (rule conjunct1 [OF ex_array_ok]) simp
  show "visible ex_haystack = [(Idx 0, P_Str (ex_key [97])), (Idx 1, P_Long 3), (Idx 2, P_Str (ex_key [98]))]" by code_simp
qed


theorem php_search_array_type_confusion_witness:
  "php_search_array ex_ops True True True (P_Other 7) ex_haystack = None \<and>
    php_search_array ex_ops False True True (P_Other 7) ex_haystack \<noteq> None"
  using php_search_array_type_confusion [OF ex_haystack_ok(1), of "[]" "Idx 0" "P_Str (ex_key [97])" _ "ex_key [97]" "P_Other 7" ex_ops True]
    ex_haystack_ok(2) by simp

end
