(* ===== verification/Zend_Memnstr_Correct.thy ===== *)
theory Zend_Memnstr_Correct
  imports Zend_Memnstr Zend_Hash_Map
begin

text \<open>
  The searches find the first and the last occurrence, read nothing outside of the string, and end.
\<close>

definition occurs :: "bytes \<Rightarrow> bytes \<Rightarrow> nat \<Rightarrow> bool" where
  "occurs needle h p \<longleftrightarrow> p + length needle \<le> length h \<and> take (length needle) (drop p h) = needle"

definition first_occ :: "bytes \<Rightarrow> bytes \<Rightarrow> nat option \<Rightarrow> bool" where
  "first_occ needle h r \<longleftrightarrow>
     (case r of None \<Rightarrow> \<forall>q. \<not> occurs needle h q | Some p \<Rightarrow> occurs needle h p \<and> (\<forall>q<p. \<not> occurs needle h q))"

definition last_occ :: "bytes \<Rightarrow> bytes \<Rightarrow> nat option \<Rightarrow> bool" where
  "last_occ needle h r \<longleftrightarrow>
     (case r of None \<Rightarrow> \<forall>q. \<not> occurs needle h q | Some p \<Rightarrow> occurs needle h p \<and> (\<forall>q>p. \<not> occurs needle h q))"

lemma occurs_nth: "occurs needle h p \<Longrightarrow> j < length needle \<Longrightarrow> h ! (p + j) = needle ! j"
  by (metis add_leE nth_drop nth_take occurs_def)

lemma occurs_bound: "occurs needle h p \<Longrightarrow> p + length needle \<le> length h"
  by (simp add: occurs_def)

lemma match_len_eq: "match_len s t = length s \<longleftrightarrow> take (length s) t = s"
proof (induction s arbitrary: t)
  case (Cons a s)
  then show ?case by (cases t) auto
qed simp

lemma occurs_match: "p + length needle \<le> length h \<Longrightarrow> match_len needle (drop p h) = length needle \<longleftrightarrow> occurs needle h p"
  by (simp add: match_len_eq occurs_def)

subsection \<open>The table\<close>

text \<open>A shift is positive, and no longer than the way to any place where the byte is in the string
  that is searched.\<close>

definition shifts_ok :: "bytes \<Rightarrow> (nat \<Rightarrow> nat) \<Rightarrow> shift_table \<Rightarrow> bool" where
  "shifts_ok needle way td \<longleftrightarrow>
     (\<forall>c. 0 < unat (td c) \<and> unat (td c) \<le> length needle + 1) \<and> (\<forall>j<length needle. unat (td (needle ! j)) \<le> way j)"

lemma unat_shift: "n + 1 < 2 ^ 32 \<Longrightarrow> m \<le> n + 1 \<Longrightarrow> unat (word_of_nat m :: u32) = m"
  by (simp add: unsigned_of_nat take_bit_nat_eq_self)

lemma forward_table:
  assumes "length needle + 1 < 2 ^ 32"
  shows "shifts_ok needle (\<lambda>j. length needle - j) (zend_memnstr_ex_pre needle False)"
proof -
  let ?n = "length needle" and ?td = "\<lambda>k. fold (td_forward needle) [0..<k] (\<lambda>_. word_of_nat (length needle + 1))"
  have "(\<forall>c. 0 < unat (?td k c) \<and> unat (?td k c) \<le> ?n + 1) \<and> (\<forall>j<k. unat (?td k (needle ! j)) \<le> ?n - j)" if "k \<le> ?n" for k
    using that
  proof (induction k)
    case 0
    then show ?case using unat_shift [OF assms, of "?n + 1"] by simp
  next
    case (Suc k)
    then have "unat (word_of_nat (?n - k) :: u32) = ?n - k" using unat_shift [OF assms, of "?n - k"] by simp
    then show ?case using Suc by (auto simp: td_forward_def less_Suc_eq)
  qed
  from this [of ?n] show ?thesis by (simp add: shifts_ok_def zend_memnstr_ex_pre_def)
qed

lemma backward_table:
  assumes "length needle < 2 ^ 31" "needle \<noteq> []"
  shows "shifts_ok needle (\<lambda>j. j + 1) (zend_memnstr_ex_pre needle True)"
proof -
  let ?n = "length needle"
  let ?td = "\<lambda>k. fold (td_backward needle) (rev [k..<length needle]) (\<lambda>_. word_of_nat (length needle + 1))"
  have n: "?n + 1 < 2 ^ 32" using assms(1) by simp
  have "(\<forall>c. 0 < unat (?td (?n - k) c) \<and> unat (?td (?n - k) c) \<le> ?n + 1) \<and>
      (\<forall>j<?n. ?n - k \<le> j \<longrightarrow> unat (?td (?n - k) (needle ! j)) \<le> j + 1)" if "k \<le> ?n" for k
    using that
  proof (induction k)
    case 0
    then show ?case using unat_shift [OF n, of "?n + 1"] by simp
  next
    case (Suc k)
    then have "[?n - Suc k..<?n] = (?n - Suc k) # [?n - k..<?n]" by (subst upt_rec) (simp add: Suc_diff_Suc)
    moreover have "unat (word_of_nat (?n - Suc k + 1) :: u32) = ?n - Suc k + 1"
      using unat_shift [OF n, of "?n - Suc k + 1"] by simp
    ultimately have step: "?td (?n - Suc k) = (?td (?n - k))(needle ! (?n - Suc k) := word_of_nat (?n - Suc k + 1))"
      and v: "unat (word_of_nat (?n - Suc k + 1) :: u32) = ?n - Suc k + 1" by (simp_all add: td_backward_def)
    have IH: "\<forall>c. 0 < unat (?td (?n - k) c) \<and> unat (?td (?n - k) c) \<le> ?n + 1"
      "\<And>j. j < ?n \<Longrightarrow> ?n - k \<le> j \<Longrightarrow> unat (?td (?n - k) (needle ! j)) \<le> j + 1" using Suc by auto
    have "unat (?td (?n - Suc k) (needle ! j)) \<le> j + 1" if "j < ?n" "?n - Suc k \<le> j" for j
      using IH(2) [of j] that v unfolding step by (cases "?n - Suc k = j") auto
    moreover have "0 < unat (?td (?n - Suc k) c) \<and> unat (?td (?n - Suc k) c) \<le> ?n + 1" for c
      using IH(1) v Suc.prems unfolding step by auto
    ultimately show ?case by blast
  qed
  from this [of ?n] have td: "shifts_ok needle (\<lambda>j. j + 1) (?td 0)" by (simp add: shifts_ok_def)
  have "c_int (?n - 1) = int (?n - 1)" using assms(1) by (simp add: c_int_def signed_of_nat signed_take_bit_int_eq_self)
  then have "nat (c_int (?n - 1) + 1) = ?n" using assms(2) by (cases needle) simp_all
  then show ?thesis using td by (simp add: zend_memnstr_ex_pre_def)
qed

subsection \<open>Sunday's search\<close>

lemma memnstr_loop_ok:
  assumes td: "shifts_ok needle (\<lambda>j. length needle - j) td" and ne: "needle \<noteq> []"
  shows "\<forall>q<p. \<not> occurs needle h q \<Longrightarrow> \<exists>r. memnstr_loop td needle h p = Some r \<and> first_occ needle h r"
proof (induction "length h + 1 - p" arbitrary: p rule: less_induct)
  case less
  let ?n = "length needle"
  show ?case
  proof (cases "p + ?n < length h \<and> \<not> occurs needle h p")
    case False
    have none: "\<not> occurs needle h q" if "length h \<le> p + ?n" "\<not> occurs needle h p" for q
    proof
      assume q: "occurs needle h q"
      then have "q \<le> p" using occurs_bound [OF q] that(1) by simp
      then show False using less.prems q that(2) by (cases "q = p") auto
    qed
    show ?thesis
    proof (cases "p + ?n \<le> length h")
      case True
      then show ?thesis using False occurs_match [OF True] less.prems none
        by (subst memnstr_loop.simps) (auto simp: first_occ_def)
    next
      case False
      then show ?thesis using none by (subst memnstr_loop.simps) (auto simp: first_occ_def occurs_def)
    qed
  next
    case True
    let ?s = "unat (td (h ! (p + ?n)))"
    have s: "0 < ?s" "?s \<le> ?n + 1" using td by (simp_all add: shifts_ok_def)
    have "\<not> occurs needle h q" if q: "q < p + ?s" for q
    proof
      assume o: "occurs needle h q"
      then have "p < q" using less.prems True by (metis linorder_neqE_nat)
      have n: "0 < ?n" using ne by simp
      have j: "p + ?n - q < ?n" using \<open>p < q\<close> n by linarith
      have "q \<le> p + ?n" using q s(2) by linarith
      then have "h ! (p + ?n) = needle ! (p + ?n - q)" using occurs_nth [OF o j] by simp
      then have "?s \<le> ?n - (p + ?n - q)" using td j by (simp add: shifts_ok_def)
      then show False using q \<open>p < q\<close> by linarith
    qed
    moreover have "length h + 1 - (p + ?s) < length h + 1 - p" using s(1) True by linarith
    ultimately obtain r where "memnstr_loop td needle h (p + ?s) = Some r" "first_occ needle h r"
      using less.hyps [of "p + ?s"] by blast
    then show ?thesis using True occurs_match [of p needle h]
      by (subst memnstr_loop.simps) (auto simp: nth_opt_def)
  qed
qed

lemma memnrstr_loop_ok:
  assumes td: "shifts_ok needle (\<lambda>j. j + 1) td"
  shows "p + length needle \<le> length h \<Longrightarrow> needle \<noteq> [] \<Longrightarrow> \<forall>q>p. \<not> occurs needle h q \<Longrightarrow>
    \<exists>r. memnrstr_loop td needle h p = Some r \<and> last_occ needle h r"
proof (induction p rule: less_induct)
  case (less p)
  let ?n = "length needle" and ?s = "unat (td (h ! (p - 1)))"
  note m = occurs_match [OF less.prems(1)]
  show ?case
  proof (cases "occurs needle h p \<or> p = 0")
    case True
    then have "\<not> occurs needle h p \<Longrightarrow> \<not> occurs needle h q" for q using less.prems(3) by (metis gr0I)
    then show ?thesis using m less.prems(3) True
      by (subst memnrstr_loop.simps) (auto simp: last_occ_def)
  next
    case False
    have s: "0 < ?s" "?s \<le> ?n + 1" using td by (simp_all add: shifts_ok_def)
    have skip: "\<not> occurs needle h q" if q: "p < q + ?s" for q
    proof
      assume o: "occurs needle h q"
      then have "q < p" using less.prems(3) False by (metis linorder_neqE_nat)
      moreover have j: "p - 1 - q < ?n" using q s(2) \<open>q < p\<close> by linarith
      ultimately have "h ! (p - 1) = needle ! (p - 1 - q)" using occurs_nth [OF o j] by simp
      then have "?s \<le> p - 1 - q + 1" using td j by (simp add: shifts_ok_def)
      then show False using q \<open>q < p\<close> by linarith
    qed
    have step: "memnrstr_loop td needle h p = (if ?s \<le> p then memnrstr_loop td needle h (p - ?s) else Some None)"
      using False m less.prems by (subst memnrstr_loop.simps) (auto simp: nth_opt_def)
    show ?thesis
    proof (cases "?s \<le> p")
      case True
      then show ?thesis using less.IH [of "p - ?s"] less.prems skip s(1) False step by auto
    next
      case False
      then show ?thesis using step skip by (auto simp: last_occ_def)
    qed
  qed
qed

subsection \<open>Searching with memchr\<close>

lemma memchr_None: "memchr c s = None \<longleftrightarrow> c \<notin> set s"
  by (induction s) auto

lemma memchr_Some: "memchr c s = Some k \<Longrightarrow> k < length s \<and> s ! k = c \<and> (\<forall>j<k. s ! j \<noteq> c)"
proof (induction s arbitrary: k)
  case (Cons x s)
  show ?case
  proof (cases "x = c")
    case False
    then obtain i where i: "memchr c s = Some i" "k = Suc i" using Cons.prems by auto
    have "(x # s) ! j \<noteq> c" if "j < k" for j using that Cons.IH [OF i(1)] i(2) False by (cases j) simp_all
    then show ?thesis using Cons.IH [OF i(1)] i(2) by simp
  qed (use Cons.prems in simp)
qed simp

lemma memrchr_None: "zend_memrchr c s = None \<longleftrightarrow> c \<notin> set s"
  by (induction s) (auto split: option.split)

lemma memrchr_Some: "zend_memrchr c s = Some k \<Longrightarrow> k < length s \<and> s ! k = c \<and> (\<forall>j. k < j \<and> j < length s \<longrightarrow> s ! j \<noteq> c)"
proof (induction s arbitrary: k)
  case (Cons x s)
  show ?case
  proof (cases "zend_memrchr c s")
    case None
    then have "k = 0" "x = c" "c \<notin> set s" using Cons.prems memrchr_None [of c s] by (simp_all split: if_splits)
    then show ?thesis by (auto simp: nth_Cons split: nat.split)
  next
    case (Some i)
    then show ?thesis using Cons.IH [OF Some] Cons.prems by (auto simp: nth_Cons split: nat.split)
  qed
qed simp

text \<open>A place whose first byte agrees is one when the rest agrees.\<close>

lemma take_nth_split:
  assumes "2 \<le> n" "n \<le> length s" "n \<le> length t"
  shows "take n s = take n t \<longleftrightarrow> s ! 0 = t ! 0 \<and> take (n - 2) (drop 1 s) = take (n - 2) (drop 1 t) \<and> s ! (n - 1) = t ! (n - 1)"
proof -
  obtain m where m: "n = Suc (Suc m)" using assms(1) by (metis Suc_le_D numeral_2_eq_2 Suc_le_mono)
  obtain a s' b t' where c: "s = a # s'" "t = b # t'" using assms m by (cases s; cases t) auto
  have "take (Suc m) s' = take m s' @ [s' ! m]" "take (Suc m) t' = take m t' @ [t' ! m]"
    using assms m c by (simp_all add: take_Suc_conv_app_nth)
  then show ?thesis using assms m c by auto
qed

lemma occurs_rest:
  assumes "2 \<le> length needle" "p + length needle \<le> length h"
  shows "occurs needle h p \<longleftrightarrow> h ! p = needle ! 0 \<and> rest_agrees needle h p"
proof -
  have "drop p h ! 0 = h ! p" "drop p h ! (length needle - 1) = h ! (p + (length needle - 1))"
    using assms by simp_all
  then show ?thesis
    using take_nth_split [of "length needle" "drop p h" needle] assms
    by (auto simp: occurs_def rest_agrees_def)
qed

lemma not_occurs_first: "needle \<noteq> [] \<Longrightarrow> q < length h \<Longrightarrow> h ! q \<noteq> needle ! 0 \<Longrightarrow> \<not> occurs needle h q"
  using occurs_nth [of needle h q 0] by auto

lemma memchr_search_ok:
  assumes n: "2 \<le> length needle"
  shows "\<forall>q<p. \<not> occurs needle h q \<Longrightarrow> first_occ needle h (memchr_search needle h p)"
proof (induction "length h + 1 - p" arbitrary: p rule: less_induct)
  case less
  let ?n = "length needle" and ?t = "take (length h - length needle + 1 - p) (drop p h)"
  have ne: "needle \<noteq> []" using n by auto
  show ?case
  proof (cases "p + ?n \<le> length h")
    case False
    then have "\<not> occurs needle h q" for q using less.prems occurs_bound [of needle h q] by (cases "q < p") auto
    then show ?thesis using False by (subst memchr_search.simps) (simp add: first_occ_def)
  next
    case True
    have t: "?t ! j = h ! (p + j)" "p + j < length h" if "j < length ?t" for j
      using that True n by (auto simp: less_diff_conv)
    have len: "length ?t = length h - ?n + 1 - p" using True n by simp
    have skip: "\<not> occurs needle h q" if q: "\<forall>j<k. j < length ?t \<longrightarrow> ?t ! j \<noteq> needle ! 0" "q < p + k" for q k
    proof (cases "q < p \<or> length h < q + ?n")
      case True
      then show ?thesis using less.prems by (auto simp: occurs_def)
    next
      case False
      then have "q - p < length ?t" "q - p < k" using q(2) True len by linarith+
      then show ?thesis using q(1) t [of "q - p"] False not_occurs_first [OF ne, of q h] by auto
    qed
    show ?thesis
    proof (cases "memchr (needle ! 0) ?t")
      case None
      then have no: "?t ! j \<noteq> needle ! 0" if "j < length ?t" for j using that nth_mem [of j ?t] memchr_None by metis
      have "\<not> occurs needle h q" for q using skip [of "Suc q" q] no by auto
      then show ?thesis using True None by (subst memchr_search.simps) (simp add: first_occ_def)
    next
      case (Some k)
      note k = memchr_Some [OF Some]
      have fits: "p + k + ?n \<le> length h" using k len True by linarith
      have o: "occurs needle h (p + k) \<longleftrightarrow> rest_agrees needle h (p + k)"
        using occurs_rest [OF n fits] t(1) [of k] k by metis
      have before: "\<forall>q<p + k. \<not> occurs needle h q" using skip [of k] k by auto
      show ?thesis
      proof (cases "rest_agrees needle h (p + k)")
        case True
        then show ?thesis using Some \<open>p + ?n \<le> length h\<close> o before by (subst memchr_search.simps) (simp add: first_occ_def)
      next
        case False
        then have "\<forall>q<p + k + 1. \<not> occurs needle h q" using before o by (auto simp: less_Suc_eq)
        then have "first_occ needle h (memchr_search needle h (p + k + 1))" using less.hyps [of "p + k + 1"] fits by simp
        then show ?thesis using Some True False by (subst memchr_search.simps) simp
      qed
    qed
  qed
qed

lemma memrchr_search_ok:
  assumes n: "2 \<le> length needle"
  shows "m + length needle \<le> length h + 1 \<Longrightarrow> \<forall>q\<ge>m. \<not> occurs needle h q \<Longrightarrow> last_occ needle h (memrchr_search needle h m)"
proof (induction m rule: less_induct)
  case (less m)
  let ?n = "length needle"
  have ne: "needle \<noteq> []" using n by auto
  have len: "length (take m h) = m" using less.prems(1) n by simp
  show ?case
  proof (cases "zend_memrchr (needle ! 0) (take m h)")
    case None
    have "\<not> occurs needle h q" for q
    proof (cases "q < m")
      case True
      then have "h ! q \<in> set (take m h)" using nth_mem [of q "take m h"] len by simp
      then have "h ! q \<noteq> needle ! 0" using None memrchr_None by metis
      then show ?thesis using not_occurs_first [OF ne, of q h] True len by auto
    qed (use less.prems(2) in simp)
    then show ?thesis using None by (subst memrchr_search.simps) (simp add: last_occ_def)
  next
    case (Some p)
    note k = memrchr_Some [OF Some, unfolded len]
    have fits: "p + ?n \<le> length h" using k less.prems(1) by linarith
    have o: "occurs needle h p \<longleftrightarrow> rest_agrees needle h p" using occurs_rest [OF n fits] k nth_take [of p m h] by simp
    have behind: "\<forall>q>p. \<not> occurs needle h q"
    proof (intro allI impI)
      fix q assume "p < q"
      then show "\<not> occurs needle h q"
        using k less.prems(2) len not_occurs_first [OF ne, of q h] by (cases "q < m") auto
    qed
    show ?thesis
    proof (cases "rest_agrees needle h p")
      case True
      then show ?thesis using Some o behind by (subst memrchr_search.simps) (simp add: last_occ_def)
    next
      case False
      then have "\<forall>q\<ge>p. \<not> occurs needle h q" using behind o by (auto simp: le_less)
      then have "last_occ needle h (memrchr_search needle h p)" using less.IH [of p] k fits by simp
      then show ?thesis using Some False by (subst memrchr_search.simps) simp
    qed
  qed
qed

lemma occurs_single: "length needle = 1 \<Longrightarrow> occurs needle h p \<longleftrightarrow> p < length h \<and> h ! p = needle ! 0"
proof -
  assume "length needle = 1"
  then obtain c where c: "needle = [c]" by (auto simp: length_Suc_conv)
  show ?thesis
  proof (cases "p < length h")
    case True
    then show ?thesis using take_Suc_conv_app_nth [of 0 "drop p h"] c by (simp add: occurs_def)
  qed (simp add: occurs_def c)
qed

lemma first_occ_unique: "first_occ needle h r \<Longrightarrow> first_occ needle h r' \<Longrightarrow> r = r'"
  by (auto simp: first_occ_def split: option.splits) (metis linorder_neqE_nat)

text \<open>The facts that the users of the searches need.\<close>

lemma memnstr_ex_first:
  assumes "needle \<noteq> []" "length needle + 1 < 2 ^ 32"
  shows "\<exists>r. zend_memnstr_ex h needle = Some r \<and> first_occ needle h r"
  using memnstr_loop_ok [OF forward_table [OF assms(2)] assms(1), of 0 h] assms(1)
  by (auto simp: zend_memnstr_ex_def first_occ_def occurs_def)

lemma memnstr_first:
  assumes "needle \<noteq> []" "length needle + 1 < 2 ^ 32"
  shows "\<exists>r. zend_memnstr h needle = Some r \<and> first_occ needle h r"
proof -
  note ex = memnstr_ex_first [OF assms, of h]
  show ?thesis
  proof (cases "length needle = 1")
    case True
    have "first_occ needle h (memchr (needle ! 0) h)"
      using memchr_Some [of "needle ! 0" h] memchr_None [of "needle ! 0" h]
      by (cases "memchr (needle ! 0) h") (auto simp: first_occ_def occurs_single [OF True] in_set_conv_nth)
    then show ?thesis using True assms(1) by (simp add: zend_memnstr_def)
  next
    case False
    then have "2 \<le> length needle" using assms(1) by (cases needle; cases "tl needle") auto
    then show ?thesis using memchr_search_ok [of needle 0 h] ex assms(1) False
      by (cases "length h < length needle") (auto simp: zend_memnstr_def first_occ_def occurs_def)
  qed
qed

definition contains :: "bytes \<Rightarrow> bytes \<Rightarrow> bool" where
  "contains d s \<longleftrightarrow> (\<exists>q. occurs d s q)"

lemma first_occ_Some:
  assumes "first_occ d s (Some k)" "d \<noteq> []"
  shows "s = take k s @ d @ drop (k + length d) s" "k + length d \<le> length s" "\<not> contains d (take k s)"
proof -
  have o: "occurs d s k" "\<forall>q<k. \<not> occurs d s q" using assms(1) by (simp_all add: first_occ_def)
  then show "k + length d \<le> length s" by (simp add: occurs_def)
  have "drop k s = d @ drop (k + length d) s"
    using o(1) append_take_drop_id [of "length d" "drop k s"] by (simp add: occurs_def add.commute)
  then show "s = take k s @ d @ drop (k + length d) s" by (metis append_take_drop_id)
  show "\<not> contains d (take k s)"
  proof
    assume "contains d (take k s)"
    then obtain q where q: "occurs d (take k s) q" by (auto simp: contains_def)
    then have le: "q + length d \<le> k" by (simp add: occurs_def)
    then have "length d \<le> k - q" by linarith
    then have "take (length d) (drop q s) = d" using q by (simp add: occurs_def drop_take min_absorb1)
    then have "occurs d s q" using o(1) le by (simp add: occurs_def)
    moreover have "q < k" using le assms(2) by (cases d) auto
    ultimately show False using o(2) by blast
  qed
qed

lemma first_occ_None: "first_occ d s None \<Longrightarrow> \<not> contains d s"
  by (simp add: first_occ_def contains_def)

text \<open>What the users of a search rely on: it returns the first occurrence. So it cuts a string at the first
  delimiter, and any two searches agree.\<close>

locale first_search =
  fixes search :: "bytes \<Rightarrow> bytes \<Rightarrow> nat option option"
  assumes find_first: "d \<noteq> [] \<Longrightarrow> length d + 1 < 2 ^ 32 \<Longrightarrow> \<exists>r. search h d = Some r \<and> first_occ d h r"
begin

lemma cut:
  assumes "d \<noteq> []" "length d + 1 < 2 ^ 32" "search h d = Some (Some k)"
  shows "h = take k h @ d @ drop (k + length d) h" "\<not> contains d (take k h)"
  using find_first [OF assms(1,2), of h] first_occ_Some [of d h k] assms(1,3) by auto

lemma uncut: "d \<noteq> [] \<Longrightarrow> length d + 1 < 2 ^ 32 \<Longrightarrow> search h d = Some None \<longleftrightarrow> \<not> contains d h"
  using find_first [of d h] first_occ_None [of d h] by (auto simp: contains_def first_occ_def split: option.splits)

lemma unique: "d \<noteq> [] \<Longrightarrow> length d + 1 < 2 ^ 32 \<Longrightarrow> first_occ d h r \<Longrightarrow> search h d = Some r"
  using find_first [of d h] first_occ_unique [of d h r] by metis

end

interpretation memnstr_ex: first_search zend_memnstr_ex
  by unfold_locales (rule memnstr_ex_first)

interpretation memnstr: first_search zend_memnstr
  by unfold_locales (rule memnstr_first)

lemma memnstr_searches_agree:
  assumes "needle \<noteq> []" "length needle + 1 < 2 ^ 32"
  shows "zend_memnstr h needle = zend_memnstr_ex h needle"
  using memnstr_ex.find_first [OF assms, of h] memnstr.unique [OF assms, of h] by metis

lemma memnrstr_last:
  assumes "needle \<noteq> []" "length needle < 2 ^ 31"
  shows "\<exists>r. zend_memnrstr h needle = Some r \<and> last_occ needle h r"
proof -
  have beyond: "\<not> occurs needle h q" if "length h < q + length needle" for q using that by (simp add: occurs_def)
  have ex: "\<exists>r. zend_memnrstr_ex h needle = Some r \<and> last_occ needle h r"
    using memnrstr_loop_ok [OF backward_table [OF assms(2,1)], of "length h - length needle" h] assms(1) beyond
    by (auto simp: zend_memnrstr_ex_def last_occ_def)
  show ?thesis
  proof (cases "length needle = 1")
    case True
    have "last_occ needle h (zend_memrchr (needle ! 0) h)"
      using memrchr_Some [of "needle ! 0" h] memrchr_None [of "needle ! 0" h]
      by (cases "zend_memrchr (needle ! 0) h") (auto simp: last_occ_def occurs_single [OF True] in_set_conv_nth)
    then show ?thesis using True assms(1) by (simp add: zend_memnrstr_def)
  next
    case False
    then have n: "2 \<le> length needle" using assms(1) by (cases needle; cases "tl needle") auto
    have "last_occ needle h (memrchr_search needle h (length h - length needle + 1))" if "length needle \<le> length h"
      using memrchr_search_ok [OF n, of "length h - length needle + 1" h] that beyond by auto
    then show ?thesis using ex assms(1) False beyond by (auto simp: zend_memnrstr_def last_occ_def)
  qed
qed

text \<open>C11: whatever way of searching the lengths select, the byte search or Sunday's with its table of shifts,
  \<open>zend_memnstr\<close> returns the first occurrence and \<open>zend_memnrstr\<close> the last, or \<open>NULL\<close> when there is none; the
  searches end and read nothing outside of the string, and the two ways agree.\<close>

theorem zend_memnstr_correct:
  assumes "needle \<noteq> []" "length needle < 2 ^ 31"
  shows "(\<exists>r. zend_memnstr h needle = Some r \<and> first_occ needle h r) \<and>
    (\<exists>r. zend_memnrstr h needle = Some r \<and> last_occ needle h r) \<and>
    zend_memnstr_ex h needle = zend_memnstr h needle"
proof -
  have "length needle + 1 < 2 ^ 32" using assms(2) by simp
  then show ?thesis
    using memnstr.find_first [OF assms(1)] memnrstr_last [OF assms] memnstr_searches_agree [OF assms(1)] by auto
qed

theorem zend_memnstr_correct_witness:
  "zend_memnstr_ex (cs ''abracadabra'') (cs ''ada'') = Some (Some 5) \<and>
    first_occ (cs ''ada'') (cs ''abracadabra'') (Some 5)"
proof -
  have "zend_memnstr_ex (cs ''abracadabra'') (cs ''ada'') = Some (Some 5)" by code_simp
  then show ?thesis using zend_memnstr_correct [of "cs ''ada''" "cs ''abracadabra''"] by (auto simp: cs_def)
qed

end
