(* ===== verification/Engine_Strings.thy ===== *)
theory Engine_Strings
  imports Zend_Memnstr Engine_Arrays "HOL-Library.Signed_Division"
begin

text \<open>
  \<open>explode\<close>, \<open>implode\<close> and \<open>substr\<close> of \<open>php-7.4-patched/ext/standard/string.c\<close>, the first and the last with the
  feedback that the fuzzer gets. \<open>None\<close> is an access outside of a string or an array, a read of memory
  that was not written, or a loop that does not end. What \<open>php_error_docref\<close> hands to the extension is in
  \<open>php_verror_calls\<close>.
\<close>

subsection \<open>explode\<close>

text \<open>\<open>mk\<close> gives the value of a string with these bytes; shared and interned strings are not told apart.\<close>

definition insert_piece :: "(bytes \<Rightarrow> 'v zval) \<Rightarrow> bytes \<Rightarrow> 'v hashtable \<Rightarrow> 'v hashtable option" where
  "insert_piece mk s ht = map_option snd (zend_hash_next_index_insert_new ht (mk s))"

text \<open>The loop of \<open>php_explode\<close>, with the start of the last piece and the number of further delimiters.\<close>

partial_function (option) explode_loop ::
    "(bytes \<Rightarrow> 'v zval) \<Rightarrow> bytes \<Rightarrow> bytes \<Rightarrow> nat \<Rightarrow> nat \<Rightarrow> int \<Rightarrow> nat \<Rightarrow> 'v hashtable \<Rightarrow>
     (nat \<times> nat \<times> 'v hashtable) option" where
  [code]: "explode_loop mk delim str p1 p2 limit num ht =
     do { ht \<leftarrow> insert_piece mk (take (p2 - p1) (drop p1 str)) ht;
          let p1 = p2 + length delim;
          r \<leftarrow> zend_memnstr (drop p1 str) delim;
          case r of
            None \<Rightarrow> Some (p1, num, ht)
          | Some k \<Rightarrow>
              if limit - 1 > 1 then explode_loop mk delim str p1 (p1 + k) (limit - 1) (num + 1) ht
              else Some (p1, num + 1, ht) }"

definition php_explode ::
    "(bytes \<Rightarrow> 'v zval) \<Rightarrow> bytes \<Rightarrow> bytes \<Rightarrow> int \<Rightarrow> 'v hashtable \<Rightarrow> ('v hashtable \<times> engine_call list) option" where
  "php_explode mk delim str limit ht =
     do { r \<leftarrow> zend_memnstr str delim;
          (num, ht) \<leftarrow>
            (case r of
               None \<Rightarrow> map_option (Pair 0) (insert_piece mk str ht)
             | Some p2 \<Rightarrow>
                 do { (p1, num, ht) \<leftarrow> explode_loop mk delim str 0 p2 limit 0 ht;
                      if p1 \<le> length str then map_option (Pair num) (insert_piece mk (drop p1 str) ht)
                      else Some (num, ht) });
          Some (ht, [Feedback (0x30 + word_of_nat (min num 8))]) }"

text \<open>With a negative limit the starts of all pieces are collected first, from the delimiter at \<open>p2\<close> on.\<close>

partial_function (option) explode_positions :: "bytes \<Rightarrow> bytes \<Rightarrow> nat \<Rightarrow> nat list option" where
  [code]: "explode_positions delim str p2 =
     do { let p1 = p2 + length delim;
          r \<leftarrow> zend_memnstr (drop p1 str) delim;
          case r of
            None \<Rightarrow> Some [p1]
          | Some k \<Rightarrow> do { ps \<leftarrow> explode_positions delim str (p1 + k); Some (p1 # ps) } }"

fun insert_pieces ::
    "(bytes \<Rightarrow> 'v zval) \<Rightarrow> bytes \<Rightarrow> bytes \<Rightarrow> nat list \<Rightarrow> nat list \<Rightarrow> 'v hashtable \<Rightarrow> 'v hashtable option" where
  "insert_pieces mk delim str positions [] ht = Some ht"
| "insert_pieces mk delim str positions (i # is) ht =
     do { a \<leftarrow> nth_opt positions i;
          b \<leftarrow> nth_opt positions (i + 1);
          ht \<leftarrow> insert_piece mk (take (b - length delim - a) (drop a str)) ht;
          insert_pieces mk delim str positions is ht }"

definition php_explode_negative_limit ::
    "(bytes \<Rightarrow> 'v zval) \<Rightarrow> bytes \<Rightarrow> bytes \<Rightarrow> int \<Rightarrow> 'v hashtable \<Rightarrow> 'v hashtable option" where
  "php_explode_negative_limit mk delim str limit ht =
     do { r \<leftarrow> zend_memnstr str delim;
          case r of
            None \<Rightarrow> Some ht
          | Some p2 \<Rightarrow>
              do { ps \<leftarrow> explode_positions delim str p2;
                   let positions = 0 # ps;
                   let to_return = limit + int (length positions);
                   insert_pieces mk delim str positions [0..<nat to_return] ht } }"

text \<open>The result \<open>None\<close> is \<open>false\<close>. \<open>slots\<close> are the variables, as for all new tables.\<close>

definition explode ::
    "(nat \<Rightarrow> 'v zval) \<Rightarrow> (bytes \<Rightarrow> 'v zval) \<Rightarrow> bytes \<Rightarrow> bytes \<Rightarrow> int \<Rightarrow>
     ('v hashtable option \<times> engine_call list) option" where
  "explode slots mk delim str limit =
     (if length delim = 0 then Some (None, [])
      else do { ht \<leftarrow> zend_new_array 8 slots;
                if length str = 0
                then (if limit \<ge> 0
                      then map_option (\<lambda>(p, ht). (Some ht, [])) (zend_hash_index_add_new ht 0 (mk []))
                      else Some (Some ht, []))
                else if limit > 1 then map_option (\<lambda>(ht, calls). (Some ht, calls)) (php_explode mk delim str limit ht)
                else if limit < 0
                then map_option (\<lambda>ht. (Some ht, [])) (php_explode_negative_limit mk delim str limit ht)
                else map_option (\<lambda>(p, ht). (Some ht, [])) (zend_hash_index_add_new ht 0 (mk str)) })"

subsection \<open>implode\<close>

text \<open>The number of bytes that an integer needs; the division rounds towards zero.\<close>

function long_digits :: "int \<Rightarrow> nat" where
  "long_digits val = (if val = 0 then 0 else Suc (long_digits (val sdiv 10)))"
  by pat_completeness auto
termination
  by (relation "measure (\<lambda>val. nat \<bar>val\<bar>)") (auto simp: signed_divide_int_def sgn_if)

definition long_len :: "u64 \<Rightarrow> nat" where
  "long_len val = (if val \<le>s 0 then 1 else 0) + long_digits (sint val)"

function zend_print_ulong_to_buf :: "u64 \<Rightarrow> bytes" where
  "zend_print_ulong_to_buf num =
     (if num div 10 > 0 then zend_print_ulong_to_buf (num div 10) else []) @ [ucast (num mod 10) + 48]"
  by pat_completeness auto
termination
  by (relation "measure unat") (auto simp: word_less_nat_alt unat_div)

definition zend_print_long_to_buf :: "u64 \<Rightarrow> bytes" where
  "zend_print_long_to_buf num =
     (if num <s 0 then 45 # zend_print_ulong_to_buf (NOT num + 1) else zend_print_ulong_to_buf num)"

text \<open>The elements: strings, integers, and others that are turned into strings by the parameter \<open>to_str\<close>.\<close>

datatype piece = Piece_Str bytes | Piece_Long u64

fun piece_of :: "('o pval \<Rightarrow> bytes) \<Rightarrow> 'o pval \<Rightarrow> piece" where
  "piece_of to_str (P_Str s) = Piece_Str (zs_val s)"
| "piece_of to_str (P_Long x) = Piece_Long x"
| "piece_of to_str v = Piece_Str (to_str v)"

fun piece_len :: "piece \<Rightarrow> nat" where
  "piece_len (Piece_Str s) = length s"
| "piece_len (Piece_Long x) = long_len x"

fun piece_text :: "piece \<Rightarrow> bytes" where
  "piece_text (Piece_Str s) = s"
| "piece_text (Piece_Long x) = zend_print_long_to_buf x"

text \<open>The result is filled from its end: \<open>cptr\<close> bytes are still free before what has been written. Writing
  before the start of the string is \<open>None\<close>.\<close>

fun copy_back :: "bytes \<Rightarrow> nat \<times> bytes \<Rightarrow> (nat \<times> bytes) option" where
  "copy_back s (cptr, out) = (if length s \<le> cptr then Some (cptr - length s, s @ out) else None)"

text \<open>The pieces are in reverse; stepping in front of the first one is \<open>None\<close>.\<close>

fun implode_loop :: "bytes \<Rightarrow> piece list \<Rightarrow> nat \<times> bytes \<Rightarrow> (nat \<times> bytes) option" where
  "implode_loop glue [] st = None"
| "implode_loop glue (p # ps) st =
     do { st \<leftarrow> copy_back (piece_text p) st;
          if ps = [] then Some st
          else do { st \<leftarrow> copy_back glue st; implode_loop glue ps st } }"

text \<open>The result is the string, behind the given number of bytes that were never written.\<close>

definition php_implode ::
    "('o pval \<Rightarrow> bytes) \<Rightarrow> bytes \<Rightarrow> 'o pval hashtable \<Rightarrow> (nat \<times> bytes) option" where
  "php_implode to_str glue ht =
     (let numelems = unat (nNumOfElements ht)
      in if numelems = 0 then Some (0, [])
         else do { es \<leftarrow> foreach_ind (unat (nNumUsed ht)) 0 ht;
                   if numelems = 1 \<and> es \<noteq> [] then Some (0, piece_text (piece_of to_str (snd (hd es))))
                   else (let pieces = map (piece_of to_str \<circ> snd) es;
                             total = (numelems - 1) * length glue + sum_list (map piece_len pieces)
                         in implode_loop glue (rev pieces) (total, [])) })"

subsection \<open>substr\<close>

text \<open>The start and the length, or \<open>None\<close> for \<open>false\<close>. All numbers are 64-bit, some compared without sign.\<close>

definition substr_range :: "u64 \<Rightarrow> u64 \<Rightarrow> u64 option \<Rightarrow> (u64 \<times> u64) option" where
  "substr_range n f l =
     (if n <s f then None
      else if f <s 0
      then (let f = (if n < - f then 0 else n + f)
            in case l of
                 None \<Rightarrow> Some (f, n - f)
               | Some l \<Rightarrow>
                   if l <s 0
                   then (if n - f < - l
                         then (if n < - l then None else Some (f, 0))
                         else Some (f, n - f + l))
                   else if n - f < l then Some (f, n - f) else Some (f, l))
      else (case l of
              None \<Rightarrow> Some (f, n - f)
            | Some l \<Rightarrow>
                if l <s 0
                then (if n - f < - l then None else Some (f, n - f + l))
                else if n - f < l then Some (f, n - f) else Some (f, l)))"

text \<open>The copy reads \<open>l\<close> bytes from \<open>f\<close> on; the inner \<open>None\<close> is \<open>false\<close>.\<close>

definition substr :: "bytes \<Rightarrow> u64 \<Rightarrow> u64 option \<Rightarrow> (bytes option \<times> engine_call list) option" where
  "substr str f l =
     (case substr_range (word_of_nat (length str)) f l of
        None \<Rightarrow> Some (None, [])
      | Some (f, l) \<Rightarrow>
          if l = 0 then Some (Some [], [])
          else if unat f + unat l \<le> length str
          then Some (Some (take (unat l) (drop (unat f) str)), [Feedback 0x07])
          else None)"

text \<open>Opening a stream by its name ends with this call, whether a stream was opened or not.\<close>

definition php_stream_open_wrapper_calls :: "engine_call list" where
  "php_stream_open_wrapper_calls = [Feedback 0x76]"

end
