(* ===== verification/Engine_Strings_Correct.thy ===== *)
theory Engine_Strings_Correct
  imports Engine_Strings Zend_Memnstr_Correct Zend_Vector Zend_Symtable_Correct
begin

text \<open>
  What \<open>explode\<close>, \<open>implode\<close> and \<open>substr\<close> compute, and that they stay inside of their strings.
\<close>

subsection \<open>Joining\<close>

fun join :: "bytes \<Rightarrow> bytes list \<Rightarrow> bytes" where
  "join d [] = []"
| "join d [p] = p"
| "join d (p # q # ps) = p @ d @ join d (q # ps)"

lemma join_Cons: "ps \<noteq> [] \<Longrightarrow> join d (p # ps) = p @ d @ join d ps"
  by (cases ps) simp_all

lemma join_snoc: "ps \<noteq> [] \<Longrightarrow> join d (ps @ [p]) = join d ps @ d @ p"
proof (induction ps)
  case (Cons a ps)
  then show ?case by (cases "ps = []") (simp_all add: join_Cons)
qed simp

subsection \<open>explode\<close>

definition makes_values :: "(bytes \<Rightarrow> 'v zval) \<Rightarrow> bool" where
  "makes_values mk \<longleftrightarrow> (\<forall>s. mk s \<noteq> IS_UNDEF)"

lemma insert_piece_ok:
  assumes "vec_ok ht (map mk ps)" "makes_values mk" "length ps < 2 ^ 28"
  shows "\<exists>ht'. insert_piece mk s ht = Some ht' \<and> vec_ok ht' (map mk (ps @ [s]))"
  using vec_push [OF assms(1), of "mk s"] assms(2,3) by (auto simp: makes_values_def insert_piece_def)

lemma explode_loop_ok:
  assumes d: "d \<noteq> []" "length d + 1 < 2 ^ 32" and mk: "makes_values mk"
  shows "first_occ d (drop p1 str) (Some (p2 - p1)) \<Longrightarrow> p1 \<le> p2 \<Longrightarrow> p1 \<le> length str \<Longrightarrow> vec_ok ht (map mk ps) \<Longrightarrow>
    length ps + (length str - p1) < 2 ^ 28 \<Longrightarrow> 1 < limit \<Longrightarrow>
    \<exists>qs p1' num' ht'. explode_loop mk d str p1 p2 limit num ht = Some (p1', num', ht') \<and>
      vec_ok ht' (map mk (ps @ qs)) \<and> qs \<noteq> [] \<and> p1' \<le> length str \<and> join d (qs @ [drop p1' str]) = drop p1 str \<and>
      (\<forall>q\<in>set qs. \<not> contains d q) \<and> int (length qs) < limit \<and>
      (int (length qs) + 1 < limit \<longrightarrow> \<not> contains d (drop p1' str)) \<and> length (ps @ qs) < 2 ^ 28 \<and>
      num' + 1 = num + length qs + (if contains d (drop p1' str) then 1 else 0)"
proof (induction "length str - p1" arbitrary: p1 p2 limit num ht ps rule: less_induct)
  case less
  let ?s = "drop p1 str" and ?k = "p2 - p1" and ?p = "take (p2 - p1) (drop p1 str)" and ?q = "p2 + length d"
  note f = first_occ_Some [OF less.prems(1) d(1)]
  have q: "?q \<le> length str" "p1 < ?q" using f(2) less.prems(2,3) d(1) by (cases d; simp)+
  have rest: "drop (?k + length d) ?s = drop ?q str" using less.prems(2) by (simp add: add.commute add.left_commute)
  have split: "?s = ?p @ d @ drop ?q str" using f(1) unfolding rest .
  have room: "length ps < 2 ^ 28" using less.prems(5) by simp
  obtain ht1 where i: "insert_piece mk ?p ht = Some ht1" "vec_ok ht1 (map mk (ps @ [?p]))"
    using insert_piece_ok [OF less.prems(4) mk room] by blast
  obtain r where r: "zend_memnstr (drop ?q str) d = Some r" "first_occ d (drop ?q str) r" using memnstr.find_first [OF d] by blast
  have room1: "length (ps @ [?p]) + (length str - ?q) < 2 ^ 28" using less.prems(5) q by simp
  show ?case
  proof (cases r)
    case None
    then show ?thesis using first_occ_None [of d "drop ?q str"] i r f(3) q less.prems(6) split room1
      by (subst explode_loop.simps) (auto simp: Let_def intro!: exI [of _ "[?p]"])
  next
    case (Some k)
    show ?thesis
    proof (cases "limit - 1 > 1")
      case False
      have "contains d (drop ?q str)" using r(2) Some by (auto simp: contains_def first_occ_def)
      then show ?thesis using Some i r f(3) q less.prems(6) split room1 False
        by (subst explode_loop.simps) (auto simp: Let_def intro!: exI [of _ "[?p]"])
    next
      case True
      have k: "first_occ d (drop ?q str) (Some (?q + k - ?q))" using r(2) Some by simp
      have less_q: "length str - ?q < length str - p1" using q by linarith
      obtain qs p1' num' ht' where IH: "explode_loop mk d str ?q (?q + k) (limit - 1) (num + 1) ht1 = Some (p1', num', ht')"
        "vec_ok ht' (map mk ((ps @ [?p]) @ qs))" "qs \<noteq> []" "p1' \<le> length str" "join d (qs @ [drop p1' str]) = drop ?q str"
        "\<forall>q\<in>set qs. \<not> contains d q" "int (length qs) < limit - 1"
        "int (length qs) + 1 < limit - 1 \<longrightarrow> \<not> contains d (drop p1' str)" "length ((ps @ [?p]) @ qs) < 2 ^ 28"
        "num' + 1 = num + 1 + length qs + (if contains d (drop p1' str) then 1 else 0)"
        using less.hyps [OF less_q k _ q(1) i(2) room1 True, of "num + 1"] by auto
      have "join d ((?p # qs) @ [drop p1' str]) = ?s" using IH(5) split by (simp add: join_Cons)
      then show ?thesis using Some i(1) r(1) True IH f(3)
        by (subst explode_loop.simps) (auto simp: Let_def intro!: exI [of _ "?p # qs"])
    qed
  qed
qed

text \<open>The pieces of a string.\<close>

definition pieces_of :: "bytes \<Rightarrow> bytes \<Rightarrow> int \<Rightarrow> bytes list \<Rightarrow> bool" where
  "pieces_of d str limit ps \<longleftrightarrow> ps \<noteq> [] \<and> join d ps = str \<and> int (length ps) \<le> limit \<and>
     (\<forall>p\<in>set (butlast ps). \<not> contains d p) \<and> (int (length ps) < limit \<longrightarrow> \<not> contains d (last ps))"

lemma php_explode_ok:
  assumes d: "d \<noteq> []" "length d + 1 < 2 ^ 32" and mk: "makes_values mk" and ht: "vec_ok ht []"
    and str: "length str < 2 ^ 27" and limit: "1 < limit"
  shows "\<exists>ps ht' calls. php_explode mk d str limit ht = Some (ht', calls) \<and> vec_ok ht' (map mk ps) \<and> pieces_of d str limit ps \<and>
    calls = [Feedback (0x30 + word_of_nat (min (length ps - (if contains d (last ps) then 1 else 2)) 8))]"
proof -
  obtain r where r: "zend_memnstr str d = Some r" "first_occ d str r" using memnstr.find_first [OF d] by blast
  show ?thesis
  proof (cases r)
    case None
    obtain ht' where "insert_piece mk str ht = Some ht'" "vec_ok ht' (map mk [str])"
      using insert_piece_ok [of ht mk "[]"] ht mk by auto
    then show ?thesis using first_occ_None [of d str] r None limit
      by (intro exI [of _ "[str]"] exI [of _ ht'] exI) (auto simp: php_explode_def pieces_of_def)
  next
    case (Some p2)
    have len: "length ([] :: bytes list) + (length str - 0) < 2 ^ 28" "first_occ d (drop 0 str) (Some (p2 - 0))" "vec_ok ht (map mk [])"
      using str r Some ht by simp_all
    obtain qs p1 num ht1 where l: "explode_loop mk d str 0 p2 limit 0 ht = Some (p1, num, ht1)"
      "vec_ok ht1 (map mk qs)" "qs \<noteq> []" "p1 \<le> length str" "join d (qs @ [drop p1 str]) = str"
      "\<forall>q\<in>set qs. \<not> contains d q" "int (length qs) < limit"
      "int (length qs) + 1 < limit \<longrightarrow> \<not> contains d (drop p1 str)" "length qs < 2 ^ 28"
      "num + 1 = length qs + (if contains d (drop p1 str) then 1 else 0)"
      using explode_loop_ok [OF d mk len(2) _ _ len(3,1) limit, of 0] by auto
    obtain ht' where i: "insert_piece mk (drop p1 str) ht1 = Some ht'" "vec_ok ht' (map mk (qs @ [drop p1 str]))"
      using insert_piece_ok [OF l(2) mk l(9)] by blast
    have num: "num = length (qs @ [drop p1 str]) - (if contains d (last (qs @ [drop p1 str])) then 1 else 2)"
      using l(10,3) by (cases qs) auto
    have "pieces_of d str limit (qs @ [drop p1 str])" using l by (auto simp: pieces_of_def)
    then show ?thesis using r Some l(1,4) i num
      by (intro exI [of _ "qs @ [drop p1 str]"] exI [of _ ht'] exI) (auto simp: php_explode_def)
  qed
qed

lemma explode_positions_ok:
  assumes d: "d \<noteq> []" "length d + 1 < 2 ^ 32"
  shows "first_occ d (drop p1 str) (Some (p2 - p1)) \<Longrightarrow> p1 \<le> p2 \<Longrightarrow> p1 \<le> length str \<Longrightarrow>
    \<exists>ps qs. explode_positions d str p2 = Some ps \<and> length ps = length qs \<and> qs \<noteq> [] \<and> length qs \<le> length str - p1 \<and>
      (\<forall>i<length qs. qs ! i = take (ps ! i - length d - (p1 # ps) ! i) (drop ((p1 # ps) ! i) str)) \<and>
      (\<exists>q. join d (qs @ [q]) = drop p1 str \<and> (\<forall>q\<in>set (qs @ [q]). \<not> contains d q))"
proof (induction "length str - p1" arbitrary: p1 p2 rule: less_induct)
  case less
  let ?s = "drop p1 str" and ?p = "take (p2 - p1) (drop p1 str)" and ?q = "p2 + length d"
  note f = first_occ_Some [OF less.prems(1) d(1)]
  have q: "?q \<le> length str" "p1 < ?q" using f(2) less.prems(2,3) d(1) by (cases d; simp)+
  have rest: "drop (p2 - p1 + length d) ?s = drop ?q str" using less.prems(2) by (simp add: add.commute add.left_commute)
  have split: "?s = ?p @ d @ drop ?q str" using f(1) unfolding rest .
  obtain r where r: "zend_memnstr (drop ?q str) d = Some r" "first_occ d (drop ?q str) r" using memnstr.find_first [OF d] by blast
  show ?case
  proof (cases r)
    case None
    then have "\<not> contains d (drop ?q str)" using first_occ_None r(2) by blast
    then show ?thesis using None r(1) f(3) split q
      by (subst explode_positions.simps) (auto simp: Let_def intro!: exI [of _ "[?p]"] exI [of _ "drop ?q str"])
  next
    case (Some k)
    have k: "first_occ d (drop ?q str) (Some (?q + k - ?q))" using r(2) Some by simp
    have less_q: "length str - ?q < length str - p1" using q by linarith
    obtain ps qs z where IH: "explode_positions d str (?q + k) = Some ps" "length ps = length qs" "qs \<noteq> []"
      "length qs \<le> length str - ?q"
      "\<forall>i<length qs. qs ! i = take (ps ! i - length d - (?q # ps) ! i) (drop ((?q # ps) ! i) str)"
      "join d (qs @ [z]) = drop ?q str" "\<forall>q\<in>set (qs @ [z]). \<not> contains d q"
      using less.hyps [OF less_q k _ q(1)] by auto
    have "\<forall>i<length (?p # qs). (?p # qs) ! i = take ((?q # ps) ! i - length d - (p1 # ?q # ps) ! i) (drop ((p1 # ?q # ps) ! i) str)"
      using IH(5) by (simp add: nth_Cons split: nat.split)
    moreover have "join d ((?p # qs) @ [z]) = ?s" using IH(6) split by (simp add: join_Cons)
    moreover have "\<forall>q\<in>set ((?p # qs) @ [z]). \<not> contains d q" using IH(7) f(3) by simp
    moreover have "explode_positions d str p2 = Some (?q # ps)"
      using r(1) Some IH(1) by (subst explode_positions.simps) (simp add: Let_def)
    moreover have "length (?q # ps) = length (?p # qs)" "?p # qs \<noteq> []" "length (?p # qs) \<le> length str - p1"
      using IH(2,4) q by simp_all
    ultimately show ?thesis by blast
  qed
qed

lemma insert_pieces_ok:
  assumes mk: "makes_values mk" and n: "n < length positions" "n < 2 ^ 28" and f: "vec_ok ht []"
  shows "\<exists>ht'. insert_pieces mk d str positions [0..<n] ht = Some ht' \<and>
    vec_ok ht' (map mk (map (\<lambda>i. take (positions ! (i + 1) - length d - positions ! i) (drop (positions ! i) str)) [0..<n]))"
proof -
  let ?p = "\<lambda>i. take (positions ! (i + 1) - length d - positions ! i) (drop (positions ! i) str)"
  have "\<exists>ht'. insert_pieces mk d str positions [m..<n] ht = Some ht' \<and> vec_ok ht' (map mk (map ?p [0..<n]))"
    if "m \<le> n" "vec_ok ht (map mk (map ?p [0..<m]))" for m ht
    using that
  proof (induction "n - m" arbitrary: m ht)
    case (Suc k)
    then have m: "m < n" "[m..<n] = m # [Suc m..<n]" by (simp_all add: upt_conv_Cons)
    obtain ht1 where i: "insert_piece mk (?p m) ht = Some ht1" "vec_ok ht1 (map mk (map ?p [0..<m] @ [?p m]))"
      using insert_piece_ok [OF Suc.prems(2) mk] m n by auto
    then have "vec_ok ht1 (map mk (map ?p [0..<Suc m]))" by simp
    from Suc.hyps(1) [OF _ _ this] Suc.hyps(2) m n i(1) show ?case by (auto simp: nth_opt_def)
  qed simp
  from this [of 0 ht] f show ?thesis by simp
qed

lemma take_nth_map: "n \<le> length xs \<Longrightarrow> take n xs = map ((!) xs) [0..<n]"
  by (metis min.absorb2 map_nth take_map take_upt add_0 length_map length_upt minus_nat.diff_0)

lemma negative_limit_ok:
  assumes d: "d \<noteq> []" "length d + 1 < 2 ^ 32" and mk: "makes_values mk" and ht: "vec_ok ht []"
    and str: "length str < 2 ^ 27" and limit: "limit < 0"
  shows "\<exists>ps ht'. php_explode_negative_limit mk d str limit ht = Some ht' \<and>
    vec_ok ht' (map mk (take (length ps - nat (- limit)) ps)) \<and> pieces_of d str (int (length ps) + 1) ps"
proof -
  obtain r where r: "zend_memnstr str d = Some r" "first_occ d str r" using memnstr.find_first [OF d] by blast
  show ?thesis
  proof (cases r)
    case None
    then show ?thesis using first_occ_None [of d str] r ht limit
      by (intro exI [of _ "[str]"] exI [of _ ht]) (auto simp: php_explode_negative_limit_def pieces_of_def)
  next
    case (Some p2)
    then have "first_occ d (drop 0 str) (Some (p2 - 0))" using r by simp
    then obtain ps qs z where p: "explode_positions d str p2 = Some ps" "length ps = length qs" "qs \<noteq> []"
      "length qs \<le> length str - 0" "\<forall>i<length qs. qs ! i = take (ps ! i - length d - (0 # ps) ! i) (drop ((0 # ps) ! i) str)"
      "join d (qs @ [z]) = drop 0 str" "\<forall>q\<in>set (qs @ [z]). \<not> contains d q"
      using explode_positions_ok [OF d, of 0 str p2] by blast
    let ?n = "nat (limit + int (length (0 # ps)))"
    have n: "?n \<le> length qs" "?n = length (qs @ [z]) - nat (- limit)" using limit p(2) by auto
    then have "?n < length (0 # ps)" "?n < 2 ^ 28" using p(2,4) str by auto
    from insert_pieces_ok [OF mk this ht, of d str] obtain ht' where i: "insert_pieces mk d str (0 # ps) [0..<?n] ht = Some ht'"
      "vec_ok ht' (map mk (map (\<lambda>i. take ((0 # ps) ! (i + 1) - length d - (0 # ps) ! i) (drop ((0 # ps) ! i) str)) [0..<?n]))"
      by blast
    have "map (\<lambda>i. take ((0 # ps) ! (i + 1) - length d - (0 # ps) ! i) (drop ((0 # ps) ! i) str)) [0..<?n] = take ?n qs"
      unfolding take_nth_map [OF n(1)] using p(5) n(1) by (intro map_cong) auto
    moreover have "take ?n qs = take ?n (qs @ [z])" using n(1) by simp
    ultimately have v: "vec_ok ht' (map mk (take (length (qs @ [z]) - nat (- limit)) (qs @ [z])))" using i(2) n(2) by metis
    have "php_explode_negative_limit mk d str limit ht = Some ht'"
      using r(1) Some p(1) i(1) by (simp add: php_explode_negative_limit_def Let_def)
    moreover have "pieces_of d str (int (length (qs @ [z])) + 1) (qs @ [z])" using p(6,7) by (simp add: pieces_of_def)
    ultimately show ?thesis using v by blast
  qed
qed

lemma not_contains_nil: "d \<noteq> [] \<Longrightarrow> \<not> contains d []"
  by (auto simp: contains_def occurs_def)

definition last_feedback :: "bytes \<Rightarrow> bytes list \<Rightarrow> u32" where
  "last_feedback d ps = 0x30 + word_of_nat (min (length ps - (if contains d (last ps) then 1 else 2)) 8)"

lemma explode_ok:
  assumes d: "d \<noteq> []" "length d < 2 ^ 31" and mk: "makes_values mk" and str: "length str < 2 ^ 27"
  shows "\<exists>ps ht calls. explode slots mk d str limit = Some (Some ht, calls) \<and>
    pieces_of d str (if limit < 0 then int (length ps) + 1 else max 1 limit) ps \<and>
    vec_ok ht (map mk (if limit < 0 then take (length ps - nat (- limit)) ps else ps)) \<and>
    (1 < limit \<and> str \<noteq> [] \<longrightarrow> calls = [Feedback (last_feedback d ps)])"
proof -
  obtain ht where ht: "zend_new_array 8 slots = Some ht" "vec_ok ht []" using vec_new by blast
  have d': "length d + 1 < 2 ^ 32" using d(2) by simp
  have one: "\<exists>p ht'. zend_hash_index_add_new ht 0 (mk s) = Some (Some p, ht') \<and> vec_ok ht' (map mk [s])" for s
    using vec_first [OF ht(2), of "mk s"] mk by (simp add: makes_values_def)
  have single: "\<not> 1 < b \<or> \<not> contains d s \<Longrightarrow> 1 \<le> b \<Longrightarrow> pieces_of d s b [s]" for s b
    by (auto simp: pieces_of_def)
  consider (nil) "str = []" | (more) "str \<noteq> []" "1 < limit" | (neg) "str \<noteq> []" "limit < 0" | (few) "str \<noteq> []" "0 \<le> limit" "limit \<le> 1"
    by linarith
  then show ?thesis
  proof cases
    case nil
    obtain p ht' where o: "zend_hash_index_add_new ht 0 (mk []) = Some (Some p, ht')" "vec_ok ht' (map mk [[]])"
      using one [of "[]"] by blast
    have ps: "pieces_of d [] b [[]]" if "1 \<le> b" for b using single [of b "[]"] that not_contains_nil [OF d(1)] by simp
    show ?thesis
    proof (cases "limit < 0")
      case True
      have "pieces_of d [] (int (length [[] :: bytes]) + 1) [[]]" by (rule ps) simp
      moreover have "take (length [[] :: bytes] - nat (- limit)) [[] :: bytes] = []" using True by simp
      moreover have "explode slots mk d [] limit = Some (Some ht, [])" using ht(1) d(1) True by (simp add: explode_def)
      ultimately show ?thesis using ht(2) nil True by (intro exI [of _ "[[]]"] exI [of _ ht] exI [of _ "[]"]) auto
    next
      case False
      have "pieces_of d [] (max 1 limit) [[]]" by (rule ps) simp
      moreover have "explode slots mk d [] limit = Some (Some ht', [])" using ht(1) d(1) False o(1) by (simp add: explode_def)
      ultimately show ?thesis using o(2) nil False by (intro exI [of _ "[[]]"] exI [of _ ht'] exI [of _ "[]"]) auto
    qed
  next
    case more
    obtain ps ht' calls where "php_explode mk d str limit ht = Some (ht', calls)" "vec_ok ht' (map mk ps)" "pieces_of d str limit ps"
      "calls = [Feedback (last_feedback d ps)]"
      using php_explode_ok [OF d(1) d' mk ht(2) str more(2)] by (auto simp: last_feedback_def)
    then show ?thesis using ht(1) d(1) more
      by (intro exI [of _ ps] exI [of _ ht'] exI [of _ calls]) (auto simp: explode_def max_def)
  next
    case neg
    obtain ps ht' where "php_explode_negative_limit mk d str limit ht = Some ht'"
      "vec_ok ht' (map mk (take (length ps - nat (- limit)) ps))" "pieces_of d str (int (length ps) + 1) ps"
      using negative_limit_ok [OF d(1) d' mk ht(2) str neg(2)] by blast
    then show ?thesis using ht(1) d(1) neg
      by (intro exI [of _ ps] exI [of _ ht'] exI [of _ "[]"]) (auto simp: explode_def)
  next
    case few
    obtain p ht' where "zend_hash_index_add_new ht 0 (mk str) = Some (Some p, ht')" "vec_ok ht' (map mk [str])"
      using one [of str] by blast
    moreover have "pieces_of d str (max 1 limit) [str]" using few by (intro single) auto
    ultimately show ?thesis using ht(1) d(1) few
      by (intro exI [of _ "[str]"] exI [of _ ht'] exI [of _ "[]"]) (auto simp: explode_def)
  qed
qed

subsection \<open>implode\<close>

lemma print_ulong: "zend_print_ulong_to_buf x = decimal (unat x)"
proof (induction x rule: zend_print_ulong_to_buf.induct)
  case (1 x)
  have "(ucast (x mod 10) :: u8) + 48 = word_of_nat (48 + unat x mod 10)"
    by (simp add: word_unat_eq_iff unsigned_ucast_eq unsigned_of_nat unat_word_ariths unat_mod take_bit_eq_mod mod_simps)
  moreover have "0 < x div 10 \<longleftrightarrow> \<not> unat x < 10" by (simp add: word_less_nat_alt unat_div div_greater_zero_iff not_less)
  ultimately show ?case using 1 by (subst zend_print_ulong_to_buf.simps, subst decimal.simps) (simp add: unat_div)
qed

lemma sint_uint64: "sint (x :: u64) = (if uint x < 2 ^ 63 then uint x else uint x - 2 ^ 64)"
proof (cases "uint x < 2 ^ 63")
  case True
  moreover have "- (2 ^ 63) \<le> uint x" by (rule order_trans [OF _ uint_ge_0]) simp
  ultimately have "sint x = uint x" unfolding sint_eq64 by simp
  then show ?thesis using True by simp
next
  case False
  have "x = word_of_int (uint x - 2 ^ 64)" by simp
  then have "sint x = uint x - 2 ^ 64" using False uint_lt2p [of x] unfolding sint_eq64 by simp
  then show ?thesis using False by simp
qed

lemma uint_less64: "uint (x :: u64) < 2 ^ 64"
  using uint_lt2p [of x] by simp

lemma uint_minus64: "uint (- x :: u64) = (if uint x = 0 then 0 else 2 ^ 64 - uint x)"
proof -
  have "uint (- x) = (- uint x) mod 2 ^ 64" by (simp add: uint_word_ariths)
  moreover have "uint x mod 2 ^ 64 = uint x" using uint_less64 [of x] by (intro mod_pos_pos_trivial) simp_all
  ultimately show ?thesis by (simp only: zmod_zminus1_eq_if)
qed

lemma print_long: "zend_print_long_to_buf x = fmt_d (sint x)"
proof -
  have less: "x <s 0 \<longleftrightarrow> sint x < 0" by (simp add: word_sless_alt)
  show ?thesis
  proof (cases "sint x < 0")
    case True
    have "NOT x + 1 = - x" by (simp add: not_eq_complement)
    moreover have "uint (- x) = - sint x"
      using True uint_minus64 [of x] unfolding sint_uint64 by (simp split: if_splits)
    then have "unat (- x) = nat (- sint x)" by (simp only: unat_eq_nat_uint)
    ultimately show ?thesis using True less by (simp only: zend_print_long_to_buf_def print_ulong fmt_d_def if_True)
  next
    case False
    then have "sint x = uint x" using uint_less64 [of x] unfolding sint_uint64 by (simp split: if_splits)
    then have "unat x = nat (sint x)" by (simp only: unat_eq_nat_uint)
    then show ?thesis using False less by (simp only: zend_print_long_to_buf_def print_ulong fmt_d_def if_False)
  qed
qed

lemma long_digits_eq: "long_digits v = (if v = 0 then 0 else length (decimal (nat \<bar>v\<bar>)))"
proof (induction v rule: long_digits.induct)
  case (1 v)
  have d: "nat \<bar>v sdiv 10\<bar> = nat \<bar>v\<bar> div 10" by (simp add: signed_divide_int_def sgn_if nat_div_distrib)
  have z: "v sdiv 10 = 0 \<longleftrightarrow> nat \<bar>v\<bar> < 10" using d by (metis abs_eq_0 div_eq_0_iff nat_0_iff abs_ge_zero dual_order.antisym zero_neq_numeral)
  show ?case
  proof (cases "v = 0")
    case False
    then have "long_digits v = Suc (long_digits (v sdiv 10))" by (subst long_digits.simps) simp
    moreover have "length (decimal (nat \<bar>v\<bar>)) = (if nat \<bar>v\<bar> < 10 then 1 else Suc (length (decimal (nat \<bar>v\<bar> div 10))))"
      by (subst decimal.simps) simp
    ultimately show ?thesis using 1 False d z by simp
  qed simp
qed

lemma long_len_eq: "long_len x = length (zend_print_long_to_buf x)"
proof -
  have "decimal 0 = [48]" by (subst decimal.simps) simp
  moreover have "x \<le>s 0 \<longleftrightarrow> sint x \<le> 0" by (simp add: word_sle_eq)
  ultimately show ?thesis unfolding print_long long_len_def long_digits_eq fmt_d_def
    by (cases "sint x < 0"; cases "sint x = 0") simp_all
qed

lemma piece_len_eq: "piece_len p = length (piece_text p)"
  by (cases p) (simp_all add: long_len_eq)

lemma implode_loop_ok:
  assumes "ps \<noteq> []"
  shows "implode_loop glue (rev ps) (k + ((length ps - 1) * length glue + sum_list (map piece_len ps)), out) =
    Some (k, join glue (map piece_text ps) @ out)"
  using assms
proof (induction ps arbitrary: out rule: rev_induct)
  case (snoc p ps)
  show ?case
  proof (cases "ps = []")
    case True
    then show ?thesis by (simp add: piece_len_eq)
  next
    case False
    obtain n where n: "length ps = Suc n" using False by (cases ps) auto
    have "implode_loop glue (rev ps) (k + ((length ps - 1) * length glue + sum_list (map piece_len ps)), glue @ piece_text p @ out) =
      Some (k, join glue (map piece_text ps) @ glue @ piece_text p @ out)" by (rule snoc.IH [OF False])
    then show ?thesis using False n by (simp add: piece_len_eq [of p] join_snoc add.commute add.left_commute)
  qed
qed simp

lemma length_map_filter_le: "length (List.map_filter f xs) \<le> length xs"
  by (induction xs) (auto simp: List.map_filter_simps split: option.split)

lemma num_elements: "ht_ok ht \<Longrightarrow> unat (nNumOfElements ht) = length (ht_list ht)"
proof (erule ht_okE)
  fix k assume "hash_ok k ht" "contents_ok k ht"
  then show ?thesis using contents_bounds(3,4) [of k ht] unat_u32_less [of "nNumUsed ht"]
    by (simp add: contents_ok_def ht_list_def unat_of_nat32)
next
  fix k assume "packed_ok k ht" "contents_ok k ht"
  then show ?thesis using contents_bounds(3,4) [of k ht] unat_u32_less [of "nNumUsed ht"]
    by (simp add: contents_ok_def ht_list_def unat_of_nat32)
qed (simp add: fresh_ok_def ht_list_def)

lemma implode_ok:
  assumes ok: "ht_ok ht"
  shows "php_implode to_str glue ht =
    (if ht_list ht = [] then Some (0, [])
     else if visible ht = [] then None
     else Some ((length (ht_list ht) - length (visible ht)) * length glue,
       join glue (map (piece_text \<circ> piece_of to_str \<circ> snd) (visible ht))))"
proof -
  let ?n = "length (ht_list ht)" and ?ps = "map (piece_of to_str \<circ> snd) (visible ht)"
  note f = foreach_ind_ok [OF ok] and n = num_elements [OF ok]
  have le: "length (visible ht) \<le> ?n" unfolding visible_def by (rule length_map_filter_le)
  consider "ht_list ht = []" | "ht_list ht \<noteq> []" "visible ht = []" | "ht_list ht \<noteq> []" "visible ht \<noteq> []" "?n = 1"
    | "visible ht \<noteq> []" "?n \<noteq> 1" "ht_list ht \<noteq> []" by blast
  then show ?thesis
  proof cases
    case 3
    then obtain x where "visible ht = [x]" using le by (cases "visible ht"; cases "tl (visible ht)") auto
    then show ?thesis using f n 3 by (simp add: php_implode_def)
  next
    case 4
    have "?n = (?n - length (visible ht)) + length (visible ht)" using le by simp
    moreover have "?n - 1 = (?n - length (visible ht)) + (length (visible ht) - 1)" using le 4 by (cases "visible ht") auto
    then have "(?n - 1) * length glue + sum_list (map piece_len ?ps) =
        (?n - length (visible ht)) * length glue + ((length ?ps - 1) * length glue + sum_list (map piece_len ?ps))"
      by (simp only: add_mult_distrib length_map add.assoc)
    ultimately show ?thesis
      using implode_loop_ok [of ?ps glue "(?n - length (visible ht)) * length glue" "[]"] f n 4
      by (simp add: php_implode_def Let_def o_assoc add.assoc)
  qed (use f n in \<open>simp_all add: php_implode_def\<close>)
qed

subsection \<open>substr\<close>

text \<open>The reference: a start behind the end gives no result; a negative start counts from the end, and a
  negative length leaves out bytes at the end.\<close>

definition substr_spec :: "bytes \<Rightarrow> int \<Rightarrow> int option \<Rightarrow> bytes option" where
  "substr_spec s f l =
     (let n = int (length s); start = (if f < 0 then max 0 (n + f) else f);
          stop = (case l of None \<Rightarrow> n | Some l \<Rightarrow> if l < 0 then n + l else min n (start + l))
      in if n < f \<or> stop < start \<and> (0 \<le> f \<or> stop < 0) then None
         else Some (take (nat (stop - start)) (drop (nat start) s)))"

text \<open>The same with integers.\<close>

definition substr_ints :: "int \<Rightarrow> int \<Rightarrow> int option \<Rightarrow> (int \<times> int) option" where
  "substr_ints n f l =
     (let start = (if f < 0 then max 0 (n + f) else f)
      in if n < f then None
         else case l of
                None \<Rightarrow> Some (start, n - start)
              | Some l \<Rightarrow>
                  if l < 0
                  then if n + l < start then if f < 0 \<and> 0 \<le> n + l then Some (start, 0) else None
                       else Some (start, n - start + l)
                  else Some (start, min l (n - start)))"

abbreviation (input) w64 :: "int \<Rightarrow> u64" where "w64 \<equiv> word_of_int"

lemma uint_w64: "0 \<le> x \<Longrightarrow> x < 2 ^ 64 \<Longrightarrow> uint (w64 x) = x"
  by (simp add: unsigned_of_int take_bit_int_eq_self)

lemma w64_less: "0 \<le> x \<Longrightarrow> x < 2 ^ 64 \<Longrightarrow> 0 \<le> y \<Longrightarrow> y < 2 ^ 64 \<Longrightarrow> w64 x < w64 y \<longleftrightarrow> x < y"
  by (simp only: word_less_def uint_w64)

lemma w64_sless: "- (2 ^ 63) \<le> x \<Longrightarrow> x < 2 ^ 63 \<Longrightarrow> - (2 ^ 63) \<le> y \<Longrightarrow> y < 2 ^ 63 \<Longrightarrow> w64 x <s w64 y \<longleftrightarrow> x < y"
proof -
  have "sint (w64 z) = z" if "- (2 ^ 63) \<le> z" "z < 2 ^ 63" for z using that unfolding sint_eq64 by simp
  then show "- (2 ^ 63) \<le> x \<Longrightarrow> x < 2 ^ 63 \<Longrightarrow> - (2 ^ 63) \<le> y \<Longrightarrow> y < 2 ^ 63 \<Longrightarrow> w64 x <s w64 y \<longleftrightarrow> x < y"
    by (simp only: word_sless_alt)
qed

lemma substr_range_start:
  "substr_range n f l =
    (if n <s f then None
     else (let start = (if f <s 0 then if n < - f then 0 else n + f else f)
           in case l of
                None \<Rightarrow> Some (start, n - start)
              | Some l \<Rightarrow>
                  if l <s 0
                  then if n - start < - l then if f <s 0 \<and> \<not> n < - l then Some (start, 0) else None
                       else Some (start, n - start + l)
                  else if n - start < l then Some (start, n - start) else Some (start, l)))"
  by (simp add: substr_range_def Let_def split: option.split)

lemma substr_range_ints:
  assumes n: "0 \<le> n" "n < 2 ^ 63" and f: "- (2 ^ 63) \<le> f" "f < 2 ^ 63"
    and l: "\<And>x. l = Some x \<Longrightarrow> - (2 ^ 63) \<le> x \<and> x < 2 ^ 63"
  shows "substr_range (w64 n) (w64 f) (map_option w64 l) = map_option (\<lambda>(a, b). (w64 a, w64 b)) (substr_ints n f l)"
proof -
  define s where "s = (if f < 0 then max 0 (n + f) else f)"
  have nf: "w64 n <s w64 f \<longleftrightarrow> n < f" and f0: "w64 f <s 0 \<longleftrightarrow> f < 0"
    using w64_sless [of n f] w64_sless [of f 0] n f by simp_all
  show ?thesis
  proof (cases "n < f")
    case True
    then show ?thesis using nf by (simp add: substr_range_def substr_ints_def)
  next
    case False
    have s: "0 \<le> s" "s \<le> n" using False n by (auto simp: s_def)
    have start: "(if f < 0 then if w64 n < - w64 f then 0 else w64 n + w64 f else w64 f) = w64 s"
    proof (cases "f < 0")
      case True
      have "w64 n < w64 (- f) \<longleftrightarrow> n < - f" using True n f by (intro w64_less) simp_all
      then have "w64 n < - w64 f \<longleftrightarrow> n + f < 0" by (simp add: less_minus_iff add.commute) linarith
      then show ?thesis using True f0 by (simp add: s_def)
    qed (use f0 in \<open>simp add: s_def\<close>)
    note defs = substr_range_start substr_ints_def Let_def nf f0 start
    note fold = s_def [symmetric] of_int_diff [symmetric] of_int_add [symmetric] of_int_minus [symmetric]
    show ?thesis
    proof (cases l)
      case None
      then show ?thesis unfolding defs unfolding fold using False by simp
    next
      case (Some x)
      have x: "- (2 ^ 63) \<le> x" "x < 2 ^ 63" using l [OF Some] by simp_all
      have x0: "w64 x <s 0 \<longleftrightarrow> x < 0" using w64_sless [of x 0] x by simp
      show ?thesis
      proof (cases "x < 0")
        case True
        have "w64 (n - s) < w64 (- x) \<longleftrightarrow> n - s < - x" "w64 n < w64 (- x) \<longleftrightarrow> n < - x"
          using True x n s by (intro w64_less; simp)+
        moreover have "n - s < - x \<longleftrightarrow> n + x < s" "n < - x \<longleftrightarrow> \<not> 0 \<le> n + x" by linarith+
        ultimately show ?thesis unfolding defs unfolding fold Some option.map option.case x0 using False True
          by (simp only: if_True if_False option.map prod.case simp_thms of_int_0 split: if_split) blast
      next
        case F: False
        have "w64 (n - s) < w64 x \<longleftrightarrow> n - s < x" using F x n s by (intro w64_less) simp_all
        then show ?thesis unfolding defs unfolding fold Some option.map option.case x0 using False F
          by (simp only: if_False option.map prod.case min_def linorder_not_le [symmetric] split: if_split) blast
      qed
    qed
  qed
qed

lemma substr_ints_bounds: "0 \<le> n \<Longrightarrow> substr_ints n f l = Some (a, b) \<Longrightarrow> 0 \<le> a \<and> 0 \<le> b \<and> a + b \<le> n"
  by (auto simp: substr_ints_def Let_def split: option.splits if_splits)

lemma substr_spec_ints: "substr_spec s f l =
    map_option (\<lambda>(a, b). take (nat b) (drop (nat a) s)) (substr_ints (int (length s)) f l)"
proof (cases l)
  case None
  then show ?thesis by (simp add: substr_spec_def substr_ints_def Let_def)
next
  case (Some x)
  define n start where "n = int (length s)" and "start = (if f < 0 then max 0 (n + f) else f)"
  note defs = substr_spec_def substr_ints_def Let_def n_def [symmetric] start_def [symmetric] Some option.case
  show ?thesis
  proof (cases "x < 0")
    case True
    have shift: "n + x - start = n - start + x" by simp
    show ?thesis unfolding defs if_P [OF True] shift using True by (auto simp: start_def split: if_splits)
  next
    case False
    have "n < f \<or> start \<le> n" "0 \<le> n" by (auto simp: start_def n_def)
    moreover have "min n (start + x) - start = min x (n - start)" by linarith
    ultimately show ?thesis unfolding defs using False by auto
  qed
qed

lemma substr_ok:
  assumes "length s < 2 ^ 63"
  shows "\<exists>calls. substr s f l = Some (substr_spec s (sint f) (map_option sint l), calls) \<and>
    calls = (case substr_spec s (sint f) (map_option sint l) of Some (c # r) \<Rightarrow> [Feedback 0x07] | _ \<Rightarrow> [])"
proof -
  let ?n = "int (length s)" and ?l = "map_option sint l"
  have b: "- (2 ^ 63) \<le> sint x" "sint x < 2 ^ 63" for x :: u64 using sint_ge [of x] sint_lt [of x] by simp_all
  have "map_option w64 ?l = l" by (cases l) simp_all
  moreover have "- (2 ^ 63) \<le> x \<and> x < 2 ^ 63" if "?l = Some x" for x using that b by auto
  ultimately have r: "substr_range (word_of_nat (length s)) f l = map_option (\<lambda>(a, b). (w64 a, w64 b)) (substr_ints ?n (sint f) ?l)"
    using substr_range_ints [of ?n "sint f" ?l] assms b by simp
  show ?thesis
  proof (cases "substr_ints ?n (sint f) ?l")
    case None
    then show ?thesis using r by (simp add: substr_def substr_spec_ints)
  next
    case (Some p)
    obtain a c where p: "p = (a, c)" by fastforce
    then have bd: "0 \<le> a" "0 \<le> c" "a + c \<le> ?n" using substr_ints_bounds [of ?n "sint f" ?l a c] Some by auto
    then have lt: "a < 2 ^ 64" "c < 2 ^ 64" using assms by simp_all
    have u: "unat (w64 a) = nat a" "unat (w64 c) = nat c" using bd lt uint_w64 by (simp_all only: unat_eq_nat_uint)
    have z: "w64 c = 0 \<longleftrightarrow> c = 0" using uint_w64 [OF bd(2) lt(2)] by (metis unsigned_0 of_int_0)
    have spec: "substr_spec s (sint f) ?l = Some (take (nat c) (drop (nat a) s))" using Some p by (simp add: substr_spec_ints)
    have "take (nat c) (drop (nat a) s) \<noteq> []" if "c \<noteq> 0" using that bd by auto
    moreover have "nat a + nat c \<le> length s" using bd by linarith
    ultimately show ?thesis using r Some p z u spec
      by (cases "take (nat c) (drop (nat a) s)") (auto simp: substr_def)
  qed
qed

subsection \<open>The properties\<close>

text \<open>C14: \<open>explode\<close> cuts a string at the delimiters and gives an array of the pieces with the keys 0, 1, 2
  and so on: joined with the delimiter they are the string, all but the last are free of the
  delimiter, there are at most as many as the limit says, and the last one is free of it unless
  the limit was reached. A negative limit leaves out that many pieces at the end. The feedback to
  the fuzzer tells the number of delimiters after the first, up to 8.\<close>

theorem explode_correct:
  assumes "d \<noteq> []" "length d < 2 ^ 31" "makes_values mk" "length str < 2 ^ 27"
  shows "\<exists>ps ht calls. explode slots mk d str limit = Some (Some ht, calls) \<and> ht_ok ht \<and>
    pieces_of d str (if limit < 0 then int (length ps) + 1 else max 1 limit) ps \<and>
    ht_list ht = vec_list (map mk (if limit < 0 then take (length ps - nat (- limit)) ps else ps)) \<and>
    (1 < limit \<and> str \<noteq> [] \<longrightarrow> calls = [Feedback (last_feedback d ps)])"
proof -
  from explode_ok [OF assms, of slots limit] obtain ps ht calls where e: "explode slots mk d str limit = Some (Some ht, calls)"
    "pieces_of d str (if limit < 0 then int (length ps) + 1 else max 1 limit) ps"
    "vec_ok ht (map mk (if limit < 0 then take (length ps - nat (- limit)) ps else ps))"
    "1 < limit \<and> str \<noteq> [] \<longrightarrow> calls = [Feedback (last_feedback d ps)]" by blast
  have "ht_ok ht" "ht_list ht = vec_list (map mk (if limit < 0 then take (length ps - nat (- limit)) ps else ps))"
    using e(3) by (rule vec_is_ok, simp add: vec_ok_def)
  then show ?thesis using e(1,2,4) by blast
qed

definition ex_value :: "bytes \<Rightarrow> nat pval zval" where
  "ex_value s = ZV (P_Str (ex_key s))"

theorem explode_correct_witness:
  "\<exists>ps ht calls. explode (\<lambda>_. IS_UNDEF) ex_value (cs '','') (cs ''a,b,,c'') 3 = Some (Some ht, calls) \<and>
    pieces_of (cs '','') (cs ''a,b,,c'') 3 ps \<and> ht_list ht = vec_list (map ex_value ps)"
  using explode_correct [of "cs '',''" ex_value "cs ''a,b,,c''" "\<lambda>_. IS_UNDEF" 3]
  by (auto simp: makes_values_def ex_value_def cs_def)


definition ex_numbers :: "nat pval hashtable" where
  "ex_numbers = ex_array [P_Str (ex_key [97]), P_Long (- 30)]"


text \<open>C12: \<open>implode\<close> undoes \<open>explode\<close>: for every string, every delimiter that is not empty and every limit that is
  not negative, the pieces joined again are the string.\<close>

theorem implode_explode:
  assumes "d \<noteq> []" "length d < 2 ^ 31" "length str < 2 ^ 27" "0 \<le> limit"
    and "\<And>s. zs_val (new_str s) = s"
  shows "\<exists>ht calls. explode slots (\<lambda>s. ZV (P_Str (new_str s))) d str limit = Some (Some ht, calls) \<and>
    php_implode to_str d ht = Some (0, str)"
proof -
  let ?mk = "\<lambda>s. ZV (P_Str (new_str s))"
  have mk: "makes_values ?mk" by (simp add: makes_values_def)
  obtain ps ht calls where e: "explode slots ?mk d str limit = Some (Some ht, calls)" "pieces_of d str (max 1 limit) ps"
    "vec_ok ht (map ?mk ps)"
    using explode_ok [OF assms(1,2) mk assms(3), of slots limit] assms(4) by auto
  have l: "ht_list ht = map (\<lambda>i. (Idx (word_of_nat i), ?mk (ps ! i))) [0..<length ps]"
    using e(3) by (simp add: vec_ok_def vec_list_def)
  have v: "visible ht = map (\<lambda>i. (Idx (word_of_nat i), P_Str (new_str (ps ! i)))) [0..<length ps]"
    unfolding visible_def l by (simp add: List.map_filter_def visible_value_def o_def)
  have "map (piece_text \<circ> piece_of to_str \<circ> snd) (visible ht) = ps"
    unfolding v by (simp add: o_def assms(5) map_nth)
  then have "php_implode to_str d ht = Some (0, str)"
    using implode_ok [OF vec_is_ok [OF e(3)], of to_str d] e(2) l v by (cases ps) (simp_all add: pieces_of_def)
  then show ?thesis using e(1) by blast
qed

theorem implode_explode_witness:
  "\<exists>ht calls. explode (\<lambda>_. IS_UNDEF :: nat pval zval) (\<lambda>s. ZV (P_Str (ex_key s))) (cs ''aa'') (cs ''aaa,aaaa'') 9 = Some (Some ht, calls) \<and>
    php_implode (\<lambda>_. []) (cs ''aa'') ht = Some (0, cs ''aaa,aaaa'')"
  using implode_explode [of "cs ''aa''" "cs ''aaa,aaaa''" 9 ex_key "\<lambda>_. IS_UNDEF" "\<lambda>_. []"] by (simp add: cs_def ex_key_def)

text \<open>C34: \<open>substr\<close> gives the part of the string that its documentation describes, with negative starts and
  lengths, in spite of the mix of signed and unsigned 64-bit comparisons; it never reads outside of the string, and it
  sends its feedback just when the result is not empty.\<close>

theorem substr_correct:
  assumes "length s < 2 ^ 63"
  shows "\<exists>calls. substr s f l = Some (substr_spec s (sint f) (map_option sint l), calls) \<and>
    calls = (case substr_spec s (sint f) (map_option sint l) of Some (c # r) \<Rightarrow> [Feedback 0x07] | _ \<Rightarrow> [])"
  by (rule substr_ok [OF assms])

theorem substr_correct_witness:
  "substr_spec (cs ''hello'') (sint (- 3 :: u64)) (Some (sint (- 1 :: u64))) = Some (cs ''ll'') \<and>
    substr (cs ''hello'') (- 3) (Some (- 1)) = Some (Some (cs ''ll''), [Feedback 0x07])"
proof -
  have "substr_spec (cs ''hello'') (sint (- 3 :: u64)) (Some (sint (- 1 :: u64))) = Some (cs ''ll'')" by code_simp
  then show ?thesis using substr_correct [of "cs ''hello''" "- 3" "Some (- 1)"] by (auto simp: cs_def)
qed

end
