(* ===== verification/Zend_Sort.thy ===== *)
theory Zend_Sort
  imports C_Prelude "HOL-Library.Monad_Syntax" "HOL-Library.Multiset"
begin

text \<open>
  The sorting of PHP, \<open>php-7.4-patched/Zend/zend_sort.c\<close>: \<open>zend_insert_sort\<close> for up to 16 elements and
  the quicksort \<open>zend_sort\<close> above it. A pointer into the memory is the number of its element. The
  comparison is a callback that may answer anything and keep a state of its own, as the callbacks of
  \<open>usort\<close> do; the swap is a callback that says what becomes of two elements. An access outside of the
  memory is \<open>None\<close>.
\<close>

subsection \<open>Comparing and swapping\<close>

type_synonym ('s, 'a) compare_func = "'s \<Rightarrow> 'a \<Rightarrow> 'a \<Rightarrow> int \<times> 's"
type_synonym 'a swap_func = "'a \<Rightarrow> 'a \<Rightarrow> 'a \<times> 'a"

text \<open>\<open>cmp(i, j) > 0\<close>.\<close>

fun greater :: "('s, 'a) compare_func \<Rightarrow> nat \<Rightarrow> nat \<Rightarrow> 'a list \<times> 's \<Rightarrow> (bool \<times> 'a list \<times> 's) option" where
  "greater cmp i j (xs, s) =
     do { x \<leftarrow> nth_opt xs i;
          y \<leftarrow> nth_opt xs j;
          Some (fst (cmp s x y) > 0, xs, snd (cmp s x y)) }"

fun swap_at :: "'a swap_func \<Rightarrow> nat \<Rightarrow> nat \<Rightarrow> 'a list \<times> 's \<Rightarrow> ('a list \<times> 's) option" where
  "swap_at swp i j (xs, s) =
     do { x \<leftarrow> nth_opt xs i;
          y \<leftarrow> nth_opt xs j;
          Some (xs[i := fst (swp x y), j := snd (swp x y)], s) }"

subsection \<open>Up to five elements\<close>

definition zend_sort_2 ::
    "('s, 'a) compare_func \<Rightarrow> 'a swap_func \<Rightarrow> nat \<Rightarrow> nat \<Rightarrow> 'a list \<times> 's \<Rightarrow> ('a list \<times> 's) option" where
  "zend_sort_2 cmp swp a b st =
     do { (g, st) \<leftarrow> greater cmp a b st;
          if g then swap_at swp a b st else Some st }"

definition zend_sort_3 ::
    "('s, 'a) compare_func \<Rightarrow> 'a swap_func \<Rightarrow> nat \<Rightarrow> nat \<Rightarrow> nat \<Rightarrow> 'a list \<times> 's \<Rightarrow> ('a list \<times> 's) option" where
  "zend_sort_3 cmp swp a b c st =
     do { (g, st) \<leftarrow> greater cmp a b st;
          if \<not> g
          then do { (g, st) \<leftarrow> greater cmp b c st;
                    if \<not> g then Some st
                    else do { st \<leftarrow> swap_at swp b c st;
                              (g, st) \<leftarrow> greater cmp a b st;
                              if g then swap_at swp a b st else Some st } }
          else do { (g, st) \<leftarrow> greater cmp c b st;
                    if \<not> g then swap_at swp a c st
                    else do { st \<leftarrow> swap_at swp a b st;
                              (g, st) \<leftarrow> greater cmp b c st;
                              if g then swap_at swp b c st else Some st } } }"

text \<open>The end of \<open>zend_sort_4\<close> and \<open>zend_sort_5\<close>: the last of the elements at the given places sinks
  to its place among the others, which are given from the last to the first.\<close>

fun sink :: "('s, 'a) compare_func \<Rightarrow> 'a swap_func \<Rightarrow> nat \<Rightarrow> nat list \<Rightarrow> 'a list \<times> 's \<Rightarrow> ('a list \<times> 's) option" where
  "sink cmp swp d [] st = Some st"
| "sink cmp swp d (c # cs) st =
     do { (g, st) \<leftarrow> greater cmp c d st;
          if g then do { st \<leftarrow> swap_at swp c d st; sink cmp swp c cs st } else Some st }"

definition zend_sort_4 ::
    "('s, 'a) compare_func \<Rightarrow> 'a swap_func \<Rightarrow> nat \<Rightarrow> nat \<Rightarrow> nat \<Rightarrow> nat \<Rightarrow> 'a list \<times> 's \<Rightarrow> ('a list \<times> 's) option" where
  "zend_sort_4 cmp swp a b c d st =
     do { st \<leftarrow> zend_sort_3 cmp swp a b c st;
          sink cmp swp d [c, b, a] st }"

definition zend_sort_5 ::
    "('s, 'a) compare_func \<Rightarrow> 'a swap_func \<Rightarrow> nat \<Rightarrow> nat \<Rightarrow> nat \<Rightarrow> nat \<Rightarrow> nat \<Rightarrow> 'a list \<times> 's \<Rightarrow>
     ('a list \<times> 's) option" where
  "zend_sort_5 cmp swp a b c d e st =
     do { st \<leftarrow> zend_sort_4 cmp swp a b c d st;
          sink cmp swp e [d, c, b, a] st }"

subsection \<open>Insertion sort\<close>

text \<open>The loop \<open>for (k = i; k > j; k -= siz) swp(k, k - siz)\<close> with \<open>n\<close> steps.\<close>

fun move_down :: "'a swap_func \<Rightarrow> nat \<Rightarrow> nat \<Rightarrow> 'a list \<times> 's \<Rightarrow> ('a list \<times> 's) option" where
  "move_down swp 0 k st = Some st"
| "move_down swp (Suc n) k st = do { st \<leftarrow> swap_at swp k (k - 1) st; move_down swp n (k - 1) st }"

text \<open>The search for the place of element \<open>i\<close> among the first six: \<open>d\<close> is the distance of \<open>j\<close> from the
  start.\<close>

fun search_linear ::
    "('s, 'a) compare_func \<Rightarrow> nat \<Rightarrow> nat \<Rightarrow> nat \<Rightarrow> 'a list \<times> 's \<Rightarrow> (nat \<times> 'a list \<times> 's) option" where
  "search_linear cmp start 0 i st = Some (start, st)"
| "search_linear cmp start (Suc d) i st =
     do { (g, st) \<leftarrow> greater cmp (start + d) i st;
          if \<not> g then Some (start + d + 1, st) else search_linear cmp start d i st }"

text \<open>The search in steps of two among the later ones; the pointer may not go below the start.\<close>

fun search_twos ::
    "('s, 'a) compare_func \<Rightarrow> nat \<Rightarrow> nat \<Rightarrow> nat \<Rightarrow> 'a list \<times> 's \<Rightarrow> (nat \<times> 'a list \<times> 's) option" where
  "search_twos cmp start (Suc (Suc d)) i st =
     do { (g, st) \<leftarrow> greater cmp (start + d) i st;
          if \<not> g
          then do { (g, st) \<leftarrow> greater cmp (start + d + 1) i st;
                    Some (if \<not> g then start + d + 2 else start + d + 1, st) }
          else if d = 0 then Some (start, st)
          else if d = 1
          then do { (g, st) \<leftarrow> greater cmp i start st;
                    Some (if g then start + 1 else start, st) }
          else search_twos cmp start d i st }"
| "search_twos cmp start d i st = None"

definition insert_elem ::
    "(nat \<Rightarrow> nat \<Rightarrow> nat \<Rightarrow> 'a list \<times> 's \<Rightarrow> (nat \<times> 'a list \<times> 's) option) \<Rightarrow> ('s, 'a) compare_func \<Rightarrow> 'a swap_func \<Rightarrow>
     nat \<Rightarrow> nat \<Rightarrow> 'a list \<times> 's \<Rightarrow> ('a list \<times> 's) option" where
  "insert_elem search cmp swp start i st =
     do { (g, st) \<leftarrow> greater cmp (i - 1) i st;
          if \<not> g then Some st
          else do { (j, st) \<leftarrow> search start (i - 1 - start) i st;
                    move_down swp (i - j) i st } }"

text \<open>A \<open>for\<close> loop of \<open>n\<close> steps from \<open>i\<close> on.\<close>

fun for_loop :: "(nat \<Rightarrow> 'b \<Rightarrow> 'b option) \<Rightarrow> nat \<Rightarrow> nat \<Rightarrow> 'b \<Rightarrow> 'b option" where
  "for_loop f 0 i st = Some st"
| "for_loop f (Suc n) i st = do { st \<leftarrow> f i st; for_loop f n (Suc i) st }"

definition zend_insert_sort ::
    "('s, 'a) compare_func \<Rightarrow> 'a swap_func \<Rightarrow> nat \<Rightarrow> nat \<Rightarrow> 'a list \<times> 's \<Rightarrow> ('a list \<times> 's) option" where
  "zend_insert_sort cmp swp b nmemb st =
     (if nmemb \<le> 1 then Some st
      else if nmemb = 2 then zend_sort_2 cmp swp b (b + 1) st
      else if nmemb = 3 then zend_sort_3 cmp swp b (b + 1) (b + 2) st
      else if nmemb = 4 then zend_sort_4 cmp swp b (b + 1) (b + 2) (b + 3) st
      else if nmemb = 5 then zend_sort_5 cmp swp b (b + 1) (b + 2) (b + 3) (b + 4) st
      else do { st \<leftarrow> for_loop (insert_elem (search_linear cmp) cmp swp b) 5 (b + 1) st;
                for_loop (insert_elem (search_twos cmp) cmp swp b) (nmemb - 6) (b + 6) st })"

subsection \<open>Quicksort\<close>

text \<open>The inner loops of the partition; \<open>True\<close> is the jump to \<open>done\<close>.\<close>

partial_function (option) scan_up ::
    "('s, 'a) compare_func \<Rightarrow> nat \<Rightarrow> nat \<Rightarrow> nat \<Rightarrow> 'a list \<times> 's \<Rightarrow> (bool \<times> nat \<times> 'a list \<times> 's) option" where [code]:
  "scan_up cmp pivot i j st =
     do { (g, st) \<leftarrow> greater cmp pivot i st;
          if \<not> g then Some (False, i, st)
          else if i + 1 = j then Some (True, i + 1, st)
          else scan_up cmp pivot (i + 1) j st }"

partial_function (option) scan_down ::
    "('s, 'a) compare_func \<Rightarrow> nat \<Rightarrow> nat \<Rightarrow> nat \<Rightarrow> 'a list \<times> 's \<Rightarrow> (bool \<times> nat \<times> 'a list \<times> 's) option" where [code]:
  "scan_down cmp pivot i j st =
     do { (g, st) \<leftarrow> greater cmp j pivot st;
          if \<not> g then Some (False, j, st)
          else if j = 0 then None
          else if j - 1 = i then Some (True, j - 1, st)
          else scan_down cmp pivot i (j - 1) st }"

partial_function (option) partition_loop ::
    "('s, 'a) compare_func \<Rightarrow> 'a swap_func \<Rightarrow> nat \<Rightarrow> nat \<Rightarrow> nat \<Rightarrow> 'a list \<times> 's \<Rightarrow> (nat \<times> 'a list \<times> 's) option" where [code]:
  "partition_loop cmp swp pivot i j st =
     do { (fin, i, st) \<leftarrow> scan_up cmp pivot i j st;
          if fin then Some (i, st)
          else if j - 1 = i then Some (i, st)
          else do { (fin, j, st) \<leftarrow> scan_down cmp pivot i (j - 1) st;
                    if fin then Some (i, st)
                    else do { st \<leftarrow> swap_at swp i j st;
                              if i + 1 = j then Some (i + 1, st)
                              else partition_loop cmp swp pivot (i + 1) j st } } }"

text \<open>The partition of more than 16 elements, up to the swap at \<open>done\<close>: where the upper part starts.\<close>

definition zend_partition ::
    "('s, 'a) compare_func \<Rightarrow> 'a swap_func \<Rightarrow> nat \<Rightarrow> nat \<Rightarrow> 'a list \<times> 's \<Rightarrow> (nat \<times> 'a list \<times> 's) option" where
  "zend_partition cmp swp start nmemb st =
     do { let stop = start + nmemb;
          let offset = nmemb div 2;
          let pivot = start + offset;
          st \<leftarrow> (if nmemb div 1024 \<noteq> 0
                then (let delta = offset div 2
                      in zend_sort_5 cmp swp start (start + delta) pivot (pivot + delta) (stop - 1) st)
                else zend_sort_3 cmp swp start pivot (stop - 1) st);
          st \<leftarrow> swap_at swp (start + 1) pivot st;
          (i, st) \<leftarrow> partition_loop cmp swp (start + 1) (start + 2) (stop - 1) st;
          st \<leftarrow> swap_at swp (start + 1) (i - 1) st;
          Some (i, st) }"

text \<open>The smaller part is sorted by a call, the other one by the next round of the loop.\<close>

partial_function (option) zend_sort ::
    "('s, 'a) compare_func \<Rightarrow> 'a swap_func \<Rightarrow> nat \<Rightarrow> nat \<Rightarrow> 'a list \<times> 's \<Rightarrow> ('a list \<times> 's) option" where [code]:
  "zend_sort cmp swp b nmemb st =
     (if nmemb \<le> 16 then zend_insert_sort cmp swp b nmemb st
      else do { (i, st) \<leftarrow> zend_partition cmp swp b nmemb st;
                if i - 1 - b < b + nmemb - i
                then do { st \<leftarrow> zend_sort cmp swp b (i - b - 1) st;
                          zend_sort cmp swp i (b + nmemb - i) st }
                else do { st \<leftarrow> zend_sort cmp swp i (b + nmemb - i) st;
                          zend_sort cmp swp b (i - b - 1) st } })"

end
