(* ===== verification/Zend_Sort_Correct.thy ===== *)
theory Zend_Sort_Correct
  imports Zend_Sort
begin

text \<open>
  Whatever the comparison answers, the sorting of PHP returns, touches only its range of the memory
  and permutes it; with a comparison that is consistent the range is sorted. The swaps of PHP may
  exchange only a part of the elements, as those of the arrays do: \<open>pl\<close> is what moves and \<open>fx\<close> what
  stays.
\<close>

declare greater.simps [simp del] swap_at.simps [simp del]

subsection \<open>Calls that return\<close>

definition returns :: "'a option \<Rightarrow> ('a \<Rightarrow> bool) \<Rightarrow> bool" where
  "returns r P \<longleftrightarrow> (\<exists>y. r = Some y \<and> P y)"

lemma returns_Some [simp]: "returns (Some y) P \<longleftrightarrow> P y"
  by (simp add: returns_def)

lemma returns_mono: "returns m P \<Longrightarrow> (\<And>x. P x \<Longrightarrow> Q x) \<Longrightarrow> returns m Q"
  by (auto simp: returns_def)

lemma returns_seq: "returns m Q \<Longrightarrow> (\<And>x. Q x \<Longrightarrow> returns (f x) P) \<Longrightarrow> returns (Option.bind m f) P"
  by (auto simp: returns_def)

lemma for_loop_returns:
  assumes "I a st" "\<And>i st. a \<le> i \<Longrightarrow> i < a + n \<Longrightarrow> I i st \<Longrightarrow> returns (f i st) (I (Suc i))"
  shows "returns (for_loop f n a st) (I (a + n))"
  using assms
proof (induction n arbitrary: a st)
  case (Suc n)
  have "returns (f a st) (I (Suc a))" using Suc.prems by simp
  then show ?case unfolding for_loop.simps
    by (rule returns_seq) (use Suc.IH [of "Suc a"] Suc.prems(2) in simp)
qed simp

subsection \<open>Orders\<close>

text \<open>A consistent comparison: being greater is asymmetric, and not being greater is transitive.\<close>

definition weak_order :: "('p \<Rightarrow> 'p \<Rightarrow> bool) \<Rightarrow> bool" where
  "weak_order gt \<longleftrightarrow> (\<forall>x y. gt x y \<longrightarrow> \<not> gt y x) \<and> (\<forall>x y z. \<not> gt x y \<longrightarrow> \<not> gt y z \<longrightarrow> \<not> gt x z)"

lemma weak_orderD:
  assumes "weak_order gt"
  shows "gt x y \<Longrightarrow> \<not> gt y x" "\<not> gt x y \<Longrightarrow> \<not> gt y z \<Longrightarrow> \<not> gt x z" "\<not> gt x x"
  using assms unfolding weak_order_def by blast+

locale swapping =
  fixes swp :: "'a swap_func" and pl :: "'a \<Rightarrow> 'p" and fx :: "'a \<Rightarrow> 'f"
    and cmp :: "('s, 'a) compare_func" and gt :: "'p \<Rightarrow> 'p \<Rightarrow> bool"
  assumes swp_pl: "pl (fst (swp x y)) = pl y" "pl (snd (swp x y)) = pl x"
    and swp_fx: "fx (fst (swp x y)) = fx x" "fx (snd (swp x y)) = fx y"
begin

text \<open>The comparison is consistent on elements whose fixed parts are among \<open>fs\<close>.\<close>

definition agrees_on :: "'f list \<Rightarrow> bool" where
  "agrees_on fs \<longleftrightarrow> weak_order gt \<and>
     (\<forall>s x y. fx x \<in> set fs \<longrightarrow> fx y \<in> set fs \<longrightarrow> (fst (cmp s x y) > 0) = gt (pl x) (pl y))"

abbreviation agrees :: "'a list \<Rightarrow> bool" where
  "agrees xs \<equiv> agrees_on (map fx xs)"

text \<open>\<open>ys\<close> is \<open>xs\<close> with the range of \<open>n\<close> elements from \<open>b\<close> on permuted.\<close>

definition within :: "nat \<Rightarrow> nat \<Rightarrow> 'a list \<Rightarrow> 'a list \<Rightarrow> bool" where
  "within b n xs ys \<longleftrightarrow> length ys = length xs \<and> (\<forall>i<length xs. i < b \<or> b + n \<le> i \<longrightarrow> pl (ys ! i) = pl (xs ! i)) \<and>
     mset (map pl ys) = mset (map pl xs) \<and> map fx ys = map fx xs"

lemma within_refl [simp]: "within b n xs xs"
  by (simp add: within_def)

lemma within_trans: "within b n xs ys \<Longrightarrow> within b n ys zs \<Longrightarrow> within b n xs zs"
  by (simp add: within_def)

lemma within_mono: "within b n xs ys \<Longrightarrow> b' \<le> b \<Longrightarrow> b + n \<le> b' + n' \<Longrightarrow> within b' n' xs ys"
  by (simp add: within_def)

lemma within_length: "within b n xs ys \<Longrightarrow> length ys = length xs"
  by (simp add: within_def)

lemma within_outside: "within b n xs ys \<Longrightarrow> i < b \<or> b + n \<le> i \<Longrightarrow> i < length xs \<Longrightarrow> pl (ys ! i) = pl (xs ! i)"
  by (auto simp: within_def)

text \<open>The elements of the range are the same.\<close>

lemma within_mset:
  assumes "within b n xs ys" "b + n \<le> length xs"
  shows "mset (map pl (take n (drop b ys))) = mset (map pl (take n (drop b xs)))"
proof -
  have split: "mset zs = mset (take b zs) + mset (take n (drop b zs)) + mset (drop (b + n) zs)" for zs :: "'p list"
    by (metis add.commute append_take_drop_id drop_drop mset_append union_assoc)
  have "take b (map pl ys) = take b (map pl xs)" "drop (b + n) (map pl ys) = drop (b + n) (map pl xs)"
    using assms by (auto simp: within_def list_eq_iff_nth_eq)
  then show ?thesis
    using split [of "map pl ys"] split [of "map pl xs"] assms(1) by (simp add: within_def take_map drop_map)
qed

lemma within_range:
  assumes "within b n xs ys" "b + n \<le> length xs" "b \<le> i" "i < b + n"
  obtains j where "b \<le> j" "j < b + n" "pl (ys ! i) = pl (xs ! j)"
proof -
  have len: "length ys = length xs" using assms(1) by (rule within_length)
  have "ys ! i = take n (drop b ys) ! (i - b)" using assms(2-4) len by simp
  moreover have "i - b < length (take n (drop b ys))" using assms(2-4) len by simp
  ultimately have "pl (ys ! i) \<in> set (map pl (take n (drop b ys)))" by (metis image_eqI list.set_map nth_mem)
  then have "pl (ys ! i) \<in> set (map pl (take n (drop b xs)))"
    using within_mset [OF assms(1,2)] by (metis set_mset_mset)
  then obtain m where "m < length (take n (drop b xs))" "pl (ys ! i) = pl (take n (drop b xs) ! m)"
    by (auto simp: in_set_conv_nth)
  then show thesis using that [of "b + m"] assms(2) by simp
qed

subsection \<open>Steps\<close>

definition swapped :: "nat \<Rightarrow> nat \<Rightarrow> 'a list \<Rightarrow> 'a list" where
  "swapped i j xs = xs[i := fst (swp (xs ! i) (xs ! j)), j := snd (swp (xs ! i) (xs ! j))]"

lemma swap_at_eq: "i < length xs \<Longrightarrow> j < length xs \<Longrightarrow> swap_at swp i j (xs, s) = Some (swapped i j xs, s)"
  by (simp add: swap_at.simps nth_opt_def swapped_def)

lemma length_swapped [simp]: "length (swapped i j xs) = length xs"
  by (simp add: swapped_def)

lemma pl_swapped:
  "i < length xs \<Longrightarrow> j < length xs \<Longrightarrow> m < length xs \<Longrightarrow>
   pl (swapped i j xs ! m) = (if m = i then pl (xs ! j) else if m = j then pl (xs ! i) else pl (xs ! m))"
  by (auto simp: swapped_def nth_list_update swp_pl)

lemma fx_swapped: "i < length xs \<Longrightarrow> j < length xs \<Longrightarrow> map fx (swapped i j xs) = map fx xs"
  by (simp add: swapped_def map_update swp_fx list_update_same_conv)
    (metis list_update_id list_update_overwrite list_update_swap nth_map)

lemma within_swapped:
  assumes "i < length xs" "j < length xs" "b \<le> i" "i < b + n" "b \<le> j" "j < b + n"
  shows "within b n xs (swapped i j xs)"
proof -
  have "map pl (swapped i j xs) = (map pl xs)[i := map pl xs ! j, j := map pl xs ! i]"
    using assms by (simp add: swapped_def map_update swp_pl)
  moreover have "map fx (swapped i j xs) = map fx xs" using assms by (intro fx_swapped)
  ultimately show ?thesis
    using assms mset_swap [of j "map pl xs" i] by (auto simp: within_def pl_swapped)
qed

subsection \<open>Up to five elements\<close>

text \<open>The elements at the given places are in order.\<close>

definition inorder :: "'a list \<Rightarrow> nat list \<Rightarrow> bool" where
  "inorder xs ps \<longleftrightarrow> sorted_wrt (\<lambda>i j. \<not> gt (pl (xs ! i)) (pl (xs ! j))) ps"

lemma greater_eq:
  "i < length xs \<Longrightarrow> j < length xs \<Longrightarrow>
   greater cmp i j (xs, s) = Some (fst (cmp s (xs ! i) (xs ! j)) > 0, xs, snd (cmp s (xs ! i) (xs ! j)))"
  by (simp add: greater.simps nth_opt_def)

lemma agreesD:
  "agrees xs \<Longrightarrow> i < length xs \<Longrightarrow> j < length xs \<Longrightarrow> (fst (cmp s (xs ! i) (xs ! j)) > 0) = gt (pl (xs ! i)) (pl (xs ! j))"
  by (simp add: agrees_on_def)

lemma agrees_within: "within b n xs ys \<Longrightarrow> agrees ys = agrees xs"
  by (simp add: within_def)

lemma within_swapped_trans:
  "within b n xs ys \<Longrightarrow> i < length ys \<Longrightarrow> j < length ys \<Longrightarrow> {i, j} \<subseteq> {b..<b + n} \<Longrightarrow> within b n xs (swapped i j ys)"
  by (rule within_trans [OF _ within_swapped]) auto

lemma zend_sort_3_returns:
  assumes "a < length xs" "b < length xs" "c < length xs" "a \<noteq> b" "a \<noteq> c" "b \<noteq> c"
    "{a, b, c} \<subseteq> {m..<m + n}"
  shows "returns (zend_sort_3 cmp swp a b c (xs, s)) (\<lambda>(ys, s'). within m n xs ys)"
  using assms unfolding zend_sort_3_def
  by (simp add: greater_eq swap_at_eq within_swapped_trans)

lemma zend_sort_3_orders:
  assumes "a < length xs" "b < length xs" "c < length xs" "a \<noteq> b" "a \<noteq> c" "b \<noteq> c" "agrees xs"
  shows "returns (zend_sort_3 cmp swp a b c (xs, s)) (\<lambda>(ys, s'). inorder ys [a, b, c])"
proof -
  have o: "weak_order gt" using assms(7) by (simp add: agrees_on_def)
  show ?thesis
    using assms unfolding zend_sort_3_def
    by (simp add: greater_eq swap_at_eq agreesD fx_swapped pl_swapped inorder_def, auto dest: weak_orderD(1) [OF o])
      (metis weak_orderD [OF o])+
qed

text \<open>The last place sinks into the others, which are in order.\<close>

lemma sink_returns:
  assumes "\<forall>i\<in>set (d # cs). i < length xs \<and> m \<le> i \<and> i < m + n" "distinct (d # cs)"
  shows "returns (sink cmp swp d cs (xs, s)) (\<lambda>(ys, s'). within m n xs ys \<and>
    (\<forall>i<length xs. i \<notin> set (d # cs) \<longrightarrow> pl (ys ! i) = pl (xs ! i)) \<and>
    (\<lambda>i. pl (ys ! i)) ` set (d # cs) = (\<lambda>i. pl (xs ! i)) ` set (d # cs) \<and>
    (agrees xs \<longrightarrow> inorder xs (rev cs) \<longrightarrow> inorder ys (rev cs @ [d])))"
  using assms
proof (induction cs arbitrary: d xs s)
  case Nil
  then show ?case by (simp add: inorder_def)
next
  case (Cons c cs)
  let ?s = "snd (cmp s (xs ! c) (xs ! d))" and ?xs = "swapped c d xs"
  have r: "c < length xs" "d < length xs" "c \<noteq> d" "{c, d} \<subseteq> {m..<m + n}" using Cons.prems by auto
  have pls: "pl (?xs ! i) = (if i = c then pl (xs ! d) else if i = d then pl (xs ! c) else pl (xs ! i))"
    if "i < length xs" for i using pl_swapped [OF r(1,2) that] .
  have fxs: "map fx ?xs = map fx xs" using r by (intro fx_swapped)
  have img: "(\<lambda>i. pl (?xs ! i)) ` set (d # c # cs) = (\<lambda>i. pl (xs ! i)) ` set (d # c # cs)"
    using Cons.prems pls by (auto simp: image_iff)
  show ?case
  proof (cases "fst (cmp s (xs ! c) (xs ! d)) > 0")
    case False
    have "inorder xs (rev (c # cs) @ [d])" if ag: "agrees xs" and "inorder xs (rev (c # cs))"
    proof -
      have "\<not> gt (pl (xs ! c)) (pl (xs ! d))" using False agreesD [OF ag r(1,2)] by blast
      then show ?thesis using that weak_orderD(2) [of gt]
        by (auto simp: inorder_def sorted_wrt_append agrees_on_def)
    qed
    then show ?thesis using False r by (simp add: greater_eq)
  next
    case True
    have "returns (sink cmp swp c cs (?xs, ?s)) (\<lambda>(ys, s'). within m n ?xs ys \<and>
      (\<forall>i<length ?xs. i \<notin> set (c # cs) \<longrightarrow> pl (ys ! i) = pl (?xs ! i)) \<and>
      (\<lambda>i. pl (ys ! i)) ` set (c # cs) = (\<lambda>i. pl (?xs ! i)) ` set (c # cs) \<and>
      (agrees ?xs \<longrightarrow> inorder ?xs (rev cs) \<longrightarrow> inorder ys (rev cs @ [c])))"
      using Cons.prems by (intro Cons.IH) auto
    then obtain ys s' where ys: "sink cmp swp c cs (?xs, ?s) = Some (ys, s')" "within m n ?xs ys"
      "\<forall>i<length ?xs. i \<notin> set (c # cs) \<longrightarrow> pl (ys ! i) = pl (?xs ! i)"
      "(\<lambda>i. pl (ys ! i)) ` set (c # cs) = (\<lambda>i. pl (?xs ! i)) ` set (c # cs)"
      "agrees xs \<longrightarrow> inorder ?xs (rev cs) \<longrightarrow> inorder ys (rev cs @ [c])"
      unfolding fxs by (auto simp: returns_def)
    have yd: "pl (ys ! d) = pl (xs ! c)" using ys(3) pls [OF r(2)] r Cons.prems(2) by auto
    have "(\<lambda>i. pl (ys ! i)) ` set (d # c # cs) = (\<lambda>i. pl (xs ! i)) ` set (d # c # cs)"
      using ys(4) yd pls [OF r(2)] r(3) img by simp
    moreover have "\<forall>i<length xs. i \<notin> set (d # c # cs) \<longrightarrow> pl (ys ! i) = pl (xs ! i)" using ys(3) pls by simp
    moreover have "within m n xs ys"
      by (rule within_trans [OF within_swapped_trans ys(2)]) (use r in auto)
    moreover have "inorder ys (rev (c # cs) @ [d])" if ag: "agrees xs" and io: "inorder xs (rev (c # cs))"
    proof -
      have o: "weak_order gt" using ag by (simp add: agrees_on_def)
      have cs: "i < length xs" "i \<noteq> c" "i \<noteq> d" if "i \<in> set cs" for i using Cons.prems that by auto
      have "sorted_wrt (\<lambda>i j. \<not> gt (pl (?xs ! i)) (pl (?xs ! j))) (rev cs)"
        using io cs pls by (auto simp: inorder_def sorted_wrt_append elim!: sorted_wrt_mono_rel [rotated])
      then have 1: "inorder ys (rev cs @ [c])" using ys(5) ag by (simp add: inorder_def)
      have "\<not> gt (pl (?xs ! i)) (pl (xs ! c))" if "i \<in> set (c # cs)" for i
      proof (cases "i = c")
        case True
        then show ?thesis using \<open>fst (cmp s (xs ! c) (xs ! d)) > 0\<close> agreesD [OF ag r(1,2)] pls [OF r(1)] weak_orderD(1) [OF o]
          by simp
      next
        case False
        then show ?thesis using that io cs pls by (auto simp: inorder_def sorted_wrt_append)
      qed
      then have "\<not> gt (pl (ys ! i)) (pl (ys ! d))" if "i \<in> set (c # cs)" for i
        using ys(4) yd that by (metis (no_types, lifting) image_iff)
      then show ?thesis using 1 by (auto simp: inorder_def sorted_wrt_append)
    qed
    ultimately show ?thesis using True r ys(1) by (simp add: greater_eq swap_at_eq)
  qed
qed

lemma zend_sort_3_ok:
  assumes "\<forall>i\<in>{a, b, c}. i < length xs \<and> m \<le> i \<and> i < m + n" "distinct [a, b, c]"
  shows "returns (zend_sort_3 cmp swp a b c (xs, s)) (\<lambda>(ys, s'). within m n xs ys \<and> (agrees xs \<longrightarrow> inorder ys [a, b, c]))"
  using zend_sort_3_returns [of a xs b c m n s] zend_sort_3_orders [of a xs b c s] assms
  by (fastforce simp: returns_def)

lemma zend_sort_4_ok:
  assumes "\<forall>i\<in>{a, b, c, d}. i < length xs \<and> m \<le> i \<and> i < m + n" "distinct [a, b, c, d]"
  shows "returns (zend_sort_4 cmp swp a b c d (xs, s))
    (\<lambda>(ys, s'). within m n xs ys \<and> (agrees xs \<longrightarrow> inorder ys [a, b, c, d]))"
  unfolding zend_sort_4_def
proof (rule returns_seq [OF zend_sort_3_ok [where m = m and n = n]], goal_cases)
  case (3 st)
  then obtain ys s' where st: "st = (ys, s')" "within m n xs ys" "agrees xs \<longrightarrow> inorder ys [a, b, c]" by auto
  have "returns (sink cmp swp d [c, b, a] (ys, s')) (\<lambda>(zs, s'). within m n ys zs \<and>
    (\<forall>i<length ys. i \<notin> set (d # [c, b, a]) \<longrightarrow> pl (zs ! i) = pl (ys ! i)) \<and>
    (\<lambda>i. pl (zs ! i)) ` set (d # [c, b, a]) = (\<lambda>i. pl (ys ! i)) ` set (d # [c, b, a]) \<and>
    (agrees ys \<longrightarrow> inorder ys (rev [c, b, a]) \<longrightarrow> inorder zs (rev [c, b, a] @ [d])))"
    using assms within_length [OF st(2)] by (intro sink_returns) auto
  then show ?case unfolding st(1)
    by (rule returns_mono) (use st within_trans [OF st(2)] agrees_within [OF st(2)] in auto)
qed (use assms in auto)

lemma zend_sort_5_ok:
  assumes "\<forall>i\<in>{a, b, c, d, e}. i < length xs \<and> m \<le> i \<and> i < m + n" "distinct [a, b, c, d, e]"
  shows "returns (zend_sort_5 cmp swp a b c d e (xs, s))
    (\<lambda>(ys, s'). within m n xs ys \<and> (agrees xs \<longrightarrow> inorder ys [a, b, c, d, e]))"
  unfolding zend_sort_5_def
proof (rule returns_seq [OF zend_sort_4_ok [where m = m and n = n]], goal_cases)
  case (3 st)
  then obtain ys s' where st: "st = (ys, s')" "within m n xs ys" "agrees xs \<longrightarrow> inorder ys [a, b, c, d]" by auto
  have "returns (sink cmp swp e [d, c, b, a] (ys, s')) (\<lambda>(zs, s'). within m n ys zs \<and>
    (\<forall>i<length ys. i \<notin> set (e # [d, c, b, a]) \<longrightarrow> pl (zs ! i) = pl (ys ! i)) \<and>
    (\<lambda>i. pl (zs ! i)) ` set (e # [d, c, b, a]) = (\<lambda>i. pl (ys ! i)) ` set (e # [d, c, b, a]) \<and>
    (agrees ys \<longrightarrow> inorder ys (rev [d, c, b, a]) \<longrightarrow> inorder zs (rev [d, c, b, a] @ [e])))"
    using assms within_length [OF st(2)] by (intro sink_returns) auto
  then show ?case unfolding st(1)
    by (rule returns_mono) (use st within_trans [OF st(2)] agrees_within [OF st(2)] in auto)
qed (use assms in auto)

subsection \<open>Insertion sort\<close>

definition ordered :: "'a list \<Rightarrow> nat \<Rightarrow> nat \<Rightarrow> bool" where
  "ordered xs a b \<longleftrightarrow> (\<forall>i j. a \<le> i \<longrightarrow> i < j \<longrightarrow> j < b \<longrightarrow> \<not> gt (pl (xs ! i)) (pl (xs ! j)))"

lemma move_down_eq:
  assumes "n \<le> k" "k < length xs"
  shows "\<exists>ys. move_down swp n k (xs, s) = Some (ys, s) \<and> within (k - n) (Suc n) xs ys \<and>
    (\<forall>m<length xs. pl (ys ! m) = (if m = k - n then pl (xs ! k) else if k - n < m \<and> m \<le> k then pl (xs ! (m - 1)) else pl (xs ! m)))"
  using assms
proof (induction n arbitrary: k xs)
  case (Suc n)
  let ?xs = "swapped k (k - 1) xs"
  have k: "k < length xs" "k - 1 < length xs" "n \<le> k - 1" using Suc.prems by simp_all
  obtain ys where ys: "move_down swp n (k - 1) (?xs, s) = Some (ys, s)" "within (k - 1 - n) (Suc n) ?xs ys"
    "\<forall>m<length xs. pl (ys ! m) = (if m = k - 1 - n then pl (?xs ! (k - 1)) else if k - 1 - n < m \<and> m \<le> k - 1
       then pl (?xs ! (m - 1)) else pl (?xs ! m))"
    using Suc.IH [of "k - 1" ?xs] k by auto
  have "within (k - Suc n) (Suc (Suc n)) xs ys"
    by (rule within_trans [OF within_swapped within_mono [OF ys(2)]]) (use Suc.prems in auto)
  moreover have "pl (ys ! m) = (if m = k - Suc n then pl (xs ! k)
      else if k - Suc n < m \<and> m \<le> k then pl (xs ! (m - 1)) else pl (xs ! m))" if "m < length xs" for m
    using ys(3) that pl_swapped [OF k(1,2)] Suc.prems by auto
  ultimately show ?case using ys(1) k by (simp add: swap_at_eq)
qed simp

text \<open>A place \<open>j\<close> for the element \<open>i\<close> behind an ordered range.\<close>

definition place_for :: "'a list \<Rightarrow> nat \<Rightarrow> nat \<Rightarrow> nat \<Rightarrow> bool" where
  "place_for xs start i j \<longleftrightarrow> (\<forall>m. start \<le> m \<longrightarrow> m < j \<longrightarrow> \<not> gt (pl (xs ! m)) (pl (xs ! i))) \<and>
     (\<forall>m. j \<le> m \<longrightarrow> m < i \<longrightarrow> \<not> gt (pl (xs ! i)) (pl (xs ! m)))"

definition searches :: "(nat \<Rightarrow> nat \<Rightarrow> nat \<Rightarrow> 'a list \<times> 's \<Rightarrow> (nat \<times> 'a list \<times> 's) option) \<Rightarrow> nat \<Rightarrow> bool" where
  "searches search least \<longleftrightarrow> (\<forall>start d i xs s. least \<le> d \<longrightarrow> start + d < i \<longrightarrow> i < length xs \<longrightarrow>
     returns (search start d i (xs, s)) (\<lambda>(j, ys, s'). ys = xs \<and> start \<le> j \<and> j \<le> start + d \<and>
       (agrees xs \<longrightarrow> ordered xs start i \<longrightarrow> gt (pl (xs ! (start + d))) (pl (xs ! i)) \<longrightarrow> place_for xs start i j)))"

lemma place_forI:
  assumes ag: "agrees xs" and "ordered xs start i" "start \<le> j" "j \<le> i"
    and "start < j \<Longrightarrow> \<not> gt (pl (xs ! (j - 1))) (pl (xs ! i))" "j < i \<Longrightarrow> \<not> gt (pl (xs ! i)) (pl (xs ! j))"
  shows "place_for xs start i j"
proof -
  have o: "weak_order gt" using ag by (simp add: agrees_on_def)
  have "\<not> gt (pl (xs ! m)) (pl (xs ! i))" if "start \<le> m" "m < j" for m
  proof (cases "m = j - 1")
    case False
    then have "\<not> gt (pl (xs ! m)) (pl (xs ! (j - 1)))" using assms(2,4) that by (simp add: ordered_def)
    moreover have "\<not> gt (pl (xs ! (j - 1))) (pl (xs ! i))" using assms(5) that by simp
    ultimately show ?thesis by (rule weak_orderD(2) [OF o])
  qed (use assms(5) that in simp)
  moreover have "\<not> gt (pl (xs ! i)) (pl (xs ! m))" if "j \<le> m" "m < i" for m
  proof (cases "m = j")
    case False
    then have "\<not> gt (pl (xs ! j)) (pl (xs ! m))" using assms(2,3) that by (simp add: ordered_def)
    moreover have "\<not> gt (pl (xs ! i)) (pl (xs ! j))" using assms(6) that by simp
    ultimately show ?thesis using weak_orderD(2) [OF o] by blast
  qed (use assms(6) that in simp)
  ultimately show ?thesis by (simp add: place_for_def)
qed

lemma place_below:
  assumes "agrees xs" "ordered xs start i" "gt (pl (xs ! e)) (pl (xs ! i))" "start \<le> j" "j \<le> e" "e < i"
    "start < j \<Longrightarrow> \<not> gt (pl (xs ! (j - 1))) (pl (xs ! i))" "j < e \<Longrightarrow> \<not> gt (pl (xs ! i)) (pl (xs ! j))"
  shows "place_for xs start i j"
proof -
  have "\<not> gt (pl (xs ! i)) (pl (xs ! e))"
    by (rule weak_orderD(1)) (use assms(1,3) in \<open>simp_all add: agrees_on_def\<close>)
  then show ?thesis using assms by (intro place_forI) (auto simp: le_less)
qed

lemma search_linear_searches: "searches (search_linear cmp) 0"
  unfolding searches_def
proof (intro allI impI)
  fix start d i and xs :: "'a list" and s :: 's
  assume "start + d < i" "i < length xs"
  then show "returns (search_linear cmp start d i (xs, s)) (\<lambda>(j, ys, s'). ys = xs \<and> start \<le> j \<and> j \<le> start + d \<and>
       (agrees xs \<longrightarrow> ordered xs start i \<longrightarrow> gt (pl (xs ! (start + d))) (pl (xs ! i)) \<longrightarrow> place_for xs start i j))"
  proof (induction d arbitrary: s)
    case 0
    then show ?case using place_below [of xs start i start start] by simp
  next
    case (Suc d)
    let ?r = "cmp s (xs ! (start + d)) (xs ! i)"
    have eq: "greater cmp (start + d) i (xs, s) = Some (fst ?r > 0, xs, snd ?r)" using Suc.prems by (intro greater_eq) auto
    show ?case
    proof (cases "fst ?r > 0")
      case True
      then have "agrees xs \<Longrightarrow> gt (pl (xs ! (start + d))) (pl (xs ! i))" using agreesD [of xs "start + d" i s] Suc.prems by simp
      then show ?thesis using Suc.IH [of "snd ?r"] Suc.prems eq True by (auto simp: returns_def)
    next
      case False
      then have "agrees xs \<Longrightarrow> \<not> gt (pl (xs ! (start + d))) (pl (xs ! i))" using agreesD [of xs "start + d" i s] Suc.prems by simp
      then show ?thesis using place_below [of xs start i "start + Suc d" "start + Suc d"] Suc.prems eq False by simp
    qed
  qed
qed

lemma search_twos_searches: "searches (search_twos cmp) 2"
  unfolding searches_def
proof (intro allI impI)
  fix start d i and xs :: "'a list" and s :: 's
  assume "2 \<le> d" "start + d < i" "i < length xs"
  then show "returns (search_twos cmp start d i (xs, s)) (\<lambda>(j, ys, s'). ys = xs \<and> start \<le> j \<and> j \<le> start + d \<and>
       (agrees xs \<longrightarrow> ordered xs start i \<longrightarrow> gt (pl (xs ! (start + d))) (pl (xs ! i)) \<longrightarrow> place_for xs start i j))"
  proof (induction d arbitrary: s rule: less_induct)
    case (less d')
    then obtain d where d: "d' = Suc (Suc d)" by (metis Suc_le_D numeral_2_eq_2 Suc_le_mono)
    let ?r = "cmp s (xs ! (start + d)) (xs ! i)"
    let ?ra = "cmp (snd ?r) (xs ! (start + d + 1)) (xs ! i)" and ?rb = "cmp (snd ?r) (xs ! i) (xs ! start)"
    have eq: "greater cmp (start + d) i (xs, s) = Some (fst ?r > 0, xs, snd ?r)"
      "greater cmp (start + d + 1) i (xs, snd ?r) = Some (fst ?ra > 0, xs, snd ?ra)"
      "greater cmp i start (xs, snd ?r) = Some (fst ?rb > 0, xs, snd ?rb)"
      using less.prems d by (simp_all add: greater_eq)
    have o: "agrees xs \<Longrightarrow> gt x y \<Longrightarrow> \<not> gt y x" for x y using weak_orderD(1) [of gt] by (simp add: agrees_on_def)
    have g: "(fst ?r > 0) = gt (pl (xs ! (start + d))) (pl (xs ! i))"
      "(fst ?ra > 0) = gt (pl (xs ! (start + d + 1))) (pl (xs ! i))" "(fst ?rb > 0) = gt (pl (xs ! i)) (pl (xs ! start))"
      if "agrees xs" using less.prems d by (intro agreesD [OF that]; simp)+
    have e: "start + d' < i" using less.prems by simp
    note place = place_below [OF _ _ _ _ _ e]
    consider (stop) "\<not> fst ?r > 0" | (zero) "fst ?r > 0" "d = 0" | (one) "fst ?r > 0" "d = 1"
      | (more) "fst ?r > 0" "2 \<le> d" by linarith
    then show ?case
    proof cases
      case stop
      let ?j = "if \<not> fst ?ra > 0 then start + d + 2 else start + d + 1"
      have "place_for xs start i ?j"
        if ag: "agrees xs" and "ordered xs start i" "gt (pl (xs ! (start + d'))) (pl (xs ! i))"
        using that stop g [OF ag] d o [OF ag] by (intro place) auto
      then show ?thesis using stop eq d by simp
    next
      case zero
      have "place_for xs start i start"
        if ag: "agrees xs" and "ordered xs start i" "gt (pl (xs ! (start + d'))) (pl (xs ! i))"
        using that zero g [OF ag] d o [OF ag] by (intro place) auto
      then show ?thesis using zero eq d by simp
    next
      case one
      let ?j = "if fst ?rb > 0 then start + 1 else start"
      have "place_for xs start i ?j"
        if ag: "agrees xs" and "ordered xs start i" "gt (pl (xs ! (start + d'))) (pl (xs ! i))"
        using that one g [OF ag] d o [OF ag] by (intro place) auto
      then show ?thesis using one eq d by simp
    next
      case more
      then have "agrees xs \<Longrightarrow> gt (pl (xs ! (start + d))) (pl (xs ! i))" using g(1) by blast
      then show ?thesis using less.IH [of d "snd ?r"] less.prems more eq d by (auto simp: returns_def)
    qed
  qed
qed

lemma insert_elem_ok:
  assumes se: "searches search least" and i: "start < i" "i < length xs" "least \<le> i - 1 - start"
  shows "returns (insert_elem search cmp swp start i (xs, s)) (\<lambda>(ys, s'). within start (Suc i - start) xs ys \<and>
    (agrees xs \<longrightarrow> ordered xs start i \<longrightarrow> ordered ys start (Suc i)))"
proof -
  let ?c = "cmp s (xs ! (i - 1)) (xs ! i)"
  have eq: "greater cmp (i - 1) i (xs, s) = Some (fst ?c > 0, xs, snd ?c)" using i by (intro greater_eq) auto
  show ?thesis
  proof (cases "fst ?c > 0")
    case False
    have "ordered xs start (Suc i)" if ag: "agrees xs" and "ordered xs start i"
    proof -
      have "place_for xs start i i"
        using that i False agreesD [OF ag, of "i - 1" i s] by (intro place_forI) auto
      then show ?thesis using that(2) by (auto simp: ordered_def place_for_def less_Suc_eq)
    qed
    then show ?thesis using eq False by (simp add: insert_elem_def)
  next
    case True
    have d: "start + (i - 1 - start) = i - 1" "i - 1 < i" using i(1) by simp_all
    have "returns (search start (i - 1 - start) i (xs, snd ?c)) (\<lambda>(j, ys, s'). ys = xs \<and> start \<le> j \<and> j \<le> i - 1 \<and>
       (agrees xs \<longrightarrow> ordered xs start i \<longrightarrow> gt (pl (xs ! (i - 1))) (pl (xs ! i)) \<longrightarrow> place_for xs start i j))"
      using se [unfolded searches_def, rule_format, of "i - 1 - start" start i xs "snd ?c"] i d by simp
    then obtain j s' where j: "search start (i - 1 - start) i (xs, snd ?c) = Some (j, xs, s')" "start \<le> j" "j < i"
      "agrees xs \<longrightarrow> ordered xs start i \<longrightarrow> place_for xs start i j"
      using i True agreesD [of xs "i - 1" i s] by (fastforce simp: returns_def)
    obtain ys where ys: "move_down swp (i - j) i (xs, s') = Some (ys, s')" "within j (Suc (i - j)) xs ys"
      "\<forall>m<length xs. pl (ys ! m) = (if m = j then pl (xs ! i) else if j < m \<and> m \<le> i then pl (xs ! (m - 1)) else pl (xs ! m))"
      using move_down_eq [of "i - j" i xs s'] i j(3) by auto
    have "ordered ys start (Suc i)" if "place_for xs start i j" "ordered xs start i"
      unfolding ordered_def
    proof (intro allI impI)
      fix a b assume ab: "start \<le> a" "a < b" "b < Suc i"
      then have "pl (ys ! a) = (if a = j then pl (xs ! i) else if j < a then pl (xs ! (a - 1)) else pl (xs ! a))"
        "pl (ys ! b) = (if b = j then pl (xs ! i) else if j < b then pl (xs ! (b - 1)) else pl (xs ! b))"
        using ys(3) i(2) by simp_all
      then show "\<not> gt (pl (ys ! a)) (pl (ys ! b))"
        using that ab j(2,3) by (auto simp: place_for_def ordered_def)
    qed
    moreover have "within start (Suc i - start) xs ys" by (rule within_mono [OF ys(2)]) (use j in auto)
    ultimately show ?thesis using eq True j(1,4) ys(1) by (simp add: insert_elem_def)
  qed
qed

lemma ordered_of_inorder: "inorder ys [b..<b + n] \<Longrightarrow> ordered ys b (b + n)"
  by (auto simp: inorder_def ordered_def sorted_wrt_iff_nth_less)
    (metis add_diff_inverse_nat diff_less_mono le_less_trans less_imp_le linorder_not_less nth_upt add_less_cancel_left)

lemma upt_small: "[b..<b + 2] = [b, b + 1]" "[b..<b + 3] = [b, b + 1, b + 2]" "[b..<b + 4] = [b, b + 1, b + 2, b + 3]"
  "[b..<b + 5] = [b, b + 1, b + 2, b + 3, b + 4]"
  by (simp_all add: numeral_eq_Suc upt_rec)

lemma zend_insert_sort_ok:
  assumes "b + n \<le> length xs"
  shows "returns (zend_insert_sort cmp swp b n (xs, s)) (\<lambda>(ys, s'). within b n xs ys \<and> (agrees xs \<longrightarrow> ordered ys b (b + n)))"
proof -
  consider "n \<le> 1" | "n = 2" | "n = 3" | "n = 4" | "n = 5" | "6 \<le> n" by linarith
  then show ?thesis
  proof cases
    case 1
    then show ?thesis by (auto simp: zend_insert_sort_def ordered_def)
  next
    case 2
    let ?r = "cmp s (xs ! b) (xs ! (b + 1))"
    have o: "ordered ys b (b + 2)" if "\<not> gt (pl (ys ! b)) (pl (ys ! (b + 1)))" for ys
      using that by (intro ordered_of_inorder) (simp add: upt_small inorder_def)
    have r: "b < length xs" "b + 1 < length xs" using 2 assms by simp_all
    have g: "(fst ?r > 0) = gt (pl (xs ! b)) (pl (xs ! (b + 1)))" if "agrees xs" by (rule agreesD [OF that r])
    have "ordered xs b (b + 2)" if "agrees xs" "\<not> fst ?r > 0" using g [OF that(1)] that(2) by (intro o) simp
    moreover have "ordered (swapped b (b + 1) xs) b (b + 2)" if ag: "agrees xs" and "fst ?r > 0"
    proof (rule o)
      have "weak_order gt" using ag by (simp add: agrees_on_def)
      then show "\<not> gt (pl (swapped b (b + 1) xs ! b)) (pl (swapped b (b + 1) xs ! (b + 1)))"
        using g [OF ag] that(2) weak_orderD(1) [of gt] pl_swapped [OF r r(1)] pl_swapped [OF r r(2)] by simp
    qed
    moreover have "within b n xs (swapped b (b + 1) xs)" by (rule within_swapped) (use r 2 in auto)
    ultimately show ?thesis using 2 r by (auto simp: zend_insert_sort_def zend_sort_2_def greater_eq swap_at_eq)
  next
    case 3
    have "returns (zend_sort_3 cmp swp b (b + 1) (b + 2) (xs, s))
        (\<lambda>(ys, s'). within b n xs ys \<and> (agrees xs \<longrightarrow> inorder ys [b, b + 1, b + 2]))"
      using 3 assms by (intro zend_sort_3_ok) auto
    then show ?thesis using ordered_of_inorder [of _ b 3] 3
      by (auto simp: zend_insert_sort_def upt_small(2) elim!: returns_mono)
  next
    case 4
    have "returns (zend_sort_4 cmp swp b (b + 1) (b + 2) (b + 3) (xs, s))
        (\<lambda>(ys, s'). within b n xs ys \<and> (agrees xs \<longrightarrow> inorder ys [b, b + 1, b + 2, b + 3]))"
      using 4 assms by (intro zend_sort_4_ok) auto
    then show ?thesis using ordered_of_inorder [of _ b 4] 4
      by (auto simp: zend_insert_sort_def upt_small(3) elim!: returns_mono)
  next
    case 5
    have "returns (zend_sort_5 cmp swp b (b + 1) (b + 2) (b + 3) (b + 4) (xs, s))
        (\<lambda>(ys, s'). within b n xs ys \<and> (agrees xs \<longrightarrow> inorder ys [b, b + 1, b + 2, b + 3, b + 4]))"
      using 5 assms by (intro zend_sort_5_ok) auto
    then show ?thesis using ordered_of_inorder [of _ b 5] 5
      by (auto simp: zend_insert_sort_def upt_small(4) elim!: returns_mono)
  next
    case 6
    define I where "I i st \<longleftrightarrow> within b n xs (fst st) \<and> (agrees xs \<longrightarrow> ordered (fst st) b i)" for i and st :: "'a list \<times> 's"
    have step: "returns (insert_elem search cmp swp b i st) (I (Suc i))"
      if "searches search least" "b < i" "i < b + n" "least \<le> i - 1 - b" "I i st" for search least i st
    proof -
      obtain ys s' where st: "st = (ys, s')" "within b n xs ys" "agrees xs \<longrightarrow> ordered ys b i"
        using \<open>I i st\<close> by (cases st) (simp add: I_def)
      have "returns (insert_elem search cmp swp b i (ys, s')) (\<lambda>(zs, s'). within b (Suc i - b) ys zs \<and>
          (agrees ys \<longrightarrow> ordered ys b i \<longrightarrow> ordered zs b (Suc i)))"
        using that assms within_length [OF st(2)] by (intro insert_elem_ok) simp_all
      then show ?thesis unfolding st(1)
        by (rule returns_mono)
          (use st that(2,3) within_trans [OF st(2)] within_mono [of b "Suc i - b" ys _ b n] agrees_within [OF st(2)]
            in \<open>auto simp: I_def\<close>)
    qed
    have "I (b + 1) (xs, s)" by (auto simp: I_def ordered_def)
    then have "returns (for_loop (insert_elem (search_linear cmp) cmp swp b) 5 (b + 1) (xs, s)) (I (b + 1 + 5))"
      using 6 by (intro for_loop_returns step [OF search_linear_searches]) auto
    moreover have "b + 1 + 5 = b + 6" "b + 6 + (n - 6) = b + n" using 6 by simp_all
    moreover have "returns (for_loop (insert_elem (search_twos cmp) cmp swp b) (n - 6) (b + 6) st) (I (b + 6 + (n - 6)))"
      if "I (b + 6) st" for st
      using 6 that by (intro for_loop_returns step [OF search_twos_searches]) auto
    ultimately have "returns (for_loop (insert_elem (search_linear cmp) cmp swp b) 5 (b + 1) (xs, s) \<bind>
        for_loop (insert_elem (search_twos cmp) cmp swp b) (n - 6) (b + 6)) (I (b + n))"
      by (intro returns_seq [where Q = "I (b + 6)"]) (simp_all only:)
    then have "returns (zend_insert_sort cmp swp b n (xs, s)) (I (b + n))"
      using 6 by (simp add: zend_insert_sort_def)
    then show ?thesis by (rule returns_mono) (auto simp: I_def)
  qed
qed

subsection \<open>Quicksort\<close>

lemma scan_up_returns:
  assumes "p < length xs" "i < j" "j \<le> length xs"
  shows "returns (scan_up cmp p i j (xs, s)) (\<lambda>(fin, i', ys, s'). ys = xs \<and> i \<le> i' \<and> i' \<le> j \<and> (fin \<longleftrightarrow> i' = j) \<and>
    (agrees xs \<longrightarrow> (\<forall>m. i \<le> m \<longrightarrow> m < i' \<longrightarrow> gt (pl (xs ! p)) (pl (xs ! m))) \<and>
       (\<not> fin \<longrightarrow> \<not> gt (pl (xs ! p)) (pl (xs ! i')))))"
  using assms
proof (induction "j - i" arbitrary: i s rule: less_induct)
  case less
  let ?r = "cmp s (xs ! p) (xs ! i)"
  have eq: "greater cmp p i (xs, s) = Some (fst ?r > 0, xs, snd ?r)" using less.prems by (intro greater_eq) auto
  show ?case
  proof (cases "fst ?r > 0 \<and> i + 1 \<noteq> j")
    case True
    then have "returns (scan_up cmp p (i + 1) j (xs, snd ?r)) (\<lambda>(fin, i', ys, s'). ys = xs \<and> i + 1 \<le> i' \<and> i' \<le> j \<and>
      (fin \<longleftrightarrow> i' = j) \<and> (agrees xs \<longrightarrow> (\<forall>m. i + 1 \<le> m \<longrightarrow> m < i' \<longrightarrow> gt (pl (xs ! p)) (pl (xs ! m))) \<and>
       (\<not> fin \<longrightarrow> \<not> gt (pl (xs ! p)) (pl (xs ! i')))))"
      using less.prems by (intro less.hyps) auto
    moreover have "agrees xs \<Longrightarrow> gt (pl (xs ! p)) (pl (xs ! i))" using True agreesD [of xs p i s] less.prems by simp
    then have "agrees xs \<Longrightarrow> \<forall>m. i + 1 \<le> m \<longrightarrow> m < i' \<longrightarrow> gt (pl (xs ! p)) (pl (xs ! m)) \<Longrightarrow> i \<le> m \<Longrightarrow> m < i' \<Longrightarrow>
        gt (pl (xs ! p)) (pl (xs ! m))" for m i' by (cases "m = i") auto
    ultimately show ?thesis
      using True eq by (subst scan_up.simps) (auto elim!: returns_mono)
  next
    case False
    moreover have "agrees xs \<Longrightarrow> (fst ?r > 0) = gt (pl (xs ! p)) (pl (xs ! i))"
      using less.prems by (intro agreesD) auto
    ultimately show ?thesis
      using eq less.prems by (subst scan_up.simps) (auto simp: less_Suc_eq le_less)
  qed
qed

lemma scan_down_returns:
  assumes "p < length xs" "i < j" "j < length xs"
  shows "returns (scan_down cmp p i j (xs, s)) (\<lambda>(fin, j', ys, s'). ys = xs \<and> i \<le> j' \<and> j' \<le> j \<and> (fin \<longleftrightarrow> j' = i) \<and>
    (agrees xs \<longrightarrow> (\<forall>m. j' < m \<longrightarrow> m \<le> j \<longrightarrow> gt (pl (xs ! m)) (pl (xs ! p))) \<and>
       (\<not> fin \<longrightarrow> \<not> gt (pl (xs ! j')) (pl (xs ! p)))))"
  using assms
proof (induction j arbitrary: s)
  case (Suc j)
  let ?r = "cmp s (xs ! Suc j) (xs ! p)"
  have eq: "greater cmp (Suc j) p (xs, s) = Some (fst ?r > 0, xs, snd ?r)" using Suc.prems by (intro greater_eq) auto
  have ag: "agrees xs \<Longrightarrow> (fst ?r > 0) = gt (pl (xs ! Suc j)) (pl (xs ! p))"
    using Suc.prems by (intro agreesD)
  show ?case
  proof (cases "fst ?r > 0 \<and> j \<noteq> i")
    case True
    then have "returns (scan_down cmp p i j (xs, snd ?r)) (\<lambda>(fin, j', ys, s'). ys = xs \<and> i \<le> j' \<and> j' \<le> j \<and> (fin \<longleftrightarrow> j' = i) \<and>
      (agrees xs \<longrightarrow> (\<forall>m. j' < m \<longrightarrow> m \<le> j \<longrightarrow> gt (pl (xs ! m)) (pl (xs ! p))) \<and>
       (\<not> fin \<longrightarrow> \<not> gt (pl (xs ! j')) (pl (xs ! p)))))"
      using Suc.prems by (intro Suc.IH) auto
    then show ?thesis
      using True eq ag by (subst scan_down.simps) (auto simp: le_Suc_eq elim!: returns_mono)
  next
    case False
    then show ?thesis
      using eq ag Suc.prems by (subst scan_down.simps) (auto simp: le_Suc_eq less_Suc_eq)
  qed
qed simp

text \<open>The range around the pivot value \<open>pv\<close>.\<close>

definition parted :: "'a list \<Rightarrow> 'p \<Rightarrow> nat \<Rightarrow> nat \<Rightarrow> nat \<Rightarrow> nat \<Rightarrow> bool" where
  "parted xs pv b i j stop \<longleftrightarrow> (\<forall>m. b \<le> m \<longrightarrow> m < i \<longrightarrow> \<not> gt (pl (xs ! m)) pv) \<and>
     (\<forall>m. j \<le> m \<longrightarrow> m < stop \<longrightarrow> \<not> gt pv (pl (xs ! m)))"

lemma partedI:
  assumes "\<And>m. b \<le> m \<Longrightarrow> m < i \<Longrightarrow> \<not> gt (pl (xs ! m)) pv" "\<And>m. j \<le> m \<Longrightarrow> m < stop \<Longrightarrow> \<not> gt pv (pl (xs ! m))"
  shows "parted xs pv b i j stop"
  using assms by (simp add: parted_def)

lemma partedD:
  assumes "parted xs pv b i j stop"
  shows "b \<le> m \<Longrightarrow> m < i \<Longrightarrow> \<not> gt (pl (xs ! m)) pv" "j \<le> m \<Longrightarrow> m < stop \<Longrightarrow> \<not> gt pv (pl (xs ! m))"
  using assms by (simp_all add: parted_def)

text \<open>Elements that are known to be low or high extend the parts.\<close>

lemma parted_extend:
  assumes "parted xs pv b i j stop" "\<And>m. i \<le> m \<Longrightarrow> m < i' \<Longrightarrow> \<not> gt (pl (xs ! m)) pv"
    "\<And>m. j' \<le> m \<Longrightarrow> m < j \<Longrightarrow> \<not> gt pv (pl (xs ! m))"
  shows "parted xs pv b i' j' stop"
proof (rule partedI)
  fix m assume "b \<le> m" "m < i'"
  then show "\<not> gt (pl (xs ! m)) pv" using partedD(1) [OF assms(1)] assms(2) by (cases "m < i") auto
next
  fix m assume "j' \<le> m" "m < stop"
  then show "\<not> gt pv (pl (xs ! m))" using partedD(2) [OF assms(1)] assms(3) by (cases "m < j") auto
qed

lemma partition_loop_returns:
  assumes "p < i" "i < j" "j < stop" "stop \<le> length xs"
  shows "returns (partition_loop cmp swp p i j (xs, s)) (\<lambda>(i', ys, s'). within (p + 1) (stop - (p + 1)) xs ys \<and> i \<le> i' \<and> i' \<le> j \<and>
    (agrees xs \<longrightarrow> parted xs (pl (xs ! p)) (p + 1) i j stop \<longrightarrow> parted ys (pl (xs ! p)) (p + 1) i' i' stop))"
  using assms
proof (induction "j - i" arbitrary: i j xs s rule: less_induct)
  case less
  let ?pv = "pl (xs ! p)"
  have o: "agrees xs \<Longrightarrow> gt x y \<Longrightarrow> \<not> gt y x" for x y using weak_orderD(1) [of gt] by (simp add: agrees_on_def)
  obtain fin i1 s1 where up: "scan_up cmp p i j (xs, s) = Some (fin, i1, xs, s1)" "i \<le> i1" "i1 \<le> j" "fin \<longleftrightarrow> i1 = j"
    "agrees xs \<Longrightarrow> (\<forall>m. i \<le> m \<longrightarrow> m < i1 \<longrightarrow> gt ?pv (pl (xs ! m))) \<and> (\<not> fin \<longrightarrow> \<not> gt ?pv (pl (xs ! i1)))"
    using scan_up_returns [of p xs i j s] less.prems by (auto simp: returns_def)
  have low: "parted xs ?pv (p + 1) i1 j stop" if "agrees xs" "parted xs ?pv (p + 1) i j stop"
    by (rule parted_extend [OF that(2)]) (use up(5) [OF that(1)] in \<open>auto dest: o [OF that(1)]\<close>)
  show ?case
  proof (cases "fin \<or> j - 1 = i1")
    case True
    have "parted xs ?pv (p + 1) i1 i1 stop" if "agrees xs" "parted xs ?pv (p + 1) i j stop"
    proof (cases fin)
      case True
      then show ?thesis using low [OF that] up(4) by simp
    next
      case False
      then have "j = i1 + 1" using True up(3,4) less.prems by simp
      then show ?thesis by (intro parted_extend [OF low [OF that]]) (use up(5) that(1) False in \<open>auto simp: less_Suc_eq\<close>)
    qed
    moreover have "partition_loop cmp swp p i j (xs, s) = Some (i1, xs, s1)"
      using True up(1) by (subst partition_loop.simps) auto
    ultimately show ?thesis using up(2,3) by simp
  next
    case False
    have i1: "i1 < j - 1" 
  proof -
    have "i1 \<noteq> j" "i1 \<noteq> j - 1" using False up(4) by auto
    then show ?thesis using up(3) by linarith
  qed
    have bounds: "p < length xs" "j - 1 < length xs" using less.prems by simp_all
    obtain fin' j1 s2 where down: "scan_down cmp p i1 (j - 1) (xs, s1) = Some (fin', j1, xs, s2)" "i1 \<le> j1" "j1 \<le> j - 1"
      "fin' \<longleftrightarrow> j1 = i1" "agrees xs \<Longrightarrow> (\<forall>m. j1 < m \<longrightarrow> m \<le> j - 1 \<longrightarrow> gt (pl (xs ! m)) ?pv) \<and> (\<not> fin' \<longrightarrow> \<not> gt (pl (xs ! j1)) ?pv)"
      using scan_down_returns [OF bounds(1) i1 bounds(2), of s1] by (auto simp: returns_def)
    have high: "parted xs ?pv (p + 1) i1 (j1 + 1) stop" if "agrees xs" "parted xs ?pv (p + 1) i j stop"
      by (rule parted_extend [OF low [OF that]]) (use down(5) [OF that(1)] in \<open>auto dest: o [OF that(1)]\<close>)
    show ?thesis
    proof (cases fin')
      case True
      have "parted xs ?pv (p + 1) i1 i1 stop" if "agrees xs" "parted xs ?pv (p + 1) i j stop"
        by (rule parted_extend [OF high [OF that]]) (use down(4) True up(5) that(1) False in \<open>auto simp: less_Suc_eq\<close>)
      moreover have "partition_loop cmp swp p i j (xs, s) = Some (i1, xs, s2)"
        using False True up(1) down(1) by (subst partition_loop.simps) simp
      ultimately show ?thesis using up(2,3) by simp
    next
      case nfin: False
      have r: "i1 < length xs" "j1 < length xs" "i1 < j1" "p < i1" "j1 < stop" using down(2-4) nfin i1 up(2) less.prems by auto
      let ?xs = "swapped i1 j1 xs"
      have pls: "pl (?xs ! m) = (if m = i1 then pl (xs ! j1) else if m = j1 then pl (xs ! i1) else pl (xs ! m))"
        if "m < length xs" for m using pl_swapped [OF r(1,2) that] .
      have pv: "pl (?xs ! p) = ?pv" using pls [of p] r by simp
      have w: "within (p + 1) (stop - (p + 1)) xs ?xs" by (rule within_swapped) (use r in auto)
      have part: "parted ?xs ?pv (p + 1) (i1 + 1) j1 stop" if "agrees xs" "parted xs ?pv (p + 1) i j stop"
      proof (rule partedI)
        have le: "\<not> gt ?pv (pl (xs ! i1))" "\<not> gt (pl (xs ! j1)) ?pv" using up(5) down(5) that(1) False nfin by auto
        fix m
        show "\<not> gt (pl (?xs ! m)) ?pv" if "p + 1 \<le> m" "m < i1 + 1"
          using pls [of m] r that le partedD(1) [OF high [OF \<open>agrees xs\<close> \<open>parted xs ?pv (p + 1) i j stop\<close>], of m]
          by (cases "m = i1") auto
        show "\<not> gt ?pv (pl (?xs ! m))" if "j1 \<le> m" "m < stop"
          using pls [of m] r that le partedD(2) [OF high [OF \<open>agrees xs\<close> \<open>parted xs ?pv (p + 1) i j stop\<close>], of m]
            less.prems(4)
          by (cases "m = j1") auto
      qed
      show ?thesis
      proof (cases "i1 + 1 = j1")
        case True
        then have "partition_loop cmp swp p i j (xs, s) = Some (i1 + 1, ?xs, s2)"
          using False nfin up(1) down(1) r by (subst partition_loop.simps) (simp add: swap_at_eq)
        then show ?thesis using w part True up(2) down(3) by simp
      next
        case neq: False
        have "returns (partition_loop cmp swp p (i1 + 1) j1 (?xs, s2)) (\<lambda>(i', ys, s').
          within (p + 1) (stop - (p + 1)) ?xs ys \<and> i1 + 1 \<le> i' \<and> i' \<le> j1 \<and>
          (agrees ?xs \<longrightarrow> parted ?xs (pl (?xs ! p)) (p + 1) (i1 + 1) j1 stop \<longrightarrow> parted ys (pl (?xs ! p)) (p + 1) i' i' stop))"
          using neq r less.prems up(2) down(3) i1 by (intro less.hyps) auto
        then obtain i2 ys s3 where rec: "partition_loop cmp swp p (i1 + 1) j1 (?xs, s2) = Some (i2, ys, s3)"
          "within (p + 1) (stop - (p + 1)) ?xs ys" "i1 + 1 \<le> i2" "i2 \<le> j1"
          "agrees xs \<longrightarrow> parted ?xs ?pv (p + 1) (i1 + 1) j1 stop \<longrightarrow> parted ys ?pv (p + 1) i2 i2 stop"
          unfolding pv agrees_within [OF w] by (auto simp: returns_def)
        have "partition_loop cmp swp p i j (xs, s) = Some (i2, ys, s3)"
          using False nfin up(1) down(1) neq r rec(1) by (subst partition_loop.simps) (simp add: swap_at_eq)
        then show ?thesis using rec(3-5) part within_trans [OF w rec(2)] up(2) down(3) by simp
      qed
    qed
  qed
qed


lemma zend_partition_returns:
  assumes "16 < n" "b + n \<le> length xs"
  shows "returns (zend_partition cmp swp b n (xs, s)) (\<lambda>(i, ys, s'). within b n xs ys \<and> b + 2 \<le> i \<and> i < b + n \<and>
    (agrees xs \<longrightarrow> parted ys (pl (ys ! (i - 1))) b (i - 1) i (b + n)))"
proof -
  let ?p = "b + n div 2" and ?d = "n div 2 div 2"
  have "returns (if n div 1024 \<noteq> 0 then zend_sort_5 cmp swp b (b + ?d) ?p (?p + ?d) (b + n - 1) (xs, s)
      else zend_sort_3 cmp swp b ?p (b + n - 1) (xs, s))
    (\<lambda>(ys, s'). within b n xs ys \<and> (agrees xs \<longrightarrow> inorder ys [b, ?p, b + n - 1]))"
  proof (cases "n div 1024 \<noteq> 0")
    case True
    then have "1024 \<le> n" by (metis div_less linorder_not_less)
    then have "returns (zend_sort_5 cmp swp b (b + ?d) ?p (?p + ?d) (b + n - 1) (xs, s))
        (\<lambda>(ys, s'). within b n xs ys \<and> (agrees xs \<longrightarrow> inorder ys [b, b + ?d, ?p, ?p + ?d, b + n - 1]))"
      using assms by (intro zend_sort_5_ok) auto
    then have "returns (zend_sort_5 cmp swp b (b + ?d) ?p (?p + ?d) (b + n - 1) (xs, s))
        (\<lambda>(ys, s'). within b n xs ys \<and> (agrees xs \<longrightarrow> inorder ys [b, ?p, b + n - 1]))"
      by (rule returns_mono) (auto simp: inorder_def)
    then show ?thesis using True by simp
  next
    case False
    have "returns (zend_sort_3 cmp swp b ?p (b + n - 1) (xs, s))
        (\<lambda>(ys, s'). within b n xs ys \<and> (agrees xs \<longrightarrow> inorder ys [b, ?p, b + n - 1]))"
      using assms by (intro zend_sort_3_ok) auto
    then show ?thesis using False by simp
  qed
  then obtain ys s1 where 1: "(if n div 1024 \<noteq> 0 then zend_sort_5 cmp swp b (b + ?d) ?p (?p + ?d) (b + n - 1) (xs, s)
      else zend_sort_3 cmp swp b ?p (b + n - 1) (xs, s)) = Some (ys, s1)" "within b n xs ys"
    "agrees xs \<longrightarrow> inorder ys [b, ?p, b + n - 1]"
    by (auto simp: returns_def)
  have len: "length ys = length xs" using 1(2) by (rule within_length)
  let ?ys = "swapped (b + 1) ?p ys"
  have r: "b + 1 < length ys" "?p < length ys" "b + n - 1 < length ys" "b < length ys" "b + 1 < ?p" "?p < b + n - 1"
    using assms len by simp_all
  have 2: "within b n ys ?ys" by (rule within_swapped) (use r assms in auto)
  let ?pv = "pl (?ys ! (b + 1))"
  have pv: "?pv = pl (ys ! ?p)" "pl (?ys ! b) = pl (ys ! b)" "pl (?ys ! (b + n - 1)) = pl (ys ! (b + n - 1))"
    using pl_swapped [OF r(1,2)] r by auto
  have start: "parted ?ys ?pv (b + 2) (b + 2) (b + n - 1) (b + n)" "\<not> gt (pl (?ys ! b)) ?pv" if "agrees xs"
  proof -
    have io: "inorder ys [b, ?p, b + n - 1]" using 1(3) that by blast
    then show "\<not> gt (pl (?ys ! b)) ?pv" unfolding pv by (simp add: inorder_def)
    show "parted ?ys ?pv (b + 2) (b + 2) (b + n - 1) (b + n)"
    proof (rule partedI)
      fix m assume "b + n - 1 \<le> m" "m < b + n"
      then have m: "m = b + n - 1" by simp
      show "\<not> gt ?pv (pl (?ys ! m))" unfolding m pv using io by (simp add: inorder_def)
    qed simp
  qed
  have "returns (partition_loop cmp swp (b + 1) (b + 2) (b + n - 1) (?ys, s1)) (\<lambda>(i, zs, s').
      within (b + 1 + 1) (b + n - (b + 1 + 1)) ?ys zs \<and> b + 2 \<le> i \<and> i \<le> b + n - 1 \<and>
      (agrees ?ys \<longrightarrow> parted ?ys ?pv (b + 1 + 1) (b + 2) (b + n - 1) (b + n) \<longrightarrow> parted zs ?pv (b + 1 + 1) i i (b + n)))"
    using assms len by (intro partition_loop_returns) auto
  then obtain i zs s2 where 3: "partition_loop cmp swp (b + 1) (b + 2) (b + n - 1) (?ys, s1) = Some (i, zs, s2)"
    "within (b + 1 + 1) (b + n - (b + 1 + 1)) ?ys zs" "b + 2 \<le> i" "i \<le> b + n - 1"
    "agrees xs \<longrightarrow> parted ?ys ?pv (b + 1 + 1) (b + 2) (b + n - 1) (b + n) \<longrightarrow> parted zs ?pv (b + 1 + 1) i i (b + n)"
    unfolding agrees_within [OF within_trans [OF 1(2) 2]] by (auto simp: returns_def)
  have len2: "length zs = length ys" using within_length [OF 3(2)] by simp
  let ?zs = "swapped (b + 1) (i - 1) zs"
  have r2: "b + 1 < length zs" "i - 1 < length zs" "b + 1 \<le> i - 1" "i < b + n" using 3(3,4) r len2 assms by auto
  have same: "pl (zs ! b) = pl (?ys ! b)" "pl (zs ! (b + 1)) = ?pv" using within_outside [OF 3(2)] r by auto
  have pls: "pl (?zs ! m) = (if m = b + 1 then pl (zs ! (i - 1)) else if m = i - 1 then ?pv else pl (zs ! m))"
    if "m < length zs" for m using pl_swapped [OF r2(1,2) that] same(2) by simp
  have pvi: "pl (?zs ! (i - 1)) = ?pv" using pls [OF r2(2)] same(2) by auto
  have "parted ?zs (pl (?zs ! (i - 1))) b (i - 1) i (b + n)" if ag: "agrees xs"
    unfolding pvi
  proof (rule partedI)
    have p: "parted zs ?pv (b + 2) i i (b + n)" using 3(5) start(1) ag by simp
    fix m
    show "\<not> gt (pl (?zs ! m)) ?pv" if m: "b \<le> m" "m < i - 1"
    proof -
      have ml: "m < length zs" using m r2 by simp
      consider "m = b" | "m = b + 1" | "b + 2 \<le> m" using m by linarith
      then show ?thesis
      proof cases
        case 1
        moreover have "b \<noteq> i - 1" using 3(3) by simp
        ultimately have "pl (?zs ! m) = pl (?ys ! b)" using pls [OF ml] same(1) by simp
        then show ?thesis using start(2) [OF ag] by simp
      next
        case 2
        then have "pl (?zs ! m) = pl (zs ! (i - 1))" using pls [OF ml] by simp
        then show ?thesis using partedD(1) [OF p, of "i - 1"] 2 m(2) 3(3) by simp
      next
        case 3
        then have "pl (?zs ! m) = pl (zs ! m)" using pls [OF ml] m(2) by simp
        then show ?thesis using partedD(1) [OF p 3] m(2) by simp
      qed
    qed
    show "\<not> gt ?pv (pl (?zs ! m))" if m: "i \<le> m" "m < b + n"
    proof -
      have "m < length zs" "m \<noteq> b + 1" "m \<noteq> i - 1" using m 3(3) assms len len2 by simp_all
      then have "pl (?zs ! m) = pl (zs ! m)" using pls [of m] by simp
      then show ?thesis using partedD(2) [OF p m] by simp
    qed
  qed
  moreover have "within b n xs ?zs"
    by (rule within_trans [OF within_trans [OF within_trans [OF 1(2) 2] within_mono [OF 3(2)]] within_swapped])
      (use r2 3(3,4) assms in auto)
  ultimately show ?thesis
    using 1(1) 3(1,3) r r2 unfolding zend_partition_def Let_def by (simp add: swap_at_eq)
qed

lemma ordered_join:
  assumes "agrees xs" "ordered ys b k" "ordered ys (Suc k) e" "parted ys (pl (ys ! k)) b k (Suc k) e"
  shows "ordered ys b e"
  unfolding ordered_def
proof (intro allI impI)
  fix i j assume ij: "b \<le> i" "i < j" "j < e"
  have o: "weak_order gt" using assms(1) by (simp add: agrees_on_def)
  have low: "\<not> gt (pl (ys ! m)) (pl (ys ! k))" if "b \<le> m" "m \<le> k" for m
    using partedD(1) [OF assms(4), of m] that weak_orderD(3) [OF o] by (cases "m = k") auto
  have high: "\<not> gt (pl (ys ! k)) (pl (ys ! m))" if "k \<le> m" "m < e" for m
    using partedD(2) [OF assms(4), of m] that weak_orderD(3) [OF o] by (cases "m = k") auto
  consider "j < k" | "k < i" | "i \<le> k" "k \<le> j" by linarith
  then show "\<not> gt (pl (ys ! i)) (pl (ys ! j))"
  proof cases
    case 3
    then show ?thesis using weak_orderD(2) [OF o low high] ij by blast
  qed (use assms(2,3) ij in \<open>simp_all add: ordered_def\<close>)
qed

text \<open>Sorting one part leaves the other as it was and keeps both on their side of the pivot.\<close>

lemma parted_within:
  assumes "parted ys pv b k k' e" "within l n ys zs" "l + n \<le> length ys" "e \<le> length ys"
    "b \<le> l \<and> l + n \<le> k \<and> k \<le> k' \<or> k' \<le> l \<and> l + n \<le> e \<and> k \<le> k'" "k \<le> e"
  shows "parted zs pv b k k' e"
proof (rule partedI)
  fix m
  show "\<not> gt (pl (zs ! m)) pv" if m: "b \<le> m" "m < k"
  proof (cases "l \<le> m \<and> m < l + n")
    case True
    then obtain m' where "l \<le> m'" "m' < l + n" "pl (zs ! m) = pl (ys ! m')" using within_range [OF assms(2,3)] by blast
    then show ?thesis using partedD(1) [OF assms(1), of m'] assms(5) True m by auto
  next
    case False
    then show ?thesis using within_outside [OF assms(2), of m] partedD(1) [OF assms(1) m] m assms(4,6) by auto
  qed
  show "\<not> gt pv (pl (zs ! m))" if m: "k' \<le> m" "m < e"
  proof (cases "l \<le> m \<and> m < l + n")
    case True
    then obtain m' where "l \<le> m'" "m' < l + n" "pl (zs ! m) = pl (ys ! m')" using within_range [OF assms(2,3)] by blast
    then show ?thesis using partedD(2) [OF assms(1), of m'] assms(5) True m by auto
  next
    case False
    then show ?thesis using within_outside [OF assms(2), of m] partedD(2) [OF assms(1) m] m assms(4) by auto
  qed
qed

lemma ordered_within:
  assumes "ordered ys a c" "within l n ys zs" "c \<le> l \<or> l + n \<le> a" "c \<le> length ys"
  shows "ordered zs a c"
  using assms within_outside [OF assms(2)] by (auto simp: ordered_def)

theorem zend_sort_returns:
  assumes "b + n \<le> length xs"
  shows "returns (zend_sort cmp swp b n (xs, s)) (\<lambda>(ys, s'). within b n xs ys \<and> (agrees xs \<longrightarrow> ordered ys b (b + n)))"
  using assms
proof (induction n arbitrary: b xs s rule: less_induct)
  case (less n)
  show ?case
  proof (cases "n \<le> 16")
    case True
    then show ?thesis using zend_insert_sort_ok [OF less.prems] by (subst zend_sort.simps) simp
  next
    case False
    then obtain i ys s1 where 1: "zend_partition cmp swp b n (xs, s) = Some (i, ys, s1)" "within b n xs ys"
      "b + 2 \<le> i" "i < b + n" "agrees xs \<longrightarrow> parted ys (pl (ys ! (i - 1))) b (i - 1) i (b + n)"
      using zend_partition_returns [of n b xs s] less.prems by (auto simp: returns_def)
    have len: "length ys = length xs" using 1(2) by (rule within_length)
    let ?l = "i - b - 1" and ?h = "b + n - i"
    have part: "returns (zend_sort cmp swp c m (us, s2)) (\<lambda>(vs, s'). within c m us vs \<and> (agrees us \<longrightarrow> ordered vs c (c + m)))"
      if "(c, m) \<in> {(b, ?l), (i, ?h)}" "length us = length xs" for c m us s2
      using that 1(3,4) less.prems by (intro less.IH) auto
    have both: "within b n xs zs \<and> (agrees xs \<longrightarrow> ordered zs b (b + n))"
      if c: "(c, m, c', m') \<in> {(b, ?l, i, ?h), (i, ?h, b, ?l)}" and us: "within c m ys us" "agrees xs \<longrightarrow> ordered us c (c + m)"
        "within c' m' us zs" "agrees xs \<longrightarrow> ordered zs c' (c' + m')" for c m c' m' us zs
    proof -
      have lens: "length us = length xs" "length zs = length xs"
        using len within_length [OF us(1)] within_length [OF us(3)] by simp_all
      have "within b n xs zs"
        by (rule within_trans [OF within_trans [OF 1(2) within_mono [OF us(1)]] within_mono [OF us(3)]])
          (use c 1(3,4) in auto)
      moreover have "ordered zs b (b + n)" if ag: "agrees xs"
      proof (rule ordered_join [OF ag, of _ _ "i - 1"])
        have "parted us (pl (ys ! (i - 1))) b (i - 1) i (b + n)"
          using 1(3,4,5) ag c len less.prems by (intro parted_within [OF _ us(1)]) auto
        then have p: "parted zs (pl (ys ! (i - 1))) b (i - 1) i (b + n)"
          using 1(3,4) c lens less.prems by (intro parted_within [OF _ us(3)]) auto
        have "pl (zs ! (i - 1)) = pl (us ! (i - 1))" using within_outside [OF us(3), of "i - 1"] c 1(3,4) lens less.prems by auto
        also have "\<dots> = pl (ys ! (i - 1))" using within_outside [OF us(1), of "i - 1"] c 1(3,4) len less.prems by auto
        finally show "parted zs (pl (zs ! (i - 1))) b (i - 1) (Suc (i - 1)) (b + n)" using p 1(3) by simp
        have "ordered zs c (c + m)"
          using us(2) ag c 1(3,4) lens less.prems by (intro ordered_within [OF _ us(3)]) auto
        then show "ordered zs b (i - 1)" "ordered zs (Suc (i - 1)) (b + n)"
          using us(4) ag c 1(3,4) by auto
      qed
      ultimately show ?thesis by blast
    qed
    have seq: "returns (do { st \<leftarrow> zend_sort cmp swp c m (ys, s1); zend_sort cmp swp c' m' st })
        (\<lambda>(zs, s'). within b n xs zs \<and> (agrees xs \<longrightarrow> ordered zs b (b + n)))"
      if c: "(c, m, c', m') \<in> {(b, ?l, i, ?h), (i, ?h, b, ?l)}" for c m c' m'
    proof -
      obtain us s2 where u: "zend_sort cmp swp c m (ys, s1) = Some (us, s2)" "within c m ys us" "agrees xs \<longrightarrow> ordered us c (c + m)"
        using part [of c m ys s1] c len unfolding agrees_within [OF 1(2)] by (auto simp: returns_def)
      have "length us = length xs" using within_length [OF u(2)] len by simp
      then obtain zs s3 where "zend_sort cmp swp c' m' (us, s2) = Some (zs, s3)" "within c' m' us zs"
        "agrees xs \<longrightarrow> ordered zs c' (c' + m')"
        using part [of c' m' us s2] c unfolding agrees_within [OF u(2)] agrees_within [OF 1(2)] by (auto simp: returns_def)
      then show ?thesis using u both [OF c u(2,3)] by simp
    qed
    show ?thesis
      using False 1(1) seq [of b ?l i ?h] seq [of i ?h b ?l] by (subst zend_sort.simps) simp
  qed
qed

text \<open>The same in terms of lists.\<close>

theorem zend_sort_spec:
  assumes "b + n \<le> length xs"
  shows "\<exists>ys s'. zend_sort cmp swp b n (xs, s) = Some (ys, s') \<and> map fx ys = map fx xs \<and>
    mset (map pl ys) = mset (map pl xs) \<and> map pl (take b ys) = map pl (take b xs) \<and>
    map pl (drop (b + n) ys) = map pl (drop (b + n) xs) \<and>
    (weak_order gt \<longrightarrow> (\<forall>s x y. fx x \<in> fx ` set xs \<longrightarrow> fx y \<in> fx ` set xs \<longrightarrow> (fst (cmp s x y) > 0) = gt (pl x) (pl y)) \<longrightarrow>
      sorted_wrt (\<lambda>x y. \<not> gt x y) (map pl (take n (drop b ys))))"
proof -
  obtain ys s' where r: "zend_sort cmp swp b n (xs, s) = Some (ys, s')" "within b n xs ys" "agrees xs \<longrightarrow> ordered ys b (b + n)"
    using zend_sort_returns [OF assms] by (fastforce simp: returns_def)
  have len: "length ys = length xs" using r(2) by (rule within_length)
  have "sorted_wrt (\<lambda>x y. \<not> gt x y) (map pl (take n (drop b ys)))" if "agrees xs"
    using r(3) that assms len by (simp add: sorted_wrt_iff_nth_less ordered_def)
  moreover have "map pl (take b ys) = map pl (take b xs)" "map pl (drop (b + n) ys) = map pl (drop (b + n) xs)"
    using r(2) assms by (auto simp: within_def list_eq_iff_nth_eq)
  ultimately show ?thesis using r by (auto simp: within_def agrees_on_def)
qed

end

subsection \<open>Whole elements\<close>

text \<open>The swap of whole elements.\<close>

definition swap_elements :: "'a swap_func" where
  "swap_elements x y = (y, x)"

interpretation plain: swapping swap_elements "\<lambda>x. x" "\<lambda>_. ()" cmp gt for cmp gt
  by unfold_locales (simp_all add: swap_elements_def)

text \<open>C16: \<open>zend_sort\<close> always returns, whatever the comparison answers, touches only the given range and
  permutes it; when the comparison is consistent the range is sorted.\<close>

theorem zend_sort_correct:
  assumes "b + n \<le> length xs"
  shows "\<exists>ys s'. zend_sort cmp swap_elements b n (xs, s) = Some (ys, s') \<and> take b ys = take b xs \<and>
    drop (b + n) ys = drop (b + n) xs \<and> mset ys = mset xs \<and>
    (weak_order gt \<longrightarrow> (\<forall>s x y. (fst (cmp s x y) > 0) = gt x y) \<longrightarrow> sorted_wrt (\<lambda>x y. \<not> gt x y) (take n (drop b ys)))"
proof -
  obtain ys s' where r: "zend_sort cmp swap_elements b n (xs, s) = Some (ys, s')" "mset (map (\<lambda>x. x) ys) = mset (map (\<lambda>x. x) xs)"
    "map (\<lambda>x. x) (take b ys) = map (\<lambda>x. x) (take b xs)" "map (\<lambda>x. x) (drop (b + n) ys) = map (\<lambda>x. x) (drop (b + n) xs)"
    "weak_order gt \<Longrightarrow> \<forall>s x y. (fst (cmp s x y) > 0) = gt x y \<Longrightarrow>
      sorted_wrt (\<lambda>x y. \<not> gt x y) (map (\<lambda>x. x) (take n (drop b ys)))"
    using plain.zend_sort_spec [OF assms, of cmp s gt] by blast
  then show ?thesis by (simp only: list.map_ident) blast
qed

theorem zend_sort_correct_witness:
  "\<exists>ys s'. zend_sort (\<lambda>s x y. (x - y, s)) swap_elements 1 18 (9 # rev [1..18] @ [0 :: int], ()) = Some (ys, s') \<and>
    take 1 ys = [9] \<and> sorted_wrt (\<lambda>x y. \<not> x > y) (take 18 (drop 1 ys))"
proof -
  have "weak_order ((>) :: int \<Rightarrow> int \<Rightarrow> bool)" by (auto simp: weak_order_def)
  moreover have "\<forall>(s :: unit) x y. (fst (x - y, s) > 0) = (x > (y :: int))" by simp
  moreover have "1 + 18 \<le> length (9 # rev [1..18] @ [0 :: int])" by simp
  ultimately show ?thesis
    using zend_sort_correct [of 1 18 "9 # rev [1..18] @ [0 :: int]" "\<lambda>s x y. (x - y, s)" "()" "(>)"] by force
qed

end
