(* ===== verification/Zend_Hash_Bulk.thy ===== *)
theory Zend_Hash_Bulk
  imports Zend_Symtable
begin

text \<open>
  The operations of \<open>php-7.4-patched/Zend/zend_hash.c\<close> on whole tables: applying a function to the
  elements, destroying a table, copying, duplicating and merging tables, and renaming a key. Callbacks are functions that keep a state
  of their own and do not change the table they are called from; for a function that
  modifies a value in place the new value is a result.
\<close>

subsection \<open>Applying a function\<close>

abbreviation (input) ZEND_HASH_APPLY_REMOVE :: u32 where "ZEND_HASH_APPLY_REMOVE \<equiv> 1"
abbreviation (input) ZEND_HASH_APPLY_STOP :: u32 where "ZEND_HASH_APPLY_STOP \<equiv> 2"

text \<open>The callback gets its state, the value and the \<open>zend_hash_key\<close>, the hash and the string of the
  bucket; it returns the result, the value that it leaves and its state.\<close>

type_synonym ('s, 'v) apply_func =
  "'s \<Rightarrow> 'v zval \<Rightarrow> u64 \<Rightarrow> zend_string option \<Rightarrow> u32 \<times> 'v zval \<times> 's"

definition apply_at :: "('s, 'v) apply_func \<Rightarrow> 's \<Rightarrow> 'v hashtable \<Rightarrow> u32 \<Rightarrow> (bool \<times> 's \<times> 'v hashtable) option" where
  "apply_at f s ht idx =
     do { p \<leftarrow> bucket_in (arData ht) (unat idx);
          if b_val p = IS_UNDEF then Some (False, s, ht)
          else do { let (result, v, s) = f s (b_val p) (b_h p) (b_key p);
                    ht \<leftarrow> put_bucket ht (unat idx) (p\<lparr>b_val := v\<rparr>);
                    ht \<leftarrow> (if bits_set result ZEND_HASH_APPLY_REMOVE then zend_hash_del_el ht idx else Some ht);
                    Some (bits_set result ZEND_HASH_APPLY_STOP, s, ht) } }"

partial_function (option) apply_loop ::
    "('s, 'v) apply_func \<Rightarrow> 's \<Rightarrow> 'v hashtable \<Rightarrow> u32 \<Rightarrow> ('s \<times> 'v hashtable) option" where [code]:
  "apply_loop f s ht idx =
     (if idx < nNumUsed ht
      then do { (stop, s, ht) \<leftarrow> apply_at f s ht idx;
                if stop then Some (s, ht) else apply_loop f s ht (idx + 1) }
      else Some (s, ht))"

fun reverse_apply_loop ::
    "('s, 'v) apply_func \<Rightarrow> 's \<Rightarrow> 'v hashtable \<Rightarrow> nat \<Rightarrow> ('s \<times> 'v hashtable) option" where
  "reverse_apply_loop f s ht 0 = Some (s, ht)"
| "reverse_apply_loop f s ht (Suc i) =
     do { (stop, s, ht) \<leftarrow> apply_at f s ht (word_of_nat i);
          if stop then Some (s, ht) else reverse_apply_loop f s ht i }"

definition zend_hash_apply ::
    "('s \<Rightarrow> 'v zval \<Rightarrow> u32 \<times> 'v zval \<times> 's) \<Rightarrow> 's \<Rightarrow> 'v hashtable \<Rightarrow> ('s \<times> 'v hashtable) option" where
  "zend_hash_apply f s ht = apply_loop (\<lambda>s v h key. f s v) s ht 0"

definition zend_hash_apply_with_argument ::
    "('s \<Rightarrow> 'v zval \<Rightarrow> 'a \<Rightarrow> u32 \<times> 'v zval \<times> 's) \<Rightarrow> 'a \<Rightarrow> 's \<Rightarrow> 'v hashtable \<Rightarrow> ('s \<times> 'v hashtable) option" where
  "zend_hash_apply_with_argument f a s ht = apply_loop (\<lambda>s v h key. f s v a) s ht 0"

definition zend_hash_apply_with_arguments ::
    "('s \<Rightarrow> 'v zval \<Rightarrow> 'a list \<Rightarrow> u64 \<times> zend_string option \<Rightarrow> u32 \<times> 'v zval \<times> 's) \<Rightarrow> 'a list \<Rightarrow> 's \<Rightarrow>
     'v hashtable \<Rightarrow> ('s \<times> 'v hashtable) option" where
  "zend_hash_apply_with_arguments f args s ht = apply_loop (\<lambda>s v h key. f s v args (h, key)) s ht 0"

definition zend_hash_reverse_apply ::
    "('s \<Rightarrow> 'v zval \<Rightarrow> u32 \<times> 'v zval \<times> 's) \<Rightarrow> 's \<Rightarrow> 'v hashtable \<Rightarrow> ('s \<times> 'v hashtable) option" where
  "zend_hash_reverse_apply f s ht = reverse_apply_loop (\<lambda>s v h key. f s v) s ht (unat (nNumUsed ht))"

subsection \<open>Destroying\<close>

definition zend_hash_del_bucket :: "'v hashtable \<Rightarrow> u32 \<Rightarrow> 'v hashtable option" where
  "zend_hash_del_bucket ht idx = zend_hash_del_el ht idx"

text \<open>The memory of the table is given back: every later access to it is \<open>None\<close>.\<close>

definition free_data :: "'v hashtable \<Rightarrow> 'v hashtable" where
  "free_data ht = ht\<lparr>arData := [], arHash := []\<rparr>"

text \<open>\<open>zend_hash_iterators_remove\<close>: the iterators no longer belong to this table.\<close>

definition zend_hash_iterators_remove :: "'v hashtable \<Rightarrow> 'v hashtable" where
  "zend_hash_iterators_remove ht = (if nIteratorsCount ht \<noteq> 0 then ht\<lparr>ht_iters := []\<rparr> else ht)"

text \<open>The destructor is called as by \<open>zend_hash_clean\<close>.\<close>

definition zend_hash_destroy :: "'v hashtable \<Rightarrow> 'v hashtable" where
  "zend_hash_destroy ht =
     (if nNumUsed ht \<noteq> 0 then free_data (zend_hash_iterators_remove (log_event (clean_events ht) ht))
      else if f_uninitialized ht then ht else free_data ht)"

partial_function (option) destroy_loop :: "'v hashtable \<Rightarrow> u32 \<Rightarrow> 'v hashtable option" where [code]:
  "destroy_loop ht idx =
     (if idx < nNumUsed ht
      then do { p \<leftarrow> bucket_in (arData ht) (unat idx);
                ht \<leftarrow> (if b_val p = IS_UNDEF then Some ht else zend_hash_del_el ht idx);
                destroy_loop ht (idx + 1) }
      else Some ht)"

fun reverse_destroy_loop :: "'v hashtable \<Rightarrow> nat \<Rightarrow> 'v hashtable option" where
  "reverse_destroy_loop ht 0 = Some ht"
| "reverse_destroy_loop ht (Suc i) =
     do { p \<leftarrow> bucket_in (arData ht) i;
          ht \<leftarrow> (if b_val p = IS_UNDEF then Some ht else zend_hash_del_el ht (word_of_nat i));
          reverse_destroy_loop ht i }"

definition zend_hash_graceful_destroy :: "'v hashtable \<Rightarrow> 'v hashtable option" where
  "zend_hash_graceful_destroy ht =
     do { ht \<leftarrow> destroy_loop ht 0;
          Some (if f_uninitialized ht then ht else free_data ht) }"

definition zend_hash_graceful_reverse_destroy :: "'v hashtable \<Rightarrow> 'v hashtable option" where
  "zend_hash_graceful_reverse_destroy ht =
     do { ht \<leftarrow> reverse_destroy_loop ht (unat (nNumUsed ht));
          Some (if f_uninitialized ht then ht else free_data ht) }"

text \<open>\<open>zend_symtable_clean\<close> destroys the values whatever the destructor of the table is, and in a table
  with only static keys also looks at the holes.\<close>

definition zend_symtable_clean :: "'v hashtable \<Rightarrow> 'v hashtable" where
  "zend_symtable_clean ht =
     (let bs = map (\<lambda>b. b_val (the b)) (take (unat (nNumUsed ht)) (arData ht));
          vs = (if f_packed ht \<or> f_static_keys ht \<or> nNumUsed ht = nNumOfElements ht then bs
                else filter (\<lambda>v. v \<noteq> IS_UNDEF) bs);
          ht = (if nNumUsed ht \<noteq> 0 then HT_HASH_RESET (log_event (map Dtor vs) ht) else ht)
      in ht\<lparr>nNumUsed := 0, nNumOfElements := 0, nNextFreeElement := 0, nInternalPointer := 0\<rparr>)"

subsection \<open>Copying and merging\<close>

text \<open>An indirect value stands for the value in its variable slot.\<close>

definition z_indirect :: "(nat \<Rightarrow> 'v zval) \<Rightarrow> 'v zval \<Rightarrow> 'v zval" where
  "z_indirect slots v = (case v of IS_INDIRECT a \<Rightarrow> slots a | _ \<Rightarrow> v)"

text \<open>\<open>pCopyConstructor\<close> is \<open>NULL\<close> or a function that changes the new value in place.\<close>

definition copy_construct ::
    "('v zval \<Rightarrow> 'v zval) option \<Rightarrow> zval_ptr option \<Rightarrow> 'v hashtable \<Rightarrow> 'v hashtable option" where
  "copy_construct ctor r ht =
     (case (ctor, r) of
        (Some f, Some (In_Bucket idx)) \<Rightarrow>
          do { p \<leftarrow> bucket_in (arData ht) (unat idx);
               put_bucket ht (unat idx) (p\<lparr>b_val := f (b_val p)\<rparr>) }
      | (Some f, Some (In_Slot a)) \<Rightarrow> Some (ht\<lparr>ht_slots := (ht_slots ht)(a := f (ht_slots ht a))\<rparr>)
      | _ \<Rightarrow> Some ht)"

text \<open>The loops run over the used buckets of the source, which they do not change; an operation on
  the target that fails with an error ends them.\<close>

fun over_buckets :: "('v bucket \<Rightarrow> 'v hashtable \<Rightarrow> 'v hashtable option) \<Rightarrow> 'v bucket option list \<Rightarrow>
    'v hashtable \<Rightarrow> 'v hashtable option" where
  "over_buckets step [] t = Some t"
| "over_buckets step (b # bs) t =
     do { p \<leftarrow> b;
          t \<leftarrow> step p t;
          if ht_bailout t then Some t else over_buckets step bs t }"

definition used_buckets :: "'v hashtable \<Rightarrow> 'v bucket option list option" where
  "used_buckets ht =
     (if unat (nNumUsed ht) \<le> length (arData ht) then Some (take (unat (nNumUsed ht)) (arData ht)) else None)"

definition copy_step ::
    "(nat \<Rightarrow> 'v zval) \<Rightarrow> ('v zval \<Rightarrow> 'v zval) option \<Rightarrow> 'v bucket \<Rightarrow> 'v hashtable \<Rightarrow> 'v hashtable option" where
  "copy_step slots ctor p target =
     (let data = z_indirect slots (b_val p)
      in if b_val p = IS_UNDEF \<or> data = IS_UNDEF then Some target
         else do { (r, target) \<leftarrow> (case b_key p of
                       Some key \<Rightarrow> zend_hash_update target key data
                     | None \<Rightarrow> zend_hash_index_update target (b_h p) data);
                   if ht_bailout target then Some target else copy_construct ctor r target })"

definition zend_hash_copy ::
    "'v hashtable \<Rightarrow> 'v hashtable \<Rightarrow> ('v zval \<Rightarrow> 'v zval) option \<Rightarrow> 'v hashtable option" where
  "zend_hash_copy target source ctor =
     do { bs \<leftarrow> used_buckets source;
          over_buckets (copy_step (ht_slots source) ctor) bs target }"

text \<open>\<open>zend_hash_merge\<close> looks indirect values up in the slots of the source and stores through those of
  the target; without \<open>overwrite\<close> a key that is there keeps its value.\<close>

definition merge_step ::
    "bool \<Rightarrow> (nat \<Rightarrow> 'v zval) \<Rightarrow> ('v zval \<Rightarrow> 'v zval) option \<Rightarrow> 'v bucket \<Rightarrow> 'v hashtable \<Rightarrow> 'v hashtable option" where
  "merge_step overwrite slots ctor p target =
     (let s = z_indirect slots (b_val p)
      in if s = IS_UNDEF then Some target
         else do { (t, target) \<leftarrow>
                     (if overwrite
                      then (case b_key p of
                              Some key \<Rightarrow> zend_hash_add_or_update_i target key s (HASH_UPDATE OR HASH_UPDATE_INDIRECT)
                            | None \<Rightarrow> zend_hash_index_update target (b_h p) s)
                      else (case b_key p of
                              Some key \<Rightarrow> zend_hash_add_or_update_i target key s (HASH_ADD OR HASH_UPDATE_INDIRECT)
                            | None \<Rightarrow> zend_hash_index_add target (b_h p) s));
                   if ht_bailout target then Some target else copy_construct ctor t target })"

definition zend_hash_merge ::
    "'v hashtable \<Rightarrow> 'v hashtable \<Rightarrow> ('v zval \<Rightarrow> 'v zval) option \<Rightarrow> bool \<Rightarrow> 'v hashtable option" where
  "zend_hash_merge target source ctor overwrite =
     do { bs \<leftarrow> used_buckets source;
          over_buckets (merge_step overwrite (ht_slots source) ctor) bs target }"

text \<open>\<open>zend_hash_merge_ex\<close>: a checker decides, with \<open>pParam\<close>; every key that passes must be a string.\<close>

definition merge_ex_step ::
    "('v hashtable \<Rightarrow> 'v zval \<Rightarrow> u64 \<times> zend_string option \<Rightarrow> 'a \<Rightarrow> bool) \<Rightarrow> 'a \<Rightarrow> ('v zval \<Rightarrow> 'v zval) option \<Rightarrow>
     'v bucket \<Rightarrow> 'v hashtable \<Rightarrow> 'v hashtable option" where
  "merge_ex_step pMergeSource pParam ctor p target =
     (if b_val p = IS_UNDEF then Some target
      else if pMergeSource target (b_val p) (b_h p, b_key p) pParam
      then do { key \<leftarrow> b_key p;
                (t, target) \<leftarrow> zend_hash_update target key (b_val p);
                if ht_bailout target then Some target else copy_construct ctor t target }
      else Some target)"

definition zend_hash_merge_ex ::
    "'v hashtable \<Rightarrow> 'v hashtable \<Rightarrow> ('v zval \<Rightarrow> 'v zval) option \<Rightarrow>
     ('v hashtable \<Rightarrow> 'v zval \<Rightarrow> u64 \<times> zend_string option \<Rightarrow> 'a \<Rightarrow> bool) \<Rightarrow> 'a \<Rightarrow> 'v hashtable option" where
  "zend_hash_merge_ex target source ctor pMergeSource pParam =
     do { bs \<leftarrow> used_buckets source;
          over_buckets (merge_ex_step pMergeSource pParam ctor) bs target }"

subsection \<open>Duplicating\<close>

text \<open>What a copy holds of a value: \<open>sole_ref\<close> gives the value behind a reference that has no other
  owner and does not lead back to the source.\<close>

definition dup_value :: "('v \<Rightarrow> 'v option) \<Rightarrow> 'v zval \<Rightarrow> 'v zval" where
  "dup_value sole_ref data =
     (case data of ZV v \<Rightarrow> (case sole_ref v of Some w \<Rightarrow> ZV w | None \<Rightarrow> ZV v) | _ \<Rightarrow> data)"

text \<open>\<open>zend_array_dup_element\<close>: bucket \<open>p\<close> of the source goes to place \<open>j\<close> of the target, if it has a
  value. \<open>with_holes\<close> and \<open>packed\<close> choose the tests.\<close>

definition dup_skips :: "bool \<Rightarrow> bool \<Rightarrow> 'v zval \<Rightarrow> 'v zval \<Rightarrow> bool" where
  "dup_skips packed with_holes v data \<longleftrightarrow>
     (if with_holes then data = IS_UNDEF
      else \<not> packed \<and> (case v of IS_INDIRECT a \<Rightarrow> data = IS_UNDEF | _ \<Rightarrow> False))"

definition zend_array_dup_element ::
    "('v \<Rightarrow> 'v option) \<Rightarrow> (nat \<Rightarrow> 'v zval) \<Rightarrow> 'v hashtable \<Rightarrow> nat \<Rightarrow> 'v bucket \<Rightarrow> bool \<Rightarrow> bool \<Rightarrow>
     (bool \<times> 'v hashtable) option" where
  "zend_array_dup_element sole_ref slots target j p packed with_holes =
     (let data = (if packed then b_val p else z_indirect slots (b_val p))
      in if dup_skips packed with_holes (b_val p) data then Some (False, target)
         else do { target \<leftarrow>
                     (if packed
                      then put_bucket target j ((bucket_or_raw target j)
                             \<lparr>b_val := dup_value sole_ref data, b_h := b_h p, b_key := None\<rparr>)
                      else link_bucket target j \<lparr>b_val = dup_value sole_ref data, b_next = 0,
                             b_h = b_h p, b_key = b_key p\<rparr>);
                   Some (True, target) })"

fun dup_packed_elements ::
    "('v \<Rightarrow> 'v option) \<Rightarrow> 'v hashtable \<Rightarrow> bool \<Rightarrow> nat \<Rightarrow> nat \<Rightarrow> 'v hashtable \<Rightarrow> 'v hashtable option" where
  "dup_packed_elements sole_ref source with_holes 0 i target = Some target"
| "dup_packed_elements sole_ref source with_holes (Suc n) i target =
     do { p \<leftarrow> bucket_in (arData source) i;
          (ok, target) \<leftarrow> zend_array_dup_element sole_ref (ht_slots source) target i p True with_holes;
          target \<leftarrow> (if \<not> ok \<and> with_holes
                    then put_bucket target i ((bucket_or_raw target i)\<lparr>b_val := IS_UNDEF\<rparr>) else Some target);
          dup_packed_elements sole_ref source with_holes n (Suc i) target }"

text \<open>The inner loop behind the first bucket without a value: the copies close up.\<close>

fun dup_compact ::
    "('v \<Rightarrow> 'v option) \<Rightarrow> 'v hashtable \<Rightarrow> bool \<Rightarrow> nat \<Rightarrow> nat \<Rightarrow> nat \<Rightarrow> 'v hashtable \<Rightarrow> (nat \<times> 'v hashtable) option" where
  "dup_compact sole_ref source with_holes 0 i j target = Some (j, target)"
| "dup_compact sole_ref source with_holes (Suc n) i j target =
     do { p \<leftarrow> bucket_in (arData source) i;
          (ok, target) \<leftarrow> zend_array_dup_element sole_ref (ht_slots source) target j p False with_holes;
          if ok
          then dup_compact sole_ref source with_holes n (Suc i) (Suc j)
                 (if nInternalPointer source = word_of_nat i
                  then target\<lparr>nInternalPointer := word_of_nat j\<rparr> else target)
          else dup_compact sole_ref source with_holes n (Suc i) j target }"

fun dup_elements ::
    "('v \<Rightarrow> 'v option) \<Rightarrow> 'v hashtable \<Rightarrow> bool \<Rightarrow> nat \<Rightarrow> nat \<Rightarrow> 'v hashtable \<Rightarrow> (nat \<times> 'v hashtable) option" where
  "dup_elements sole_ref source with_holes 0 i target = Some (i, target)"
| "dup_elements sole_ref source with_holes (Suc n) i target =
     do { p \<leftarrow> bucket_in (arData source) i;
          (ok, target) \<leftarrow> zend_array_dup_element sole_ref (ht_slots source) target i p False with_holes;
          if ok then dup_elements sole_ref source with_holes n (Suc i) target
          else dup_compact sole_ref source with_holes n (Suc i) i target }"

text \<open>The new table; the assignment to the word of the flags clears the count of iterators.
  \<open>immutable\<close> says whether the source is a constant array, which is copied as it is.\<close>

definition dup_target :: "'v hashtable \<Rightarrow> 'v hashtable" where
  "dup_target source = source\<lparr>ht_persistent := False, nIteratorsCount := 0, pDestructor := True, ht_iters := [],
     ht_log := [], ht_bailout := False, arHash := [HT_INVALID_IDX, HT_INVALID_IDX], arData := replicate (unat (nTableSize source)) None\<rparr>"

definition zend_array_dup :: "('v \<Rightarrow> 'v option) \<Rightarrow> bool \<Rightarrow> 'v hashtable \<Rightarrow> 'v hashtable option" where
  "zend_array_dup sole_ref immutable source =
     (let target = dup_target source; used = unat (nNumUsed source);
          pos = (if nInternalPointer source < nNumUsed source then nInternalPointer source else 0);
          with_holes = (nNumUsed source \<noteq> nNumOfElements source)
      in if nNumOfElements source = 0
         then Some (target\<lparr>f_packed := False, f_uninitialized := True, f_static_keys := False, f_has_empty_ind := False,
                           nTableMask := HT_MIN_MASK, arData := [], nNumUsed := 0, nInternalPointer := 0,
                           nTableSize := HT_MIN_SIZE\<rparr>)
         else if immutable
         then do { t \<leftarrow> copy_buckets (target\<lparr>arData := arData source\<rparr>) (nTableSize source);
                   Some (t\<lparr>arHash := arHash source\<rparr>) }
         else if f_packed source
         then dup_packed_elements sole_ref source with_holes (max 1 used) 0
                (target\<lparr>nTableMask := HT_MIN_MASK, nInternalPointer := pos\<rparr>)
         else do { (idx, t) \<leftarrow> dup_elements sole_ref source with_holes (max 1 used) 0
                      (HT_HASH_RESET (target\<lparr>nInternalPointer := pos\<rparr>));
                   Some (t\<lparr>nNumUsed := word_of_nat idx, nNumOfElements := word_of_nat idx\<rparr>) })"

subsection \<open>Renaming a key\<close>

text \<open>The search for the place in a chain, which goes from the last bucket to the first: the last
  bucket in front of which \<open>idx\<close> does not belong.\<close>

partial_function (option) chain_place :: "'v bucket option list \<Rightarrow> u32 \<Rightarrow> u32 \<Rightarrow> u32 option" where [code]:
  "chain_place d idx i =
     do { b \<leftarrow> bucket_in d (unat i);
          if b_next b \<noteq> HT_INVALID_IDX \<and> b_next b > idx then chain_place d idx (b_next b) else Some i }"

text \<open>\<open>zend_hash_set_bucket_key\<close> gives the bucket \<open>idx\<close>, which has a string as its key, another string;
  \<open>None\<close> also for the violated assertion on the kind of table. The result is \<open>NULL\<close> when another
  bucket has that key.\<close>

definition zend_hash_set_bucket_key ::
    "'v hashtable \<Rightarrow> u32 \<Rightarrow> zend_string \<Rightarrow> (u32 option \<times> 'v hashtable) option" where
  "zend_hash_set_bucket_key ht idx key =
     (if f_packed ht then None
      else do { (r, ht) \<leftarrow> zend_hash_find_bucket ht key False;
           case r of
             Some p \<Rightarrow> Some (if p = idx then Some p else None, ht)
           | None \<Rightarrow>
               do { let ht = dynamic_key key ht;
                    b \<leftarrow> bucket_in (arData ht) (unat idx);
                    i \<leftarrow> HT_HASH ht (n_index ht (b_h b));
                    ht \<leftarrow> (if i = idx then set_hash ht (n_index ht (b_h b)) (b_next b)
                          else do { i \<leftarrow> find_prev (arData ht) idx i;
                                    p \<leftarrow> bucket_in (arData ht) (unat i);
                                    put_bucket ht (unat i) (p\<lparr>b_next := b_next b\<rparr>) });
                    old \<leftarrow> b_key b;
                    let key = hashed_key key;
                    let b = b\<lparr>b_key := Some key, b_h := zs_h key\<rparr>;
                    i \<leftarrow> HT_HASH ht (n_index ht (b_h b));
                    ht \<leftarrow> (if i = HT_INVALID_IDX \<or> i < idx
                          then do { ht \<leftarrow> put_bucket ht (unat idx) (b\<lparr>b_next := i\<rparr>);
                                    set_hash ht (n_index ht (b_h b)) idx }
                          else do { i \<leftarrow> chain_place (arData ht) idx i;
                                    p \<leftarrow> bucket_in (arData ht) (unat i);
                                    ht \<leftarrow> put_bucket ht (unat idx) (b\<lparr>b_next := b_next p\<rparr>);
                                    put_bucket ht (unat i) (p\<lparr>b_next := idx\<rparr>) });
                    Some (Some idx, ht) } })"

end
