(* ===== verification/Zend_Hash_Order.thy ===== *)
theory Zend_Hash_Order
  imports Zend_Hash_Bulk Zend_Sort
begin

text \<open>
  Sorting and comparing the arrays of PHP, \<open>zend_hash_sort_ex\<close>, \<open>zend_hash_compare\<close> and
  \<open>zend_hash_minmax\<close> of \<open>php-7.4-patched/Zend/zend_hash.c\<close>. A comparison of values or buckets is a
  callback with a state of its own.
\<close>

subsection \<open>Sorting\<close>

text \<open>The three ways to swap two buckets: none of them touches the link of the collision chain.\<close>

definition zend_hash_bucket_swap :: "'v bucket swap_func" where
  "zend_hash_bucket_swap p q =
     (p\<lparr>b_val := b_val q, b_h := b_h q, b_key := b_key q\<rparr>, q\<lparr>b_val := b_val p, b_h := b_h p, b_key := b_key p\<rparr>)"

definition zend_hash_bucket_renum_swap :: "'v bucket swap_func" where
  "zend_hash_bucket_renum_swap p q = (p\<lparr>b_val := b_val q\<rparr>, q\<lparr>b_val := b_val p\<rparr>)"

definition zend_hash_bucket_packed_swap :: "'v bucket swap_func" where
  "zend_hash_bucket_packed_swap p q =
     (p\<lparr>b_val := b_val q, b_h := b_h q\<rparr>, q\<lparr>b_val := b_val p, b_h := b_h p\<rparr>)"

text \<open>The loop that closes the holes: \<open>n\<close> buckets from \<open>j\<close> on move down to \<open>i\<close>.\<close>

fun close_holes :: "nat \<Rightarrow> nat \<Rightarrow> nat \<Rightarrow> 'v hashtable \<Rightarrow> (nat \<times> 'v hashtable) option" where
  "close_holes 0 j i ht = Some (i, ht)"
| "close_holes (Suc n) j i ht =
     do { p \<leftarrow> bucket_in (arData ht) j;
          if b_val p = IS_UNDEF then close_holes n (Suc j) i ht
          else do { ht \<leftarrow> (if i \<noteq> j then put_bucket ht i p else Some ht);
                    close_holes n (Suc j) (Suc i) ht } }"

text \<open>The loop that numbers the first \<open>n\<close> buckets.\<close>

fun renumber_buckets :: "nat \<Rightarrow> nat \<Rightarrow> 'v hashtable \<Rightarrow> 'v hashtable option" where
  "renumber_buckets 0 j ht = Some ht"
| "renumber_buckets (Suc n) j ht =
     do { p \<leftarrow> bucket_in (arData ht) j;
          ht \<leftarrow> put_bucket ht j (p\<lparr>b_h := word_of_nat j, b_key := None\<rparr>);
          renumber_buckets n (Suc j) ht }"

text \<open>\<open>srt\<close> is \<open>zend_sort\<close> or \<open>zend_insert_sort\<close>; it gets the buckets from the start of the data on.\<close>

type_synonym ('s, 'a) sort_func =
  "('s, 'a) compare_func \<Rightarrow> 'a swap_func \<Rightarrow> nat \<Rightarrow> nat \<Rightarrow> 'a list \<times> 's \<Rightarrow> ('a list \<times> 's) option"

definition sort_data ::
    "('s, 'v bucket) sort_func \<Rightarrow> ('s, 'v bucket) compare_func \<Rightarrow> 'v bucket swap_func \<Rightarrow> nat \<Rightarrow> 's \<Rightarrow>
     'v hashtable \<Rightarrow> ('s \<times> 'v hashtable) option" where
  "sort_data srt compar swp n s ht =
     do { bs \<leftarrow> those (take n (arData ht));
          (bs, s) \<leftarrow> srt compar swp 0 n (bs, s);
          Some (s, ht\<lparr>arData := map Some bs @ drop n (arData ht)\<rparr>) }"

definition zend_hash_sort_ex ::
    "('s, 'v bucket) sort_func \<Rightarrow> ('s, 'v bucket) compare_func \<Rightarrow> bool \<Rightarrow> 's \<Rightarrow> 'v hashtable \<Rightarrow>
     ('s \<times> 'v hashtable) option" where
  "zend_hash_sort_ex srt compar renumber s ht =
     (if \<not> nNumOfElements ht > 1 \<and> \<not> (renumber \<and> nNumOfElements ht > 0) then Some (s, ht)
      else do {
        (i, ht) \<leftarrow> (if nNumUsed ht = nNumOfElements ht then Some (unat (nNumUsed ht), ht)
                   else close_holes (unat (nNumUsed ht)) 0 0 ht);
        (s, ht) \<leftarrow> sort_data srt compar
           (if renumber then zend_hash_bucket_renum_swap
            else if f_packed ht then zend_hash_bucket_packed_swap else zend_hash_bucket_swap) i s ht;
        let ht = ht\<lparr>nNumUsed := word_of_nat i, nInternalPointer := 0\<rparr>;
        ht \<leftarrow> (if renumber
              then map_option (\<lambda>ht. ht\<lparr>nNextFreeElement := word_of_nat i\<rparr>) (renumber_buckets i 0 ht)
              else Some ht);
        ht \<leftarrow> (if f_packed ht then (if renumber then Some ht else zend_hash_packed_to_hash ht)
              else if renumber then zend_hash_to_packed ht else zend_hash_rehash ht);
        Some (s, ht) })"

text \<open>The macro \<open>zend_hash_sort\<close>.\<close>

definition zend_hash_sort ::
    "('s, 'v bucket) compare_func \<Rightarrow> bool \<Rightarrow> 's \<Rightarrow> 'v hashtable \<Rightarrow> ('s \<times> 'v hashtable) option" where
  "zend_hash_sort compar renumber s ht = zend_hash_sort_ex zend_sort compar renumber s ht"

subsection \<open>The least and the greatest value\<close>

text \<open>The loop over the \<open>n\<close> buckets from \<open>idx\<close> on, with the best one so far at \<open>res\<close>.\<close>

fun minmax_loop ::
    "('s, 'v bucket) compare_func \<Rightarrow> bool \<Rightarrow> 'v bucket option list \<Rightarrow> nat \<Rightarrow> nat \<Rightarrow> nat \<Rightarrow> 's \<Rightarrow> (nat \<times> 's) option" where
  "minmax_loop compar flag d 0 idx res s = Some (res, s)"
| "minmax_loop compar flag d (Suc n) idx res s =
     do { p \<leftarrow> bucket_in d idx;
          if b_val p = IS_UNDEF then minmax_loop compar flag d n (Suc idx) res s
          else do { r \<leftarrow> bucket_in d res;
                    let (c, s) = compar s r p;
                    minmax_loop compar flag d n (Suc idx) (if (if flag then c < 0 else c > 0) then idx else res) s } }"

text \<open>The place of the least value, or of the greatest one if \<open>flag\<close>; \<open>None\<close> inside the result is
  \<open>NULL\<close>.\<close>

definition zend_hash_minmax ::
    "('s, 'v bucket) compare_func \<Rightarrow> bool \<Rightarrow> 's \<Rightarrow> 'v hashtable \<Rightarrow> (nat option \<times> 's) option" where
  "zend_hash_minmax compar flag s ht =
     (let used = unat (nNumUsed ht)
      in if nNumOfElements ht = 0 then Some (None, s)
         else do { idx \<leftarrow> next_live (arData ht) used 0;
                   if idx = used then Some (None, s)
                   else map_option (\<lambda>(r, s). (Some r, s)) (minmax_loop compar flag (arData ht) (used - idx) idx idx s) })"

subsection \<open>Comparing\<close>

text \<open>\<open>memcmp\<close> on two byte strings of the same length: the sign of the first difference.\<close>

fun memcmp :: "bytes \<Rightarrow> bytes \<Rightarrow> int" where
  "memcmp (x # xs) (y # ys) = (if x = y then memcmp xs ys else if x < y then - 1 else 1)"
| "memcmp _ _ = 0"

definition three_way :: "'a::linorder \<Rightarrow> 'a \<Rightarrow> int" where
  "three_way x y = (if x = y then 0 else if x > y then 1 else - 1)"

text \<open>The keys of two buckets in an ordered comparison: 0 when they are the same.\<close>

definition compare_keys :: "'v bucket \<Rightarrow> 'v bucket \<Rightarrow> int" where
  "compare_keys p1 p2 =
     (case (b_key p1, b_key p2) of
        (None, None) \<Rightarrow> three_way (b_h p1) (b_h p2)
      | (Some k1, Some k2) \<Rightarrow>
          (if length (zs_val k1) \<noteq> length (zs_val k2) then three_way (length (zs_val k1)) (length (zs_val k2))
           else memcmp (zs_val k1) (zs_val k2))
      | (k1, k2) \<Rightarrow> if k1 \<noteq> None then 1 else - 1)"

text \<open>The values of two elements; the slots are the variables that indirect values stand for.\<close>

definition compare_data ::
    "('s \<Rightarrow> 'v zval \<Rightarrow> 'v zval \<Rightarrow> int \<times> 's) \<Rightarrow> (nat \<Rightarrow> 'v zval) \<Rightarrow> (nat \<Rightarrow> 'v zval) \<Rightarrow> 's \<Rightarrow> 'v zval \<Rightarrow> 'v zval \<Rightarrow>
     int \<times> 's" where
  "compare_data compar slots1 slots2 s v1 v2 =
     (let d1 = z_indirect slots1 v1; d2 = z_indirect slots2 v2
      in if d1 = IS_UNDEF then (if d2 \<noteq> IS_UNDEF then (- 1, s) else (0, s))
         else if d2 = IS_UNDEF then (1, s)
         else compar s d1 d2)"

text \<open>The loop over the \<open>n\<close> buckets of the first table from \<open>idx1\<close> on; \<open>idx2\<close> is the place in the second
  one of an ordered comparison, where running off its end is a violated assertion. Lookups in the second
  table report to the hooks, so that table is part of the state.\<close>

fun compare_loop ::
    "('s \<Rightarrow> 'v zval \<Rightarrow> 'v zval \<Rightarrow> int \<times> 's) \<Rightarrow> bool \<Rightarrow> 'v hashtable \<Rightarrow> nat \<Rightarrow> nat \<Rightarrow> nat \<Rightarrow> 's \<Rightarrow> 'v hashtable \<Rightarrow>
     (int \<times> 's \<times> 'v hashtable) option" where
  "compare_loop compar ordered ht1 0 idx1 idx2 s ht2 = Some (0, s, ht2)"
| "compare_loop compar ordered ht1 (Suc n) idx1 idx2 s ht2 =
     do { p1 \<leftarrow> bucket_in (arData ht1) idx1;
          if b_val p1 = IS_UNDEF then compare_loop compar ordered ht1 n (Suc idx1) idx2 s ht2
          else if ordered
          then do { idx2 \<leftarrow> next_live (arData ht2) (unat (nNumUsed ht2)) idx2;
                    p2 \<leftarrow> (if idx2 < unat (nNumUsed ht2) then bucket_in (arData ht2) idx2 else None);
                    if compare_keys p1 p2 \<noteq> 0 then Some (compare_keys p1 p2, s, ht2)
                    else let (r, s) = compare_data compar (ht_slots ht1) (ht_slots ht2) s (b_val p1) (b_val p2)
                         in if r \<noteq> 0 then Some (r, s, ht2)
                            else compare_loop compar ordered ht1 n (Suc idx1) (Suc idx2) s ht2 }
          else do { (r, ht2) \<leftarrow> (case b_key p1 of
                        None \<Rightarrow> index_lookup ht2 (b_h p1) | Some key \<Rightarrow> zend_hash_find ht2 key);
                    case r of
                      None \<Rightarrow> Some (1, s, ht2)
                    | Some idx \<Rightarrow>
                        do { p2 \<leftarrow> bucket_in (arData ht2) (unat idx);
                             let (r, s) = compare_data compar (ht_slots ht1) (ht_slots ht2) s (b_val p1) (b_val p2);
                             if r \<noteq> 0 then Some (r, s, ht2)
                             else compare_loop compar ordered ht1 n (Suc idx1) idx2 s ht2 } } }"

definition zend_hash_compare_impl ::
    "('s \<Rightarrow> 'v zval \<Rightarrow> 'v zval \<Rightarrow> int \<times> 's) \<Rightarrow> bool \<Rightarrow> 'v hashtable \<Rightarrow> 's \<Rightarrow> 'v hashtable \<Rightarrow>
     (int \<times> 's \<times> 'v hashtable) option" where
  "zend_hash_compare_impl compar ordered ht1 s ht2 =
     (if nNumOfElements ht1 \<noteq> nNumOfElements ht2 then Some (three_way (nNumOfElements ht1) (nNumOfElements ht2), s, ht2)
      else compare_loop compar ordered ht1 (unat (nNumUsed ht1)) 0 0 s ht2)"

text \<open>\<open>same\<close> says that the two tables are the same one, \<open>recursive\<close> that the first one is being compared
  already, which is a fatal error.\<close>

definition zend_hash_compare ::
    "('s \<Rightarrow> 'v zval \<Rightarrow> 'v zval \<Rightarrow> int \<times> 's) \<Rightarrow> bool \<Rightarrow> bool \<Rightarrow> bool \<Rightarrow> 'v hashtable \<Rightarrow> 's \<Rightarrow> 'v hashtable \<Rightarrow>
     (int \<times> 's \<times> 'v hashtable) option" where
  "zend_hash_compare compar ordered same recursive ht1 s ht2 =
     (if same then Some (0, s, ht2)
      else if recursive then Some (0, s, bailout ht2)
      else zend_hash_compare_impl compar ordered ht1 s ht2)"

end
