(* ===== verification/Zend_Hash_Order_Correct.thy ===== *)
theory Zend_Hash_Order_Correct
  imports Zend_Hash_Order Zend_Sort_Correct Zend_Hash_Examples
begin

text \<open>
  Sorting an array permutes its elements, keeps its invariant and puts the elements in order when the
  comparison is consistent.
\<close>

subsection \<open>The swaps\<close>

definition b_entry :: "'v bucket \<Rightarrow> 'v zval \<times> u64 \<times> zend_string option" where
  "b_entry b = (b_val b, b_h b, b_key b)"

interpretation bucket_swap: swapping zend_hash_bucket_swap b_entry b_next cmp gt for cmp gt
  by unfold_locales (simp_all add: zend_hash_bucket_swap_def b_entry_def)

interpretation packed_swap: swapping zend_hash_bucket_packed_swap "\<lambda>b. (b_val b, b_h b)" "\<lambda>b. (b_next b, b_key b)" cmp gt
  for cmp gt
  by unfold_locales (simp_all add: zend_hash_bucket_packed_swap_def)

interpretation renum_swap: swapping zend_hash_bucket_renum_swap b_val "\<lambda>b. (b_next b, b_h b, b_key b)" cmp gt for cmp gt
  by unfold_locales (simp_all add: zend_hash_bucket_renum_swap_def)

lemma weak_order_inv_image: "weak_order gt \<Longrightarrow> weak_order (\<lambda>x y. gt (f x) (f y))"
  unfolding weak_order_def by blast

subsection \<open>The buckets as a list\<close>

lemma those_map_Some [simp]: "those (map Some xs) = Some xs"
  by (induction xs) simp_all

lemma take_buckets:
  assumes "n \<le> length d" "\<forall>m<n. bucket_in d m \<noteq> None"
  obtains bs where "take n d = map Some bs" "length bs = n"
proof
  show "take n d = map Some (map (\<lambda>m. the (bucket_in d m)) [0..<n])"
    using assms by (auto simp: list_eq_iff_nth_eq bucket_in_def nth_opt_def)
qed simp

lemma bucket_in_map_Some: "bucket_in (map Some bs @ d) m = (if m < length bs then Some (bs ! m) else bucket_in d (m - length bs))"
proof (cases "m < length bs")
  case False
  then have "m < length bs + length d \<longleftrightarrow> m - length bs < length d" by linarith
  then show ?thesis using False by (simp add: bucket_in_def nth_opt_def nth_append)
qed (simp add: bucket_in_def nth_opt_def nth_append)

lemma elems_map_Some:
  assumes "\<forall>b\<in>set bs. b_val b \<noteq> IS_UNDEF"
  shows "elems (map Some bs @ d) 0 (length bs) = map b_entry bs"
  using assms
proof (induction bs rule: rev_induct)
  case (snoc b bs)
  have "elems (map Some (bs @ [b]) @ d) 0 (length bs) = elems (map Some bs @ d) 0 (length bs)"
    by (intro elems_cong) (simp add: held_def bucket_in_map_Some nth_append)
  moreover have "bucket_in (map Some (bs @ [b]) @ d) (length bs) = Some b" by (subst bucket_in_map_Some) (simp add: nth_append)
  ultimately show ?case using snoc by (simp add: elems_snoc held_def b_entry_def)
qed simp

lemma close_holes_ok:
  assumes "j + n \<le> length (arData ht)" "i \<le> j" "\<forall>m\<in>{j..<j + n}. bucket_in (arData ht) m \<noteq> None"
    "length (elems (arData ht) 0 i) = i"
  shows "\<exists>d. close_holes n j i ht = Some (i + length (elems (arData ht) j n), ht\<lparr>arData := d\<rparr>) \<and>
    length d = length (arData ht) \<and> elems d 0 (i + length (elems (arData ht) j n)) = elems (arData ht) 0 i @ elems (arData ht) j n"
  using assms
proof (induction n arbitrary: i j ht)
  case 0
  then show ?case by (intro exI [of _ "arData ht"]) simp
next
  case (Suc n)
  obtain p where p: "bucket_in (arData ht) j = Some p" using Suc.prems(3) by fastforce
  show ?case
  proof (cases "b_val p = IS_UNDEF")
    case True
    then have e: "elems (arData ht) j (Suc n) = elems (arData ht) (Suc j) n" using p by (simp add: elems_Suc held_def)
    show ?thesis unfolding e using Suc.IH [of "Suc j" ht i] Suc.prems p True by simp
  next
    case False
    let ?d = "(arData ht)[i := Some p]" and ?e = "(b_val p, b_h p, b_key p)"
    have i: "i < length (arData ht)" using Suc.prems by simp
    have ht: "(if i \<noteq> j then put_bucket ht i p else Some ht) = Some (ht\<lparr>arData := ?d\<rparr>)"
    proof (cases "i = j")
      case True
      then have "?d = arData ht" using p by (auto simp: bucket_in_def nth_opt_def list_update_same_conv split: if_splits)
      then show ?thesis using True by simp
    qed (use i in \<open>simp add: put_bucket_def\<close>)
    have "elems ?d (Suc j) n = elems (arData ht) (Suc j) n"
      using Suc.prems(2) i by (intro elems_cong) (simp add: held_update)
    moreover have "elems ?d 0 (Suc i) = elems (arData ht) 0 i @ [?e]"
      using elems_cong [of 0 i ?d "arData ht"] i False by (simp add: elems_snoc held_update)
    moreover have "elems (arData ht) j (Suc n) = ?e # elems (arData ht) (Suc j) n"
      using p False by (simp add: elems_Suc held_def)
    ultimately show ?thesis
      using Suc.IH [of "Suc j" "ht\<lparr>arData := ?d\<rparr>" "Suc i"] Suc.prems i p False ht by (simp add: ac_simps)
  qed
qed

text \<open>After the holes are closed the first buckets are the elements.\<close>

lemma closed_ok:
  assumes c: "contents_ok k ht"
  shows "\<exists>bs d. (if nNumUsed ht = nNumOfElements ht then Some (unat (nNumUsed ht), ht)
      else close_holes (unat (nNumUsed ht)) 0 0 ht) = Some (length bs, ht\<lparr>arData := map Some bs @ d\<rparr>) \<and>
    map b_entry bs = ht_elems ht \<and> (\<forall>b\<in>set bs. b_val b \<noteq> IS_UNDEF) \<and> length bs + length d = 2 ^ k"
proof -
  let ?n = "unat (nNumUsed ht)" and ?l = "length (ht_elems ht)"
  note b = contents_bounds [OF c]
  have len: "length (arData ht) = 2 ^ k" using c by (simp add: contents_ok_def)
  have "\<exists>d. (if nNumUsed ht = nNumOfElements ht then Some (?n, ht) else close_holes ?n 0 0 ht) = Some (?l, ht\<lparr>arData := d\<rparr>) \<and>
      length d = 2 ^ k \<and> elems d 0 ?l = ht_elems ht"
  proof (cases "nNumUsed ht = nNumOfElements ht")
    case True
    then have "?l = ?n" using b(4) by simp
    then show ?thesis using True len by (intro exI [of _ "arData ht"]) (simp add: ht_elems_def)
  next
    case False
    have "\<forall>m\<in>{0..<0 + ?n}. bucket_in (arData ht) m \<noteq> None" using c by (simp add: contents_ok_def)
    then show ?thesis using close_holes_ok [of 0 ?n ht 0] b(1) len False by (auto simp: ht_elems_def)
  qed
  then obtain d where d: "(if nNumUsed ht = nNumOfElements ht then Some (?n, ht) else close_holes ?n 0 0 ht) = Some (?l, ht\<lparr>arData := d\<rparr>)"
    "length d = 2 ^ k" "elems d 0 ?l = ht_elems ht" by blast
  have full: "\<forall>m\<in>{0..<0 + ?l}. held d m \<noteq> None" using length_elems_eq_iff [of d 0 ?l] d(3) by simp
  then have "\<forall>m<?l. bucket_in d m \<noteq> None" by (auto simp: held_def split: option.splits)
  moreover have "?l \<le> length d" using b(1,3) d(2) by simp
  ultimately obtain bs where bs: "take ?l d = map Some bs" "length bs = ?l" using take_buckets [of ?l d] by blast
  have split: "d = map Some bs @ drop ?l d" using bs(1) by (metis append_take_drop_id)
  have "b_val (bs ! m) \<noteq> IS_UNDEF" if "m < ?l" for m
  proof -
    have "bucket_in d m = Some (bs ! m)" by (subst split) (use that bs(2) in \<open>simp add: bucket_in_map_Some\<close>)
    moreover have "held d m \<noteq> None" using full that by simp
    ultimately show ?thesis by (auto simp: held_def)
  qed
  then have live: "\<forall>b\<in>set bs. b_val b \<noteq> IS_UNDEF" using bs(2) by (auto simp: in_set_conv_nth)
  then have "elems (map Some bs @ drop ?l d) 0 (length bs) = map b_entry bs" by (rule elems_map_Some)
  then have "map b_entry bs = ht_elems ht" unfolding split [symmetric] bs(2) d(3) by (rule sym)
  moreover have "ht\<lparr>arData := d\<rparr> = ht\<lparr>arData := map Some bs @ drop ?l d\<rparr>" by (rule arg_cong [OF split])
  moreover have "length bs + length (drop ?l d) = 2 ^ k" using d(2) bs(2) \<open>?l \<le> length d\<close> by simp
  ultimately show ?thesis using d(1) bs(2) live
    by (intro exI [of _ bs] exI [of _ "drop ?l d"]) (simp only: simp_thms)
qed

text \<open>A table whose first buckets are given.\<close>

lemma listed_contents:
  assumes c: "contents_ok k ht" and bs: "length bs = length (ht_elems ht)" "length bs + length d = 2 ^ k"
    "\<forall>b\<in>set bs. b_val b \<noteq> IS_UNDEF" "distinct (map entry_key (map b_entry bs))" "list_all entry_ok (map b_entry bs)"
  defines "ht' \<equiv> ht\<lparr>arData := map Some bs @ d, nNumUsed := word_of_nat (length bs), nInternalPointer := 0\<rparr>"
  shows "contents_ok k ht'" "ht_elems ht' = map b_entry bs" "unat (nNumUsed ht') = length bs"
proof -
  note b = contents_bounds [OF c]
  show u: "unat (nNumUsed ht') = length bs" using bs(1) b(1-3) by (simp add: ht'_def unat_of_nat32)
  show e: "ht_elems ht' = map b_entry bs"
    using elems_map_Some [OF bs(3)] unfolding ht_elems_def [of ht'] u by (simp add: ht'_def)
  have "\<forall>i<length bs. bucket_in (arData ht') i \<noteq> None" by (simp add: ht'_def bucket_in_map_Some)
  moreover have "length bs \<le> 2 ^ k" using bs(2) by simp
  moreover have "nTableSize ht' = nTableSize ht" "length (arData ht') = 2 ^ k" "nNumOfElements ht' = nNumOfElements ht"
    "f_uninitialized ht' = f_uninitialized ht" "ht_bailout ht' = ht_bailout ht" using bs(2) by (simp_all add: ht'_def)
  ultimately show "contents_ok k ht'"
    using c bs(1,4,5) unfolding contents_ok_def e u by simp
qed

lemma permuted_contents:
  assumes c: "contents_ok k ht" and bs: "mset (map b_entry bs) = mset (ht_elems ht)" "length bs + length d = 2 ^ k"
  defines "ht' \<equiv> ht\<lparr>arData := map Some bs @ d, nNumUsed := word_of_nat (length bs), nInternalPointer := 0\<rparr>"
  shows "contents_ok k ht'" "ht_elems ht' = map b_entry bs" "unat (nNumUsed ht') = length bs"
proof -
  have len: "length bs = length (ht_elems ht)" using bs(1) by (metis length_map size_mset)
  have "v \<noteq> IS_UNDEF" if "(v, h, s) \<in> set (ht_elems ht)" for v h s
    using that by (auto simp: ht_elems_def set_elems held_def split: option.splits if_splits)
  then have live: "\<forall>b\<in>set bs. b_val b \<noteq> IS_UNDEF"
    using bs(1) by (metis b_entry_def image_eqI list.set_map set_mset_mset)
  have "distinct (map entry_key (map b_entry bs)) = distinct (map entry_key (ht_elems ht))"
    by (intro mset_eq_imp_distinct_iff) (metis bs(1) mset_map)
  moreover have "list_all entry_ok (map b_entry bs) = list_all entry_ok (ht_elems ht)"
    unfolding list.pred_set using mset_eq_setD [OF bs(1)] by simp
  ultimately have "distinct (map entry_key (map b_entry bs))" "list_all entry_ok (map b_entry bs)"
    using c unfolding contents_ok_def by blast+
  from listed_contents [OF c len bs(2) live this] show "contents_ok k ht'" "ht_elems ht' = map b_entry bs"
    "unat (nNumUsed ht') = length bs" unfolding ht'_def by blast+
qed

lemma sort_data_eq:
  "zend_sort compar swp 0 (length bs) (bs, s) = Some (bs', s') \<Longrightarrow>
   sort_data zend_sort compar swp (length bs) s (ht\<lparr>arData := map Some bs @ d\<rparr>) = Some (s', ht\<lparr>arData := map Some bs' @ d\<rparr>)"
  by (simp add: sort_data_def)

subsection \<open>Sorting with the keys\<close>

lemma sorted_buckets:
  fixes bs :: "'v bucket list"
  assumes "f_packed ht \<Longrightarrow> \<forall>b\<in>set bs. b_key b = None"
  shows "\<exists>bs' s'. zend_sort compar (if f_packed ht then zend_hash_bucket_packed_swap else zend_hash_bucket_swap) 0
      (length bs) (bs, s) = Some (bs', s') \<and> mset (map b_entry bs') = mset (map b_entry bs) \<and>
    (weak_order gt \<longrightarrow> (\<forall>s p q. (fst (compar s p q) > 0) = gt (b_entry p) (b_entry q)) \<longrightarrow>
      sorted_wrt (\<lambda>x y. \<not> gt x y) (map b_entry bs'))"
proof -
  have z: "0 + length bs \<le> length bs" by simp
  show ?thesis
  proof (cases "f_packed ht")
  case False
  obtain ys s' where r: "zend_sort compar zend_hash_bucket_swap 0 (length bs) (bs, s) = Some (ys, s')"
    "mset (map b_entry ys) = mset (map b_entry bs)" "map b_next ys = map b_next bs"
    "weak_order gt \<Longrightarrow> (\<forall>s x y. b_next x \<in> b_next ` set bs \<longrightarrow> b_next y \<in> b_next ` set bs \<longrightarrow>
        (fst (compar s x y) > 0) = gt (b_entry x) (b_entry y)) \<Longrightarrow>
      sorted_wrt (\<lambda>x y. \<not> gt x y) (map b_entry (take (length bs) (drop 0 ys)))"
    using bucket_swap.zend_sort_spec [OF z, of compar s gt] by blast
  moreover have "length ys = length bs" using r(3) by (rule map_eq_imp_length_eq)
  ultimately show ?thesis using False by simp
next
  case True
  let ?pl = "\<lambda>b :: 'v bucket. (b_val b, b_h b)" and ?fx = "\<lambda>b :: 'v bucket. (b_next b, b_key b)"
  let ?f = "\<lambda>x :: 'v zval \<times> u64. (fst x, snd x, None :: zend_string option)"
  let ?gt = "\<lambda>x y. gt (?f x) (?f y)"
  obtain ys s' where r: "zend_sort compar zend_hash_bucket_packed_swap 0 (length bs) (bs, s) = Some (ys, s')"
    "mset (map ?pl ys) = mset (map ?pl bs)" "map ?fx ys = map ?fx bs"
    "weak_order ?gt \<Longrightarrow> (\<forall>s x y. ?fx x \<in> ?fx ` set bs \<longrightarrow> ?fx y \<in> ?fx ` set bs \<longrightarrow>
        (fst (compar s x y) > 0) = ?gt (?pl x) (?pl y)) \<Longrightarrow>
      sorted_wrt (\<lambda>x y. \<not> ?gt x y) (map ?pl (take (length bs) (drop 0 ys)))"
    using packed_swap.zend_sort_spec [OF z, of compar s ?gt] by blast
  have len: "length ys = length bs" using r(3) by (rule map_eq_imp_length_eq)
  have "b_key ` set ys = b_key ` set bs"
    using arg_cong [OF r(3), of "\<lambda>xs. snd ` set xs"] by (simp add: image_image)
  then have keys: "\<forall>b\<in>set ys. b_key b = None" using assms [OF True] by (metis imageE image_eqI)
  have m: "map b_entry ys = map ?f (map ?pl ys)" "map b_entry bs = map ?f (map ?pl bs)"
    using keys assms [OF True] by (simp_all add: b_entry_def)
  have "sorted_wrt (\<lambda>x y. \<not> gt x y) (map b_entry ys)"
    if gt: "weak_order gt" and ag: "\<forall>s p q. (fst (compar s p q) > 0) = gt (b_entry p) (b_entry q)"
  proof -
    have "weak_order ?gt" using gt by (rule weak_order_inv_image)
    moreover have "\<forall>s x y. ?fx x \<in> ?fx ` set bs \<longrightarrow> ?fx y \<in> ?fx ` set bs \<longrightarrow> (fst (compar s x y) > 0) = ?gt (?pl x) (?pl y)"
    proof (intro allI impI)
      fix s x y assume "?fx x \<in> ?fx ` set bs" "?fx y \<in> ?fx ` set bs"
      then have "b_key x = None" "b_key y = None" using assms [OF True] by auto
      then show "(fst (compar s x y) > 0) = ?gt (?pl x) (?pl y)" using ag by (simp add: b_entry_def)
    qed
    ultimately have "sorted_wrt (\<lambda>x y. \<not> ?gt x y) (map ?pl ys)" using r(4) len by simp
    then show ?thesis unfolding m(1) by (simp add: sorted_wrt_map)
  qed
  moreover have "mset (map b_entry ys) = mset (map b_entry bs)" unfolding m using r(2) by (metis mset_map)
  ultimately show ?thesis using True r(1) by (intro exI [of _ ys] exI [of _ s']) simp
  qed
qed

lemma rebuild_sorted:
  fixes ht ht1 :: "'v hashtable"
  assumes m: "hash_ok k ht \<or> packed_ok k ht" and c: "contents_ok k ht" and c1: "contents_ok k ht1"
    and ht1: "f_packed ht1 = f_packed ht" "nTableMask ht1 = nTableMask ht"
  shows "\<exists>ht'. (if f_packed ht1 then zend_hash_packed_to_hash ht1 else zend_hash_rehash ht1) = Some ht' \<and> hash_ok k ht' \<and>
    ht_elems ht' = ht_elems ht1"
proof (cases "f_packed ht")
  case True
  have "ht1\<lparr>nTableSize := 2 ^ k\<rparr> = ht1" using c1 by (simp add: contents_ok_def)
  then show ?thesis using packed_to_hash_ok [OF c1, of k] c True ht1 by (auto simp: contents_ok_def)
next
  case False
  then have "nTableMask ht1 = - (2 ^ Suc k)" using m ht1 by (auto simp: hash_ok_def packed_ok_def)
  then show ?thesis using rehash_hash_ok [OF c1] False ht1 by auto
qed

lemma packed_no_keys:
  assumes "hash_ok k ht \<or> packed_ok k ht" "f_packed ht" "map b_entry bs = ht_elems ht" "b \<in> set bs"
  shows "b_key b = None"
proof -
  have "b_entry b \<in> set (ht_elems ht)" using assms(3,4) by (metis image_eqI list.set_map)
  moreover have "packed_ok k ht" using assms(1,2) by (auto simp: hash_ok_def)
  ultimately show ?thesis by (auto simp: ht_elems_def set_elems b_entry_def dest: packed_okD(3))
qed


subsection \<open>Sorting with new keys\<close>

fun numbered :: "nat \<Rightarrow> 'v bucket list \<Rightarrow> 'v bucket list" where
  "numbered j [] = []"
| "numbered j (b # bs) = b\<lparr>b_h := word_of_nat j, b_key := None\<rparr> # numbered (Suc j) bs"

lemma length_numbered [simp]: "length (numbered j bs) = length bs"
  by (induction bs arbitrary: j) simp_all

lemma nth_numbered: "i < length bs \<Longrightarrow> numbered j bs ! i = (bs ! i)\<lparr>b_h := word_of_nat (j + i), b_key := None\<rparr>"
proof (induction bs arbitrary: i j)
  case (Cons b bs)
  then show ?case by (cases i) simp_all
qed simp

lemma map_val_numbered [simp]: "map b_val (numbered j bs) = map b_val bs"
  by (induction bs arbitrary: j) simp_all

lemma renumber_buckets_eq:
  "renumber_buckets (length bs) (length as) (ht\<lparr>arData := map Some (as @ bs) @ d\<rparr>) =
   Some (ht\<lparr>arData := map Some (as @ numbered (length as) bs) @ d\<rparr>)"
proof (induction bs arbitrary: as)
  case (Cons b bs)
  let ?b = "b\<lparr>b_h := word_of_nat (length as), b_key := None\<rparr>"
  have "bucket_in (map Some (as @ b # bs) @ d) (length as) = Some b"
    by (subst bucket_in_map_Some) (simp add: nth_append)
  moreover have "(map Some (as @ b # bs) @ d)[length as := Some ?b] = map Some ((as @ [?b]) @ bs) @ d"
    by (simp add: list_update_append)
  ultimately have "renumber_buckets (length (b # bs)) (length as) (ht\<lparr>arData := map Some (as @ b # bs) @ d\<rparr>) =
      renumber_buckets (length bs) (length (as @ [?b])) (ht\<lparr>arData := map Some ((as @ [?b]) @ bs) @ d\<rparr>)"
    by (simp add: put_bucket_def)
  then show ?case using Cons.IH [of "as @ [?b]"] by simp
qed simp

lemma numbered_keys: "map entry_key (map b_entry (numbered j bs)) = map (\<lambda>i. Idx (word_of_nat i)) [j..<j + length bs]"
  by (rule nth_equalityI) (simp_all add: nth_numbered b_entry_def)

text \<open>A table whose first buckets are numbered, with the cells of a packed table.\<close>

lemma numbered_packed:
  fixes x :: u64 and y :: bool
  assumes c: "contents_ok k ht" and n: "length bs = length (ht_elems ht)" "length bs + length d = 2 ^ k"
    "\<forall>b\<in>set bs. b_val b \<noteq> IS_UNDEF"
  defines "ht' \<equiv> ht\<lparr>arData := map Some (numbered 0 bs) @ d, nNumUsed := word_of_nat (length bs), nInternalPointer := 0,
    nNextFreeElement := x, f_packed := True, f_static_keys := y, nTableMask := HT_MIN_MASK,
    arHash := [HT_INVALID_IDX, HT_INVALID_IDX]\<rparr>"
  shows "packed_ok k ht'" "ht_list ht' = zip (map (\<lambda>i. Idx (word_of_nat i)) [0..<length bs]) (map b_val bs)"
proof -
  let ?bs = "numbered 0 bs"
  let ?ht = "ht\<lparr>arData := map Some ?bs @ d, nNumUsed := word_of_nat (length ?bs), nInternalPointer := 0\<rparr>"
  have small: "length bs < 2 ^ 32" using n(1) contents_bounds(1-3) [OF c] by simp
  have inj: "inj_on (\<lambda>i. Idx (word_of_nat i)) {0..<length bs}"
  proof (intro inj_onI)
    fix i j assume "i \<in> {0..<length bs}" "j \<in> {0..<length bs}" "Idx (word_of_nat i) = Idx (word_of_nat j)"
    then have "unat (word_of_nat i :: u64) = unat (word_of_nat j :: u64)" "i < 2 ^ 64" "j < 2 ^ 64" using small by simp_all
    then show "i = j" by (simp only: unat64_of_nat)
  qed
  have 1: "distinct (map entry_key (map b_entry ?bs))"
    unfolding numbered_keys using inj by (simp add: distinct_map)
  have "set (map b_val ?bs) = set (map b_val bs)" by simp
  then have 2: "\<forall>b\<in>set ?bs. b_val b \<noteq> IS_UNDEF" using n(3) by (metis image_iff list.set_map)
  have 3: "list_all entry_ok (map b_entry ?bs)"
    by (auto simp: list_all_length nth_numbered b_entry_def)
  have l: "length ?bs = length (ht_elems ht)" "length ?bs + length d = 2 ^ k" using n(1,2) by simp_all
  note p = listed_contents [OF c l 2 1 3]
  have "contents_ok k ht'" using p(1) by (simp add: contents_ok_def ht_elems_def ht'_def)
  moreover have "g = word_of_nat i \<and> key = None"
    if "i < unat (nNumUsed ht')" "held (arData ht') i = Some (v, g, key)" for i v g key
  proof -
    have i: "i < length bs" using that(1) p(3) by (simp add: ht'_def)
    then have "bucket_in (arData ht') i = Some (?bs ! i)" by (simp add: ht'_def bucket_in_map_Some)
    then show ?thesis using that(2) i by (auto simp: held_of_bucket nth_numbered split: if_splits)
  qed
  ultimately show "packed_ok k ht'" unfolding packed_ok_def by (simp add: ht'_def)
  have "ht_elems ht' = map b_entry ?bs" using p(2) by (simp add: ht_elems_def ht'_def)
  then have "ht_list ht' = zip (map entry_key (map b_entry ?bs)) (map b_val ?bs)"
    unfolding ht_list_def by (intro nth_equalityI) (simp_all add: b_entry_def nth_numbered)
  then show "ht_list ht' = zip (map (\<lambda>i. Idx (word_of_nat i)) [0..<length bs]) (map b_val bs)"
    by (simp only: numbered_keys map_val_numbered add_0)
qed

text \<open>Sorting with new keys returns a well-formed array with the keys from 0 on, whose values are those
  of the array before, in order if the comparison is consistent.\<close>

theorem zend_hash_sort_renumbers:
  assumes "ht_ok ht"
  shows "\<exists>s' ht' vs. zend_hash_sort compar True s ht = Some (s', ht') \<and> ht_ok ht' \<and>
    ht_list ht' = zip (map (\<lambda>i. Idx (word_of_nat i)) [0..<length vs]) vs \<and> mset vs = mset (map snd (ht_list ht)) \<and>
    (weak_order gt \<longrightarrow> (\<forall>s p q. (fst (compar s p q) > 0) = gt (b_val p) (b_val q)) \<longrightarrow> sorted_wrt (\<lambda>x y. \<not> gt x y) vs)"
proof (cases "nNumOfElements ht > 0")
  case False
  then have z: "nNumOfElements ht = 0" by (simp add: word_gt_0)
  have "ht_elems ht = []" if "contents_ok k ht" for k using contents_bounds(4) [OF that] z by simp
  then have "ht_list ht = []" using assms by (auto elim!: ht_okE simp: ht_list_def)
  then show ?thesis using z assms by (simp add: zend_hash_sort_def zend_hash_sort_ex_def)
next
  case True
  obtain k where m: "hash_ok k ht \<or> packed_ok k ht" and c: "contents_ok k ht"
    using assms True by (auto elim!: ht_okE simp: fresh_ok_def)
  obtain bs d where cl: "(if nNumUsed ht = nNumOfElements ht then Some (unat (nNumUsed ht), ht)
      else close_holes (unat (nNumUsed ht)) 0 0 ht) = Some (length bs, ht\<lparr>arData := map Some bs @ d\<rparr>)"
    "map b_entry bs = ht_elems ht" "\<forall>b\<in>set bs. b_val b \<noteq> IS_UNDEF" "length bs + length d = 2 ^ k"
    using closed_ok [OF c] by blast
  have z: "0 + length bs \<le> length bs" by simp
  obtain ys s' where so: "zend_sort compar zend_hash_bucket_renum_swap 0 (length bs) (bs, s) = Some (ys, s')"
    "mset (map b_val ys) = mset (map b_val bs)"
    "weak_order gt \<Longrightarrow> \<forall>s x y. (fst (compar s x y) > 0) = gt (b_val x) (b_val y) \<Longrightarrow>
      sorted_wrt (\<lambda>x y. \<not> gt x y) (map b_val (take (length bs) (drop 0 ys)))"
    using renum_swap.zend_sort_spec [OF z, of compar s gt] by blast
  have len: "length ys = length bs" using so(2) by (metis length_map size_mset)
  have live: "\<forall>b\<in>set ys. b_val b \<noteq> IS_UNDEF"
    using cl(3) mset_eq_setD [OF so(2)] by (metis imageE image_eqI list.set_map)
  have n: "length ys = length (ht_elems ht)" "length ys + length d = 2 ^ k"
    using len cl(4) arg_cong [OF cl(2), of length] by simp_all
  let ?d = "map Some (numbered 0 ys)" and ?next = "word_of_nat (length ys) :: u64"
  let ?ht = "ht\<lparr>arData := ?d @ d, nNumUsed := word_of_nat (length ys), nInternalPointer := 0, nNextFreeElement := ?next\<rparr>"
  have upd: "ht\<lparr>arData := e, nNumUsed := word_of_nat (length ys), nInternalPointer := 0\<rparr> =
      ht\<lparr>nNumUsed := word_of_nat (length ys), nInternalPointer := 0, arData := e\<rparr>" for e by simp
  have ren: "renumber_buckets (length ys) 0 (ht\<lparr>arData := map Some ys @ d, nNumUsed := word_of_nat (length ys),
      nInternalPointer := 0\<rparr>) = Some (ht\<lparr>arData := ?d @ d, nNumUsed := word_of_nat (length ys), nInternalPointer := 0\<rparr>)"
    unfolding upd using renumber_buckets_eq [where as = "[]" and bs = ys and d = d
        and ht = "ht\<lparr>nNumUsed := word_of_nat (length ys), nInternalPointer := 0\<rparr>"] by simp
  have "\<exists>ht'. (if f_packed ht then Some ?ht else zend_hash_to_packed ?ht) = Some ht' \<and> packed_ok k ht' \<and>
      ht_list ht' = zip (map (\<lambda>i. Idx (word_of_nat i)) [0..<length ys]) (map b_val ys)"
  proof (cases "f_packed ht")
    case True
    then have "packed_ok k ht" using m by (auto simp: hash_ok_def)
    then have "?ht = ?ht\<lparr>f_packed := True, f_static_keys := f_static_keys ht, nTableMask := HT_MIN_MASK,
        arHash := [HT_INVALID_IDX, HT_INVALID_IDX]\<rparr>" by (simp add: packed_ok_def)
    then show ?thesis using numbered_packed [OF c n live, where x = ?next and y = "f_static_keys ht"] True by auto
  next
    case False
    let ?e = "replicate (2 ^ k - length ys) None"
    have u: "unat (nTableSize ht) = 2 ^ k" "unat (word_of_nat (length ys) :: u32) = length ys"
      using contents_bounds [OF c] n(1) by (simp_all add: unat_of_nat32)
    have n': "length ys + length (?e :: 'a bucket option list) = 2 ^ k" using n(2) by simp
    have "zend_hash_to_packed ?ht = Some (ht\<lparr>arData := ?d @ ?e, nNumUsed := word_of_nat (length ys), nInternalPointer := 0,
        nNextFreeElement := ?next, f_packed := True, f_static_keys := True, nTableMask := HT_MIN_MASK, arHash := [HT_INVALID_IDX, HT_INVALID_IDX]\<rparr>)"
      using u n(2) by (simp add: zend_hash_to_packed_def copy_buckets_def HT_HASH_RESET_PACKED_def Let_def)
    then show ?thesis using numbered_packed [OF c n(1) n' live, where x = ?next and y = True] False by simp
  qed
  then obtain ht' where ht': "(if f_packed ht then Some ?ht else zend_hash_to_packed ?ht) = Some ht'" "packed_ok k ht'"
    "ht_list ht' = zip (map (\<lambda>i. Idx (word_of_nat i)) [0..<length (map b_val ys)]) (map b_val ys)" by auto
  have "zend_hash_sort compar True s ht = Some (s', ht')"
    using True cl(1) sort_data_eq [OF so(1), where ht = ht and d = d] ht'(1) len ren
    unfolding zend_hash_sort_def zend_hash_sort_ex_def by (cases "f_packed ht") (auto simp: Let_def)
  moreover have "map snd (ht_list ht) = map b_val bs" unfolding ht_list_def cl(2) [symmetric] by (simp add: b_entry_def)
  ultimately show ?thesis using ht'(2,3) so(2,3) len
    by (intro exI [of _ s'] exI [of _ ht'] exI [of _ "map b_val ys"]) auto
qed

subsection \<open>At work\<close>

text \<open>The greatest numbers first.\<close>

definition ex_less :: "nat zval \<Rightarrow> nat zval \<Rightarrow> bool" where
  "ex_less v w = (case v of ZV m \<Rightarrow> (case w of ZV n \<Rightarrow> m < n | _ \<Rightarrow> False) | _ \<Rightarrow> (case w of ZV n \<Rightarrow> True | _ \<Rightarrow> False))"

lemma ex_less_order: "weak_order ex_less" "weak_order (\<lambda>x y. ex_less (fst x) (fst y))"
  by (auto simp: weak_order_def ex_less_def split: zval.splits)

definition ex_compar :: "(unit, nat bucket) compare_func" where
  "ex_compar s p q = (if ex_less (b_val p) (b_val q) then 1 else - 1, s)"

lemma ex_compar_sign [simp]: "fst (ex_compar s p q) > 0 \<longleftrightarrow> ex_less (b_val p) (b_val q)"
  by (simp add: ex_compar_def)


theorem zend_hash_sort_renumbers_witness:
  "\<exists>s' ht' vs. zend_hash_sort ex_compar True () ex_table = Some (s', ht') \<and>
    ht_ok ht' \<and> ht_list ht' = zip (map (\<lambda>i. Idx (word_of_nat i)) [0..<length vs]) vs \<and>
    mset vs = mset (map snd (ht_list ex_table)) \<and> sorted_wrt (\<lambda>x y. \<not> ex_less x y) vs"
  using zend_hash_sort_renumbers [OF ex_table_ok(1), of ex_compar "()"
      ex_less]
  by (simp add: ex_less_order(1))

end
