(* ===== verification/Zend_Hash_Compare_Correct.thy ===== *)
theory Zend_Hash_Compare_Correct
  imports Zend_Hash_Order_Correct
begin

text \<open>
  Comparing two arrays finds out whether they are the same, and the search for the least or the greatest
  element finds one.
\<close>

subsection \<open>The least and the greatest value\<close>

lemma minmax_loop_ok:
  assumes "weak_order bt" "\<forall>s p q. (if flag then fst (compar s p q) < 0 else fst (compar s p q) > 0) = bt (b_entry p) (b_entry q)"
    and "\<forall>m\<in>{idx..<idx + n}. bucket_in d m \<noteq> None" "held d res = Some r" "\<forall>e\<in>set (elems d 0 idx). \<not> bt r e"
  shows "\<exists>i s' e. minmax_loop compar flag d n idx res s = Some (i, s') \<and> held d i = Some e \<and>
    (i = res \<or> idx \<le> i \<and> i < idx + n) \<and> (\<forall>e'\<in>set (elems d 0 (idx + n)). \<not> bt e e')"
  using assms(3-5)
proof (induction n arbitrary: idx res r s)
  case 0
  then show ?case by (cases r) auto
next
  case (Suc n)
  obtain p where p: "bucket_in d idx = Some p" using Suc.prems(1) by fastforce
  obtain q where q: "bucket_in d res = Some q" "b_entry q = r"
    using Suc.prems(2) by (auto simp: held_def b_entry_def split: option.splits if_splits)
  note o = weak_orderD [OF assms(1)]
  show ?case
  proof (cases "b_val p = IS_UNDEF")
    case True
    then have "elems d 0 (Suc idx) = elems d 0 idx" using p by (simp add: elems_snoc held_def)
    then show ?thesis using Suc.IH [of "Suc idx" res r s] Suc.prems p True by auto
  next
    case False
    let ?c = "compar s q p"
    have h: "held d idx = Some (b_entry p)" using p False by (simp add: held_of_bucket b_entry_def)
    have e: "elems d 0 (Suc idx) = elems d 0 idx @ [b_entry p]" by (simp add: elems_snoc h)
    have c: "(if flag then fst ?c < 0 else fst ?c > 0) = bt r (b_entry p)" using assms(2) q(2) by simp
    show ?thesis
    proof (cases "bt r (b_entry p)")
      case True
      have "\<not> bt (b_entry p) e'" if "e' \<in> set (elems d 0 (Suc idx))" for e'
        using that o(1) [OF True] o(1) [of "b_entry p" e'] o(2) [of "b_entry p" r e'] Suc.prems(3) by (auto simp: e)
      then have "\<exists>i s' e. minmax_loop compar flag d n (Suc idx) idx (snd ?c) = Some (i, s') \<and> held d i = Some e \<and>
          (i = idx \<or> Suc idx \<le> i \<and> i < Suc idx + n) \<and> (\<forall>e'\<in>set (elems d 0 (Suc idx + n)). \<not> bt e e')"
        using Suc.prems(1) h by (intro Suc.IH [where r = "b_entry p"]) auto
      moreover have "minmax_loop compar flag d (Suc n) idx res s = minmax_loop compar flag d n (Suc idx) idx (snd ?c)"
        using p q(1) False True c by (simp add: case_prod_unfold Let_def)
      ultimately show ?thesis by fastforce
    next
      case nbt: False
      have "\<forall>e'\<in>set (elems d 0 (Suc idx)). \<not> bt r e'" using Suc.prems(3) nbt by (auto simp: e)
      then have "\<exists>i s' e. minmax_loop compar flag d n (Suc idx) res (snd ?c) = Some (i, s') \<and> held d i = Some e \<and>
          (i = res \<or> Suc idx \<le> i \<and> i < Suc idx + n) \<and> (\<forall>e'\<in>set (elems d 0 (Suc idx + n)). \<not> bt e e')"
        using Suc.prems(1,2) by (intro Suc.IH) auto
      moreover have "minmax_loop compar flag d (Suc n) idx res s = minmax_loop compar flag d n (Suc idx) res (snd ?c)"
        using p q(1) False nbt c by (simp add: case_prod_unfold Let_def)
      ultimately show ?thesis by fastforce
    qed
  qed
qed

lemma next_live_first:
  "(\<And>j. i \<le> j \<Longrightarrow> j < used \<Longrightarrow> bucket_in d j \<noteq> None) \<Longrightarrow> i \<le> used \<Longrightarrow>
   \<exists>n. next_live d used i = Some n \<and> i \<le> n \<and> n \<le> used \<and> elems d i (n - i) = [] \<and> (n < used \<longrightarrow> held d n \<noteq> None)"
proof (induction "used - i" arbitrary: i)
  case 0
  then show ?case by (subst next_live.simps) auto
next
  case (Suc m)
  then have i: "i < used" by simp
  obtain b where b: "bucket_in d i = Some b" using Suc.prems(1) [of i] i by auto
  show ?case
  proof (cases "b_val b = IS_UNDEF")
    case True
    have "\<exists>n. next_live d used (Suc i) = Some n \<and> Suc i \<le> n \<and> n \<le> used \<and> elems d (Suc i) (n - Suc i) = [] \<and>
        (n < used \<longrightarrow> held d n \<noteq> None)"
      using Suc.hyps(2) i by (intro Suc.hyps(1) Suc.prems(1)) simp_all
    then obtain n where n: "next_live d used (Suc i) = Some n" "Suc i \<le> n" "n \<le> used" "elems d (Suc i) (n - Suc i) = []"
      "n < used \<longrightarrow> held d n \<noteq> None" by blast
    have "n - i = Suc (n - Suc i)" using n(2) by simp
    then have "elems d i (n - i) = []" using n(4) b True by (simp add: elems_Suc held_def)
    then show ?thesis using n i b True by (subst next_live.simps) auto
  next
    case False
    then show ?thesis using i b by (subst next_live.simps) (auto simp: held_of_bucket)
  qed
qed

text \<open>The search for the least or the greatest element of an array, with a consistent comparison, ends;
  it finds nothing exactly in an empty array, and otherwise the place of an element that no element of
  the array beats.\<close>

theorem zend_hash_minmax_correct:
  assumes "ht_ok ht" "weak_order bt"
    "\<forall>s p q. (if flag then fst (compar s p q) < 0 else fst (compar s p q) > 0) = bt (b_entry p) (b_entry q)"
  shows "\<exists>r s'. zend_hash_minmax compar flag s ht = Some (r, s') \<and>
    (case r of None \<Rightarrow> ht_elems ht = []
     | Some i \<Rightarrow> \<exists>e. i < unat (nNumUsed ht) \<and> held (arData ht) i = Some e \<and> (\<forall>e'\<in>set (ht_elems ht). \<not> bt e e'))"
proof (cases "nNumOfElements ht = 0")
  case True
  have "ht_elems ht = []" if "contents_ok k ht" for k using contents_bounds(4) [OF that] True by simp
  then show ?thesis using assms(1) True by (auto elim!: ht_okE simp: zend_hash_minmax_def)
next
  case False
  obtain k where c: "contents_ok k ht" using assms(1) False by (auto elim!: ht_okE simp: fresh_ok_def)
  let ?d = "arData ht" and ?n = "unat (nNumUsed ht)"
  have init: "bucket_in ?d j \<noteq> None" if "j < ?n" for j using c that by (simp add: contents_ok_def)
  obtain n where n: "next_live ?d ?n 0 = Some n" "n \<le> ?n" "elems ?d 0 n = []" "n < ?n \<longrightarrow> held ?d n \<noteq> None"
    using next_live_first [of 0 ?n ?d] init by auto
  show ?thesis
  proof (cases "n = ?n")
    case True
    then show ?thesis using n(1,3) False by (auto simp: zend_hash_minmax_def ht_elems_def Let_def)
  next
    case less: False
    then obtain r where r: "held ?d n = Some r" using n(2,4) by fastforce
    have "\<exists>i s' e. minmax_loop compar flag ?d (?n - n) n n s = Some (i, s') \<and> held ?d i = Some e \<and>
      (i = n \<or> n \<le> i \<and> i < n + (?n - n)) \<and> (\<forall>e'\<in>set (elems ?d 0 (n + (?n - n))). \<not> bt e e')"
      using n(2,3) init r by (intro minmax_loop_ok [OF assms(2,3)]) auto
    then obtain i s' e where "minmax_loop compar flag ?d (?n - n) n n s = Some (i, s')" "held ?d i = Some e" "i < ?n"
      "\<forall>e'\<in>set (ht_elems ht). \<not> bt e e'"
      using n(2) less by (auto simp: ht_elems_def)
    then show ?thesis using n(1) less False by (simp add: zend_hash_minmax_def Let_def)
  qed
qed

subsection \<open>Comparing\<close>

lemma memcmp_zero: "length xs = length ys \<Longrightarrow> memcmp xs ys = 0 \<longleftrightarrow> xs = ys"
  by (induction xs ys rule: memcmp.induct) auto

lemma three_way_zero [simp]: "three_way x y = 0 \<longleftrightarrow> x = y"
  by (simp add: three_way_def)

lemma compare_keys_zero: "compare_keys p q = 0 \<longleftrightarrow> entry_key (b_entry p) = entry_key (b_entry q)"
  using memcmp_zero by (auto simp: compare_keys_def b_entry_def split: option.splits)

text \<open>Two values that the comparison takes for the same.\<close>

definition same_data :: "('v zval \<Rightarrow> 'v zval \<Rightarrow> int) \<Rightarrow> (nat \<Rightarrow> 'v zval) \<Rightarrow> (nat \<Rightarrow> 'v zval) \<Rightarrow> 'v zval \<Rightarrow> 'v zval \<Rightarrow> bool" where
  "same_data c slots1 slots2 v1 v2 \<longleftrightarrow>
     (let d1 = z_indirect slots1 v1; d2 = z_indirect slots2 v2
      in if d1 = IS_UNDEF \<or> d2 = IS_UNDEF then d1 = d2 else c d1 d2 = 0)"

lemma compare_data_zero:
  assumes "\<forall>s v w. fst (compar s v w) = c v w"
  shows "fst (compare_data compar sl1 sl2 s v w) = 0 \<longleftrightarrow> same_data c sl1 sl2 v w"
  using assms by (simp add: compare_data_def same_data_def Let_def)

definition same_entry :: "('v zval \<Rightarrow> 'v zval \<Rightarrow> int) \<Rightarrow> (nat \<Rightarrow> 'v zval) \<Rightarrow> (nat \<Rightarrow> 'v zval) \<Rightarrow> hkey \<times> 'v zval \<Rightarrow> hkey \<times> 'v zval \<Rightarrow> bool" where
  "same_entry c sl1 sl2 x y \<longleftrightarrow> fst x = fst y \<and> same_data c sl1 sl2 (snd x) (snd y)"

lemma compare_ordered:
  assumes c: "\<forall>s v w. fst (compar s v w) = c v w"
    and "\<forall>m\<in>{i..<i + n}. bucket_in (arData ht1) m \<noteq> None" "\<forall>m<unat (nNumUsed ht2). bucket_in (arData ht2) m \<noteq> None"
    "j \<le> unat (nNumUsed ht2)" "length (elems (arData ht1) i n) = length (elems (arData ht2) j (unat (nNumUsed ht2) - j))"
  shows "\<exists>r s'. compare_loop compar True ht1 n i j s ht2 = Some (r, s', ht2) \<and> (r = 0 \<longleftrightarrow>
    list_all2 (\<lambda>e e'. same_entry c (ht_slots ht1) (ht_slots ht2) (entry_key e, fst e) (entry_key e', fst e'))
      (elems (arData ht1) i n) (elems (arData ht2) j (unat (nNumUsed ht2) - j)))"
  using assms(2-)
proof (induction n arbitrary: i j s)
  case 0
  then show ?case by simp
next
  case (Suc n)
  let ?u = "unat (nNumUsed ht2)" and ?d = "arData ht2"
  obtain p where p: "bucket_in (arData ht1) i = Some p" using Suc.prems(1) by fastforce
  show ?case
  proof (cases "b_val p = IS_UNDEF")
    case True
    then have e: "elems (arData ht1) i (Suc n) = elems (arData ht1) (Suc i) n" using p by (simp add: elems_Suc held_def)
    show ?thesis using Suc.IH [of "Suc i" j s] Suc.prems p True unfolding e by auto
  next
    case False
    then have e: "elems (arData ht1) i (Suc n) = b_entry p # elems (arData ht1) (Suc i) n"
      using p by (simp add: elems_Suc held_def b_entry_def)
    obtain m where m: "next_live ?d ?u j = Some m" "j \<le> m" "m \<le> ?u" "elems ?d j (m - j) = []" "m < ?u \<longrightarrow> held ?d m \<noteq> None"
      using next_live_first [of j ?u ?d] Suc.prems(2,3) by auto
    have split: "elems ?d j (?u - j) = elems ?d m (?u - m)"
      using elems_append [of ?d j "m - j" "?u - m"] m(2-4) by simp
    have "m \<noteq> ?u" using Suc.prems(4) e split by auto
    then have less: "m < ?u" using m(3) by simp
    then obtain q where q: "bucket_in ?d m = Some q" "b_val q \<noteq> IS_UNDEF"
      using m(5) by (auto simp: held_def split: option.splits if_splits)
    have "?u - m = Suc (?u - Suc m)" using less by simp
    then have e2: "elems ?d j (?u - j) = b_entry q # elems ?d (Suc m) (?u - Suc m)"
      unfolding split using q by (simp add: elems_Suc held_def b_entry_def)
    let ?c = "compare_data compar (ht_slots ht1) (ht_slots ht2) s (b_val p) (b_val q)"
    have z: "fst ?c = 0 \<longleftrightarrow> same_data c (ht_slots ht1) (ht_slots ht2) (b_val p) (b_val q)" by (rule compare_data_zero [OF c])
    show ?thesis
      using Suc.IH [of "Suc i" "Suc m" "snd ?c"] Suc.prems p q False m(1) less e e2 z compare_keys_zero [of p q]
      by (auto simp: same_entry_def b_entry_def case_prod_unfold Let_def)
  qed
qed

text \<open>The lookup of the comparison.\<close>

lemma compare_lookup:
  assumes ok: "ht_ok ht" and key: "\<forall>key. b_key p = Some key \<longrightarrow> zstr_ok key \<and> addr_ok ht key"
  obtains r evs where "(case b_key p of None \<Rightarrow> index_lookup ht (b_h p) | Some key \<Rightarrow> zend_hash_find ht key) =
      Some (r, log_event evs ht)"
    "case r of None \<Rightarrow> map_of (ht_list ht) (entry_key (b_entry p)) = None
     | Some idx \<Rightarrow> \<exists>p2. bucket_in (arData ht) (unat idx) = Some p2 \<and> map_of (ht_list ht) (entry_key (b_entry p)) = Some (b_val p2)"
proof -
  let ?q = "entry_key (b_entry p)"
  let ?r = "map_option word_of_nat (index_of ht ?q) :: u32 option"
  have found: "case ?r of None \<Rightarrow> map_of (ht_list ht) ?q = None
     | Some idx \<Rightarrow> \<exists>p2. bucket_in (arData ht) (unat idx) = Some p2 \<and> map_of (ht_list ht) ?q = Some (b_val p2)"
  proof (cases "index_of ht ?q")
    case None
    then show ?thesis using found_value [OF ok refl, of ?q] by simp
  next
    case (Some i)
    then have "index_of ht ?q \<noteq> None" by simp
    then have "map_of (ht_list ht) ?q \<noteq> None" unfolding index_of_None by (simp add: map_of_eq_None_iff)
    then show ?thesis using found_value [OF ok refl, of ?q] Some by auto
  qed
  have "\<exists>evs. (case b_key p of None \<Rightarrow> index_lookup ht (b_h p) | Some key \<Rightarrow> zend_hash_find ht key) = Some (?r, log_event evs ht)"
  proof (cases "b_key p")
    case None
    have "log_event [] ht = ht" by (simp add: log_event_def)
    then show ?thesis using None index_find_ok [OF ok, of "b_h p"]
      by (intro exI [of _ "[]"]) (simp add: index_lookup_def b_entry_def)
  next
    case (Some key)
    then have k: "zstr_ok key" "addr_ok ht key" using key by simp_all
    show ?thesis using find_bucket_ok [OF ok k] Some by (metis b_entry_def entry_key.simps(1) option.simps(5) zend_hash_find_def)
  qed
  then show thesis using that found by blast
qed

definition strings_ok :: "'v hashtable \<Rightarrow> 'v hashtable \<Rightarrow> bool" where
  "strings_ok ht1 ht2 \<longleftrightarrow> list_all (\<lambda>(v, h, k). case k of Some key \<Rightarrow> zstr_ok key \<and> addr_ok ht2 key | None \<Rightarrow> True) (ht_elems ht1)"

lemma compare_unordered:
  assumes c: "\<forall>s v w. fst (compar s v w) = c v w" and ok: "ht_ok ht2"
    and "\<forall>m\<in>{i..<i + n}. bucket_in (arData ht1) m \<noteq> None"
    "list_all (\<lambda>(v, h, k). case k of Some key \<Rightarrow> zstr_ok key \<and> addr_ok ht2 key | None \<Rightarrow> True) (elems (arData ht1) i n)"
  shows "\<exists>r s' evs. compare_loop compar False ht1 n i j s (log_event evs0 ht2) = Some (r, s', log_event evs ht2) \<and> (r = 0 \<longleftrightarrow>
    (\<forall>e\<in>set (elems (arData ht1) i n). \<exists>w. map_of (ht_list ht2) (entry_key e) = Some w \<and>
       same_data c (ht_slots ht1) (ht_slots ht2) (fst e) w))"
  using assms(3-)
proof (induction n arbitrary: i s evs0)
  case 0
  then show ?case by (intro exI [of _ 0] exI [of _ s] exI [of _ evs0]) simp
next
  case (Suc n)
  obtain p where p: "bucket_in (arData ht1) i = Some p" using Suc.prems(1) by fastforce
  show ?case
  proof (cases "b_val p = IS_UNDEF")
    case True
    then have e: "elems (arData ht1) i (Suc n) = elems (arData ht1) (Suc i) n" using p by (simp add: elems_Suc held_def)
    have "list_all (\<lambda>(v, h, k). case k of Some key \<Rightarrow> zstr_ok key \<and> addr_ok ht2 key | None \<Rightarrow> True) (elems (arData ht1) (Suc i) n)"
      using Suc.prems(2) unfolding e .
    moreover have "compare_loop compar False ht1 (Suc n) i j s (log_event evs0 ht2) =
        compare_loop compar False ht1 n (Suc i) j s (log_event evs0 ht2)" using p True by simp
    ultimately show ?thesis unfolding e using Suc.IH [of "Suc i" s evs0] Suc.prems(1) by simp
  next
    case False
    then have e: "elems (arData ht1) i (Suc n) = b_entry p # elems (arData ht1) (Suc i) n"
      using p by (simp add: elems_Suc held_def b_entry_def)
    let ?ht = "log_event evs0 ht2" and ?L = "case b_key p of None \<Rightarrow> index_lookup (log_event evs0 ht2) (b_h p)
      | Some key \<Rightarrow> zend_hash_find (log_event evs0 ht2) key"
    have ok': "ht_ok ?ht" using ok by simp
    have key: "\<forall>key. b_key p = Some key \<longrightarrow> zstr_ok key \<and> addr_ok ?ht key"
      using Suc.prems(2) unfolding e by (auto simp: b_entry_def addr_ok_def)
    obtain r evs1 where l: "?L = Some (r, log_event evs1 ?ht)" and
      f: "case r of None \<Rightarrow> map_of (ht_list ?ht) (entry_key (b_entry p)) = None
       | Some idx \<Rightarrow> \<exists>p2. bucket_in (arData ?ht) (unat idx) = Some p2 \<and> map_of (ht_list ?ht) (entry_key (b_entry p)) = Some (b_val p2)"
      using compare_lookup [OF ok' key] by blast
    have lg: "log_event evs1 ?ht = log_event (evs0 @ evs1) ht2" by (simp add: log_event_def)
    have fr: "arData (log_event x ht2) = arData ht2" "ht_slots (log_event x ht2) = ht_slots ht2" for x
      by (simp_all add: log_event_def)
    have step: "compare_loop compar False ht1 (Suc n) i j s ?ht =
      (case r of None \<Rightarrow> Some (1, s, log_event (evs0 @ evs1) ht2)
       | Some idx \<Rightarrow> do { p2 \<leftarrow> bucket_in (arData ht2) (unat idx);
           let (r, s) = compare_data compar (ht_slots ht1) (ht_slots ht2) s (b_val p) (b_val p2);
           if r \<noteq> 0 then Some (r, s, log_event (evs0 @ evs1) ht2)
           else compare_loop compar False ht1 n (Suc i) j s (log_event (evs0 @ evs1) ht2) })"
      using p False l unfolding lg by (simp add: fr cong: option.case_cong)
    show ?thesis
    proof (cases r)
      case None
      then have "map_of (ht_list ht2) (entry_key (b_entry p)) = None" using f by simp
      then show ?thesis unfolding step e using None
        by (intro exI [of _ 1] exI [of _ s] exI [of _ "evs0 @ evs1"]) simp
    next
      case (Some idx)
      then obtain p2 where p2: "bucket_in (arData ht2) (unat idx) = Some p2"
        "map_of (ht_list ht2) (entry_key (b_entry p)) = Some (b_val p2)" using f by (auto simp: fr)
      let ?c = "compare_data compar (ht_slots ht1) (ht_slots ht2) s (b_val p) (b_val p2)"
      have z: "fst ?c = 0 \<longleftrightarrow> same_data c (ht_slots ht1) (ht_slots ht2) (fst (b_entry p)) (b_val p2)"
        using compare_data_zero [OF c] by (simp add: b_entry_def)
      have rest: "list_all (\<lambda>(v, h, k). case k of Some key \<Rightarrow> zstr_ok key \<and> addr_ok ht2 key | None \<Rightarrow> True) (elems (arData ht1) (Suc i) n)"
        using Suc.prems(2) unfolding e by simp
      show ?thesis
      proof (cases "fst ?c = 0")
        case True
        then show ?thesis unfolding step e
          using Some p2 z Suc.IH [OF _ rest, of "snd ?c" "evs0 @ evs1"] Suc.prems(1) by (simp add: case_prod_unfold)
      next
        case ne: False
        then show ?thesis unfolding step e using Some p2 z
          by (intro exI [of _ "fst ?c"] exI [of _ "snd ?c"] exI [of _ "evs0 @ evs1"]) (simp add: case_prod_unfold Let_def)
      qed
    qed
  qed
qed

lemma same_maps:
  assumes "distinct (map fst xs)" "distinct (map fst ys)"
  shows "(length xs = length ys \<and> (\<forall>(q, v)\<in>set xs. \<exists>w. map_of ys q = Some w \<and> R v w)) \<longleftrightarrow>
    (\<forall>q. rel_option R (map_of xs q) (map_of ys q))"
proof -
  have len: "length zs = card (dom (map_of zs))" if "distinct (map fst zs)" for zs :: "('x \<times> 'y) list"
    using distinct_card [OF that] by (simp add: dom_map_of_conv_image_fst)
  have fin: "finite (dom (map_of zs))" for zs :: "('x \<times> 'y) list" by (rule finite_dom_map_of)
  show ?thesis
  proof
    assume l: "length xs = length ys \<and> (\<forall>(q, v)\<in>set xs. \<exists>w. map_of ys q = Some w \<and> R v w)"
    then have sub: "dom (map_of xs) \<subseteq> dom (map_of ys)" by (fastforce dest: map_of_SomeD)
    have "dom (map_of xs) = dom (map_of ys)"
      using l len [OF assms(1)] len [OF assms(2)] by (intro card_subset_eq fin sub) simp
    have "rel_option R (map_of xs q) (map_of ys q)" for q
    proof (cases "map_of xs q")
      case None
      then have "map_of ys q = None" using \<open>dom (map_of xs) = dom (map_of ys)\<close> by (metis domIff)
      then show ?thesis using None by simp
    next
      case (Some v)
      then have "(q, v) \<in> set xs" by (rule map_of_SomeD)
      then show ?thesis using l Some by fastforce
    qed
    then show "\<forall>q. rel_option R (map_of xs q) (map_of ys q)" by simp
  next
    assume r: "\<forall>q. rel_option R (map_of xs q) (map_of ys q)"
    have "map_of xs q = None \<longleftrightarrow> map_of ys q = None" for q
      using r [rule_format, of q] by (auto elim: option.rel_cases)
    then have "dom (map_of xs) = dom (map_of ys)" by (simp add: dom_def)
    moreover have "\<exists>w. map_of ys q = Some w \<and> R v w" if "(q, v) \<in> set xs" for q v
      using r [rule_format, of q] map_of_is_SomeI [OF assms(1) that] by (auto simp: option_rel_Some1)
    ultimately show "length xs = length ys \<and> (\<forall>(q, v)\<in>set xs. \<exists>w. map_of ys q = Some w \<and> R v w)"
      using len [OF assms(1)] len [OF assms(2)] by auto
  qed
qed

text \<open>The same arrays for \<open>===\<close> and for \<open>==\<close>.\<close>

definition same_arrays :: "bool \<Rightarrow> ('v zval \<Rightarrow> 'v zval \<Rightarrow> int) \<Rightarrow> 'v hashtable \<Rightarrow> 'v hashtable \<Rightarrow> bool" where
  "same_arrays ordered c ht1 ht2 \<longleftrightarrow>
     (if ordered then list_all2 (same_entry c (ht_slots ht1) (ht_slots ht2)) (ht_list ht1) (ht_list ht2)
      else \<forall>q. rel_option (same_data c (ht_slots ht1) (ht_slots ht2)) (map_of (ht_list ht1) q) (map_of (ht_list ht2) q))"

lemma length_ht_list [simp]: "length (ht_list ht) = length (ht_elems ht)"
  by (simp add: ht_list_def)

lemma same_arrays_length:
  assumes "ht_ok ht1" "ht_ok ht2" "same_arrays ordered c ht1 ht2"
  shows "length (ht_elems ht1) = length (ht_elems ht2)"
proof (cases ordered)
  case True
  then show ?thesis using assms(3) list_all2_lengthD [of _ "ht_list ht1" "ht_list ht2"] by (simp add: same_arrays_def)
next
  case False
  then show ?thesis
    using assms(3) same_maps [OF ht_okD(3) [OF assms(1)] ht_okD(3) [OF assms(2)], of "same_data c (ht_slots ht1) (ht_slots ht2)"]
    by (simp add: same_arrays_def)
qed

text \<open>C38: comparing two arrays returns, changes neither of them but for what the lookups report, and gives 0
  exactly for the same arrays: in order with the same keys at the same places, without order with the
  same keys, and with values the comparison takes for the same.\<close>

theorem zend_hash_compare_correct:
  assumes "ht_ok ht1" "ht_ok ht2" "strings_ok ht1 ht2" "\<forall>s v w. fst (compar s v w) = c v w"
  shows "\<exists>r s' evs. zend_hash_compare compar ordered False False ht1 s ht2 = Some (r, s', log_event evs ht2) \<and>
    (r = 0 \<longleftrightarrow> same_arrays ordered c ht1 ht2)"
proof (cases "length (ht_elems ht1) = length (ht_elems ht2)")
  case False
  then have "nNumOfElements ht1 \<noteq> nNumOfElements ht2" using ht_okD(1) [OF assms(1)] ht_okD(1) [OF assms(2)] by auto
  then show ?thesis using False same_arrays_length [OF assms(1,2)]
    by (intro exI [of _ "three_way (nNumOfElements ht1) (nNumOfElements ht2)"] exI [of _ s] exI [of _ "[]"])
      (auto simp: zend_hash_compare_def zend_hash_compare_impl_def log_event_def)
next
  case True
  then have n: "nNumOfElements ht1 = nNumOfElements ht2"
    using ht_okD(1) [OF assms(1)] ht_okD(1) [OF assms(2)] by (simp add: word_unat_eq_iff)
  let ?u1 = "unat (nNumUsed ht1)" and ?u2 = "unat (nNumUsed ht2)"
  have init: "\<forall>m\<in>{0..<0 + ?u1}. bucket_in (arData ht1) m \<noteq> None" "\<forall>m<?u2. bucket_in (arData ht2) m \<noteq> None"
    using ht_okD(2) [OF assms(1)] ht_okD(2) [OF assms(2)] by simp_all
  have id: "log_event [] ht2 = ht2" by (simp add: log_event_def)
  show ?thesis
  proof (cases ordered)
    case o: True
    have "length (elems (arData ht1) 0 ?u1) = length (elems (arData ht2) 0 (?u2 - 0))" using True by (simp add: ht_elems_def)
    then obtain r s' where "compare_loop compar True ht1 ?u1 0 0 s ht2 = Some (r, s', ht2)" "r = 0 \<longleftrightarrow>
      list_all2 (\<lambda>e e'. same_entry c (ht_slots ht1) (ht_slots ht2) (entry_key e, fst e) (entry_key e', fst e'))
        (elems (arData ht1) 0 ?u1) (elems (arData ht2) 0 (?u2 - 0))"
      using compare_ordered [OF assms(4) init le0, of s] by blast
    then show ?thesis using o n id
      by (intro exI [of _ r] exI [of _ s'] exI [of _ "[]"])
        (simp add: zend_hash_compare_def zend_hash_compare_impl_def same_arrays_def ht_list_def list.rel_map ht_elems_def)
  next
    case u: False
    obtain r s' evs where "compare_loop compar False ht1 ?u1 0 0 s (log_event [] ht2) = Some (r, s', log_event evs ht2)"
      "r = 0 \<longleftrightarrow> (\<forall>e\<in>set (elems (arData ht1) 0 ?u1). \<exists>w. map_of (ht_list ht2) (entry_key e) = Some w \<and>
         same_data c (ht_slots ht1) (ht_slots ht2) (fst e) w)"
      using compare_unordered [OF assms(4,2) init(1), of 0 s "[]"] assms(3) unfolding strings_ok_def ht_elems_def by blast
    moreover have "same_arrays False c ht1 ht2 \<longleftrightarrow> (\<forall>e\<in>set (elems (arData ht1) 0 ?u1). \<exists>w. map_of (ht_list ht2) (entry_key e) = Some w \<and>
         same_data c (ht_slots ht1) (ht_slots ht2) (fst e) w)"
      using same_maps [OF ht_okD(3) [OF assms(1)] ht_okD(3) [OF assms(2)], of "same_data c (ht_slots ht1) (ht_slots ht2)"] True
      by (simp add: same_arrays_def ht_list_def [of ht1] ht_elems_def [of ht1])
    ultimately show ?thesis using u n unfolding id
      by (intro exI [of _ r] exI [of _ s'] exI [of _ evs])
        (simp add: zend_hash_compare_def zend_hash_compare_impl_def)
  qed
qed

subsection \<open>At work\<close>

theorem zend_hash_minmax_correct_witness:
  "\<exists>r s'. zend_hash_minmax ex_compar False () ex_table = Some (r, s') \<and>
    (case r of None \<Rightarrow> ht_elems ex_table = []
     | Some i \<Rightarrow> \<exists>e. i < unat (nNumUsed ex_table) \<and> held (arData ex_table) i = Some e \<and>
         (\<forall>e'\<in>set (ht_elems ex_table). \<not> ex_less (fst e) (fst e')))"
  using zend_hash_minmax_correct [OF ex_table_ok(1) ex_less_order(2), of False ex_compar "()"]
  by (simp add: b_entry_def)

lemma ex_strings_ok: "strings_ok ex_table ex_table"
  by code_simp

theorem zend_hash_compare_correct_witness:
  "\<exists>r s' evs. zend_hash_compare (\<lambda>s v w. (if v = w then 0 else 1, s)) False False False ex_table () ex_table =
      Some (r, s', log_event evs ex_table) \<and>
    (r = 0 \<longleftrightarrow> same_arrays False (\<lambda>v w. if v = w then 0 else 1) ex_table ex_table)"
  using zend_hash_compare_correct [OF ex_table_ok(1) ex_table_ok(1) ex_strings_ok,
      of "\<lambda>s v w. (if v = w then 0 else 1, s)" "\<lambda>v w. if v = w then 0 else 1" False "()"] by simp

end
