(* ===== verification/Zend_Hash_Dup_Correct.thy ===== *)
theory Zend_Hash_Dup_Correct
  imports Zend_Hash_Compare_Correct
begin

text \<open>
  A copy of an array, as every write to a shared array makes one, is well-formed and has the same
  elements, and its internal pointer is at the copy of the current element.
\<close>

subsection \<open>Copied elements\<close>

text \<open>What becomes of an element: indirect elements of hash arrays are replaced by the values of their
  variables, and are left out when there is none.\<close>

definition dup_entry ::
    "('v \<Rightarrow> 'v option) \<Rightarrow> bool \<Rightarrow> (nat \<Rightarrow> 'v zval) \<Rightarrow> 'v zval \<times> u64 \<times> zend_string option \<Rightarrow>
     ('v zval \<times> u64 \<times> zend_string option) option" where
  "dup_entry sole_ref packed slots e =
     (let data = (if packed then fst e else z_indirect slots (fst e))
      in if data = IS_UNDEF then None else Some (dup_value sole_ref data, snd e))"

definition dup_entries ::
    "('v \<Rightarrow> 'v option) \<Rightarrow> 'v hashtable \<Rightarrow> ('v zval \<times> u64 \<times> zend_string option) list \<Rightarrow>
     ('v zval \<times> u64 \<times> zend_string option) list" where
  "dup_entries sole_ref source = List.map_filter (dup_entry sole_ref (f_packed source) (ht_slots source))"

lemma dup_value_undef [simp]: "dup_value sole_ref v = IS_UNDEF \<longleftrightarrow> v = IS_UNDEF"
  by (auto simp: dup_value_def split: zval.splits option.splits)

lemma z_indirect_undef [simp]: "z_indirect slots IS_UNDEF = IS_UNDEF"
  by (simp add: z_indirect_def)

lemma map_filter_append [simp]: "List.map_filter f (xs @ ys) = List.map_filter f xs @ List.map_filter f ys"
  by (simp add: List.map_filter_def)

lemma map_filter_bind: "List.map_filter f (List.map_filter g xs) = List.map_filter (\<lambda>x. Option.bind (g x) f) xs"
  by (induction xs) (auto simp: map_filter_simps split: option.splits)

lemma dup_entries_simps [simp]:
  "dup_entries so src [] = []" "dup_entries so src (xs @ ys) = dup_entries so src xs @ dup_entries so src ys"
  "dup_entries so src (x # xs) = (case dup_entry so (f_packed src) (ht_slots src) x of None \<Rightarrow> [] | Some y \<Rightarrow> [y]) @ dup_entries so src xs"
  by (auto simp: dup_entries_def map_filter_simps split: option.splits)

lemma dup_entries_key: "dup_entry so p slots e = Some e' \<Longrightarrow> entry_key e' = entry_key e \<and> entry_ok e' = entry_ok e"
proof -
  assume "dup_entry so p slots e = Some e'"
  then have "snd e' = snd e" by (auto simp: dup_entry_def Let_def split: if_splits)
  then show ?thesis by (cases e; cases e'; cases "snd (snd e)") auto
qed

lemma dup_entries_keys: "\<exists>P. map entry_key (dup_entries so src es) = map entry_key (filter P es)"
  by (rule exI [of _ "\<lambda>e. dup_entry so (f_packed src) (ht_slots src) e \<noteq> None"])
    (induction es, auto dest: dup_entries_key split: option.splits)

lemma dup_entries_ok:
  "distinct (map entry_key es) \<Longrightarrow> distinct (map entry_key (dup_entries so src es))"
  "list_all entry_ok es \<Longrightarrow> list_all entry_ok (dup_entries so src es)"
proof -
  show "distinct (map entry_key es) \<Longrightarrow> distinct (map entry_key (dup_entries so src es))"
    using dup_entries_keys [of so src es] distinct_map_filter by metis
  show "list_all entry_ok es \<Longrightarrow> list_all entry_ok (dup_entries so src es)"
    by (induction es) (auto dest: dup_entries_key split: option.splits)
qed

subsection \<open>Hash arrays\<close>

text \<open>One bucket.\<close>

lemma dup_element_eq:
  assumes "with_holes \<or> b_val p \<noteq> IS_UNDEF" "cells_ok t" "j < length (arData t)" "\<not> f_packed src"
  shows "zend_array_dup_element so (ht_slots src) t j p False with_holes =
    (if b_val p = IS_UNDEF then Some (False, t)
     else case dup_entry so (f_packed src) (ht_slots src) (b_entry p) of
       None \<Rightarrow> Some (False, t)
     | Some e \<Rightarrow> Some (True, t\<lparr>
         arData := (arData t)[j := Some \<lparr>b_val = fst e, b_next = arHash t ! slot_of t (b_h p), b_h = b_h p, b_key = b_key p\<rparr>],
         arHash := (arHash t)[slot_of t (b_h p) := word_of_nat j]\<rparr>))"
proof -
  have "dup_skips False with_holes (b_val p) (z_indirect (ht_slots src) (b_val p)) \<longleftrightarrow> z_indirect (ht_slots src) (b_val p) = IS_UNDEF"
    using assms(1) by (auto simp: dup_skips_def z_indirect_def split: zval.splits)
  then show ?thesis
    using link_bucket_eq [OF assms(2,3)] assms(4)
    by (auto simp: zend_array_dup_element_def dup_entry_def b_entry_def Let_def)
qed

text \<open>The copy is put at place \<open>j\<close>, which is in front of the places still to be read.\<close>

lemma dup_link:
  assumes "cells_ok t" "chains (slot_of t) (arData t) (arHash t) j" "j < length (arData t)" "j < 2 ^ 32 - 1"
    and e: "dup_entry so pk slots (b_entry p) = Some e"
  defines "d \<equiv> (arData t)[j := Some \<lparr>b_val = fst e, b_next = arHash t ! slot_of t (b_h p), b_h = b_h p, b_key = b_key p\<rparr>]"
    and "hs \<equiv> (arHash t)[slot_of t (b_h p) := word_of_nat j]"
  shows "chains (slot_of t) d hs (Suc j)" "elems d 0 (Suc j) = elems (arData t) 0 j @ [e]" "length d = length (arData t)"
    "length hs = length (arHash t)"
proof -
  let ?b = "\<lparr>b_val = fst e, b_next = 0, b_h = b_h p, b_key = b_key p\<rparr>"
  have live: "fst e \<noteq> IS_UNDEF" "snd e = (b_h p, b_key p)"
    using e by (auto simp: dup_entry_def b_entry_def Let_def split: if_splits)
  show "chains (slot_of t) d hs (Suc j)"
    using chains_link [OF assms(2,3,4), of ?b] live(1) assms(1) by (simp add: d_def hs_def cells_ok_def)
  have "elems d 0 j = elems (arData t) 0 j" unfolding d_def using assms(3) by (intro elems_cong) (simp add: held_update)
  moreover have "held d j = Some e" unfolding d_def using assms(3) live by (cases e) (simp add: held_update)
  ultimately show "elems d 0 (Suc j) = elems (arData t) 0 j @ [e]" by (simp add: elems_snoc)
  show "length d = length (arData t)" "length hs = length (arHash t)" by (simp_all add: d_def hs_def)
qed

text \<open>The place of the internal pointer: the element at place \<open>p\<close> is copied.\<close>

definition copied_at :: "('v \<Rightarrow> 'v option) \<Rightarrow> 'v hashtable \<Rightarrow> nat \<Rightarrow> bool" where
  "copied_at so src p = (case held (arData src) p of
     None \<Rightarrow> False | Some e \<Rightarrow> dup_entry so (f_packed src) (ht_slots src) e \<noteq> None)"

lemma dup_compact_ok:
  fixes so :: "'v \<Rightarrow> 'v option" and src t :: "'v hashtable"
  assumes "cells_ok t" "chains (slot_of t) (arData t) (arHash t) j" "\<not> f_packed src"
    "\<forall>m\<in>{i..<i + n}. bucket_in (arData src) m \<noteq> None" "with_holes \<or> (\<forall>m\<in>{i..<i + n}. held (arData src) m \<noteq> None)"
    "j \<le> i" "i + n \<le> length (arData t)" "i + n < 2 ^ 32" "length (elems (arData t) 0 j) = j"
  defines "new \<equiv> dup_entries so src (elems (arData src) i n)" and "p \<equiv> unat (nInternalPointer src)"
  shows "\<exists>d hs. dup_compact so src with_holes n i j t = Some (j + length new, t\<lparr>arData := d, arHash := hs,
      nInternalPointer := (if i \<le> p \<and> p < i + n \<and> copied_at so src p
        then word_of_nat (j + length (dup_entries so src (elems (arData src) i (p - i)))) else nInternalPointer t)\<rparr>) \<and>
    chains (slot_of t) d hs (j + length new) \<and> elems d 0 (j + length new) = elems (arData t) 0 j @ new \<and>
    length d = length (arData t) \<and> length hs = length (arHash t)"
  using assms(1-9) unfolding new_def p_def
proof (induction n arbitrary: i j t)
  case 0
  show ?case by (rule exI [of _ "arData t"], rule exI [of _ "arHash t"]) (use 0(2) in auto)
next
  case (Suc n)
  let ?p = "unat (nInternalPointer src)"
  obtain b where b: "bucket_in (arData src) i = Some b" using Suc.prems(4) by fastforce
  have "with_holes \<or> held (arData src) i \<noteq> None" using Suc.prems(5) by auto
  then have h: "with_holes \<or> b_val b \<noteq> IS_UNDEF" using b by (auto simp: held_def)
  have j: "j < length (arData t)" "j < 2 ^ 32 - 1" using Suc.prems(6,7,8) by simp_all
  have held: "held (arData src) i = (if b_val b = IS_UNDEF then None else Some (b_entry b))"
    using b by (simp add: held_def b_entry_def)
  note el = dup_element_eq [OF h Suc.prems(1) j(1) Suc.prems(3), of so]
  have split: "elems (arData src) i (?p - i) = (case held (arData src) i of Some e \<Rightarrow> [e] | None \<Rightarrow> []) @ elems (arData src) (Suc i) (?p - Suc i)"
    if "Suc i \<le> ?p" using that elems_Suc [of "arData src" i "?p - Suc i"] by (simp add: Suc_diff_Suc)
  show ?case
  proof (cases "b_val b = IS_UNDEF \<or> dup_entry so (f_packed src) (ht_slots src) (b_entry b) = None")
    case True
    then have skip: "dup_entries so src (case held (arData src) i of Some e \<Rightarrow> [e] | None \<Rightarrow> []) = []" "\<not> copied_at so src i"
      using held by (auto simp: copied_at_def)
    have step: "dup_compact so src with_holes (Suc n) i j t = dup_compact so src with_holes n (Suc i) j t"
      using b el True by auto
    have e: "dup_entries so src (elems (arData src) i (Suc n)) = dup_entries so src (elems (arData src) (Suc i) n)"
      using skip(1) by (simp add: elems_Suc)
    have ptr: "(if i \<le> ?p \<and> ?p < i + Suc n \<and> copied_at so src ?p
        then word_of_nat (j + length (dup_entries so src (elems (arData src) i (?p - i)))) else nInternalPointer t) =
      (if Suc i \<le> ?p \<and> ?p < Suc i + n \<and> copied_at so src ?p
        then word_of_nat (j + length (dup_entries so src (elems (arData src) (Suc i) (?p - Suc i)))) else nInternalPointer t)"
      using skip split by (cases "?p = i") auto
    have "\<forall>m\<in>{Suc i..<Suc i + n}. bucket_in (arData src) m \<noteq> None" "with_holes \<or> (\<forall>m\<in>{Suc i..<Suc i + n}. held (arData src) m \<noteq> None)"
      "j \<le> Suc i" "Suc i + n \<le> length (arData t)" "Suc i + n < 2 ^ 32" using Suc.prems(4-8) by auto
    then show ?thesis unfolding step e ptr using Suc.prems(9) by (rule Suc.IH [OF Suc.prems(1-3)])
  next
    case False
    then obtain e where e: "dup_entry so (f_packed src) (ht_slots src) (b_entry b) = Some e" by auto
    let ?d = "(arData t)[j := Some \<lparr>b_val = fst e, b_next = arHash t ! slot_of t (b_h b), b_h = b_h b, b_key = b_key b\<rparr>]"
    let ?hs = "(arHash t)[slot_of t (b_h b) := word_of_nat j]"
    let ?ip = "if nInternalPointer src = word_of_nat i then word_of_nat j else nInternalPointer t"
    let ?t = "t\<lparr>arData := ?d, arHash := ?hs, nInternalPointer := ?ip\<rparr>" and ?new = "dup_entries so src (elems (arData src) (Suc i) n)"
    note l = dup_link [OF Suc.prems(1,2) j e]
    have step: "dup_compact so src with_holes (Suc n) i j t = dup_compact so src with_holes n (Suc i) (Suc j) ?t"
      using b el False e by simp
    have one: "dup_entries so src (case held (arData src) i of Some e \<Rightarrow> [e] | None \<Rightarrow> []) = [e]" "copied_at so src i"
      using held e False by (auto simp: copied_at_def)
    have new: "dup_entries so src (elems (arData src) i (Suc n)) = e # dup_entries so src (elems (arData src) (Suc i) n)"
      using one(1) by (simp add: elems_Suc)
    have w: "nInternalPointer src = word_of_nat i \<longleftrightarrow> ?p = i" using Suc.prems(8) unat_of_nat32 [of i] by auto
    have ptr: "(if i \<le> ?p \<and> ?p < i + Suc n \<and> copied_at so src ?p
        then word_of_nat (j + length (dup_entries so src (elems (arData src) i (?p - i)))) else nInternalPointer t) =
      (if Suc i \<le> ?p \<and> ?p < Suc i + n \<and> copied_at so src ?p
        then word_of_nat (Suc j + length (dup_entries so src (elems (arData src) (Suc i) (?p - Suc i)))) else nInternalPointer ?t)"
      using one split w by (cases "?p = i") auto
    have "\<forall>m\<in>{Suc i..<Suc i + n}. bucket_in (arData src) m \<noteq> None" "with_holes \<or> (\<forall>m\<in>{Suc i..<Suc i + n}. held (arData src) m \<noteq> None)"
      "Suc j \<le> Suc i" "Suc i + n \<le> length (arData ?t)" "Suc i + n < 2 ^ 32" using Suc.prems(4-8) by auto
    moreover have "length (elems (arData ?t) 0 (Suc j)) = Suc j" using l(2) Suc.prems(9) by simp
    moreover have "cells_ok ?t" "chains (slot_of ?t) (arData ?t) (arHash ?t) (Suc j)"
      using Suc.prems(1) l by (simp_all add: cells_ok_def)
    ultimately obtain d hs where r: "dup_compact so src with_holes n (Suc i) (Suc j) ?t = Some (Suc j + length ?new,
        ?t\<lparr>arData := d, arHash := hs, nInternalPointer := (if Suc i \<le> ?p \<and> ?p < Suc i + n \<and> copied_at so src ?p
          then word_of_nat (Suc j + length (dup_entries so src (elems (arData src) (Suc i) (?p - Suc i)))) else nInternalPointer ?t)\<rparr>)"
      "chains (slot_of ?t) d hs (Suc j + length ?new)" "elems d 0 (Suc j + length ?new) = elems (arData ?t) 0 (Suc j) @ ?new"
      "length d = length (arData ?t)" "length hs = length (arHash ?t)"
      using Suc.IH [of ?t "Suc j" "Suc i"] Suc.prems(3) by blast
    then show ?thesis unfolding step new ptr using l by (intro exI [of _ d] exI [of _ hs]) simp
  qed
qed


lemma dup_elements_ok:
  fixes so :: "'v \<Rightarrow> 'v option" and src t :: "'v hashtable"
  assumes "cells_ok t" "chains (slot_of t) (arData t) (arHash t) i" "\<not> f_packed src"
    "\<forall>m\<in>{i..<i + n}. bucket_in (arData src) m \<noteq> None" "with_holes \<or> (\<forall>m\<in>{i..<i + n}. held (arData src) m \<noteq> None)"
    "i + n \<le> length (arData t)" "i + n < 2 ^ 32" "length (elems (arData t) 0 i) = i"
    "unat (nInternalPointer src) < i + n \<Longrightarrow> nInternalPointer t = nInternalPointer src"
  defines "new \<equiv> dup_entries so src (elems (arData src) i n)" and "p \<equiv> unat (nInternalPointer src)"
  shows "\<exists>d hs ip. dup_elements so src with_holes n i t = Some (i + length new, t\<lparr>arData := d, arHash := hs, nInternalPointer := ip\<rparr>) \<and>
    chains (slot_of t) d hs (i + length new) \<and> elems d 0 (i + length new) = elems (arData t) 0 i @ new \<and>
    length d = length (arData t) \<and> length hs = length (arHash t) \<and>
    (i \<le> p \<and> p < i + n \<and> copied_at so src p \<longrightarrow> ip = word_of_nat (i + length (dup_entries so src (elems (arData src) i (p - i))))) \<and>
    (p < i \<longrightarrow> ip = nInternalPointer t)"
  using assms(1-9) unfolding new_def p_def
proof (induction n arbitrary: i t)
  case 0
  show ?case
    by (rule exI [of _ "arData t"], rule exI [of _ "arHash t"], rule exI [of _ "nInternalPointer t"]) (use 0(2) in auto)
next
  case (Suc n)
  let ?p = "unat (nInternalPointer src)"
  obtain b where b: "bucket_in (arData src) i = Some b" using Suc.prems(4) by fastforce
  have "with_holes \<or> held (arData src) i \<noteq> None" using Suc.prems(5) by auto
  then have h: "with_holes \<or> b_val b \<noteq> IS_UNDEF" using b by (auto simp: held_def)
  have i: "i < length (arData t)" "i < 2 ^ 32 - 1" using Suc.prems(6,7) by simp_all
  have held: "held (arData src) i = (if b_val b = IS_UNDEF then None else Some (b_entry b))"
    using b by (simp add: held_def b_entry_def)
  note el = dup_element_eq [OF h Suc.prems(1) i(1) Suc.prems(3), of so]
  have split: "elems (arData src) i (?p - i) = (case held (arData src) i of Some e \<Rightarrow> [e] | None \<Rightarrow> []) @ elems (arData src) (Suc i) (?p - Suc i)"
    if "Suc i \<le> ?p" using that elems_Suc [of "arData src" i "?p - Suc i"] by (simp add: Suc_diff_Suc)
  show ?case
  proof (cases "b_val b = IS_UNDEF \<or> dup_entry so (f_packed src) (ht_slots src) (b_entry b) = None")
    case True
    then have skip: "dup_entries so src (case held (arData src) i of Some e \<Rightarrow> [e] | None \<Rightarrow> []) = []" "\<not> copied_at so src i"
      using held by (auto simp: copied_at_def)
    have step: "dup_elements so src with_holes (Suc n) i t = dup_compact so src with_holes n (Suc i) i t"
      using b el True by auto
    have e: "dup_entries so src (elems (arData src) i (Suc n)) = dup_entries so src (elems (arData src) (Suc i) n)"
      using skip(1) by (simp add: elems_Suc)
    have "\<forall>m\<in>{Suc i..<Suc i + n}. bucket_in (arData src) m \<noteq> None" "with_holes \<or> (\<forall>m\<in>{Suc i..<Suc i + n}. held (arData src) m \<noteq> None)"
      "i \<le> Suc i" "Suc i + n \<le> length (arData t)" "Suc i + n < 2 ^ 32" using Suc.prems(4-7) by auto
    let ?new = "dup_entries so src (elems (arData src) (Suc i) n)"
    let ?ip = "if Suc i \<le> ?p \<and> ?p < Suc i + n \<and> copied_at so src ?p
      then word_of_nat (i + length (dup_entries so src (elems (arData src) (Suc i) (?p - Suc i)))) else nInternalPointer t"
    obtain d hs where r: "dup_compact so src with_holes n (Suc i) i t =
        Some (i + length ?new, t\<lparr>arData := d, arHash := hs, nInternalPointer := ?ip\<rparr>)"
      "chains (slot_of t) d hs (i + length ?new)" "elems d 0 (i + length ?new) = elems (arData t) 0 i @ ?new"
      "length d = length (arData t)" "length hs = length (arHash t)"
      using dup_compact_ok [OF Suc.prems(1-3) \<open>\<forall>m\<in>{Suc i..<Suc i + n}. _\<close> \<open>with_holes \<or> (\<forall>m\<in>{Suc i..<Suc i + n}. _)\<close>
          \<open>i \<le> Suc i\<close> \<open>Suc i + n \<le> _\<close> \<open>Suc i + n < 2 ^ 32\<close> Suc.prems(8), of so]
      by (elim exE conjE) (rule that)
    have "i \<le> ?p \<and> ?p < i + Suc n \<and> copied_at so src ?p \<longrightarrow> ?ip = word_of_nat (i + length (dup_entries so src (elems (arData src) i (?p - i))))"
    proof (cases "?p = i")
      case False
      show ?thesis
      proof
        assume "i \<le> ?p \<and> ?p < i + Suc n \<and> copied_at so src ?p"
        then have p: "Suc i \<le> ?p" "?p < Suc i + n" "copied_at so src ?p" using False by simp_all
        then show "?ip = word_of_nat (i + length (dup_entries so src (elems (arData src) i (?p - i))))"
          using split [OF p(1)] skip(1) by simp
      qed
    qed (use skip(2) in simp)
    moreover have "?p < i \<longrightarrow> ?ip = nInternalPointer t" by simp
    ultimately show ?thesis unfolding step e using r by blast
  next
    case False
    then obtain e where e: "dup_entry so (f_packed src) (ht_slots src) (b_entry b) = Some e" by auto
    let ?d = "(arData t)[i := Some \<lparr>b_val = fst e, b_next = arHash t ! slot_of t (b_h b), b_h = b_h b, b_key = b_key b\<rparr>]"
    let ?hs = "(arHash t)[slot_of t (b_h b) := word_of_nat i]"
    let ?t = "t\<lparr>arData := ?d, arHash := ?hs\<rparr>" and ?new = "dup_entries so src (elems (arData src) (Suc i) n)"
    note l = dup_link [OF Suc.prems(1,2) i e]
    have step: "dup_elements so src with_holes (Suc n) i t = dup_elements so src with_holes n (Suc i) ?t"
      using b el False e by simp
    have one: "dup_entries so src (case held (arData src) i of Some e \<Rightarrow> [e] | None \<Rightarrow> []) = [e]"
      using held e False by auto
    have new: "dup_entries so src (elems (arData src) i (Suc n)) = e # ?new"
      using one by (simp add: elems_Suc)
    have "\<exists>d hs ip. dup_elements so src with_holes n (Suc i) ?t = Some (Suc i + length ?new, ?t\<lparr>arData := d, arHash := hs, nInternalPointer := ip\<rparr>) \<and>
      chains (slot_of ?t) d hs (Suc i + length ?new) \<and> elems d 0 (Suc i + length ?new) = elems (arData ?t) 0 (Suc i) @ ?new \<and>
      length d = length (arData ?t) \<and> length hs = length (arHash ?t) \<and>
      (Suc i \<le> ?p \<and> ?p < Suc i + n \<and> copied_at so src ?p \<longrightarrow>
        ip = word_of_nat (Suc i + length (dup_entries so src (elems (arData src) (Suc i) (?p - Suc i))))) \<and>
      (?p < Suc i \<longrightarrow> ip = nInternalPointer ?t)"
      using Suc.prems l by (intro Suc.IH) (auto simp: cells_ok_def)
    then obtain d hs ip where r: "dup_elements so src with_holes n (Suc i) ?t = Some (Suc i + length ?new, ?t\<lparr>arData := d, arHash := hs, nInternalPointer := ip\<rparr>)"
      "chains (slot_of t) d hs (Suc i + length ?new)" "elems d 0 (Suc i + length ?new) = elems ?d 0 (Suc i) @ ?new"
      "length d = length ?d" "length hs = length ?hs"
      "Suc i \<le> ?p \<and> ?p < Suc i + n \<and> copied_at so src ?p \<longrightarrow>
        ip = word_of_nat (Suc i + length (dup_entries so src (elems (arData src) (Suc i) (?p - Suc i))))"
      "?p < Suc i \<longrightarrow> ip = nInternalPointer t" by auto
    have word_of_nat_unat: "word_of_nat ?p = nInternalPointer src" by simp
    have "?p = i \<Longrightarrow> nInternalPointer t = word_of_nat i" using Suc.prems(9) word_of_nat_unat by simp
    then have "i \<le> ?p \<and> ?p < i + Suc n \<and> copied_at so src ?p \<longrightarrow> ip = word_of_nat (i + length (dup_entries so src (elems (arData src) i (?p - i))))"
      using r(6,7) split one by (cases "?p = i") auto
    moreover have "dup_elements so src with_holes n (Suc i) ?t = Some (i + length (e # ?new), t\<lparr>arData := d, arHash := hs, nInternalPointer := ip\<rparr>)"
      "chains (slot_of t) d hs (i + length (e # ?new))" using r(1,2) by simp_all
    moreover have "elems d 0 (i + length (e # ?new)) = elems (arData t) 0 i @ e # ?new" using r(3) l(2) by simp
    moreover have "length d = length (arData t)" "length hs = length (arHash t)" "?p < i \<longrightarrow> ip = nInternalPointer t" using r(4,5,7) l(3,4) by simp_all
    ultimately show ?thesis unfolding step new by blast
  qed
qed

subsection \<open>Packed arrays\<close>

lemma dup_packed_ok:
  assumes "f_packed src" "\<forall>m\<in>{i..<i + n}. bucket_in (arData src) m \<noteq> None"
    "with_holes \<or> (\<forall>m\<in>{i..<i + n}. held (arData src) m \<noteq> None)" "i + n \<le> length (arData t)"
    "\<forall>m\<in>{i..<i + n}. \<forall>v h k. held (arData src) m = Some (v, h, k) \<longrightarrow> k = None"
  shows "\<exists>d. dup_packed_elements so src with_holes n i t = Some (t\<lparr>arData := d\<rparr>) \<and> length d = length (arData t) \<and>
    (\<forall>m. bucket_in d m \<noteq> None \<longleftrightarrow> bucket_in (arData t) m \<noteq> None \<or> i \<le> m \<and> m < i + n) \<and>
    (\<forall>m. held d m = (if i \<le> m \<and> m < i + n then Option.bind (held (arData src) m) (dup_entry so True (ht_slots src)) else held (arData t) m))"
  using assms(2-5)
proof (induction n arbitrary: i t)
  case 0
  then show ?case by (intro exI [of _ "arData t"]) auto
next
  case (Suc n)
  obtain b where b: "bucket_in (arData src) i = Some b" using Suc.prems(1) by fastforce
  have i: "i < length (arData t)" using Suc.prems(3) by simp
  have "with_holes \<or> held (arData src) i \<noteq> None" using Suc.prems(2) by auto
  then have h: "with_holes \<or> b_val b \<noteq> IS_UNDEF" using b by (auto simp: held_def)
  have "\<forall>v h k. held (arData src) i = Some (v, h, k) \<longrightarrow> k = None" using bspec [OF Suc.prems(4), of i] by simp
  then have key: "b_val b \<noteq> IS_UNDEF \<Longrightarrow> b_key b = None" using b by (simp add: held_of_bucket)
  let ?b = "if b_val b = IS_UNDEF then (bucket_or_raw t i)\<lparr>b_val := IS_UNDEF\<rparr>
    else (bucket_or_raw t i)\<lparr>b_val := dup_value so (b_val b), b_h := b_h b, b_key := None\<rparr>"
  let ?t = "t\<lparr>arData := (arData t)[i := Some ?b]\<rparr>"
  have step: "dup_packed_elements so src with_holes (Suc n) i t = dup_packed_elements so src with_holes n (Suc i) ?t"
    using b h i by (auto simp: zend_array_dup_element_def dup_skips_def put_bucket_def Let_def)
  have one: "held (arData ?t) m = (if m = i then Option.bind (held (arData src) i) (dup_entry so True (ht_slots src)) else held (arData t) m)" for m
    using b i key by (auto simp: held_update held_of_bucket dup_entry_def)
  have "{Suc i..<Suc i + n} \<subseteq> {i..<i + Suc n}" "Suc i + n \<le> length (arData ?t)" using Suc.prems(3) by auto
  then have ih: "\<forall>m\<in>{Suc i..<Suc i + n}. bucket_in (arData src) m \<noteq> None" "with_holes \<or> (\<forall>m\<in>{Suc i..<Suc i + n}. held (arData src) m \<noteq> None)"
    "Suc i + n \<le> length (arData ?t)" "\<forall>m\<in>{Suc i..<Suc i + n}. \<forall>v h k. held (arData src) m = Some (v, h, k) \<longrightarrow> k = None"
    using Suc.prems(1,2,4) by blast+
  obtain d where d: "dup_packed_elements so src with_holes n (Suc i) ?t = Some (?t\<lparr>arData := d\<rparr>)" "length d = length (arData ?t)"
    "\<forall>m. bucket_in d m \<noteq> None \<longleftrightarrow> bucket_in (arData ?t) m \<noteq> None \<or> Suc i \<le> m \<and> m < Suc i + n"
    "\<forall>m. held d m = (if Suc i \<le> m \<and> m < Suc i + n then Option.bind (held (arData src) m) (dup_entry so True (ht_slots src)) else held (arData ?t) m)"
    using Suc.IH [OF ih] by blast
  have "bucket_in d m \<noteq> None \<longleftrightarrow> bucket_in (arData t) m \<noteq> None \<or> i \<le> m \<and> m < i + Suc n" for m
    using d(3) i by (cases "m = i") auto
  moreover have "held d m = (if i \<le> m \<and> m < i + Suc n then Option.bind (held (arData src) m) (dup_entry so True (ht_slots src)) else held (arData t) m)" for m
    using d(4) one [of m] by (cases "m = i") auto
  ultimately show ?case unfolding step using d(1,2) by (intro exI [of _ d]) simp
qed


subsection \<open>The copy\<close>

lemma dup_empty:
  assumes "ht_ok source" "nNumOfElements source = 0"
  shows "\<exists>t. zend_array_dup so immutable source = Some t \<and> ht_ok t \<and> ht_elems t = []"
  using assms
  by (auto simp: zend_array_dup_def dup_target_def ht_ok_def fresh_ok_def ht_elems_def intro!: exI [of _ 3])

lemma full_nth:
  assumes "length (elems d 0 u) = u" "i < u"
  shows "held d i = Some (elems d 0 u ! i)"
proof -
  have "elems d 0 u = elems d 0 i @ elems d i (u - i)" using elems_append [of d 0 i "u - i"] assms(2) by simp
  moreover have "length (elems d 0 i) = i" using assms length_elems_eq_iff [of d 0 u] length_elems_eq_iff [of d 0 i] by auto
  moreover obtain e where "held d i = Some e" using assms length_elems_eq_iff [of d 0 u] by fastforce
  moreover have "elems d i (u - i) = (case held d i of Some e \<Rightarrow> [e] | None \<Rightarrow> []) @ elems d (Suc i) (u - Suc i)"
    using elems_Suc [of d i "u - Suc i"] assms(2) by (simp add: Suc_diff_Suc)
  ultimately show ?thesis by (simp add: nth_append)
qed

text \<open>Where the internal pointer stands.\<close>

definition current_entry :: "'v hashtable \<Rightarrow> ('v zval \<times> u64 \<times> zend_string option) option" where
  "current_entry ht = (if nInternalPointer ht < nNumUsed ht then held (arData ht) (unat (nInternalPointer ht)) else None)"

lemma dup_hash:
  assumes h: "hash_ok k source" and n: "nNumOfElements source \<noteq> 0"
  shows "\<exists>t. zend_array_dup so False source = Some t \<and> hash_ok k t \<and> ht_elems t = dup_entries so source (ht_elems source) \<and>
    (\<forall>e. Option.bind (current_entry source) (dup_entry so False (ht_slots source)) = Some e \<longrightarrow> current_entry t = Some e)"
proof -
  let ?u = "unat (nNumUsed source)" and ?p = "unat (nInternalPointer source)" and ?es = "dup_entries so source (ht_elems source)"
  let ?wh = "nNumUsed source \<noteq> nNumOfElements source"
  let ?pos = "if nInternalPointer source < nNumUsed source then nInternalPointer source else 0"
  let ?t = "HT_HASH_RESET ((dup_target source)\<lparr>nInternalPointer := ?pos\<rparr>)"
  note hd = hash_okD [OF h]
  note b = contents_bounds [OF hd(1)]
  have u32: "?u < 2 ^ 32" using unat_u32_less [of "nNumUsed source"] by simp
  have len: "length (arData ?t) = 2 ^ k" "nTableMask ?t = - (2 ^ Suc k)" using b(5) hd(3) by (simp_all add: HT_HASH_RESET_def dup_target_def)
  have k: "k \<le> 30" using hd(1) by (simp add: contents_ok_def)
  have hs: "arHash ?t = replicate (2 ^ Suc k) HT_INVALID_IDX"
    using hd(3) k unat_exp32 [of "Suc k"] by (simp add: HT_HASH_RESET_def dup_target_def)
  have cells: "cells_ok ?t" using cell_of_less [of "Suc k"] len(2) hs by (simp add: cells_ok_def)
  have ch: "chains (slot_of ?t) (arData ?t) (arHash ?t) 0" unfolding hs by (rule chains_reset)
  have init: "\<forall>m\<in>{0..<0 + ?u}. bucket_in (arData source) m \<noteq> None" using hd(1) by (simp add: contents_ok_def)
  have holes: "?wh \<or> (\<forall>m\<in>{0..<0 + ?u}. held (arData source) m \<noteq> None)"
  proof (cases ?wh)
    case False
    then have "length (elems (arData source) 0 ?u) = ?u" using b(4) by (simp add: ht_elems_def)
    then show ?thesis unfolding length_elems_eq_iff by blast
  qed simp
  have "0 < length (ht_elems source)" using n b(4) by (metis unat_0_iff gr0I)
  then have "0 < ?u" using b(3) by linarith
  then have max: "max 1 ?u = ?u" by simp
  have "nInternalPointer ?t = nInternalPointer source" if "?p < 0 + ?u" using that by (simp add: HT_HASH_RESET_def word_less_nat_alt)
  then obtain d hs ip where r: "dup_elements so source ?wh ?u 0 ?t = Some (length ?es, ?t\<lparr>arData := d, arHash := hs, nInternalPointer := ip\<rparr>)"
    "chains (slot_of ?t) d hs (length ?es)" "elems d 0 (length ?es) = ?es" "length d = 2 ^ k" "length hs = 2 ^ Suc k"
    "?p < ?u \<and> copied_at so source ?p \<longrightarrow> ip = word_of_nat (length (dup_entries so source (elems (arData source) 0 ?p)))"
    using dup_elements_ok [OF cells ch hd(2) init holes, of so] b(1) len(1) hs u32 unfolding ht_elems_def by auto
  let ?r = "?t\<lparr>arData := d, arHash := hs, nInternalPointer := ip, nNumUsed := word_of_nat (length ?es), nNumOfElements := word_of_nat (length ?es)\<rparr>"
  have dup: "zend_array_dup so False source = Some ?r"
    using n hd(2) max r(1) unfolding zend_array_dup_def Let_def by simp
  have le: "length ?es \<le> length (ht_elems source)" unfolding dup_entries_def List.map_filter_def by (simp add: le_trans [OF length_filter_le])
  then have es: "unat (word_of_nat (length ?es) :: u32) = length ?es" "length ?es \<le> 2 ^ k"
    using b(1,3) u32 by (simp_all add: unat_of_nat32)
  have el: "ht_elems ?r = ?es" using r(3) es(1) by (simp add: ht_elems_def)
  have full: "\<forall>m<length ?es. bucket_in d m \<noteq> None"
    using length_elems_eq_iff [of d 0 "length ?es"] r(3) by (fastforce simp: held_def split: option.splits)
  have "contents_ok k ?r" unfolding contents_ok_def el
    using hd(1) r(4) es full dup_entries_ok [of "ht_elems source" so source] by (simp add: contents_ok_def HT_HASH_RESET_def dup_target_def)
  then have "hash_ok k ?r"
    using hd(2,3) r(2,5) es(1) by (intro hash_okI) (simp_all add: HT_HASH_RESET_def dup_target_def)
  moreover have "current_entry ?r = Some e'" if "Option.bind (current_entry source) (dup_entry so False (ht_slots source)) = Some e'" for e'
  proof -
    obtain e where e: "current_entry source = Some e" "dup_entry so False (ht_slots source) e = Some e'"
      using \<open>Option.bind _ _ = Some e'\<close> by (cases "current_entry source") auto
    then have p: "?p < ?u" "held (arData source) ?p = Some e" by (auto simp: current_entry_def word_less_nat_alt split: if_splits)
    let ?m = "length (dup_entries so source (elems (arData source) 0 ?p))"
    have ip: "ip = word_of_nat ?m" using r(6) p e(2) hd(2) by (simp add: copied_at_def)
    have "ht_elems source = elems (arData source) 0 ?p @ e # elems (arData source) (Suc ?p) (?u - Suc ?p)" using elems_at [OF p] by simp
    then have split: "?es = dup_entries so source (elems (arData source) 0 ?p) @ e' # dup_entries so source (elems (arData source) (Suc ?p) (?u - Suc ?p))"
      using e(2) hd(2) by simp
    then have m: "?m < length ?es" "?es ! ?m = e'" by simp_all
    then have "unat ip = ?m" using ip es u32 le b(3) by (simp add: unat_of_nat32)
    moreover have "held d ?m = Some e'" using full_nth [of d "length ?es" ?m] r(3) m by simp
    ultimately show ?thesis using m(1) es(1) by (simp add: current_entry_def word_less_nat_alt)
  qed
  ultimately show ?thesis using dup el by blast
qed

lemma dup_packed:
  assumes h: "packed_ok k source" and n: "nNumOfElements source \<noteq> 0"
  shows "\<exists>t. zend_array_dup so False source = Some t \<and> packed_ok k t \<and> ht_elems t = dup_entries so source (ht_elems source) \<and>
    (\<forall>e. Option.bind (current_entry source) (dup_entry so True (ht_slots source)) = Some e \<longrightarrow> current_entry t = Some e)"
proof -
  let ?u = "unat (nNumUsed source)" and ?es = "dup_entries so source (ht_elems source)"
  let ?wh = "nNumUsed source \<noteq> nNumOfElements source"
  let ?pos = "if nInternalPointer source < nNumUsed source then nInternalPointer source else 0"
  let ?t = "(dup_target source)\<lparr>nTableMask := HT_MIN_MASK, nInternalPointer := ?pos\<rparr>"
  note pd = packed_okD [OF h]
  note b = contents_bounds [OF pd(1)]
  have init: "\<forall>m\<in>{0..<0 + ?u}. bucket_in (arData source) m \<noteq> None" using pd(1) by (simp add: contents_ok_def)
  have holes: "?wh \<or> (\<forall>m\<in>{0..<0 + ?u}. held (arData source) m \<noteq> None)"
  proof (cases ?wh)
    case False
    then have "length (elems (arData source) 0 ?u) = ?u" using b(4) by (simp add: ht_elems_def)
    then show ?thesis unfolding length_elems_eq_iff by blast
  qed simp
  have "0 < length (ht_elems source)" using n b(4) by (metis unat_0_iff gr0I)
  then have "0 < ?u" using b(3) by linarith
  then have max: "max 1 ?u = ?u" by simp
  have key: "\<forall>m\<in>{0..<0 + ?u}. \<forall>v h k. held (arData source) m = Some (v, h, k) \<longrightarrow> k = None" using pd(3) by auto
  have len: "length (arData ?t) = 2 ^ k" using b(5) by (simp add: dup_target_def)
  then have "0 + ?u \<le> length (arData ?t)" using b(1) by simp
  from dup_packed_ok [OF pd(2) init holes this key, of so]
  obtain d where d: "dup_packed_elements so source ?wh ?u 0 ?t = Some (?t\<lparr>arData := d\<rparr>)" "length d = 2 ^ k"
    "\<forall>m<?u. bucket_in d m \<noteq> None" "\<forall>m<?u. held d m = Option.bind (held (arData source) m) (dup_entry so True (ht_slots source))"
    using len by auto
  let ?r = "?t\<lparr>arData := d\<rparr>"
  have "List.map_filter (held d) [0..<0 + ?u] = List.map_filter (\<lambda>m. Option.bind (held (arData source) m) (dup_entry so True (ht_slots source))) [0..<0 + ?u]"
    using d(4) by (auto simp: List.map_filter_def intro!: map_cong filter_cong)
  then have "elems d 0 ?u = ?es" unfolding ht_elems_def dup_entries_def elems_def map_filter_bind using pd(2) by simp
  then have el: "ht_elems ?r = ?es" by (simp add: ht_elems_def dup_target_def)
  have "dup_entry so True slots e \<noteq> None" if "fst e \<noteq> IS_UNDEF" for slots and e :: "'a zval \<times> u64 \<times> zend_string option"
    using that by (simp add: dup_entry_def)
  moreover have "fst e \<noteq> IS_UNDEF" if e: "e \<in> set (ht_elems source)" for e
  proof -
    obtain i where "held (arData source) i = Some e" using e unfolding ht_elems_def set_elems by blast
    then show ?thesis by (auto simp: held_def split: option.splits if_splits)
  qed
  ultimately have "length ?es = length (ht_elems source)" unfolding dup_entries_def List.map_filter_def using pd(2)
    by (simp add: filter_id_conv)
  moreover have "nNumOfElements ?r = nNumOfElements source" "nNumUsed ?r = nNumUsed source" by (simp_all add: dup_target_def)
  ultimately have "contents_ok k ?r" unfolding contents_ok_def el
    using pd(1) d(2,3) dup_entries_ok [of "ht_elems source" so source] by (simp add: contents_ok_def dup_target_def)
  moreover have "key = None \<and> hh = word_of_nat i" if i: "i < ?u" "held d i = Some (v, hh, key)" for i v hh key
  proof -
    obtain e where "held (arData source) i = Some e" "dup_entry so True (ht_slots source) e = Some (v, hh, key)"
      using d(4) i by (cases "held (arData source) i") auto
    then show ?thesis using pd(3) [OF i(1)] by (cases e) (auto simp: dup_entry_def Let_def split: if_splits)
  qed
  ultimately have ok: "packed_ok k ?r" using pd(2) by (auto simp: packed_ok_def dup_target_def)
  have dup: "zend_array_dup so False source = Some ?r"
    using n pd(2) max d(1) unfolding zend_array_dup_def Let_def by simp
  have "current_entry ?r = Some e" if "Option.bind (current_entry source) (dup_entry so True (ht_slots source)) = Some e" for e
    using that d(4) by (auto simp: current_entry_def dup_target_def word_less_nat_alt split: if_splits)
  then show ?thesis using dup ok el by blast
qed

text \<open>A constant array is copied as it is.\<close>

lemma dup_immutable:
  assumes ok: "ht_ok source" and n: "nNumOfElements source \<noteq> 0"
  shows "\<exists>t. zend_array_dup so True source = Some t \<and> ht_ok t \<and> ht_elems t = ht_elems source \<and> current_entry t = current_entry source"
proof -
  obtain k where m: "hash_ok k source \<or> packed_ok k source" and c: "contents_ok k source"
    using ok n by (auto elim!: ht_okE simp: fresh_ok_def)
  let ?s = "(dup_target source)\<lparr>arData := arData source\<rparr>" and ?u = "unat (nNumUsed source)"
  have el: "ht_elems ?s = ht_elems source" by (simp add: ht_elems_def dup_target_def)
  have cs: "contents_ok k ?s" unfolding contents_ok_def el using c by (simp add: contents_ok_def dup_target_def)
  have k: "k \<le> 30" "nTableSize source = 2 ^ k" using c by (simp_all add: contents_ok_def)
  have id: "?s\<lparr>nTableSize := 2 ^ k\<rparr> = ?s" using k(2) by (simp add: dup_target_def)
  obtain t where t: "copy_buckets ?s (2 ^ k) = Some t" "contents_ok k t" "ht_elems t = ht_elems ?s" "nNumUsed t = nNumUsed ?s"
    "t = ?s\<lparr>nTableSize := 2 ^ k, arData := arData t\<rparr>" "\<forall>i<unat (nNumUsed ?s). bucket_in (arData t) i = bucket_in (arData ?s) i"
    using copy_contents_ok [OF cs order.refl k(1)] unfolding id by blast
  let ?t = "t\<lparr>arHash := arHash source\<rparr>"
  have dup: "zend_array_dup so True source = Some ?t" using n t(1) k(2) by (simp add: zend_array_dup_def Let_def)
  have flags: "f_packed t = f_packed source" "nTableMask t = nTableMask source" "nNumUsed t = nNumUsed source"
    "nInternalPointer t = nInternalPointer source" by (subst t(5), simp add: dup_target_def)+
  have same: "bucket_in (arData t) i = bucket_in (arData source) i" if "i < ?u" for i
    using t(6) that by (simp add: dup_target_def)
  then have held: "held (arData t) i = held (arData source) i" if "i < ?u" for i using that by (simp add: held_def)
  have el': "ht_elems ?t = ht_elems source" using t(3) el by (simp add: ht_elems_def)
  have "contents_ok k ?t" using t(2) unfolding contents_ok_def el' t(3) el by simp
  moreover have "chains (slot_of source) (arData t) (arHash source) ?u" if "chains (slot_of source) (arData source) (arHash source) ?u"
    unfolding chains_def
  proof (intro allI impI)
    fix x assume x: "x < length (arHash source)"
    have "slot_ids (slot_of source) (arData t) ?u x = slot_ids (slot_of source) (arData source) ?u x"
      using held by (intro slot_ids_cong) simp
    moreover have "linked (arData t) i (slot_ids (slot_of source) (arData source) ?u x) =
        linked (arData source) i (slot_ids (slot_of source) (arData source) ?u x)" for i
      using same by (intro linked_cong) (auto simp: set_slot_ids)
    ultimately show "linked (arData t) (arHash source ! x) (slot_ids (slot_of source) (arData t) ?u x)"
      using that x by (simp add: chains_def)
  qed
  ultimately have "ht_ok ?t" using m held flags unfolding ht_ok_def
    by (intro exI [of _ k]) (auto simp: hash_ok_def packed_ok_def)
  moreover have "current_entry ?t = current_entry source"
    using flags held by (simp add: current_entry_def word_less_nat_alt)
  ultimately show ?thesis using dup el' by blast
qed

text \<open>C18: a copy of an array always comes about without an access out of bounds, is a well-formed array
  without iterators, and has the elements of the original in their order: a reference that nothing else
  holds becomes its value, an element that stands for a variable becomes its value, or is left out if
  the variable is unset; a constant array is copied as it is. If the current element of the
  original is copied, its copy is the current one.\<close>

theorem zend_array_dup_correct:
  assumes "ht_ok source"
  shows "\<exists>t. zend_array_dup so immutable source = Some t \<and> ht_ok t \<and>
    ht_elems t = (if immutable then ht_elems source else dup_entries so source (ht_elems source)) \<and>
    (\<forall>e e'. current_entry source = Some e \<longrightarrow>
       (if immutable then Some e else dup_entry so (f_packed source) (ht_slots source) e) = Some e' \<longrightarrow> current_entry t = Some e')"
proof (cases "nNumOfElements source = 0")
  case True
  have "ht_elems source = []" using ht_okD(1) [OF assms] True by simp
  moreover have "current_entry source = None"
  proof (cases "nInternalPointer source < nNumUsed source")
    case less: True
    have "e \<in> set (ht_elems source)" if "held (arData source) (unat (nInternalPointer source)) = Some e" for e
      using that less by (auto simp: ht_elems_def set_elems word_less_nat_alt)
    then show ?thesis using calculation by (cases "held (arData source) (unat (nInternalPointer source))") (auto simp: current_entry_def)
  qed (simp add: current_entry_def)
  ultimately show ?thesis using dup_empty [OF assms True, of so immutable] by auto
next
  case False
  show ?thesis
  proof (cases immutable)
    case True
    then show ?thesis using dup_immutable [OF assms False, of so] by auto
  next
    case mut: False
    obtain k where "hash_ok k source \<or> packed_ok k source" using assms False by (auto elim!: ht_okE simp: fresh_ok_def)
    then have "\<exists>t. zend_array_dup so False source = Some t \<and> ht_ok t \<and> ht_elems t = dup_entries so source (ht_elems source) \<and>
        (\<forall>e. Option.bind (current_entry source) (dup_entry so (f_packed source) (ht_slots source)) = Some e \<longrightarrow> current_entry t = Some e)"
    proof
      assume h: "hash_ok k source"
      then have "\<not> f_packed source" by (simp add: hash_ok_def)
      then show ?thesis using dup_hash [OF h False, of so] by (auto simp: ht_ok_def)
    next
      assume h: "packed_ok k source"
      then have "f_packed source" by (simp add: packed_ok_def)
      then show ?thesis using dup_packed [OF h False, of so] by (auto simp: ht_ok_def)
    qed
    then show ?thesis using mut by auto
  qed
qed

theorem zend_array_dup_correct_witness:
  "\<exists>t. zend_array_dup (\<lambda>_. None) False ex_table = Some t \<and> ht_ok t \<and>
    ht_elems t = dup_entries (\<lambda>_. None) ex_table (ht_elems ex_table)"
  using zend_array_dup_correct [OF ex_table_ok(1), of "\<lambda>_. None" False] by auto

end
