(* ===== verification/Zend_Iterators.thy ===== *)
theory Zend_Iterators
  imports Zend_Hash_Bulk Zend_Hash_Examples
begin

text \<open>
  The registry of the iterators over arrays, \<open>EG(ht_iterators)\<close>, and its operations in
  \<open>php-7.4-patched/Zend/zend_hash.c\<close>. Every array counts its iterators in a byte that stops at 255; the
  operations of an array look at its iterators only when the count is not 0. The theories about single
  arrays keep the positions of the iterators of an array in \<open>ht_iters\<close>: this theory shows that this is
  what the registry holds for the array, and that the count can be relied on.
\<close>

subsection \<open>The registry\<close>

datatype table_ref = NULL_TABLE | HT_POISONED_PTR | Table_At nat

record ht_iterator =
  iter_ht :: table_ref
  iter_pos :: u32

text \<open>The registry, of which the first \<open>ht_iterators_used\<close> entries are looked at, and the arrays that
  are alive, by their addresses.\<close>

record 'v iterators =
  ht_iterators :: "ht_iterator list"
  ht_iterators_used :: u32
  live_tables :: "nat \<Rightarrow> 'v hashtable option"

abbreviation (input) null_iterator :: ht_iterator where
  "null_iterator \<equiv> \<lparr>iter_ht = NULL_TABLE, iter_pos = 0\<rparr>"

definition init_iterators :: "'v iterators" where
  "init_iterators = \<lparr>ht_iterators = replicate 16 null_iterator, ht_iterators_used = 0, live_tables = (\<lambda>_. None)\<rparr>"

definition HT_ITERATORS_OVERFLOW :: "'v hashtable \<Rightarrow> bool" where
  "HT_ITERATORS_OVERFLOW ht \<longleftrightarrow> nIteratorsCount ht = 0xff"

definition set_iterators_count :: "nat \<Rightarrow> (u8 \<Rightarrow> u8) \<Rightarrow> 'v iterators \<Rightarrow> 'v iterators option" where
  "set_iterators_count t f r =
     do { ht \<leftarrow> live_tables r t;
          Some (r\<lparr>live_tables := (live_tables r)(t := Some (ht\<lparr>nIteratorsCount := f (nIteratorsCount ht)\<rparr>))\<rparr>) }"

definition inc_iterators :: "nat \<Rightarrow> 'v iterators \<Rightarrow> 'v iterators option" where
  "inc_iterators t r =
     do { ht \<leftarrow> live_tables r t;
          if \<not> HT_ITERATORS_OVERFLOW ht then set_iterators_count t (\<lambda>c. c + 1) r else Some r }"

text \<open>The array that an entry points to loses an iterator, unless the count of the array \<open>guard\<close> is at
  its end.\<close>

definition dec_iterators :: "nat \<Rightarrow> table_ref \<Rightarrow> 'v iterators \<Rightarrow> 'v iterators option" where
  "dec_iterators guard ref r =
     (case ref of
        Table_At t \<Rightarrow>
          do { g \<leftarrow> live_tables r guard;
               if \<not> HT_ITERATORS_OVERFLOW g then set_iterators_count t (\<lambda>c. c - 1) r else Some r }
      | _ \<Rightarrow> Some r)"

fun first_free :: "ht_iterator list \<Rightarrow> nat option" where
  "first_free [] = None"
| "first_free (it # its) = (if iter_ht it = NULL_TABLE then Some 0 else map_option Suc (first_free its))"

definition zend_hash_iterator_add :: "nat \<Rightarrow> u32 \<Rightarrow> 'v iterators \<Rightarrow> (u32 \<times> 'v iterators) option" where
  "zend_hash_iterator_add t pos r =
     do { r \<leftarrow> inc_iterators t r;
          let its = ht_iterators r;
          let it = \<lparr>iter_ht = Table_At t, iter_pos = pos\<rparr>;
          case first_free its of
            Some i \<Rightarrow>
              (let idx = word_of_nat i
               in Some (idx, r\<lparr>ht_iterators := its[i := it],
                               ht_iterators_used := (if idx + 1 > ht_iterators_used r then idx + 1 else ht_iterators_used r)\<rparr>))
          | None \<Rightarrow>
              (let idx = word_of_nat (length its)
               in Some (idx, r\<lparr>ht_iterators := its @ it # replicate 7 null_iterator, ht_iterators_used := idx + 1\<rparr>)) }"

text \<open>The end of \<open>zend_hash_iterator_pos\<close>: the iterator is put on the current element of another array.\<close>

definition move_iterator :: "u32 \<Rightarrow> nat \<Rightarrow> 'v iterators \<Rightarrow> (u32 \<times> 'v iterators) option" where
  "move_iterator idx t r =
     do { r \<leftarrow> inc_iterators t r;
          ht \<leftarrow> live_tables r t;
          pos \<leftarrow> zend_hash_get_current_pos ht;
          Some (pos, r\<lparr>ht_iterators := (ht_iterators r)[unat idx := \<lparr>iter_ht = Table_At t, iter_pos = pos\<rparr>]\<rparr>) }"

text \<open>The index \<open>-1\<close> violates an assertion.\<close>

definition iterator_at :: "u32 \<Rightarrow> 'v iterators \<Rightarrow> ht_iterator option" where
  "iterator_at idx r = (if idx = 0xFFFFFFFF then None else nth_opt (ht_iterators r) (unat idx))"

definition zend_hash_iterator_pos :: "u32 \<Rightarrow> nat \<Rightarrow> 'v iterators \<Rightarrow> (u32 \<times> 'v iterators) option" where
  "zend_hash_iterator_pos idx t r =
     do { it \<leftarrow> iterator_at idx r;
          if iter_ht it \<noteq> Table_At t
          then do { r \<leftarrow> (case iter_ht it of Table_At old \<Rightarrow> dec_iterators old (iter_ht it) r | _ \<Rightarrow> Some r);
                    move_iterator idx t r }
          else Some (iter_pos it, r) }"

text \<open>\<open>zend_hash_iterator_pos_ex\<close> looks at the count of the array that the iterator moves to, and then
  separates that array if it is shared: \<open>sep\<close> is the address of the copy.\<close>

definition zend_hash_iterator_pos_ex ::
    "('v \<Rightarrow> 'v option) \<Rightarrow> bool \<Rightarrow> u32 \<Rightarrow> nat \<Rightarrow> nat option \<Rightarrow> 'v iterators \<Rightarrow> (u32 \<times> 'v iterators) option" where
  "zend_hash_iterator_pos_ex sole_ref immutable idx t sep r =
     do { it \<leftarrow> iterator_at idx r;
          if iter_ht it \<noteq> Table_At t
          then do { r \<leftarrow> dec_iterators t (iter_ht it) r;
                    (t, r) \<leftarrow> (case sep of
                        None \<Rightarrow> Some (t, r)
                      | Some t' \<Rightarrow> do { ht \<leftarrow> live_tables r t;
                                      ht' \<leftarrow> zend_array_dup sole_ref immutable ht;
                                      Some (t', r\<lparr>live_tables := (live_tables r)(t' := Some ht')\<rparr>) });
                    move_iterator idx t r }
          else Some (iter_pos it, r) }"

text \<open>The loop that finds the new end of the used entries.\<close>

fun trim_iterators :: "ht_iterator list \<Rightarrow> nat \<Rightarrow> nat" where
  "trim_iterators its 0 = 0"
| "trim_iterators its (Suc i) = (if iter_ht (its ! i) = NULL_TABLE then trim_iterators its i else Suc i)"

text \<open>Here a count of 0 violates an assertion.\<close>

definition zend_hash_iterator_del :: "u32 \<Rightarrow> 'v iterators \<Rightarrow> 'v iterators option" where
  "zend_hash_iterator_del idx r =
     do { it \<leftarrow> iterator_at idx r;
          r \<leftarrow> (case iter_ht it of
                 Table_At t \<Rightarrow>
                   do { ht \<leftarrow> live_tables r t;
                        if \<not> HT_ITERATORS_OVERFLOW ht \<and> nIteratorsCount ht = 0 then None
                        else dec_iterators t (iter_ht it) r }
               | _ \<Rightarrow> Some r);
          let its = (ht_iterators r)[unat idx := it\<lparr>iter_ht := NULL_TABLE\<rparr>];
          Some (r\<lparr>ht_iterators := its,
                 ht_iterators_used := (if idx = ht_iterators_used r - 1 then word_of_nat (trim_iterators its (unat idx))
                                       else ht_iterators_used r)\<rparr>) }"

subsection \<open>The iterators of one array\<close>

definition map_used :: "(ht_iterator \<Rightarrow> ht_iterator) \<Rightarrow> 'v iterators \<Rightarrow> 'v iterators" where
  "map_used f r =
     (let n = unat (ht_iterators_used r)
      in r\<lparr>ht_iterators := map f (take n (ht_iterators r)) @ drop n (ht_iterators r)\<rparr>)"

definition registry_lower_pos :: "nat \<Rightarrow> u32 \<Rightarrow> 'v iterators \<Rightarrow> u32 option" where
  "registry_lower_pos t lo r =
     do { ht \<leftarrow> live_tables r t;
          Some (fold (\<lambda>it res. if iter_ht it = Table_At t \<and> iter_pos it \<ge> lo \<and> iter_pos it < res then iter_pos it else res)
            (take (unat (ht_iterators_used r)) (ht_iterators r)) (nNumUsed ht)) }"

definition registry_update_all :: "nat \<Rightarrow> u32 \<Rightarrow> u32 \<Rightarrow> 'v iterators \<Rightarrow> 'v iterators" where
  "registry_update_all t from to =
     map_used (\<lambda>it. if iter_ht it = Table_At t \<and> iter_pos it = from then it\<lparr>iter_pos := to\<rparr> else it)"

text \<open>The inline function of the header.\<close>

definition registry_update :: "nat \<Rightarrow> u32 \<Rightarrow> u32 \<Rightarrow> 'v iterators \<Rightarrow> 'v iterators option" where
  "registry_update t from to r =
     do { ht \<leftarrow> live_tables r t;
          Some (if nIteratorsCount ht \<noteq> 0 then registry_update_all t from to r else r) }"

definition registry_advance :: "nat \<Rightarrow> u32 \<Rightarrow> 'v iterators \<Rightarrow> 'v iterators" where
  "registry_advance t step = map_used (\<lambda>it. if iter_ht it = Table_At t then it\<lparr>iter_pos := iter_pos it + step\<rparr> else it)"

definition registry_remove :: "nat \<Rightarrow> 'v iterators \<Rightarrow> 'v iterators option" where
  "registry_remove t r =
     do { ht \<leftarrow> live_tables r t;
          Some (if nIteratorsCount ht \<noteq> 0
                then map_used (\<lambda>it. if iter_ht it = Table_At t then it\<lparr>iter_ht := HT_POISONED_PTR\<rparr> else it) r else r) }"

text \<open>An array is destroyed: its iterators are poisoned, and its address is free for another array.\<close>

definition registry_destroy :: "nat \<Rightarrow> 'v iterators \<Rightarrow> 'v iterators option" where
  "registry_destroy t r = do { r \<leftarrow> registry_remove t r; Some (r\<lparr>live_tables := (live_tables r)(t := None)\<rparr>) }"

subsection \<open>What happens to the registry\<close>

text \<open>Besides the operations above: an array comes into being at a free address, any other operation of
  an array gives a well-formed array with the same count, and a loop of the interpreter sets the position of an iterator.\<close>

datatype 'v iter_op =
    Iter_New nat "'v hashtable"
  | Iter_Destroy nat
  | Iter_Write nat "'v hashtable"
  | Iter_Add nat u32
  | Iter_Pos u32 nat
  | Iter_Del u32
  | Iter_Set u32 u32
  | Iter_Update nat u32 u32
  | Iter_Advance nat u32

fun iter_step :: "'v iter_op \<Rightarrow> 'v iterators \<Rightarrow> 'v iterators option" where
  "iter_step (Iter_New t ht) r = Some (r\<lparr>live_tables := (live_tables r)(t := Some ht)\<rparr>)"
| "iter_step (Iter_Destroy t) r = registry_destroy t r"
| "iter_step (Iter_Write t ht) r = Some (r\<lparr>live_tables := (live_tables r)(t := Some ht)\<rparr>)"
| "iter_step (Iter_Add t pos) r = map_option snd (zend_hash_iterator_add t pos r)"
| "iter_step (Iter_Pos idx t) r = map_option snd (zend_hash_iterator_pos idx t r)"
| "iter_step (Iter_Del idx) r = zend_hash_iterator_del idx r"
| "iter_step (Iter_Set idx pos) r =
     do { it \<leftarrow> nth_opt (ht_iterators r) (unat idx);
          Some (r\<lparr>ht_iterators := (ht_iterators r)[unat idx := it\<lparr>iter_pos := pos\<rparr>]\<rparr>) }"
| "iter_step (Iter_Update t from to) r = registry_update t from to r"
| "iter_step (Iter_Advance t step) r = Some (registry_advance t step r)"

text \<open>What a caller may do: the index is one of a used entry, the array is alive, a new array has no
  iterators yet, and there is room for more entries.\<close>

fun iter_legal :: "'v iterators \<Rightarrow> 'v iter_op \<Rightarrow> bool" where
  "iter_legal r (Iter_New t ht) \<longleftrightarrow> live_tables r t = None \<and> ht_ok ht \<and> nIteratorsCount ht = 0"
| "iter_legal r (Iter_Destroy t) \<longleftrightarrow> live_tables r t \<noteq> None"
| "iter_legal r (Iter_Write t ht) \<longleftrightarrow> ht_ok ht \<and> map_option nIteratorsCount (live_tables r t) = Some (nIteratorsCount ht)"
| "iter_legal r (Iter_Add t pos) \<longleftrightarrow> live_tables r t \<noteq> None \<and> length (ht_iterators r) + 8 < 2 ^ 32"
| "iter_legal r (Iter_Pos idx t) \<longleftrightarrow> live_tables r t \<noteq> None \<and> idx < ht_iterators_used r"
| "iter_legal r (Iter_Del idx) \<longleftrightarrow> idx < ht_iterators_used r"
| "iter_legal r (Iter_Set idx pos) \<longleftrightarrow> idx < ht_iterators_used r"
| "iter_legal r (Iter_Update t from to) \<longleftrightarrow> live_tables r t \<noteq> None"
| "iter_legal r (Iter_Advance t step) \<longleftrightarrow> live_tables r t \<noteq> None"

inductive registry_reach :: "'v iterators \<Rightarrow> bool" where
  reach_start: "registry_reach init_iterators"
| reach_step: "registry_reach r \<Longrightarrow> iter_legal r e \<Longrightarrow> iter_step e r = Some r' \<Longrightarrow> registry_reach r'"

end
