(* ===== verification/Zend_Iterators_Correct.thy ===== *)
theory Zend_Iterators_Correct
  imports Zend_Iterators Zend_Hash_Compare_Correct
begin

text \<open>
  The counts of the arrays agree with the registry in every state that the operations lead to, except for
  \<open>zend_hash_iterator_pos_ex\<close>.
\<close>

subsection \<open>Counting\<close>

definition refs :: "nat \<Rightarrow> ht_iterator list \<Rightarrow> nat" where
  "refs t its = length (filter (\<lambda>it. iter_ht it = Table_At t) its)"

lemma refs_simps [simp]:
  "refs t [] = 0" "refs t (it # its) = (if iter_ht it = Table_At t then 1 else 0) + refs t its"
  "refs t (xs @ ys) = refs t xs + refs t ys"
  by (simp_all add: refs_def)

lemma refs_update:
  assumes "i < length its"
  shows "refs t (its[i := it]) + (if iter_ht (its ! i) = Table_At t then 1 else 0) =
    refs t its + (if iter_ht it = Table_At t then 1 else 0)"
proof -
  have "refs t its = refs t (take i its @ its ! i # drop (Suc i) its)" using id_take_nth_drop [OF assms] by simp
  moreover have "refs t (its[i := it]) = refs t (take i its @ it # drop (Suc i) its)"
    using upd_conv_take_nth_drop [OF assms] by simp
  ultimately show ?thesis by simp
qed

lemma refs_null: "\<forall>it\<in>set its. iter_ht it = NULL_TABLE \<Longrightarrow> refs t its = 0"
  by (simp add: refs_def filter_empty_conv)

lemma refs_map: "(\<And>it. it \<in> set its \<Longrightarrow> (iter_ht (f it) = Table_At t) = (iter_ht it = Table_At t)) \<Longrightarrow> refs t (map f its) = refs t its"
  by (induction its) auto

subsection \<open>The invariant\<close>

text \<open>The count of a live array is the number of its entries, or has come to its end; an address without
  an array has no entries.\<close>

definition count_ok :: "'v hashtable option \<Rightarrow> nat \<Rightarrow> bool" where
  "count_ok x n = (case x of None \<Rightarrow> n = 0
     | Some ht \<Rightarrow> ht_ok ht \<and> (HT_ITERATORS_OVERFLOW ht \<or> unat (nIteratorsCount ht) = n))"

definition entries_ok :: "ht_iterator list \<Rightarrow> u32 \<Rightarrow> bool" where
  "entries_ok its used \<longleftrightarrow> length its < 2 ^ 32 \<and> unat used \<le> length its \<and>
     (\<forall>i. unat used \<le> i \<longrightarrow> i < length its \<longrightarrow> iter_ht (its ! i) = NULL_TABLE)"

definition iters_ok :: "'v iterators \<Rightarrow> bool" where
  "iters_ok r \<longleftrightarrow> entries_ok (ht_iterators r) (ht_iterators_used r) \<and>
     (\<forall>t. count_ok (live_tables r t) (refs t (ht_iterators r)))"

lemma ht_ok_count [simp]: "ht_ok (ht\<lparr>nIteratorsCount := c\<rparr>) = ht_ok ht"
  by (simp add: ht_ok_def table_defs)

lemma inc_iterators_ok:
  assumes "live_tables r t = Some ht" "count_ok (Some ht) n"
  shows "\<exists>ht'. inc_iterators t r = Some (r\<lparr>live_tables := (live_tables r)(t := Some ht')\<rparr>) \<and> count_ok (Some ht') (Suc n)"
proof (cases "HT_ITERATORS_OVERFLOW ht")
  case True
  then have "r = r\<lparr>live_tables := (live_tables r)(t := Some ht)\<rparr>" using assms(1) by (simp add: fun_upd_idem)
  then show ?thesis using True assms by (intro exI [of _ ht]) (simp add: inc_iterators_def count_ok_def)
next
  case False
  have e: "(0xff :: u8) = - 1" by simp
  have "nIteratorsCount ht \<noteq> - 1" using False unfolding HT_ITERATORS_OVERFLOW_def e .
  then have "1 + nIteratorsCount ht \<noteq> 0" by (simp add: add_eq_0_iff)
  then have "unat (nIteratorsCount ht + 1) = unat (nIteratorsCount ht) + 1" using unatSuc [of "nIteratorsCount ht"] by (simp add: add.commute)
  then show ?thesis using False assms
    by (intro exI [of _ "ht\<lparr>nIteratorsCount := nIteratorsCount ht + 1\<rparr>"])
      (auto simp: inc_iterators_def set_iterators_count_def count_ok_def)
qed

lemma dec_iterators_ok:
  assumes "live_tables r t = Some ht" "count_ok (Some ht) (Suc n)"
  shows "\<exists>ht'. dec_iterators t (Table_At t) r = Some (r\<lparr>live_tables := (live_tables r)(t := Some ht')\<rparr>) \<and> count_ok (Some ht') n"
    "HT_ITERATORS_OVERFLOW ht \<or> nIteratorsCount ht \<noteq> 0"
proof -
  show "\<exists>ht'. dec_iterators t (Table_At t) r = Some (r\<lparr>live_tables := (live_tables r)(t := Some ht')\<rparr>) \<and> count_ok (Some ht') n"
  proof (cases "HT_ITERATORS_OVERFLOW ht")
    case True
    then have "r = r\<lparr>live_tables := (live_tables r)(t := Some ht)\<rparr>" using assms(1) by (simp add: fun_upd_idem)
    then show ?thesis using True assms by (intro exI [of _ ht]) (simp add: dec_iterators_def count_ok_def)
  next
    case False
    then have "unat (nIteratorsCount ht) = Suc n" using assms(2) by (simp add: count_ok_def)
    then have "unat (nIteratorsCount ht - 1) = n" by (metis diff_Suc_1 nat.distinct(1) unat_0 unat_minus_one)
    then show ?thesis using False assms
      by (intro exI [of _ "ht\<lparr>nIteratorsCount := nIteratorsCount ht - 1\<rparr>"])
        (auto simp: dec_iterators_def set_iterators_count_def count_ok_def)
  qed
  show "HT_ITERATORS_OVERFLOW ht \<or> nIteratorsCount ht \<noteq> 0" using assms(2) by (auto simp: count_ok_def)
qed

subsection \<open>The operations\<close>

lemma first_free_Some: "first_free its = Some i \<Longrightarrow> i < length its \<and> iter_ht (its ! i) = NULL_TABLE"
  by (induction its arbitrary: i) (auto split: if_splits)

lemma iter_add_ok:
  assumes ok: "iters_ok r" and l: "live_tables r t \<noteq> None" "length (ht_iterators r) + 8 < 2 ^ 32"
  shows "\<exists>idx r'. zend_hash_iterator_add t pos r = Some (idx, r') \<and> iters_ok r' \<and> idx < ht_iterators_used r' \<and>
    nth_opt (ht_iterators r') (unat idx) = Some \<lparr>iter_ht = Table_At t, iter_pos = pos\<rparr>"
proof -
  let ?its = "ht_iterators r" and ?u = "ht_iterators_used r" and ?it = "\<lparr>iter_ht = Table_At t, iter_pos = pos\<rparr>"
  obtain ht where ht: "live_tables r t = Some ht" using l(1) by blast
  have e: "entries_ok ?its ?u" and c: "\<forall>t. count_ok (live_tables r t) (refs t ?its)" using ok by (simp_all add: iters_ok_def)
  obtain ht' where inc: "inc_iterators t r = Some (r\<lparr>live_tables := (live_tables r)(t := Some ht')\<rparr>)"
    "count_ok (Some ht') (Suc (refs t ?its))"
    using inc_iterators_ok [OF ht] c ht by metis
  have u: "unat (word_of_nat n :: u32) = n" if "n \<le> length ?its" for n using that l(2) by (simp add: unat_of_nat32)
  have u1: "unat (word_of_nat n + 1 :: u32) = n + 1" if "n \<le> length ?its" for n
  proof -
    have "(word_of_nat n + 1 :: u32) = word_of_nat (n + 1)" by simp
    then show ?thesis using that l(2) unat_of_nat32 [of "n + 1"] by (simp add: add.commute)
  qed
  show ?thesis
  proof (cases "first_free ?its")
    case None
    let ?r = "r\<lparr>live_tables := (live_tables r)(t := Some ht'), ht_iterators := ?its @ ?it # replicate 7 null_iterator,
      ht_iterators_used := word_of_nat (length ?its) + 1\<rparr>"
    have "zend_hash_iterator_add t pos r = Some (word_of_nat (length ?its), ?r)"
      using inc(1) None by (simp add: zend_hash_iterator_add_def Let_def)
    moreover have "iters_ok ?r"
      using c inc(2) l(2) u1 [of "length ?its"]
      by (auto simp: iters_ok_def entries_ok_def nth_append nth_Cons refs_null split: nat.splits)
    moreover have "(word_of_nat (length ?its) :: u32) < word_of_nat (length ?its) + 1"
      using u [of "length ?its"] u1 [of "length ?its"] by (simp add: word_less_nat_alt)
    ultimately show ?thesis using u [of "length ?its"] by (simp add: nth_opt_def nth_append)
  next
    case (Some i)
    then have i: "i < length ?its" "iter_ht (?its ! i) = NULL_TABLE" by (simp_all add: first_free_Some)
    let ?r = "r\<lparr>live_tables := (live_tables r)(t := Some ht'), ht_iterators := ?its[i := ?it],
      ht_iterators_used := (if word_of_nat i + 1 > ?u then word_of_nat i + 1 else ?u)\<rparr>"
    have "zend_hash_iterator_add t pos r = Some (word_of_nat i, ?r)"
      using inc(1) Some by (simp add: zend_hash_iterator_add_def Let_def)
    moreover have "entries_ok (?its[i := ?it]) (ht_iterators_used ?r)"
      using e i u1 [of i] by (auto simp: entries_ok_def nth_list_update word_less_nat_alt)
    moreover have "refs t' (?its[i := ?it]) = refs t' ?its + (if t' = t then 1 else 0)" for t'
      using refs_update [OF i(1), of t' ?it] i(2) by auto
    ultimately have "zend_hash_iterator_add t pos r = Some (word_of_nat i, ?r)" "iters_ok ?r"
      using c inc(2) by (simp_all add: iters_ok_def)
    moreover have "(word_of_nat i :: u32) < ht_iterators_used ?r"
      using u [of i] u1 [of i] i(1) by (auto simp: word_less_nat_alt)
    ultimately show ?thesis using u [of i] i(1) by (auto simp: nth_opt_def)
  qed
qed

lemma entry_at:
  assumes "entries_ok its used" "idx < used"
  shows "unat idx < length its" "idx \<noteq> 0xFFFFFFFF"
proof -
  show "unat idx < length its" using assms by (auto simp: entries_ok_def word_less_nat_alt)
  show "idx \<noteq> 0xFFFFFFFF" using assms(2) word_order.not_eq_extremum [of idx] by auto
qed

lemma entries_ok_update: "entries_ok its used \<Longrightarrow> i < unat used \<Longrightarrow> entries_ok (its[i := it]) used"
  by (auto simp: entries_ok_def nth_list_update)


lemma current_pos_ok:
  assumes "ht_ok ht"
  shows "\<exists>pos. zend_hash_get_current_pos ht = Some pos"
proof -
  let ?i = "unat (nInternalPointer ht)" and ?u = "unat (nNumUsed ht)"
  have "\<exists>n. next_live (arData ht) ?u ?i = Some n"
  proof (cases "?i \<le> ?u")
    case True
    then show ?thesis using next_live_first [of ?i ?u "arData ht"] ht_okD(2) [OF assms] by blast
  next
    case False
    then show ?thesis by (subst next_live.simps) simp
  qed
  then show ?thesis by (auto simp: zend_hash_get_current_pos_def zend_hash_get_valid_pos_def)
qed

text \<open>An entry leaves its array.\<close>

lemma leave_ok:
  assumes ok: "iters_ok r" and i: "i < length (ht_iterators r)" and ref: "iter_ht (ht_iterators r ! i) = Table_At t"
    and it: "iter_ht it \<noteq> Table_At t"
  obtains lt where "dec_iterators t (Table_At t) r = Some (r\<lparr>live_tables := lt\<rparr>)"
    "\<And>t'. t' \<noteq> t \<Longrightarrow> lt t' = live_tables r t'" "count_ok (lt t) (refs t ((ht_iterators r)[i := it]))"
    "\<exists>ht. live_tables r t = Some ht \<and> (HT_ITERATORS_OVERFLOW ht \<or> nIteratorsCount ht \<noteq> 0)"
proof -
  have n: "refs t (ht_iterators r) = Suc (refs t ((ht_iterators r)[i := it]))" using refs_update [OF i, of t it] ref it by simp
  have c: "count_ok (live_tables r t) (refs t (ht_iterators r))" using ok by (simp add: iters_ok_def)
  then obtain ht where ht: "live_tables r t = Some ht" using n by (auto simp: count_ok_def split: option.splits)
  show thesis using that dec_iterators_ok [OF ht c [unfolded ht n]] ht by fastforce
qed

text \<open>An entry comes to an array.\<close>

lemma enter_ok:
  assumes e: "entries_ok its used" "i < unat used" and i: "i < length its" "iter_ht (its ! i) \<noteq> Table_At t"
    and t: "r = \<lparr>ht_iterators = its, ht_iterators_used = used, live_tables = lt\<rparr>" "lt t = Some ht" "count_ok (Some ht) (refs t its)"
    and c: "\<And>t' p. t' \<noteq> t \<Longrightarrow> count_ok (lt t') (refs t' (its[i := \<lparr>iter_ht = Table_At t, iter_pos = p\<rparr>]))"
  shows "\<exists>p r'. inc_iterators t r \<bind> (\<lambda>r. live_tables r t \<bind> (\<lambda>ht. zend_hash_get_current_pos ht \<bind> (\<lambda>pos.
      Some (pos, r\<lparr>ht_iterators := (ht_iterators r)[i := \<lparr>iter_ht = Table_At t, iter_pos = pos\<rparr>]\<rparr>)))) = Some (p, r') \<and> iters_ok r' \<and>
    nth_opt (ht_iterators r') i = Some \<lparr>iter_ht = Table_At t, iter_pos = p\<rparr> \<and> ht_iterators_used r' = used"
proof -
  have lt: "live_tables r t = Some ht" using t(1,2) by simp
  obtain ht' where inc: "inc_iterators t r = Some (r\<lparr>live_tables := (live_tables r)(t := Some ht')\<rparr>)"
    "count_ok (Some ht') (Suc (refs t its))" using inc_iterators_ok [OF lt t(3)] by blast
  obtain p where p: "zend_hash_get_current_pos ht' = Some p" using current_pos_ok inc(2) by (auto simp: count_ok_def)
  let ?it = "\<lparr>iter_ht = Table_At t, iter_pos = p\<rparr>"
  have "refs t (its[i := ?it]) = Suc (refs t its)" using refs_update [OF i(1), of t ?it] i(2) by simp
  then have "iters_ok \<lparr>ht_iterators = its[i := ?it], ht_iterators_used = used, live_tables = lt(t := Some ht')\<rparr>"
    using entries_ok_update [OF e] inc(2) c by (auto simp: iters_ok_def)
  then show ?thesis using inc(1) p i(1) t(1) by (simp add: nth_opt_def)
qed

lemma pos_ok:
  assumes ok: "iters_ok r" and l: "live_tables r t \<noteq> None" "idx < ht_iterators_used r"
  shows "\<exists>p r'. zend_hash_iterator_pos idx t r = Some (p, r') \<and> iters_ok r' \<and>
    nth_opt (ht_iterators r') (unat idx) = Some \<lparr>iter_ht = Table_At t, iter_pos = p\<rparr> \<and> ht_iterators_used r' = ht_iterators_used r"
proof -
  let ?its = "ht_iterators r" and ?i = "unat idx" and ?u = "ht_iterators_used r"
  have e: "entries_ok ?its ?u" and c: "\<And>t. count_ok (live_tables r t) (refs t ?its)" using ok by (simp_all add: iters_ok_def)
  note i = entry_at [OF e l(2)]
  have iu: "?i < unat ?u" using l(2) by (simp add: word_less_nat_alt)
  obtain ht where ht: "live_tables r t = Some ht" using l(1) by blast
  have at: "iterator_at idx r = Some (?its ! ?i)" using i by (simp add: iterator_at_def nth_opt_def)
  have r: "r = \<lparr>ht_iterators = ?its, ht_iterators_used = ?u, live_tables = live_tables r\<rparr>" by simp
  show ?thesis
  proof (cases "iter_ht (?its ! ?i) = Table_At t")
    case True
    then have "?its ! ?i = \<lparr>iter_ht = Table_At t, iter_pos = iter_pos (?its ! ?i)\<rparr>" by simp
    then show ?thesis using True at ok i(1)
      by (intro exI [of _ "iter_pos (?its ! ?i)"] exI [of _ r]) (simp add: zend_hash_iterator_pos_def nth_opt_def)
  next
    case False
    have stay: "refs t' (?its[?i := \<lparr>iter_ht = Table_At t, iter_pos = p\<rparr>]) = refs t' ?its"
      if "t' \<noteq> t" "iter_ht (?its ! ?i) \<noteq> Table_At t'" for t' p
      using refs_update [OF i(1), of t' "\<lparr>iter_ht = Table_At t, iter_pos = p\<rparr>"] that by simp
    show ?thesis
    proof (cases "iter_ht (?its ! ?i)")
      case (Table_At old)
      then have ne: "old \<noteq> t" using False by auto
      obtain lt where lt: "dec_iterators old (Table_At old) r = Some (r\<lparr>live_tables := lt\<rparr>)"
        "\<And>t'. t' \<noteq> old \<Longrightarrow> lt t' = live_tables r t'"
        "count_ok (lt old) (refs old (?its[?i := \<lparr>iter_ht = Table_At t, iter_pos = 0\<rparr>]))"
        using leave_ok [OF ok i(1) Table_At, of "\<lparr>iter_ht = Table_At t, iter_pos = 0\<rparr>"] ne by auto
      have sw: "refs old (?its[?i := \<lparr>iter_ht = Table_At t, iter_pos = p\<rparr>]) = refs old (?its[?i := \<lparr>iter_ht = Table_At t, iter_pos = 0\<rparr>])" for p
        using refs_update [OF i(1), of old "\<lparr>iter_ht = Table_At t, iter_pos = p\<rparr>"]
          refs_update [OF i(1), of old "\<lparr>iter_ht = Table_At t, iter_pos = 0\<rparr>"] ne Table_At by simp
      have "count_ok (lt t') (refs t' (?its[?i := \<lparr>iter_ht = Table_At t, iter_pos = p\<rparr>]))" if "t' \<noteq> t" for t' p
        using lt(2,3) stay [of t' p] c [of t'] sw [of p] that Table_At by (cases "t' = old") auto
      moreover have "lt t = Some ht" using lt(2) [of t] ne ht by simp
      moreover have "count_ok (Some ht) (refs t ?its)" using c [of t] ht by simp
      moreover have rl: "r\<lparr>live_tables := lt\<rparr> = \<lparr>ht_iterators = ?its, ht_iterators_used = ?u, live_tables = lt\<rparr>"
        by (cases r) simp
      ultimately show ?thesis
        using enter_ok [OF e iu i(1) False rl, of ht] at lt(1) Table_At False
        by (simp add: zend_hash_iterator_pos_def move_iterator_def)
    next
      case NULL_TABLE
      have "count_ok (live_tables r t') (refs t' (?its[?i := \<lparr>iter_ht = Table_At t, iter_pos = p\<rparr>]))" if "t' \<noteq> t" for t' p
        using stay [of t' p] c [of t'] that NULL_TABLE by simp
      then show ?thesis
        using enter_ok [OF e iu i(1) False r ht] c [of t] ht at NULL_TABLE
        by (simp add: zend_hash_iterator_pos_def move_iterator_def)
    next
      case HT_POISONED_PTR
      have "count_ok (live_tables r t') (refs t' (?its[?i := \<lparr>iter_ht = Table_At t, iter_pos = p\<rparr>]))" if "t' \<noteq> t" for t' p
        using stay [of t' p] c [of t'] that HT_POISONED_PTR by simp
      then show ?thesis
        using enter_ok [OF e iu i(1) False r ht] c [of t] ht at HT_POISONED_PTR
        by (simp add: zend_hash_iterator_pos_def move_iterator_def)
    qed
  qed
qed

lemma trim_iterators_ok:
  "trim_iterators its n \<le> n \<and> (\<forall>i. trim_iterators its n \<le> i \<longrightarrow> i < n \<longrightarrow> iter_ht (its ! i) = NULL_TABLE)"
  by (induction n) (auto simp: le_Suc_eq less_Suc_eq)

lemma del_entries:
  assumes e: "entries_ok its used" "idx < used" and it: "iter_ht it = NULL_TABLE"
  shows "entries_ok (its[unat idx := it])
    (if idx = used - 1 then word_of_nat (trim_iterators (its[unat idx := it]) (unat idx)) else used)"
proof (cases "idx = used - 1")
  case True
  let ?i = "unat idx" and ?its = "its[unat idx := it]"
  let ?n = "trim_iterators ?its ?i"
  note i = entry_at [OF e]
  have u: "unat used = Suc ?i" using True e(2) by (metis Suc_pred' unat_minus_one less_nat_zero_code unat_0 gr_zeroI word_less_nat_alt)
  have n: "?n \<le> ?i" "\<forall>j. ?n \<le> j \<longrightarrow> j < ?i \<longrightarrow> iter_ht (?its ! j) = NULL_TABLE" using trim_iterators_ok [of ?its ?i] by simp_all
  then have w: "unat (word_of_nat ?n :: u32) = ?n" using i(1) e(1) by (simp add: entries_ok_def unat_of_nat32)
  have "iter_ht (?its ! j) = NULL_TABLE" if "?n \<le> j" "j < length its" for j
  proof -
    consider "j < ?i" | "j = ?i" | "unat used \<le> j" using u by linarith
    then show ?thesis using n(2) that e(1) i(1) u it by cases (auto simp: entries_ok_def)
  qed
  then show ?thesis using True w n(1) i(1) e(1) by (simp add: entries_ok_def)
next
  case False
  then show ?thesis using entries_ok_update [OF e(1), of "unat idx"] e(2) by (simp add: word_less_nat_alt)
qed

lemma del_ok:
  assumes ok: "iters_ok r" and l: "idx < ht_iterators_used r"
  shows "\<exists>r'. zend_hash_iterator_del idx r = Some r' \<and> iters_ok r'"
proof -
  let ?its = "ht_iterators r" and ?i = "unat idx" and ?u = "ht_iterators_used r"
  let ?it = "(?its ! ?i)\<lparr>iter_ht := NULL_TABLE\<rparr>"
  let ?its' = "?its[?i := ?it]" and ?u' = "if idx = ?u - 1 then word_of_nat (trim_iterators (?its[?i := ?it]) ?i) else ?u"
  have e: "entries_ok ?its ?u" and c: "\<And>t. count_ok (live_tables r t) (refs t ?its)" using ok by (simp_all add: iters_ok_def)
  note i = entry_at [OF e l]
  have at: "iterator_at idx r = Some (?its ! ?i)" using i by (simp add: iterator_at_def nth_opt_def)
  have e': "entries_ok ?its' ?u'" using del_entries [OF e l, of ?it] by simp
  have gone: "refs t ?its' = refs t ?its" if "iter_ht (?its ! ?i) \<noteq> Table_At t" for t
    using refs_update [OF i(1), of t ?it] that by simp
  show ?thesis
  proof (cases "\<exists>t. iter_ht (?its ! ?i) = Table_At t")
    case True
    then obtain t where t: "iter_ht (?its ! ?i) = Table_At t" by blast
    obtain lt where lt: "dec_iterators t (Table_At t) r = Some (r\<lparr>live_tables := lt\<rparr>)"
      "\<And>t'. t' \<noteq> t \<Longrightarrow> lt t' = live_tables r t'" "count_ok (lt t) (refs t ?its')"
      "\<exists>ht. live_tables r t = Some ht \<and> (HT_ITERATORS_OVERFLOW ht \<or> nIteratorsCount ht \<noteq> 0)"
      using leave_ok [OF ok i(1) t, of ?it] by auto
    have "iters_ok (r\<lparr>live_tables := lt, ht_iterators := ?its', ht_iterators_used := ?u'\<rparr>)"
      using e' lt(2,3) gone c t unfolding iters_ok_def by (simp, metis table_ref.inject)
    then show ?thesis using at t lt(1,4) by (auto simp: zend_hash_iterator_del_def Let_def)
  next
    case False
    then have "iters_ok (r\<lparr>ht_iterators := ?its', ht_iterators_used := ?u'\<rparr>)" using e' gone c by (simp add: iters_ok_def)
    moreover have "(case iter_ht (?its ! ?i) of Table_At t \<Rightarrow> f t | _ \<Rightarrow> Some r) = Some r" for f
      using False by (cases "iter_ht (?its ! ?i)") auto
    ultimately show ?thesis using at by (simp add: zend_hash_iterator_del_def Let_def)
  qed
qed


text \<open>The entries behind the used ones do not matter.\<close>

lemma map_used_ok:
  assumes "entries_ok its used" "\<And>it. iter_ht it = NULL_TABLE \<Longrightarrow> f it = it"
  shows "map f (take (unat used) its) @ drop (unat used) its = map f its"
proof -
  have "f it = it" if "it \<in> set (drop (unat used) its)" for it
    using that assms by (auto simp: in_set_conv_nth entries_ok_def)
  then have "drop (unat used) its = map f (drop (unat used) its)" by (simp add: map_idI)
  then show ?thesis using append_take_drop_id [of "unat used" its] by (metis map_append)
qed

lemma entries_ok_map: "entries_ok its used \<Longrightarrow> (\<And>it. iter_ht it = NULL_TABLE \<Longrightarrow> f it = it) \<Longrightarrow> entries_ok (map f its) used"
  by (simp add: entries_ok_def)

lemma map_used_eq:
  assumes "iters_ok r" "\<And>it. iter_ht it = NULL_TABLE \<Longrightarrow> f it = it"
  shows "map_used f r = r\<lparr>ht_iterators := map f (ht_iterators r)\<rparr>"
  using map_used_ok [OF _ assms(2)] assms(1) by (simp add: map_used_def iters_ok_def Let_def)

lemma move_ok:
  assumes "iters_ok r" "\<And>it. iter_ht it = NULL_TABLE \<Longrightarrow> f it = it" "\<And>it. iter_ht (f it) = iter_ht it"
  shows "iters_ok (map_used f r)"
  using assms entries_ok_map [OF _ assms(2)] refs_map [of "ht_iterators r" f] by (simp add: map_used_eq iters_ok_def)

lemma no_iterators:
  assumes "iters_ok r" "live_tables r t = Some ht" "nIteratorsCount ht = 0" "it \<in> set (ht_iterators r)"
  shows "iter_ht it \<noteq> Table_At t"
proof -
  have "count_ok (live_tables r t) (refs t (ht_iterators r))" using assms(1) by (simp add: iters_ok_def)
  then have "refs t (ht_iterators r) = 0" using assms(2,3) by (simp add: count_ok_def HT_ITERATORS_OVERFLOW_def)
  then show ?thesis using assms(4) by (simp add: refs_def filter_empty_conv)
qed

lemma destroy_ok:
  assumes ok: "iters_ok r" and l: "live_tables r t \<noteq> None"
  shows "\<exists>r'. registry_destroy t r = Some r' \<and> iters_ok r'"
proof -
  obtain ht where ht: "live_tables r t = Some ht" using l by blast
  let ?f = "\<lambda>it. if iter_ht it = Table_At t then it\<lparr>iter_ht := HT_POISONED_PTR\<rparr> else it"
  have "map ?f (ht_iterators r) = ht_iterators r" if "nIteratorsCount ht = 0"
    using no_iterators [OF ok ht that] by (intro map_idI) simp
  then have "registry_destroy t r = Some (r\<lparr>ht_iterators := map ?f (ht_iterators r), live_tables := (live_tables r)(t := None)\<rparr>)"
    using ht map_used_eq [OF ok, of ?f] by (cases "nIteratorsCount ht = 0") (simp_all add: registry_destroy_def registry_remove_def)
  moreover have "count_ok (((live_tables r)(t := None)) t') (refs t' (map ?f (ht_iterators r)))" for t'
  proof (cases "t' = t")
    case True
    have "refs t (map ?f its) = 0" for its by (induction its) auto
    then show ?thesis using True by (simp add: count_ok_def)
  next
    case False
    then have "refs t' (map ?f (ht_iterators r)) = refs t' (ht_iterators r)" by (intro refs_map) simp
    then show ?thesis using False ok by (simp add: iters_ok_def)
  qed
  moreover have "entries_ok (map ?f (ht_iterators r)) (ht_iterators_used r)"
    using ok by (intro entries_ok_map) (simp_all add: iters_ok_def)
  ultimately show ?thesis by (simp add: iters_ok_def)
qed

lemma step_ok:
  assumes ok: "iters_ok r" and l: "iter_legal r e"
  shows "\<exists>r'. iter_step e r = Some r' \<and> iters_ok r'"
proof (cases e)
  case (Iter_New t ht)
  have "count_ok (live_tables r t) (refs t (ht_iterators r))" using ok by (simp add: iters_ok_def)
  then have "count_ok (Some ht) (refs t (ht_iterators r))" using l Iter_New by (simp add: count_ok_def)
  then show ?thesis using ok Iter_New by (simp add: iters_ok_def)
next
  case (Iter_Destroy t)
  then show ?thesis using destroy_ok [OF ok, of t] l by simp
next
  case (Iter_Write t ht)
  then obtain ht0 where ht0: "live_tables r t = Some ht0" "nIteratorsCount ht0 = nIteratorsCount ht" "ht_ok ht" using l by auto
  then have "count_ok (Some ht) (refs t (ht_iterators r))"
    using ok unfolding iters_ok_def by (metis (mono_tags, lifting) HT_ITERATORS_OVERFLOW_def count_ok_def option.simps(5))
  then show ?thesis using ok Iter_Write by (simp add: iters_ok_def)
next
  case (Iter_Add t pos)
  then show ?thesis using iter_add_ok [OF ok, of t pos] l by auto
next
  case (Iter_Pos idx t)
  then show ?thesis using pos_ok [OF ok, of t idx] l by auto
next
  case (Iter_Del idx)
  then show ?thesis using del_ok [OF ok, of idx] l by simp
next
  case (Iter_Set idx pos)
  have e: "entries_ok (ht_iterators r) (ht_iterators_used r)" using ok by (simp add: iters_ok_def)
  have i: "unat idx < unat (ht_iterators_used r)" "unat idx < length (ht_iterators r)"
    using l Iter_Set entry_at [OF e] by (simp_all add: word_less_nat_alt)
  have "refs t ((ht_iterators r)[unat idx := (ht_iterators r ! unat idx)\<lparr>iter_pos := pos\<rparr>]) = refs t (ht_iterators r)" for t
    using refs_update [OF i(2), of t "(ht_iterators r ! unat idx)\<lparr>iter_pos := pos\<rparr>"] by simp
  then show ?thesis using Iter_Set i(2) ok entries_ok_update [OF e i(1)] by (simp add: nth_opt_def iters_ok_def)
next
  case (Iter_Update t p q)
  then show ?thesis using l ok move_ok [OF ok] by (auto simp: registry_update_def registry_update_all_def)
next
  case (Iter_Advance t step)
  then show ?thesis using move_ok [OF ok] by (simp add: registry_advance_def)
qed

lemma reach_ok: "registry_reach r \<Longrightarrow> iters_ok r"
proof (induction rule: registry_reach.induct)
  case reach_start
  show ?case by (auto simp: iters_ok_def init_iterators_def entries_ok_def count_ok_def intro!: refs_null)
next
  case (reach_step r e r')
  then show ?case using step_ok by fastforce
qed

lemma reach_the: "registry_reach r \<Longrightarrow> iter_legal r e \<Longrightarrow> registry_reach (the (iter_step e r))"
  using reach_step step_ok reach_ok by fastforce


lemma inc_iterators_eq:
  assumes "live_tables r t = Some ht"
  shows "inc_iterators t r = Some (r\<lparr>live_tables := (live_tables r)(t := Some (ht\<lparr>nIteratorsCount :=
    (if nIteratorsCount ht = 0xff then 0xff else nIteratorsCount ht + 1)\<rparr>))\<rparr>)"
proof (cases "nIteratorsCount ht = 0xff")
  case True
  then have "ht\<lparr>nIteratorsCount := 0xff\<rparr> = ht" by (cases ht) simp
  then have "r\<lparr>live_tables := (live_tables r)(t := Some (ht\<lparr>nIteratorsCount := 0xff\<rparr>))\<rparr> = r" using assms by (simp add: fun_upd_idem)
  then show ?thesis using True assms by (simp add: inc_iterators_def HT_ITERATORS_OVERFLOW_def)
qed (use assms in \<open>simp add: inc_iterators_def HT_ITERATORS_OVERFLOW_def set_iterators_count_def\<close>)

lemma add_effect:
  assumes "live_tables r t = Some ht" "zend_hash_iterator_add t pos r = Some (idx, r')"
  shows "live_tables r' = (live_tables r)(t := Some (ht\<lparr>nIteratorsCount :=
      (if nIteratorsCount ht = 0xff then 0xff else nIteratorsCount ht + 1)\<rparr>))"
    "length (ht_iterators r') \<le> length (ht_iterators r) + 8" "refs t (ht_iterators r') = Suc (refs t (ht_iterators r))"
proof -
  let ?its = "ht_iterators r" and ?it = "\<lparr>iter_ht = Table_At t, iter_pos = pos\<rparr>"
  have "live_tables r' = (live_tables r)(t := Some (ht\<lparr>nIteratorsCount :=
      (if nIteratorsCount ht = 0xff then 0xff else nIteratorsCount ht + 1)\<rparr>)) \<and>
    length (ht_iterators r') \<le> length ?its + 8 \<and> refs t (ht_iterators r') = Suc (refs t ?its)"
  proof (cases "first_free ?its")
    case None
    then show ?thesis using assms(2) inc_iterators_eq [OF assms(1)]
      by (auto simp: zend_hash_iterator_add_def Let_def refs_null)
  next
    case (Some i)
    then have i: "i < length ?its" "iter_ht (?its ! i) = NULL_TABLE" by (simp_all add: first_free_Some)
    then have "refs t (?its[i := ?it]) = Suc (refs t ?its)" using refs_update [OF i(1), of t ?it] by simp
    then show ?thesis using assms(2) inc_iterators_eq [OF assms(1)] Some
      by (auto simp: zend_hash_iterator_add_def Let_def)
  qed
  then show "live_tables r' = (live_tables r)(t := Some (ht\<lparr>nIteratorsCount :=
      (if nIteratorsCount ht = 0xff then 0xff else nIteratorsCount ht + 1)\<rparr>))"
    "length (ht_iterators r') \<le> length ?its + 8" "refs t (ht_iterators r') = Suc (refs t ?its)" by simp_all
qed

text \<open>A program makes an array and starts an iterator on it.\<close>

definition ex_registry :: "nat iterators" where
  "ex_registry = the (iter_step (Iter_Add 5 1) (the (iter_step (Iter_New 5 ex_table) init_iterators)))"

lemma ex_registry_reach: "registry_reach ex_registry"
proof -
  have "nIteratorsCount ex_table = 0" by code_simp
  then have "iter_legal init_iterators (Iter_New 5 ex_table)" using ex_table_ok(1) by (simp add: init_iterators_def)
  then have "registry_reach (the (iter_step (Iter_New 5 ex_table) init_iterators))" by (rule reach_the [OF reach_start])
  moreover have "iter_legal (the (iter_step (Iter_New 5 ex_table) init_iterators)) (Iter_Add 5 1)"
    by (simp add: init_iterators_def)
  ultimately show ?thesis unfolding ex_registry_def by (rule reach_the)
qed

lemma ex_registry_facts:
  "live_tables ex_registry 5 = Some (ex_table\<lparr>nIteratorsCount := 1\<rparr>)" "0 < ht_iterators_used ex_registry"
proof -
  let ?r = "the (iter_step (Iter_New 5 ex_table) init_iterators)"
  have c: "nIteratorsCount ex_table = 0" by code_simp
  have "iter_legal init_iterators (Iter_New 5 ex_table)" using ex_table_ok(1) c by (simp add: init_iterators_def)
  then have "registry_reach ?r" by (rule reach_the [OF reach_start])
  then obtain idx r' where add: "zend_hash_iterator_add 5 1 ?r = Some (idx, r')" "idx < ht_iterators_used r'"
    using iter_add_ok [OF reach_ok, of ?r 5 1] by (auto simp: init_iterators_def)
  then have r': "ex_registry = r'" by (simp add: ex_registry_def)
  show "live_tables ex_registry 5 = Some (ex_table\<lparr>nIteratorsCount := 1\<rparr>)"
    using add_effect(1) [OF _ add(1), of ex_table] c by (simp add: r' init_iterators_def)
  show "0 < ht_iterators_used ex_registry" using add(2) r' word_gt_0 by fastforce
qed


subsection \<open>The registry and the single array\<close>

text \<open>The array with the positions of its iterators.\<close>

definition ht_view :: "'v iterators \<Rightarrow> nat \<Rightarrow> 'v hashtable \<Rightarrow> 'v hashtable" where
  "ht_view r t ht = ht\<lparr>ht_iters := map iter_pos (filter (\<lambda>it. iter_ht it = Table_At t) (ht_iterators r))\<rparr>"

lemma used_refs:
  assumes "entries_ok its used"
  shows "filter (\<lambda>it. iter_ht it = Table_At t) (take (unat used) its) = filter (\<lambda>it. iter_ht it = Table_At t) its"
proof -
  have "filter (\<lambda>it. iter_ht it = Table_At t) (drop (unat used) its) = []"
    using assms by (auto simp: filter_empty_conv in_set_conv_nth entries_ok_def)
  then show ?thesis by (metis append_Nil2 append_take_drop_id filter_append)
qed

lemma lower_pos_fold:
  "fold (\<lambda>it res. if iter_ht it = Table_At t \<and> iter_pos it \<ge> lo \<and> iter_pos it < res then iter_pos it else res) its n =
   fold (\<lambda>pos res. if pos \<ge> lo \<and> pos < res then pos else res) (map iter_pos (filter (\<lambda>it. iter_ht it = Table_At t) its)) n"
  by (induction its arbitrary: n) auto

lemma filter_map_same:
  assumes "\<And>it. iter_ht (f it) = iter_ht it"
  shows "map iter_pos (filter (\<lambda>it. iter_ht it = Table_At t) (map f its)) =
    map (\<lambda>it. iter_pos (f it)) (filter (\<lambda>it. iter_ht it = Table_At t) its)"
  using assms by (induction its) auto

lemma view_update_all:
  assumes "iters_ok r"
  shows "ht_view (registry_update_all t p q r) t ht = zend_hash_iterators_update_all (ht_view r t ht) p q"
    "t' \<noteq> t \<Longrightarrow> ht_view (registry_update_all t p q r) t' ht' = ht_view r t' ht'"
proof -
  let ?f = "\<lambda>it. if iter_ht it = Table_At t \<and> iter_pos it = p then it\<lparr>iter_pos := q\<rparr> else it"
  have f: "registry_update_all t p q r = r\<lparr>ht_iterators := map ?f (ht_iterators r)\<rparr>"
    unfolding registry_update_all_def by (rule map_used_eq [OF assms]) simp
  have g: "map iter_pos (filter (\<lambda>it. iter_ht it = Table_At x) (map ?f (ht_iterators r))) =
      map (\<lambda>it. iter_pos (?f it)) (filter (\<lambda>it. iter_ht it = Table_At x) (ht_iterators r))" for x
    by (rule filter_map_same) simp
  have "map (\<lambda>it. iter_pos (?f it)) (filter (\<lambda>it. iter_ht it = Table_At t) (ht_iterators r)) =
      map (\<lambda>pos. if pos = p then q else pos) (map iter_pos (filter (\<lambda>it. iter_ht it = Table_At t) (ht_iterators r)))"
    by simp
  then show "ht_view (registry_update_all t p q r) t ht = zend_hash_iterators_update_all (ht_view r t ht) p q"
    unfolding f using g [of t] by (simp add: ht_view_def zend_hash_iterators_update_all_def)
  show "ht_view (registry_update_all t p q r) t' ht' = ht_view r t' ht'" if "t' \<noteq> t"
    unfolding f using that g [of t'] by (simp add: ht_view_def cong: map_cong)
qed

lemma view_update:
  assumes ok: "iters_ok r" and t: "live_tables r t = Some ht"
  shows "\<exists>r'. registry_update t p q r = Some r' \<and> ht_view r' t ht = zend_hash_iterators_update (ht_view r t ht) p q \<and>
    ht_view r' t ht = zend_hash_iterators_update_all (ht_view r t ht) p q \<and>
    (\<forall>t' ht'. t' \<noteq> t \<longrightarrow> ht_view r' t' ht' = ht_view r t' ht')"
proof (cases "nIteratorsCount ht = 0")
  case True
  then have "filter (\<lambda>it. iter_ht it = Table_At t) (ht_iterators r) = []"
    using no_iterators [OF ok t] by (simp add: filter_empty_conv)
  then show ?thesis using True t
    by (simp add: registry_update_def ht_view_def zend_hash_iterators_update_def zend_hash_iterators_update_all_def)
next
  case False
  then have "nIteratorsCount (ht_view r t ht) \<noteq> 0" by (simp add: ht_view_def)
  then show ?thesis using False t view_update_all [OF ok] by (simp add: registry_update_def zend_hash_iterators_update_def)
qed

lemma view_advance:
  assumes "iters_ok r"
  shows "ht_view (registry_advance t step r) t ht = zend_hash_iterators_advance (ht_view r t ht) step"
proof -
  let ?g = "\<lambda>it. if iter_ht it = Table_At t then it\<lparr>iter_pos := iter_pos it + step\<rparr> else it"
  have "map_used ?g r = r\<lparr>ht_iterators := map ?g (ht_iterators r)\<rparr>" by (rule map_used_eq [OF assms]) simp
  moreover have "map iter_pos (filter (\<lambda>it. iter_ht it = Table_At t) (map ?g (ht_iterators r))) =
      map (\<lambda>it. iter_pos (?g it)) (filter (\<lambda>it. iter_ht it = Table_At t) (ht_iterators r))"
    by (rule filter_map_same) simp
  ultimately show ?thesis by (simp add: registry_advance_def ht_view_def zend_hash_iterators_advance_def)
qed



subsection \<open>An iterator that moves to another array\<close>

text \<open>\<open>n\<close> iterators on the array at 1, none on the array at 2.\<close>

lemma crowded:
  "n \<le> 1000 \<Longrightarrow> \<exists>r ht. registry_reach r \<and> live_tables r 1 = Some ht \<and> live_tables r 2 = Some ex_table \<and>
     nIteratorsCount ht = word_of_nat (min n 255) \<and> refs 1 (ht_iterators r) = n \<and> length (ht_iterators r) \<le> 16 + 8 * n"
proof (induction n)
  case 0
  let ?r = "the (iter_step (Iter_New 1 ex_table) init_iterators)" and ?r' = "the (iter_step (Iter_New 2 ex_table) (the (iter_step (Iter_New 1 ex_table) init_iterators)))"
  have c: "nIteratorsCount ex_table = 0" by code_simp
  have "registry_reach ?r" using ex_table_ok(1) c by (intro reach_the [OF reach_start]) (simp add: init_iterators_def)
  then have "registry_reach ?r'" using ex_table_ok(1) c by (elim reach_the) (simp add: init_iterators_def)
  then show ?case using c by (intro exI [of _ ?r'] exI [of _ ex_table]) (auto simp: init_iterators_def intro: refs_null)
next
  case (Suc n)
  then obtain r ht where r: "registry_reach r" "live_tables r 1 = Some ht" "live_tables r 2 = Some ex_table"
    "nIteratorsCount ht = word_of_nat (min n 255)" "refs 1 (ht_iterators r) = n" "length (ht_iterators r) \<le> 16 + 8 * n" by auto
  have l: "iter_legal r (Iter_Add 1 0)" using r(2,6) Suc.prems by simp
  then obtain idx r' where add: "zend_hash_iterator_add 1 0 r = Some (idx, r')" using iter_add_ok [OF reach_ok [OF r(1)], of 1 0] by auto
  then have reach: "registry_reach r'" by (intro reach_step [OF r(1) l]) simp
  note e = add_effect [OF r(2) add]
  have "unat (word_of_nat m :: u8) = m" if "m \<le> 255" for m
    using that by (simp add: unsigned_of_nat take_bit_nat_eq_self_iff)
  from this [of "min n 255"] have "(word_of_nat (min n 255) :: u8) = 0xff \<longleftrightarrow> n \<ge> 255"
    by (auto simp: word_unat_eq_iff)
  then have "(if nIteratorsCount ht = 0xff then 0xff else nIteratorsCount ht + 1) = word_of_nat (min (Suc n) 255)"
    unfolding r(4) by (auto simp: min_def)
  then show ?case using reach e r(3,5,6) by (intro exI [of _ r']) simp
qed


fun iter_run :: "'v iter_op list \<Rightarrow> 'v iterators \<Rightarrow> 'v iterators option" where
  "iter_run [] r = Some r"
| "iter_run (e # es) r = do { r \<leftarrow> iter_step e r; iter_run es r }"

lemma some_entry:
  assumes "entries_ok its used" "refs t its > 0"
  obtains idx where "idx < used" "unat idx < length its" "iter_ht (its ! unat idx) = Table_At t"
proof -
  obtain i where i: "i < length its" "iter_ht (its ! i) = Table_At t"
    using assms(2) by (auto simp: refs_def filter_empty_conv in_set_conv_nth)
  have u: "unat (word_of_nat i :: u32) = i" using i(1) assms(1) by (simp add: entries_ok_def unat_of_nat32)
  moreover have "i < unat used" using i assms(1) by (metis entries_ok_def leI table_ref.distinct(3))
  ultimately show thesis using that [of "word_of_nat i"] i by (simp add: word_less_nat_alt)
qed

text \<open>An array whose count is one too low: deleting its iterators brings the count to 0 when one is left.\<close>

lemma delete_all_but_one:
  assumes "entries_ok (ht_iterators r) (ht_iterators_used r)" "live_tables r t = Some ht"
    "nIteratorsCount ht = word_of_nat k" "k \<le> 254" "refs t (ht_iterators r) = Suc k"
  shows "\<exists>idxs r' ht'. iter_run (map Iter_Del idxs) r = Some r' \<and> live_tables r' t = Some ht' \<and> nIteratorsCount ht' = 0 \<and>
    refs t (ht_iterators r') = 1"
  using assms
proof (induction k arbitrary: r ht)
  case 0
  then show ?case by (intro exI [of _ "[]"] exI [of _ r] exI [of _ ht]) simp
next
  case (Suc k)
  let ?its = "ht_iterators r" and ?u = "ht_iterators_used r"
  obtain idx where idx: "idx < ?u" "unat idx < length ?its" "iter_ht (?its ! unat idx) = Table_At t"
    using some_entry [OF Suc.prems(1)] Suc.prems(5) by (metis zero_less_Suc)
  let ?it = "(?its ! unat idx)\<lparr>iter_ht := NULL_TABLE\<rparr>"
  let ?its' = "?its[unat idx := ?it]" and ?ht = "ht\<lparr>nIteratorsCount := word_of_nat k\<rparr>"
  let ?u' = "if idx = ?u - 1 then word_of_nat (trim_iterators ?its' (unat idx)) else ?u"
  let ?r = "r\<lparr>live_tables := (live_tables r)(t := Some ?ht), ht_iterators := ?its', ht_iterators_used := ?u'\<rparr>"
  have c: "unat (nIteratorsCount ht) = Suc k"
    using Suc.prems(3,4) by (simp add: unsigned_of_nat take_bit_nat_eq_self_iff del: of_nat_Suc)
  then have "nIteratorsCount ht \<noteq> 0xff" "nIteratorsCount ht \<noteq> 0"
    using Suc.prems(4) by (auto simp: word_unat_eq_iff)
  moreover have "nIteratorsCount ht - 1 = word_of_nat k" using Suc.prems(3) by simp
  ultimately have n: "nIteratorsCount ht \<noteq> 0xff" "nIteratorsCount ht \<noteq> 0" "nIteratorsCount ht - 1 = word_of_nat k" .
  have "iterator_at idx r = Some (?its ! unat idx)"
    using idx(2) entry_at(2) [OF Suc.prems(1) idx(1)] by (simp add: iterator_at_def nth_opt_def)
  then have del: "zend_hash_iterator_del idx r = Some ?r"
    using idx(3) n Suc.prems(2)
    by (simp add: zend_hash_iterator_del_def dec_iterators_def set_iterators_count_def HT_ITERATORS_OVERFLOW_def Let_def)
  have "entries_ok ?its' ?u'" using del_entries [OF Suc.prems(1) idx(1), of ?it] by simp
  moreover have "refs t ?its' = Suc k" using refs_update [OF idx(2), of t ?it] idx(3) Suc.prems(5) by simp
  ultimately obtain idxs r' ht' where "iter_run (map Iter_Del idxs) ?r = Some r'" "live_tables r' t = Some ht'"
    "nIteratorsCount ht' = 0" "refs t (ht_iterators r') = 1"
    using Suc.IH [of ?r ?ht] Suc.prems(4) by auto
  then show ?case using del by (intro exI [of _ "idx # idxs"] exI [of _ r'] exI [of _ ht']) simp
qed

text \<open>C40: \<open>zend_hash_iterator_pos_ex\<close> tests the count of the array that the iterator moves to, and then lowers
  the count of the array it leaves. If that one has more than 255 iterators its count is too low afterwards:
  there is a state the other operations lead to, in which such a move, the deletion of other iterators
  and the end of the array leave an iterator that still points to the freed array.\<close>

theorem iterator_pos_ex_leaves_dangling:
  "\<exists>r idx p r1 idxs r2 r3. registry_reach (r :: nat iterators) \<and> idx < ht_iterators_used r \<and>
    zend_hash_iterator_pos_ex sole_ref immutable idx 2 None r = Some (p, r1) \<and>
    iter_run (map Iter_Del idxs) r1 = Some r2 \<and> registry_destroy 1 r2 = Some r3 \<and>
    live_tables r3 1 = None \<and> refs 1 (ht_iterators r3) = 1"
proof -
  obtain r :: "nat iterators" and ht where r: "registry_reach r" "live_tables r 1 = Some ht" "live_tables r 2 = Some ex_table"
    "nIteratorsCount ht = 0xff" "refs 1 (ht_iterators r) = 256"
    using crowded [of 256] by auto
  let ?its = "ht_iterators r" and ?u = "ht_iterators_used r" and ?ht = "ht\<lparr>nIteratorsCount := 0xfe\<rparr>"
  have e: "entries_ok ?its ?u" using reach_ok [OF r(1)] by (simp add: iters_ok_def)
  obtain idx where idx: "idx < ?u" "unat idx < length ?its" "iter_ht (?its ! unat idx) = Table_At 1"
    using some_entry [OF e, of 1] r(5) by auto
  have c: "nIteratorsCount ex_table = 0" by code_simp
  have "ht_ok (ex_table\<lparr>nIteratorsCount := 1\<rparr>)" using ex_table_ok(1) by simp
  then obtain p where p: "zend_hash_get_current_pos (ex_table\<lparr>nIteratorsCount := 1\<rparr>) = Some p" using current_pos_ok by blast
  let ?it = "\<lparr>iter_ht = Table_At 2, iter_pos = p\<rparr>"
  let ?r1 = "r\<lparr>live_tables := (live_tables r)(1 := Some ?ht, 2 := Some (ex_table\<lparr>nIteratorsCount := 1\<rparr>)), ht_iterators := ?its[unat idx := ?it]\<rparr>"
  have "iterator_at idx r = Some (?its ! unat idx)"
    using idx(2) entry_at(2) [OF e idx(1)] by (simp add: iterator_at_def nth_opt_def)
  then have ex: "zend_hash_iterator_pos_ex sole_ref immutable idx 2 None r = Some (p, ?r1)"
    using idx(3) r(2-4) c p
    by (simp add: zend_hash_iterator_pos_ex_def dec_iterators_def set_iterators_count_def HT_ITERATORS_OVERFLOW_def
        move_iterator_def inc_iterators_def)
  have "refs 1 (?its[unat idx := ?it]) = Suc 254" using refs_update [OF idx(2), of 1 ?it] idx(3) r(5) by simp
  moreover have "entries_ok (?its[unat idx := ?it]) ?u" using entries_ok_update [OF e] idx(1) by (simp add: word_less_nat_alt)
  ultimately obtain idxs r2 ht2 where r2: "iter_run (map Iter_Del idxs) ?r1 = Some r2" "live_tables r2 1 = Some ht2"
    "nIteratorsCount ht2 = 0" "refs 1 (ht_iterators r2) = 1"
    using delete_all_but_one [of ?r1 1 ?ht 254] by auto
  let ?r3 = "r2\<lparr>live_tables := (live_tables r2)(1 := None)\<rparr>"
  have "registry_destroy 1 r2 = Some ?r3" "live_tables ?r3 1 = None" "refs 1 (ht_iterators ?r3) = 1"
    using r2(2-4) by (simp_all add: registry_destroy_def registry_remove_def)
  then show ?thesis using r(1) idx(1) ex r2(1) by blast
qed

end
