(* ===== verification/Spec2Isabelle.thy ===== *)
theory Spec2Isabelle
  imports C_Prelude Murmur3 Edit_Distance Hashmap Keyed_Store Hashmap_Correct Crc32c
    Zend_Cfg Zend_Cfg_Correct Zend_Cfg_Blocks Zend_Bitset Zend_Bitset_Correct Zend_Worklist Zend_Arena
    Pcov_State Pcov_Feedback Pcov_Redqueen Pcov_Trace Pcov_Oracle Pcov_Report Pcov_Module
    Pcov_Safety Pcov_Correct Pcov_Report_Correct Nyx_Agent
    Zend_String Zend_Hash Zend_Hash_Ops Zend_Hash_Chains Zend_Hash_Correct Zend_Hash_Map Zend_Hash_Delete
    Zend_Hash_Store Zend_Hash_Sizes Zend_Hash_Examples
    Zend_Symtable Zend_Symtable_Correct Engine_Hooks Engine_Arrays Zend_Vector Engine_Hooks_Correct
    Zend_Memnstr Zend_Memnstr_Correct Engine_Strings Engine_Strings_Correct
    Zend_Sort Zend_Sort_Correct Zend_Hash_Bulk Zend_Hash_Order Zend_Hash_Order_Correct Zend_Hash_Compare_Correct
    Zend_Hash_Dup_Correct Zend_Iterators Zend_Iterators_Correct
begin

text \<open>
  A model of the coverage and feedback side of the fuzzer Atropos for PHP, and proofs about it.

  \<^bold>\<open>The program.\<close> The repository has three parts that meet at run time. The extension
  \<open>src/pcov-patched\<close> is loaded by PHP: it traces executed instructions into a bitmap that it shares
  with the fuzzer, collects the strings that a program compares or looks up, keeps a list of executed lines
  for reports, and decides which error messages are bugs. PHP itself, \<open>src/php-7.4-patched\<close>, has been patched so
  that its arrays, string functions and functions for files, processes and databases call the extension through
  six function pointers. The agent \<open>src/fuzzer/nyx.c\<close> runs in the same virtual machine: it sets the
  bitmap up with the hypervisor, hands the payload over, and reports crashes. The model has these parts and
  their composition: an operation of an array returns the calls of the pointers that it makes,
  \<open>deliver\<close> (theory \<open>Engine_Hooks\<close>) does with them what the extension does, and the
  dumped bytes are parsed back as the fuzzer's \<open>parse_redqueen_file\<close> in \<open>fuzzer/misc.py\<close> does.

  \<^bold>\<open>Conventions.\<close> C structures are records, enumerations are datatypes, integers are words of their width, strings
  are lists of bytes. State is passed explicitly. \<open>None\<close> stands for undefined behaviour: an access outside of an
  array, a read of memory that was not written, a violated assertion; a theorem that an operation
  returns \<open>Some\<close> is therefore also a statement of memory safety. Loops that are not structurally recursive are
  functions with a termination proof, or partial functions for which \<open>None\<close> is also not to return; then the
  theorems show that they do return.

  \<^bold>\<open>The theories.\<close> First what everything uses:
  \<^item> \<open>C_Prelude\<close>: types, words, little-endian bytes. \<open>Keyed_Store\<close>: the contract of a keyed container as a
    locale, with what follows for sequences of operations; the hash map of the extension
    (\<open>hm\<close>), the arrays of PHP (\<open>zh\<close>) and the arrays as programs write them (\<open>sym\<close>) are interpretations of it.

  The extension and its libraries:
  \<^item> \<open>Murmur3\<close>: \<open>murmur3.h\<close>, with bijections and the padding of tails.
  \<^item> \<open>Edit_Distance\<close>: \<open>levenshtein\<close> of \<open>pcov.c\<close> computes the least number of edits.
  \<^item> \<open>Hashmap\<close>, \<open>Hashmap_Correct\<close>, \<open>Crc32c\<close>: \<open>hashmap.h\<close>, refined by finite maps; its checksum is CRC-32C.
  \<^item> \<open>Zend_Cfg\<close>, \<open>Zend_Cfg_Correct\<close>, \<open>Zend_Cfg_Blocks\<close>: the control flow graphs of \<open>cfg/704/zend_cfg.c\<close>. The search
    marks exactly what is reachable; the blocks partition the code and cover every execution, which is a step
    relation on instructions.
  \<^item> \<open>Zend_Bitset\<close>, \<open>Zend_Bitset_Correct\<close>, \<open>Zend_Worklist\<close>, \<open>Zend_Arena\<close>: the containers that the graphs use. A
    bit set is a set, and meets the contract (a locale) that the work list needs of its visited set; arena
    allocations do not overlap.
  \<^item> \<open>Pcov_State\<close>, \<open>Pcov_Feedback\<close>, \<open>Pcov_Trace\<close>, \<open>Pcov_Oracle\<close>, \<open>Pcov_Report\<close>, \<open>Pcov_Module\<close>: \<open>pcov.c\<close>. The globals
    are the record \<open>pcov\<close>; what is sent to the host is the list \<open>outputs\<close>, and an access out of bounds sets
    \<open>fault\<close>. \<open>Pcov_Module\<close> has the step relation whose steps are all calls of the engine.
  \<^item> \<open>Pcov_Safety\<close>, \<open>Pcov_Correct\<close>, \<open>Pcov_Redqueen\<close>, \<open>Pcov_Report_Correct\<close>: no reachable state has a fault, dumped strings parse
    back, an instruction limit ends every execution, reports mark exactly the executed lines, and what
    the oracle reports.
  \<^item> \<open>Nyx_Agent\<close>: \<open>fuzzer/nyx.c\<close> and \<open>nyx.h\<close>; the bitmap is only written inside.

  PHP with its hooks, \<open>src/php-7.4-patched\<close>:
  \<^item> \<open>Zend_String\<close>: strings, their hash and comparisons (\<open>Zend/zend_string.c\<close>, \<open>zend_string.h\<close>).
  \<^item> \<open>Zend_Hash\<close>, \<open>Zend_Hash_Ops\<close>: the arrays (\<open>Zend/zend_hash.c\<close>, \<open>zend_hash.h\<close>): buckets, chains, packed tables, resizing,
    rehashing with iterators, lookups with hooks, insertions, deletions, positions.
  \<^item> \<open>Zend_Hash_Chains\<close>, \<open>Zend_Hash_Correct\<close>, \<open>Zend_Hash_Map\<close>, \<open>Zend_Hash_Delete\<close>, \<open>Zend_Hash_Store\<close>, \<open>Zend_Hash_Sizes\<close>,
    \<open>Zend_Hash_Examples\<close>: the invariant \<open>ht_ok\<close> and the ordered map \<open>ht_list\<close> of a table, and that each operation is the
    operation on ordered maps, for tables of less than $2^{30}$ elements; larger tables fault.
  \<^item> \<open>Zend_Sort\<close>, \<open>Zend_Sort_Correct\<close>: \<open>zend_sort\<close> and its insertion sort (\<open>Zend/zend_sort.c\<close>) on any memory, with a comparison that may answer
    anything. What a swap must do is the locale \<open>swapping\<close>, of which the three swaps of buckets are interpretations.
  \<^item> \<open>Zend_Hash_Bulk\<close>, \<open>Zend_Hash_Order\<close>, \<open>Zend_Hash_Order_Correct\<close>, \<open>Zend_Hash_Compare_Correct\<close>,
    \<open>Zend_Hash_Dup_Correct\<close>: operations of \<open>Zend/zend_hash.c\<close> on whole
    arrays. Destroying, copying, merging, applying functions and renaming keys are modelled. The copy that a write to a shared array makes is well-formed and has
    the same elements and current element; sorting permutes and orders the elements and keeps \<open>ht_ok\<close>,
    comparing decides whether two arrays are the same, and the search for the least element finds one.
  \<^item> \<open>Zend_Iterators\<close>, \<open>Zend_Iterators_Correct\<close>: the registry of all iterators, as a state machine: the counts of the arrays agree with it, and it
    refines the positions that the model of a single array keeps in \<open>ht_iters\<close>.
  \<^item> \<open>Zend_Symtable\<close>, \<open>Zend_Symtable_Correct\<close>: strings that are decimal numbers as integer keys, and the access to an
    element of an array (\<open>Zend/zend_execute.c\<close>).
  \<^item> \<open>Zend_Vector\<close>: loops over arrays, and arrays filled by appending.
  \<^item> \<open>Engine_Hooks\<close>, \<open>Engine_Arrays\<close>, \<open>Engine_Hooks_Correct\<close>: the other places that call the extension, and what arrives at
    the fuzzer: a key that is looked up and missing reaches it, and no sequence of calls makes a fault.
  \<^item> \<open>Zend_Memnstr\<close>, \<open>Zend_Memnstr_Correct\<close>, \<open>Engine_Strings\<close>, \<open>Engine_Strings_Correct\<close>: the searches for strings of
    \<open>Zend/zend_operators.c\<close> with their shift tables, which meet one contract (the locale \<open>first_search\<close>), and \<open>explode\<close>,
    \<open>implode\<close>, \<open>substr\<close> of \<open>ext/standard/string.c\<close>, which rely on it.

  \<^bold>\<open>Bounds and fuel.\<close> \<open>hashmap_put\<close> rehashes with a fuel of 34: each rehash doubles a table of less than $2^{32}$ elements. The
  search over the blocks has a fuel of the number of blocks and one more, since each call marks a block; the loop over the
  try blocks has that and the number of try blocks, since each pass but the last marks a block or gives a try
  block up (\<open>mark_tries_loop_ends\<close>). The report follows the list of executed lines with the length of the list as fuel. Every theorem
  states the sizes it needs: strings handed to the extension have less than $2^{31}$ bytes, arrays that still grow
  less than $2^{30}$ elements, and the string that \<open>explode\<close> cuts less than $2^{27}$ bytes.

  \<^bold>\<open>Parameters.\<close> The opcode handlers and the compiler of PHP, the answers of the operating system (the
  record \<open>os\<close>) and of the hypervisor, memory allocation, \<open>compare_function\<close> and floating point numbers, the conversion of
  other values to keys and strings, and the handlers of notices.

  \<^bold>\<open>Not modelled.\<close> Reference counts, the garbage collector and destructors of values; the conversions between property tables and
  arrays; \<open>zend_qsort\<close>, which no array uses; callbacks that change the array they are called for; the loop over bits in reverse; the write-back of a
  moved start of a try block to the engine's own table when executable lines are discovered; failures of
  \<open>asprintf\<close>; the registration of settings and constants, and the table of \<open>phpinfo\<close>. The graph builders for
  PHP 7.1 to 7.3 are not compiled with this PHP. The front end of the fuzzer is Python and Nim, the crash helpers only
  print a message, and the evaluation is scripts and data. The rest of PHP is unpatched.

  \<^bold>\<open>What was found.\<close> Theorems state where the code does not do what it means to: a failed insertion into the hash
  map loses entries, a rehash moves an iterator that stands before the hole, tables of $2^{31}$ elements have no cells, whether
  a line is dumped depends on uninitialised memory, a long bug report overruns its buffer, missing keys are reported twice, a
  strict search in an array reads numbers as strings, \<open>implode\<close> miscounts unset variables, and an iterator that moves from an array with
  more than 255 iterators can leave another one behind that points to freed memory.
\<close>

end
